(* ===== verification/Prelude.thy ===== *)
theory Prelude
  imports Main "HOL-Library.Word" "HOL-Library.Product_Lexorder"
begin

text \<open>
  Shared vocabulary of the development.  The program is C++: its fallible operations are
  modelled by the result type \<open>'a res\<close>, whose left summand records why the run of the
  program stopped (a \<open>panic\<close>, a \<open>fatal\<close>, a failed \<open>assert\<close>, or an operation
  whose behaviour the language does not define, such as a division by zero or an index past the
  end of a \<open>std::vector\<close>).  The theory also holds the generic facts about vectors
  (\<open>vec_at\<close>, \<open>vec_resize\<close>) and about the ``visit all candidates'' loop that most
  replacement policies share (\<open>scan_best\<close>).
\<close>

named_theorems res_simps \<open>evaluation and inversion of the result type\<close>
named_theorems policy_defs \<open>definitions of the replacement policies' operations\<close>

section \<open>Scalar types\<close>

type_synonym tick = "64 word"
type_synonym addr = "64 word"
type_synonym uint32 = "32 word"
type_synonym uint64 = "64 word"

lemma unat_less_pow: "unat (w :: 'a::len word) < 2 ^ LENGTH('a)"
  by (rule unsigned_less)

lemma unat_inc: "w + 1 \<noteq> 0 \<Longrightarrow> unat (w + 1) = Suc (unat w)"
  using unatSuc [of w] by (simp add: add.commute)

lemma unat_ucast_32_64 [simp]: "unat (ucast (x :: uint32) :: uint64) = unat x"
proof -
  have "unat x < 2 ^ 64" using unat_less_pow [of x] by simp
  then show ?thesis by (simp add: unsigned_ucast_eq take_bit_nat_eq_self)
qed

section \<open>Results\<close>

datatype cxx_error =
    Panic         \<comment> \<open>\<open>panic\<close>, \<open>panic_if\<close>\<close>
  | Fatal         \<comment> \<open>\<open>fatal\<close>, \<open>fatal_if\<close>\<close>
  | AssertFail    \<comment> \<open>\<open>assert\<close>\<close>
  | DivByZero     \<comment> \<open>integer division or remainder by zero\<close>
  | OutOfRange    \<comment> \<open>index past the end of a vector, or a value outside its type\<close>
  | NullDeref     \<comment> \<open>dereference of a null pointer\<close>
  | BadCall       \<comment> \<open>call of an empty \<open>std::function\<close>\<close>
  | UseAfterFree  \<comment> \<open>dereference of a pointer to a deleted object\<close>
  | Diverges      \<comment> \<open>a loop that does not end\<close>

type_synonym 'a res = "cxx_error + 'a"

definition bindR :: "'a res \<Rightarrow> ('a \<Rightarrow> 'b res) \<Rightarrow> 'b res" where
  "bindR m f = (case m of Inl e \<Rightarrow> Inl e | Inr x \<Rightarrow> f x)"

definition checkR :: "cxx_error \<Rightarrow> bool \<Rightarrow> 'a res \<Rightarrow> 'a res" where
  "checkR e b k = (if b then k else Inl e)"

lemma bindR_simps [simp]:
  "bindR (Inl e) f = Inl e"
  "bindR (Inr x) f = f x"
  by (simp_all add: bindR_def)

lemma bindR_eq_Inr_iff [res_simps]:
  "bindR m f = Inr y \<longleftrightarrow> (\<exists>x. m = Inr x \<and> f x = Inr y)"
  by (cases m) auto

lemma bindR_eq_Inl_iff [res_simps]:
  "bindR m f = Inl e \<longleftrightarrow> m = Inl e \<or> (\<exists>x. m = Inr x \<and> f x = Inl e)"
  by (cases m) auto

lemma checkR_simps [simp]:
  "checkR e True k = k"
  "checkR e False k = Inl e"
  by (simp_all add: checkR_def)

lemma checkR_eq_Inr_iff [simp]: "checkR e b k = Inr y \<longleftrightarrow> b \<and> k = Inr y"
  by (simp add: checkR_def)

lemma bindR_cong [fundef_cong]:
  "m = m' \<Longrightarrow> (\<And>x. m' = Inr x \<Longrightarrow> f x = f' x) \<Longrightarrow> bindR m f = bindR m' f'"
  by (cases m') auto

text \<open>
  The value of a loop defined as a partial function: \<open>None\<close> is the loop that does not end.
\<close>

definition loopR :: "'a res option \<Rightarrow> 'a res" where
  "loopR m = (case m of None \<Rightarrow> Inl Diverges | Some r \<Rightarrow> r)"

lemma loopR_Some [simp]: "loopR (Some r) = r"
  by (simp add: loopR_def)

section \<open>Vectors\<close>

text \<open>Reading \<open>v[i]\<close> (undefined past the end) or \<open>v.at(i)\<close> (throws past the end).\<close>

definition vec_at :: "'a list \<Rightarrow> nat \<Rightarrow> 'a res" where
  "vec_at xs i = (if i < length xs then Inr (xs ! i) else Inl OutOfRange)"

lemma vec_at_inr [simp]: "i < length xs \<Longrightarrow> vec_at xs i = Inr (xs ! i)"
  by (simp add: vec_at_def)

lemma vec_at_eq_Inr_iff [res_simps]: "vec_at xs i = Inr y \<longleftrightarrow> i < length xs \<and> xs ! i = y"
  by (auto simp: vec_at_def)

text \<open>\<open>std::vector::resize(n, x)\<close>.\<close>

definition vec_resize :: "nat \<Rightarrow> 'a \<Rightarrow> 'a list \<Rightarrow> 'a list" where
  "vec_resize n x xs = take n xs @ replicate (n - length xs) x"

lemma length_vec_resize [simp]: "length (vec_resize n x xs) = n"
  by (simp add: vec_resize_def)

lemma nth_vec_resize:
  "i < n \<Longrightarrow> vec_resize n x xs ! i = (if i < length xs then xs ! i else x)"
  by (auto simp: vec_resize_def nth_append min_def)

lemma set_vec_resize_subset: "set (vec_resize n x xs) \<subseteq> insert x (set xs)"
  using set_take_subset [of n xs] by (auto simp: vec_resize_def)

lemma list_all_update: "list_all P xs \<Longrightarrow> P x \<Longrightarrow> list_all P (xs[i := x])"
  using set_update_subset_insert [of xs i x] by (auto simp: list_all_iff)

lemma length_remove1_le: "length (remove1 x xs) \<le> length xs"
  by (simp add: length_remove1)

section \<open>Visiting all candidates\<close>

text \<open>
  The loop
  \<^verbatim>\<open>victim = candidates[0];
  for (candidate : candidates) if (better(candidate, victim)) victim = candidate;\<close>
  which returns the index of the victim.  The pair carries the current victim's index and data.
\<close>

fun scan_loop :: "('d \<Rightarrow> 'd \<Rightarrow> bool) \<Rightarrow> nat \<times> 'd \<Rightarrow> nat \<Rightarrow> 'd list \<Rightarrow> nat" where
  "scan_loop better (v, dv) i [] = v"
| "scan_loop better (v, dv) i (d # ds) =
     scan_loop better (if better d dv then (i, d) else (v, dv)) (Suc i) ds"

definition scan_best :: "('d \<Rightarrow> 'd \<Rightarrow> bool) \<Rightarrow> 'd list \<Rightarrow> nat" where
  "scan_best better ds = scan_loop better (0, hd ds) 0 ds"

text \<open>
  When \<open>better\<close> compares a key, the loop finds the first index with the least key.
  \<open>least_at key ds k\<close> says exactly that.
\<close>

definition least_at :: "('d \<Rightarrow> 'k::linorder) \<Rightarrow> 'd list \<Rightarrow> nat \<Rightarrow> bool" where
  "least_at key ds k \<longleftrightarrow> k < length ds \<and>
     (\<forall>j < length ds. key (ds ! k) \<le> key (ds ! j)) \<and>
     (\<forall>j < k. key (ds ! k) < key (ds ! j))"

lemma least_at_snoc:
  assumes "least_at key ds k"
  shows "least_at key (ds @ [d]) (if key d < key (ds ! k) then length ds else k)"
  using assms unfolding least_at_def
  by (auto simp: nth_append less_Suc_eq intro: less_imp_le less_le_trans)

lemma scan_loop_least:
  assumes "least_at key pre v"
  shows "least_at key (pre @ ds) (scan_loop (\<lambda>a b. key a < key b) (v, pre ! v) (length pre) ds)"
  using assms
proof (induction ds arbitrary: pre v)
  case Nil
  then show ?case by simp
next
  case (Cons d ds)
  let ?v = "if key d < key (pre ! v) then length pre else v"
  have step: "least_at key (pre @ [d]) ?v"
    using Cons.prems by (rule least_at_snoc)
  have nth: "(pre @ [d]) ! ?v = (if key d < key (pre ! v) then d else pre ! v)"
    using Cons.prems by (auto simp: least_at_def nth_append)
  show ?case
    using Cons.IH [OF step] by (simp add: nth split: if_splits)
qed

lemma scan_best_least:
  assumes "ds \<noteq> []"
  shows "least_at key ds (scan_best (\<lambda>a b. key a < key b) ds)"
proof -
  obtain d rest where ds: "ds = d # rest" using assms by (cases ds) auto
  have "least_at key [d] 0" by (simp add: least_at_def)
  from scan_loop_least [OF this, of rest] show ?thesis
    by (simp add: ds scan_best_def)
qed

lemma scan_loop_bound: "v < n \<Longrightarrow> i + length ds \<le> n \<Longrightarrow> scan_loop better (v, dv) i ds < n"
  by (induction ds arbitrary: v dv i) auto

lemma scan_best_bound: "ds \<noteq> [] \<Longrightarrow> scan_best better ds < length ds"
  by (simp add: scan_best_def scan_loop_bound)

lemma least_at_unique: "least_at key ds k \<Longrightarrow> least_at key ds k' \<Longrightarrow> k = k'"
  unfolding least_at_def by (metis linorder_neqE_nat not_less)

section \<open>Blocks in the order of a key\<close>

text \<open>
  \<open>order_by key ds\<close> lists the indices of \<open>ds\<close> from the least to the greatest key, the
  lower index first among equals: the order in which the loop above picks victims.  Giving one
  element the greatest key moves it to the end.
\<close>

definition order_by :: "('d \<Rightarrow> 'k::linorder) \<Rightarrow> 'd list \<Rightarrow> nat list" where
  "order_by key ds = sort_key (\<lambda>i. (key (ds ! i), i)) [0..<length ds]"

definition move_last :: "nat \<Rightarrow> nat list \<Rightarrow> nat list" where
  "move_last i st = remove1 i st @ [i]"

lemma set_order_by [simp]: "set (order_by key ds) = {..<length ds}"
  by (auto simp: order_by_def)

lemma distinct_order_by [simp]: "distinct (order_by key ds)"
  by (simp add: order_by_def)

lemma order_by_eq_Nil [simp]: "order_by key ds = [] \<longleftrightarrow> ds = []"
  using set_order_by [of key ds] by (metis length_0_conv lessThan_0 lessThan_eq_iff set_empty)

lemma order_by_unique:
  assumes "set st = {..<length ds}" "distinct st" "sorted (map (\<lambda>i. (key (ds ! i), i)) st)"
  shows "order_by key ds = st"
proof -
  let ?f = "\<lambda>i. (key (ds ! i), i)"
  have inj: "inj_on ?f A" for A by (auto simp: inj_on_def)
  have "map ?f (order_by key ds) = map ?f st"
  proof (rule sorted_distinct_set_unique)
    show "sorted (map ?f (order_by key ds))" by (simp add: order_by_def)
    show "distinct (map ?f (order_by key ds))" "distinct (map ?f st)"
      using assms(2) by (simp_all add: distinct_map inj)
    show "set (map ?f (order_by key ds)) = set (map ?f st)" using assms(1) by simp
  qed (rule assms(3))
  from arg_cong [OF this, of "map snd"] show ?thesis by (simp add: comp_def)
qed

lemma least_at_hd_order:
  assumes "ds \<noteq> []"
  shows "least_at key ds (hd (order_by key ds))"
proof -
  let ?f = "\<lambda>i. (key (ds ! i), i)"
  obtain h st where st: "order_by key ds = h # st"
    using assms order_by_eq_Nil [of key ds] by (cases "order_by key ds") auto
  have "sorted (map ?f (order_by key ds))" by (simp add: order_by_def)
  then have le: "?f h \<le> ?f j" if "j < length ds" for j
    using that set_order_by [of key ds] by (auto simp: st)
  have "h < length ds" using set_order_by [of key ds] by (auto simp: st)
  moreover have "key (ds ! h) \<le> key (ds ! j)" if "j < length ds" for j
    using le [OF that] by (auto split: if_splits)
  moreover have "key (ds ! h) < key (ds ! j)" if "j < h" for j
    using le [of j] that \<open>h < length ds\<close> by (auto split: if_splits)
  ultimately show ?thesis by (simp add: st least_at_def)
qed

lemma scan_best_hd_order:
  "ds \<noteq> [] \<Longrightarrow> scan_best (\<lambda>a b. key a < key b) ds = hd (order_by key ds)"
  using least_at_unique [OF scan_best_least least_at_hd_order] .

lemma order_by_update_max:
  assumes "i < length ds" and newest: "\<forall>x \<in> set ds. key x < key d"
  shows "order_by key (ds[i := d]) = move_last i (order_by key ds)"
proof (rule order_by_unique)
  let ?f = "\<lambda>j. (key (ds ! j), j)" and ?g = "\<lambda>j. (key (ds[i := d] ! j), j)"
  let ?rest = "remove1 i (order_by key ds)"
  have gf: "?g j = ?f j" if "j \<in> set ?rest" for j using that by simp
  have "sorted (map ?f ?rest)"
    by (simp add: order_by_def sorted_map_remove1)
  moreover have "map ?g ?rest = map ?f ?rest" using gf by (intro map_cong refl)
  ultimately have "sorted (map ?g ?rest)" by (simp only:)
  moreover have "?g j \<le> ?g i" if "j \<in> set ?rest" for j
  proof -
    have "key (ds ! j) < key d" using that newest by simp
    then show ?thesis using gf [OF that] assms(1) by (simp add: less_eq_prod_def)
  qed
  ultimately show "sorted (map ?g (move_last i (order_by key ds)))"
    by (simp add: move_last_def sorted_append)
qed (use assms(1) in \<open>auto simp: move_last_def\<close>)

lemma order_by_update_same:
  assumes "i < length ds" "key d = key (ds ! i)"
  shows "order_by key (ds[i := d]) = order_by key ds"
proof -
  have "key (ds[i := d] ! j) = key (ds ! j)" for j
    using assms by (cases "j = i") auto
  then show ?thesis by (simp add: order_by_def)
qed

lemma set_list_updateD: "x \<in> set (xs[i := y]) \<Longrightarrow> x = y \<or> x \<in> set xs"
  using set_update_subset_insert [of xs i y] by auto

end
