(* ===== verification/Repl_Policy.thy ===== *)
theory Repl_Policy
  imports Prelude
begin

text \<open>
  The data every replacement policy works on and the interface of a policy.
  \<open>replaceable_entry\<close> and \<open>replacement_data\<close> are the classes of
  \<open>replaceable_entry.hh\<close>; a policy's own replacement data extends
  \<open>replacement_data\<close>, as the C++ classes inherit from it.  \<open>rp\<close> is the table of the
  virtual methods of \<open>replacement_policy::Base\<close> (\<open>base.hh\<close>).
\<close>

section \<open>Entries and replacement data\<close>

record replaceable_entry =
  entry_set :: uint32
  entry_way :: uint32

text \<open>
  The pointer \<open>ReplacementData::entry\<close> is a link to the owning entry, of which the policies
  only read the position; the model keeps the position the link leads to, and \<open>None\<close> for the
  null pointer.
\<close>

record replacement_data =
  rd_entry :: "replaceable_entry option"

definition getSet :: "'a replaceable_entry_scheme \<Rightarrow> uint32" where
  "getSet e = entry_set e"

definition getWay :: "'a replaceable_entry_scheme \<Rightarrow> uint32" where
  "getWay e = entry_way e"

definition position :: "'a replaceable_entry_scheme \<Rightarrow> replaceable_entry" where
  "position e = \<lparr>entry_set = entry_set e, entry_way = entry_way e\<rparr>"

text \<open>
  \<open>setPosition\<close> stores the position and, if the entry has replacement data, links that data
  back to the entry.
\<close>

definition setPosition ::
  "uint32 \<Rightarrow> uint32 \<Rightarrow> 'a replaceable_entry_scheme \<Rightarrow> 'm replacement_data_scheme option
   \<Rightarrow> 'a replaceable_entry_scheme \<times> 'm replacement_data_scheme option" where
  "setPosition s w e rd =
     (let e' = e\<lparr>entry_set := s, entry_way := w\<rparr>
      in (e', map_option (\<lambda>d. d\<lparr>rd_entry := Some (position e')\<rparr>) rd))"

text \<open>
  \<open>int set = entry->getSet()\<close> turns the unsigned 32-bit set number into an \<open>int\<close> used
  as a vector index; from \<open>2^31\<close> on the index would be negative.
\<close>

definition set_index :: "'a replaceable_entry_scheme \<Rightarrow> nat res" where
  "set_index e = (if getSet e < 0x80000000 then Inr (unat (getSet e)) else Inl OutOfRange)"

definition pos_ok :: "'a replaceable_entry_scheme \<Rightarrow> bool" where
  "pos_ok e \<longleftrightarrow> getSet e < 0x80000000"

lemma set_index_ok [simp]: "pos_ok e \<Longrightarrow> set_index e = Inr (unat (getSet e))"
  by (simp add: set_index_def pos_ok_def)

lemma set_index_Inr [res_simps]: "set_index e = Inr s \<longleftrightarrow> pos_ok e \<and> s = unat (getSet e)"
  by (auto simp: set_index_def pos_ok_def)

lemma getSet_position [simp]: "getSet (position e) = getSet e"
  by (simp add: position_def getSet_def)

lemma pos_ok_position [simp]: "pos_ok (position e) = pos_ok e"
  by (simp add: pos_ok_def)

lemma setPosition_getSet [simp]: "getSet (fst (setPosition s w e rd)) = s"
  by (simp add: setPosition_def getSet_def Let_def)

lemma setPosition_getWay [simp]: "getWay (fst (setPosition s w e rd)) = w"
  by (simp add: setPosition_def getWay_def Let_def)

section \<open>The policy interface\<close>

text \<open>
  One field per virtual method of \<open>replacement_policy::Base\<close>.  Methods that read
  \<open>curTick()\<close> take it as an argument; every method takes the policy object's own state and
  returns it updated (the source's \<open>const\<close> methods update \<open>mutable\<close> members).
  \<open>getVictim\<close> gets the candidates' positions and replacement data and returns the index of
  the victim, \<open>None\<close> for a null pointer, with the replacement data it updated on the way.
  \<open>rp_instantiateEntry\<close> takes what the allocation leaves in the base class's
  \<open>entry\<close> pointer, which no constructor initialises.
\<close>

record ('s, 'm) rp =
  rp_instantiateEntry :: "replaceable_entry option \<Rightarrow> 's \<Rightarrow> 's \<times> 'm replacement_data_scheme"
  rp_invalidate :: "'s \<Rightarrow> 'm replacement_data_scheme \<Rightarrow> ('s \<times> 'm replacement_data_scheme) res"
  rp_touch :: "tick \<Rightarrow> 's \<Rightarrow> 'm replacement_data_scheme \<Rightarrow> ('s \<times> 'm replacement_data_scheme) res"
  rp_reset :: "tick \<Rightarrow> 's \<Rightarrow> 'm replacement_data_scheme \<Rightarrow> ('s \<times> 'm replacement_data_scheme) res"
  rp_getVictim :: "tick \<Rightarrow> 's \<Rightarrow> (replaceable_entry \<times> 'm replacement_data_scheme) list
     \<Rightarrow> ('s \<times> 'm replacement_data_scheme list \<times> nat option) res"

text \<open>
  What a cache relies on.  \<open>pinv\<close> is the policy's own invariant and \<open>live s d\<close> says
  that the replacement data belongs to an entry that was reset and not invalidated since.  The
  laws are partial for \<open>reset\<close>: a policy may stop the program there.
\<close>

locale victim_policy =
  fixes P :: "('s, 'm) rp"
    and pinv :: "'s \<Rightarrow> bool"
    and live :: "'m replacement_data_scheme \<Rightarrow> bool"
  assumes instantiate_pinv: "pinv s \<Longrightarrow> pinv (fst (rp_instantiateEntry P e0 s))"
    and invalidate_ok: "pinv s \<Longrightarrow> \<exists>s' d'. rp_invalidate P s d = Inr (s', d') \<and> pinv s'"
    and touch_ok: "pinv s \<Longrightarrow> live d \<Longrightarrow>
      \<exists>s' d'. rp_touch P now s d = Inr (s', d') \<and> pinv s' \<and> live d'"
    and reset_inv: "pinv s \<Longrightarrow> rp_reset P now s d = Inr (s', d') \<Longrightarrow> pinv s' \<and> live d'"
    and victim_ok: "pinv s \<Longrightarrow> cs \<noteq> [] \<Longrightarrow> length cs < 2 ^ 31 \<Longrightarrow>
      list_all (\<lambda>c. pos_ok (fst c) \<and> live (snd c)) cs \<Longrightarrow>
      \<exists>s' ds' i. rp_getVictim P now s cs = Inr (s', ds', Some i) \<and> pinv s' \<and>
        i < length cs \<and> length ds' = length cs \<and> list_all live ds'"
begin

text \<open>Whatever the candidates, a call that meets the contract designates one of them.\<close>

lemma victim_member:
  assumes "pinv s" "cs \<noteq> []" "length cs < 2 ^ 31" "list_all (\<lambda>c. pos_ok (fst c) \<and> live (snd c)) cs"
    and "rp_getVictim P now s cs = Inr (s', ds', v)"
  shows "\<exists>i. v = Some i \<and> i < length cs"
  using victim_ok [OF assms(1-4), of now] assms(5) by auto

end

text \<open>A policy whose \<open>reset\<close> never stops the program on linked data.\<close>

locale total_policy = victim_policy +
  assumes reset_ok: "pinv s \<Longrightarrow> rd_entry d = Some e \<Longrightarrow> pos_ok e \<Longrightarrow>
    \<exists>s' d'. rp_reset P now s d = Inr (s', d')"

text \<open>Policies that keep no invariant and never stop on a non-empty list of candidates.\<close>

lemma total_policy_trivialI:
  assumes "\<And>s d. \<exists>r. rp_invalidate P s d = Inr r"
    and "\<And>now s d. \<exists>r. rp_touch P now s d = Inr r"
    and "\<And>now s d. \<exists>r. rp_reset P now s d = Inr r"
    and "\<And>now s cs. cs \<noteq> [] \<Longrightarrow> length cs < 2 ^ 31 \<Longrightarrow>
      \<exists>s' ds' i. rp_getVictim P now s cs = Inr (s', ds', Some i) \<and> i < length cs \<and>
        length ds' = length cs"
  shows "total_policy P (\<lambda>_. True) (\<lambda>_. True)"
proof (unfold_locales, goal_cases)
  case (2 s d)
  then show ?case using assms(1) [of s d] by auto
next
  case (3 s d now)
  then show ?case using assms(2) [of now s d] by auto
next
  case (5 s cs now)
  then show ?case using assms(4) [of cs now s] by (simp add: list_all_iff)
next
  case (6 s d e now)
  then show ?case using assms(3) [of now s d] by auto
qed simp_all

text \<open>A \<open>getVictim\<close> that changes neither the policy's state nor any replacement data.\<close>

definition pure_victim ::
  "('d list \<Rightarrow> nat res) \<Rightarrow> 's \<Rightarrow> (replaceable_entry \<times> 'd) list \<Rightarrow> ('s \<times> 'd list \<times> nat option) res" where
  "pure_victim f s cs = bindR (f (map snd cs)) (\<lambda>k. Inr (s, map snd cs, Some k))"

lemma total_policy_pureI:
  assumes "\<And>s d. \<exists>r. rp_invalidate P s d = Inr r"
    and "\<And>now s d. \<exists>r. rp_touch P now s d = Inr r"
    and "\<And>now s d. \<exists>r. rp_reset P now s d = Inr r"
    and "rp_getVictim P = (\<lambda>now. pure_victim f)"
    and "\<And>ds. ds \<noteq> [] \<Longrightarrow> \<exists>k. f ds = Inr k \<and> k < length ds"
  shows "total_policy P (\<lambda>_. True) (\<lambda>_. True)"
proof (rule total_policy_trivialI [OF assms(1-3)])
  fix now s and cs :: "(replaceable_entry \<times> 'b replacement_data_scheme) list"
  assume "cs \<noteq> []"
  then obtain k where "f (map snd cs) = Inr k" "k < length cs"
    using assms(5) [of "map snd cs"] by auto
  then show "\<exists>s' ds' i. rp_getVictim P now s cs = Inr (s', ds', Some i) \<and> i < length cs \<and>
      length ds' = length cs"
    by (simp add: assms(4) pure_victim_def)
qed

end
