(* ===== verification/Bitfield.thy ===== *)
theory Bitfield
  imports Prelude
begin

text \<open>
  The bit manipulation functions of \<open>base/bitfield.hh\<close>, at the type \<open>uint64_t\<close> they are used
  with.  Positions are \<open>unsigned\<close>, here natural numbers.  A shift by 64 or more places is
  undefined in C++; the functions that assert or shift by an argument return a result of type
  \<open>res\<close>.  \<open>bits_val\<close> is the value \<open>bits\<close> computes when its assertion holds, which is what
  the functions that call it with constant positions use.
\<close>

unbundle bit_operations_syntax

section \<open>Definitions\<close>

definition mask64 :: "nat \<Rightarrow> uint64" where
  "mask64 nbits = (if 64 \<le> nbits then - 1 else push_bit nbits 1 - 1)"

definition bits_val :: "uint64 \<Rightarrow> nat \<Rightarrow> nat \<Rightarrow> uint64" where
  "bits_val val first lst = drop_bit lst val AND mask64 (first - lst + 1)"

definition bits :: "uint64 \<Rightarrow> nat \<Rightarrow> nat \<Rightarrow> uint64 res" where
  "bits val first lst =
     checkR AssertFail (first \<ge> lst)
       (checkR OutOfRange (lst < 64) (Inr (bits_val val first lst)))"

definition bits1 :: "uint64 \<Rightarrow> nat \<Rightarrow> uint64 res" where
  "bits1 val b = bits val b b"

definition mbits :: "uint64 \<Rightarrow> nat \<Rightarrow> nat \<Rightarrow> uint64" where
  "mbits val first lst = val AND (mask64 (first + 1) AND NOT (mask64 lst))"

definition mask_range :: "nat \<Rightarrow> nat \<Rightarrow> uint64" where
  "mask_range first lst = mbits (- 1) first lst"

definition sext :: "uint64 \<Rightarrow> nat \<Rightarrow> uint64 res" where
  "sext val N =
     bindR (bits1 val (N - 1)) (\<lambda>sign_bit.
     Inr (if sign_bit \<noteq> 0 then val OR NOT (mask64 N) else val))"

definition szext :: "nat \<Rightarrow> uint64 \<Rightarrow> uint64 res" where
  "szext N val =
     bindR (bits1 val (N - 1)) (\<lambda>sign_bit.
     Inr (if sign_bit \<noteq> 0 then val OR NOT (mask64 N) else val AND mask64 N))"

definition insertBits :: "uint64 \<Rightarrow> nat \<Rightarrow> nat \<Rightarrow> uint64 \<Rightarrow> uint64 res" where
  "insertBits val first lst bit_val =
     checkR AssertFail (first \<ge> lst)
       (checkR OutOfRange (lst < 64)
         (let bmask = mask_range first lst;
              v = val AND NOT bmask
          in Inr (v OR (push_bit lst bit_val AND bmask))))"

definition insertBits1 :: "uint64 \<Rightarrow> nat \<Rightarrow> uint64 \<Rightarrow> uint64 res" where
  "insertBits1 val b bit_val = insertBits val b b bit_val"

definition replaceBits :: "uint64 \<Rightarrow> nat \<Rightarrow> nat \<Rightarrow> uint64 \<Rightarrow> uint64 res" where
  "replaceBits val first lst bit_val = insertBits val first lst bit_val"

text \<open>The six tests of \<open>findMsbSet\<close> and \<open>findLsbSetFallback\<close>: each halves the window.\<close>

definition msb_step :: "nat \<Rightarrow> nat \<Rightarrow> nat \<times> uint64 \<Rightarrow> nat \<times> uint64" where
  "msb_step first lst p =
     (if bits_val (snd p) first lst \<noteq> 0 then (fst p + lst, drop_bit lst (snd p)) else p)"

definition findMsbSet :: "uint64 \<Rightarrow> nat" where
  "findMsbSet val =
     (if val = 0 then 0
      else
        let (m, v) = msb_step 3 2 (msb_step 7 4 (msb_step 15 8 (msb_step 31 16 (msb_step 63 32 (0, val)))))
        in if bits_val v 1 1 \<noteq> 0 then m + 1 else m)"

definition lsb_step :: "nat \<Rightarrow> nat \<times> uint64 \<Rightarrow> nat \<times> uint64" where
  "lsb_step k p =
     (if bits_val (snd p) (k - 1) 0 = 0 then (fst p + k, drop_bit k (snd p)) else p)"

definition findLsbSetFallback :: "uint64 \<Rightarrow> nat" where
  "findLsbSetFallback val =
     (if val = 0 then 64
      else
        let (l, v) = lsb_step 2 (lsb_step 4 (lsb_step 8 (lsb_step 16 (lsb_step 32 (0, val)))))
        in if bits_val v 0 0 = 0 then l + 1 else l)"

definition smear :: "nat \<Rightarrow> uint64 \<Rightarrow> uint64" where
  "smear k val = val OR drop_bit k val"

definition alignToPowerOfTwo :: "uint64 \<Rightarrow> uint64" where
  "alignToPowerOfTwo val =
     (let v = val - 1;
          v = smear 1 v; v = smear 2 v; v = smear 4 v;
          v = smear 8 v; v = smear 16 v; v = smear 32 v
      in v + 1)"

section \<open>Bits of the results\<close>

lemma mask64_eq: "mask64 n = mask n"
  by (auto simp: mask64_def mask_eq_exp_minus_1 push_bit_eq_mult)

lemma bits_val_eq: "bits_val v first lst = take_bit (first - lst + 1) (drop_bit lst v)"
  by (simp add: bits_val_def mask64_eq take_bit_eq_mask)

lemma bit_bits_val:
  "bit (bits_val v first lst) i \<longleftrightarrow> i \<le> first - lst \<and> bit v (i + lst)"
  by (auto simp: bits_val_eq bit_take_bit_iff bit_drop_bit_eq add.commute less_Suc_eq_le)

lemma bit_mask_range: "bit (mask_range first lst) i \<longleftrightarrow> lst \<le> i \<and> i \<le> first \<and> i < 64"
  by (auto simp: mask_range_def mbits_def mask64_eq bit_simps)

lemma bit_mbits: "bit (mbits v first lst) i \<longleftrightarrow> lst \<le> i \<and> i \<le> first \<and> bit v i"
  by (auto simp: mbits_def mask64_eq bit_simps dest: bit_imp_le_length)

definition inserted :: "uint64 \<Rightarrow> nat \<Rightarrow> nat \<Rightarrow> uint64 \<Rightarrow> uint64" where
  "inserted val first lst b =
     (val AND NOT (mask_range first lst)) OR (push_bit lst b AND mask_range first lst)"

lemma insertBits_Inr:
  "lst \<le> first \<Longrightarrow> lst < 64 \<Longrightarrow> insertBits v first lst b = Inr (inserted v first lst b)"
  by (simp add: insertBits_def inserted_def Let_def)

lemma bit_inserted:
  "i < 64 \<Longrightarrow> bit (inserted v first lst b) i \<longleftrightarrow>
     (if lst \<le> i \<and> i \<le> first then bit b (i - lst) else bit v i)"
  by (auto simp: inserted_def bit_mask_range bit_simps)

lemma uint64_eqI: "(\<And>i. i < 64 \<Longrightarrow> bit a i = bit b i) \<Longrightarrow> a = (b :: uint64)"
  by (rule bit_word_eqI) simp

text \<open>
  Inserting a field and reading bits: \<open>bits\<close> of the same range gives the inserted value cut
  to the width of the field, any single bit outside the range is the one of the old value, and
  inserting what was read changes nothing.
\<close>

theorem insertBits_bits_roundtrip:
  assumes "lst \<le> first" "first < 64"
  shows "bindR (insertBits v first lst b) (\<lambda>w. bits w first lst) = Inr (take_bit (first - lst + 1) b) \<and>
    (\<forall>i < 64. i < lst \<or> first < i \<longrightarrow> bindR (insertBits v first lst b) (\<lambda>w. bits1 w i) = bits1 v i) \<and>
    bindR (bits v first lst) (insertBits v first lst) = Inr v"
proof (intro conjI allI impI)
  have "bits_val (inserted v first lst b) first lst = take_bit (first - lst + 1) b"
    using assms
    by (intro uint64_eqI)
       (auto simp: bit_bits_val bit_take_bit_iff bit_inserted less_Suc_eq_le le_diff_conv2
         dest: bit_imp_le_length)
  then show "bindR (insertBits v first lst b) (\<lambda>w. bits w first lst) = Inr (take_bit (first - lst + 1) b)"
    using assms by (simp add: insertBits_Inr bits_def)
next
  fix i :: nat assume i: "i < 64" "i < lst \<or> first < i"
  then have "bits_val (inserted v first lst b) i i = bits_val v i i"
    by (intro uint64_eqI) (auto simp: bit_bits_val bit_inserted)
  with i assms show "bindR (insertBits v first lst b) (\<lambda>w. bits1 w i) = bits1 v i"
    by (simp add: insertBits_Inr bits1_def bits_def)
next
  have "inserted v first lst (bits_val v first lst) = v"
    by (intro uint64_eqI) (auto simp: bit_bits_val bit_inserted)
  with assms show "bindR (bits v first lst) (insertBits v first lst) = Inr v"
    by (simp add: insertBits_Inr bits_def)
qed

theorem insertBits_bits_roundtrip_witness:
  "bindR (insertBits 0xABCD 11 4 0x5FF) (\<lambda>w. bits w 11 4) = Inr 0xFF \<and>
   bindR (insertBits 0xABCD 11 4 0x5FF) (\<lambda>w. bits1 w 13) = bits1 0xABCD 13 \<and>
   bindR (bits 0xABCD 11 4) (insertBits 0xABCD 11 4) = Inr 0xABCD"
proof -
  have "take_bit 8 (0x5FF :: uint64) = 0xFF" by simp
  then show ?thesis
    using insertBits_bits_roundtrip [of 4 11 "0xABCD" "0x5FF"] by auto
qed

section \<open>Sign extension\<close>

lemma bits1_test: "k < 64 \<Longrightarrow> bits1 v k = Inr (of_bool (bit v k))"
proof -
  have "bits_val v k k = of_bool (bit v k)"
    by (intro uint64_eqI) (auto simp: bit_bits_val bit_of_bool_iff)
  then show "k < 64 \<Longrightarrow> bits1 v k = Inr (of_bool (bit v k))"
    by (simp add: bits1_def bits_def)
qed

lemma sign_extended:
  assumes "n < 64"
  shows "bit v n \<Longrightarrow> v OR NOT (mask64 (Suc n)) = signed_take_bit n v"
    and "\<not> bit v n \<Longrightarrow> v AND mask64 (Suc n) = signed_take_bit n v"
proof -
  show "v OR NOT (mask64 (Suc n)) = signed_take_bit n v" if "bit v n"
  proof (rule uint64_eqI)
    fix i :: nat assume "i < 64"
    with that show "bit (v OR NOT (mask64 (Suc n))) i = bit (signed_take_bit n v) i"
      by (cases i n rule: linorder_cases)
         (simp_all add: mask64_eq bit_or_iff bit_not_iff bit_mask_iff bit_signed_take_bit_iff min_def)
  qed
  show "v AND mask64 (Suc n) = signed_take_bit n v" if "\<not> bit v n"
  proof (rule uint64_eqI)
    fix i :: nat assume "i < 64"
    with that show "bit (v AND mask64 (Suc n)) i = bit (signed_take_bit n v) i"
      by (cases i n rule: linorder_cases)
         (simp_all add: mask64_eq bit_and_iff bit_mask_iff bit_signed_take_bit_iff min_def)
  qed
qed

text \<open>
  Sign extension: for every width from 1 to 64, \<open>szext<N>\<close> returns the 64-bit
  two's-complement value of the low \<open>N\<close> bits, and \<open>sext\<close> does the same for an argument whose
  bits past the sign are zero.
\<close>

theorem sext_szext_value:
  assumes "0 < N" "N \<le> 64"
  shows "szext N v = Inr (signed_take_bit (N - 1) v) \<and>
    (take_bit N v = v \<longrightarrow> sext v N = Inr (signed_take_bit (N - 1) v))"
proof -
  obtain n where n: "N = Suc n" "n < 64" using assms by (cases N) auto
  have "szext N v = Inr (signed_take_bit n v)"
    using n sign_extended [of n v] by (simp add: szext_def bits1_test)
  moreover have "sext v N = Inr (signed_take_bit n v)" if "take_bit N v = v"
  proof -
    have "v AND mask64 (Suc n) = v" using that n by (simp add: mask64_eq take_bit_eq_mask)
    then show ?thesis
      using n sign_extended [of n v] by (simp add: sext_def bits1_test)
  qed
  ultimately show ?thesis using n by simp
qed

theorem sext_szext_value_witness:
  "szext 8 0x1FE = Inr (- 2) \<and> sext 0xFE 8 = Inr (- 2)"
proof -
  have "signed_take_bit 7 (0x1FE :: uint64) = - 2" "signed_take_bit 7 (0xFE :: uint64) = - 2"
    "take_bit 8 (0xFE :: uint64) = 0xFE"
    by simp_all
  then show ?thesis
    using sext_szext_value [of 8 "0x1FE"] sext_szext_value [of 8 "0xFE"] by simp
qed

section \<open>The most and the least significant set bit\<close>

lemma unat_drop: "unat (drop_bit k (v :: uint64)) = unat v div 2 ^ k"
proof -
  have "unat (drop_bit k v) = drop_bit k (take_bit 64 (unat v))"
    using unsigned_drop_bit_eq [of k v, where ?'a = nat] by simp
  also have "take_bit 64 (unat v) = unat v"
    using unat_less_pow [of v] by (simp add: take_bit_nat_eq_self)
  finally show ?thesis by (simp only: drop_bit_eq_div)
qed

lemma unat_bits_val:
  "unat (bits_val v first lst) = unat v div 2 ^ lst mod 2 ^ (first - lst + 1)"
  unfolding bits_val_eq unsigned_take_bit_eq unat_drop by (rule take_bit_eq_mod)

lemma bits_val_zero: "bits_val v first lst = 0 \<longleftrightarrow> unat v div 2 ^ lst mod 2 ^ (first - lst + 1) = 0"
  by (metis unat_bits_val unat_eq_zero)

lemma div_pow_add: "n div 2 ^ (m + k) = n div 2 ^ m div (2 ^ k :: nat)"
  by (simp add: power_add div_mult2_eq)

lemma div_pow_eq_1: "n div 2 ^ k = (1 :: nat) \<longleftrightarrow> 2 ^ k \<le> n \<and> n < 2 ^ Suc k"
proof -
  have "n div 2 ^ k = 1 \<longleftrightarrow> 1 \<le> n div 2 ^ k \<and> n div 2 ^ k < 2" by linarith
  then show ?thesis by (simp add: less_eq_div_iff_mult_less_eq div_less_iff_less_mult)
qed

text \<open>
  \<open>msb_inv n val p\<close>: the window of the current value holds \<open>n\<close> bits, and the bits shifted out
  so far are counted in the result.
\<close>

definition msb_inv :: "nat \<Rightarrow> uint64 \<Rightarrow> nat \<times> uint64 \<Rightarrow> bool" where
  "msb_inv n val p \<longleftrightarrow>
     unat (snd p) = unat val div 2 ^ fst p \<and> 0 < unat (snd p) \<and> unat (snd p) < 2 ^ n"

lemma msb_step_inv:
  assumes "msb_inv (k + k) val p"
  shows "msb_inv k val (msb_step (k + k - 1) k p)"
proof (cases "k = 0")
  case False
  obtain m v where p: "p = (m, v)" by fastforce
  have v: "unat v = unat val div 2 ^ m" "0 < unat v" "unat v < 2 ^ k * 2 ^ k"
    using assms by (simp_all add: p msb_inv_def power_add)
  have small: "unat v div 2 ^ k < 2 ^ k" using v(3) by (simp add: less_mult_imp_div_less)
  then have test: "bits_val v (k + k - 1) k \<noteq> 0 \<longleftrightarrow> 2 ^ k \<le> unat v"
    using False by (simp add: bits_val_zero div_eq_0_iff not_less)
  show ?thesis
  proof (cases "2 ^ k \<le> unat v")
    case True
    then have "0 < unat v div 2 ^ k" by (simp add: div_greater_zero_iff)
    with True v small test show ?thesis
      by (simp add: p msb_step_def msb_inv_def unat_drop div_pow_add)
  next
    case False
    with v test show ?thesis by (simp add: p msb_step_def msb_inv_def)
  qed
qed (use assms in \<open>auto simp: msb_inv_def\<close>)

lemma msb_last:
  assumes "msb_inv 2 val (m, v)"
  shows "unat val div 2 ^ (if bits_val v 1 1 \<noteq> 0 then m + 1 else m) = 1"
proof -
  have v: "unat v = unat val div 2 ^ m" "0 < unat v" "unat v < 4"
    using assms by (simp_all add: msb_inv_def)
  have "unat v = 1 \<or> unat v = 2 \<or> unat v = 3" using v(2,3) by linarith
  then have "bits_val v 1 1 \<noteq> 0 \<longleftrightarrow> 2 \<le> unat v"
    by (auto simp: bits_val_zero)
  moreover have "unat v div 2 = 1" if "2 \<le> unat v" using that v(3) by linarith
  ultimately show ?thesis
    using v by (auto simp: div_pow_add [where k = 1, simplified])
qed

lemma findMsbSet_div:
  assumes "val \<noteq> 0"
  shows "unat val div 2 ^ findMsbSet val = 1"
proof -
  let ?p = "msb_step 3 2 (msb_step 7 4 (msb_step 15 8 (msb_step 31 16 (msb_step 63 32 (0, val)))))"
  have "msb_inv 64 val (0, val)"
    using assms unat_less_pow [of val] by (simp add: msb_inv_def unat_gt_0)
  then have "msb_inv 2 val ?p"
    using msb_step_inv [of 32 val "(0, val)"] msb_step_inv [of 16 val] msb_step_inv [of 8 val]
      msb_step_inv [of 4 val] msb_step_inv [of 2 val] by simp
  then show ?thesis
    using msb_last [of val "fst ?p" "snd ?p"] assms by (simp add: findMsbSet_def split_beta Let_def)
qed

definition lsb_inv :: "nat \<Rightarrow> uint64 \<Rightarrow> nat \<times> uint64 \<Rightarrow> bool" where
  "lsb_inv n val p \<longleftrightarrow> unat val = unat (snd p) * 2 ^ fst p \<and> unat (snd p) mod 2 ^ n \<noteq> 0"

lemma lsb_step_inv:
  assumes "lsb_inv (k + k) val p" "0 < k"
  shows "lsb_inv k val (lsb_step k p)"
proof -
  obtain l v where p: "p = (l, v)" by fastforce
  have v: "unat val = unat v * 2 ^ l" "unat v mod (2 ^ k * 2 ^ k) \<noteq> 0"
    using assms by (simp_all add: p lsb_inv_def power_add)
  have test: "bits_val v (k - 1) 0 = 0 \<longleftrightarrow> unat v mod 2 ^ k = 0"
    using assms(2) by (simp add: bits_val_zero)
  show ?thesis
  proof (cases "unat v mod 2 ^ k = 0")
    case True
    then have "unat v div 2 ^ k * 2 ^ k = unat v" by auto
    moreover have "unat v div 2 ^ k mod 2 ^ k \<noteq> 0"
      using v(2) True by (simp add: mod_mult2_eq)
    ultimately show ?thesis
      using True test v(1) by (simp add: p lsb_step_def lsb_inv_def unat_drop power_add)
  next
    case False
    with test v(1) show ?thesis by (simp add: p lsb_step_def lsb_inv_def)
  qed
qed

lemma findLsbSetFallback_dvd:
  assumes "val \<noteq> 0"
  shows "2 ^ findLsbSetFallback val dvd unat val \<and> \<not> 2 ^ Suc (findLsbSetFallback val) dvd unat val"
proof -
  let ?p = "lsb_step 2 (lsb_step 4 (lsb_step 8 (lsb_step 16 (lsb_step 32 (0, val)))))"
  have "lsb_inv 64 val (0, val)"
    using assms unat_less_pow [of val] by (simp add: lsb_inv_def unat_gt_0)
  then have "lsb_inv 2 val ?p"
    using lsb_step_inv [of 32 val "(0, val)"] lsb_step_inv [of 16 val] lsb_step_inv [of 8 val]
      lsb_step_inv [of 4 val] lsb_step_inv [of 2 val] by simp
  then obtain l v where p: "?p = (l, v)" "unat val = unat v * 2 ^ l" "unat v mod 4 \<noteq> 0"
    by (cases ?p) (simp add: lsb_inv_def)
  have "\<not> 4 dvd unat v" using p(3) by (simp add: dvd_eq_mod_eq_0)
  then show ?thesis
    using assms p(1,2)
    by (auto simp: findLsbSetFallback_def Let_def bits_val_zero mod2_eq_if mult.commute)
qed

lemma bit_iff_unat: "bit (v :: uint64) i \<longleftrightarrow> odd (unat v div 2 ^ i)"
  using bit_unsigned_iff [of v i, where ?'a = nat] by (auto simp: bit_iff_odd [of "unat v"] possible_bit_nat dest: bit_imp_possible_bit)

lemma unat_pow2:
  assumes "k < 64"
  shows "unat (2 ^ k :: uint64) = 2 ^ k"
proof -
  have "(2::nat) ^ k < 2 ^ 64" using assms by (intro power_strict_increasing) simp_all
  then have "unat (of_nat (2 ^ k) :: uint64) = 2 ^ k" unfolding unat_of_nat by simp
  then show ?thesis by simp
qed

lemma pow_le_unat:
  assumes "2 ^ k \<le> unat (v :: uint64)"
  shows "k < 64"
proof -
  have "(2::nat) ^ k < 2 ^ LENGTH(64)" using assms unat_less_pow by (rule le_less_trans)
  then have "k < LENGTH(64)" by (rule power_less_imp_less_exp [rotated]) simp
  then show ?thesis by simp
qed

text \<open>
  The two binary searches are right on every non-zero word: bit \<open>findMsbSet\<close> is set and no
  higher bit is, bit \<open>findLsbSetFallback\<close> is set and no lower bit is.
\<close>

theorem find_set_bits:
  assumes "val \<noteq> 0"
  shows "2 ^ findMsbSet val \<le> unat val \<and> unat val < 2 ^ Suc (findMsbSet val) \<and>
    bit val (findLsbSetFallback val) \<and> (\<forall>i < findLsbSetFallback val. \<not> bit val i)"
proof -
  let ?l = "findLsbSetFallback val"
  obtain q where q: "unat val = 2 ^ ?l * q" "odd q"
    using findLsbSetFallback_dvd [OF assms] by (auto elim!: dvdE)
  have "bit val ?l" using q by (simp add: bit_iff_unat)
  moreover have "\<not> bit val i" if "i < ?l" for i
  proof -
    have "unat val = 2 ^ i * (2 * (2 ^ (?l - Suc i) * q))"
      using q(1) that by (simp flip: power_Suc power_add mult.assoc)
    then show ?thesis by (simp add: bit_iff_unat)
  qed
  ultimately show ?thesis
    using div_pow_eq_1 [THEN iffD1, OF findMsbSet_div [OF assms]] by simp
qed

theorem find_set_bits_witness:
  "2 ^ findMsbSet 0x50 \<le> (0x50 :: nat) \<and> bit (0x50 :: uint64) (findLsbSetFallback 0x50)"
  using find_set_bits [of "0x50"] by simp

section \<open>Rounding up to a power of two\<close>

text \<open>After shifts by 1, 2, 4, ... a bit is set iff it or one of the next \<open>m\<close> bits was.\<close>

definition smeared :: "nat \<Rightarrow> uint64 \<Rightarrow> uint64 \<Rightarrow> bool" where
  "smeared m w v \<longleftrightarrow> (\<forall>i. bit v i \<longleftrightarrow> (\<exists>j < m. bit w (i + j)))"

lemma smear_smeared:
  assumes "smeared m w v"
  shows "smeared (m + m) w (smear m v)"
proof -
  have split: "(\<exists>j < m + m. P j) \<longleftrightarrow> (\<exists>j < m. P j) \<or> (\<exists>j < m. P (m + j))" for P
  proof
    assume "\<exists>j < m + m. P j"
    then obtain j where "j < m + m" "P j" by blast
    then show "(\<exists>j < m. P j) \<or> (\<exists>j < m. P (m + j))"
      by (cases "j < m") (auto dest: bspec intro: exI [of _ "j - m"])
  qed (auto intro: trans_less_add1 add_strict_left_mono)
  show ?thesis
    unfolding smeared_def split
    using assms by (simp add: smeared_def smear_def bit_or_iff bit_drop_bit_eq ac_simps)
qed

lemma smeared_all:
  assumes "smeared 64 w v" "w \<noteq> 0"
  shows "v = (mask (Suc (findMsbSet w)) :: uint64)"
proof (rule uint64_eqI)
  fix i :: nat assume i: "i < 64"
  let ?m = "findMsbSet w"
  have m: "2 ^ ?m \<le> unat w" "unat w < 2 ^ Suc ?m"
    using div_pow_eq_1 [THEN iffD1, OF findMsbSet_div [OF assms(2)]] by simp_all
  have top: "bit w ?m" using findMsbSet_div [OF assms(2)] by (simp add: bit_iff_unat)
  have above: "\<not> bit w j" if "?m < j" for j
  proof -
    have "unat w < 2 ^ j"
      using m(2) that by (meson Suc_leI less_le_trans one_le_numeral power_increasing)
    then show ?thesis by (simp add: bit_iff_unat)
  qed
  have "bit v i \<longleftrightarrow> i \<le> ?m"
  proof
    assume "bit v i"
    then obtain j where "bit w (i + j)" using assms(1) by (auto simp: smeared_def)
    with above [of "i + j"] show "i \<le> ?m" by (cases "?m < i + j") auto
  next
    assume "i \<le> ?m"
    then have "bit w (i + (?m - i))" "?m - i < 64" using top pow_le_unat [OF m(1)] by auto
    with assms(1) show "bit v i" by (auto simp: smeared_def)
  qed
  with i show "bit v i = bit (mask (Suc ?m) :: uint64) i" by (simp add: bit_mask_iff less_Suc_eq_le)
qed

lemma smeared_start: "smeared 1 w w"
  by (simp add: smeared_def)

lemma align_msb:
  assumes "val - 1 \<noteq> 0"
  shows "alignToPowerOfTwo val = mask (Suc (findMsbSet (val - 1))) + 1"
proof -
  let ?v = "smear 32 (smear 16 (smear 8 (smear 4 (smear 2 (smear 1 (val - 1))))))"
  have "smeared 64 (val - 1) ?v"
    using smear_smeared [of 1, OF smeared_start [of "val - 1"], unfolded one_add_one]
      smear_smeared [of 2 "val - 1"] smear_smeared [of 4 "val - 1"] smear_smeared [of 8 "val - 1"]
      smear_smeared [of 16 "val - 1"] smear_smeared [of 32 "val - 1"]
    by simp
  from smeared_all [OF this assms] show ?thesis by (simp add: alignToPowerOfTwo_def Let_def)
qed

text \<open>
  \<open>alignToPowerOfTwo\<close> rounds up: for a non-zero value up to \<open>2^63\<close> the result is the least
  power of two that is not below the value.  The value \<open>2^63\<close> is the last one for which the
  result fits.
\<close>

theorem alignToPowerOfTwo_least:
  assumes "0 < val" "unat val \<le> 2 ^ 63"
  shows "\<exists>k. unat (alignToPowerOfTwo val) = 2 ^ k \<and> unat val \<le> 2 ^ k \<and> (\<forall>j. unat val \<le> 2 ^ j \<longrightarrow> k \<le> j)"
proof (cases "val = 1")
  case True
  then show ?thesis
    by (intro exI [of _ 0]) (simp add: alignToPowerOfTwo_def smear_def Let_def)
next
  case False
  then have w: "val - 1 \<noteq> 0" by auto
  let ?m = "findMsbSet (val - 1)"
  have uw: "unat (val - 1) = unat val - 1" using assms(1) by (simp add: unat_minus_one)
  have m: "2 ^ ?m \<le> unat (val - 1)" "unat (val - 1) < 2 ^ Suc ?m"
    using div_pow_eq_1 [THEN iffD1, OF findMsbSet_div [OF w]] by simp_all
  have pos: "0 < unat val" using assms(1) by (simp add: unat_gt_0)
  have "2 ^ ?m < (2 ^ 63 :: nat)" using m(1) assms(2) pos uw by linarith
  then have "?m < 63" by (rule power_less_imp_less_exp [rotated]) simp
  then have "unat (2 ^ Suc ?m :: uint64) = 2 ^ Suc ?m" by (intro unat_pow2) simp
  then have res: "unat (alignToPowerOfTwo val) = 2 ^ Suc ?m"
    by (simp add: align_msb [OF w] mask_eq_exp_minus_1)
  have "Suc ?m \<le> j" if "unat val \<le> 2 ^ j" for j
  proof -
    have "2 ^ ?m < (2 ^ j :: nat)" using m(1) that pos uw by linarith
    then have "?m < j" by (rule power_less_imp_less_exp [rotated]) simp
    then show ?thesis by simp
  qed
  moreover have "unat val \<le> 2 ^ Suc ?m" using m(2) uw by linarith
  ultimately show ?thesis using res by blast
qed

theorem alignToPowerOfTwo_least_witness:
  "unat (alignToPowerOfTwo 37) = 64"
proof -
  obtain k where k: "unat (alignToPowerOfTwo 37) = 2 ^ k" "37 \<le> (2 :: nat) ^ k"
      "\<And>j. 37 \<le> (2 :: nat) ^ j \<Longrightarrow> k \<le> j"
    using alignToPowerOfTwo_least [of 37] by auto
  have "k \<le> 6" using k(3) [of 6] by simp
  moreover have "\<not> k \<le> 5" using k(2) power_increasing [of k 5 "2 :: nat"] by auto
  ultimately have "k = 6" by linarith
  with k(1) show ?thesis by simp
qed

end
