(* ===== verification/Intmath.thy ===== *)
theory Intmath
  imports Bitfield
begin

text \<open>
  The integer functions of \<open>base/intmath.hh\<close>.  The templates are modelled at 64 bits;
  \<open>floorLog2\<close>, whose tests depend on the size of its argument type, takes that size in bytes.
\<close>

unbundle bit_operations_syntax

section \<open>Definitions\<close>

definition log_step :: "nat \<Rightarrow> nat \<Rightarrow> nat \<Rightarrow> uint64 \<Rightarrow> nat \<times> uint64 \<Rightarrow> nat \<times> uint64" where
  "log_step ts need k m p =
     (if ts \<ge> need \<and> snd p AND m \<noteq> 0 then (fst p + k, drop_bit k (snd p)) else p)"

definition floorLog2 :: "nat \<Rightarrow> uint64 \<Rightarrow> nat res" where
  "floorLog2 ts x =
     checkR AssertFail (x > 0)
       (let p = log_step ts 8 32 0xffffffff00000000 (0, x);
            p = log_step ts 4 16 0x00000000ffff0000 p;
            p = log_step ts 2 8 0x000000000000ff00 p;
            p = log_step ts 0 4 0x00000000000000f0 p;
            (y, ux) = log_step ts 0 2 0x000000000000000c p
        in Inr (if ux AND 0x0000000000000002 \<noteq> 0 then y + 1 else y))"

definition ceilLog2 :: "nat \<Rightarrow> uint64 \<Rightarrow> nat res" where
  "ceilLog2 ts n =
     checkR AssertFail (n > 0)
       (if n = 1 then Inr 0 else bindR (floorLog2 ts (n - 1)) (\<lambda>y. Inr (y + 1)))"

definition isPowerOf2 :: "uint64 \<Rightarrow> bool" where
  "isPowerOf2 n \<longleftrightarrow> n \<noteq> 0 \<and> n AND (n - 1) = 0"

definition divCeil :: "uint64 \<Rightarrow> uint64 \<Rightarrow> uint64 res" where
  "divCeil a b = (if b = 0 then Inl DivByZero else Inr ((a + b - 1) div b))"

text \<open>The pairs are \<open>(high, low)\<close>.\<close>

definition mulUnsignedManual :: "uint64 \<Rightarrow> uint64 \<Rightarrow> uint64 \<times> uint64" where
  "mulUnsignedManual val_a val_b =
     (let low = val_a * val_b;
          A = ucast (ucast (drop_bit 32 val_a) :: uint32) :: uint64;
          a = ucast (ucast val_a :: uint32) :: uint64;
          B = ucast (ucast (drop_bit 32 val_b) :: uint32) :: uint64;
          b = ucast (ucast val_b :: uint32) :: uint64;
          ab = a * b; Ab = A * b; aB = a * B; AB = A * B;
          c1 = ucast (ucast (drop_bit 32 ab) :: uint32) :: uint64;
          c2 = drop_bit 1 c1 + drop_bit 1 Ab + drop_bit 1 aB;
          c2 = c2 + drop_bit 1 ((c1 AND 1) + (Ab AND 1) + (aB AND 1));
          c2 = drop_bit 31 c2
      in (AB + c2, low))"

definition mulUnsigned :: "uint64 \<Rightarrow> uint64 \<Rightarrow> uint64 \<times> uint64" where
  "mulUnsigned val_a val_b =
     (let val = (ucast val_a :: 128 word) * ucast val_b
      in (ucast (drop_bit 64 val), ucast val))"

definition mulSignedManual :: "uint64 \<Rightarrow> uint64 \<Rightarrow> uint64 \<times> uint64" where
  "mulSignedManual val_a val_b =
     (let (u_high, u_low) = mulUnsigned val_a val_b;
          u_high = (if val_a <s 0 then u_high - val_b else u_high);
          u_high = (if val_b <s 0 then u_high - val_a else u_high)
      in (u_high, u_low))"

definition mulSigned :: "uint64 \<Rightarrow> uint64 \<Rightarrow> uint64 \<times> uint64" where
  "mulSigned val_a val_b =
     (let val = (scast val_a :: 128 word) * scast val_b
      in (ucast (signed_drop_bit 64 val), ucast val))"

definition roundUp :: "uint64 \<Rightarrow> uint64 \<Rightarrow> uint64 res" where
  "roundUp val align =
     checkR AssertFail (isPowerOf2 align)
       (let m = align - 1 in Inr ((val + m) AND NOT m))"

definition roundDown :: "uint64 \<Rightarrow> uint64 \<Rightarrow> uint64 res" where
  "roundDown val align =
     checkR AssertFail (isPowerOf2 align) (let m = align - 1 in Inr (val AND NOT m))"

section \<open>Logarithms\<close>

lemma and_window:
  assumes "k + k \<le> 64" "0 < k"
  shows "u AND push_bit k (mask k) = (0 :: uint64) \<longleftrightarrow> bits_val u (k + k - 1) k = 0"
proof -
  have "u AND push_bit k (mask k) = push_bit k (bits_val u (k + k - 1) k)"
    using assms
    by (intro uint64_eqI) (auto simp: bit_bits_val bit_and_iff bit_push_bit_iff_nat bit_push_bit_iff bit_mask_iff)
  moreover have "drop_bit k (push_bit k (bits_val u (k + k - 1) k)) = bits_val u (k + k - 1) k"
    using assms
    by (intro uint64_eqI) (auto simp: bit_bits_val bit_drop_bit_eq bit_push_bit_iff)
  ultimately show ?thesis by (metis drop_bit_of_0 push_bit_of_0)
qed

lemma log_step_msb:
  assumes "need \<le> ts" "k + k \<le> 64" "0 < k" "m = push_bit k (mask k)"
  shows "log_step ts need k m p = msb_step (k + k - 1) k p"
  using and_window [OF assms(2,3)] assms by (simp add: log_step_def msb_step_def)

lemma log_step_skip: "\<not> need \<le> ts \<Longrightarrow> log_step ts need k m p = p"
  by (simp add: log_step_def)

lemma msb_step_skip:
  assumes "unat v < 2 ^ k"
  shows "msb_step (k + k - 1) k (y, v) = (y, v)"
  using assms by (simp add: msb_step_def bits_val_zero)

lemma log_masks:
  "(0xffffffff00000000 :: uint64) = push_bit 32 (mask 32)"
  "(0x00000000ffff0000 :: uint64) = push_bit 16 (mask 16)"
  "(0x000000000000ff00 :: uint64) = push_bit 8 (mask 8)"
  "(0x00000000000000f0 :: uint64) = push_bit 4 (mask 4)"
  "(0x000000000000000c :: uint64) = push_bit 2 (mask 2)"
  "(0x0000000000000002 :: uint64) = push_bit 1 (mask 1)"
  by (simp_all add: mask_eq_exp_minus_1 push_bit_eq_mult)

lemma floorLog2_steps:
  assumes "x \<noteq> 0" "log_step ts 2 8 0xff00 (log_step ts 4 16 0xffff0000 (log_step ts 8 32 0xffffffff00000000 (0, x))) =
    msb_step 15 8 (msb_step 31 16 (msb_step 63 32 (0, x)))"
  shows "floorLog2 ts x = Inr (findMsbSet x)"
  using assms log_step_msb [OF _ _ _ log_masks(4), of 0 ts] log_step_msb [OF _ _ _ log_masks(5), of 0 ts]
    and_window [of 1, folded log_masks(6)]
  by (simp add: floorLog2_def findMsbSet_def word_gt_0 split_beta Let_def)

lemma floorLog2_findMsbSet:
  assumes "x \<noteq> 0" "ts \<in> {1, 2, 4, 8}" "unat x < 2 ^ (8 * ts)"
  shows "floorLog2 ts x = Inr (findMsbSet x)"
proof (rule floorLog2_steps [OF assms(1)])
  note steps = log_step_msb [OF _ _ _ log_masks(1)] log_step_msb [OF _ _ _ log_masks(2)]
    log_step_msb [OF _ _ _ log_masks(3)] log_step_skip
  have small: "unat x < 2 ^ k \<Longrightarrow> msb_step (k + k - 1) k (0, x) = (0, x)" for k
    by (rule msb_step_skip)
  consider "ts = 1" "unat x < 2 ^ 8" | "ts = 2" "unat x < 2 ^ 16" | "ts = 4" "unat x < 2 ^ 32" | "ts = 8"
    using assms(2,3) by auto
  then show "log_step ts 2 8 0xff00 (log_step ts 4 16 0xffff0000 (log_step ts 8 32 0xffffffff00000000 (0, x))) =
    msb_step 15 8 (msb_step 31 16 (msb_step 63 32 (0, x)))"
    using small [of 8] small [of 16] small [of 32] by cases (simp_all add: steps)
qed

text \<open>
  \<open>floorLog2\<close> is the binary logarithm rounded down, for every argument type of 1, 2, 4 or 8
  bytes and every positive argument of it; \<open>ceilLog2\<close> is the logarithm rounded up.
\<close>

theorem floorLog2_ceilLog2_correct:
  assumes "ts \<in> {1, 2, 4, 8}" "0 < x" "unat x < 2 ^ (8 * ts)"
  shows "(\<exists>k. floorLog2 ts x = Inr k \<and> 2 ^ k \<le> unat x \<and> unat x < 2 ^ Suc k) \<and>
    (\<exists>k. ceilLog2 ts x = Inr k \<and> unat x \<le> 2 ^ k \<and> (\<forall>j. unat x \<le> 2 ^ j \<longrightarrow> k \<le> j))"
proof (rule conjI)
  have x: "x \<noteq> 0" "0 < unat x" using assms(2) by (auto simp: unat_gt_0)
  show "\<exists>k. floorLog2 ts x = Inr k \<and> 2 ^ k \<le> unat x \<and> unat x < 2 ^ Suc k"
    using floorLog2_findMsbSet [OF x(1) assms(1,3)] div_pow_eq_1 [THEN iffD1, OF findMsbSet_div [OF x(1)]]
    by simp
  show "\<exists>k. ceilLog2 ts x = Inr k \<and> unat x \<le> 2 ^ k \<and> (\<forall>j. unat x \<le> 2 ^ j \<longrightarrow> k \<le> j)"
  proof (cases "x = 1")
    case True
    then show ?thesis by (auto simp: ceilLog2_def)
  next
    case False
    then have w: "x - 1 \<noteq> 0" by auto
    have uw: "unat (x - 1) = unat x - 1" using x(1) by (rule unat_minus_one)
    let ?m = "findMsbSet (x - 1)"
    have m: "2 ^ ?m \<le> unat (x - 1)" "unat (x - 1) < 2 ^ Suc ?m"
      using div_pow_eq_1 [THEN iffD1, OF findMsbSet_div [OF w]] by simp_all
    have "floorLog2 ts (x - 1) = Inr ?m"
      using assms(3) uw by (intro floorLog2_findMsbSet [OF w assms(1)]) linarith
    then have "ceilLog2 ts x = Inr (Suc ?m)" using False x(1) by (simp add: ceilLog2_def word_gt_0)
    moreover have "Suc ?m \<le> j" if "unat x \<le> 2 ^ j" for j
    proof -
      have "2 ^ ?m < (2 ^ j :: nat)" using m(1) that x(2) uw by linarith
      then have "?m < j" by (rule power_less_imp_less_exp [rotated]) simp
      then show ?thesis by simp
    qed
    moreover have "unat x \<le> 2 ^ Suc ?m" using m(2) uw by linarith
    ultimately show ?thesis by blast
  qed
qed

theorem floorLog2_ceilLog2_correct_witness:
  "\<exists>k. floorLog2 4 100 = Inr k \<and> 2 ^ k \<le> (100 :: nat) \<and> 100 < (2 :: nat) ^ Suc k"
  using floorLog2_ceilLog2_correct [of 4 100] by simp

section \<open>Wide multiplication\<close>

lemma unat_mult_small: "unat a * unat b < 2 ^ 64 \<Longrightarrow> unat (a * b :: uint64) = unat a * unat b"
  by (simp add: unat_word_ariths)

lemma unat_add_small: "unat a + unat b < 2 ^ 64 \<Longrightarrow> unat (a + b :: uint64) = unat a + unat b"
  by (simp add: unat_word_ariths)

lemma unat_lo32: "unat (ucast (ucast (v :: uint64) :: uint32) :: uint64) = unat v mod 2 ^ 32"
proof -
  have "unat (ucast v :: uint32) = take_bit 32 (unat v)"
    unfolding unsigned_ucast_eq by simp
  then show ?thesis unfolding unat_ucast_32_64 by (simp only: take_bit_eq_mod)
qed

lemma unat_hi32: "unat (ucast (ucast (drop_bit 32 (v :: uint64)) :: uint32) :: uint64) = unat v div 2 ^ 32"
proof -
  have "unat v div 2 ^ 32 < 2 ^ 32" using unat_less_pow [of v] by simp
  then show ?thesis by (simp only: unat_lo32 unat_drop mod_less)
qed

lemma half_sum3:
  "(x :: nat) div 2 + y div 2 + z div 2 + (x mod 2 + y mod 2 + z mod 2) div 2 = (x + y + z) div 2"
proof -
  have eq: "x + y + z = 2 * (x div 2 + y div 2 + z div 2) + (x mod 2 + y mod 2 + z mod 2)"
    by (metis (no_types, opaque_lifting) add.assoc add.left_commute add_mult_distrib2 mult_div_mod_eq)
  show ?thesis by (subst eq, rule sym, rule div_mult_self4) simp
qed

lemma unat_and_1: "unat (v AND 1 :: uint64) = unat v mod 2"
  unfolding unsigned_and_eq unsigned_1 by (rule and_one_eq)

text \<open>The arithmetic of the schoolbook multiplication, on natural numbers.\<close>

lemma schoolbook_high:
  fixes a b A B :: nat
  assumes "a < 2 ^ 32" "b < 2 ^ 32" "A < 2 ^ 32" "B < 2 ^ 32"
  shows "((A * 2 ^ 32 + a) * (B * 2 ^ 32 + b)) div 2 ^ 64 =
    A * B + (a * b div 2 ^ 32 + A * b + a * B) div 2 ^ 32"
proof -
  have "(A * 2 ^ 32 + a) * (B * 2 ^ 32 + b) = A * B * 2 ^ 64 + ((A * b + a * B) * 2 ^ 32 + a * b)"
    by (simp add: algebra_simps)
  moreover have "(A * B * 2 ^ 64 + ((A * b + a * B) * 2 ^ 32 + a * b)) div 2 ^ 64 =
      A * B + ((A * b + a * B) * 2 ^ 32 + a * b) div 2 ^ 64"
    by (rule div_mult_self3) simp
  moreover have "((A * b + a * B) * 2 ^ 32 + a * b) div 2 ^ 64 = (a * b div 2 ^ 32 + A * b + a * B) div 2 ^ 32"
  proof -
    have "((A * b + a * B) * 2 ^ 32 + a * b) div (2 ^ 32 * 2 ^ 32) =
        ((A * b + a * B) * 2 ^ 32 + a * b) div 2 ^ 32 div 2 ^ 32"
      by (rule div_mult2_eq)
    then show ?thesis by (simp add: ac_simps)
  qed
  ultimately show ?thesis by simp
qed

lemma mul32_bound: "(x :: nat) < 2 ^ 32 \<Longrightarrow> y < 2 ^ 32 \<Longrightarrow> x * y \<le> (2 ^ 32 - 1) * (2 ^ 32 - 1)"
  by (intro mult_le_mono) simp_all

lemma carry_bound:
  assumes "c1 \<le> 2 ^ 32 - 1" "p \<le> (2 ^ 32 - 1) * (2 ^ 32 - 1)" "q \<le> (2 ^ 32 - 1) * (2 ^ 32 - 1 :: nat)"
  shows "(c1 + p + q) div 2 < 2 ^ 64" "c1 div 2 + p div 2 + q div 2 \<le> (c1 + p + q) div 2"
  using assms half_sum3 [of c1 p q] by simp_all

text \<open>The carry \<open>c2\<close> is the sum of the three partial products, halved without overflow.\<close>

lemma unat_half_sum:
  fixes x y z :: uint64
  assumes "(unat x + unat y + unat z) div 2 < 2 ^ 64"
  shows "unat (drop_bit 1 x + drop_bit 1 y + drop_bit 1 z + drop_bit 1 ((x AND 1) + (y AND 1) + (z AND 1))) =
    (unat x + unat y + unat z) div 2"
proof -
  let ?h = "\<lambda>v :: uint64. unat v div 2" and ?l = "\<lambda>v :: uint64. unat v mod 2"
  have sum: "?h x + ?h y + ?h z + (?l x + ?l y + ?l z) div 2 < 2 ^ 64"
    using assms by (simp only: half_sum3)
  have d: "unat (drop_bit 1 v) = ?h v" for v :: uint64 using unat_drop [of 1 v] by simp
  have "unat ((x AND 1) + (y AND 1)) = ?l x + ?l y"
    by (subst unat_add_small) (simp_all add: unat_and_1)
  then have l: "unat ((x AND 1) + (y AND 1) + (z AND 1)) = ?l x + ?l y + ?l z"
    by (subst unat_add_small) (simp_all add: unat_and_1)
  have "unat (drop_bit 1 x + drop_bit 1 y) = ?h x + ?h y"
    using sum by (subst unat_add_small) (simp_all only: d)
  then have "unat (drop_bit 1 x + drop_bit 1 y + drop_bit 1 z) = ?h x + ?h y + ?h z"
    using sum by (subst unat_add_small) (simp_all only: d)
  then have "unat (drop_bit 1 x + drop_bit 1 y + drop_bit 1 z + drop_bit 1 ((x AND 1) + (y AND 1) + (z AND 1))) =
      ?h x + ?h y + ?h z + (?l x + ?l y + ?l z) div 2"
    using sum by (subst unat_add_small) (simp_all only: d l)
  then show ?thesis by (simp only: half_sum3)
qed

lemma mulUnsignedManual_high:
  "unat (fst (mulUnsignedManual x y)) = unat x * unat y div 2 ^ 64"
proof -
  define A a B b where parts: "A = (ucast (ucast (drop_bit 32 x) :: uint32) :: uint64)"
    "a = (ucast (ucast x :: uint32) :: uint64)"
    "B = (ucast (ucast (drop_bit 32 y) :: uint32) :: uint64)" "b = (ucast (ucast y :: uint32) :: uint64)"
  define c1 where "c1 = (ucast (ucast (drop_bit 32 (a * b)) :: uint32) :: uint64)"
  let ?c2 = "drop_bit 1 c1 + drop_bit 1 (A * b) + drop_bit 1 (a * B) +
    drop_bit 1 ((c1 AND 1) + (A * b AND 1) + (a * B AND 1))"
  have x: "unat x = unat A * 2 ^ 32 + unat a" and y: "unat y = unat B * 2 ^ 32 + unat b"
    unfolding parts unat_hi32 by (simp_all only: unat_lo32 div_mult_mod_eq)
  have lt: "unat A < 2 ^ 32" "unat a < 2 ^ 32" "unat B < 2 ^ 32" "unat b < 2 ^ 32"
    unfolding parts unat_ucast_32_64 using unat_less_pow [where 'a = 32] by simp_all
  note le = mul32_bound [OF lt(2,4)] mul32_bound [OF lt(1,4)] mul32_bound [OF lt(2,3)] mul32_bound [OF lt(1,3)]
  have mul: "unat (a * b) = unat a * unat b" "unat (A * b) = unat A * unat b"
    "unat (a * B) = unat a * unat B" "unat (A * B) = unat A * unat B"
    by (rule unat_mult_small, use le in simp)+
  have c1: "unat c1 = unat a * unat b div 2 ^ 32" by (simp only: c1_def unat_hi32 mul)
  then have "unat c1 \<le> 2 ^ 32 - 1" using le(1) by simp
  note carry = carry_bound [OF this le(2,3)]
  let ?s = "unat c1 + unat A * unat b + unat a * unat B"
  have "unat ?c2 = ?s div 2"
    using unat_half_sum [of c1 "A * b" "a * B"] carry(1) by (simp only: mul)
  then have c2: "unat (drop_bit 31 ?c2) = ?s div 2 ^ 32"
    by (simp only: unat_drop div_mult2_eq [symmetric]) simp
  have high: "unat x * unat y div 2 ^ 64 = unat A * unat B + ?s div 2 ^ 32"
    by (simp only: x y schoolbook_high [OF lt(2,4,1,3)] c1)
  have "unat x * unat y < 2 ^ 64 * 2 ^ 64"
    using unat_less_pow [of x] unat_less_pow [of y] by (intro mult_strict_mono) simp_all
  then have "unat x * unat y div 2 ^ 64 < 2 ^ 64" by (simp only: less_mult_imp_div_less)
  then have "unat (A * B + drop_bit 31 ?c2) = unat x * unat y div 2 ^ 64"
    using c2 high by (subst unat_add_small) (simp_all only: mul)
  then show ?thesis
    by (simp only: mulUnsignedManual_def Let_def fst_conv parts c1_def)
qed

text \<open>The halves of a 128-bit product, as halves of the integer product.\<close>

lemma halves_128:
  fixes X :: int
  shows "(ucast (drop_bit 64 (word_of_int X :: 128 word)) :: uint64) = word_of_int (X div 2 ^ 64)"
    and "(ucast (signed_drop_bit 64 (word_of_int X :: 128 word)) :: uint64) = word_of_int (X div 2 ^ 64)"
    and "(ucast (word_of_int X :: 128 word) :: uint64) = word_of_int X"
proof -
  have div: "word_of_int (X div 2 ^ 64) = (word_of_int (drop_bit 64 X) :: uint64)"
    by (simp only: drop_bit_eq_div)
  show "(ucast (drop_bit 64 (word_of_int X :: 128 word)) :: uint64) = word_of_int (X div 2 ^ 64)"
    unfolding div
    by (intro uint64_eqI) (simp add: bit_ucast_iff bit_drop_bit_eq bit_word_of_int_iff)
  show "(ucast (signed_drop_bit 64 (word_of_int X :: 128 word)) :: uint64) = word_of_int (X div 2 ^ 64)"
    unfolding div
    by (intro uint64_eqI)
       (simp add: bit_ucast_iff bit_signed_drop_bit_iff bit_drop_bit_eq bit_word_of_int_iff)
  show "(ucast (word_of_int X :: 128 word) :: uint64) = word_of_int X"
    by (intro uint64_eqI) (simp add: bit_ucast_iff bit_word_of_int_iff)
qed

lemma mulUnsigned_int:
  "mulUnsigned x y = (word_of_int (uint x * uint y div 2 ^ 64), x * y)"
proof -
  have "(ucast x :: 128 word) * ucast y = word_of_int (uint x * uint y)"
    by (simp add: wi_hom_mult [symmetric])
  then show ?thesis by (simp only: mulUnsigned_def Let_def halves_128) simp
qed

lemma mulSigned_int:
  "mulSigned x y = (word_of_int (sint x * sint y div 2 ^ 64), x * y)"
proof -
  have "(scast x :: 128 word) * scast y = word_of_int (sint x * sint y)"
    by (simp add: wi_hom_mult [symmetric])
  then show ?thesis by (simp only: mulSigned_def Let_def halves_128) simp
qed

lemma sint_of_uint: "sint (x :: uint64) = uint x - (if x <s 0 then 2 ^ 64 else 0)"
proof -
  have "sint x = take_bit (Suc 63) (uint x) - 2 ^ Suc 63 * of_bool (bit (uint x) 63)"
    using sint_uint [of x] signed_take_bit_eq_take_bit_minus [of 63 "uint x"] by simp
  moreover have "x <s 0 \<longleftrightarrow> bit (uint x) 63"
    using sint_uint [of x] signed_take_bit_negative_iff [of 63 "uint x"] by (simp add: word_sless_alt)
  moreover have "take_bit (Suc 63) (uint x) = uint x"
    using uint_bounded [of x] by (simp add: take_bit_int_eq_self_iff)
  ultimately show ?thesis by simp
qed

text \<open>
  C33. The portable 64 by 64 bit multiplications, which work on 32-bit halves without a 128-bit
  type, return the same high and low words as the 128-bit product, unsigned and signed.
\<close>

theorem mul_manual_equiv:
  "mulUnsignedManual x y = mulUnsigned x y \<and> mulSignedManual x y = mulSigned x y"
proof (rule conjI)
  have "uint (fst (mulUnsignedManual x y)) = uint x * uint y div 2 ^ 64"
    using arg_cong [OF mulUnsignedManual_high [of x y], of int] by (simp add: zdiv_int)
  then have "fst (mulUnsignedManual x y) = word_of_int (uint x * uint y div 2 ^ 64)"
    by (metis word_of_int_uint)
  moreover have "snd (mulUnsignedManual x y) = x * y" by (simp add: mulUnsignedManual_def Let_def)
  ultimately show "mulUnsignedManual x y = mulUnsigned x y"
    by (simp add: mulUnsigned_int prod_eq_iff)
  let ?a = "if x <s 0 then 1 else 0 :: int" and ?b = "if y <s 0 then 1 else 0 :: int"
  have "sint x * sint y = uint x * uint y + (?a * ?b * 2 ^ 64 - ?a * uint y - ?b * uint x) * 2 ^ 64"
    by (simp add: sint_of_uint algebra_simps)
  then have "sint x * sint y div 2 ^ 64 = uint x * uint y div 2 ^ 64 + (?a * ?b * 2 ^ 64 - ?a * uint y - ?b * uint x)"
    by (simp only: div_mult_self1) simp
  then have "word_of_int (sint x * sint y div 2 ^ 64) =
      (word_of_int (uint x * uint y div 2 ^ 64) - (if x <s 0 then y else 0) - (if y <s 0 then x else 0) :: uint64)"
    by (simp flip: wi_hom_add wi_hom_sub wi_hom_mult)
  then show "mulSignedManual x y = mulSigned x y"
    by (simp add: mulSignedManual_def mulUnsigned_int mulSigned_int Let_def)
qed

section \<open>Rounding\<close>

lemma isPowerOf2_iff: "isPowerOf2 n \<longleftrightarrow> (\<exists>k < 64. n = 2 ^ k)"
proof
  assume p: "isPowerOf2 n"
  then have n: "n \<noteq> 0" by (simp add: isPowerOf2_def)
  let ?m = "findMsbSet n"
  have m: "2 ^ ?m \<le> unat n" "unat n < 2 ^ Suc ?m"
    using div_pow_eq_1 [THEN iffD1, OF findMsbSet_div [OF n]] by simp_all
  have "unat n = 2 ^ ?m"
  proof (rule ccontr)
    assume "unat n \<noteq> 2 ^ ?m"
    then have "2 ^ ?m \<le> unat (n - 1)" "unat (n - 1) < 2 ^ Suc ?m"
      using m by (simp_all add: unat_minus_one [OF n])
    then have "unat (n - 1) div 2 ^ ?m = 1" by (intro div_pow_eq_1 [THEN iffD2]) simp
    then have "bit (n - 1) ?m" "bit n ?m"
      using findMsbSet_div [OF n] by (simp_all add: bit_iff_unat)
    then have "bit (n AND (n - 1)) ?m" by (simp only: bit_and_iff)
    with p show False by (simp add: isPowerOf2_def)
  qed
  then have "n = 2 ^ ?m" using pow_le_unat [OF m(1)] by (metis unat_pow2 word_unat_eq_iff)
  with pow_le_unat [OF m(1)] show "\<exists>k < 64. n = 2 ^ k" by blast
next
  assume "\<exists>k < 64. n = 2 ^ k"
  then obtain k where k: "k < 64" "n = 2 ^ k" by blast
  then have "n \<noteq> 0" by (metis power_not_zero unat_0 unat_pow2 zero_neq_numeral)
  moreover have "n AND (n - 1) = 0"
    unfolding k(2) mask_eq_exp_minus_1 [symmetric]
    by (intro uint64_eqI) (simp add: bit_and_iff bit_mask_iff bit_exp_iff)
  ultimately show "isPowerOf2 n" by (simp add: isPowerOf2_def)
qed

lemma unat_clear_low:
  "unat (v AND NOT (mask k) :: uint64) = unat v div 2 ^ k * 2 ^ k"
proof -
  have "v AND NOT (mask k) = push_bit k (drop_bit k v)"
    by (intro uint64_eqI) (auto simp: bit_simps)
  moreover have "unat v div 2 ^ k * 2 ^ k < 2 ^ 64"
    using unat_less_pow [of v] div_mult_mod_eq [of "unat v" "2 ^ k"] by simp
  then have "take_bit 64 (unat v div 2 ^ k * 2 ^ k) = unat v div 2 ^ k * 2 ^ k"
    by (simp only: take_bit_nat_eq_self)
  ultimately show ?thesis
    by (simp only: unsigned_push_bit_eq unat_drop) (simp add: push_bit_eq_mult)
qed

text \<open>
  \<open>roundDown\<close> and \<open>roundUp\<close> to a power of two give the nearest multiple below and, as long
  as the intermediate sum fits in 64 bits, the nearest multiple above.
\<close>

theorem round_multiple:
  assumes "isPowerOf2 align"
  shows "(\<exists>r. roundDown val align = Inr r \<and> unat r = unat val div unat align * unat align) \<and>
    (unat val + unat align - 1 < 2 ^ 64 \<longrightarrow>
      (\<exists>r. roundUp val align = Inr r \<and> unat align dvd unat r \<and> unat val \<le> unat r \<and>
         unat r < unat val + unat align))"
proof (intro conjI impI)
  obtain k where k: "k < 64" "align = 2 ^ k" using assms by (auto simp: isPowerOf2_iff)
  have m: "align - 1 = mask k" by (simp add: k(2) mask_eq_exp_minus_1)
  have ua: "unat align = 2 ^ k" using k by (simp add: unat_pow2)
  show "\<exists>r. roundDown val align = Inr r \<and> unat r = unat val div unat align * unat align"
    using assms ua by (simp add: roundDown_def m unat_clear_low Let_def)
  assume fits: "unat val + unat align - 1 < 2 ^ 64"
  have "align \<noteq> 0" using assms by (simp add: isPowerOf2_def)
  then have um: "unat (mask k :: uint64) = 2 ^ k - 1"
    using ua unat_minus_one [of align] by (simp add: m)
  have "1 \<le> (2::nat) ^ k" by simp
  with fits have sum: "unat (val + mask k) = unat val + (2 ^ k - 1)"
    using um ua by (subst unat_add_small) auto
  let ?n = "unat val + (2 ^ k - 1)"
  have "?n div 2 ^ k * 2 ^ k + ?n mod 2 ^ k = ?n" by (rule div_mult_mod_eq)
  moreover have "?n mod 2 ^ k < 2 ^ k" by simp
  ultimately have "unat val \<le> ?n div 2 ^ k * 2 ^ k" "?n div 2 ^ k * 2 ^ k < unat val + 2 ^ k"
    using \<open>1 \<le> 2 ^ k\<close> by linarith+
  then show "\<exists>r. roundUp val align = Inr r \<and> unat align dvd unat r \<and> unat val \<le> unat r \<and>
      unat r < unat val + unat align"
    using assms by (simp add: roundUp_def m ua unat_clear_low sum Let_def)
qed

theorem round_multiple_witness:
  "(\<exists>r. roundDown 0x1234 64 = Inr r \<and> unat r = (0x1234 :: nat) div 64 * 64) \<and>
   (\<exists>r. roundUp 0x1234 64 = Inr r \<and> 64 dvd unat r)"
proof -
  have "isPowerOf2 64" by (simp add: isPowerOf2_def)
  from round_multiple [OF this, of "0x1234"] show ?thesis by auto
qed

lemma floorLog2_pow2:
  assumes "k < 64" "ts \<in> {1, 2, 4, 8}" "k < 8 * ts"
  shows "floorLog2 ts (2 ^ k) = Inr k"
proof -
  have u: "unat (2 ^ k :: uint64) = 2 ^ k" using assms(1) by (rule unat_pow2)
  then have nz: "(2 ^ k :: uint64) \<noteq> 0" by (metis unat_0 zero_neq_numeral power_eq_0_iff)
  have "2 ^ findMsbSet (2 ^ k) \<le> (2 :: nat) ^ k \<and> (2 :: nat) ^ k < 2 ^ Suc (findMsbSet (2 ^ k))"
    using findMsbSet_div [OF nz] u div_pow_eq_1 [of "2 ^ k"] by (metis unat_pow2 assms(1))
  then have "findMsbSet (2 ^ k) \<le> k" "k < Suc (findMsbSet (2 ^ k))"
    by (meson power_increasing_iff one_less_numeral_iff semiring_norm(76) power_strict_increasing_iff)+
  then have "findMsbSet (2 ^ k) = k" by simp
  then show ?thesis using floorLog2_findMsbSet [OF nz assms(2)] assms(3) u by simp
qed

end
