(* ===== verification/Ruby_Address.thy ===== *)
theory Ruby_Address
  imports Intmath
begin

text \<open>
  Line addresses of Ruby (\<open>mem/ruby/common/Address.cc\<close>).  \<open>cacheLineBits\<close> is the number of
  offset bits of a cache line.
\<close>

unbundle bit_operations_syntax

definition bitSelect :: "addr \<Rightarrow> nat \<Rightarrow> nat \<Rightarrow> addr res" where
  "bitSelect a small big = checkR AssertFail (big \<ge> small) (bits a big small)"

definition maskLowOrderBits :: "addr \<Rightarrow> nat \<Rightarrow> addr" where
  "maskLowOrderBits a number = mbits a 63 number"

text \<open>
  For \<open>cacheLineBits = 0\<close> the argument \<open>cacheLineBits - 1\<close> becomes the largest
  \<open>unsigned\<close>, and \<open>bits\<close> computes a width of 0 from it.
\<close>

definition getOffset :: "addr \<Rightarrow> nat \<Rightarrow> addr res" where
  "getOffset a cacheLineBits =
     checkR AssertFail (cacheLineBits < 64)
       (if cacheLineBits = 0 then Inr (a AND mask64 0) else bitSelect a 0 (cacheLineBits - 1))"

definition makeLineAddress :: "addr \<Rightarrow> nat \<Rightarrow> addr res" where
  "makeLineAddress a cacheLineBits =
     checkR AssertFail (cacheLineBits < 64) (Inr (maskLowOrderBits a cacheLineBits))"

text \<open>The product \<open>cacheLineBytes * stride\<close> is an \<open>int\<close> and is undefined if it overflows.\<close>

definition makeNextStrideAddress :: "addr \<Rightarrow> int \<Rightarrow> uint32 \<Rightarrow> addr res" where
  "makeNextStrideAddress a stride cacheLineBytes =
     bindR (floorLog2 4 (ucast cacheLineBytes)) (\<lambda>b.
     bindR (makeLineAddress a b) (\<lambda>line.
     let d = sint cacheLineBytes * stride in
     checkR OutOfRange (- (2 ^ 31) \<le> d \<and> d < 2 ^ 31) (Inr (line + word_of_int d))))"

section \<open>Lines and offsets\<close>

lemma maskLowOrderBits_eq: "maskLowOrderBits a n = a AND NOT (mask n)"
  by (intro uint64_eqI) (auto simp: maskLowOrderBits_def bit_mbits bit_simps)

lemma unat_line: "unat (maskLowOrderBits a n) = unat a div 2 ^ n * 2 ^ n"
  by (simp only: maskLowOrderBits_eq unat_clear_low)

lemma line_idem [simp]: "maskLowOrderBits (maskLowOrderBits a n) n = maskLowOrderBits a n"
  by (simp add: maskLowOrderBits_eq and.assoc)

lemma makeLineAddress_Inr [simp]: "n < 64 \<Longrightarrow> makeLineAddress a n = Inr (maskLowOrderBits a n)"
  by (simp add: makeLineAddress_def)

lemma getOffset_unat:
  assumes "n < 64"
  shows "\<exists>off. getOffset a n = Inr off \<and> unat off = unat a mod 2 ^ n"
proof (cases n)
  case 0
  then show ?thesis by (simp add: getOffset_def mask64_eq)
next
  case (Suc m)
  then show ?thesis
    using assms unat_bits_val [of a m 0] by (simp add: getOffset_def bitSelect_def bits_def)
qed

text \<open>
  A Ruby address splits into its line and its offset: \<open>makeLineAddress\<close> gives the multiple of
  the line size below it, \<open>getOffset\<close> the rest, and they add up to the address.
\<close>

theorem line_offset_split:
  assumes "n < 64"
  shows "\<exists>line off. makeLineAddress a n = Inr line \<and> getOffset a n = Inr off \<and>
    2 ^ n dvd unat line \<and> unat off < 2 ^ n \<and> unat line + unat off = unat a \<and> line + off = a"
proof -
  obtain off where off: "getOffset a n = Inr off" "unat off = unat a mod 2 ^ n"
    using getOffset_unat [OF assms] by blast
  let ?line = "maskLowOrderBits a n"
  have sum: "unat ?line + unat off = unat a"
    by (simp only: unat_line off(2) div_mult_mod_eq)
  then have "unat (?line + off) = unat a"
    using unat_less_pow [of a] by (subst unat_add_small) simp_all
  then have "?line + off = a" by (simp only: word_unat_eq_iff)
  with assms off sum show ?thesis by (auto simp: unat_line)
qed

theorem line_offset_split_witness:
  "\<exists>line off. makeLineAddress 0x12345 6 = Inr line \<and> getOffset 0x12345 6 = Inr off \<and>
     line + off = 0x12345"
  using line_offset_split [of 6 "0x12345"] by auto

end
