(* ===== verification/Banked_Array.thy ===== *)
theory Banked_Array
  imports Ruby_Address
begin

text \<open>
  The resource models of a Ruby cache: banked tag and data arrays
  (\<open>mem/ruby/structures/BankedArray.cc\<close>) and the free list of atomic ALUs
  (\<open>mem/ruby/structures/ALUFreeListArray.cc\<close>).  Both answer whether an access may start at the
  current tick and record the accesses that did.
\<close>

section \<open>Banked arrays\<close>

record access_record =
  ar_idx :: int
  startAccess :: tick
  endAccess :: tick

record banked_array =
  banks :: uint32
  accessLatency :: uint64
  clockPeriod :: tick
  bankBits :: nat
  startIndexBit :: uint32
  busyBanks :: "access_record list"

text \<open>The member \<open>bankBits\<close> stays uninitialised for zero banks; \<open>b0\<close> is what it holds then.\<close>

definition newBankedArray :: "nat \<Rightarrow> uint32 \<Rightarrow> uint64 \<Rightarrow> uint32 \<Rightarrow> banked_array res" where
  "newBankedArray b0 bs lat sib =
     bindR (if bs \<noteq> 0 then floorLog2 4 (ucast bs) else Inr b0) (\<lambda>bb.
     Inr \<lparr>banks = bs, accessLatency = lat, clockPeriod = 0, bankBits = bb, startIndexBit = sib,
        busyBanks = replicate (unat bs) \<lparr>ar_idx = 0, startAccess = 0, endAccess = 0\<rparr>\<rparr>)"

definition ba_setClockPeriod :: "tick \<Rightarrow> banked_array \<Rightarrow> banked_array" where
  "ba_setClockPeriod t a = a\<lparr>clockPeriod := t\<rparr>"

text \<open>
  \<open>idx % banks\<close> with \<open>int64_t idx\<close> and \<open>unsigned banks\<close>: the remainder of 64-bit signed
  numbers, which has the sign of \<open>idx\<close>, converted to \<open>unsigned\<close>.
\<close>

definition mapIndexToBank :: "banked_array \<Rightarrow> int \<Rightarrow> uint32 res" where
  "mapIndexToBank a idx =
     (if banks a = 1 then Inr 0
      else if banks a = 0 then Inl DivByZero
      else Inr (word_of_int (sgn idx * (\<bar>idx\<bar> mod uint (banks a)))))"

definition ba_tryAccess :: "tick \<Rightarrow> banked_array \<Rightarrow> int \<Rightarrow> bool res" where
  "ba_tryAccess now a idx =
     (if accessLatency a = 0 then Inr True
      else
        bindR (mapIndexToBank a idx) (\<lambda>bank.
        checkR AssertFail (bank < banks a)
          (bindR (vec_at (busyBanks a) (unat bank)) (\<lambda>r.
           Inr (\<not> endAccess r \<ge> now)))))"

definition ba_reserve :: "tick \<Rightarrow> banked_array \<Rightarrow> int \<Rightarrow> banked_array res" where
  "ba_reserve now a idx =
     (if accessLatency a = 0 then Inr a
      else
        checkR AssertFail (clockPeriod a > 0)
          (bindR (mapIndexToBank a idx) (\<lambda>bank.
           checkR AssertFail (bank < banks a)
             (bindR (vec_at (busyBanks a) (unat bank)) (\<lambda>r.
              if endAccess r \<ge> now
              then if startAccess r = now \<and> ar_idx r = idx then Inr a else Inl Panic
              else Inr (a\<lparr>busyBanks := (busyBanks a)[unat bank :=
                     \<lparr>ar_idx = idx, startAccess = now,
                      endAccess = now + (accessLatency a - 1) * clockPeriod a\<rparr>]\<rparr>))))))"

section \<open>The ALU free list\<close>

record alu_record =
  lineAddr :: addr
  startTick :: tick

record alu_array =
  numALUs :: uint32
  accessClocks :: uint64
  alu_accessLatency :: tick
  accessQueue :: "alu_record list"
  alu_block_size_bits :: nat

definition newALUFreeListArray :: "uint32 \<Rightarrow> uint64 \<Rightarrow> alu_array" where
  "newALUFreeListArray n clocks =
     \<lparr>numALUs = n, accessClocks = clocks, alu_accessLatency = 0, accessQueue = [], alu_block_size_bits = 0\<rparr>"

definition alu_getLatency :: "alu_array \<Rightarrow> tick res" where
  "alu_getLatency a = checkR AssertFail (alu_accessLatency a > 0) (Inr (alu_accessLatency a))"

definition alu_setClockPeriod :: "tick \<Rightarrow> alu_array \<Rightarrow> alu_array" where
  "alu_setClockPeriod period a = a\<lparr>alu_accessLatency := accessClocks a * period\<rparr>"

definition alu_setBlockSize :: "uint32 \<Rightarrow> alu_array \<Rightarrow> alu_array res" where
  "alu_setBlockSize block_size a =
     bindR (floorLog2 4 (ucast block_size)) (\<lambda>b. Inr (a\<lparr>alu_block_size_bits := b\<rparr>))"

text \<open>The queue has the newest record in front; the loop drops records from its back.\<close>

definition alu_expire :: "tick \<Rightarrow> alu_record list \<Rightarrow> alu_record list" where
  "alu_expire oldest q = rev (dropWhile (\<lambda>r. startTick r < oldest) (rev q))"

fun alu_scan :: "tick \<Rightarrow> uint32 \<Rightarrow> addr \<Rightarrow> uint32 \<Rightarrow> alu_record list \<Rightarrow> bool" where
  "alu_scan now n line accesses [] = True"
| "alu_scan now n line accesses (r # rs) =
     (let accesses' = (if startTick r = now then accesses + 1 else accesses) in
      if startTick r = now \<and> accesses' > n then False
      else if lineAddr r = line then False
      else alu_scan now n line accesses' rs)"

definition alu_tryAccess :: "tick \<Rightarrow> addr \<Rightarrow> alu_array \<Rightarrow> (bool \<times> alu_array) res" where
  "alu_tryAccess now a s =
     (let q = alu_expire (now - alu_accessLatency s) (accessQueue s);
          s' = s\<lparr>accessQueue := q\<rparr>
      in if q = [] then Inr (True, s')
         else bindR (makeLineAddress a (alu_block_size_bits s)) (\<lambda>line.
              Inr (alu_scan now (numALUs s) line 0 q, s')))"

definition alu_reserve :: "tick \<Rightarrow> addr \<Rightarrow> alu_array \<Rightarrow> alu_array res" where
  "alu_reserve now a s =
     bindR (makeLineAddress a (alu_block_size_bits s)) (\<lambda>line.
     Inr (s\<lparr>accessQueue := \<lparr>lineAddr = line, startTick = now\<rparr> # accessQueue s\<rparr>))"

section \<open>Bank reservations\<close>

definition ba_inv :: "banked_array \<Rightarrow> bool" where
  "ba_inv a \<longleftrightarrow> 0 < banks a \<and> length (busyBanks a) = unat (banks a)"

definition bank_of :: "banked_array \<Rightarrow> int \<Rightarrow> nat" where
  "bank_of a idx = nat (idx mod uint (banks a))"

lemma mapIndexToBank_ok:
  assumes "ba_inv a" "0 \<le> idx"
  shows "\<exists>b. mapIndexToBank a idx = Inr b \<and> b < banks a \<and> unat b = bank_of a idx"
proof -
  let ?n = "uint (banks a)"
  have n: "0 < ?n" using assms(1) by (simp add: ba_inv_def word_less_def)
  then have r: "0 \<le> idx mod ?n" "idx mod ?n < ?n" by simp_all
  have "uint (word_of_int (idx mod ?n) :: uint32) = idx mod ?n"
    using r uint_bounded [of "banks a"] by (simp add: uint_word_of_int)
  then have w: "(word_of_int (idx mod ?n) :: uint32) < banks a \<and>
      unat (word_of_int (idx mod ?n) :: uint32) = bank_of a idx"
    using r by (simp add: word_less_def unat_eq_nat_uint bank_of_def)
  have "sgn idx * (\<bar>idx\<bar> mod ?n) = idx mod ?n" using assms(2) by (auto simp: sgn_if)
  then show ?thesis
    using w n assms(1) by (auto simp: mapIndexToBank_def ba_inv_def bank_of_def)
qed

lemma bank_of_less:
  assumes "ba_inv a"
  shows "bank_of a idx < length (busyBanks a)"
proof -
  have "0 < uint (banks a)" using assms by (simp add: ba_inv_def word_less_def)
  then have "nat (idx mod uint (banks a)) < nat (uint (banks a))"
    by (intro nat_mono_iff [THEN iffD2]) simp_all
  then show ?thesis using assms by (simp add: bank_of_def ba_inv_def)
qed

lemma ba_tryAccess_eq:
  assumes "ba_inv a" "0 \<le> idx"
  shows "ba_tryAccess now a idx =
    Inr (accessLatency a = 0 \<or> endAccess (busyBanks a ! bank_of a idx) < now)"
  using mapIndexToBank_ok [OF assms] bank_of_less [OF assms(1), of idx]
  by (auto simp: ba_tryAccess_def not_le)

lemma ba_reserve_eq:
  assumes "ba_inv a" "0 \<le> idx" "accessLatency a \<noteq> 0" "0 < clockPeriod a"
    and "endAccess (busyBanks a ! bank_of a idx) < now"
  shows "ba_reserve now a idx = Inr (a\<lparr>busyBanks := (busyBanks a)[bank_of a idx :=
    \<lparr>ar_idx = idx, startAccess = now, endAccess = now + (accessLatency a - 1) * clockPeriod a\<rparr>]\<rparr>)"
  using mapIndexToBank_ok [OF assms(1,2)] bank_of_less [OF assms(1), of idx] assms(3-5)
  by (auto simp: ba_reserve_def not_le)

text \<open>
  A granted access of a banked array never collides: if \<open>tryAccess\<close> said yes, \<open>reserve\<close>
  at the same tick does not panic, and until the last tick of the access every \<open>tryAccess\<close> to an
  index of the same bank says no, while the answer for the other banks is what it was before.
\<close>

theorem banked_array_exclusive:
  assumes "ba_inv a" "0 \<le> idx" "accessLatency a \<noteq> 0" "0 < clockPeriod a"
    and "ba_tryAccess now a idx = Inr True"
  shows "\<exists>a'. ba_reserve now a idx = Inr a' \<and> ba_inv a' \<and>
    (\<forall>t idx'. 0 \<le> idx' \<longrightarrow>
      (bank_of a idx' = bank_of a idx \<longrightarrow> t \<le> now + (accessLatency a - 1) * clockPeriod a \<longrightarrow>
         ba_tryAccess t a' idx' = Inr False) \<and>
      (bank_of a idx' \<noteq> bank_of a idx \<longrightarrow> ba_tryAccess t a' idx' = ba_tryAccess t a idx'))"
proof -
  let ?a = "a\<lparr>busyBanks := (busyBanks a)[bank_of a idx :=
    \<lparr>ar_idx = idx, startAccess = now, endAccess = now + (accessLatency a - 1) * clockPeriod a\<rparr>]\<rparr>"
  have "endAccess (busyBanks a ! bank_of a idx) < now"
    using assms(5) assms(3) by (simp add: ba_tryAccess_eq [OF assms(1,2)])
  then have res: "ba_reserve now a idx = Inr ?a" by (rule ba_reserve_eq [OF assms(1-4)])
  have inv: "ba_inv ?a" using assms(1) by (simp add: ba_inv_def)
  have same: "bank_of ?a i = bank_of a i" for i by (simp add: bank_of_def)
  have "ba_tryAccess t ?a i = Inr False"
    if "0 \<le> i" "bank_of a i = bank_of a idx" "t \<le> now + (accessLatency a - 1) * clockPeriod a" for t i
    using that assms(3) bank_of_less [OF assms(1), of idx]
    by (simp add: ba_tryAccess_eq [OF inv] same not_less)
  moreover have "ba_tryAccess t ?a i = ba_tryAccess t a i"
    if "0 \<le> i" "bank_of a i \<noteq> bank_of a idx" for t i
    using that by (simp add: ba_tryAccess_eq [OF inv] ba_tryAccess_eq [OF assms(1)] same)
  ultimately show ?thesis using res inv by blast
qed

definition ex_banked :: banked_array where
  "ex_banked = \<lparr>banks = 4, accessLatency = 3, clockPeriod = 500, bankBits = 2, startIndexBit = 6,
     busyBanks = replicate 4 \<lparr>ar_idx = 0, startAccess = 0, endAccess = 0\<rparr>\<rparr>"

theorem banked_array_exclusive_witness:
  "\<exists>a'. ba_reserve 1000 ex_banked 6 = Inr a' \<and> ba_tryAccess 2000 a' 10 = Inr False \<and>
     ba_tryAccess 2000 a' 11 = ba_tryAccess 2000 ex_banked 11"
proof -
  have "ba_inv ex_banked" by (simp add: ba_inv_def ex_banked_def)
  moreover have "ba_tryAccess 1000 ex_banked 6 = Inr True"
    using calculation by (simp add: ba_tryAccess_eq) (simp add: ex_banked_def bank_of_def)
  moreover have "bank_of ex_banked 10 = bank_of ex_banked 6" "bank_of ex_banked 11 \<noteq> bank_of ex_banked 6"
    "(2000 :: tick) \<le> 1000 + (accessLatency ex_banked - 1) * clockPeriod ex_banked"
    "accessLatency ex_banked \<noteq> 0" "0 < clockPeriod ex_banked"
    by (simp_all add: ex_banked_def bank_of_def)
  ultimately obtain a' where a': "ba_reserve 1000 ex_banked 6 = Inr a'"
    "\<forall>t idx'. 0 \<le> idx' \<longrightarrow>
      (bank_of ex_banked idx' = bank_of ex_banked 6 \<longrightarrow>
         t \<le> 1000 + (accessLatency ex_banked - 1) * clockPeriod ex_banked \<longrightarrow>
         ba_tryAccess t a' idx' = Inr False) \<and>
      (bank_of ex_banked idx' \<noteq> bank_of ex_banked 6 \<longrightarrow> ba_tryAccess t a' idx' = ba_tryAccess t ex_banked idx')"
    using banked_array_exclusive [of ex_banked 6 1000] by auto
  show ?thesis
    using a'(1) a'(2) [rule_format, of 10 2000] a'(2) [rule_format, of 11 2000]
      \<open>bank_of ex_banked 10 = _\<close> \<open>bank_of ex_banked 11 \<noteq> _\<close> \<open>2000 \<le> _\<close> by simp
qed

section \<open>ALU grants\<close>

definition starts_at :: "tick \<Rightarrow> alu_record list \<Rightarrow> nat" where
  "starts_at now q = length (filter (\<lambda>r. startTick r = now) q)"

lemma alu_scan_iff:
  assumes "unat acc + starts_at now q < 2 ^ 32" "acc \<le> n"
  shows "alu_scan now n line acc q \<longleftrightarrow>
    unat acc + starts_at now q \<le> unat n \<and> line \<notin> lineAddr ` set q"
  using assms
proof (induction q arbitrary: acc)
  case Nil
  then show ?case by (simp add: starts_at_def word_le_nat_alt)
next
  case (Cons r q)
  show ?case
  proof (cases "startTick r = now")
    case True
    then have "unat (acc + 1) = Suc (unat acc)"
      using Cons.prems(1) by (simp add: starts_at_def unat_word_ariths)
    with Cons.IH [of "acc + 1"] Cons.prems True show ?thesis
      by (auto simp: starts_at_def Let_def word_le_nat_alt word_less_nat_alt)
  next
    case False
    with Cons.IH [of acc] Cons.prems show ?thesis by (auto simp: starts_at_def Let_def)
  qed
qed

definition alu_pending :: "tick \<Rightarrow> alu_array \<Rightarrow> alu_record list" where
  "alu_pending now s = alu_expire (now - alu_accessLatency s) (accessQueue s)"

lemma alu_tryAccess_eq:
  assumes "alu_block_size_bits s < 64" "starts_at now (alu_pending now s) < 2 ^ 32"
  shows "alu_tryAccess now a s =
    Inr (starts_at now (alu_pending now s) \<le> unat (numALUs s) \<and>
         maskLowOrderBits a (alu_block_size_bits s) \<notin> lineAddr ` set (alu_pending now s),
      s\<lparr>accessQueue := alu_pending now s\<rparr>)"
  using assms alu_scan_iff [of 0 now "alu_pending now s" "numALUs s"]
  by (auto simp: alu_tryAccess_def Let_def alu_pending_def starts_at_def)

text \<open>
  When the ALU array grants an access: exactly when at most \<open>numALUs\<close> accesses have already
  started at the current tick and no pending access is to the same line.  So a tick can start
  \<open>numALUs + 1\<close> accesses, one more than the class comment's ``up to numALU new requests''.
\<close>

theorem alu_grant_condition:
  assumes "alu_block_size_bits s < 64" "starts_at now (alu_pending now s) < 2 ^ 32"
  shows "\<exists>s'. alu_tryAccess now a s =
    Inr (starts_at now (alu_pending now s) \<le> unat (numALUs s) \<and>
         maskLowOrderBits a (alu_block_size_bits s) \<notin> lineAddr ` set (alu_pending now s), s')"
  using alu_tryAccess_eq [OF assms] by blast

definition ex_alu :: alu_array where
  "ex_alu = \<lparr>numALUs = 1, accessClocks = 2, alu_accessLatency = 10,
     accessQueue = [\<lparr>lineAddr = 0x40, startTick = 100\<rparr>], alu_block_size_bits = 6\<rparr>"

theorem alu_grant_condition_witness: "\<exists>s'. alu_tryAccess 100 0x80 ex_alu = Inr (True, s')"
proof -
  have "alu_pending 100 ex_alu = [\<lparr>lineAddr = 0x40, startTick = 100\<rparr>]"
    by (simp add: alu_pending_def alu_expire_def ex_alu_def)
  moreover have "maskLowOrderBits 0x80 6 = 0x80"
    by (simp add: maskLowOrderBits_eq mask_eq_exp_minus_1)
  ultimately show ?thesis
    using alu_grant_condition [of ex_alu 100 "0x80"] by (simp add: starts_at_def ex_alu_def)
qed

text \<open>
  Before the simulation has run for one ALU latency, \<open>curTick() - accessLatency\<close> wraps around,
  every recorded access counts as expired, and \<open>tryAccess\<close> grants everything: also a second
  access to a line whose first one is still in the pipeline.
\<close>

theorem alu_early_grants_all:
  assumes "now < alu_accessLatency s" "\<forall>r \<in> set (accessQueue s). startTick r \<le> now"
  shows "alu_tryAccess now a s = Inr (True, s\<lparr>accessQueue := []\<rparr>)"
proof -
  have "now < now - alu_accessLatency s"
  proof -
    have "unat (now - alu_accessLatency s) = 2 ^ 64 + unat now - unat (alu_accessLatency s)"
      using assms(1) unat_sub_if' [of now "alu_accessLatency s"]
      by (simp add: word_le_nat_alt word_less_nat_alt)
    then show ?thesis
      using unat_less_pow [of "alu_accessLatency s"] by (simp add: word_less_nat_alt)
  qed
  with assms(2) have "\<forall>r \<in> set (rev (accessQueue s)). startTick r < now - alu_accessLatency s"
    by auto
  then have "dropWhile (\<lambda>r. startTick r < now - alu_accessLatency s) (rev (accessQueue s)) = []"
    by (simp only: dropWhile_eq_Nil_conv)
  then show ?thesis by (simp add: alu_tryAccess_def alu_expire_def Let_def)
qed

theorem alu_early_grants_all_witness:
  "alu_tryAccess 5 0x40 (ex_alu\<lparr>accessQueue := [\<lparr>lineAddr = 0x40, startTick = 4\<rparr>]\<rparr>) =
     Inr (True, ex_alu\<lparr>accessQueue := []\<rparr>)"
  using alu_early_grants_all [of 5 "ex_alu\<lparr>accessQueue := [\<lparr>lineAddr = 0x40, startTick = 4\<rparr>]\<rparr>" "0x40"]
  by (simp add: ex_alu_def)

end
