(* ===== verification/Cache_Entry.thy ===== *)
theory Cache_Entry
  imports Repl_Policy Banked_Array
begin

text \<open>
  The entries of a Ruby cache (\<open>mem/ruby/slicc_interface/AbstractCacheEntry.cc\<close>) and the
  enumerations of \<open>mem/ruby/protocol/RubySlicc_Exports.sm\<close> they use.  The data block of an entry
  belongs to the classes generated from a coherence protocol and is not part of the model.
\<close>

datatype AccessPermission =
    Read_Only | Read_Write | Maybe_Stale | Backing_Store | Backing_Store_Busy
  | Invalid | NotPresent | Busy

datatype RubyRequestType =
    RubyRequestType_LD | RubyRequestType_ST | RubyRequestType_ATOMIC
  | RubyRequestType_ATOMIC_RETURN | RubyRequestType_ATOMIC_NO_RETURN | RubyRequestType_IFETCH
  | RubyRequestType_IO | RubyRequestType_REPLACEMENT | RubyRequestType_Load_Linked
  | RubyRequestType_Store_Conditional | RubyRequestType_RMW_Read | RubyRequestType_RMW_Write
  | RubyRequestType_Locked_RMW_Read | RubyRequestType_Locked_RMW_Write | RubyRequestType_COMMIT
  | RubyRequestType_NULL | RubyRequestType_FLUSH | RubyRequestType_InvL2
  | RubyRequestType_Release | RubyRequestType_Acquire | RubyRequestType_AcquireRelease
  | RubyRequestType_HTM_Start | RubyRequestType_HTM_Commit | RubyRequestType_HTM_Cancel
  | RubyRequestType_HTM_Abort | RubyRequestType_TLBI | RubyRequestType_TLBI_SYNC
  | RubyRequestType_TLBI_EXT_SYNC | RubyRequestType_TLBI_EXT_SYNC_COMP | RubyRequestType_hasNoAddr

datatype CacheRequestType =
    DataArrayRead | DataArrayWrite | TagArrayRead | TagArrayWrite | AtomicALUOperation
  | CacheRequestType_NULL

datatype CacheResourceType = DataArray | TagArray | AtomicALUArray | CacheResourceType_NULL

record cache_entry = replaceable_entry +
  m_Permission :: AccessPermission
  m_Address :: addr
  m_locked :: int
  m_last_touch_tick :: tick
  m_htmInReadSet :: bool
  m_htmInWriteSet :: bool
  validBlocks :: int

text \<open>\<open>validBlocks\<close> is not initialised by the constructor; \<open>vb\<close> is what it holds.\<close>

definition newCacheEntry :: "int \<Rightarrow> cache_entry" where
  "newCacheEntry vb =
     \<lparr>entry_set = 0, entry_way = 0, m_Permission = NotPresent, m_Address = 0, m_locked = - 1,
      m_last_touch_tick = 0, m_htmInReadSet = False, m_htmInWriteSet = False, validBlocks = vb\<rparr>"

definition getPermission :: "cache_entry \<Rightarrow> AccessPermission" where
  "getPermission e = m_Permission e"

definition changePermission :: "AccessPermission \<Rightarrow> cache_entry \<Rightarrow> cache_entry" where
  "changePermission new_perm e =
     (let e' = e\<lparr>m_Permission := new_perm\<rparr> in
      if new_perm = Invalid \<or> new_perm = NotPresent then e'\<lparr>m_locked := - 1\<rparr> else e')"

definition entry_setLocked :: "int \<Rightarrow> cache_entry \<Rightarrow> cache_entry" where
  "entry_setLocked context e = e\<lparr>m_locked := context\<rparr>"

definition entry_clearLocked :: "cache_entry \<Rightarrow> cache_entry" where
  "entry_clearLocked e = e\<lparr>m_locked := - 1\<rparr>"

definition entry_isLocked :: "int \<Rightarrow> cache_entry \<Rightarrow> bool" where
  "entry_isLocked context e \<longleftrightarrow> m_locked e = context"

definition getNumValidBlocks :: "cache_entry \<Rightarrow> int" where
  "getNumValidBlocks e = validBlocks e"

definition getLastAccess :: "cache_entry \<Rightarrow> tick" where
  "getLastAccess e = m_last_touch_tick e"

definition setLastAccess :: "tick \<Rightarrow> cache_entry \<Rightarrow> cache_entry" where
  "setLastAccess t e = e\<lparr>m_last_touch_tick := t\<rparr>"

definition setInHtmReadSet :: "bool \<Rightarrow> cache_entry \<Rightarrow> cache_entry" where
  "setInHtmReadSet val e = e\<lparr>m_htmInReadSet := val\<rparr>"

definition setInHtmWriteSet :: "bool \<Rightarrow> cache_entry \<Rightarrow> cache_entry" where
  "setInHtmWriteSet val e = e\<lparr>m_htmInWriteSet := val\<rparr>"

definition getInHtmReadSet :: "cache_entry \<Rightarrow> bool" where
  "getInHtmReadSet e = m_htmInReadSet e"

definition getInHtmWriteSet :: "cache_entry \<Rightarrow> bool" where
  "getInHtmWriteSet e = m_htmInWriteSet e"

lemmas entry_defs = getPermission_def changePermission_def entry_setLocked_def entry_clearLocked_def
  entry_isLocked_def getNumValidBlocks_def getLastAccess_def setLastAccess_def setInHtmReadSet_def
  setInHtmWriteSet_def getInHtmReadSet_def getInHtmWriteSet_def

text \<open>What the cache's own bookkeeping depends on: position, address and presence.\<close>

definition same_slot :: "cache_entry \<Rightarrow> cache_entry \<Rightarrow> bool" where
  "same_slot e e' \<longleftrightarrow> getSet e' = getSet e \<and> getWay e' = getWay e \<and> m_Address e' = m_Address e \<and>
     (m_Permission e' = NotPresent \<longleftrightarrow> m_Permission e = NotPresent)"

lemma same_slot_updates [simp]:
  "same_slot e (setLastAccess t e)" "same_slot e (entry_setLocked c e)"
  "same_slot e (entry_clearLocked e)" "same_slot e (setInHtmReadSet b e)"
  "same_slot e (setInHtmWriteSet b e)" "same_slot e e"
  by (simp_all add: same_slot_def entry_defs getSet_def getWay_def)

lemma same_slot_trans: "same_slot a b \<Longrightarrow> same_slot b c \<Longrightarrow> same_slot a c"
  by (simp add: same_slot_def)

end
