(* ===== verification/Cache_Memory.thy ===== *)
theory Cache_Memory
  imports Cache_Entry
begin

text \<open>
  Ruby's cache (\<open>CacheMemory.cc\<close>), which calls the replacement policies.  The cache holds a
  matrix of entry pointers, here optional entries, and a matrix of replacement data that outlives
  the entries: an entry in the matrix uses the replacement data of its own slot.  Every operation
  that calls the policy takes the table \<open>P\<close> of its methods and, where the policy reads it, the
  current tick.  Locations in the cache are pairs of a set and a way.
\<close>

section \<open>State\<close>

record cache_stats =
  numDataArrayReads :: nat
  numDataArrayWrites :: nat
  numTagArrayReads :: nat
  numTagArrayWrites :: nat
  numTagArrayStalls :: nat
  numDataArrayStalls :: nat
  numAtomicALUOperations :: nat
  numAtomicALUArrayStalls :: nat
  htmTransCommitReadSet :: "nat list"
  htmTransCommitWriteSet :: "nat list"
  htmTransAbortReadSet :: "nat list"
  htmTransAbortWriteSet :: "nat list"
  m_demand_hits :: nat
  m_demand_misses :: nat
  m_prefetch_hits :: nat
  m_prefetch_misses :: nat

definition no_stats :: cache_stats where
  "no_stats = \<lparr>numDataArrayReads = 0, numDataArrayWrites = 0, numTagArrayReads = 0,
     numTagArrayWrites = 0, numTagArrayStalls = 0, numDataArrayStalls = 0,
     numAtomicALUOperations = 0, numAtomicALUArrayStalls = 0, htmTransCommitReadSet = [],
     htmTransCommitWriteSet = [], htmTransAbortReadSet = [], htmTransAbortWriteSet = [],
     m_demand_hits = 0, m_demand_misses = 0, m_prefetch_hits = 0, m_prefetch_misses = 0\<rparr>"

record ('s, 'm) cache_memory =
  m_is_instruction_only_cache :: bool
  m_tag_index :: "addr \<Rightarrow> nat option"
  m_cache :: "cache_entry option list list"
  m_replacementPolicy :: 's
  dataArray :: banked_array
  tagArray :: banked_array
  atomicALUArray :: alu_array
  m_cache_size :: nat
  m_cache_num_sets :: nat
  m_cache_num_set_bits :: nat
  m_cache_assoc :: nat
  m_start_index_bit :: nat
  m_resource_stalls :: bool
  m_block_size :: nat
  m_repl_data :: "'m replacement_data_scheme list list"
  m_use_occupancy :: bool
  cacheMemoryStats :: cache_stats

type_synonym loc = "nat \<times> nat"

section \<open>Construction\<close>

text \<open>The parameters of the Python class \<open>RubyCache\<close> the constructor reads.\<close>

record cache_params =
  p_size :: nat
  p_assoc :: nat
  p_start_index_bit :: uint32
  p_is_icache :: bool
  p_resourceStalls :: bool
  p_block_size :: nat
  p_dataArrayBanks :: uint32
  p_dataAccessLatency :: uint64
  p_tagArrayBanks :: uint32
  p_tagAccessLatency :: uint64
  p_atomicALUs :: uint32
  p_atomicLatency :: uint64
  p_weighted_lru :: bool

definition newCacheMemory :: "nat \<Rightarrow> 's \<Rightarrow> cache_params \<Rightarrow> ('s, 'm) cache_memory res" where
  "newCacheMemory b0 s p =
     bindR (newBankedArray b0 (p_dataArrayBanks p) (p_dataAccessLatency p) (p_start_index_bit p)) (\<lambda>da.
     bindR (newBankedArray b0 (p_tagArrayBanks p) (p_tagAccessLatency p) (p_start_index_bit p)) (\<lambda>ta.
     Inr \<lparr>m_is_instruction_only_cache = p_is_icache p, m_tag_index = (\<lambda>_. None), m_cache = [],
       m_replacementPolicy = s, dataArray = da, tagArray = ta,
       atomicALUArray = newALUFreeListArray (p_atomicALUs p) (p_atomicLatency p),
       m_cache_size = p_size p, m_cache_num_sets = 0, m_cache_num_set_bits = 0,
       m_cache_assoc = p_assoc p, m_start_index_bit = unat (p_start_index_bit p),
       m_resource_stalls = p_resourceStalls p, m_block_size = p_block_size p, m_repl_data = [],
       m_use_occupancy = p_weighted_lru p, cacheMemoryStats = no_stats\<rparr>))"

definition setRubySystem :: "tick \<Rightarrow> uint32 \<Rightarrow> ('s, 'm) cache_memory \<Rightarrow> ('s, 'm) cache_memory res" where
  "setRubySystem period block_bytes cm =
     bindR (alu_setBlockSize block_bytes (alu_setClockPeriod period (atomicALUArray cm))) (\<lambda>alu.
     Inr (cm\<lparr>dataArray := ba_setClockPeriod period (dataArray cm),
             tagArray := ba_setClockPeriod period (tagArray cm),
             atomicALUArray := alu,
             m_block_size := (if m_block_size cm = 0 then unat block_bytes else m_block_size cm)\<rparr>))"

text \<open>\<open>e0 i j\<close> is what the allocation of the replacement data of slot \<open>(i, j)\<close> leaves in its
  link.\<close>

fun instantiate_row :: "('s, 'm) rp \<Rightarrow> (nat \<Rightarrow> replaceable_entry option) \<Rightarrow> nat \<Rightarrow> 's
    \<Rightarrow> 's \<times> 'm replacement_data_scheme list" where
  "instantiate_row P e0 0 s = (s, [])"
| "instantiate_row P e0 (Suc n) s =
     (let (s1, ds) = instantiate_row P e0 n s; (s2, d) = rp_instantiateEntry P (e0 n) s1
      in (s2, ds @ [d]))"

fun instantiate_all :: "('s, 'm) rp \<Rightarrow> (nat \<Rightarrow> nat \<Rightarrow> replaceable_entry option) \<Rightarrow> nat \<Rightarrow> nat \<Rightarrow> 's
    \<Rightarrow> 's \<times> 'm replacement_data_scheme list list" where
  "instantiate_all P e0 assoc 0 s = (s, [])"
| "instantiate_all P e0 assoc (Suc n) s =
     (let (s1, rows) = instantiate_all P e0 assoc n s; (s2, row) = instantiate_row P (e0 n) assoc s1
      in (s2, rows @ [row]))"

definition cm_init :: "('s, 'm) rp \<Rightarrow> (nat \<Rightarrow> nat \<Rightarrow> replaceable_entry option)
    \<Rightarrow> ('s, 'm) cache_memory \<Rightarrow> ('s, 'm) cache_memory res" where
  "cm_init P e0 cm =
     checkR AssertFail (m_block_size cm \<noteq> 0)
       (checkR DivByZero (m_cache_assoc cm \<noteq> 0)
         (let num_sets = m_cache_size cm div m_cache_assoc cm div m_block_size cm in
          checkR AssertFail (num_sets > 1)
            (bindR (floorLog2 4 (of_nat num_sets)) (\<lambda>num_set_bits.
             checkR AssertFail (num_set_bits > 0)
               (let (s, rows) = instantiate_all P e0 (m_cache_assoc cm) num_sets (m_replacementPolicy cm)
                in Inr (cm\<lparr>m_cache_num_sets := num_sets, m_cache_num_set_bits := num_set_bits,
                       m_cache := vec_resize num_sets (replicate (m_cache_assoc cm) None) (m_cache cm),
                       m_repl_data := rows, m_replacementPolicy := s\<rparr>))))))"

section \<open>Addresses and lookup\<close>

definition cm_makeLineAddress :: "('s, 'm) cache_memory \<Rightarrow> addr \<Rightarrow> addr res" where
  "cm_makeLineAddress cm a = bindR (floorLog2 4 (of_nat (m_block_size cm))) (makeLineAddress a)"

text \<open>\<open>assert(address == makeLineAddress(address))\<close>.\<close>

definition assert_line :: "('s, 'm) cache_memory \<Rightarrow> addr \<Rightarrow> 'a res \<Rightarrow> 'a res" where
  "assert_line cm a k = bindR (cm_makeLineAddress cm a) (\<lambda>line. checkR AssertFail (a = line) k)"

definition addressToCacheSet :: "('s, 'm) cache_memory \<Rightarrow> addr \<Rightarrow> nat res" where
  "addressToCacheSet cm a =
     assert_line cm a
       (bindR (bitSelect a (m_start_index_bit cm) (m_start_index_bit cm + m_cache_num_set_bits cm - 1))
         (\<lambda>b. Inr (unat b)))"

definition cell :: "('s, 'm) cache_memory \<Rightarrow> loc \<Rightarrow> cache_entry option res" where
  "cell cm l = bindR (vec_at (m_cache cm) (fst l)) (\<lambda>row. vec_at row (snd l))"

definition set_cell :: "loc \<Rightarrow> cache_entry option \<Rightarrow> ('s, 'm) cache_memory \<Rightarrow> ('s, 'm) cache_memory" where
  "set_cell l c cm = cm\<lparr>m_cache := (m_cache cm)[fst l := (m_cache cm ! fst l)[snd l := c]]\<rparr>"

definition repl_at :: "('s, 'm) cache_memory \<Rightarrow> loc \<Rightarrow> 'm replacement_data_scheme res" where
  "repl_at cm l = bindR (vec_at (m_repl_data cm) (fst l)) (\<lambda>row. vec_at row (snd l))"

definition set_repl :: "loc \<Rightarrow> 'm replacement_data_scheme \<Rightarrow> ('s, 'm) cache_memory \<Rightarrow> ('s, 'm) cache_memory" where
  "set_repl l d cm = cm\<lparr>m_repl_data := (m_repl_data cm)[fst l := (m_repl_data cm ! fst l)[snd l := d]]\<rparr>"

definition deref :: "'a option \<Rightarrow> 'a res" where
  "deref x = (case x of None \<Rightarrow> Inl NullDeref | Some y \<Rightarrow> Inr y)"

definition findTagInSet :: "('s, 'm) cache_memory \<Rightarrow> nat \<Rightarrow> addr \<Rightarrow> nat option res" where
  "findTagInSet cm cacheSet tag =
     assert_line cm tag
       (case m_tag_index cm tag of
          None \<Rightarrow> Inr None
        | Some i \<Rightarrow>
            bindR (cell cm (cacheSet, i)) (\<lambda>c.
            bindR (deref c) (\<lambda>e.
            Inr (if m_Permission e \<noteq> NotPresent then Some i else None))))"

definition findTagInSetIgnorePermissions :: "('s, 'm) cache_memory \<Rightarrow> nat \<Rightarrow> addr \<Rightarrow> nat option res" where
  "findTagInSetIgnorePermissions cm cacheSet tag = assert_line cm tag (Inr (m_tag_index cm tag))"

definition getAddressAtIdx :: "('s, 'm) cache_memory \<Rightarrow> nat \<Rightarrow> addr res" where
  "getAddressAtIdx cm idx =
     checkR DivByZero (m_cache_assoc cm \<noteq> 0)
       (let set = idx div m_cache_assoc cm in
        checkR AssertFail (set < m_cache_num_sets cm)
          (let way = idx - set * m_cache_assoc cm in
           checkR AssertFail (way < m_cache_assoc cm)
             (bindR (cell cm (set, way)) (\<lambda>c.
              Inr (case c of
                     None \<Rightarrow> 0
                   | Some e \<Rightarrow> if m_Permission e = Invalid \<or> m_Permission e = NotPresent then 0
                             else m_Address e)))))"

definition lookup :: "('s, 'm) cache_memory \<Rightarrow> addr \<Rightarrow> loc option res" where
  "lookup cm a =
     assert_line cm a
       (bindR (addressToCacheSet cm a) (\<lambda>cacheSet.
        bindR (findTagInSet cm cacheSet a) (\<lambda>l.
        Inr (map_option (Pair cacheSet) l))))"

definition isTagPresent :: "('s, 'm) cache_memory \<Rightarrow> addr \<Rightarrow> bool res" where
  "isTagPresent cm a = bindR (lookup cm a) (\<lambda>l. Inr (l \<noteq> None))"

fun availScan :: "addr \<Rightarrow> nat \<Rightarrow> cache_entry option list \<Rightarrow> bool res" where
  "availScan a 0 row = Inr False"
| "availScan a (Suc n) [] = Inl OutOfRange"
| "availScan a (Suc n) (c # row) =
     (case c of
        None \<Rightarrow> Inr True
      | Some e \<Rightarrow> if m_Address e = a \<or> m_Permission e = NotPresent then Inr True else availScan a n row)"

definition cacheAvail :: "('s, 'm) cache_memory \<Rightarrow> addr \<Rightarrow> bool res" where
  "cacheAvail cm a =
     assert_line cm a
       (bindR (addressToCacheSet cm a) (\<lambda>cacheSet.
        bindR (vec_at (m_cache cm) cacheSet) (availScan a (m_cache_assoc cm))))"

section \<open>Accesses\<close>

text \<open>\<open>m_replacementPolicy_ptr->touch(entry->replacementData); entry->setLastAccess(curTick())\<close>
  for the entry at a location.\<close>

definition touch_with ::
  "('s \<Rightarrow> 'm replacement_data_scheme \<Rightarrow> ('s \<times> 'm replacement_data_scheme) res) \<Rightarrow> tick \<Rightarrow> loc
   \<Rightarrow> ('s, 'm) cache_memory \<Rightarrow> ('s, 'm) cache_memory res" where
  "touch_with touch now l cm =
     bindR (repl_at cm l) (\<lambda>d.
     bindR (touch (m_replacementPolicy cm) d) (\<lambda>(s', d').
     bindR (cell cm l) (\<lambda>c.
     bindR (deref c) (\<lambda>e.
     Inr (set_cell l (Some (setLastAccess now e)) (set_repl l d' (cm\<lparr>m_replacementPolicy := s'\<rparr>)))))))"

definition touch_entry ::
  "('s, 'm) rp \<Rightarrow> tick \<Rightarrow> loc \<Rightarrow> ('s, 'm) cache_memory \<Rightarrow> ('s, 'm) cache_memory res" where
  "touch_entry P now = touch_with (rp_touch P now) now"

text \<open>The results are the returned flag, the location whose data block \<open>data_ptr\<close> is left
  pointing to, and the cache.\<close>

definition tryCacheAccess ::
  "('s, 'm) rp \<Rightarrow> tick \<Rightarrow> addr \<Rightarrow> RubyRequestType \<Rightarrow> ('s, 'm) cache_memory
   \<Rightarrow> (bool \<times> loc option \<times> ('s, 'm) cache_memory) res" where
  "tryCacheAccess P now a ty cm =
     bindR (lookup cm a) (\<lambda>entry.
     case entry of
       None \<Rightarrow> Inr (False, None, cm)
     | Some l \<Rightarrow>
         bindR (touch_entry P now l cm) (\<lambda>cm'.
         bindR (cell cm' l) (\<lambda>c.
         bindR (deref c) (\<lambda>e.
         if m_Permission e = Read_Write then Inr (True, Some l, cm')
         else if m_Permission e = Read_Only \<and> (ty = RubyRequestType_LD \<or> ty = RubyRequestType_IFETCH)
         then Inr (True, Some l, cm')
         else Inr (False, None, cm')))))"

definition testCacheAccess ::
  "('s, 'm) rp \<Rightarrow> tick \<Rightarrow> addr \<Rightarrow> RubyRequestType \<Rightarrow> ('s, 'm) cache_memory
   \<Rightarrow> (bool \<times> loc option \<times> ('s, 'm) cache_memory) res" where
  "testCacheAccess P now a ty cm =
     bindR (lookup cm a) (\<lambda>entry.
     case entry of
       None \<Rightarrow> Inr (False, None, cm)
     | Some l \<Rightarrow>
         bindR (touch_entry P now l cm) (\<lambda>cm'.
         bindR (cell cm' l) (\<lambda>c.
         bindR (deref c) (\<lambda>e.
         Inr (m_Permission e \<noteq> NotPresent, Some l, cm')))))"

definition setMRU :: "('s, 'm) rp \<Rightarrow> tick \<Rightarrow> addr \<Rightarrow> ('s, 'm) cache_memory \<Rightarrow> ('s, 'm) cache_memory res" where
  "setMRU P now a cm =
     bindR (cm_makeLineAddress cm a) (\<lambda>line.
     bindR (lookup cm line) (\<lambda>entry.
     case entry of None \<Rightarrow> Inr cm | Some l \<Rightarrow> touch_entry P now l cm))"

definition setMRU_entry ::
  "('s, 'm) rp \<Rightarrow> tick \<Rightarrow> loc option \<Rightarrow> ('s, 'm) cache_memory \<Rightarrow> ('s, 'm) cache_memory res" where
  "setMRU_entry P now entry cm =
     (case entry of None \<Rightarrow> Inl AssertFail | Some l \<Rightarrow> touch_entry P now l cm)"

text \<open>\<open>occ_touch\<close> is the overload \<open>WeightedLRU::touch(data, occupancy)\<close>.\<close>

definition setMRU_occupancy ::
  "('s, 'm) rp \<Rightarrow> (tick \<Rightarrow> int \<Rightarrow> 's \<Rightarrow> 'm replacement_data_scheme \<Rightarrow> ('s \<times> 'm replacement_data_scheme) res)
   \<Rightarrow> tick \<Rightarrow> addr \<Rightarrow> int \<Rightarrow> ('s, 'm) cache_memory \<Rightarrow> ('s, 'm) cache_memory res" where
  "setMRU_occupancy P occ_touch now a occupancy cm =
     bindR (cm_makeLineAddress cm a) (\<lambda>line.
     bindR (lookup cm line) (\<lambda>entry.
     case entry of
       None \<Rightarrow> Inr cm
     | Some l \<Rightarrow>
         if m_use_occupancy cm then touch_with (occ_touch now occupancy) now l cm
         else touch_entry P now l cm))"

section \<open>Allocation and replacement\<close>

fun openSlot :: "nat \<Rightarrow> nat \<Rightarrow> cache_entry option list \<Rightarrow> nat res" where
  "openSlot i 0 row = Inl Panic"
| "openSlot i (Suc n) [] = Inl OutOfRange"
| "openSlot i (Suc n) (c # row) =
     (case c of
        None \<Rightarrow> Inr i
      | Some e \<Rightarrow> if m_Permission e = NotPresent then Inr i else openSlot (Suc i) n row)"

definition fill_slot ::
  "('s, 'm) rp \<Rightarrow> tick \<Rightarrow> addr \<Rightarrow> cache_entry \<Rightarrow> loc \<Rightarrow> ('s, 'm) cache_memory
   \<Rightarrow> ('s, 'm) cache_memory res" where
  "fill_slot P now a entry l cm =
     (let e = entry\<lparr>m_Address := a, m_Permission := Invalid, m_locked := - 1\<rparr>;
          cm1 = cm\<lparr>m_tag_index := (m_tag_index cm)(a \<mapsto> snd l)\<rparr>
      in bindR (repl_at cm1 l) (\<lambda>d.
         let (e', d') = setPosition (of_nat (fst l)) (of_nat (snd l)) e (Some d);
             e'' = setLastAccess now e'
         in bindR (deref d') (\<lambda>d''.
            bindR (rp_reset P now (m_replacementPolicy cm1) d'') (\<lambda>(s', d3).
            Inr (set_cell l (Some e'') (set_repl l d3 (cm1\<lparr>m_replacementPolicy := s'\<rparr>)))))))"

definition allocate ::
  "('s, 'm) rp \<Rightarrow> tick \<Rightarrow> addr \<Rightarrow> cache_entry \<Rightarrow> ('s, 'm) cache_memory
   \<Rightarrow> (loc \<times> ('s, 'm) cache_memory) res" where
  "allocate P now a entry cm =
     assert_line cm a
       (bindR (isTagPresent cm a) (\<lambda>present.
        checkR AssertFail (\<not> present)
          (bindR (cacheAvail cm a) (\<lambda>avail.
           checkR AssertFail avail
             (bindR (addressToCacheSet cm a) (\<lambda>cacheSet.
              bindR (vec_at (m_cache cm) cacheSet) (\<lambda>row.
              bindR (openSlot 0 (m_cache_assoc cm) row) (\<lambda>i.
              bindR (fill_slot P now a entry (cacheSet, i) cm) (\<lambda>cm'.
              Inr ((cacheSet, i), cm'))))))))))"

definition deallocate :: "('s, 'm) rp \<Rightarrow> addr \<Rightarrow> ('s, 'm) cache_memory \<Rightarrow> ('s, 'm) cache_memory res" where
  "deallocate P a cm =
     bindR (lookup cm a) (\<lambda>entry.
     case entry of
       None \<Rightarrow> Inl AssertFail
     | Some l \<Rightarrow>
         bindR (repl_at cm l) (\<lambda>d.
         bindR (rp_invalidate P (m_replacementPolicy cm) d) (\<lambda>(s', d').
         let cm1 = set_repl l d' (cm\<lparr>m_replacementPolicy := s'\<rparr>) in
         bindR (cell cm1 l) (\<lambda>c.
         bindR (deref c) (\<lambda>e.
         let cm2 = set_cell (unat (getSet e), unat (getWay e)) None cm1 in
         Inr (cm2\<lparr>m_tag_index := (m_tag_index cm2)(a := None)\<rparr>))))))"

text \<open>
  The candidates are the entries of the set with the replacement data of their slots; the policy
  dereferences every candidate, so a null entry stops the program.
\<close>

fun candidates :: "nat \<Rightarrow> cache_entry option list \<Rightarrow> 'm replacement_data_scheme list
    \<Rightarrow> (replaceable_entry \<times> 'm replacement_data_scheme) list res" where
  "candidates 0 row ds = Inr []"
| "candidates (Suc n) (c # row) (d # ds) =
     bindR (deref c) (\<lambda>e.
     bindR (candidates n row ds) (\<lambda>cs. Inr ((position e, d) # cs)))"
| "candidates (Suc n) row ds = Inl OutOfRange"

definition cacheProbe ::
  "('s, 'm) rp \<Rightarrow> tick \<Rightarrow> addr \<Rightarrow> ('s, 'm) cache_memory \<Rightarrow> (addr \<times> ('s, 'm) cache_memory) res" where
  "cacheProbe P now a cm =
     assert_line cm a
       (bindR (cacheAvail cm a) (\<lambda>avail.
        checkR AssertFail (\<not> avail)
          (bindR (addressToCacheSet cm a) (\<lambda>cacheSet.
           bindR (vec_at (m_cache cm) cacheSet) (\<lambda>row.
           bindR (vec_at (m_repl_data cm) cacheSet) (\<lambda>ds.
           bindR (candidates (m_cache_assoc cm) row ds) (\<lambda>cs.
           bindR (rp_getVictim P now (m_replacementPolicy cm) cs) (\<lambda>(s', ds', v).
           bindR (deref v) (\<lambda>i.
           bindR (vec_at cs i) (\<lambda>victim.
           bindR (cell cm (cacheSet, unat (getWay (fst victim)))) (\<lambda>c.
           bindR (deref c) (\<lambda>e.
           Inr (m_Address e, cm\<lparr>m_replacementPolicy := s',
                  m_repl_data := (m_repl_data cm)[cacheSet := ds']\<rparr>)))))))))))))"

definition getReplacementWeight :: "('s, 'm) cache_memory \<Rightarrow> loc \<Rightarrow> int res" where
  "getReplacementWeight cm l =
     checkR AssertFail (fst l < m_cache_num_sets cm)
       (checkR AssertFail (snd l < m_cache_assoc cm)
         (bindR (cell cm l) (\<lambda>c.
          case c of
            None \<Rightarrow> Inr 0
          | Some e \<Rightarrow> checkR AssertFail (getNumValidBlocks e \<ge> 0) (Inr (getNumValidBlocks e)))))"

section \<open>Checkpoints\<close>

text \<open>The records \<open>recordCacheContents\<close> passes to the recorder: controller, address, type, tick.\<close>

definition entry_record :: "bool \<Rightarrow> int \<Rightarrow> cache_entry \<Rightarrow> (int \<times> addr \<times> RubyRequestType \<times> tick) list" where
  "entry_record icache cntrl e =
     (let request_type =
        (if m_Permission e = Read_Only
         then if icache then RubyRequestType_IFETCH else RubyRequestType_LD
         else if m_Permission e = Read_Write then RubyRequestType_ST
         else RubyRequestType_NULL)
      in if request_type \<noteq> RubyRequestType_NULL
         then [(cntrl, m_Address e, request_type, getLastAccess e)] else [])"

definition recordCacheContents ::
  "('s, 'm) cache_memory \<Rightarrow> int \<Rightarrow> (int \<times> addr \<times> RubyRequestType \<times> tick) list" where
  "recordCacheContents cm cntrl =
     concat (map (\<lambda>row. concat (map (\<lambda>c. case c of None \<Rightarrow> []
       | Some e \<Rightarrow> entry_record (m_is_instruction_only_cache cm) cntrl e) row)) (m_cache cm))"

section \<open>Locks\<close>

definition on_entry :: "(cache_entry \<Rightarrow> cache_entry) \<Rightarrow> addr \<Rightarrow> ('s, 'm) cache_memory \<Rightarrow> ('s, 'm) cache_memory res" where
  "on_entry f a cm =
     bindR (lookup cm a) (\<lambda>entry.
     case entry of
       None \<Rightarrow> Inl AssertFail
     | Some l \<Rightarrow> bindR (cell cm l) (\<lambda>c. bindR (deref c) (\<lambda>e. Inr (set_cell l (Some (f e)) cm))))"

definition cm_setLocked :: "addr \<Rightarrow> int \<Rightarrow> ('s, 'm) cache_memory \<Rightarrow> ('s, 'm) cache_memory res" where
  "cm_setLocked a context cm = on_entry (entry_setLocked context) a cm"

definition cm_clearLocked :: "addr \<Rightarrow> ('s, 'm) cache_memory \<Rightarrow> ('s, 'm) cache_memory res" where
  "cm_clearLocked a cm = on_entry entry_clearLocked a cm"

definition map_lines :: "(cache_entry \<Rightarrow> cache_entry) \<Rightarrow> ('s, 'm) cache_memory \<Rightarrow> ('s, 'm) cache_memory" where
  "map_lines f cm = cm\<lparr>m_cache := map (map (map_option f)) (m_cache cm)\<rparr>"

definition clearLockedAll :: "int \<Rightarrow> ('s, 'm) cache_memory \<Rightarrow> ('s, 'm) cache_memory" where
  "clearLockedAll context cm =
     map_lines (\<lambda>line. if entry_isLocked context line then entry_clearLocked line else line) cm"

definition cm_isLocked :: "('s, 'm) cache_memory \<Rightarrow> addr \<Rightarrow> int \<Rightarrow> bool res" where
  "cm_isLocked cm a context =
     bindR (lookup cm a) (\<lambda>entry.
     case entry of
       None \<Rightarrow> Inl AssertFail
     | Some l \<Rightarrow> bindR (cell cm l) (\<lambda>c. bindR (deref c) (\<lambda>e. Inr (entry_isLocked context e))))"

section \<open>Resources\<close>

definition upd_stats :: "(cache_stats \<Rightarrow> cache_stats) \<Rightarrow> ('s, 'm) cache_memory \<Rightarrow> ('s, 'm) cache_memory" where
  "upd_stats f cm = cm\<lparr>cacheMemoryStats := f (cacheMemoryStats cm)\<rparr>"

definition reserve_data :: "tick \<Rightarrow> addr \<Rightarrow> ('s, 'm) cache_memory \<Rightarrow> ('s, 'm) cache_memory res" where
  "reserve_data now a cm =
     (if m_resource_stalls cm then
        bindR (addressToCacheSet cm a) (\<lambda>set.
        bindR (ba_reserve now (dataArray cm) (int set)) (\<lambda>arr. Inr (cm\<lparr>dataArray := arr\<rparr>)))
      else Inr cm)"

definition reserve_tag :: "tick \<Rightarrow> addr \<Rightarrow> ('s, 'm) cache_memory \<Rightarrow> ('s, 'm) cache_memory res" where
  "reserve_tag now a cm =
     (if m_resource_stalls cm then
        bindR (addressToCacheSet cm a) (\<lambda>set.
        bindR (ba_reserve now (tagArray cm) (int set)) (\<lambda>arr. Inr (cm\<lparr>tagArray := arr\<rparr>)))
      else Inr cm)"

definition reserve_alu :: "tick \<Rightarrow> addr \<Rightarrow> ('s, 'm) cache_memory \<Rightarrow> ('s, 'm) cache_memory res" where
  "reserve_alu now a cm =
     (if m_resource_stalls cm then
        bindR (alu_reserve now a (atomicALUArray cm)) (\<lambda>arr. Inr (cm\<lparr>atomicALUArray := arr\<rparr>))
      else Inr cm)"

definition recordRequestType ::
  "tick \<Rightarrow> CacheRequestType \<Rightarrow> addr \<Rightarrow> ('s, 'm) cache_memory \<Rightarrow> ('s, 'm) cache_memory res" where
  "recordRequestType now requestType a cm =
     (case requestType of
        DataArrayRead \<Rightarrow> bindR (reserve_data now a cm)
          (\<lambda>c. Inr (upd_stats (\<lambda>t. t\<lparr>numDataArrayReads := Suc (numDataArrayReads t)\<rparr>) c))
      | DataArrayWrite \<Rightarrow> bindR (reserve_data now a cm)
          (\<lambda>c. Inr (upd_stats (\<lambda>t. t\<lparr>numDataArrayWrites := Suc (numDataArrayWrites t)\<rparr>) c))
      | TagArrayRead \<Rightarrow> bindR (reserve_tag now a cm)
          (\<lambda>c. Inr (upd_stats (\<lambda>t. t\<lparr>numTagArrayReads := Suc (numTagArrayReads t)\<rparr>) c))
      | TagArrayWrite \<Rightarrow> bindR (reserve_tag now a cm)
          (\<lambda>c. Inr (upd_stats (\<lambda>t. t\<lparr>numTagArrayWrites := Suc (numTagArrayWrites t)\<rparr>) c))
      | AtomicALUOperation \<Rightarrow> bindR (reserve_alu now a cm)
          (\<lambda>c. Inr (upd_stats (\<lambda>t. t\<lparr>numAtomicALUOperations := Suc (numAtomicALUOperations t)\<rparr>) c))
      | CacheRequestType_NULL \<Rightarrow> Inr cm)"

definition checkResourceAvailable ::
  "tick \<Rightarrow> CacheResourceType \<Rightarrow> addr \<Rightarrow> ('s, 'm) cache_memory
   \<Rightarrow> (bool \<times> ('s, 'm) cache_memory) res" where
  "checkResourceAvailable now res a cm =
     (if \<not> m_resource_stalls cm then Inr (True, cm)
      else case res of
        TagArray \<Rightarrow>
          bindR (addressToCacheSet cm a) (\<lambda>set.
          bindR (ba_tryAccess now (tagArray cm) (int set)) (\<lambda>ok.
          Inr (if ok then (True, cm)
               else (False, upd_stats (\<lambda>t. t\<lparr>numTagArrayStalls := Suc (numTagArrayStalls t)\<rparr>) cm))))
      | DataArray \<Rightarrow>
          bindR (addressToCacheSet cm a) (\<lambda>set.
          bindR (ba_tryAccess now (dataArray cm) (int set)) (\<lambda>ok.
          Inr (if ok then (True, cm)
               else (False, upd_stats (\<lambda>t. t\<lparr>numDataArrayStalls := Suc (numDataArrayStalls t)\<rparr>) cm))))
      | AtomicALUArray \<Rightarrow>
          bindR (alu_tryAccess now a (atomicALUArray cm)) (\<lambda>(ok, arr).
          let cm' = cm\<lparr>atomicALUArray := arr\<rparr> in
          Inr (if ok then (True, cm')
               else (False, upd_stats (\<lambda>t. t\<lparr>numAtomicALUArrayStalls := Suc (numAtomicALUArrayStalls t)\<rparr>) cm')))
      | CacheResourceType_NULL \<Rightarrow> Inl Panic)"

definition isBlockInvalid :: "('s, 'm) cache_memory \<Rightarrow> loc \<Rightarrow> bool res" where
  "isBlockInvalid cm l =
     bindR (cell cm l) (\<lambda>c. bindR (deref c) (\<lambda>e. Inr (m_Permission e = Invalid)))"

definition isBlockNotBusy :: "('s, 'm) cache_memory \<Rightarrow> loc \<Rightarrow> bool res" where
  "isBlockNotBusy cm l =
     bindR (cell cm l) (\<lambda>c. bindR (deref c) (\<lambda>e. Inr (m_Permission e \<noteq> Busy)))"

section \<open>Transactional memory\<close>

text \<open>\<open>invalidateEntry\<close> is a virtual method the generated protocol entries override; it is the
  parameter of that name.\<close>

definition lines :: "('s, 'm) cache_memory \<Rightarrow> cache_entry list" where
  "lines cm = List.map_filter (\<lambda>c. c) (concat (m_cache cm))"

definition htm_line :: "cache_entry \<Rightarrow> cache_entry" where
  "htm_line line = entry_clearLocked (setInHtmReadSet False (setInHtmWriteSet False line))"

definition htmAbortTransaction :: "(cache_entry \<Rightarrow> cache_entry) \<Rightarrow> ('s, 'm) cache_memory \<Rightarrow> ('s, 'm) cache_memory" where
  "htmAbortTransaction invalidateEntry cm =
     (let r = length (filter getInHtmReadSet (lines cm));
          w = length (filter getInHtmWriteSet (lines cm));
          cm' = map_lines (\<lambda>line. htm_line (if getInHtmWriteSet line then invalidateEntry line else line)) cm
      in upd_stats (\<lambda>t. t\<lparr>htmTransAbortReadSet := htmTransAbortReadSet t @ [r],
                        htmTransAbortWriteSet := htmTransAbortWriteSet t @ [w]\<rparr>) cm')"

definition htmCommitTransaction :: "('s, 'm) cache_memory \<Rightarrow> ('s, 'm) cache_memory" where
  "htmCommitTransaction cm =
     (let r = length (filter getInHtmReadSet (lines cm));
          w = length (filter getInHtmWriteSet (lines cm));
          cm' = map_lines htm_line cm
      in upd_stats (\<lambda>t. t\<lparr>htmTransCommitReadSet := htmTransCommitReadSet t @ [r],
                        htmTransCommitWriteSet := htmTransCommitWriteSet t @ [w]\<rparr>) cm')"

section \<open>Profiling\<close>

definition profileDemandHit :: "('s, 'm) cache_memory \<Rightarrow> ('s, 'm) cache_memory" where
  "profileDemandHit = upd_stats (\<lambda>t. t\<lparr>m_demand_hits := Suc (m_demand_hits t)\<rparr>)"

definition profileDemandMiss :: "('s, 'm) cache_memory \<Rightarrow> ('s, 'm) cache_memory" where
  "profileDemandMiss = upd_stats (\<lambda>t. t\<lparr>m_demand_misses := Suc (m_demand_misses t)\<rparr>)"

definition profilePrefetchHit :: "('s, 'm) cache_memory \<Rightarrow> ('s, 'm) cache_memory" where
  "profilePrefetchHit = upd_stats (\<lambda>t. t\<lparr>m_prefetch_hits := Suc (m_prefetch_hits t)\<rparr>)"

definition profilePrefetchMiss :: "('s, 'm) cache_memory \<Rightarrow> ('s, 'm) cache_memory" where
  "profilePrefetchMiss = upd_stats (\<lambda>t. t\<lparr>m_prefetch_misses := Suc (m_prefetch_misses t)\<rparr>)"

end
