(* ===== verification/Cache_Inv.thy ===== *)
theory Cache_Inv
  imports Cache_Memory
begin

text \<open>
  The invariant of Ruby's cache and what its operations do to the abstract view of the cache, the
  partial map from line addresses to entries.  Everything is proved once for any replacement policy
  that meets the contract \<open>victim_policy\<close>.
\<close>

section \<open>Geometry\<close>

definition cm_geom :: "('s, 'm) cache_memory \<Rightarrow> bool" where
  "cm_geom cm \<longleftrightarrow>
     0 < m_block_size cm \<and> m_block_size cm < 2 ^ 31 \<and>
     0 < m_cache_assoc cm \<and> m_cache_assoc cm < 2 ^ 31 \<and>
     m_cache_num_sets cm < 2 ^ 31 \<and> 0 < m_cache_num_set_bits cm \<and>
     2 ^ m_cache_num_set_bits cm \<le> m_cache_num_sets cm \<and> m_start_index_bit cm < 64 \<and>
     length (m_cache cm) = m_cache_num_sets cm \<and> length (m_repl_data cm) = m_cache_num_sets cm \<and>
     (\<forall>s < m_cache_num_sets cm. length (m_cache cm ! s) = m_cache_assoc cm \<and>
        length (m_repl_data cm ! s) = m_cache_assoc cm)"

definition line_bits :: "('s, 'm) cache_memory \<Rightarrow> nat" where
  "line_bits cm = findMsbSet (of_nat (m_block_size cm))"

definition is_line :: "('s, 'm) cache_memory \<Rightarrow> addr \<Rightarrow> bool" where
  "is_line cm a \<longleftrightarrow> a = maskLowOrderBits a (line_bits cm)"

definition set_of_addr :: "('s, 'm) cache_memory \<Rightarrow> addr \<Rightarrow> nat" where
  "set_of_addr cm a =
     unat (bits_val a (m_start_index_bit cm + m_cache_num_set_bits cm - 1) (m_start_index_bit cm))"

definition in_range :: "('s, 'm) cache_memory \<Rightarrow> loc \<Rightarrow> bool" where
  "in_range cm l \<longleftrightarrow> fst l < m_cache_num_sets cm \<and> snd l < m_cache_assoc cm"

definition slot :: "('s, 'm) cache_memory \<Rightarrow> loc \<Rightarrow> cache_entry option" where
  "slot cm l = m_cache cm ! fst l ! snd l"

definition rdata :: "('s, 'm) cache_memory \<Rightarrow> loc \<Rightarrow> 'm replacement_data_scheme" where
  "rdata cm l = m_repl_data cm ! fst l ! snd l"

lemma floorLog2_nat:
  assumes "0 < n" "n < 2 ^ 31"
  shows "floorLog2 4 (of_nat n) = Inr (findMsbSet (of_nat n))" "findMsbSet (of_nat n) < 64"
proof -
  have u: "unat (of_nat n :: uint64) = n" using assms(2) by (simp add: unat_of_nat)
  then have nz: "(of_nat n :: uint64) \<noteq> 0" using assms(1) by (metis less_irrefl unat_0)
  show "floorLog2 4 (of_nat n) = Inr (findMsbSet (of_nat n))"
    using u assms(2) by (intro floorLog2_findMsbSet [OF nz]) auto
  show "findMsbSet (of_nat n) < 64"
    using div_pow_eq_1 [THEN iffD1, OF findMsbSet_div [OF nz]] pow_le_unat by blast
qed

lemma cm_makeLineAddress_eq:
  assumes "cm_geom cm"
  shows "cm_makeLineAddress cm a = Inr (maskLowOrderBits a (line_bits cm))"
proof -
  have "0 < m_block_size cm" "m_block_size cm < 2 ^ 31" using assms by (simp_all add: cm_geom_def)
  note log = floorLog2_nat [OF this]
  then show ?thesis by (simp add: cm_makeLineAddress_def line_bits_def)
qed

lemma assert_line_eq: "cm_geom cm \<Longrightarrow> assert_line cm a k = checkR AssertFail (is_line cm a) k"
  by (simp add: assert_line_def cm_makeLineAddress_eq is_line_def)

lemma addressToCacheSet_eq:
  assumes "cm_geom cm" "is_line cm a"
  shows "addressToCacheSet cm a = Inr (set_of_addr cm a)"
proof -
  have "0 < m_cache_num_set_bits cm" "m_start_index_bit cm < 64" using assms(1) by (simp_all add: cm_geom_def)
  moreover from this have "m_start_index_bit cm \<le> m_start_index_bit cm + m_cache_num_set_bits cm - 1"
    by linarith
  ultimately show ?thesis
    using assms by (simp add: addressToCacheSet_def assert_line_eq bitSelect_def bits_def set_of_addr_def)
qed

text \<open>Only the sets below the largest power of two are ever used.\<close>

lemma set_of_addr_bound:
  assumes "cm_geom cm"
  shows "set_of_addr cm a < 2 ^ m_cache_num_set_bits cm" "set_of_addr cm a < m_cache_num_sets cm"
proof -
  have "0 < m_cache_num_set_bits cm" using assms by (simp add: cm_geom_def)
  then have "m_start_index_bit cm + m_cache_num_set_bits cm - 1 - m_start_index_bit cm + 1 =
      m_cache_num_set_bits cm" by simp
  then show "set_of_addr cm a < 2 ^ m_cache_num_set_bits cm"
    by (simp only: set_of_addr_def unat_bits_val) simp
  then show "set_of_addr cm a < m_cache_num_sets cm" using assms by (simp add: cm_geom_def)
qed

lemma cell_eq: "cm_geom cm \<Longrightarrow> in_range cm l \<Longrightarrow> cell cm l = Inr (slot cm l)"
  by (simp add: cell_def slot_def in_range_def cm_geom_def)

lemma repl_at_eq: "cm_geom cm \<Longrightarrow> in_range cm l \<Longrightarrow> repl_at cm l = Inr (rdata cm l)"
  by (simp add: repl_at_def rdata_def in_range_def cm_geom_def)

section \<open>Updates\<close>

text \<open>Fields on which the geometry of a cache depends.\<close>

definition same_shape :: "('s, 'm) cache_memory \<Rightarrow> ('s, 'm) cache_memory \<Rightarrow> bool" where
  "same_shape cm cm' \<longleftrightarrow>
     m_block_size cm' = m_block_size cm \<and> m_cache_assoc cm' = m_cache_assoc cm \<and>
     m_cache_num_sets cm' = m_cache_num_sets cm \<and> m_cache_num_set_bits cm' = m_cache_num_set_bits cm \<and>
     m_start_index_bit cm' = m_start_index_bit cm"

lemma same_shape_refl [simp]: "same_shape cm cm"
  by (simp add: same_shape_def)

lemma same_shape_trans: "same_shape a b \<Longrightarrow> same_shape b c \<Longrightarrow> same_shape a c"
  by (simp add: same_shape_def)

lemma same_shape_simps:
  assumes "same_shape cm cm'"
  shows "is_line cm' = is_line cm" "set_of_addr cm' = set_of_addr cm" "in_range cm' = in_range cm"
  using assms
  by (auto simp: fun_eq_iff same_shape_def is_line_def line_bits_def set_of_addr_def in_range_def)

lemma nth_nth_update:
  assumes "i < length m" "j < length (m ! i)"
  shows "m[i := (m ! i)[j := x]] ! i' ! j' = (if i' = i \<and> j' = j then x else m ! i' ! j')"
  using assms by (cases "i' = i") auto

lemma set_cell_simps [simp]:
  "same_shape cm (set_cell l c cm)" "m_tag_index (set_cell l c cm) = m_tag_index cm"
  "m_replacementPolicy (set_cell l c cm) = m_replacementPolicy cm"
  "m_repl_data (set_cell l c cm) = m_repl_data cm" "rdata (set_cell l c cm) = rdata cm"
  by (simp_all add: set_cell_def same_shape_def rdata_def fun_eq_iff)

lemma set_repl_simps [simp]:
  "same_shape cm (set_repl l d cm)" "m_tag_index (set_repl l d cm) = m_tag_index cm"
  "m_replacementPolicy (set_repl l d cm) = m_replacementPolicy cm"
  "m_cache (set_repl l d cm) = m_cache cm" "slot (set_repl l d cm) = slot cm"
  by (simp_all add: set_repl_def same_shape_def slot_def fun_eq_iff)

lemma slot_set_cell:
  "cm_geom cm \<Longrightarrow> in_range cm l \<Longrightarrow> slot (set_cell l c cm) l' = (if l' = l then c else slot cm l')"
  by (cases l; cases l') (auto simp: slot_def set_cell_def in_range_def cm_geom_def nth_nth_update)

lemma rdata_set_repl:
  "cm_geom cm \<Longrightarrow> in_range cm l \<Longrightarrow> rdata (set_repl l d cm) l' = (if l' = l then d else rdata cm l')"
  by (cases l; cases l') (auto simp: rdata_def set_repl_def in_range_def cm_geom_def nth_nth_update)

lemma cm_geom_set_cell [simp]: "cm_geom cm \<Longrightarrow> cm_geom (set_cell l c cm)"
  by (cases "fst l < length (m_cache cm)") (auto simp: cm_geom_def set_cell_def nth_list_update)

lemma cm_geom_set_repl [simp]: "cm_geom cm \<Longrightarrow> cm_geom (set_repl l d cm)"
  by (cases "fst l < length (m_repl_data cm)") (auto simp: cm_geom_def set_repl_def nth_list_update)

lemma field_updates [simp]:
  "cm_geom (cm\<lparr>m_replacementPolicy := s\<rparr>) = cm_geom cm"
  "cm_geom (cm\<lparr>m_tag_index := t\<rparr>) = cm_geom cm"
  "same_shape cm (cm\<lparr>m_replacementPolicy := s\<rparr>)" "same_shape cm (cm\<lparr>m_tag_index := t\<rparr>)"
  "slot (cm\<lparr>m_replacementPolicy := s\<rparr>) = slot cm" "slot (cm\<lparr>m_tag_index := t\<rparr>) = slot cm"
  "rdata (cm\<lparr>m_replacementPolicy := s\<rparr>) = rdata cm" "rdata (cm\<lparr>m_tag_index := t\<rparr>) = rdata cm"
  by (simp_all add: cm_geom_def same_shape_def slot_def rdata_def fun_eq_iff)

section \<open>The invariant\<close>

text \<open>
  The tag index and the entries agree: an index entry leads to an entry with that address in the
  set of the address, and an entry in the matrix is present, indexed, in the set of its address,
  and knows its position.
\<close>

definition tags_ok :: "('s, 'm) cache_memory \<Rightarrow> bool" where
  "tags_ok cm \<longleftrightarrow>
     (\<forall>a i. m_tag_index cm a = Some i \<longrightarrow> is_line cm a \<and> i < m_cache_assoc cm \<and>
        (\<exists>e. slot cm (set_of_addr cm a, i) = Some e \<and> m_Address e = a)) \<and>
     (\<forall>l e. in_range cm l \<and> slot cm l = Some e \<longrightarrow>
        m_tag_index cm (m_Address e) = Some (snd l) \<and> set_of_addr cm (m_Address e) = fst l \<and>
        unat (getSet e) = fst l \<and> unat (getWay e) = snd l \<and> m_Permission e \<noteq> NotPresent)"

definition cm_inv :: "('s \<Rightarrow> bool) \<Rightarrow> ('m replacement_data_scheme \<Rightarrow> bool) \<Rightarrow> ('s, 'm) cache_memory \<Rightarrow> bool" where
  "cm_inv pinv live cm \<longleftrightarrow> cm_geom cm \<and> tags_ok cm \<and> pinv (m_replacementPolicy cm) \<and>
     (\<forall>l. in_range cm l \<and> slot cm l \<noteq> None \<longrightarrow> live (rdata cm l))"

text \<open>The abstract view: the entry cached for an address.\<close>

definition resident :: "('s, 'm) cache_memory \<Rightarrow> addr \<Rightarrow> cache_entry option" where
  "resident cm a =
     (case m_tag_index cm a of None \<Rightarrow> None | Some i \<Rightarrow> slot cm (set_of_addr cm a, i))"

lemma cm_inv_geom: "cm_inv pinv live cm \<Longrightarrow> cm_geom cm"
  by (simp add: cm_inv_def)

lemma indexed:
  assumes "cm_inv pinv live cm" "m_tag_index cm a = Some i"
  shows "in_range cm (set_of_addr cm a, i)" "is_line cm a"
    "\<exists>e. slot cm (set_of_addr cm a, i) = Some e \<and> m_Address e = a"
  using assms set_of_addr_bound [of cm a] by (simp_all add: cm_inv_def tags_ok_def in_range_def)

lemma slotted:
  assumes "cm_inv pinv live cm" "in_range cm l" "slot cm l = Some e"
  shows "m_tag_index cm (m_Address e) = Some (snd l)" "set_of_addr cm (m_Address e) = fst l"
    "unat (getSet e) = fst l" "unat (getWay e) = snd l" "m_Permission e \<noteq> NotPresent"
    "is_line cm (m_Address e)" "live (rdata cm l)"
proof -
  show "m_tag_index cm (m_Address e) = Some (snd l)" "set_of_addr cm (m_Address e) = fst l"
    "unat (getSet e) = fst l" "unat (getWay e) = snd l" "m_Permission e \<noteq> NotPresent"
    "live (rdata cm l)"
    using assms by (cases l, simp add: cm_inv_def tags_ok_def)+
  then show "is_line cm (m_Address e)" using indexed(2) [OF assms(1)] by blast
qed

lemma resident_Some:
  assumes "cm_inv pinv live cm" "resident cm a = Some e"
  obtains w where "m_tag_index cm a = Some w" "in_range cm (set_of_addr cm a, w)"
    "slot cm (set_of_addr cm a, w) = Some e" "m_Address e = a" "is_line cm a"
proof -
  obtain w where w: "m_tag_index cm a = Some w" "slot cm (set_of_addr cm a, w) = Some e"
    using assms(2) by (auto simp: resident_def split: option.splits)
  with indexed [OF assms(1) w(1)] that show thesis by auto
qed

lemma resident_None: "cm_inv pinv live cm \<Longrightarrow> resident cm a = None \<longleftrightarrow> m_tag_index cm a = None"
  using indexed(3) [of pinv live cm a] by (fastforce simp: resident_def split: option.splits)

lemma lookup_eq:
  assumes "cm_inv pinv live cm" "is_line cm a"
  shows "lookup cm a = Inr (map_option (Pair (set_of_addr cm a)) (m_tag_index cm a))"
proof (cases "m_tag_index cm a")
  case None
  then show ?thesis
    using assms cm_inv_geom [OF assms(1)]
    by (simp add: lookup_def assert_line_eq addressToCacheSet_eq findTagInSet_def)
next
  case (Some i)
  note ix = indexed [OF assms(1) Some]
  then obtain e where e: "slot cm (set_of_addr cm a, i) = Some e" by blast
  with slotted(5) [OF assms(1) ix(1) e] Some ix(1) assms cm_inv_geom [OF assms(1)] show ?thesis
    by (simp add: lookup_def assert_line_eq addressToCacheSet_eq findTagInSet_def cell_eq deref_def)
qed

lemma isTagPresent_eq:
  "cm_inv pinv live cm \<Longrightarrow> is_line cm a \<Longrightarrow> isTagPresent cm a = Inr (resident cm a \<noteq> None)"
  by (simp add: isTagPresent_def lookup_eq resident_None)

definition free_way :: "('s, 'm) cache_memory \<Rightarrow> nat \<Rightarrow> bool" where
  "free_way cm s \<longleftrightarrow> (\<exists>w < m_cache_assoc cm. slot cm (s, w) = None)"

lemma availScan_eq:
  "length row = n \<Longrightarrow> (\<forall>e \<in> set row. \<forall>x. e = Some x \<longrightarrow> m_Permission x \<noteq> NotPresent) \<Longrightarrow>
   availScan a n row = Inr (\<exists>c \<in> set row. c = None \<or> (\<exists>e. c = Some e \<and> m_Address e = a))"
  by (induction a n row rule: availScan.induct) (auto split: option.splits)

lemma row_cells:
  assumes "cm_geom cm" "s < m_cache_num_sets cm"
  shows "set (m_cache cm ! s) = {slot cm (s, w) | w. w < m_cache_assoc cm}"
  using assms by (auto simp: cm_geom_def slot_def in_set_conv_nth)

lemma cacheAvail_eq:
  assumes inv: "cm_inv pinv live cm" and line: "is_line cm a"
  shows "cacheAvail cm a = Inr (free_way cm (set_of_addr cm a) \<or> resident cm a \<noteq> None)"
proof -
  let ?s = "set_of_addr cm a"
  note geom = cm_inv_geom [OF inv]
  have s: "?s < m_cache_num_sets cm" using set_of_addr_bound [OF geom] by simp
  have row: "vec_at (m_cache cm) ?s = Inr (m_cache cm ! ?s)" "length (m_cache cm ! ?s) = m_cache_assoc cm"
    using geom s by (simp_all add: cm_geom_def)
  note cells = row_cells [OF geom s]
  have cell: "in_range cm (?s, w)" if "w < m_cache_assoc cm" for w
    using that s by (simp add: in_range_def)
  have present: "\<forall>c \<in> set (m_cache cm ! ?s). \<forall>x. c = Some x \<longrightarrow> m_Permission x \<noteq> NotPresent"
    using cells slotted(5) [OF inv cell] by auto
  have "(\<exists>c \<in> set (m_cache cm ! ?s). c = None \<or> (\<exists>e. c = Some e \<and> m_Address e = a)) \<longleftrightarrow>
      free_way cm ?s \<or> resident cm a \<noteq> None" (is "?L \<longleftrightarrow> ?R")
  proof
    assume ?L
    then obtain w where w: "w < m_cache_assoc cm"
        "slot cm (?s, w) = None \<or> (\<exists>e. slot cm (?s, w) = Some e \<and> m_Address e = a)"
      using cells by auto
    then show ?R
      using slotted(1) [OF inv cell [OF w(1)]] resident_None [OF inv, of a] by (auto simp: free_way_def)
  next
    assume ?R
    then consider "free_way cm ?s" | e where "resident cm a = Some e" by blast
    then show ?L
    proof cases
      case 1
      then show ?L unfolding cells by (auto simp: free_way_def)
    next
      case 2
      then show ?L unfolding cells by (elim resident_Some [OF inv]) (auto simp: in_range_def)
    qed
  qed
  then show ?thesis
    using availScan_eq [OF row(2) present, of a] row(1) line
    by (simp add: cacheAvail_def assert_line_eq [OF geom] addressToCacheSet_eq [OF geom])
qed

section \<open>Changing one slot\<close>

text \<open>
  Every operation that changes the cache installs a tag index \<open>t\<close>, a cell \<open>c\<close> and replacement
  data \<open>d\<close> at one location and a new state of the policy.
\<close>

definition install ::
  "(addr \<Rightarrow> nat option) \<Rightarrow> loc \<Rightarrow> cache_entry option \<Rightarrow> 'm replacement_data_scheme \<Rightarrow> 's
   \<Rightarrow> ('s, 'm) cache_memory \<Rightarrow> ('s, 'm) cache_memory" where
  "install t l c d s cm =
     (set_cell l c (set_repl l d (cm\<lparr>m_replacementPolicy := s\<rparr>)))\<lparr>m_tag_index := t\<rparr>"

lemma install_simps:
  assumes "cm_geom cm" "in_range cm l"
  shows "cm_geom (install t l c d s cm)" "m_tag_index (install t l c d s cm) = t"
    "m_replacementPolicy (install t l c d s cm) = s"
    "slot (install t l c d s cm) l' = (if l' = l then c else slot cm l')"
    "rdata (install t l c d s cm) l' = (if l' = l then d else rdata cm l')"
proof -
  let ?cm1 = "cm\<lparr>m_replacementPolicy := s\<rparr>" and ?cm2 = "set_repl l d (cm\<lparr>m_replacementPolicy := s\<rparr>)"
  have g: "cm_geom ?cm1" "cm_geom ?cm2" using assms(1) by simp_all
  have r: "in_range ?cm1 l" "in_range ?cm2 l"
    using assms(2) by (simp_all add: in_range_def set_repl_def)
  show "cm_geom (install t l c d s cm)" "m_tag_index (install t l c d s cm) = t"
    "m_replacementPolicy (install t l c d s cm) = s"
    using g by (simp_all add: install_def)
  show "slot (install t l c d s cm) l' = (if l' = l then c else slot cm l')"
    using slot_set_cell [OF g(2) r(2)] by (simp add: install_def)
  show "rdata (install t l c d s cm) l' = (if l' = l then d else rdata cm l')"
    using rdata_set_repl [OF g(1) r(1)] by (simp add: install_def)
qed

lemma install_shape [simp]: "same_shape cm (install t l c d s cm)"
  by (simp add: install_def same_shape_def set_cell_def set_repl_def)

lemmas install_shape_simps [simp] = same_shape_simps [OF install_shape]

text \<open>The three ways an operation uses a slot: update the entry, remove it, or fill a free slot.\<close>

lemma install_update:
  assumes inv: "cm_inv pinv live cm" and l: "in_range cm l" "slot cm l = Some e"
    and new: "same_slot e e'" "pinv s" "live d"
  shows "cm_inv pinv live (install (m_tag_index cm) l (Some e') d s cm)"
    and "resident (install (m_tag_index cm) l (Some e') d s cm) = (resident cm)(m_Address e \<mapsto> e')"
proof -
  let ?cm = "install (m_tag_index cm) l (Some e') d s cm"
  note geom = cm_inv_geom [OF inv]
  note ins = install_simps [OF geom l(1)]
  note e = slotted [OF inv l]
  have same: "getSet e' = getSet e" "getWay e' = getWay e" "m_Address e' = m_Address e"
    "m_Permission e' \<noteq> NotPresent" using new(1) e(5) by (simp_all add: same_slot_def)
  have "tags_ok ?cm"
    unfolding tags_ok_def
  proof (intro conjI allI impI)
    fix a i assume a: "m_tag_index ?cm a = Some i"
    then have ix: "m_tag_index cm a = Some i" by (simp add: ins)
    note ix' = indexed [OF inv ix]
    show "is_line ?cm a" using ix' by simp
    show "i < m_cache_assoc ?cm" using ix'(1) install_shape [of cm] by (simp add: in_range_def same_shape_def)
    show "\<exists>e. slot ?cm (set_of_addr ?cm a, i) = Some e \<and> m_Address e = a"
      using ix'(3) l(2) same(3) by (auto simp: ins)
  next
    fix l' e1 assume "in_range ?cm l' \<and> slot ?cm l' = Some e1"
    then show "m_tag_index ?cm (m_Address e1) = Some (snd l')"
      "set_of_addr ?cm (m_Address e1) = fst l'"
      "unat (getSet e1) = fst l'" "unat (getWay e1) = snd l'" "m_Permission e1 \<noteq> NotPresent"
      using e same slotted [OF inv, of l' e1] by (auto simp: ins split: if_splits)
  qed
  moreover have "live (rdata ?cm l')" if "in_range cm l'" "slot ?cm l' \<noteq> None" for l'
    using that new(3) slotted(7) [OF inv, of l'] by (auto simp: ins split: if_splits)
  ultimately show "cm_inv pinv live ?cm"
    using new(2) by (simp add: cm_inv_def ins)
  show "resident ?cm = (resident cm)(m_Address e \<mapsto> e')"
  proof
    fix a
    show "resident ?cm a = ((resident cm)(m_Address e \<mapsto> e')) a"
      using e(1,2) l(2) indexed(3) [OF inv, of a]
      by (cases "a = m_Address e") (auto simp: resident_def ins split: option.splits)
  qed
qed

lemma install_remove:
  assumes inv: "cm_inv pinv live cm" and l: "in_range cm l" "slot cm l = Some e" and new: "pinv s"
  shows "cm_inv pinv live (install ((m_tag_index cm)(m_Address e := None)) l None d s cm)"
    and "resident (install ((m_tag_index cm)(m_Address e := None)) l None d s cm) = (resident cm)(m_Address e := None)"
proof -
  let ?cm = "install ((m_tag_index cm)(m_Address e := None)) l None d s cm"
  note geom = cm_inv_geom [OF inv]
  note ins = install_simps [OF geom l(1)]
  note e = slotted [OF inv l]
  have elsewhere: "(set_of_addr cm a, i) \<noteq> l" if "m_tag_index cm a = Some i" "a \<noteq> m_Address e" for a i
    using indexed(3) [OF inv that(1)] l(2) that(2) by auto
  have "tags_ok ?cm"
    unfolding tags_ok_def
  proof (intro conjI allI impI)
    fix a i assume "m_tag_index ?cm a = Some i"
    then have ix: "m_tag_index cm a = Some i" "a \<noteq> m_Address e" by (auto simp: ins split: if_splits)
    note ix' = indexed [OF inv ix(1)]
    show "is_line ?cm a" using ix' by simp
    show "i < m_cache_assoc ?cm" using ix'(1) install_shape [of cm] by (simp add: in_range_def same_shape_def)
    show "\<exists>e. slot ?cm (set_of_addr ?cm a, i) = Some e \<and> m_Address e = a"
      using ix'(3) elsewhere [OF ix] by (auto simp: ins)
  next
    fix l' e1 assume "in_range ?cm l' \<and> slot ?cm l' = Some e1"
    then have l': "in_range cm l'" "slot cm l' = Some e1" "l' \<noteq> l" by (auto simp: ins split: if_splits)
    note e1 = slotted [OF inv l'(1,2)]
    have "m_Address e1 \<noteq> m_Address e"
    proof
      assume "m_Address e1 = m_Address e"
      with e(1,2) e1(1,2) have "l' = l" by (simp add: prod_eq_iff)
      with l'(3) show False by simp
    qed
    with e1 show "m_tag_index ?cm (m_Address e1) = Some (snd l')"
      "set_of_addr ?cm (m_Address e1) = fst l'"
      "unat (getSet e1) = fst l'" "unat (getWay e1) = snd l'" "m_Permission e1 \<noteq> NotPresent"
      by (auto simp: ins)
  qed
  moreover have "live (rdata ?cm l')" if "in_range cm l'" "slot ?cm l' \<noteq> None" for l'
    using that slotted(7) [OF inv, of l'] by (auto simp: ins split: if_splits)
  ultimately show "cm_inv pinv live ?cm"
    using new by (simp add: cm_inv_def ins)
  show "resident ?cm = (resident cm)(m_Address e := None)"
  proof
    fix a
    show "resident ?cm a = ((resident cm)(m_Address e := None)) a"
      using elsewhere [of a] by (cases "a = m_Address e") (auto simp: resident_def ins split: option.splits)
  qed
qed

lemma install_fill:
  assumes inv: "cm_inv pinv live cm" and l: "in_range cm l" "slot cm l = None"
    and a: "is_line cm a" "resident cm a = None" "fst l = set_of_addr cm a"
    and e: "m_Address e = a" "unat (getSet e) = fst l" "unat (getWay e) = snd l" "m_Permission e \<noteq> NotPresent"
    and new: "pinv s" "live d"
  shows "cm_inv pinv live (install ((m_tag_index cm)(a \<mapsto> snd l)) l (Some e) d s cm)"
    and "resident (install ((m_tag_index cm)(a \<mapsto> snd l)) l (Some e) d s cm) = (resident cm)(a \<mapsto> e)"
proof -
  let ?cm = "install ((m_tag_index cm)(a \<mapsto> snd l)) l (Some e) d s cm"
  note geom = cm_inv_geom [OF inv]
  note ins = install_simps [OF geom l(1)]
  have fresh: "m_tag_index cm a = None" using a(2) resident_None [OF inv] by simp
  have la: "(set_of_addr cm a, snd l) = l" using a(3) by (simp add: prod_eq_iff)
  have elsewhere: "(set_of_addr cm b, i) \<noteq> l" if "m_tag_index cm b = Some i" for b i
    using indexed(3) [OF inv that] l(2) by auto
  have "tags_ok ?cm"
    unfolding tags_ok_def
  proof (intro conjI allI impI)
    fix b i assume b: "m_tag_index ?cm b = Some i"
    have "is_line cm b \<and> i < m_cache_assoc cm \<and> (\<exists>e. slot ?cm (set_of_addr cm b, i) = Some e \<and> m_Address e = b)"
    proof (cases "b = a")
      case True
      with b have "i = snd l" by (simp add: ins)
      with True la a(1) l(1) e(1) show ?thesis by (auto simp: ins in_range_def)
    next
      case False
      then have ix: "m_tag_index cm b = Some i" using b by (simp add: ins)
      then show ?thesis
        using indexed [OF inv ix] elsewhere [OF ix] by (auto simp: ins in_range_def)
    qed
    then show "is_line ?cm b" "i < m_cache_assoc ?cm"
      "\<exists>e. slot ?cm (set_of_addr ?cm b, i) = Some e \<and> m_Address e = b"
      using install_shape [of cm] by (simp_all add: same_shape_def)
  next
    fix l' e1 assume "in_range ?cm l' \<and> slot ?cm l' = Some e1"
    then have l': "in_range cm l'" "l' = l \<and> e1 = e \<or> l' \<noteq> l \<and> slot cm l' = Some e1"
      by (auto simp: ins split: if_splits)
    then have "m_tag_index ?cm (m_Address e1) = Some (snd l') \<and> set_of_addr cm (m_Address e1) = fst l' \<and>
        unat (getSet e1) = fst l' \<and> unat (getWay e1) = snd l' \<and> m_Permission e1 \<noteq> NotPresent"
      using e a(3) fresh slotted [OF inv l'(1), of e1] by (auto simp: ins)
    then show "m_tag_index ?cm (m_Address e1) = Some (snd l')"
      "set_of_addr ?cm (m_Address e1) = fst l'"
      "unat (getSet e1) = fst l'" "unat (getWay e1) = snd l'" "m_Permission e1 \<noteq> NotPresent"
      by simp_all
  qed
  moreover have "live (rdata ?cm l')" if "in_range cm l'" "slot ?cm l' \<noteq> None" for l'
    using that new(2) slotted(7) [OF inv, of l'] by (auto simp: ins split: if_splits)
  ultimately show "cm_inv pinv live ?cm"
    using new(1) by (simp add: cm_inv_def ins)
  show "resident ?cm = (resident cm)(a \<mapsto> e)"
  proof
    fix b
    show "resident ?cm b = ((resident cm)(a \<mapsto> e)) b"
      using elsewhere [of b] la by (cases "b = a") (auto simp: resident_def ins split: option.splits)
  qed
qed

end
