(* ===== verification/Arc_RP.thy ===== *)
theory Arc_RP
  imports Repl_Policy
begin

text \<open>
  The Adaptive Replacement Cache policy (\<open>arc_rp.hh\<close>, \<open>arc_rp.cc\<close>).  Every cache set
  has two ghost lists \<open>B1\<close> and \<open>B2\<close> of the tags evicted from its resident lists
  \<open>T1\<close> (seen once) and \<open>T2\<close> (seen again), and a target size \<open>p\<close> for
  \<open>T1\<close>.  Residents carry the list they belong to in \<open>listId\<close>.  The per-set vectors
  grow lazily to the highest set number seen.
\<close>

section \<open>Data and state\<close>

record arc_repl_data = replacement_data +
  arc_lastTouchTick :: tick
  listId :: int            \<comment> \<open>1 = T1 (new), 2 = T2 (frequent)\<close>
  arc_valid :: bool
  arc_tag :: addr

record arc_state =
  targetP :: "int list"
  ghostB1 :: "addr list list"
  ghostB2 :: "addr list list"

definition arc_init :: arc_state where
  "arc_init = \<lparr>targetP = [], ghostB1 = [], ghostB2 = []\<rparr>"

definition arc_instantiateEntry :: "replaceable_entry option \<Rightarrow> arc_repl_data" where
  "arc_instantiateEntry e0 =
     \<lparr>rd_entry = e0, arc_lastTouchTick = 0, listId = 1, arc_valid = False, arc_tag = 0\<rparr>"

section \<open>Ghost lists and the target size\<close>

definition arc_resize :: "nat \<Rightarrow> arc_state \<Rightarrow> arc_state" where
  "arc_resize s st =
     (if s \<ge> length (ghostB1 st)
      then st\<lparr>ghostB1 := vec_resize (s + 1) [] (ghostB1 st),
              ghostB2 := vec_resize (s + 1) [] (ghostB2 st),
              targetP := vec_resize (s + 1) 0 (targetP st)\<rparr>
      else st)"

definition ghosts :: "arc_state \<Rightarrow> bool \<Rightarrow> addr list list" where
  "ghosts st isB1 = (if isB1 then ghostB1 st else ghostB2 st)"

definition set_ghost :: "arc_state \<Rightarrow> bool \<Rightarrow> nat \<Rightarrow> addr list \<Rightarrow> arc_state" where
  "set_ghost st isB1 s g =
     (if isB1 then st\<lparr>ghostB1 := (ghostB1 st)[s := g]\<rparr> else st\<lparr>ghostB2 := (ghostB2 st)[s := g]\<rparr>)"

definition adjustP :: "nat \<Rightarrow> bool \<Rightarrow> arc_state \<Rightarrow> arc_state res" where
  "adjustP s hitInB1 st =
     bindR (vec_at (ghostB1 st) s) (\<lambda>g1.
     bindR (vec_at (ghostB2 st) s) (\<lambda>g2.
     bindR (vec_at (targetP st) s) (\<lambda>p.
       let b1Size = length g1; b2Size = length g2 in
       if hitInB1 then
         bindR (if b1Size \<ge> b2Size then Inr 1
                else if b1Size = 0 then Inl DivByZero
                else Inr (int ((b2Size + b1Size - 1) div b1Size))) (\<lambda>delta.
         Inr (st\<lparr>targetP := (targetP st)[s := min (p + delta) (int (b1Size + b2Size))]\<rparr>))
       else
         bindR (if b2Size \<ge> b1Size then Inr 1
                else if b2Size = 0 then Inl DivByZero
                else Inr (int ((b1Size + b2Size - 1) div b2Size))) (\<lambda>delta.
         Inr (st\<lparr>targetP := (targetP st)[s := max (p - delta) 0]\<rparr>)))))"

definition addToGhost :: "nat \<Rightarrow> bool \<Rightarrow> addr \<Rightarrow> arc_state \<Rightarrow> arc_state res" where
  "addToGhost s isB1 tg st =
     bindR (vec_at (ghosts st isB1) s) (\<lambda>g.
       let g' = g @ [tg] in
       Inr (set_ghost st isB1 s (if length g' > length (ghostB1 st) then tl g' else g')))"

definition removeFromGhost :: "nat \<Rightarrow> bool \<Rightarrow> addr \<Rightarrow> arc_state \<Rightarrow> (bool \<times> arc_state) res" where
  "removeFromGhost s isB1 tg st =
     bindR (vec_at (ghosts st isB1) s) (\<lambda>g.
       if tg \<in> set g then Inr (True, set_ghost st isB1 s (remove1 tg g))
       else Inr (False, st))"

section \<open>The policy's operations\<close>

definition arc_invalidate :: "arc_state \<Rightarrow> arc_repl_data \<Rightarrow> (arc_state \<times> arc_repl_data) res" where
  "arc_invalidate st d = Inr (st, d\<lparr>arc_valid := False\<rparr>)"

definition arc_touch :: "tick \<Rightarrow> arc_state \<Rightarrow> arc_repl_data \<Rightarrow> (arc_state \<times> arc_repl_data) res" where
  "arc_touch now st d =
     (let d1 = d\<lparr>arc_lastTouchTick := now\<rparr>
      in Inr (st, if listId d1 = 1 then d1\<lparr>listId := 2\<rparr> else d1))"

definition arc_reset :: "tick \<Rightarrow> arc_state \<Rightarrow> arc_repl_data \<Rightarrow> (arc_state \<times> arc_repl_data) res" where
  "arc_reset now st d0 =
     (let d = d0\<lparr>arc_lastTouchTick := now, arc_valid := True\<rparr> in
      case rd_entry d of
        None \<Rightarrow> Inl Panic
      | Some e \<Rightarrow>
          bindR (set_index e) (\<lambda>s.
          bindR (removeFromGhost s True (arc_tag d) (arc_resize s st)) (\<lambda>(hit1, st1).
          if hit1 then bindR (adjustP s True st1) (\<lambda>st2. Inr (st2, d\<lparr>listId := 2\<rparr>))
          else bindR (removeFromGhost s False (arc_tag d) st1) (\<lambda>(hit2, st2).
          if hit2 then bindR (adjustP s False st2) (\<lambda>st3. Inr (st3, d\<lparr>listId := 2\<rparr>))
          else Inr (st2, d\<lparr>listId := 1\<rparr>)))))"

text \<open>The three loops of \<open>getVictim\<close>.\<close>

fun arc_count :: "int \<times> int \<Rightarrow> arc_repl_data list \<Rightarrow> int \<times> int" where
  "arc_count acc [] = acc"
| "arc_count (t1Count, t2Count) (d # ds) =
     arc_count
       (if arc_valid d then
          if listId d = 1 then (t1Count + 1, t2Count) else (t1Count, t2Count + 1)
        else (t1Count, t2Count)) ds"

definition arc_eligible :: "bool \<Rightarrow> arc_repl_data \<Rightarrow> bool" where
  "arc_eligible evictFromT1 d \<longleftrightarrow>
     arc_valid d \<and> ((evictFromT1 \<and> listId d = 1) \<or> (\<not> evictFromT1 \<and> listId d = 2))"

fun arc_findLRU :: "bool \<Rightarrow> tick \<Rightarrow> nat option \<Rightarrow> nat \<Rightarrow> arc_repl_data list \<Rightarrow> nat option" where
  "arc_findLRU ev oldest victim i [] = victim"
| "arc_findLRU ev oldest victim i (d # ds) =
     (if arc_eligible ev d \<and> arc_lastTouchTick d < oldest
      then arc_findLRU ev (arc_lastTouchTick d) (Some i) (Suc i) ds
      else arc_findLRU ev oldest victim (Suc i) ds)"

fun arc_findValid :: "nat \<Rightarrow> arc_repl_data list \<Rightarrow> nat option" where
  "arc_findValid i [] = None"
| "arc_findValid i (d # ds) = (if arc_valid d then Some i else arc_findValid (Suc i) ds)"

definition arc_evictFromT1 :: "int \<Rightarrow> arc_repl_data list \<Rightarrow> bool" where
  "arc_evictFromT1 p ds =
     (case arc_count (0, 0) ds of (t1Count, t2Count) \<Rightarrow> t1Count > p \<or> t2Count = 0)"

definition arc_chooseVictim :: "tick \<Rightarrow> bool \<Rightarrow> arc_repl_data list \<Rightarrow> nat option" where
  "arc_chooseVictim now ev ds =
     (case arc_findLRU ev now None 0 ds of
        Some i \<Rightarrow> Some i
      | None \<Rightarrow> arc_findValid 0 ds)"

definition arc_getVictim ::
  "tick \<Rightarrow> arc_state \<Rightarrow> (replaceable_entry \<times> arc_repl_data) list
   \<Rightarrow> (arc_state \<times> arc_repl_data list \<times> nat option) res" where
  "arc_getVictim now st cs =
     (let ds = map snd cs in
      case cs of
        [] \<Rightarrow> Inr (st, ds, None)
      | (e, _) # _ \<Rightarrow>
          bindR (set_index e) (\<lambda>s.
          let st1 = arc_resize s st in
          bindR (vec_at (targetP st1) s) (\<lambda>p.
          let victim = arc_chooseVictim now (arc_evictFromT1 p ds) ds in
          case victim of
            None \<Rightarrow> Inr (st1, ds, None)
          | Some i \<Rightarrow>
              bindR (addToGhost s (listId (ds ! i) = 1) (arc_tag (ds ! i)) st1) (\<lambda>st2.
              Inr (st2, ds, Some i)))))"

lemmas arc_op_defs [policy_defs] =
  arc_invalidate_def arc_touch_def arc_reset_def arc_getVictim_def


section \<open>Invariant\<close>

text \<open>
  The three vectors have one length, the number of sets seen so far; every ghost list is capped
  by that number, and every target stays between zero and twice that number.  The last clause
  bounds every \<open>int\<close> the adaptation computes, so that none of them can overflow while the
  number of sets is below \<open>2^30\<close>.
\<close>

definition arc_inv :: "arc_state \<Rightarrow> bool" where
  "arc_inv st \<longleftrightarrow>
     length (ghostB2 st) = length (ghostB1 st) \<and>
     length (targetP st) = length (ghostB1 st) \<and>
     (\<forall>s < length (ghostB1 st).
        length (ghostB1 st ! s) \<le> length (ghostB1 st) \<and>
        length (ghostB2 st ! s) \<le> length (ghostB1 st) \<and>
        0 \<le> targetP st ! s \<and> targetP st ! s \<le> 2 * int (length (ghostB1 st)))"

lemma arc_inv_init: "arc_inv arc_init"
  by (simp add: arc_inv_def arc_init_def)

lemma arc_inv_lengths:
  assumes "arc_inv st"
  shows "length (ghostB2 st) = length (ghostB1 st)" "length (targetP st) = length (ghostB1 st)"
    "length (ghosts st b) = length (ghostB1 st)"
  using assms by (auto simp: arc_inv_def ghosts_def)

lemma arc_resize_covers: "s < length (ghostB1 (arc_resize s st))"
  by (simp add: arc_resize_def)

lemma arc_resize_length: "length (ghostB1 (arc_resize s st)) = max (length (ghostB1 st)) (s + 1)"
  by (simp add: arc_resize_def)

lemma arc_resize_mono: "length (ghostB1 st) \<le> length (ghostB1 (arc_resize s st))"
  by (simp add: arc_resize_def)

lemma arc_resize_inv:
  assumes "arc_inv st"
  shows "arc_inv (arc_resize s st)"
proof (cases "s \<ge> length (ghostB1 st)")
  case True
  with assms show ?thesis
    unfolding arc_inv_def arc_resize_def
    by (fastforce simp: nth_vec_resize)
qed (use assms in \<open>simp add: arc_resize_def\<close>)

section \<open>Per-set view\<close>

text \<open>
  What the policy promises for one cache set, free of the lazily grown vectors: the two ghost
  lists and the target of that set.  A set not seen yet has empty lists and target zero.
\<close>

record arc_set =
  B1 :: "addr list"
  B2 :: "addr list"
  target :: int

definition arc_view :: "arc_state \<Rightarrow> nat \<Rightarrow> arc_set" where
  "arc_view st s =
     (if s < length (ghostB1 st)
      then \<lparr>B1 = ghostB1 st ! s, B2 = ghostB2 st ! s, target = targetP st ! s\<rparr>
      else \<lparr>B1 = [], B2 = [], target = 0\<rparr>)"

text \<open>The adaptation rule after a ghost hit, with the sizes taken after the hit was removed.\<close>

definition arc_adapt :: "bool \<Rightarrow> arc_set \<Rightarrow> arc_set res" where
  "arc_adapt hitInB1 v =
     (let b1 = length (B1 v); b2 = length (B2 v) in
      if hitInB1 then
        if b1 \<ge> b2 then Inr (v\<lparr>target := min (target v + 1) (int (b1 + b2))\<rparr>)
        else if b1 = 0 then Inl DivByZero
        else Inr (v\<lparr>target := min (target v + int ((b2 + b1 - 1) div b1)) (int (b1 + b2))\<rparr>)
      else
        if b2 \<ge> b1 then Inr (v\<lparr>target := max (target v - 1) 0\<rparr>)
        else if b2 = 0 then Inl DivByZero
        else Inr (v\<lparr>target := max (target v - int ((b1 + b2 - 1) div b2)) 0\<rparr>))"

definition arc_admit :: "addr \<Rightarrow> arc_set \<Rightarrow> (arc_set \<times> int) res" where
  "arc_admit tg v =
     (if tg \<in> set (B1 v) then
        bindR (arc_adapt True (v\<lparr>B1 := remove1 tg (B1 v)\<rparr>)) (\<lambda>v'. Inr (v', 2))
      else if tg \<in> set (B2 v) then
        bindR (arc_adapt False (v\<lparr>B2 := remove1 tg (B2 v)\<rparr>)) (\<lambda>v'. Inr (v', 2))
      else Inr (v, 1))"

text \<open>Remembering an eviction: append, and drop the oldest tag when the cap is passed.\<close>

definition arc_remember :: "nat \<Rightarrow> bool \<Rightarrow> addr \<Rightarrow> arc_set \<Rightarrow> arc_set" where
  "arc_remember cap isB1 tg v =
     (let push = (\<lambda>g. if length (g @ [tg]) > cap then tl (g @ [tg]) else g @ [tg])
      in if isB1 then v\<lparr>B1 := push (B1 v)\<rparr> else v\<lparr>B2 := push (B2 v)\<rparr>)"

lemma arc_view_resize:
  assumes "arc_inv st"
  shows "arc_view (arc_resize s st) = arc_view st"
  using assms
  by (auto simp: fun_eq_iff arc_view_def arc_resize_def nth_vec_resize arc_inv_def)

text \<open>Storing a set's view back.  All state changes of the policy have this form.\<close>

definition arc_put :: "nat \<Rightarrow> arc_set \<Rightarrow> arc_state \<Rightarrow> arc_state" where
  "arc_put s v st = st\<lparr>targetP := (targetP st)[s := target v],
     ghostB1 := (ghostB1 st)[s := B1 v], ghostB2 := (ghostB2 st)[s := B2 v]\<rparr>"

definition arc_set_ok :: "nat \<Rightarrow> arc_set \<Rightarrow> bool" where
  "arc_set_ok cap v \<longleftrightarrow> length (B1 v) \<le> cap \<and> length (B2 v) \<le> cap \<and>
     0 \<le> target v \<and> target v \<le> 2 * int cap"

lemma arc_inv_view:
  "arc_inv st \<longleftrightarrow> length (ghostB2 st) = length (ghostB1 st) \<and>
     length (targetP st) = length (ghostB1 st) \<and>
     (\<forall>s. arc_set_ok (length (ghostB1 st)) (arc_view st s))"
  by (auto simp: arc_inv_def arc_set_ok_def arc_view_def)

lemma arc_put_length [simp]: "length (ghostB1 (arc_put s v st)) = length (ghostB1 st)"
  by (simp add: arc_put_def)

lemma arc_put_put [simp]: "arc_put s w (arc_put s v st) = arc_put s w st"
  by (simp add: arc_put_def)

lemma arc_put_id: "s < length (ghostB1 st) \<Longrightarrow> arc_inv st \<Longrightarrow> arc_put s (arc_view st s) st = st"
  by (simp add: arc_put_def arc_view_def)

lemma arc_view_put:
  "s < length (ghostB1 st) \<Longrightarrow> arc_inv st \<Longrightarrow> arc_view (arc_put s v st) = (arc_view st)(s := v)"
  by (auto simp: arc_put_def arc_view_def arc_inv_def fun_eq_iff nth_list_update)

lemma arc_inv_put:
  "s < length (ghostB1 st) \<Longrightarrow> arc_inv st \<Longrightarrow> arc_set_ok (length (ghostB1 st)) v \<Longrightarrow>
   arc_inv (arc_put s v st)"
  using arc_view_put [of s st v]
  by (simp add: arc_inv_view) (simp add: arc_put_def)

lemma arc_adapt_shape:
  assumes "arc_adapt b v = Inr v'"
  shows "v' = v\<lparr>target := target v'\<rparr>"
    and "arc_set_ok cap v \<Longrightarrow> arc_set_ok cap v'"
  using assms by (auto simp: arc_adapt_def arc_set_ok_def Let_def split: if_splits)

lemma adjustP_eq:
  assumes "arc_inv st" "s < length (ghostB1 st)"
  shows "adjustP s b st = bindR (arc_adapt b (arc_view st s)) (\<lambda>v. Inr (arc_put s v st))"
proof -
  let ?v = "arc_view st s"
  have v: "ghostB1 st ! s = B1 ?v" "ghostB2 st ! s = B2 ?v" "targetP st ! s = target ?v"
    using assms(2) by (simp_all add: arc_view_def)
  have put: "arc_put s (?v\<lparr>target := p\<rparr>) st = st\<lparr>targetP := (targetP st)[s := p]\<rparr>" for p
    by (simp add: arc_put_def flip: v)
  show ?thesis
    using assms by (simp add: arc_adapt_def adjustP_def Let_def arc_inv_lengths v put)
qed

lemma removeFromGhost_eq:
  assumes "arc_inv st" "s < length (ghostB1 st)"
  shows "removeFromGhost s True tg st =
     (let v = arc_view st s in
      if tg \<in> set (B1 v) then Inr (True, arc_put s (v\<lparr>B1 := remove1 tg (B1 v)\<rparr>) st)
      else Inr (False, st))"
    and "removeFromGhost s False tg st =
     (let v = arc_view st s in
      if tg \<in> set (B2 v) then Inr (True, arc_put s (v\<lparr>B2 := remove1 tg (B2 v)\<rparr>) st)
      else Inr (False, st))"
  using assms
  by (auto simp: removeFromGhost_def arc_view_def ghosts_def arc_inv_lengths set_ghost_def
      arc_put_def Let_def)

lemma addToGhost_eq:
  assumes "arc_inv st" "s < length (ghostB1 st)"
  shows "addToGhost s b tg st =
     Inr (arc_put s (arc_remember (length (ghostB1 st)) b tg (arc_view st s)) st)"
  using assms
  by (cases b) (auto simp: addToGhost_def arc_remember_def arc_view_def ghosts_def
      arc_inv_lengths set_ghost_def arc_put_def Let_def)

lemma arc_remember_ok: "arc_set_ok cap v \<Longrightarrow> arc_set_ok cap (arc_remember cap b tg v)"
  by (auto simp: arc_set_ok_def arc_remember_def Let_def)

lemma arc_set_ok_remove1:
  "arc_set_ok cap v \<Longrightarrow> arc_set_ok cap (v\<lparr>B1 := remove1 tg (B1 v)\<rparr>)"
  "arc_set_ok cap v \<Longrightarrow> arc_set_ok cap (v\<lparr>B2 := remove1 tg (B2 v)\<rparr>)"
  by (auto simp: arc_set_ok_def length_remove1)

lemma arc_admit_ok: "arc_set_ok cap v \<Longrightarrow> arc_admit tg v = Inr (v', l) \<Longrightarrow> arc_set_ok cap v'"
  by (auto simp: arc_admit_def res_simps intro: arc_adapt_shape(2) arc_set_ok_remove1
      split: if_splits)

lemma arc_set_ok_view: "arc_inv st \<Longrightarrow> arc_set_ok (length (ghostB1 st)) (arc_view st s)"
  by (simp add: arc_inv_view)

text \<open>
  \<open>reset\<close> computes the view's \<open>arc_admit\<close> and stores the result: the vectors and their
  lazy growth are an implementation detail.
\<close>

lemma arc_reset_eq:
  assumes inv: "arc_inv st" and e: "rd_entry d = Some e" "pos_ok e" and s: "s = unat (getSet e)"
  shows "arc_reset now st d = bindR (arc_admit (arc_tag d) (arc_view st s))
     (\<lambda>(v, l). Inr (arc_put s v (arc_resize s st),
        d\<lparr>arc_lastTouchTick := now, arc_valid := True, listId := l\<rparr>))"
proof -
  let ?st = "arc_resize s st" and ?v = "arc_view st s"
  have inv': "arc_inv ?st" "s < length (ghostB1 ?st)" "arc_view ?st s = ?v"
    using arc_resize_inv [OF inv] arc_resize_covers arc_view_resize [OF inv] by auto
  have ok: "arc_set_ok (length (ghostB1 ?st)) ?v"
    using arc_set_ok_view [OF inv'(1), of s] inv'(3) by simp
  have put: "arc_inv (arc_put s w ?st)" "arc_view (arc_put s w ?st) s = w"
    if "arc_set_ok (length (ghostB1 ?st)) w" for w
    using that inv' by (simp_all add: arc_inv_put arc_view_put)
  show ?thesis
    using e inv' arc_set_ok_remove1 [OF ok]
    by (auto simp: arc_reset_def arc_admit_def Let_def removeFromGhost_eq adjustP_eq put
        arc_put_id [OF inv'(2,1), unfolded inv'(3)] bindR_def simp flip: s split: sum.splits)
qed


section \<open>Choosing a victim\<close>

lemma arc_count_eq:
  "arc_count (a, b) ds =
     (a + int (length (filter (\<lambda>d. arc_valid d \<and> listId d = 1) ds)),
      b + int (length (filter (\<lambda>d. arc_valid d \<and> listId d \<noteq> 1) ds)))"
  by (induction ds arbitrary: a b) auto

text \<open>
  \<open>lru_at ev ds k\<close>: candidate \<open>k\<close> is the first of the least recently touched among the
  eligible candidates.
\<close>

definition lru_at :: "bool \<Rightarrow> arc_repl_data list \<Rightarrow> nat \<Rightarrow> bool" where
  "lru_at ev ds k \<longleftrightarrow> k < length ds \<and> arc_eligible ev (ds ! k) \<and>
     (\<forall>j < length ds. arc_eligible ev (ds ! j) \<longrightarrow>
        arc_lastTouchTick (ds ! k) \<le> arc_lastTouchTick (ds ! j)) \<and>
     (\<forall>j < k. arc_eligible ev (ds ! j) \<longrightarrow>
        arc_lastTouchTick (ds ! k) < arc_lastTouchTick (ds ! j))"

definition lru_result :: "bool \<Rightarrow> tick \<Rightarrow> arc_repl_data list \<Rightarrow> nat option \<Rightarrow> bool" where
  "lru_result ev now ds r = (case r of
     None \<Rightarrow> \<forall>j < length ds. arc_eligible ev (ds ! j) \<longrightarrow> now \<le> arc_lastTouchTick (ds ! j)
   | Some k \<Rightarrow> lru_at ev ds k \<and> arc_lastTouchTick (ds ! k) < now)"

lemma lru_result_snoc:
  assumes "lru_result ev now pre v"
    and "old = (case v of None \<Rightarrow> now | Some k \<Rightarrow> arc_lastTouchTick (pre ! k))"
  shows "lru_result ev now (pre @ [d])
     (if arc_eligible ev d \<and> arc_lastTouchTick d < old then Some (length pre) else v)"
  using assms unfolding lru_result_def lru_at_def
  by (auto simp: nth_append less_Suc_eq not_less split: option.splits
      intro: less_imp_le less_le_trans order_trans)

lemma arc_findLRU_result:
  assumes "lru_result ev now pre v"
    and "old = (case v of None \<Rightarrow> now | Some k \<Rightarrow> arc_lastTouchTick (pre ! k))"
  shows "lru_result ev now (pre @ ds) (arc_findLRU ev old v (length pre) ds)"
  using assms
proof (induction ds arbitrary: pre v old)
  case Nil
  then show ?case by simp
next
  case (Cons d ds)
  let ?take = "arc_eligible ev d \<and> arc_lastTouchTick d < old"
  let ?v = "if ?take then Some (length pre) else v"
  have step: "lru_result ev now (pre @ [d]) ?v"
    using Cons.prems by (rule lru_result_snoc)
  have old: "(if ?take then arc_lastTouchTick d else old) =
      (case ?v of None \<Rightarrow> now | Some k \<Rightarrow> arc_lastTouchTick ((pre @ [d]) ! k))"
    using Cons.prems by (auto simp: lru_result_def lru_at_def nth_append split: option.splits)
  show ?case
    using Cons.IH [OF step old] by (cases ?take) auto
qed

lemma arc_findLRU_correct: "lru_result ev now ds (arc_findLRU ev now None 0 ds)"
  using arc_findLRU_result [of ev now "[]" None now ds] by (simp add: lru_result_def)

lemma arc_findValid_None: "arc_findValid i ds = None \<longleftrightarrow> (\<forall>d \<in> set ds. \<not> arc_valid d)"
  by (induction ds arbitrary: i) auto

lemma arc_findValid_Some:
  "arc_findValid i ds = Some k \<Longrightarrow>
     i \<le> k \<and> k - i < length ds \<and> arc_valid (ds ! (k - i)) \<and> (\<forall>j < k - i. \<not> arc_valid (ds ! j))"
proof (induction ds arbitrary: i)
  case (Cons d ds)
  show ?case
  proof (cases "arc_valid d")
    case False
    with Cons.prems have "arc_findValid (Suc i) ds = Some k" by simp
    from Cons.IH [OF this] False show ?thesis
      using Suc_diff_Suc [of i k, symmetric] by (auto simp: less_Suc_eq_0_disj)
  qed (use Cons.prems in auto)
qed simp

lemma arc_chooseVictim_None:
  "arc_chooseVictim now ev ds = None \<longleftrightarrow> (\<forall>d \<in> set ds. \<not> arc_valid d)"
proof -
  have "arc_findLRU ev now None 0 ds = None" if "\<forall>d \<in> set ds. \<not> arc_valid d"
    using arc_findLRU_correct [of ev now ds] that
    by (fastforce simp: lru_result_def lru_at_def arc_eligible_def split: option.splits)
  then show ?thesis
    using arc_findValid_None [of 0 ds]
    by (cases "\<forall>d \<in> set ds. \<not> arc_valid d")
       (auto simp: arc_chooseVictim_def split: option.splits)
qed

lemma arc_chooseVictim_valid:
  "arc_chooseVictim now ev ds = Some i \<Longrightarrow> i < length ds \<and> arc_valid (ds ! i)"
  using arc_findLRU_correct [of ev now ds] arc_findValid_Some [of 0 ds i]
  by (auto simp: arc_chooseVictim_def lru_result_def lru_at_def arc_eligible_def
      split: option.splits)

lemma arc_getVictim_eq:
  fixes now :: tick
  assumes inv: "arc_inv st" and cs: "cs \<noteq> []" and pos: "pos_ok (fst (hd cs))"
  defines "s \<equiv> unat (getSet (fst (hd cs)))"
  defines "ds \<equiv> map snd cs"
  defines "v \<equiv> arc_chooseVictim now (arc_evictFromT1 (target (arc_view st s)) ds) ds"
  shows "arc_getVictim now st cs = Inr
     (case v of
        None \<Rightarrow> (arc_resize s st, ds, None)
      | Some i \<Rightarrow>
          (arc_put s (arc_remember (max (length (ghostB1 st)) (s + 1))
             (listId (ds ! i) = 1) (arc_tag (ds ! i)) (arc_view st s)) (arc_resize s st),
           ds, Some i))"
proof -
  let ?st = "arc_resize s st"
  obtain e d rest where cs': "cs = (e, d) # rest" using cs by (cases cs) auto
  have inv': "arc_inv ?st" "s < length (ghostB1 ?st)" "arc_view ?st s = arc_view st s"
    using arc_resize_inv [OF inv] arc_resize_covers arc_view_resize [OF inv] by auto
  have tgt: "vec_at (targetP ?st) s = Inr (target (arc_view st s))"
    using inv' by (simp add: arc_inv_lengths flip: inv'(3)) (simp add: arc_view_def)
  have s: "set_index e = Inr s" using pos by (simp add: s_def cs')
  show ?thesis
    using tgt s inv'
    by (simp add: arc_getVictim_def cs' Let_def v_def ds_def addToGhost_eq arc_resize_length split: option.splits)
qed

lemma arc_getVictim_runs:
  assumes "arc_inv st" "cs \<noteq> []" "pos_ok (fst (hd cs))"
  shows "\<exists>st'. arc_getVictim now st cs = Inr (st', map snd cs,
     arc_chooseVictim now
       (arc_evictFromT1 (target (arc_view st (unat (getSet (fst (hd cs)))))) (map snd cs))
       (map snd cs))"
  by (simp add: arc_getVictim_eq [OF assms] split: option.split)

lemma arc_getVictim_inv:
  assumes inv: "arc_inv st" and cs: "cs \<noteq> []" and pos: "pos_ok (fst (hd cs))"
    and run: "arc_getVictim now st cs = Inr (st', ds', v)"
  shows "arc_inv st'" and "ds' = map snd cs"
proof -
  let ?s = "unat (getSet (fst (hd cs)))"
  have inv': "arc_inv (arc_resize ?s st)" by (rule arc_resize_inv [OF inv])
  have ok: "arc_set_ok (max (length (ghostB1 st)) (?s + 1)) (arc_view st ?s)"
    using arc_set_ok_view [OF inv', of ?s] by (simp add: arc_resize_length arc_view_resize [OF inv])
  show "arc_inv st'" and "ds' = map snd cs"
    using run inv' arc_inv_put [OF arc_resize_covers inv'] arc_remember_ok [OF ok]
    by (auto simp: arc_getVictim_eq [OF inv cs pos] arc_resize_length split: option.splits)
qed


section \<open>The policy as an instance of the interface\<close>

definition arc_rp :: "(arc_state, unit arc_repl_data_ext) rp" where
  "arc_rp = \<lparr>rp_instantiateEntry = (\<lambda>e0 st. (st, arc_instantiateEntry e0)),
     rp_invalidate = arc_invalidate, rp_touch = arc_touch, rp_reset = arc_reset,
     rp_getVictim = arc_getVictim\<rparr>"

lemma arc_rp_simps [simp]:
  "rp_instantiateEntry arc_rp e0 st = (st, arc_instantiateEntry e0)"
  "rp_invalidate arc_rp = arc_invalidate" "rp_touch arc_rp = arc_touch"
  "rp_reset arc_rp = arc_reset" "rp_getVictim arc_rp = arc_getVictim"
  by (simp_all add: arc_rp_def)

lemma arc_reset_inv:
  assumes inv: "arc_inv st" and run: "arc_reset now st d = Inr (st', d')"
  shows "arc_inv st'" and "arc_valid d'"
proof -
  obtain e where e: "rd_entry d = Some e" "pos_ok e"
    using run by (auto simp: arc_reset_def Let_def res_simps split: option.splits)
  let ?s = "unat (getSet e)"
  have inv': "arc_inv (arc_resize ?s st)" by (rule arc_resize_inv [OF inv])
  have ok: "arc_set_ok (length (ghostB1 (arc_resize ?s st))) (arc_view st ?s)"
    using arc_set_ok_view [OF inv', of ?s] by (simp add: arc_view_resize [OF inv])
  show "arc_inv st'" "arc_valid d'"
    using run by (auto simp: arc_reset_eq [OF inv e refl] res_simps
        intro!: arc_inv_put [OF arc_resize_covers inv'] arc_admit_ok [OF ok])
qed

lemma arc_victim_live:
  assumes inv: "arc_inv st" and cs: "cs \<noteq> []"
    and live: "list_all (\<lambda>c. pos_ok (fst c) \<and> arc_valid (snd c)) cs"
  shows "\<exists>st' ds' i. arc_getVictim now st cs = Inr (st', ds', Some i) \<and> arc_inv st' \<and>
    i < length cs \<and> length ds' = length cs \<and> list_all arc_valid ds'"
proof -
  have pos: "pos_ok (fst (hd cs))" using cs live by (cases cs) auto
  obtain st' ds' v where run: "arc_getVictim now st cs = Inr (st', ds', v)"
    using arc_getVictim_runs [OF inv cs pos] by blast
  then have v: "v = arc_chooseVictim now
      (arc_evictFromT1 (target (arc_view st (unat (getSet (fst (hd cs)))))) (map snd cs)) (map snd cs)"
    using arc_getVictim_runs [OF inv cs pos, of now] by auto
  obtain d where "d \<in> set (map snd cs)" "arc_valid d"
    using cs live by (cases cs) auto
  then obtain i where i: "v = Some i"
    using arc_chooseVictim_None unfolding v by blast
  moreover have "i < length cs"
    using arc_chooseVictim_valid [of _ _ "map snd cs" i] i unfolding v by simp
  ultimately show ?thesis
    using run arc_getVictim_inv [OF inv cs pos run] live
    by (auto simp: list_all_iff)
qed

interpretation arc: victim_policy arc_rp arc_inv arc_valid
proof (unfold_locales, goal_cases)
  case (1 s e0)
  then show ?case by simp
next
  case (2 s d)
  then show ?case by (simp add: arc_invalidate_def)
next
  case (3 s d now)
  then show ?case by (simp add: arc_touch_def Let_def)
next
  case (4 s now d s' d')
  then show ?case by (simp add: arc_reset_inv)
next
  case (5 s cs now)
  then show ?case by (simp add: arc_victim_live)
qed

section \<open>Example data for the witnesses\<close>

definition ex_entry :: replaceable_entry where
  "ex_entry = \<lparr>entry_set = 0, entry_way = 0\<rparr>"

definition ex_block :: "tick \<Rightarrow> int \<Rightarrow> addr \<Rightarrow> arc_repl_data" where
  "ex_block t l tg =
     \<lparr>rd_entry = Some ex_entry, arc_lastTouchTick = t, listId = l, arc_valid = True, arc_tag = tg\<rparr>"

text \<open>Three sets seen; set 0 remembers two tags evicted from T1 and one from T2.\<close>

definition ex_arc :: arc_state where
  "ex_arc = \<lparr>targetP = [1, 0, 0], ghostB1 = [[7, 8], [], []], ghostB2 = [[9], [], []]\<rparr>"

definition ex_cands :: "(replaceable_entry \<times> arc_repl_data) list" where
  "ex_cands = [(ex_entry, ex_block 40 1 7), (ex_entry, ex_block 20 2 8), (ex_entry, ex_block 30 1 9)]"

lemma ex_arc_ok: "arc_inv ex_arc" "pos_ok ex_entry" "ex_cands \<noteq> []" "pos_ok (fst (hd ex_cands))"
  "rd_entry (ex_block t l tg) = Some ex_entry"
  by (auto simp: arc_inv_def ex_arc_def pos_ok_def getSet_def ex_entry_def ex_cands_def ex_block_def
      less_Suc_eq numeral_3_eq_3)

section \<open>Properties\<close>

text \<open>
  C1.  \<open>reset\<close> implements the per-set admission rule: on linked data it either stops the
  program exactly when the rule does, or files the block in the list the rule names, marks it
  valid and touched now, keeps the invariant, and changes no other set.
\<close>

theorem arc_reset_implements_admit:
  assumes "arc_inv st" "rd_entry d = Some e" "pos_ok e"
  shows "case arc_admit (arc_tag d) (arc_view st (unat (getSet e))) of
     Inl x \<Rightarrow> arc_reset now st d = Inl x
   | Inr (v, l) \<Rightarrow> \<exists>st'. arc_reset now st d =
       Inr (st', d\<lparr>arc_lastTouchTick := now, arc_valid := True, listId := l\<rparr>) \<and>
       arc_inv st' \<and> arc_view st' = (arc_view st)(unat (getSet e) := v)"
proof (cases "arc_admit (arc_tag d) (arc_view st (unat (getSet e)))")
  case (Inl x)
  then show ?thesis by (simp add: arc_reset_eq [OF assms refl])
next
  case (Inr r)
  let ?s = "unat (getSet e)"
  obtain v l where r: "r = (v, l)" by (cases r)
  have run: "arc_reset now st d = Inr (arc_put ?s v (arc_resize ?s st),
      d\<lparr>arc_lastTouchTick := now, arc_valid := True, listId := l\<rparr>)"
    by (simp add: arc_reset_eq [OF assms refl] Inr r)
  show ?thesis
    using run arc_reset_inv(1) [OF assms(1) run]
    by (simp add: Inr r arc_view_put arc_resize_covers arc_resize_inv assms(1)
        arc_view_resize [OF assms(1)])
qed

theorem arc_reset_implements_admit_witness:
  "arc_inv ex_arc \<and> rd_entry (ex_block 10 1 7) = Some ex_entry \<and> pos_ok ex_entry \<and>
   (case arc_admit (arc_tag (ex_block 10 1 7)) (arc_view ex_arc (unat (getSet ex_entry))) of
     Inl x \<Rightarrow> arc_reset 50 ex_arc (ex_block 10 1 7) = Inl x
   | Inr (v, l) \<Rightarrow> \<exists>st'. arc_reset 50 ex_arc (ex_block 10 1 7) =
       Inr (st', (ex_block 10 1 7)\<lparr>arc_lastTouchTick := 50, arc_valid := True, listId := l\<rparr>) \<and>
       arc_inv st' \<and> arc_view st' = (arc_view ex_arc)(unat (getSet ex_entry) := v))"
  by (intro conjI ex_arc_ok arc_reset_implements_admit)

text \<open>
  C2.  Which block \<open>getVictim\<close> designates.  With \<open>n1\<close> valid candidates in T1 and
  \<open>n2\<close> elsewhere, the victim list is T1 when \<open>n1\<close> exceeds the set's target or
  \<open>n2\<close> is zero.  The victim is the first least recently touched valid member of that list
  that was touched before the current tick; if there is none, the first valid candidate of
  either list; if no candidate is valid, null.
\<close>

theorem arc_getVictim_choice:
  assumes "arc_inv st" "cs \<noteq> []" "pos_ok (fst (hd cs))"
    and "ds = map snd cs"
    and "n1 = int (length (filter (\<lambda>d. arc_valid d \<and> listId d = 1) ds))"
    and "n2 = int (length (filter (\<lambda>d. arc_valid d \<and> listId d \<noteq> 1) ds))"
    and "ev = (n1 > target (arc_view st (unat (getSet (fst (hd cs))))) \<or> n2 = 0)"
  shows "\<exists>st' v. arc_getVictim now st cs = Inr (st', ds, v) \<and>
    (case v of
       None \<Rightarrow> \<forall>d \<in> set ds. \<not> arc_valid d
     | Some k \<Rightarrow> k < length ds \<and> arc_valid (ds ! k) \<and>
         (if \<exists>d \<in> set ds. arc_eligible ev d \<and> arc_lastTouchTick d < now
          then lru_at ev ds k \<and> arc_lastTouchTick (ds ! k) < now
          else \<forall>j < k. \<not> arc_valid (ds ! j)))"
proof -
  have ev: "arc_evictFromT1 (target (arc_view st (unat (getSet (fst (hd cs)))))) ds = ev"
    unfolding arc_evictFromT1_def arc_count_eq assms(5,6,7) by simp
  let ?v = "arc_chooseVictim now ev ds"
  obtain st' where run: "arc_getVictim now st cs = Inr (st', ds, ?v)"
    using arc_getVictim_runs [OF assms(1-3), of now] ev unfolding assms(4) by auto
  have "if \<exists>d \<in> set ds. arc_eligible ev d \<and> arc_lastTouchTick d < now
     then lru_at ev ds k \<and> arc_lastTouchTick (ds ! k) < now else \<forall>j < k. \<not> arc_valid (ds ! j)"
    if "?v = Some k" for k
    using that arc_findLRU_correct [of ev now ds] arc_findValid_Some [of 0 ds k]
    by (fastforce simp: arc_chooseVictim_def lru_result_def lru_at_def in_set_conv_nth
        split: option.splits)
  with run show ?thesis
    using arc_chooseVictim_None [of now ev ds] arc_chooseVictim_valid [of now ev ds]
    by (intro exI [of _ st'] exI [of _ ?v]) (auto split: option.splits)
qed

theorem arc_getVictim_choice_witness:
  "arc_inv ex_arc \<and> ex_cands \<noteq> [] \<and> pos_ok (fst (hd ex_cands)) \<and>
   (\<exists>st' v. arc_getVictim 50 ex_arc ex_cands = Inr (st', map snd ex_cands, v) \<and> v = Some 2)"
proof -
  obtain st' v where run: "arc_getVictim 50 ex_arc ex_cands = Inr (st', map snd ex_cands, v)"
    using arc_getVictim_choice [OF ex_arc_ok(1,3,4) refl refl refl refl, of 50] by auto
  have "map_sum id (\<lambda>r. snd (snd r)) (arc_getVictim 50 ex_arc ex_cands) = Inr (Some 2)"
    by code_simp
  with run have "v = Some 2" by simp
  with run ex_arc_ok show ?thesis by blast
qed

text \<open>
  C3.  Evicting remembers: when \<open>getVictim\<close> designates a block, that block's tag is appended
  to the ghost list of its own resident list in that set, the oldest tag being dropped once the
  list outgrows the number of sets seen; nothing else of the policy's state changes.
\<close>

theorem arc_getVictim_remembers:
  assumes "arc_inv st" "cs \<noteq> []" "pos_ok (fst (hd cs))"
    and "arc_getVictim now st cs = Inr (st', ds', Some k)"
    and "s = unat (getSet (fst (hd cs)))"
  shows "arc_inv st' \<and> ds' = map snd cs \<and>
     arc_view st' = (arc_view st)(s :=
       arc_remember (max (length (ghostB1 st)) (s + 1))
         (listId (snd (cs ! k)) = 1) (arc_tag (snd (cs ! k))) (arc_view st s))"
proof -
  have "k < length cs"
    using assms(4) arc_getVictim_runs [OF assms(1-3), of now]
    by (auto dest!: arc_chooseVictim_valid [OF sym])
  then show ?thesis
    using assms(4) arc_getVictim_inv [OF assms(1-4)]
    by (auto simp: arc_getVictim_eq [OF assms(1-3)] assms(5) arc_view_put arc_resize_covers
        arc_resize_inv assms(1) arc_view_resize [OF assms(1)] split: option.splits)
qed

theorem arc_getVictim_remembers_witness:
  "\<exists>st'. arc_getVictim 50 ex_arc ex_cands = Inr (st', map snd ex_cands, Some 2) \<and>
     arc_view st' 0 = \<lparr>B1 = [7, 8, 9], B2 = [9], target = 1\<rparr>"
proof -
  have run: "arc_getVictim 50 ex_arc ex_cands =
      Inr (ex_arc\<lparr>ghostB1 := [[7, 8, 9], [], []]\<rparr>, map snd ex_cands, Some 2)"
    by code_simp
  have v: "arc_view ex_arc 0 = \<lparr>B1 = [7, 8], B2 = [9], target = 1\<rparr>"
    by (simp add: arc_view_def ex_arc_def)
  have ex: "unat (getSet (fst (hd ex_cands))) = 0" "listId (snd (ex_cands ! 2)) = 1"
    "arc_tag (snd (ex_cands ! 2)) = 9" "length (ghostB1 ex_arc) = 3"
    by code_simp+
  show ?thesis
    using arc_getVictim_remembers [OF ex_arc_ok(1,3,4) run refl] run
    by (auto simp: v ex arc_remember_def)
qed

text \<open>
  C4.  When \<open>reset\<close> stops on a division by zero: exactly when the block's tag is the only
  entry of the ghost list it hits while the other ghost list of the set is not empty.  The hit is
  erased before the sizes are taken, so the divisor is the size of an emptied list.
\<close>

theorem arc_reset_div_by_zero_iff:
  assumes "arc_inv st" "rd_entry d = Some e" "pos_ok e"
    and "v = arc_view st (unat (getSet e))"
  shows "arc_reset now st d = Inl DivByZero \<longleftrightarrow>
     (B1 v = [arc_tag d] \<and> B2 v \<noteq> []) \<or>
     (B2 v = [arc_tag d] \<and> B1 v \<noteq> [] \<and> arc_tag d \<notin> set (B1 v))"
proof -
  have single: "remove1 x xs = [] \<longleftrightarrow> xs = [] \<or> xs = [x]" for x :: addr and xs
    by (cases xs) auto
  show ?thesis
    by (auto simp: arc_reset_eq [OF assms(1-3) refl] arc_admit_def arc_adapt_def Let_def res_simps
        single simp flip: assms(4) split: if_splits)
qed

theorem arc_reset_div_by_zero_iff_witness:
  "arc_inv ex_arc \<and> rd_entry (ex_block 10 1 9) = Some ex_entry \<and> pos_ok ex_entry \<and>
   arc_reset 50 ex_arc (ex_block 10 1 9) = Inl DivByZero"
proof -
  have "arc_view ex_arc (unat (getSet ex_entry)) = \<lparr>B1 = [7, 8], B2 = [9], target = 1\<rparr>"
    by (simp add: arc_view_def ex_arc_def getSet_def ex_entry_def)
  then show ?thesis
    using ex_arc_ok(1,2,5) arc_reset_div_by_zero_iff [OF ex_arc_ok(1,5,2) refl, of 50 10 1 9]
    by (simp add: ex_block_def)
qed

end
