(* ===== verification/Arc_System.thy ===== *)
theory Arc_System
  imports Arc_RP
begin

text \<open>
  The policy in use.  A system is the policy object with the replacement data of a number of
  blocks; an operation is a call of one of the policy's methods on some of them, or the linking of
  a block's data to its entry by \<open>setPosition\<close>.  The reachable states are those a run of
  successful operations leads to from freshly instantiated data.
\<close>

record arc_sys =
  policy :: arc_state
  blocks :: "arc_repl_data list"

datatype arc_op =
    Link nat replaceable_entry
  | Invalidate nat
  | Touch nat tick
  | Reset nat tick
  | Victim "(nat \<times> replaceable_entry) list" tick

definition on_block ::
  "nat \<Rightarrow> (arc_state \<Rightarrow> arc_repl_data \<Rightarrow> (arc_state \<times> arc_repl_data) res) \<Rightarrow> arc_sys \<Rightarrow> arc_sys res" where
  "on_block i f sys =
     bindR (vec_at (blocks sys) i) (\<lambda>d.
     bindR (f (policy sys) d) (\<lambda>(st', d').
     Inr \<lparr>policy = st', blocks = (blocks sys)[i := d']\<rparr>))"

fun gather :: "arc_repl_data list \<Rightarrow> (nat \<times> replaceable_entry) list
    \<Rightarrow> (replaceable_entry \<times> arc_repl_data) list res" where
  "gather ds [] = Inr []"
| "gather ds ((i, e) # ies) =
     bindR (vec_at ds i) (\<lambda>d. bindR (gather ds ies) (\<lambda>cs. Inr ((e, d) # cs)))"

fun arc_apply :: "arc_op \<Rightarrow> arc_sys \<Rightarrow> arc_sys res" where
  "arc_apply (Link i e) sys = on_block i (\<lambda>st d. Inr (st, d\<lparr>rd_entry := Some e\<rparr>)) sys"
| "arc_apply (Invalidate i) sys = on_block i arc_invalidate sys"
| "arc_apply (Touch i now) sys = on_block i (arc_touch now) sys"
| "arc_apply (Reset i now) sys = on_block i (arc_reset now) sys"
| "arc_apply (Victim ies now) sys =
     bindR (gather (blocks sys) ies) (\<lambda>cs.
     bindR (arc_getVictim now (policy sys) cs) (\<lambda>(st', ds', v). Inr (sys\<lparr>policy := st'\<rparr>)))"

fun arc_run :: "arc_op list \<Rightarrow> arc_sys \<Rightarrow> arc_sys res" where
  "arc_run [] sys = Inr sys"
| "arc_run (x # xs) sys = bindR (arc_apply x sys) (arc_run xs)"

definition arc_start :: "replaceable_entry option list \<Rightarrow> arc_sys" where
  "arc_start es = \<lparr>policy = arc_init, blocks = map arc_instantiateEntry es\<rparr>"

inductive arc_reachable :: "arc_sys \<Rightarrow> bool" where
  start: "arc_reachable (arc_start es)"
| step: "arc_reachable sys \<Longrightarrow> arc_apply x sys = Inr sys' \<Longrightarrow> arc_reachable sys'"

lemma arc_run_reachable: "arc_reachable sys \<Longrightarrow> arc_run xs sys = Inr sys' \<Longrightarrow> arc_reachable sys'"
  by (induction xs arbitrary: sys) (auto simp: res_simps intro: arc_reachable.step)

section \<open>The tag is never written\<close>

text \<open>No ghost list holds a tag other than zero.\<close>

definition zero_ghosts :: "arc_state \<Rightarrow> bool" where
  "zero_ghosts st \<longleftrightarrow> (\<forall>s. set (B1 (arc_view st s)) \<subseteq> {0} \<and> set (B2 (arc_view st s)) \<subseteq> {0})"

definition sys_inv :: "arc_sys \<Rightarrow> bool" where
  "sys_inv sys \<longleftrightarrow> arc_inv (policy sys) \<and> zero_ghosts (policy sys) \<and>
     (\<forall>d \<in> set (blocks sys). arc_tag d = 0)"

lemma zero_ghosts_put:
  assumes "zero_ghosts st" "arc_inv st" "set (B1 v) \<subseteq> {0}" "set (B2 v) \<subseteq> {0}"
  shows "zero_ghosts (arc_put s v (arc_resize s st))"
  using assms
  by (auto simp: zero_ghosts_def arc_view_put arc_resize_covers arc_resize_inv arc_view_resize)

lemma zero_ghosts_resize: "arc_inv st \<Longrightarrow> zero_ghosts (arc_resize s st) = zero_ghosts st"
  by (simp add: zero_ghosts_def arc_view_resize)

lemma arc_admit_ghosts:
  assumes "arc_admit tg v = Inr (v', l)"
  shows "set (B1 v') \<subseteq> set (B1 v)" "set (B2 v') \<subseteq> set (B2 v)"
proof -
  have adapt: "B1 w' = B1 w \<and> B2 w' = B2 w" if "arc_adapt b w = Inr w'" for b w w'
    by (subst arc_adapt_shape(1) [OF that], subst (2) arc_adapt_shape(1) [OF that]) simp
  show "set (B1 v') \<subseteq> set (B1 v)" "set (B2 v') \<subseteq> set (B2 v)"
    using assms set_remove1_subset [of tg "B1 v"] set_remove1_subset [of tg "B2 v"]
    by (auto simp: arc_admit_def res_simps dest!: adapt split: if_splits)
qed

lemma arc_remember_ghosts:
  "set (B1 (arc_remember cap b tg v)) \<subseteq> insert tg (set (B1 v))"
  "set (B2 (arc_remember cap b tg v)) \<subseteq> insert tg (set (B2 v))"
  by (auto simp: arc_remember_def Let_def dest: list.set_sel(2) [rotated])

lemma arc_reset_zero:
  assumes "arc_inv st" "zero_ghosts st" "arc_tag d = 0" "arc_reset now st d = Inr (st', d')"
  shows "zero_ghosts st'" "arc_tag d' = 0"
proof -
  obtain e where e: "rd_entry d = Some e" "pos_ok e"
    using assms(4) by (auto simp: arc_reset_def Let_def res_simps split: option.splits)
  let ?s = "unat (getSet e)"
  obtain v l where adm: "arc_admit (arc_tag d) (arc_view st ?s) = Inr (v, l)"
    and st': "st' = arc_put ?s v (arc_resize ?s st)"
    and d': "d' = d\<lparr>arc_lastTouchTick := now, arc_valid := True, listId := l\<rparr>"
    using assms(4) by (auto simp: arc_reset_eq [OF assms(1) e refl] res_simps)
  have "set (B1 v) \<subseteq> {0}" "set (B2 v) \<subseteq> {0}"
    using arc_admit_ghosts [OF adm] assms(2) unfolding zero_ghosts_def by blast+
  then show "zero_ghosts st'" unfolding st' by (rule zero_ghosts_put [OF assms(2,1)])
  show "arc_tag d' = 0" using assms(3) by (simp add: d')
qed

lemma arc_getVictim_zero:
  assumes inv: "arc_inv st" and zero: "zero_ghosts st" "\<forall>c \<in> set cs. arc_tag (snd c) = 0"
    and run: "arc_getVictim now st cs = Inr (st', ds', v)"
  shows "arc_inv st'" "zero_ghosts st'"
proof -
  have "arc_inv st' \<and> zero_ghosts st'"
  proof (cases cs)
    case Nil
    with inv zero run show ?thesis by (simp add: arc_getVictim_def)
  next
    case (Cons c rest)
    have pos: "cs \<noteq> []" "pos_ok (fst (hd cs))"
      using run by (auto simp: Cons arc_getVictim_def Let_def res_simps split: prod.splits)
    let ?s = "unat (getSet (fst (hd cs)))"
    have v: "v = Some i \<Longrightarrow> i < length cs" for i
      using run arc_getVictim_runs [OF inv pos, of now]
      by (auto dest!: arc_chooseVictim_valid [OF sym])
    have "zero_ghosts (arc_put ?s (arc_remember cap b 0 (arc_view st ?s)) (arc_resize ?s st))"
      for cap b
    proof -
      have "set (B1 (arc_remember cap b 0 (arc_view st ?s))) \<subseteq> {0}"
        "set (B2 (arc_remember cap b 0 (arc_view st ?s))) \<subseteq> {0}"
        using zero(1) arc_remember_ghosts [of cap b 0 "arc_view st ?s"]
        unfolding zero_ghosts_def by blast+
      then show ?thesis by (rule zero_ghosts_put [OF zero(1) inv])
    qed
    then show ?thesis
      using run arc_getVictim_inv(1) [OF inv pos run] v zero
      by (auto simp: arc_getVictim_eq [OF inv pos] zero_ghosts_resize [OF inv]
          split: option.splits)
  qed
  then show "arc_inv st'" "zero_ghosts st'" by simp_all
qed

lemma gather_blocks: "gather ds ies = Inr cs \<Longrightarrow> c \<in> set cs \<Longrightarrow> snd c \<in> set ds"
  by (induction ds ies arbitrary: cs rule: gather.induct) (auto simp: res_simps)

lemma on_block_inv:
  assumes "sys_inv sys" "on_block i f sys = Inr sys'"
    and "\<And>st d st' d'. arc_inv st \<Longrightarrow> zero_ghosts st \<Longrightarrow> arc_tag d = 0 \<Longrightarrow> f st d = Inr (st', d') \<Longrightarrow>
      arc_inv st' \<and> zero_ghosts st' \<and> arc_tag d' = 0"
  shows "sys_inv sys'"
proof -
  obtain d st' d' where i: "i < length (blocks sys)" "d = blocks sys ! i"
    and f: "f (policy sys) d = Inr (st', d')"
    and sys': "sys' = \<lparr>policy = st', blocks = (blocks sys)[i := d']\<rparr>"
    using assms(2) by (auto simp: on_block_def res_simps)
  have "arc_tag d = 0" using assms(1) i by (simp add: sys_inv_def)
  then have new: "arc_inv st' \<and> zero_ghosts st' \<and> arc_tag d' = 0"
    using assms(3) [OF _ _ _ f] assms(1) by (simp add: sys_inv_def)
  then have "\<forall>b \<in> set ((blocks sys)[i := d']). arc_tag b = 0"
    using assms(1) set_update_subset_insert [of "blocks sys" i d'] by (auto simp: sys_inv_def)
  with new show ?thesis by (simp add: sys_inv_def sys')
qed

lemma arc_apply_inv:
  assumes inv: "sys_inv sys" and run: "arc_apply x sys = Inr sys'"
  shows "sys_inv sys'"
proof (cases x)
  case (Link i e)
  with inv run show ?thesis by (auto intro: on_block_inv)
next
  case (Invalidate i)
  with inv run show ?thesis by (auto intro: on_block_inv simp: arc_invalidate_def)
next
  case (Touch i now)
  with inv run show ?thesis by (auto intro: on_block_inv simp: arc_touch_def Let_def split: if_splits)
next
  case (Reset i now)
  with inv run show ?thesis by (auto intro: on_block_inv dest: arc_reset_zero arc_reset_inv)
next
  case (Victim ies now)
  then obtain cs st' ds' v where cs: "gather (blocks sys) ies = Inr cs"
    and v: "arc_getVictim now (policy sys) cs = Inr (st', ds', v)" and sys': "sys' = sys\<lparr>policy := st'\<rparr>"
    using run by (auto simp: res_simps)
  have tags: "\<forall>c \<in> set cs. arc_tag (snd c) = 0"
    using inv gather_blocks [OF cs] by (auto simp: sys_inv_def)
  show ?thesis
    using inv arc_getVictim_zero [OF _ _ tags v] by (simp add: sys_inv_def sys')
qed

lemma arc_reachable_inv: "arc_reachable sys \<Longrightarrow> sys_inv sys"
proof (induction rule: arc_reachable.induct)
  case (start es)
  show ?case
    by (auto simp: sys_inv_def arc_start_def arc_inv_init zero_ghosts_def arc_view_def arc_init_def
        arc_instantiateEntry_def arc_inv_def)
next
  case (step sys x sys')
  then show ?case by (blast intro: arc_apply_inv)
qed

section \<open>Example runs\<close>

text \<open>A direct-mapped set whose block is evicted once from T1 and once from T2.\<close>

definition ex_ops :: "arc_op list" where
  "ex_ops = [Link 0 ex_entry, Reset 0 1, Victim [(0, ex_entry)] 2, Touch 0 3,
             Victim [(0, ex_entry)] 4]"

definition ex_sys :: arc_sys where
  "ex_sys = \<lparr>policy = \<lparr>targetP = [0], ghostB1 = [[0]], ghostB2 = [[0]]\<rparr>,
     blocks = [ex_block 3 2 0]\<rparr>"

lemma ex_sys_reachable: "arc_reachable ex_sys"
proof -
  have "arc_run ex_ops (arc_start [None]) = Inr ex_sys" by code_simp
  then show ?thesis by (rule arc_run_reachable [OF arc_reachable.start])
qed

text \<open>The same set after its only block was evicted from T1 once.\<close>

definition ex_sys2 :: arc_sys where
  "ex_sys2 = \<lparr>policy = \<lparr>targetP = [0], ghostB1 = [[0]], ghostB2 = [[]]\<rparr>,
     blocks = [ex_block 1 1 0]\<rparr>"

lemma ex_sys2_reachable: "arc_reachable ex_sys2"
proof -
  have "arc_run [Link 0 ex_entry, Reset 0 1, Victim [(0, ex_entry)] 2] (arc_start [None]) = Inr ex_sys2"
    by code_simp
  then show ?thesis by (rule arc_run_reachable [OF arc_reachable.start])
qed

section \<open>Properties\<close>



text \<open>
  C6.  No operation ever stores a block's tag in its replacement data, so in every reachable
  state all tags, resident and ghost, are the zero of the constructor.  A \<open>reset\<close> therefore
  counts as a ghost hit for whatever block it is called, exactly when the set has evicted
  anything that is still remembered.
\<close>

theorem arc_ghost_hits_any_block:
  assumes "arc_reachable sys" "d \<in> set (blocks sys)" "rd_entry d = Some e" "pos_ok e"
    and "arc_reset now (policy sys) d = Inr (st', d')"
    and "v = arc_view (policy sys) (unat (getSet e))"
  shows "arc_tag d = 0 \<and> set (B1 v) \<union> set (B2 v) \<subseteq> {0} \<and>
     (listId d' = 2 \<longleftrightarrow> B1 v \<noteq> [] \<or> B2 v \<noteq> [])"
proof -
  have inv: "arc_inv (policy sys)" and tag: "arc_tag d = 0"
    and zero: "set (B1 v) \<subseteq> {0}" "set (B2 v) \<subseteq> {0}"
    using arc_reachable_inv [OF assms(1)] assms(2,6) by (auto simp: sys_inv_def zero_ghosts_def)
  have mem: "0 \<in> set g \<longleftrightarrow> g \<noteq> []" if "set g \<subseteq> {0}" for g :: "addr list"
    using that by (cases g) auto
  show ?thesis
    using assms(5) tag zero mem [OF zero(1)] mem [OF zero(2)]
    by (auto simp: arc_reset_eq [OF inv assms(3,4) refl] arc_admit_def res_simps tag
        simp flip: assms(6) split: if_splits)
qed

theorem arc_ghost_hits_any_block_witness:
  "\<exists>st' d'. arc_reset 2 (policy (ex_sys2)) (ex_block 1 1 0) = Inr (st', d') \<and> listId d' = 2"
proof -
  have run: "arc_reset 2 (policy ex_sys2) (ex_block 1 1 0) =
      Inr (\<lparr>targetP = [0], ghostB1 = [[]], ghostB2 = [[]]\<rparr>, ex_block 2 2 0)"
    by code_simp
  have v: "B1 (arc_view (policy ex_sys2) (unat (getSet ex_entry))) = [0]"
    by (simp add: arc_view_def ex_sys2_def ex_entry_def getSet_def)
  show ?thesis
    using run v arc_ghost_hits_any_block [OF ex_sys2_reachable _ ex_arc_ok(5,2) run refl]
    by (simp add: ex_sys2_def)
qed



end
