(* ===== verification/Random_Gen.thy ===== *)
theory Random_Gen
  imports Prelude
begin

text \<open>
  The random numbers of \<open>base/random.hh\<close>.  The raw generator \<open>std::mt19937_64\<close> is an
  arbitrary sequence of 64-bit outputs, read one after the other; \<open>random(min, max)\<close> reduces
  an output to the interval, at the width of its type.
\<close>

record rng =
  rng_out :: "nat \<Rightarrow> uint64"
  rng_pos :: nat

definition rng_gen :: "rng \<Rightarrow> uint64 \<times> rng" where
  "rng_gen g = (rng_out g (rng_pos g), g\<lparr>rng_pos := Suc (rng_pos g)\<rparr>)"

text \<open>\<open>random<unsigned>(min, max)\<close>: the span \<open>max - min + 1\<close> is computed in 32 bits, the
  remainder and the final addition in 64 bits, and the result is truncated to 32 bits.\<close>

definition rng_random :: "uint32 \<Rightarrow> uint32 \<Rightarrow> rng \<Rightarrow> (uint32 \<times> rng) res" where
  "rng_random mn mx g =
     checkR AssertFail (mn \<le> mx)
       (let span = mx - mn + 1; (x, g') = rng_gen g in
        if span = 0 then Inl DivByZero
        else Inr (ucast (x mod ucast span + ucast mn), g'))"

lemma unat_span:
  fixes mn mx :: uint32
  assumes "mn \<le> mx" "mx - mn + 1 \<noteq> 0"
  shows "unat (mx - mn + 1) = unat mx - unat mn + 1"
  using assms unat_inc [of "mx - mn"] by (simp add: unat_sub)

lemma rng_random_bounds:
  assumes "mn \<le> mx" "mx - mn + 1 \<noteq> 0"
  shows "\<exists>r g'. rng_random mn mx g = Inr (r, g') \<and> mn \<le> r \<and> r \<le> mx \<and> g' = snd (rng_gen g)"
proof -
  let ?span = "mx - mn + 1" and ?x = "fst (rng_gen g)"
  let ?r = "ucast (?x mod ucast ?span + ucast mn) :: uint32"
  note span = unat_span [OF assms]
  have us: "unat (ucast ?span :: uint64) = unat ?span" by (rule unat_ucast_32_64)
  have "unat ?x mod unat ?span \<le> unat mx - unat mn"
    using span by (metis Suc_eq_plus1 mod_less_divisor less_Suc_eq_le zero_less_Suc)
  then have le: "unat ?x mod unat ?span + unat mn \<le> unat mx"
    using assms(1) by (simp add: word_le_nat_alt)
  have "unat (?x mod ucast ?span + ucast mn :: uint64) = unat ?x mod unat ?span + unat mn"
    using le unat_less_pow [of mx] by (simp add: unat_word_ariths us unat_ucast_32_64)
  then have "unat ?r = unat ?x mod unat ?span + unat mn"
    using le unat_less_pow [of mx] by (simp add: unsigned_ucast_eq take_bit_nat_eq_self)
  then have "mn \<le> ?r" "?r \<le> mx" using le by (simp_all add: word_le_nat_alt)
  with assms show ?thesis by (simp add: rng_random_def split_beta)
qed

end
