(* ===== verification/Recency_RP.thy ===== *)
theory Recency_RP
  imports Repl_Policy Random_Gen
begin

text \<open>
  The policies that rank the blocks of a set by one stored quantity: least and most recently used
  (\<open>lru_rp.cc\<close>, \<open>mru_rp.cc\<close>), bimodal insertion (\<open>bip_rp.cc\<close>), LRU weighted by
  occupancy (\<open>weighted_lru_rp.cc\<close>), least frequently used (\<open>lfu_rp.cc\<close>) and random
  replacement (\<open>random_rp.cc\<close>).  All of them assert that there is at least one candidate.
\<close>

section \<open>Least recently used\<close>

record lru_repl_data = replacement_data +
  lastTouchTick :: tick

definition lru_instantiateEntry :: "replaceable_entry option \<Rightarrow> lru_repl_data" where
  "lru_instantiateEntry e0 = \<lparr>rd_entry = e0, lastTouchTick = 0\<rparr>"

definition lru_invalidate :: "'a lru_repl_data_scheme \<Rightarrow> 'a lru_repl_data_scheme" where
  "lru_invalidate d = d\<lparr>lastTouchTick := 0\<rparr>"

definition lru_touch :: "tick \<Rightarrow> 'a lru_repl_data_scheme \<Rightarrow> 'a lru_repl_data_scheme" where
  "lru_touch now d = d\<lparr>lastTouchTick := now\<rparr>"

definition lru_reset :: "tick \<Rightarrow> 'a lru_repl_data_scheme \<Rightarrow> 'a lru_repl_data_scheme" where
  "lru_reset now d = d\<lparr>lastTouchTick := now\<rparr>"

definition lru_getVictim :: "'a lru_repl_data_scheme list \<Rightarrow> nat res" where
  "lru_getVictim ds =
     checkR AssertFail (ds \<noteq> []) (Inr (scan_best (\<lambda>c v. lastTouchTick c < lastTouchTick v) ds))"

section \<open>Bimodal insertion\<close>

text \<open>\<open>BIP\<close> inherits everything from \<open>LRU\<close> but \<open>reset\<close>.\<close>

definition bip_reset ::
  "uint32 \<Rightarrow> tick \<Rightarrow> rng \<Rightarrow> lru_repl_data \<Rightarrow> (rng \<times> lru_repl_data) res" where
  "bip_reset btp now g d =
     bindR (rng_random 1 100 g) (\<lambda>(r, g').
     if r \<le> btp then Inr (g', d\<lparr>lastTouchTick := now\<rparr>)
     else Inr (g', d\<lparr>lastTouchTick := 1\<rparr>))"

section \<open>Weighted LRU\<close>

record weighted_lru_repl_data = lru_repl_data +
  last_occ_ptr :: int

definition weighted_lru_instantiateEntry ::
  "replaceable_entry option \<Rightarrow> weighted_lru_repl_data" where
  "weighted_lru_instantiateEntry e0 = \<lparr>rd_entry = e0, lastTouchTick = 0, last_occ_ptr = 0\<rparr>"

definition weighted_lru_touch ::
  "tick \<Rightarrow> int \<Rightarrow> weighted_lru_repl_data \<Rightarrow> weighted_lru_repl_data" where
  "weighted_lru_touch now occupancy d = (lru_touch now d)\<lparr>last_occ_ptr := occupancy\<rparr>"

definition weighted_lru_better ::
  "weighted_lru_repl_data \<Rightarrow> weighted_lru_repl_data \<Rightarrow> bool" where
  "weighted_lru_better c v =
     (if last_occ_ptr c < last_occ_ptr v then True
      else if last_occ_ptr c = last_occ_ptr v then lastTouchTick c < lastTouchTick v
      else False)"

definition weighted_lru_getVictim :: "weighted_lru_repl_data list \<Rightarrow> nat res" where
  "weighted_lru_getVictim ds =
     checkR AssertFail (ds \<noteq> []) (Inr (scan_best weighted_lru_better ds))"

section \<open>Most recently used\<close>

record mru_repl_data = replacement_data +
  mru_lastTouchTick :: tick

definition mru_instantiateEntry :: "replaceable_entry option \<Rightarrow> mru_repl_data" where
  "mru_instantiateEntry e0 = \<lparr>rd_entry = e0, mru_lastTouchTick = 0\<rparr>"

definition mru_invalidate :: "mru_repl_data \<Rightarrow> mru_repl_data" where
  "mru_invalidate d = d\<lparr>mru_lastTouchTick := 0\<rparr>"

definition mru_touch :: "tick \<Rightarrow> mru_repl_data \<Rightarrow> mru_repl_data" where
  "mru_touch now d = d\<lparr>mru_lastTouchTick := now\<rparr>"

definition mru_reset :: "tick \<Rightarrow> mru_repl_data \<Rightarrow> mru_repl_data" where
  "mru_reset now d = d\<lparr>mru_lastTouchTick := now\<rparr>"

fun mru_loop :: "nat \<times> mru_repl_data \<Rightarrow> nat \<Rightarrow> mru_repl_data list \<Rightarrow> nat" where
  "mru_loop (v, dv) i [] = v"
| "mru_loop (v, dv) i (d # ds) =
     (if mru_lastTouchTick d = 0 then i
      else if mru_lastTouchTick d > mru_lastTouchTick dv then mru_loop (i, d) (Suc i) ds
      else mru_loop (v, dv) (Suc i) ds)"

definition mru_getVictim :: "mru_repl_data list \<Rightarrow> nat res" where
  "mru_getVictim ds = checkR AssertFail (ds \<noteq> []) (Inr (mru_loop (0, hd ds) 0 ds))"

section \<open>Least frequently used\<close>

record lfu_repl_data = replacement_data +
  refCount :: uint32

definition lfu_instantiateEntry :: "replaceable_entry option \<Rightarrow> lfu_repl_data" where
  "lfu_instantiateEntry e0 = \<lparr>rd_entry = e0, refCount = 0\<rparr>"

definition lfu_invalidate :: "lfu_repl_data \<Rightarrow> lfu_repl_data" where
  "lfu_invalidate d = d\<lparr>refCount := 0\<rparr>"

definition lfu_touch :: "lfu_repl_data \<Rightarrow> lfu_repl_data" where
  "lfu_touch d = d\<lparr>refCount := refCount d + 1\<rparr>"

definition lfu_reset :: "lfu_repl_data \<Rightarrow> lfu_repl_data" where
  "lfu_reset d = d\<lparr>refCount := 1\<rparr>"

definition lfu_getVictim :: "lfu_repl_data list \<Rightarrow> nat res" where
  "lfu_getVictim ds =
     checkR AssertFail (ds \<noteq> []) (Inr (scan_best (\<lambda>c v. refCount c < refCount v) ds))"

section \<open>Random\<close>

record random_repl_data = replacement_data +
  random_valid :: bool

definition random_instantiateEntry :: "replaceable_entry option \<Rightarrow> random_repl_data" where
  "random_instantiateEntry e0 = \<lparr>rd_entry = e0, random_valid = False\<rparr>"

definition random_invalidate :: "random_repl_data \<Rightarrow> random_repl_data" where
  "random_invalidate d = d\<lparr>random_valid := False\<rparr>"

definition random_touch :: "random_repl_data \<Rightarrow> random_repl_data" where
  "random_touch d = d"

definition random_reset :: "random_repl_data \<Rightarrow> random_repl_data" where
  "random_reset d = d\<lparr>random_valid := True\<rparr>"

fun random_findInvalid :: "nat \<Rightarrow> nat \<Rightarrow> random_repl_data list \<Rightarrow> nat" where
  "random_findInvalid victim i [] = victim"
| "random_findInvalid victim i (d # ds) =
     (if \<not> random_valid d then i else random_findInvalid victim (Suc i) ds)"

definition random_getVictim :: "rng \<Rightarrow> random_repl_data list \<Rightarrow> (rng \<times> nat) res" where
  "random_getVictim g ds =
     checkR AssertFail (ds \<noteq> [])
       (bindR (rng_random 0 (of_nat (length ds - 1)) g) (\<lambda>(r, g').
        bindR (vec_at ds (unat r)) (\<lambda>_.
        Inr (g', random_findInvalid (unat r) 0 ds))))"

section \<open>Victims\<close>

lemma lru_victim_least:
  "ds \<noteq> [] \<Longrightarrow> \<exists>k. lru_getVictim ds = Inr k \<and> least_at lastTouchTick ds k"
  by (simp add: lru_getVictim_def scan_best_least)

lemma lfu_victim_least: "ds \<noteq> [] \<Longrightarrow> \<exists>k. lfu_getVictim ds = Inr k \<and> least_at refCount ds k"
  by (simp add: lfu_getVictim_def scan_best_least)

lemma weighted_lru_better_key:
  "weighted_lru_better = (\<lambda>c v. (last_occ_ptr c, lastTouchTick c) < (last_occ_ptr v, lastTouchTick v))"
  by (auto simp: fun_eq_iff weighted_lru_better_def)

lemma weighted_lru_victim_least:
  "ds \<noteq> [] \<Longrightarrow> \<exists>k. weighted_lru_getVictim ds = Inr k \<and>
     least_at (\<lambda>d. (last_occ_ptr d, lastTouchTick d)) ds k"
  using scan_best_least [of ds "\<lambda>d. (last_occ_ptr d, lastTouchTick d)",
      folded weighted_lru_better_key]
  by (simp add: weighted_lru_getVictim_def)

text \<open>The MRU loop: the first candidate never touched, or else the first most recently touched.\<close>

definition greatest_at :: "('d \<Rightarrow> 'k::linorder) \<Rightarrow> 'd list \<Rightarrow> nat \<Rightarrow> bool" where
  "greatest_at key ds k \<longleftrightarrow> k < length ds \<and>
     (\<forall>j < length ds. key (ds ! j) \<le> key (ds ! k)) \<and> (\<forall>j < k. key (ds ! j) < key (ds ! k))"

definition mru_choice :: "mru_repl_data list \<Rightarrow> nat \<Rightarrow> bool" where
  "mru_choice ds k \<longleftrightarrow> k < length ds \<and>
     (if \<exists>d \<in> set ds. mru_lastTouchTick d = 0
      then mru_lastTouchTick (ds ! k) = 0 \<and> (\<forall>j < k. mru_lastTouchTick (ds ! j) \<noteq> 0)
      else greatest_at mru_lastTouchTick ds k)"

lemma mru_loop_choice:
  assumes "greatest_at mru_lastTouchTick pre v" "\<forall>d \<in> set pre. mru_lastTouchTick d \<noteq> 0"
  shows "mru_choice (pre @ ds) (mru_loop (v, pre ! v) (length pre) ds)"
  using assms
proof (induction ds arbitrary: pre v)
  case Nil
  then show ?case by (auto simp: mru_choice_def greatest_at_def)
next
  case (Cons d ds)
  show ?case
  proof (cases "mru_lastTouchTick d = 0")
    case True
    with Cons.prems(2) show ?thesis by (auto simp: mru_choice_def nth_append)
  next
    case False
    let ?v = "if mru_lastTouchTick d > mru_lastTouchTick (pre ! v) then length pre else v"
    have step: "greatest_at mru_lastTouchTick (pre @ [d]) ?v"
      using Cons.prems(1) unfolding greatest_at_def
      by (auto simp: nth_append less_Suc_eq not_less intro: less_imp_le le_less_trans)
    have "v < length pre" using Cons.prems(1) by (simp add: greatest_at_def)
    then have nth: "(pre @ [d]) ! ?v = (if mru_lastTouchTick d > mru_lastTouchTick (pre ! v) then d else pre ! v)"
      by (simp add: nth_append)
    show ?thesis
      using Cons.IH [OF step, unfolded nth] Cons.prems(2) False
      by (cases "mru_lastTouchTick d > mru_lastTouchTick (pre ! v)") simp_all
  qed
qed

lemma mru_victim_choice:
  assumes "ds \<noteq> []"
  shows "\<exists>k. mru_getVictim ds = Inr k \<and> mru_choice ds k"
proof (cases ds)
  case (Cons d rest)
  show ?thesis
  proof (cases "mru_lastTouchTick d = 0")
    case True
    then show ?thesis by (simp add: Cons mru_getVictim_def mru_choice_def)
  next
    case False
    then show ?thesis
      using mru_loop_choice [of "[d]" 0 rest]
      by (simp add: Cons mru_getVictim_def greatest_at_def)
  qed
qed (use assms in simp)

lemma random_findInvalid_all: "\<forall>d \<in> set ds. random_valid d \<Longrightarrow> random_findInvalid v i ds = v"
  by (induction ds arbitrary: i) auto

lemma random_findInvalid_first:
  assumes "\<forall>d \<in> set pre. random_valid d" "\<exists>d \<in> set ds. \<not> random_valid d"
    and "k = random_findInvalid v (length pre) ds"
  shows "k < length (pre @ ds) \<and> \<not> random_valid ((pre @ ds) ! k) \<and>
     (\<forall>j < k. random_valid ((pre @ ds) ! j))"
  using assms
proof (induction ds arbitrary: pre)
  case (Cons d ds)
  show ?case
  proof (cases "random_valid d")
    case True
    with Cons.IH [of "pre @ [d]"] Cons.prems show ?thesis by simp
  next
    case False
    with Cons.prems show ?thesis by (simp add: nth_append)
  qed
qed simp

lemma random_index:
  assumes "ds \<noteq> []" "length ds < 2 ^ 31"
  shows "\<exists>r. rng_random 0 (of_nat (length ds - 1)) g = Inr (r, snd (rng_gen g)) \<and> unat r < length ds"
proof -
  let ?mx = "of_nat (length ds - 1) :: uint32"
  have mx: "unat ?mx = length ds - 1"
    using assms(2) by (simp add: unat_of_nat)
  have "unat (?mx - 0 + 1) = length ds"
    using mx assms by (simp add: unat_word_ariths)
  then have "?mx - 0 + 1 \<noteq> 0" using assms(1) by force
  then obtain r where r: "rng_random 0 ?mx g = Inr (r, snd (rng_gen g))" "r \<le> ?mx"
    using rng_random_bounds [of 0 ?mx g] by auto
  have "unat r \<le> length ds - 1" using r(2) mx by (simp add: word_le_nat_alt)
  with assms(1) have "unat r < length ds" by (cases ds) auto
  with r show ?thesis by auto
qed

lemma random_victim_choice:
  assumes "ds \<noteq> []" "length ds < 2 ^ 31"
  shows "\<exists>k. random_getVictim g ds = Inr (snd (rng_gen g), k) \<and> k < length ds \<and>
     ((\<exists>d \<in> set ds. \<not> random_valid d) \<longrightarrow>
        \<not> random_valid (ds ! k) \<and> (\<forall>j < k. random_valid (ds ! j)))"
proof -
  obtain r where r: "rng_random 0 (of_nat (length ds - 1)) g = Inr (r, snd (rng_gen g))"
      and lt: "unat r < length ds"
    using random_index [OF assms] by blast
  define k where "k = random_findInvalid (unat r) 0 ds"
  have run: "random_getVictim g ds = Inr (snd (rng_gen g), k)"
    using assms(1) r lt by (simp add: random_getVictim_def k_def)
  show ?thesis
  proof (cases "\<forall>d \<in> set ds. random_valid d")
    case True
    with run lt show ?thesis by (auto simp: k_def random_findInvalid_all)
  next
    case False
    then have "k < length ds \<and> \<not> random_valid (ds ! k) \<and> (\<forall>j < k. random_valid (ds ! j))"
      using random_findInvalid_first [of "[]" ds k "unat r"] by (auto simp: k_def)
    with run show ?thesis by blast
  qed
qed

section \<open>The policies as instances of the interface\<close>

definition lru_rp :: "(unit, unit lru_repl_data_ext) rp" where
  "lru_rp = \<lparr>rp_instantiateEntry = (\<lambda>e0 s. (s, lru_instantiateEntry e0)),
     rp_invalidate = (\<lambda>s d. Inr (s, lru_invalidate d)),
     rp_touch = (\<lambda>now s d. Inr (s, lru_touch now d)),
     rp_reset = (\<lambda>now s d. Inr (s, lru_reset now d)),
     rp_getVictim = (\<lambda>now. pure_victim lru_getVictim)\<rparr>"

definition bip_rp :: "uint32 \<Rightarrow> (rng, unit lru_repl_data_ext) rp" where
  "bip_rp btp = \<lparr>rp_instantiateEntry = (\<lambda>e0 s. (s, lru_instantiateEntry e0)),
     rp_invalidate = (\<lambda>s d. Inr (s, lru_invalidate d)),
     rp_touch = (\<lambda>now s d. Inr (s, lru_touch now d)),
     rp_reset = (\<lambda>now s d. bip_reset btp now s d),
     rp_getVictim = (\<lambda>now. pure_victim lru_getVictim)\<rparr>"

definition weighted_lru_rp ::
  "(unit, unit weighted_lru_repl_data_ext lru_repl_data_ext) rp" where
  "weighted_lru_rp = \<lparr>rp_instantiateEntry = (\<lambda>e0 s. (s, weighted_lru_instantiateEntry e0)),
     rp_invalidate = (\<lambda>s d. Inr (s, lru_invalidate d)),
     rp_touch = (\<lambda>now s d. Inr (s, lru_touch now d)),
     rp_reset = (\<lambda>now s d. Inr (s, lru_reset now d)),
     rp_getVictim = (\<lambda>now. pure_victim weighted_lru_getVictim)\<rparr>"

definition mru_rp :: "(unit, unit mru_repl_data_ext) rp" where
  "mru_rp = \<lparr>rp_instantiateEntry = (\<lambda>e0 s. (s, mru_instantiateEntry e0)),
     rp_invalidate = (\<lambda>s d. Inr (s, mru_invalidate d)),
     rp_touch = (\<lambda>now s d. Inr (s, mru_touch now d)),
     rp_reset = (\<lambda>now s d. Inr (s, mru_reset now d)),
     rp_getVictim = (\<lambda>now. pure_victim mru_getVictim)\<rparr>"

definition lfu_rp :: "(unit, unit lfu_repl_data_ext) rp" where
  "lfu_rp = \<lparr>rp_instantiateEntry = (\<lambda>e0 s. (s, lfu_instantiateEntry e0)),
     rp_invalidate = (\<lambda>s d. Inr (s, lfu_invalidate d)),
     rp_touch = (\<lambda>now s d. Inr (s, lfu_touch d)),
     rp_reset = (\<lambda>now s d. Inr (s, lfu_reset d)),
     rp_getVictim = (\<lambda>now. pure_victim lfu_getVictim)\<rparr>"

definition random_rp :: "(rng, unit random_repl_data_ext) rp" where
  "random_rp = \<lparr>rp_instantiateEntry = (\<lambda>e0 s. (s, random_instantiateEntry e0)),
     rp_invalidate = (\<lambda>s d. Inr (s, random_invalidate d)),
     rp_touch = (\<lambda>now s d. Inr (s, random_touch d)),
     rp_reset = (\<lambda>now s d. Inr (s, random_reset d)),
     rp_getVictim = (\<lambda>now g cs.
       bindR (random_getVictim g (map snd cs)) (\<lambda>(g', k). Inr (g', map snd cs, Some k)))\<rparr>"

lemmas recency_rp_defs = lru_rp_def bip_rp_def weighted_lru_rp_def mru_rp_def lfu_rp_def random_rp_def

lemma victim_in_range:
  "ds \<noteq> [] \<Longrightarrow> \<exists>k. lru_getVictim ds = Inr k \<and> k < length ds"
  "es \<noteq> [] \<Longrightarrow> \<exists>k. weighted_lru_getVictim es = Inr k \<and> k < length es"
  "ms \<noteq> [] \<Longrightarrow> \<exists>k. mru_getVictim ms = Inr k \<and> k < length ms"
  "fs \<noteq> [] \<Longrightarrow> \<exists>k. lfu_getVictim fs = Inr k \<and> k < length fs"
  using lru_victim_least [of ds] weighted_lru_victim_least [of es] mru_victim_choice [of ms]
    lfu_victim_least [of fs]
  by (auto simp: least_at_def mru_choice_def)

lemma bip_reset_ok: "\<exists>r. bip_reset btp now g d = Inr r"
proof -
  obtain r g' where "rng_random 1 100 g = Inr (r, g')"
    using rng_random_bounds [of 1 100 g] by auto
  then show ?thesis by (simp add: bip_reset_def)
qed

interpretation lru: total_policy lru_rp "\<lambda>_. True" "\<lambda>_. True"
  by (rule total_policy_pureI [where f = lru_getVictim]) (simp_all add: lru_rp_def victim_in_range)

interpretation bip: total_policy "bip_rp btp" "\<lambda>_. True" "\<lambda>_. True" for btp
  by (rule total_policy_pureI [where f = lru_getVictim])
     (auto simp: bip_rp_def victim_in_range intro: bip_reset_ok simp del: split_paired_Ex)

interpretation weighted_lru: total_policy weighted_lru_rp "\<lambda>_. True" "\<lambda>_. True"
  by (rule total_policy_pureI [where f = weighted_lru_getVictim])
     (simp_all add: weighted_lru_rp_def victim_in_range)

interpretation mru: total_policy mru_rp "\<lambda>_. True" "\<lambda>_. True"
  by (rule total_policy_pureI [where f = mru_getVictim]) (simp_all add: mru_rp_def victim_in_range)

interpretation lfu: total_policy lfu_rp "\<lambda>_. True" "\<lambda>_. True"
  by (rule total_policy_pureI [where f = lfu_getVictim]) (simp_all add: lfu_rp_def victim_in_range)

lemma random_rp_victim:
  assumes "cs \<noteq> []" "length cs < 2 ^ 31"
  shows "\<exists>g' ds' i. rp_getVictim random_rp now g cs = Inr (g', ds', Some i) \<and> i < length cs \<and>
    length ds' = length cs"
proof -
  obtain k where "random_getVictim g (map snd cs) = Inr (snd (rng_gen g), k)" "k < length cs"
    using random_victim_choice [of "map snd cs" g] assms by auto
  then show ?thesis by (simp add: random_rp_def)
qed

interpretation random: total_policy random_rp "\<lambda>_. True" "\<lambda>_. True"
proof (rule total_policy_trivialI)
  show "\<exists>g' ds' i. rp_getVictim random_rp now g cs = Inr (g', ds', Some i) \<and> i < length cs \<and>
      length ds' = length cs" if "cs \<noteq> []" "length cs < 2 ^ 31" for now g cs
    using that by (rule random_rp_victim)
qed (auto simp: random_rp_def)

section \<open>LRU keeps a recency stack\<close>

text \<open>
  The abstract view of a set under LRU is the list of its blocks from the least to the most
  recently used one.  \<open>lru_access\<close> is one access of the cache to block \<open>i\<close>, a
  \<open>touch\<close> at the tick of the access; abstractly it moves the block to the end.
\<close>

definition lru_access :: "tick \<times> nat \<Rightarrow> 'a lru_repl_data_scheme list \<Rightarrow> 'a lru_repl_data_scheme list" where
  "lru_access a ds = ds[snd a := lru_touch (fst a) (ds ! snd a)]"

lemma lru_victim_hd_order:
  "ds \<noteq> [] \<Longrightarrow> lru_getVictim ds = Inr (hd (order_by lastTouchTick ds))"
  by (simp add: lru_getVictim_def scan_best_hd_order)

lemma lru_access_order:
  assumes "snd a < length ds" "\<forall>d \<in> set ds. lastTouchTick d < fst a"
  shows "order_by lastTouchTick (lru_access a ds) = move_last (snd a) (order_by lastTouchTick ds)"
  unfolding lru_access_def using assms by (intro order_by_update_max) (auto simp: lru_touch_def)

definition lru_run :: "(tick \<times> nat) list \<Rightarrow> 'a lru_repl_data_scheme list \<Rightarrow> 'a lru_repl_data_scheme list" where
  "lru_run accs ds = fold lru_access accs ds"

lemma lru_run_simps [simp]:
  "lru_run [] ds = ds" "lru_run (a # accs) ds = lru_run accs (lru_access a ds)"
  by (simp_all add: lru_run_def)

lemma lru_access_newest:
  assumes "\<forall>d \<in> set ds. lastTouchTick d < fst a" "fst a < now"
  shows "\<forall>d \<in> set (lru_access a ds). lastTouchTick d < now"
proof
  fix d assume "d \<in> set (lru_access a ds)"
  then have "d = lru_touch (fst a) (ds ! snd a) \<or> d \<in> set ds"
    by (auto simp: lru_access_def dest: set_list_updateD)
  then show "lastTouchTick d < now" using assms by (auto simp: lru_touch_def)
qed

lemma lru_run_order:
  assumes "sorted_wrt (\<lambda>a b. fst a < fst b) accs" "\<forall>a \<in> set accs. snd a < length ds"
    and "\<forall>a \<in> set accs. \<forall>d \<in> set ds. lastTouchTick d < fst a"
  shows "order_by lastTouchTick (lru_run accs ds) = fold move_last (map snd accs) (order_by lastTouchTick ds) \<and>
    length (lru_run accs ds) = length ds"
  using assms
proof (induction accs arbitrary: ds)
  case (Cons a accs)
  have "\<forall>b \<in> set accs. \<forall>d \<in> set (lru_access a ds). lastTouchTick d < fst b"
    using Cons.prems lru_access_newest [of ds a] by auto
  moreover have len: "length (lru_access a ds) = length ds" by (simp add: lru_access_def)
  ultimately show ?case
    using Cons.IH [of "lru_access a ds"] Cons.prems lru_access_order [of a ds] by simp
qed simp

text \<open>
  C25. LRU implements the textbook recency stack.  Whatever the accesses to the blocks of a set,
  as long as each happens at a later tick than the ones before, the block that
  \<open>LRU::getVictim\<close> returns is the bottom of the stack in which every access moves its block to
  the top.
\<close>

theorem lru_implements_recency_stack:
  assumes "ds \<noteq> []" "sorted_wrt (\<lambda>a b. fst a < fst b) accs" "\<forall>a \<in> set accs. snd a < length ds"
    and "\<forall>a \<in> set accs. \<forall>d \<in> set ds. lastTouchTick d < fst a"
  shows "lru_getVictim (lru_run accs ds) = Inr (hd (fold move_last (map snd accs) (order_by lastTouchTick ds)))"
proof -
  note run = lru_run_order [OF assms(2-4)]
  then have "lru_run accs ds \<noteq> []" using assms(1) by auto
  from lru_victim_hd_order [OF this] run show ?thesis by simp
qed

definition ex_lru :: "lru_repl_data list" where
  "ex_lru = map (\<lambda>t. \<lparr>rd_entry = None, lastTouchTick = t\<rparr>) [3, 1, 2]"

theorem lru_implements_recency_stack_witness:
  "lru_getVictim (lru_run [(4, 1), (6, 2), (9, 1)] ex_lru) = Inr (0 :: nat)"
proof -
  have "order_by lastTouchTick ex_lru = [1, 2, 0]"
    by (rule order_by_unique) (auto simp: ex_lru_def)
  then show ?thesis
    using lru_implements_recency_stack [of ex_lru "[(4, 1), (6, 2), (9, 1)]"]
    by (simp add: ex_lru_def move_last_def)
qed

end
