(* ===== verification/Fifo_RP.thy ===== *)
theory Fifo_RP
  imports Repl_Policy
begin

text \<open>
  First in, first out (\<open>fifo_rp.cc\<close>) and second chance (\<open>second_chance_rp.cc\<close>), which
  extends it.  Both order the blocks by a counter of the policy object, \<open>timeTicks\<close>, that is
  incremented at every insertion and invalidation.  The member is never initialised, so the
  theorems hold for any initial value that is not about to wrap.
\<close>

section \<open>First in, first out\<close>

record fifo_repl_data = replacement_data +
  tickInserted :: tick

record fifo_state =
  timeTicks :: tick

definition fifo_instantiateEntry :: "replaceable_entry option \<Rightarrow> fifo_repl_data" where
  "fifo_instantiateEntry e0 = \<lparr>rd_entry = e0, tickInserted = 0\<rparr>"

definition fifo_invalidate ::
  "fifo_state \<Rightarrow> 'a fifo_repl_data_scheme \<Rightarrow> fifo_state \<times> 'a fifo_repl_data_scheme" where
  "fifo_invalidate s d =
     (let s' = s\<lparr>timeTicks := timeTicks s + 1\<rparr> in (s', d\<lparr>tickInserted := timeTicks s'\<rparr>))"

definition fifo_touch :: "'a fifo_repl_data_scheme \<Rightarrow> 'a fifo_repl_data_scheme" where
  "fifo_touch d = d"

definition fifo_reset ::
  "fifo_state \<Rightarrow> 'a fifo_repl_data_scheme \<Rightarrow> fifo_state \<times> 'a fifo_repl_data_scheme" where
  "fifo_reset s d =
     (let s' = s\<lparr>timeTicks := timeTicks s + 1\<rparr> in (s', d\<lparr>tickInserted := timeTicks s'\<rparr>))"

definition fifo_getVictim :: "'a fifo_repl_data_scheme list \<Rightarrow> nat res" where
  "fifo_getVictim ds =
     checkR AssertFail (ds \<noteq> []) (Inr (scan_best (\<lambda>c v. tickInserted c < tickInserted v) ds))"

section \<open>Second chance\<close>

record second_chance_repl_data = fifo_repl_data +
  hasSecondChance :: bool

definition second_chance_instantiateEntry ::
  "replaceable_entry option \<Rightarrow> second_chance_repl_data" where
  "second_chance_instantiateEntry e0 =
     \<lparr>rd_entry = e0, tickInserted = 0, hasSecondChance = False\<rparr>"

definition useSecondChance ::
  "fifo_state \<Rightarrow> second_chance_repl_data \<Rightarrow> fifo_state \<times> second_chance_repl_data" where
  "useSecondChance s d =
     (let (s', d') = fifo_reset s d in (s', d'\<lparr>hasSecondChance := False\<rparr>))"

definition second_chance_invalidate ::
  "fifo_state \<Rightarrow> second_chance_repl_data \<Rightarrow> fifo_state \<times> second_chance_repl_data" where
  "second_chance_invalidate s d =
     (let (s', d') = fifo_invalidate s d in (s', d'\<lparr>hasSecondChance := False\<rparr>))"

definition second_chance_touch :: "second_chance_repl_data \<Rightarrow> second_chance_repl_data" where
  "second_chance_touch d = (fifo_touch d)\<lparr>hasSecondChance := True\<rparr>"

definition second_chance_reset ::
  "fifo_state \<Rightarrow> second_chance_repl_data \<Rightarrow> fifo_state \<times> second_chance_repl_data" where
  "second_chance_reset s d =
     (let (s', d') = fifo_reset s d in (s', d'\<lparr>hasSecondChance := False\<rparr>))"

fun second_chance_findInvalid :: "nat \<Rightarrow> second_chance_repl_data list \<Rightarrow> nat option" where
  "second_chance_findInvalid i [] = None"
| "second_chance_findInvalid i (d # ds) =
     (if tickInserted d = 0 \<and> \<not> hasSecondChance d then Some i
      else second_chance_findInvalid (Suc i) ds)"

text \<open>
  The loop \<open>while (search_victim)\<close>: each round that does not end it clears the flag of one
  candidate, so it ends.
\<close>

definition chances :: "second_chance_repl_data list \<Rightarrow> nat" where
  "chances ds = length (filter hasSecondChance ds)"

lemma length_filter_clear:
  assumes "i < length xs" "P (xs ! i)" "\<not> P x"
  shows "length (filter P xs) = Suc (length (filter P (xs[i := x])))"
proof -
  have "length (filter P (take i xs @ xs ! i # drop (Suc i) xs)) =
      Suc (length (filter P (take i xs @ x # drop (Suc i) xs)))"
    using assms(2,3) by simp
  then show ?thesis
    using assms(1) by (simp add: upd_conv_take_nth_drop flip: id_take_nth_drop)
qed

lemma useSecondChance_fields [simp]:
  "hasSecondChance (snd (useSecondChance s d)) = False"
  "tickInserted (snd (useSecondChance s d)) = timeTicks s + 1"
  "timeTicks (fst (useSecondChance s d)) = timeTicks s + 1"
  by (simp_all add: useSecondChance_def fifo_reset_def)

lemma chances_update:
  assumes "v < length ds" "hasSecondChance (ds ! v)"
  shows "Suc (chances (ds[v := snd (useSecondChance s (ds ! v))])) = chances ds"
  unfolding chances_def by (rule sym, rule length_filter_clear) (simp_all add: assms)

function second_chance_search ::
  "fifo_state \<Rightarrow> second_chance_repl_data list
   \<Rightarrow> (fifo_state \<times> second_chance_repl_data list \<times> nat) res" where
  "second_chance_search s ds =
     (case fifo_getVictim ds of
        Inl e \<Rightarrow> Inl e
      | Inr v \<Rightarrow>
          if v < length ds \<and> hasSecondChance (ds ! v)
          then second_chance_search (fst (useSecondChance s (ds ! v)))
                 (ds[v := snd (useSecondChance s (ds ! v))])
          else Inr (s, ds, v))"
  by pat_completeness auto
termination
  by (relation "measure (\<lambda>(s, ds). chances ds)") (auto simp: chances_update Suc_le_eq [symmetric])

declare second_chance_search.simps [simp del]

definition second_chance_getVictim ::
  "fifo_state \<Rightarrow> second_chance_repl_data list
   \<Rightarrow> (fifo_state \<times> second_chance_repl_data list \<times> nat) res" where
  "second_chance_getVictim s ds =
     checkR AssertFail (ds \<noteq> [])
       (case second_chance_findInvalid 0 ds of
          Some i \<Rightarrow> Inr (s, ds, i)
        | None \<Rightarrow> second_chance_search s ds)"

section \<open>FIFO is a queue\<close>

lemma fifo_victim_hd_order:
  "ds \<noteq> [] \<Longrightarrow> fifo_getVictim ds = Inr (hd (order_by tickInserted ds))"
  by (simp add: fifo_getVictim_def scan_best_hd_order)

lemma fifo_victim_bound: "ds \<noteq> [] \<Longrightarrow> hd (order_by tickInserted ds) < length ds"
  using least_at_hd_order [of ds tickInserted] by (simp add: least_at_def)

text \<open>The counter is ahead of every tick it handed out and does not wrap in the next \<open>n\<close> steps.\<close>

definition fifo_fresh :: "nat \<Rightarrow> fifo_state \<Rightarrow> 'a fifo_repl_data_scheme list \<Rightarrow> bool" where
  "fifo_fresh n s ds \<longleftrightarrow>
     (\<forall>d \<in> set ds. tickInserted d \<le> timeTicks s) \<and> unat (timeTicks s) + n < 2 ^ 64"

lemma fifo_fresh_less:
  assumes "fifo_fresh (Suc n) s ds"
  shows "timeTicks s < timeTicks s + 1" "unat (timeTicks s + 1) = Suc (unat (timeTicks s))"
proof -
  have "unat (timeTicks s + 1) = Suc (unat (timeTicks s))"
    using assms by (simp add: fifo_fresh_def unat_word_ariths)
  then show "unat (timeTicks s + 1) = Suc (unat (timeTicks s))"
    and "timeTicks s < timeTicks s + 1"
    by (simp_all add: word_less_nat_alt)
qed

lemma fifo_stamp_order:
  assumes "fifo_fresh (Suc n) s ds" "i < length ds" "tickInserted d = timeTicks s + 1"
  shows "order_by tickInserted (ds[i := d]) = move_last i (order_by tickInserted ds)"
    and "timeTicks s' = timeTicks s + 1 \<Longrightarrow> fifo_fresh n s' (ds[i := d])"
proof -
  note less = fifo_fresh_less [OF assms(1)]
  have old: "\<forall>x \<in> set ds. tickInserted x < timeTicks s + 1"
    using assms(1) less(1) by (auto simp: fifo_fresh_def)
  then show "order_by tickInserted (ds[i := d]) = move_last i (order_by tickInserted ds)"
    using assms(2,3) by (intro order_by_update_max) auto
  show "fifo_fresh n s' (ds[i := d])" if "timeTicks s' = timeTicks s + 1"
    using assms(1,3) old less(2) that unfolding fifo_fresh_def
    by (auto dest!: set_list_updateD intro: less_imp_le)
qed

datatype fifo_op = FInvalidate nat | FTouch nat | FReset nat

fun fifo_block :: "fifo_op \<Rightarrow> nat" where
  "fifo_block (FInvalidate i) = i"
| "fifo_block (FTouch i) = i"
| "fifo_block (FReset i) = i"

text \<open>One call of the cache on a block of the set, and what it does to the queue.\<close>

fun fifo_apply ::
  "fifo_op \<Rightarrow> fifo_state \<times> 'a fifo_repl_data_scheme list \<Rightarrow> fifo_state \<times> 'a fifo_repl_data_scheme list" where
  "fifo_apply (FInvalidate i) (s, ds) =
     (let (s', d') = fifo_invalidate s (ds ! i) in (s', ds[i := d']))"
| "fifo_apply (FTouch i) (s, ds) = (s, ds[i := fifo_touch (ds ! i)])"
| "fifo_apply (FReset i) (s, ds) =
     (let (s', d') = fifo_reset s (ds ! i) in (s', ds[i := d']))"

fun queue_apply :: "fifo_op \<Rightarrow> nat list \<Rightarrow> nat list" where
  "queue_apply (FInvalidate i) q = move_last i q"
| "queue_apply (FTouch i) q = q"
| "queue_apply (FReset i) q = move_last i q"

lemma fifo_apply_order:
  assumes "fifo_fresh (Suc n) s ds" "fifo_block f < length ds" "fifo_apply f (s, ds) = (s', ds')"
  shows "order_by tickInserted ds' = queue_apply f (order_by tickInserted ds) \<and>
    fifo_fresh n s' ds' \<and> length ds' = length ds"
proof (cases f)
  case (FInvalidate i)
  with assms fifo_stamp_order [OF assms(1), of i] show ?thesis
    by (auto simp: fifo_invalidate_def Let_def)
next
  case (FTouch i)
  with assms show ?thesis by (auto simp: fifo_touch_def fifo_fresh_def)
next
  case (FReset i)
  with assms fifo_stamp_order [OF assms(1), of i] show ?thesis
    by (auto simp: fifo_reset_def Let_def)
qed

lemma fifo_run_order:
  assumes "fifo_fresh (length fs) s ds" "\<forall>f \<in> set fs. fifo_block f < length ds"
    and "fold fifo_apply fs (s, ds) = (s', ds')"
  shows "order_by tickInserted ds' = fold queue_apply fs (order_by tickInserted ds) \<and>
    length ds' = length ds"
  using assms
proof (induction fs arbitrary: s ds)
  case (Cons f fs)
  obtain s1 ds1 where step: "fifo_apply f (s, ds) = (s1, ds1)" by fastforce
  have "order_by tickInserted ds1 = queue_apply f (order_by tickInserted ds) \<and>
      fifo_fresh (length fs) s1 ds1 \<and> length ds1 = length ds"
    using fifo_apply_order [OF _ _ step, of "length fs"] Cons.prems by simp
  with Cons.IH [of s1 ds1] Cons.prems step show ?case by simp
qed simp

text \<open>
  C28. FIFO is a queue: after any sequence of calls to \<open>invalidate\<close>, \<open>touch\<close> and
  \<open>reset\<close> on the blocks of a set, \<open>getVictim\<close> returns the front of the queue in which a
  reset block goes to the back and a touch changes nothing.  An invalidated block goes to the back
  too: the header of \<open>FIFO::invalidate\<close> promises the opposite, the next probable victim.
\<close>

theorem fifo_is_queue:
  assumes "ds \<noteq> []" "fifo_fresh (length fs) s ds" "\<forall>f \<in> set fs. fifo_block f < length ds"
  shows "fifo_getVictim (snd (fold fifo_apply fs (s, ds))) =
    Inr (hd (fold queue_apply fs (order_by tickInserted ds)))"
proof -
  obtain s' ds' where run: "fold fifo_apply fs (s, ds) = (s', ds')" by fastforce
  note order = fifo_run_order [OF assms(2,3) run]
  then have "ds' \<noteq> []" using assms(1) by auto
  with order run show ?thesis by (simp add: fifo_victim_hd_order)
qed

definition ex_fifo :: "fifo_repl_data list" where
  "ex_fifo = map (\<lambda>t. \<lparr>rd_entry = None, tickInserted = t\<rparr>) [2, 1, 3]"

theorem fifo_is_queue_witness:
  "fifo_getVictim (snd (fold fifo_apply [FTouch 1, FInvalidate 1, FReset 0] (\<lparr>timeTicks = 3\<rparr>, ex_fifo))) =
     Inr (2 :: nat)"
proof -
  have "order_by tickInserted ex_fifo = [1, 0, 2]"
    by (rule order_by_unique) (auto simp: ex_fifo_def)
  then show ?thesis
    using fifo_is_queue [of ex_fifo "[FTouch 1, FInvalidate 1, FReset 0]" "\<lparr>timeTicks = 3\<rparr>"]
    by (simp add: ex_fifo_def move_last_def fifo_fresh_def)
qed

section \<open>Second chance is the clock algorithm\<close>

text \<open>
  The victim among candidates in queue order: the first without a second chance, or the front of
  the queue if all of them have one.
\<close>

definition clock_victim :: "(nat \<Rightarrow> bool) \<Rightarrow> nat list \<Rightarrow> nat" where
  "clock_victim chance q = (case find (\<lambda>i. \<not> chance i) q of Some i \<Rightarrow> i | None \<Rightarrow> hd q)"

lemma clock_victim_rotate:
  assumes "distinct (h # q)" "chance h" "\<forall>i \<in> set q. chance' i = chance i" "\<not> chance' h"
  shows "clock_victim chance' (q @ [h]) = clock_victim chance (h # q)"
proof -
  have "find (\<lambda>i. \<not> chance' i) q = find (\<lambda>i. \<not> chance i) q"
    using assms(3) by (intro find_cong) auto
  moreover have "find P (q @ [h]) = (case find P q of Some i \<Rightarrow> Some i | None \<Rightarrow> if P h then Some h else None)"
    for P by (induction q) auto
  ultimately show ?thesis
    using assms(2,4) by (auto simp: clock_victim_def split: option.splits)
qed

lemma second_chance_search_clock:
  assumes "ds \<noteq> []" "fifo_fresh (chances ds) s ds"
  shows "\<exists>s' ds'. second_chance_search s ds =
    Inr (s', ds', clock_victim (\<lambda>i. hasSecondChance (ds ! i)) (order_by tickInserted ds)) \<and>
    length ds' = length ds"
  using assms
proof (induction s ds rule: second_chance_search.induct)
  case (1 s ds)
  obtain h q where q: "order_by tickInserted ds = h # q"
    using "1.prems"(1) order_by_eq_Nil [of tickInserted ds] by (cases "order_by tickInserted ds") auto
  have h: "h < length ds" using fifo_victim_bound [OF "1.prems"(1)] q by simp
  have vic: "fifo_getVictim ds = Inr h" using fifo_victim_hd_order [OF "1.prems"(1)] q by simp
  show ?case
  proof (cases "hasSecondChance (ds ! h)")
    case False
    then show ?thesis
      using vic q by (subst second_chance_search.simps) (simp add: clock_victim_def)
  next
    case True
    let ?s = "fst (useSecondChance s (ds ! h))" and ?d = "snd (useSecondChance s (ds ! h))"
    have fresh: "fifo_fresh (Suc (chances (ds[h := ?d]))) s ds"
      using "1.prems"(2) chances_update [OF h True, of s] by simp
    note stamp = fifo_stamp_order [OF fresh h useSecondChance_fields(2)]
    have order: "order_by tickInserted (ds[h := ?d]) = q @ [h]"
      using stamp(1) by (simp add: q move_last_def)
    have "distinct (h # q)" using distinct_order_by [of tickInserted ds] q by simp
    then have clock: "clock_victim (\<lambda>i. hasSecondChance (ds[h := ?d] ! i)) (q @ [h]) =
        clock_victim (\<lambda>i. hasSecondChance (ds ! i)) (h # q)"
      using True h by (intro clock_victim_rotate) (auto simp: nth_list_update)
    have "second_chance_search s ds = second_chance_search ?s (ds[h := ?d])"
      using vic True h by (subst second_chance_search.simps) simp
    with "1.IH" [OF vic] True h stamp(2) "1.prems"(1) show ?thesis
      by (simp add: order clock q)
  qed
qed

lemma second_chance_findInvalid_None:
  "\<forall>d \<in> set ds. tickInserted d \<noteq> 0 \<or> hasSecondChance d \<Longrightarrow> second_chance_findInvalid i ds = None"
  by (induction ds arbitrary: i) auto

lemma second_chance_findInvalid_Some:
  "second_chance_findInvalid i ds = Some k \<Longrightarrow> i \<le> k \<and> k - i < length ds"
  by (induction ds arbitrary: i) (fastforce split: if_splits)+


definition ex_second_chance :: "second_chance_repl_data list" where
  "ex_second_chance =
     map (\<lambda>(t, c). \<lparr>rd_entry = None, tickInserted = t, hasSecondChance = c\<rparr>) [(2, True), (1, True), (3, False)]"


section \<open>The policies as instances of the interface\<close>

definition fifo_rp :: "(fifo_state, unit fifo_repl_data_ext) rp" where
  "fifo_rp = \<lparr>rp_instantiateEntry = (\<lambda>e0 s. (s, fifo_instantiateEntry e0)),
     rp_invalidate = (\<lambda>s d. Inr (fifo_invalidate s d)),
     rp_touch = (\<lambda>now s d. Inr (s, fifo_touch d)),
     rp_reset = (\<lambda>now s d. Inr (fifo_reset s d)),
     rp_getVictim = (\<lambda>now. pure_victim fifo_getVictim)\<rparr>"

definition second_chance_rp :: "(fifo_state, unit second_chance_repl_data_ext fifo_repl_data_ext) rp" where
  "second_chance_rp = \<lparr>rp_instantiateEntry = (\<lambda>e0 s. (s, second_chance_instantiateEntry e0)),
     rp_invalidate = (\<lambda>s d. Inr (second_chance_invalidate s d)),
     rp_touch = (\<lambda>now s d. Inr (s, second_chance_touch d)),
     rp_reset = (\<lambda>now s d. Inr (second_chance_reset s d)),
     rp_getVictim = (\<lambda>now s cs.
       bindR (second_chance_getVictim s (map snd cs)) (\<lambda>(s', ds', v). Inr (s', ds', Some v)))\<rparr>"

interpretation fifo: total_policy fifo_rp "\<lambda>_. True" "\<lambda>_. True"
  by (rule total_policy_pureI [where f = fifo_getVictim])
     (simp_all add: fifo_rp_def fifo_victim_hd_order fifo_victim_bound)

text \<open>The search ends with a candidate also when the counter wraps.\<close>

lemma second_chance_search_total:
  "ds \<noteq> [] \<Longrightarrow> \<exists>s' ds' k. second_chance_search s ds = Inr (s', ds', k) \<and> k < length ds \<and>
     length ds' = length ds"
proof (induction s ds rule: second_chance_search.induct)
  case (1 s ds)
  let ?v = "hd (order_by tickInserted ds)"
  note vic = fifo_victim_hd_order [OF "1.prems"] and bound = fifo_victim_bound [OF "1.prems"]
  show ?case
    using "1.IH" [OF vic] "1.prems" bound
    by (subst (1) second_chance_search.simps) (auto simp: vic)
qed

lemma second_chance_victim_total:
  assumes "ds \<noteq> []"
  shows "\<exists>s' ds' k. second_chance_getVictim s ds = Inr (s', ds', k) \<and> k < length ds \<and>
     length ds' = length ds"
proof (cases "second_chance_findInvalid 0 ds")
  case None
  then show ?thesis
    using second_chance_search_total [OF assms, of s] assms by (simp add: second_chance_getVictim_def)
next
  case (Some k)
  then show ?thesis
    using second_chance_findInvalid_Some [OF Some] assms by (simp add: second_chance_getVictim_def)
qed

interpretation second_chance: total_policy second_chance_rp "\<lambda>_. True" "\<lambda>_. True"
proof (rule total_policy_trivialI)
  fix now s and cs :: "(replaceable_entry \<times> second_chance_repl_data) list"
  assume "cs \<noteq> []"
  then show "\<exists>s' ds' i. rp_getVictim second_chance_rp now s cs = Inr (s', ds', Some i) \<and>
      i < length cs \<and> length ds' = length cs"
    using second_chance_victim_total [of "map snd cs" s] by (auto simp: second_chance_rp_def)
qed (auto simp: second_chance_rp_def)

end
