(* ===== verification/Cache_Ops.thy ===== *)
theory Cache_Ops
  imports Cache_Inv Arc_System Recency_RP Fifo_RP
begin

text \<open>
  Functional correctness of Ruby's cache operations over the abstract view of the cache, for any
  replacement policy that meets the interface, and its instances for ARC, LRU and FIFO.
\<close>

section \<open>Small steps\<close>

lemma install_same:
  "set_cell l c (set_repl l d (cm\<lparr>m_replacementPolicy := s\<rparr>)) = install (m_tag_index cm) l c d s cm"
  by (simp add: install_def set_cell_def set_repl_def)

lemma install_tagged:
  "set_cell l c (set_repl l d (cm\<lparr>m_tag_index := t, m_replacementPolicy := s\<rparr>)) = install t l c d s cm"
  by (simp add: install_def set_cell_def set_repl_def)

lemma openSlot_first:
  "length row = n \<Longrightarrow> (\<forall>c \<in> set row. \<forall>e. c = Some e \<longrightarrow> m_Permission e \<noteq> NotPresent) \<Longrightarrow>
   None \<in> set row \<Longrightarrow> \<exists>k < n. openSlot i n row = Inr (i + k) \<and> row ! k = None"
proof (induction i n row rule: openSlot.induct)
  case (3 i n c row)
  show ?case
  proof (cases c)
    case None
    then show ?thesis by (intro exI [of _ 0]) simp
  next
    case (Some e)
    then have "m_Permission e \<noteq> NotPresent" "None \<in> set row" using "3.prems" by auto
    moreover obtain k where "k < n" "openSlot (Suc i) n row = Inr (Suc i + k)" "row ! k = None"
      using "3.IH" [OF Some calculation(1)] "3.prems" calculation(2) by auto
    ultimately show ?thesis using Some by (intro exI [of _ "Suc k"]) simp
  qed
qed simp_all

lemma candidates_eq:
  "length row = n \<Longrightarrow> length ds = n \<Longrightarrow> None \<notin> set row \<Longrightarrow>
   candidates n row ds = Inr (zip (map (\<lambda>c. position (the c)) row) ds)"
proof (induction n row ds rule: candidates.induct)
  case (2 n c row d ds)
  then obtain e where "c = Some e" by (cases c) auto
  with 2 show ?case by (simp add: deref_def)
qed simp_all

text \<open>What an access may do with an entry.\<close>

definition may_access :: "cache_entry \<Rightarrow> RubyRequestType \<Rightarrow> bool" where
  "may_access e ty \<longleftrightarrow> m_Permission e = Read_Write \<or>
     m_Permission e = Read_Only \<and> (ty = RubyRequestType_LD \<or> ty = RubyRequestType_IFETCH)"

definition fresh_entry :: "tick \<Rightarrow> addr \<Rightarrow> loc \<Rightarrow> cache_entry \<Rightarrow> cache_entry" where
  "fresh_entry now a l entry = entry\<lparr>m_Address := a, m_Permission := Invalid, m_locked := - 1,
     entry_set := of_nat (fst l), entry_way := of_nat (snd l), m_last_touch_tick := now\<rparr>"

lemma fill_slot_eq:
  assumes "cm_geom cm" "in_range cm l"
  shows "fill_slot P now a entry l cm =
    bindR (rp_reset P now (m_replacementPolicy cm)
        (rdata cm l\<lparr>rd_entry := Some (position (fresh_entry now a l entry))\<rparr>))
      (\<lambda>(s', d'). Inr (install ((m_tag_index cm)(a \<mapsto> snd l)) l (Some (fresh_entry now a l entry)) d' s' cm))"
proof -
  let ?cm = "cm\<lparr>m_tag_index := (m_tag_index cm)(a \<mapsto> snd l)\<rparr>"
  have "repl_at ?cm l = Inr (rdata cm l)"
    using assms by (subst repl_at_eq) (simp_all add: in_range_def)
  then show ?thesis
    by (simp add: fill_slot_def Let_def setPosition_def deref_def install_tagged
        fresh_entry_def setLastAccess_def position_def)
qed

lemma fresh_entry_fields:
  assumes "cm_geom cm" "in_range cm l"
  shows "m_Address (fresh_entry now a l entry) = a" "unat (getSet (fresh_entry now a l entry)) = fst l"
    "unat (getWay (fresh_entry now a l entry)) = snd l" "m_Permission (fresh_entry now a l entry) \<noteq> NotPresent"
    "pos_ok (fresh_entry now a l entry)"
proof -
  have "fst l < 2 ^ 31" "snd l < 2 ^ 31" using assms by (simp_all add: cm_geom_def in_range_def)
  then have u: "unat (of_nat (fst l) :: uint32) = fst l" "unat (of_nat (snd l) :: uint32) = snd l"
    by (simp_all add: unat_of_nat)
  with \<open>fst l < 2 ^ 31\<close> show "pos_ok (fresh_entry now a l entry)"
    by (simp add: pos_ok_def getSet_def fresh_entry_def word_less_nat_alt)
  show "m_Address (fresh_entry now a l entry) = a" "unat (getSet (fresh_entry now a l entry)) = fst l"
    "unat (getWay (fresh_entry now a l entry)) = snd l" "m_Permission (fresh_entry now a l entry) \<noteq> NotPresent"
    using u by (simp_all add: fresh_entry_def getSet_def getWay_def)
qed

text \<open>\<open>getVictim\<close> may update the replacement data of the whole set.\<close>

lemma set_row_inv:
  assumes inv: "cm_inv pinv live cm" and s: "s < m_cache_num_sets cm"
    and ds: "length ds = m_cache_assoc cm" "list_all live ds" "pinv ps"
  defines "cm' \<equiv> cm\<lparr>m_replacementPolicy := ps, m_repl_data := (m_repl_data cm)[s := ds]\<rparr>"
  shows "cm_inv pinv live cm'" "resident cm' = resident cm" "same_shape cm cm'"
proof -
  have shape: "same_shape cm cm'" by (simp add: same_shape_def cm'_def)
  note [simp] = same_shape_simps [OF shape]
  have slot: "slot cm' = slot cm" and tag: "m_tag_index cm' = m_tag_index cm"
    by (simp_all add: cm'_def slot_def fun_eq_iff)
  have assoc: "m_cache_assoc cm' = m_cache_assoc cm" by (simp add: cm'_def)
  have geom: "cm_geom cm'"
    using cm_inv_geom [OF inv] ds(1) s by (auto simp: cm_geom_def cm'_def nth_list_update)
  have len: "s < length (m_repl_data cm)" using cm_inv_geom [OF inv] s by (simp add: cm_geom_def)
  have rd: "rdata cm' l = (if fst l = s then ds ! snd l else rdata cm l)" for l
    using len by (simp add: cm'_def rdata_def)
  have "live (rdata cm' l)" if "in_range cm l" "slot cm l \<noteq> None" for l
    using that slotted(7) [OF inv that(1)] ds(1,2) by (auto simp: rd in_range_def list_all_length)
  then show "cm_inv pinv live cm'"
    using inv ds(3) geom by (simp add: cm_inv_def tags_ok_def slot tag assoc) (simp add: cm'_def)
  show "resident cm' = resident cm" by (simp add: resident_def fun_eq_iff slot tag split: option.split)
  show "same_shape cm cm'" by (rule shape)
qed

text \<open>Changes to entries that keep their slots, one at a time or all at once.\<close>

lemma map_lines_inv:
  assumes inv: "cm_inv pinv live cm" and f: "\<And>e. same_slot e (f e)"
  shows "cm_inv pinv live (map_lines f cm)" "same_shape cm (map_lines f cm)"
    "resident (map_lines f cm) a = map_option f (resident cm a)"
proof -
  let ?cm = "map_lines f cm"
  have shape: "same_shape cm ?cm" by (simp add: same_shape_def map_lines_def)
  note [simp] = same_shape_simps [OF shape]
  have tag: "m_tag_index ?cm = m_tag_index cm" and assoc: "m_cache_assoc ?cm = m_cache_assoc cm"
    and rd: "rdata ?cm = rdata cm" and ps: "m_replacementPolicy ?cm = m_replacementPolicy cm"
    by (simp_all add: map_lines_def rdata_def fun_eq_iff)
  note geom = cm_inv_geom [OF inv]
  have geom': "cm_geom ?cm" using geom by (simp add: cm_geom_def map_lines_def)
  have slot: "slot ?cm l = map_option f (slot cm l)" if "in_range cm l" for l
    using that geom by (simp add: slot_def map_lines_def in_range_def cm_geom_def)
  have tags: "tags_ok ?cm"
    unfolding tags_ok_def
  proof (intro conjI allI impI)
    fix b i assume "m_tag_index ?cm b = Some i"
    then have ix: "m_tag_index cm b = Some i" by (simp add: tag)
    note ix' = indexed [OF inv ix]
    then show "is_line ?cm b" "i < m_cache_assoc ?cm" by (simp_all add: assoc in_range_def)
    show "\<exists>e. slot ?cm (set_of_addr ?cm b, i) = Some e \<and> m_Address e = b"
      using ix'(3) f by (auto simp: slot [OF ix'(1)] same_slot_def)
  next
    fix l e assume "in_range ?cm l \<and> slot ?cm l = Some e"
    then obtain e0 where l: "in_range cm l" "slot cm l = Some e0" "e = f e0"
      using slot [of l] by (cases "slot cm l") auto
    show "m_tag_index ?cm (m_Address e) = Some (snd l)" "set_of_addr ?cm (m_Address e) = fst l"
      "unat (getSet e) = fst l" "unat (getWay e) = snd l" "m_Permission e \<noteq> NotPresent"
      using slotted [OF inv l(1,2)] f [of e0] by (simp_all add: l(3) tag same_slot_def)
  qed
  have "live (rdata cm l)" if "in_range cm l" "slot ?cm l \<noteq> None" for l
    using that slotted(7) [OF inv that(1)] by (auto simp: slot [OF that(1)])
  then show "cm_inv pinv live ?cm" using inv geom' tags by (simp add: cm_inv_def ps rd)
  show "same_shape cm ?cm" by (rule shape)
  show "resident ?cm a = map_option f (resident cm a)"
    using indexed(1) [OF inv, of a] slot by (auto simp: resident_def tag split: option.splits)
qed

lemma on_entry_ok:
  assumes inv: "cm_inv pinv live cm" and res: "resident cm a = Some e" and f: "same_slot e (f e)"
  shows "\<exists>cm'. on_entry f a cm = Inr cm' \<and> cm_inv pinv live cm' \<and> same_shape cm cm' \<and>
    resident cm' = (resident cm)(a \<mapsto> f e)"
proof -
  note geom = cm_inv_geom [OF inv]
  obtain w where w: "m_tag_index cm a = Some w" "in_range cm (set_of_addr cm a, w)"
      "slot cm (set_of_addr cm a, w) = Some e" "m_Address e = a" "is_line cm a"
    using res by (rule resident_Some [OF inv])
  let ?l = "(set_of_addr cm a, w)"
  let ?cm = "install (m_tag_index cm) ?l (Some (f e)) (rdata cm ?l) (m_replacementPolicy cm) cm"
  have "m_repl_data cm ! fst ?l = (m_repl_data cm ! fst ?l)[w := rdata cm ?l]"
    by (simp add: rdata_def)
  then have "set_cell ?l (Some (f e)) cm = ?cm"
    by (simp add: install_def set_cell_def set_repl_def rdata_def)
  then have "on_entry f a cm = Inr ?cm"
    using w by (simp add: on_entry_def lookup_eq [OF inv w(5)] cell_eq [OF geom] deref_def)
  moreover have "pinv (m_replacementPolicy cm)" "live (rdata cm ?l)"
    using inv slotted(7) [OF inv w(2,3)] by (simp_all add: cm_inv_def)
  ultimately show ?thesis using install_update [OF inv w(2,3) f] w(4) by simp
qed

section \<open>The operations under any policy\<close>

context victim_policy
begin

lemma touch_entry_ok:
  assumes inv: "cm_inv pinv live cm" and l: "in_range cm l" "slot cm l = Some e"
  shows "\<exists>cm'. touch_entry P now l cm = Inr cm' \<and> cm_inv pinv live cm' \<and> same_shape cm cm' \<and>
    cell cm' l = Inr (Some (setLastAccess now e)) \<and>
    resident cm' = (resident cm)(m_Address e \<mapsto> setLastAccess now e)"
proof -
  note geom = cm_inv_geom [OF inv]
  have "live (rdata cm l)" using slotted [OF inv l] by simp
  moreover have "pinv (m_replacementPolicy cm)" using inv by (simp add: cm_inv_def)
  ultimately obtain s' d' where t: "rp_touch P now (m_replacementPolicy cm) (rdata cm l) = Inr (s', d')"
      "pinv s'" "live d'"
    using touch_ok by blast
  let ?cm = "install (m_tag_index cm) l (Some (setLastAccess now e)) d' s' cm"
  have "touch_entry P now l cm = Inr ?cm"
    using t(1) l by (simp add: touch_entry_def touch_with_def repl_at_eq [OF geom] cell_eq [OF geom]
      deref_def install_same)
  moreover have "cell ?cm l = Inr (Some (setLastAccess now e))"
    using install_simps [OF geom l(1)] l(1) by (subst cell_eq) simp_all
  ultimately show ?thesis
    using install_update [OF inv l same_slot_updates(1) t(2,3)] by simp
qed

lemma tryCacheAccess_ok:
  assumes inv: "cm_inv pinv live cm" and line: "is_line cm a"
  shows "resident cm a = None \<Longrightarrow> tryCacheAccess P now a ty cm = Inr (False, None, cm)"
    and "resident cm a = Some e \<Longrightarrow> \<exists>l cm'. tryCacheAccess P now a ty cm =
        Inr (may_access e ty, if may_access e ty then Some l else None, cm') \<and>
      cm_inv pinv live cm' \<and> same_shape cm cm' \<and> resident cm' = (resident cm)(a \<mapsto> setLastAccess now e)"
proof -
  show "resident cm a = None \<Longrightarrow> tryCacheAccess P now a ty cm = Inr (False, None, cm)"
    using resident_None [OF inv] by (simp add: tryCacheAccess_def lookup_eq [OF inv line])
  assume "resident cm a = Some e"
  then obtain w where w: "m_tag_index cm a = Some w" "in_range cm (set_of_addr cm a, w)"
      "slot cm (set_of_addr cm a, w) = Some e" "m_Address e = a"
    by (rule resident_Some [OF inv])
  obtain cm' where cm': "touch_entry P now (set_of_addr cm a, w) cm = Inr cm'" "cm_inv pinv live cm'"
      "same_shape cm cm'" "cell cm' (set_of_addr cm a, w) = Inr (Some (setLastAccess now e))"
      "resident cm' = (resident cm)(a \<mapsto> setLastAccess now e)"
    using touch_entry_ok [OF inv w(2,3), of now] w(4) by auto
  have "tryCacheAccess P now a ty cm =
      Inr (may_access e ty, if may_access e ty then Some (set_of_addr cm a, w) else None, cm')"
    using w(1) cm'(1,4)
    by (simp add: tryCacheAccess_def lookup_eq [OF inv line] deref_def setLastAccess_def may_access_def)
  with cm' show "\<exists>l cm'. tryCacheAccess P now a ty cm =
        Inr (may_access e ty, if may_access e ty then Some l else None, cm') \<and>
      cm_inv pinv live cm' \<and> same_shape cm cm' \<and> resident cm' = (resident cm)(a \<mapsto> setLastAccess now e)"
    by blast
qed

lemma deallocate_ok:
  assumes inv: "cm_inv pinv live cm" and res: "resident cm a = Some e"
  shows "\<exists>cm'. deallocate P a cm = Inr cm' \<and> cm_inv pinv live cm' \<and> same_shape cm cm' \<and>
    resident cm' = (resident cm)(a := None) \<and> free_way cm' (set_of_addr cm a)"
proof -
  note geom = cm_inv_geom [OF inv]
  obtain w where w: "m_tag_index cm a = Some w" "in_range cm (set_of_addr cm a, w)"
      "slot cm (set_of_addr cm a, w) = Some e" "m_Address e = a" "is_line cm a"
    using res by (rule resident_Some [OF inv])
  let ?l = "(set_of_addr cm a, w)"
  have "pinv (m_replacementPolicy cm)" using inv by (simp add: cm_inv_def)
  then obtain s' d' where t: "rp_invalidate P (m_replacementPolicy cm) (rdata cm ?l) = Inr (s', d')" "pinv s'"
    using invalidate_ok by blast
  let ?cm1 = "set_repl ?l d' (cm\<lparr>m_replacementPolicy := s'\<rparr>)"
  let ?cm = "install ((m_tag_index cm)(a := None)) ?l None d' s' cm"
  have "cell ?cm1 ?l = Inr (Some e)"
    using cell_eq [OF geom w(2)] w(3) by (simp add: cell_def)
  moreover have "(unat (getSet e), unat (getWay e)) = ?l"
    using slotted [OF inv w(2,3)] by simp
  moreover have "(set_cell ?l None ?cm1)\<lparr>m_tag_index := (m_tag_index (set_cell ?l None ?cm1))(a := None)\<rparr> = ?cm"
    by (simp add: install_def)
  ultimately have run: "deallocate P a cm = Inr ?cm"
    using t(1) w(1,2)
    by (simp add: deallocate_def lookup_eq [OF inv w(5)] repl_at_eq [OF geom] deref_def Let_def)
  have "slot ?cm ?l = None" using install_simps [OF geom w(2)] by simp
  moreover have "w < m_cache_assoc ?cm"
    using w(2) install_shape [of cm] by (simp add: in_range_def same_shape_def)
  ultimately have "free_way ?cm (set_of_addr cm a)" by (auto simp: free_way_def)
  with run install_remove [OF inv w(2,3) t(2), of d'] show ?thesis
    by (simp add: w(4))
qed

lemma allocate_eq:
  assumes inv: "cm_inv pinv live cm" and a: "is_line cm a" "resident cm a = None"
    and free: "free_way cm (set_of_addr cm a)"
  shows "\<exists>w. in_range cm (set_of_addr cm a, w) \<and> slot cm (set_of_addr cm a, w) = None \<and>
    allocate P now a entry cm =
      bindR (fill_slot P now a entry (set_of_addr cm a, w) cm) (\<lambda>cm'. Inr ((set_of_addr cm a, w), cm'))"
proof -
  let ?s = "set_of_addr cm a"
  note geom = cm_inv_geom [OF inv]
  have s: "?s < m_cache_num_sets cm" using set_of_addr_bound [OF geom] by simp
  have row: "vec_at (m_cache cm) ?s = Inr (m_cache cm ! ?s)" "length (m_cache cm ! ?s) = m_cache_assoc cm"
    using geom s by (simp_all add: cm_geom_def)
  note cells = row_cells [OF geom s]
  have cell: "in_range cm (?s, w)" if "w < m_cache_assoc cm" for w
    using that s by (simp add: in_range_def)
  have present: "\<forall>c \<in> set (m_cache cm ! ?s). \<forall>x. c = Some x \<longrightarrow> m_Permission x \<noteq> NotPresent"
    using cells slotted(5) [OF inv cell] by auto
  obtain w0 where "w0 < m_cache_assoc cm" "None = slot cm (?s, w0)" using free by (auto simp: free_way_def)
  then have "None \<in> set (m_cache cm ! ?s)" unfolding cells by blast
  then obtain w where w: "w < m_cache_assoc cm" "openSlot 0 (m_cache_assoc cm) (m_cache cm ! ?s) = Inr w"
      "m_cache cm ! ?s ! w = None"
    using openSlot_first [OF row(2) present, of 0] by auto
  have "allocate P now a entry cm = bindR (fill_slot P now a entry (?s, w) cm) (\<lambda>cm'. Inr ((?s, w), cm'))"
    using a free w(2) row(1)
    by (simp add: allocate_def assert_line_eq [OF geom] isTagPresent_eq [OF inv] cacheAvail_eq [OF inv]
      addressToCacheSet_eq [OF geom])
  then show ?thesis using w cell by (auto simp: slot_def)
qed

lemma allocate_inv:
  assumes inv: "cm_inv pinv live cm" and a: "is_line cm a" "resident cm a = None"
    and free: "free_way cm (set_of_addr cm a)" and run: "allocate P now a entry cm = Inr (l, cm')"
  shows "cm_inv pinv live cm' \<and> same_shape cm cm' \<and> fst l = set_of_addr cm a \<and>
    resident cm' = (resident cm)(a \<mapsto> fresh_entry now a l entry)"
proof -
  note geom = cm_inv_geom [OF inv]
  obtain w where w: "in_range cm (set_of_addr cm a, w)" "slot cm (set_of_addr cm a, w) = None"
      "allocate P now a entry cm =
      bindR (fill_slot P now a entry (set_of_addr cm a, w) cm) (\<lambda>cm'. Inr ((set_of_addr cm a, w), cm'))"
    using allocate_eq [OF inv a free] by blast
  have l: "l = (set_of_addr cm a, w)" and fill: "fill_slot P now a entry l cm = Inr cm'"
    using run w(3) by (auto simp: res_simps)
  obtain s' d' where r: "rp_reset P now (m_replacementPolicy cm)
        (rdata cm l\<lparr>rd_entry := Some (position (fresh_entry now a l entry))\<rparr>) = Inr (s', d')"
      and cm': "cm' = install ((m_tag_index cm)(a \<mapsto> snd l)) l (Some (fresh_entry now a l entry)) d' s' cm"
    using fill w(1) by (auto simp: fill_slot_eq [OF geom] l res_simps)
  have "pinv (m_replacementPolicy cm)" using inv by (simp add: cm_inv_def)
  from reset_inv [OF this r] have new: "pinv s'" "live d'" by simp_all
  note fields = fresh_entry_fields [OF geom w(1)]
  show ?thesis
    using install_fill [OF inv w(1,2) a(1,2) _ fields(1-4) new, of now entry] by (simp add: l cm')
qed

lemma allocate_way:
  assumes inv: "cm_inv pinv live cm" and a: "is_line cm a" "resident cm a = None"
    and free: "free_way cm (set_of_addr cm a)" and run: "allocate P now a entry cm = Inr (l, cm')"
  shows "unat (getWay (fresh_entry now a l entry)) = snd l"
proof -
  obtain w where w: "in_range cm (set_of_addr cm a, w)"
      "allocate P now a entry cm =
      bindR (fill_slot P now a entry (set_of_addr cm a, w) cm) (\<lambda>cm'. Inr ((set_of_addr cm a, w), cm'))"
    using allocate_eq [OF inv a free] by blast
  have "l = (set_of_addr cm a, w)" using run w(2) by (auto simp: res_simps)
  then show ?thesis using fresh_entry_fields(3) [OF cm_inv_geom [OF inv] w(1)] by simp
qed

lemma cacheProbe_ok:
  assumes inv: "cm_inv pinv live cm" and a: "is_line cm a" "resident cm a = None"
    and full: "\<not> free_way cm (set_of_addr cm a)"
  shows "\<exists>v cm' e. cacheProbe P now a cm = Inr (v, cm') \<and> cm_inv pinv live cm' \<and> same_shape cm cm' \<and>
    resident cm' = resident cm \<and> resident cm v = Some e \<and> set_of_addr cm v = set_of_addr cm a"
proof -
  let ?s = "set_of_addr cm a"
  note geom = cm_inv_geom [OF inv]
  have s: "?s < m_cache_num_sets cm" using set_of_addr_bound [OF geom] by simp
  let ?row = "m_cache cm ! ?s" and ?ds = "m_repl_data cm ! ?s" and ?n = "m_cache_assoc cm"
  have rows: "vec_at (m_cache cm) ?s = Inr ?row" "length ?row = ?n"
      "vec_at (m_repl_data cm) ?s = Inr ?ds" "length ?ds = ?n" "0 < ?n" "?n < 2 ^ 31"
    using geom s by (simp_all add: cm_geom_def)
  note cells = row_cells [OF geom s]
  have cell: "in_range cm (?s, w)" if "w < ?n" for w using that s by (simp add: in_range_def)
  have "None \<notin> set ?row" unfolding cells using full by (auto simp: free_way_def)
  then have cs: "candidates ?n ?row ?ds = Inr (zip (map (\<lambda>c. position (the c)) ?row) ?ds)"
    using rows by (intro candidates_eq) simp_all
  let ?cs = "zip (map (\<lambda>c. position (the c)) ?row) ?ds"
  have cand: "\<exists>e. slot cm (?s, w) = Some e \<and> ?cs ! w = (position e, rdata cm (?s, w)) \<and> pos_ok e \<and>
      unat (getWay e) = w \<and> set_of_addr cm (m_Address e) = ?s \<and> resident cm (m_Address e) = Some e \<and>
      live (rdata cm (?s, w))" if w: "w < ?n" for w
  proof -
    obtain e where e: "slot cm (?s, w) = Some e" using full w by (auto simp: free_way_def)
    note f = slotted [OF inv cell [OF w] e]
    have "?cs ! w = (position e, rdata cm (?s, w))" using w rows e by (simp add: slot_def rdata_def)
    moreover have "pos_ok e"
      using f(3) s geom by (simp add: pos_ok_def word_less_nat_alt cm_geom_def)
    moreover have "resident cm (m_Address e) = Some e" using f(1,2) e by (simp add: resident_def)
    ultimately show ?thesis using e f by simp
  qed
  have len: "length ?cs = ?n" using rows by simp
  have "pos_ok (fst (?cs ! w)) \<and> live (snd (?cs ! w))" if "w < ?n" for w
    using cand [OF that] by auto
  then have "list_all (\<lambda>c. pos_ok (fst c) \<and> live (snd c)) ?cs"
    by (simp only: list_all_length len) blast
  moreover have "pinv (m_replacementPolicy cm)" using inv by (simp add: cm_inv_def)
  moreover have "?cs \<noteq> []" "length ?cs < 2 ^ 31" using len rows(5,6) by auto
  ultimately obtain ps ds' i where vic: "rp_getVictim P now (m_replacementPolicy cm) ?cs = Inr (ps, ds', Some i)"
      "pinv ps" "i < ?n" "length ds' = ?n" "list_all live ds'"
    using victim_ok [of "m_replacementPolicy cm" ?cs now] len by auto
  obtain e where e: "slot cm (?s, i) = Some e" "?cs ! i = (position e, rdata cm (?s, i))"
      "unat (getWay e) = i" "set_of_addr cm (m_Address e) = ?s" "resident cm (m_Address e) = Some e"
    using cand [OF vic(3)] by blast
  let ?cm = "cm\<lparr>m_replacementPolicy := ps, m_repl_data := (m_repl_data cm)[?s := ds']\<rparr>"
  have "getWay (position e) = getWay e" by (simp add: position_def getWay_def)
  then have "cacheProbe P now a cm = Inr (m_Address e, ?cm)"
    using a full cs vic(1,3) e(1-3) len rows(1,3) cell_eq [OF geom cell [OF vic(3)]]
    by (simp add: cacheProbe_def assert_line_eq [OF geom] cacheAvail_eq [OF inv]
      addressToCacheSet_eq [OF geom] deref_def vec_at_def)
  then show ?thesis
    using set_row_inv [OF inv s vic(4,5,2)] e(4,5) by blast
qed

end

section \<open>Steps of a cache\<close>

text \<open>
  The calls a protocol controller makes.  \<open>SetPermission\<close> stands for a controller's
  \<open>changePermission\<close> on the entry it looked up; \<open>HtmAbort\<close> takes the protocol's
  \<open>invalidateEntry\<close>.
\<close>

datatype cm_op =
    TryAccess tick addr RubyRequestType
  | TestAccess tick addr RubyRequestType
  | SetMRU tick addr
  | Allocate tick addr cache_entry
  | Deallocate addr
  | Probe tick addr
  | SetLocked addr int
  | ClearLocked addr
  | ClearLockedAll int
  | SetPermission addr AccessPermission
  | HtmAbort "cache_entry \<Rightarrow> cache_entry"
  | HtmCommit

fun cm_step :: "('s, 'm) rp \<Rightarrow> cm_op \<Rightarrow> ('s, 'm) cache_memory \<Rightarrow> ('s, 'm) cache_memory res" where
  "cm_step P (TryAccess now a ty) cm = bindR (tryCacheAccess P now a ty cm) (\<lambda>(_, _, cm'). Inr cm')"
| "cm_step P (TestAccess now a ty) cm = bindR (testCacheAccess P now a ty cm) (\<lambda>(_, _, cm'). Inr cm')"
| "cm_step P (SetMRU now a) cm = setMRU P now a cm"
| "cm_step P (Allocate now a e) cm = bindR (allocate P now a e cm) (\<lambda>(_, cm'). Inr cm')"
| "cm_step P (Deallocate a) cm = deallocate P a cm"
| "cm_step P (Probe now a) cm = bindR (cacheProbe P now a cm) (\<lambda>(_, cm'). Inr cm')"
| "cm_step P (SetLocked a c) cm = cm_setLocked a c cm"
| "cm_step P (ClearLocked a) cm = cm_clearLocked a cm"
| "cm_step P (ClearLockedAll c) cm = Inr (clearLockedAll c cm)"
| "cm_step P (SetPermission a p) cm = on_entry (changePermission p) a cm"
| "cm_step P (HtmAbort f) cm = Inr (htmAbortTransaction f cm)"
| "cm_step P HtmCommit cm = Inr (htmCommitTransaction cm)"

text \<open>A controller never marks a cached entry as not present, and invalidating an entry keeps it
  in its slot.\<close>

fun op_ok :: "cm_op \<Rightarrow> bool" where
  "op_ok (SetPermission a p) \<longleftrightarrow> p \<noteq> NotPresent"
| "op_ok (HtmAbort f) \<longleftrightarrow> (\<forall>e. same_slot e (f e))"
| "op_ok _ \<longleftrightarrow> True"

lemma lookup_not_line: "cm_geom cm \<Longrightarrow> \<not> is_line cm a \<Longrightarrow> lookup cm a = Inl AssertFail"
  by (simp add: lookup_def assert_line_eq)

lemma htm_line_same: "same_slot e e' \<Longrightarrow> same_slot e (htm_line e')"
  by (simp add: same_slot_def htm_line_def entry_defs getSet_def getWay_def)

context victim_policy
begin

text \<open>
  The outcome of a step: a good state of the same shape, a failed assertion, or the error of a
  policy's \<open>reset\<close> on data that is linked to a valid position.
\<close>

definition reset_error :: "cxx_error \<Rightarrow> bool" where
  "reset_error err \<longleftrightarrow> (\<exists>now s d e. pinv s \<and> rd_entry d = Some e \<and> pos_ok e \<and> rp_reset P now s d = Inl err)"

definition outcome :: "('s, 'm) cache_memory \<Rightarrow> ('s, 'm) cache_memory res \<Rightarrow> bool" where
  "outcome cm r \<longleftrightarrow>
     (\<exists>cm'. r = Inr cm' \<and> cm_inv pinv live cm' \<and> same_shape cm cm') \<or>
     (\<exists>err. r = Inl err \<and> (err = AssertFail \<or> reset_error err))"

lemma reset_errorI:
  assumes "pinv s" "pos_ok e" "rp_reset P now s (d\<lparr>rd_entry := Some e\<rparr>) = Inl err"
  shows "reset_error err"
  unfolding reset_error_def
  using assms
  by (intro exI [of _ now] exI [of _ s] exI [of _ "d\<lparr>rd_entry := Some e\<rparr>"] exI [of _ e]) simp

lemma outcome_assert [simp]: "outcome cm (Inl AssertFail)"
  by (simp add: outcome_def)

lemma outcome_same [simp]: "cm_inv pinv live cm \<Longrightarrow> outcome cm (Inr cm)"
  by (simp add: outcome_def)

lemma outcome_ok: "cm_inv pinv live cm' \<Longrightarrow> same_shape cm cm' \<Longrightarrow> outcome cm (Inr cm')"
  by (simp add: outcome_def)

lemma on_entry_outcome:
  assumes inv: "cm_inv pinv live cm" and f: "\<And>e. resident cm a = Some e \<Longrightarrow> same_slot e (f e)"
  shows "outcome cm (on_entry f a cm)"
proof (cases "is_line cm a")
  case True
  show ?thesis
  proof (cases "resident cm a")
    case None
    then show ?thesis
      using resident_None [OF inv, of a] by (simp add: on_entry_def lookup_eq [OF inv True])
  next
    case (Some e)
    show ?thesis using on_entry_ok [where f = f, OF inv Some f [OF Some]] by (auto intro: outcome_ok)
  qed
next
  case False
  then show ?thesis by (simp add: on_entry_def lookup_not_line [OF cm_inv_geom [OF inv]])
qed

lemma lookup_touch_outcome:
  assumes inv: "cm_inv pinv live cm" and line: "is_line cm a"
    and k: "\<And>l e cm'. touch_entry P now l cm = Inr cm' \<Longrightarrow> cm_inv pinv live cm' \<Longrightarrow> same_shape cm cm' \<Longrightarrow>
      cell cm' l = Inr (Some (setLastAccess now e)) \<Longrightarrow> outcome cm (k l)"
  shows "outcome cm (bindR (lookup cm a) (\<lambda>entry. case entry of None \<Rightarrow> Inr cm | Some l \<Rightarrow> k l))"
proof (cases "m_tag_index cm a")
  case None
  then show ?thesis using inv by (simp add: lookup_eq [OF inv line])
next
  case (Some w)
  note ix = indexed [OF inv Some]
  obtain e where e: "slot cm (set_of_addr cm a, w) = Some e" using ix(3) by blast
  have "outcome cm (k (set_of_addr cm a, w))" using touch_entry_ok [OF inv ix(1) e, of now] k by blast
  with Some show ?thesis by (simp add: lookup_eq [OF inv line])
qed

lemma setMRU_outcome: "cm_inv pinv live cm \<Longrightarrow> outcome cm (setMRU P now a cm)"
  unfolding setMRU_def
  by (simp add: cm_makeLineAddress_eq cm_inv_geom)
     (rule lookup_touch_outcome [where now = now], auto simp: is_line_def intro: outcome_ok)

lemma access_outcome:
  assumes inv: "cm_inv pinv live cm"
  shows "outcome cm (cm_step P (TryAccess now a ty) cm)" "outcome cm (cm_step P (TestAccess now a ty) cm)"
proof -
  let ?acc = "\<lambda>l. bindR (touch_entry P now l cm) (\<lambda>cm'. bindR (cell cm' l) (\<lambda>c. bindR (deref c) (\<lambda>e. Inr cm')))"
  have body: "outcome cm (?acc l)"
    if "touch_entry P now l cm = Inr cm'" "cm_inv pinv live cm'" "same_shape cm cm'"
      "cell cm' l = Inr (Some (setLastAccess now e))" for l e cm'
    using that by (simp add: deref_def outcome_ok)
  have r: "cm_step P (TryAccess now a ty) cm = bindR (lookup cm a) (\<lambda>entry. case entry of None \<Rightarrow> Inr cm | Some l \<Rightarrow> ?acc l)"
    "cm_step P (TestAccess now a ty) cm = bindR (lookup cm a) (\<lambda>entry. case entry of None \<Rightarrow> Inr cm | Some l \<Rightarrow> ?acc l)"
    by (auto simp: tryCacheAccess_def testCacheAccess_def bindR_def split: sum.splits option.splits)
  have "outcome cm (bindR (lookup cm a) (\<lambda>entry. case entry of None \<Rightarrow> Inr cm | Some l \<Rightarrow> ?acc l))"
  proof (cases "is_line cm a")
    case True
    then show ?thesis using lookup_touch_outcome [OF inv True, of now ?acc] body by blast
  next
    case False
    then show ?thesis by (simp add: lookup_not_line [OF cm_inv_geom [OF inv]])
  qed
  then show "outcome cm (cm_step P (TryAccess now a ty) cm)" "outcome cm (cm_step P (TestAccess now a ty) cm)"
    by (simp_all only: r)
qed

lemma deallocate_outcome:
  assumes inv: "cm_inv pinv live cm"
  shows "outcome cm (deallocate P a cm)"
proof (cases "is_line cm a")
  case True
  show ?thesis
  proof (cases "resident cm a")
    case None
    then show ?thesis
      using resident_None [OF inv, of a] by (simp add: deallocate_def lookup_eq [OF inv True])
  next
    case (Some e)
    show ?thesis using deallocate_ok [OF inv Some] by (auto intro: outcome_ok)
  qed
next
  case False
  then show ?thesis by (simp add: deallocate_def lookup_not_line [OF cm_inv_geom [OF inv]])
qed

lemma allocate_outcome:
  assumes inv: "cm_inv pinv live cm"
  shows "outcome cm (cm_step P (Allocate now a entry) cm)"
proof (cases "is_line cm a \<and> resident cm a = None \<and> free_way cm (set_of_addr cm a)")
  case True
  then have a: "is_line cm a" "resident cm a = None" "free_way cm (set_of_addr cm a)" by simp_all
  show ?thesis
  proof (cases "allocate P now a entry cm")
    case (Inr r)
    then obtain l cm' where "allocate P now a entry cm = Inr (l, cm')" by (cases r) auto
    with allocate_inv [OF inv a this] show ?thesis by (auto intro: outcome_ok)
  next
    case (Inl err)
    note geom = cm_inv_geom [OF inv]
    obtain w where w: "in_range cm (set_of_addr cm a, w)"
        "allocate P now a entry cm =
        bindR (fill_slot P now a entry (set_of_addr cm a, w) cm) (\<lambda>cm'. Inr ((set_of_addr cm a, w), cm'))"
      using allocate_eq [OF inv a] by blast
    then have "fill_slot P now a entry (set_of_addr cm a, w) cm = Inl err"
      using Inl by (cases "fill_slot P now a entry (set_of_addr cm a, w) cm") auto
    then have "\<exists>d. rp_reset P now (m_replacementPolicy cm)
        (d\<lparr>rd_entry := Some (position (fresh_entry now a (set_of_addr cm a, w) entry))\<rparr>) = Inl err"
      by (auto simp: fill_slot_eq [OF geom w(1)] res_simps)
    moreover have "pinv (m_replacementPolicy cm)" using inv by (simp add: cm_inv_def)
    moreover have "pos_ok (position (fresh_entry now a (set_of_addr cm a, w) entry))"
      using fresh_entry_fields(5) [OF geom w(1)] by simp
    ultimately have "reset_error err" by (blast intro: reset_errorI)
    with Inl show ?thesis by (simp add: outcome_def)
  qed
next
  case False
  note geom = cm_inv_geom [OF inv]
  have "allocate P now a entry cm = Inl AssertFail"
  proof (cases "is_line cm a")
    case True
    with False show ?thesis
      by (cases "resident cm a = None")
         (simp_all add: allocate_def assert_line_eq [OF geom] isTagPresent_eq [OF inv] cacheAvail_eq [OF inv])
  qed (simp add: allocate_def assert_line_eq [OF geom])
  then show ?thesis by simp
qed

lemma probe_outcome:
  assumes inv: "cm_inv pinv live cm"
  shows "outcome cm (cm_step P (Probe now a) cm)"
proof (cases "is_line cm a \<and> resident cm a = None \<and> \<not> free_way cm (set_of_addr cm a)")
  case True
  then show ?thesis using cacheProbe_ok [OF inv, of a now] by (auto intro: outcome_ok)
next
  case False
  note geom = cm_inv_geom [OF inv]
  have "cacheProbe P now a cm = Inl AssertFail"
  proof (cases "is_line cm a")
    case True
    with False show ?thesis
      by (cases "resident cm a = None")
         (simp_all add: cacheProbe_def assert_line_eq [OF geom] cacheAvail_eq [OF inv])
  qed (simp add: cacheProbe_def assert_line_eq [OF geom])
  then show ?thesis by simp
qed

lemma upd_stats_inv [simp]:
  "cm_inv pinv live (upd_stats f cm) = cm_inv pinv live cm" "same_shape cm (upd_stats f cm')  = same_shape cm cm'"
  by (simp_all add: upd_stats_def cm_inv_def cm_geom_def tags_ok_def same_shape_def in_range_def slot_def
    rdata_def is_line_def line_bits_def set_of_addr_def)

lemma step_outcome:
  assumes inv: "cm_inv pinv live cm" and ok: "op_ok f"
  shows "outcome cm (cm_step P f cm)"
proof (cases f)
  case (SetPermission a p)
  have "same_slot e (changePermission p e)" if res: "resident cm a = Some e" for e
  proof -
    obtain w where w: "m_tag_index cm a = Some w" "in_range cm (set_of_addr cm a, w)"
        "slot cm (set_of_addr cm a, w) = Some e" "m_Address e = a" "is_line cm a"
      using res by (rule resident_Some [OF inv])
    then have "m_Permission e \<noteq> NotPresent" using slotted(5) [OF inv w(2,3)] by simp
    with ok SetPermission show ?thesis
      by (simp add: same_slot_def changePermission_def getSet_def getWay_def Let_def)
  qed
  with SetPermission show ?thesis using on_entry_outcome [OF inv] by simp
next
  case (ClearLockedAll c)
  show ?thesis
    using map_lines_inv [OF inv, of "\<lambda>line. if entry_isLocked c line then entry_clearLocked line else line"]
    by (simp add: ClearLockedAll clearLockedAll_def outcome_ok)
next
  case (HtmAbort g)
  have "same_slot e (htm_line (if getInHtmWriteSet e then g e else e))" for e
    using ok HtmAbort by (auto intro: htm_line_same)
  note inv' = map_lines_inv [OF inv this]
  show ?thesis by (simp add: HtmAbort htmAbortTransaction_def Let_def outcome_ok inv')
next
  case HtmCommit
  have "same_slot e (htm_line e)" for e
    by (simp add: htm_line_same)
  note inv' = map_lines_inv [OF inv this]
  show ?thesis by (simp add: HtmCommit htmCommitTransaction_def Let_def outcome_ok inv')
qed (use inv in \<open>simp_all add: cm_setLocked_def cm_clearLocked_def on_entry_outcome setMRU_outcome
  access_outcome [simplified] deallocate_outcome allocate_outcome [simplified] probe_outcome [simplified]\<close>)

end

end
