(* ===== verification/Cache_System.thy ===== *)
theory Cache_System
  imports Cache_Ops
begin

text \<open>
  Ruby's cache as a whole: construction establishes the invariant, every reachable state keeps it,
  replacing a block of a full set works, and what remains to go wrong with ARC.
\<close>

section \<open>Construction\<close>

lemma instantiate_row_length: "length (snd (instantiate_row P e0 n s)) = n"
  by (induction n) (simp_all add: split_beta Let_def)

lemma instantiate_all_length:
  "length (snd (instantiate_all P e0 assoc n s)) = n"
  "r \<in> set (snd (instantiate_all P e0 assoc n s)) \<Longrightarrow> length r = assoc"
  by (induction n) (auto simp: split_beta Let_def instantiate_row_length)

text \<open>The configurations that \<open>init\<close> accepts and whose indices fit the 32-bit integers.\<close>

definition config_ok :: "('s, 'm) cache_memory \<Rightarrow> bool" where
  "config_ok cm \<longleftrightarrow>
     0 < m_block_size cm \<and> m_block_size cm < 2 ^ 31 \<and> 0 < m_cache_assoc cm \<and> m_cache_assoc cm < 2 ^ 31 \<and>
     1 < m_cache_size cm div m_cache_assoc cm div m_block_size cm \<and>
     m_cache_size cm div m_cache_assoc cm div m_block_size cm < 2 ^ 31 \<and>
     m_start_index_bit cm < 64 \<and> m_tag_index cm = (\<lambda>_. None) \<and> m_cache cm = []"

context victim_policy
begin

lemma instantiate_row_pinv: "pinv s \<Longrightarrow> pinv (fst (instantiate_row P e0 n s))"
  by (induction n) (auto simp: split_beta Let_def instantiate_pinv)

lemma instantiate_all_pinv: "pinv s \<Longrightarrow> pinv (fst (instantiate_all P e0 assoc n s))"
  by (induction n) (auto simp: split_beta Let_def instantiate_row_pinv)

lemma init_ok:
  assumes conf: "config_ok cm" and ps: "pinv (m_replacementPolicy cm)"
  shows "\<exists>cm'. cm_init P e0 cm = Inr cm' \<and> cm_inv pinv live cm' \<and> resident cm' = (\<lambda>_. None) \<and>
    m_cache_num_sets cm' = m_cache_size cm div m_cache_assoc cm div m_block_size cm"
proof -
  let ?n = "m_cache_size cm div m_cache_assoc cm div m_block_size cm"
  let ?k = "findMsbSet (of_nat ?n)" and ?r = "instantiate_all P e0 (m_cache_assoc cm) ?n (m_replacementPolicy cm)"
  define cm' where "cm' = cm\<lparr>m_cache_num_sets := ?n, m_cache_num_set_bits := ?k,
    m_cache := vec_resize ?n (replicate (m_cache_assoc cm) None) (m_cache cm),
    m_repl_data := snd ?r, m_replacementPolicy := fst ?r\<rparr>"
  have n: "0 < ?n" "?n < 2 ^ 31" "1 < ?n" using conf by (simp_all add: config_ok_def)
  have u: "unat (of_nat ?n :: uint64) = ?n" using n(2) by (simp add: unat_of_nat)
  then have "(of_nat ?n :: uint64) \<noteq> 0" using n(1) by (metis less_irrefl unat_0)
  then have k: "2 ^ ?k \<le> ?n" "?n < 2 ^ Suc ?k"
    using div_pow_eq_1 [THEN iffD1, OF findMsbSet_div] u by metis+
  have kpos: "0 < ?k" using k(2) n(3) by (cases ?k) auto
  have run: "cm_init P e0 cm = Inr cm'"
    using conf floorLog2_nat(1) [OF n(1,2)] kpos
    by (simp add: cm_init_def config_ok_def Let_def split_beta cm'_def)
  have rows: "length (snd ?r) = ?n" by (rule instantiate_all_length(1))
  then have rows': "\<forall>s < ?n. length (snd ?r ! s) = m_cache_assoc cm"
    by (metis instantiate_all_length(2) nth_mem)
  have geom: "cm_geom cm'"
    using conf n k kpos rows rows' by (simp add: cm_geom_def cm'_def config_ok_def nth_vec_resize)
  have empty: "slot cm' l = None" if "in_range cm' l" for l
    using that conf by (simp add: slot_def cm'_def in_range_def config_ok_def nth_vec_resize)
  have tag: "m_tag_index cm' = (\<lambda>_. None)" using conf by (simp add: cm'_def config_ok_def)
  have "tags_ok cm'" unfolding tags_ok_def using empty tag by fastforce
  moreover have "pinv (m_replacementPolicy cm')"
    using instantiate_all_pinv [OF ps] by (simp add: cm'_def)
  ultimately have "cm_inv pinv live cm'" using geom empty by (auto simp: cm_inv_def)
  moreover have "resident cm' = (\<lambda>_. None)" by (simp add: resident_def tag fun_eq_iff)
  moreover have "m_cache_num_sets cm' = ?n" by (simp add: cm'_def)
  ultimately show ?thesis using run by blast
qed

end

section \<open>Reachable states\<close>

inductive cm_reachable :: "('s, 'm) rp \<Rightarrow> 's \<Rightarrow> ('s, 'm) cache_memory \<Rightarrow> bool" for P s0 where
  created: "config_ok cm \<Longrightarrow> m_replacementPolicy cm = s0 \<Longrightarrow> cm_init P e0 cm = Inr cm' \<Longrightarrow>
    cm_reachable P s0 cm'"
| stepped: "cm_reachable P s0 cm \<Longrightarrow> op_ok f \<Longrightarrow> cm_step P f cm = Inr cm' \<Longrightarrow> cm_reachable P s0 cm'"

context victim_policy
begin

lemma reachable_inv: "cm_reachable P s0 cm \<Longrightarrow> pinv s0 \<Longrightarrow> cm_inv pinv live cm"
proof (induction rule: cm_reachable.induct)
  case (created cm e0 cm')
  then show ?case using init_ok [of cm e0] by auto
next
  case (stepped cm f cm')
  then show ?case using step_outcome [of cm f] by (auto simp: outcome_def)
qed

lemma reachable_step:
  assumes "cm_reachable P s0 cm" "pinv s0" "op_ok f"
  shows "(\<exists>cm'. cm_step P f cm = Inr cm' \<and> cm_inv pinv live cm') \<or>
    (\<exists>err. cm_step P f cm = Inl err \<and> (err = AssertFail \<or> reset_error err))"
  using step_outcome [OF reachable_inv [OF assms(1,2)] assms(3)] by (auto simp: outcome_def)

end

context total_policy
begin

lemma no_reset_error: "\<not> reset_error err"
proof
  assume "reset_error err"
  then obtain now s d e where "pinv s" "rd_entry d = Some e" "pos_ok e" "rp_reset P now s d = Inl err"
    unfolding reset_error_def by blast
  with reset_ok [of s d e now] show False by auto
qed

text \<open>Replacing a block of a full set: ask for the victim, evict it, allocate in its place.\<close>

lemma replace_ok:
  assumes inv: "cm_inv pinv live cm" and a: "is_line cm a" "resident cm a = None"
    and full: "\<not> free_way cm (set_of_addr cm a)"
  shows "\<exists>v e cm1 cm2 l cm3. cacheProbe P now a cm = Inr (v, cm1) \<and> resident cm v = Some e \<and>
    set_of_addr cm v = set_of_addr cm a \<and> deallocate P v cm1 = Inr cm2 \<and>
    allocate P now a entry cm2 = Inr (l, cm3) \<and> cm_inv pinv live cm3 \<and>
    resident cm3 = (resident cm)(v := None, a \<mapsto> fresh_entry now a l entry)"
proof -
  obtain v cm1 e where p: "cacheProbe P now a cm = Inr (v, cm1)" "cm_inv pinv live cm1" "same_shape cm cm1"
      "resident cm1 = resident cm" "resident cm v = Some e" "set_of_addr cm v = set_of_addr cm a"
    using cacheProbe_ok [OF inv a full] by blast
  have "resident cm1 v = Some e" using p(4,5) by simp
  then obtain cm2 where d: "deallocate P v cm1 = Inr cm2" "cm_inv pinv live cm2" "same_shape cm1 cm2"
      "resident cm2 = (resident cm)(v := None)" "free_way cm2 (set_of_addr cm a)"
    using deallocate_ok [OF p(2), of v e] p(4,6) same_shape_simps [OF p(3)] by auto
  have shape: "same_shape cm cm2" using p(3) d(3) by (rule same_shape_trans)
  note [simp] = same_shape_simps [OF shape]
  have ready: "is_line cm2 a" "resident cm2 a = None" "free_way cm2 (set_of_addr cm2 a)"
    using a d(4,5) by auto
  have "\<exists>r. allocate P now a entry cm2 = Inr r"
  proof -
    obtain w where w: "in_range cm2 (set_of_addr cm2 a, w)"
        "allocate P now a entry cm2 =
        bindR (fill_slot P now a entry (set_of_addr cm2 a, w) cm2) (\<lambda>cm'. Inr ((set_of_addr cm2 a, w), cm'))"
      using allocate_eq [OF d(2) ready] by blast
    let ?e = "fresh_entry now a (set_of_addr cm2 a, w) entry"
    have "pinv (m_replacementPolicy cm2)" using d(2) by (simp add: cm_inv_def)
    moreover have "pos_ok (position ?e)"
      using fresh_entry_fields(5) [OF cm_inv_geom [OF d(2)] w(1)] by simp
    ultimately obtain s' d' where "rp_reset P now (m_replacementPolicy cm2)
        (rdata cm2 (set_of_addr cm2 a, w)\<lparr>rd_entry := Some (position ?e)\<rparr>) = Inr (s', d')"
      using reset_ok [of "m_replacementPolicy cm2"
          "rdata cm2 (set_of_addr cm2 a, w)\<lparr>rd_entry := Some (position ?e)\<rparr>" "position ?e" now] by auto
    then show ?thesis using w by (simp add: fill_slot_eq [OF cm_inv_geom [OF d(2)]])
  qed
  then obtain l cm3 where al: "allocate P now a entry cm2 = Inr (l, cm3)" by auto
  with allocate_inv [OF d(2) ready al] p d show ?thesis by (auto simp del: split_paired_Ex)
qed

end

section \<open>An example configuration\<close>

text \<open>Two sets of two ways with lines of 64 bytes.\<close>

definition ex_params :: cache_params where
  "ex_params = \<lparr>p_size = 256, p_assoc = 2, p_start_index_bit = 6, p_is_icache = False,
     p_resourceStalls = False, p_block_size = 64, p_dataArrayBanks = 1, p_dataAccessLatency = 1,
     p_tagArrayBanks = 1, p_tagAccessLatency = 1, p_atomicALUs = 64, p_atomicLatency = 1,
     p_weighted_lru = False\<rparr>"

fun cm_run :: "('s, 'm) rp \<Rightarrow> cm_op list \<Rightarrow> ('s, 'm) cache_memory \<Rightarrow> ('s, 'm) cache_memory res" where
  "cm_run P [] cm = Inr cm"
| "cm_run P (f # fs) cm = bindR (cm_step P f cm) (cm_run P fs)"

definition ex_start :: "('s, 'm) rp \<Rightarrow> 's \<Rightarrow> ('s, 'm) cache_memory res" where
  "ex_start P s = bindR (newCacheMemory 0 s ex_params) (cm_init P (\<lambda>_ _. None))"

definition arc_cache_trace :: "cm_op list" where
  "arc_cache_trace =
     [Allocate 1 0x000 (newCacheEntry 0), Allocate 2 0x080 (newCacheEntry 0),
      SetMRU 3 0x080, Probe 4 0x100, SetMRU 5 0x000, Probe 6 0x180, Deallocate 0x080,
      Allocate 7 0x100 (newCacheEntry 0)]"

text \<open>The state after a run, for runs that do not fail.\<close>

definition result :: "'a res \<Rightarrow> 'a" where
  "result r = (case r of Inr x \<Rightarrow> x | Inl _ \<Rightarrow> undefined)"

lemma result_Inr [simp]: "result (Inr x) = x"
  by (simp add: result_def)

definition ex_lru_cache :: "(unit, unit lru_repl_data_ext) cache_memory" where
  "ex_lru_cache = result (bindR (ex_start lru_rp ()) (cm_run lru_rp
     [Allocate 1 0x000 (newCacheEntry 0), Allocate 2 0x080 (newCacheEntry 0), SetMRU 3 0x000]))"

lemma ex_config: "config_ok (result (newCacheMemory 0 s ex_params))"
  "newCacheMemory 0 s ex_params = Inr (result (newCacheMemory 0 s ex_params))"
  "m_replacementPolicy (result (newCacheMemory 0 s ex_params)) = s"
  by (simp_all add: config_ok_def newCacheMemory_def newBankedArray_def floorLog2_def log_step_def
    ex_params_def result_def)

lemma cm_run_reachable:
  "cm_reachable P s0 cm \<Longrightarrow> list_all op_ok fs \<Longrightarrow> cm_run P fs cm = Inr cm' \<Longrightarrow> cm_reachable P s0 cm'"
  by (induction fs arbitrary: cm) (auto simp: res_simps intro: cm_reachable.stepped)

lemma ex_run_reachable:
  assumes "bindR (ex_start P s0) (cm_run P fs) = Inr cm" "list_all op_ok fs"
  shows "cm_reachable P s0 cm"
proof -
  obtain cm0 where cm0: "cm_init P (\<lambda>_ _. None) (result (newCacheMemory 0 s0 ex_params)) = Inr cm0"
      "cm_run P fs cm0 = Inr cm"
    using assms(1) ex_config(2) [of s0] by (auto simp: ex_start_def res_simps)
  have "cm_reachable P s0 cm0" by (rule cm_reachable.created [OF ex_config(1,3) cm0(1)])
  then show ?thesis using assms(2) cm0(2) by (rule cm_run_reachable)
qed

lemma ex_lru_cache_run:
  "bindR (ex_start lru_rp ()) (cm_run lru_rp
     [Allocate 1 0x000 (newCacheEntry 0), Allocate 2 0x080 (newCacheEntry 0), SetMRU 3 0x000]) =
   Inr ex_lru_cache"
  unfolding ex_lru_cache_def by code_simp

lemma ex_lru_cache_reachable: "cm_reachable lru_rp () ex_lru_cache"
  by (rule ex_run_reachable [OF ex_lru_cache_run]) simp

section \<open>Properties\<close>





text \<open>
  C13. Allocation and lookup.  Under any policy that meets the interface, when \<open>allocate\<close> of an
  uncached line into a set with a free way returns, \<open>lookup\<close> of that line leads to the slot it
  was put into, every other line is looked up as before, and the entry carries the line's address,
  the permission \<open>Invalid\<close> and no lock.
\<close>

theorem cache_allocate_lookup:
  assumes "victim_policy P pinv live" "cm_inv pinv live cm" "is_line cm a" "resident cm a = None"
    and "free_way cm (set_of_addr cm a)" "allocate P now a entry cm = Inr (l, cm')"
  shows "lookup cm' a = Inr (Some l) \<and> resident cm' = (resident cm)(a \<mapsto> fresh_entry now a l entry) \<and>
    (\<forall>b. is_line cm b \<and> b \<noteq> a \<longrightarrow> isTagPresent cm' b = isTagPresent cm b)"
proof -
  note r = victim_policy.allocate_inv [OF assms]
  then have inv': "cm_inv pinv live cm'" and shape: "same_shape cm cm'" and l: "fst l = set_of_addr cm a"
    and res: "resident cm' = (resident cm)(a \<mapsto> fresh_entry now a l entry)" by blast+
  note [simp] = same_shape_simps [OF shape]
  obtain w where w: "m_tag_index cm' a = Some w" "in_range cm' (set_of_addr cm' a, w)"
      "slot cm' (set_of_addr cm' a, w) = Some (fresh_entry now a l entry)"
      "m_Address (fresh_entry now a l entry) = a" "is_line cm' a"
    using resident_Some [OF inv', of a "fresh_entry now a l entry"] res by auto
  have "w = snd l"
    using slotted(4) [OF inv' w(2,3)] victim_policy.allocate_way [OF assms] by simp
  then have "lookup cm' a = Inr (Some l)"
    using lookup_eq [OF inv' w(5)] w(1) l by (simp add: prod_eq_iff)
  moreover have "isTagPresent cm' b = isTagPresent cm b" if "is_line cm b" "b \<noteq> a" for b
    using that res by (simp add: isTagPresent_eq [OF inv'] isTagPresent_eq [OF assms(2)])
  ultimately show ?thesis using res by blast
qed

lemma ex_lru_cache_inv: "cm_inv (\<lambda>_. True) (\<lambda>_. True) ex_lru_cache"
  by (rule lru.reachable_inv [OF ex_lru_cache_reachable]) simp

theorem cache_allocate_lookup_witness:
  "\<exists>l cm'. allocate lru_rp 9 0x40 (newCacheEntry 0) ex_lru_cache = Inr (l, cm') \<and>
     lookup cm' 0x40 = Inr (Some l) \<and> isTagPresent cm' 0x80 = isTagPresent ex_lru_cache 0x80"
proof -
  have "allocate lru_rp 9 0x40 (newCacheEntry 0) ex_lru_cache =
      Inr (result (allocate lru_rp 9 0x40 (newCacheEntry 0) ex_lru_cache))"
    unfolding ex_lru_cache_def by code_simp
  then obtain l cm' where run: "allocate lru_rp 9 0x40 (newCacheEntry 0) ex_lru_cache = Inr (l, cm')"
    by (metis surj_pair)
  moreover have "is_line ex_lru_cache 0x40" "is_line ex_lru_cache 0x80"
    unfolding ex_lru_cache_def by code_simp+
  moreover have "resident ex_lru_cache 0x40 = None" unfolding ex_lru_cache_def by code_simp
  moreover have "free_way ex_lru_cache (set_of_addr ex_lru_cache 0x40)"
    unfolding ex_lru_cache_def by code_simp
  ultimately show ?thesis
    using cache_allocate_lookup [OF lru.victim_policy_axioms ex_lru_cache_inv, of "0x40" 9 "newCacheEntry 0" l cm']
    by auto
qed

text \<open>
  \<open>CacheMemory::init\<close> on an admissible configuration succeeds and establishes the invariant
  with an empty cache, for any policy that meets the interface.
\<close>

theorem cache_init_establishes:
  assumes "victim_policy P pinv live" "config_ok cm" "pinv (m_replacementPolicy cm)"
  shows "\<exists>cm'. cm_init P e0 cm = Inr cm' \<and> cm_inv pinv live cm' \<and> (\<forall>a. resident cm' a = None) \<and>
    m_cache_num_sets cm' = m_cache_size cm div m_cache_assoc cm div m_block_size cm"
  using victim_policy.init_ok [OF assms, of e0] by auto

theorem cache_init_establishes_witness:
  "\<exists>cm'. cm_init arc_rp (\<lambda>_ _. None) (result (newCacheMemory 0 arc_init ex_params)) = Inr cm' \<and>
     cm_inv arc_inv arc_valid cm'"
  using cache_init_establishes [OF arc.victim_policy_axioms ex_config(1), of arc_init "\<lambda>_ _. None"]
  by (auto simp: ex_config(3) arc_inv_init)

text \<open>
  The set index of every line lies in the matrix, and below the largest power of two that is at
  most the number of sets: with a number of sets that is not a power of two the sets beyond it are
  never used.
\<close>

theorem cache_set_index_bound:
  assumes "cm_geom cm" "is_line cm a"
  shows "\<exists>s. addressToCacheSet cm a = Inr s \<and> s < 2 ^ m_cache_num_set_bits cm \<and> s < length (m_cache cm)"
  using addressToCacheSet_eq [OF assms] set_of_addr_bound [OF assms(1), of a] assms(1)
  by (simp add: cm_geom_def)

theorem cache_set_index_bound_witness:
  "\<exists>s. addressToCacheSet ex_lru_cache 0x40 = Inr s \<and> s < length (m_cache ex_lru_cache)"
proof -
  have "is_line ex_lru_cache 0x40" unfolding ex_lru_cache_def by code_simp
  then show ?thesis
    using cache_set_index_bound [OF cm_inv_geom [OF ex_lru_cache_inv], of "0x40"] by auto
qed


definition ex_arc_cache :: "(arc_state, unit arc_repl_data_ext) cache_memory" where
  "ex_arc_cache = result (bindR (ex_start arc_rp arc_init) (cm_run arc_rp (take 7 arc_cache_trace)))"

lemma ex_arc_cache_reachable: "cm_reachable arc_rp arc_init ex_arc_cache"
proof (rule ex_run_reachable)
  show "bindR (ex_start arc_rp arc_init) (cm_run arc_rp (take 7 arc_cache_trace)) = Inr ex_arc_cache"
    unfolding ex_arc_cache_def by code_simp
qed (simp add: arc_cache_trace_def)



lemma lookup_cellI:
  assumes "r = Inr cm" "lookup cm a = Inr (Some l)"
    and "bindR (cell cm l) (\<lambda>c. Inr (map_option m_Address c)) = Inr (Some b)"
  shows "\<exists>cm l e. r = Inr cm \<and> lookup cm a = Inr (Some l) \<and> cell cm l = Inr (Some e) \<and> m_Address e = b"
proof -
  obtain e where "cell cm l = Inr (Some e)" "m_Address e = b" using assms(3) by (auto simp: res_simps)
  with assms show ?thesis by blast
qed

text \<open>
  Without the condition that cached entries stay present the index goes stale: when
  \<open>allocate\<close> reuses the slot of an entry that was marked \<open>NotPresent\<close>, it leaves the old
  line in the tag index, and \<open>lookup\<close> of the old line returns the entry of the new one.
\<close>

theorem cache_stale_tag:
  "\<exists>cm l e. bindR (ex_start lru_rp ()) (cm_run lru_rp
       [Allocate 1 0x000 (newCacheEntry 0), SetPermission 0x000 NotPresent,
        Allocate 2 0x080 (newCacheEntry 0)]) = Inr cm \<and>
     lookup cm 0x000 = Inr (Some l) \<and> cell cm l = Inr (Some e) \<and> m_Address e = 0x080"
proof -
  let ?r = "bindR (ex_start lru_rp ()) (cm_run lru_rp
       [Allocate 1 0x000 (newCacheEntry 0), SetPermission 0x000 NotPresent,
        Allocate 2 0x080 (newCacheEntry 0)])"
  have "?r = Inr (result ?r)" by code_simp
  moreover have "lookup (result ?r) 0x000 = Inr (Some (0, 0))" by code_simp
  moreover have "bindR (cell (result ?r) (0, 0)) (\<lambda>c. Inr (map_option m_Address c)) = Inr (Some 0x080)"
    by code_simp
  ultimately show ?thesis by (rule lookup_cellI)
qed

end
