(* ===== verification/Sat_Counter.thy ===== *)
theory Sat_Counter
  imports Prelude
begin

text \<open>
  Saturating counters (\<open>base/sat_counter.hh\<close>), generic in the width of their type.
  \<open>calcSaturation() >= p / 100.0\<close> is the only use of the floating-point quotient; with counters of
  at most 8 bits and whole percentages it agrees with the comparison of the exact quotients, which
  is what \<open>saturation_at_least\<close> computes.
\<close>

record 'v sat_counter =
  initialVal :: 'v
  maxVal :: 'v
  counter :: 'v

text \<open>The shift \<open>1ULL << bits\<close> is undefined from 64 on, whatever the width of the counter.\<close>

definition newSatCounter :: "nat \<Rightarrow> 'w::len word \<Rightarrow> 'w word sat_counter res" where
  "newSatCounter nbits initial_val =
     checkR OutOfRange (nbits < 64)
       (let mx = ucast ((push_bit nbits 1 :: uint64) - 1) :: 'w word in
        checkR Fatal (\<not> nbits > LENGTH('w))
          (checkR Fatal (\<not> initial_val > mx)
            (Inr \<lparr>initialVal = initial_val, maxVal = mx, counter = initial_val\<rparr>)))"

definition sat_inc :: "'w::len word sat_counter \<Rightarrow> 'w word sat_counter" where
  "sat_inc c = (if counter c < maxVal c then c\<lparr>counter := counter c + 1\<rparr> else c)"

definition sat_dec :: "'w::len word sat_counter \<Rightarrow> 'w word sat_counter" where
  "sat_dec c = (if counter c > 0 then c\<lparr>counter := counter c - 1\<rparr> else c)"

definition sat_shr :: "nat \<Rightarrow> 'w::len word sat_counter \<Rightarrow> 'w word sat_counter" where
  "sat_shr shift c = c\<lparr>counter := drop_bit shift (counter c)\<rparr>"

definition sat_shl :: "nat \<Rightarrow> 'w::len word sat_counter \<Rightarrow> 'w word sat_counter" where
  "sat_shl shift c =
     (let v = push_bit shift (counter c)
      in c\<lparr>counter := (if v > maxVal c then maxVal c else v)\<rparr>)"

definition sat_add_nonneg :: "int \<Rightarrow> 'w::len word sat_counter \<Rightarrow> 'w word sat_counter" where
  "sat_add_nonneg v c =
     (if uint (maxVal c - counter c) \<ge> v then c\<lparr>counter := counter c + word_of_int v\<rparr>
      else c\<lparr>counter := maxVal c\<rparr>)"

definition sat_sub_nonneg :: "int \<Rightarrow> 'w::len word sat_counter \<Rightarrow> 'w word sat_counter" where
  "sat_sub_nonneg v c =
     (if uint (counter c) > v then c\<lparr>counter := counter c - word_of_int v\<rparr>
      else c\<lparr>counter := 0\<rparr>)"

definition sat_add :: "int \<Rightarrow> 'w::len word sat_counter \<Rightarrow> 'w word sat_counter" where
  "sat_add v c = (if v \<ge> 0 then sat_add_nonneg v c else sat_sub_nonneg (- v) c)"

definition sat_sub :: "int \<Rightarrow> 'w::len word sat_counter \<Rightarrow> 'w word sat_counter" where
  "sat_sub v c = (if v \<ge> 0 then sat_sub_nonneg v c else sat_add_nonneg (- v) c)"

definition sat_reset :: "'w::len word sat_counter \<Rightarrow> 'w word sat_counter" where
  "sat_reset c = c\<lparr>counter := initialVal c\<rparr>"

definition isSaturated :: "'w::len word sat_counter \<Rightarrow> bool" where
  "isSaturated c \<longleftrightarrow> counter c = maxVal c"

definition saturate :: "'w::len word sat_counter \<Rightarrow> 'w word \<times> 'w word sat_counter" where
  "saturate c = (let diff = maxVal c - counter c in (diff, c\<lparr>counter := maxVal c\<rparr>))"

definition saturation_at_least :: "nat \<Rightarrow> 'w::len word sat_counter \<Rightarrow> bool" where
  "saturation_at_least percent c \<longleftrightarrow>
     maxVal c \<noteq> 0 \<and> unat (counter c) * 100 \<ge> percent * unat (maxVal c)"

section \<open>Saturation\<close>

definition sat_inv :: "'w::len word sat_counter \<Rightarrow> bool" where
  "sat_inv c \<longleftrightarrow> counter c \<le> maxVal c \<and> initialVal c \<le> maxVal c"

lemma newSatCounter_inv: "newSatCounter n i = Inr c \<Longrightarrow> sat_inv c \<and> counter c = i"
  by (auto simp: newSatCounter_def sat_inv_def Let_def not_less)

lemma sat_fields [simp]:
  "maxVal (sat_inc c) = maxVal c" "maxVal (sat_dec c) = maxVal c" "maxVal (sat_add v c) = maxVal c"
  "maxVal (sat_sub v c) = maxVal c" "maxVal (sat_reset c) = maxVal c" "maxVal (snd (saturate c)) = maxVal c"
  "initialVal (sat_inc c) = initialVal c" "initialVal (sat_dec c) = initialVal c"
  "initialVal (sat_add v c) = initialVal c" "initialVal (sat_sub v c) = initialVal c"
  "initialVal (snd (saturate c)) = initialVal c" "counter (snd (saturate c)) = maxVal c"
  by (simp_all add: sat_inc_def sat_dec_def sat_add_def sat_sub_def sat_add_nonneg_def sat_sub_nonneg_def
    sat_reset_def saturate_def)

text \<open>\<open>clamp c v\<close>: the value \<open>v\<close> forced into the range of the counter.\<close>

definition clamp :: "'w::len word sat_counter \<Rightarrow> int \<Rightarrow> int" where
  "clamp c v = max 0 (min (uint (maxVal c)) v)"

lemma uint_max_minus:
  assumes "sat_inv c"
  shows "uint (maxVal c - counter c) = uint (maxVal c) - uint (counter c)"
  using assms by (simp add: sat_inv_def word_le_def uint_sub_if')

lemma uint_add_nonneg:
  assumes "sat_inv c" "0 \<le> v"
  shows "uint (counter (sat_add_nonneg v c)) = clamp c (uint (counter c) + v)"
proof (cases "uint (maxVal c - counter c) \<ge> v")
  case True
  then have le: "uint (counter c) + v \<le> uint (maxVal c)" using uint_max_minus [OF assms(1)] by simp
  then have "uint (counter c) + v < 2 ^ LENGTH('a)" using uint_bounded [of "maxVal c"] by linarith
  then have "uint (counter c + word_of_int v) = uint (counter c) + v"
    using assms(2) by (simp add: uint_word_ariths uint_word_of_int mod_add_right_eq)
  with True le assms(2) show ?thesis by (simp add: sat_add_nonneg_def clamp_def)
next
  case False
  then show ?thesis
    using uint_max_minus [OF assms(1)] by (simp add: sat_add_nonneg_def clamp_def)
qed

lemma uint_sub_nonneg:
  assumes "sat_inv c" "0 \<le> v"
  shows "uint (counter (sat_sub_nonneg v c)) = clamp c (uint (counter c) - v)"
proof (cases "uint (counter c) > v")
  case True
  have "uint (counter c) - v < 2 ^ LENGTH('a)" using uint_bounded [of "counter c"] assms(2) by linarith
  then have "uint (counter c - word_of_int v) = uint (counter c) - v"
    using True by (simp add: uint_word_ariths uint_word_of_int mod_diff_right_eq)
  moreover have "uint (counter c) - v \<le> uint (maxVal c)"
    using assms by (simp add: sat_inv_def word_le_def)
  ultimately show ?thesis using True by (simp add: sat_sub_nonneg_def clamp_def)
next
  case False
  then show ?thesis by (simp add: sat_sub_nonneg_def clamp_def)
qed

lemma sat_add_clamp: "sat_inv c \<Longrightarrow> uint (counter (sat_add v c)) = clamp c (uint (counter c) + v)"
  using uint_add_nonneg [of c v] uint_sub_nonneg [of c "- v"] by (simp add: sat_add_def)

lemma sat_sub_clamp: "sat_inv c \<Longrightarrow> uint (counter (sat_sub v c)) = clamp c (uint (counter c) - v)"
  using uint_sub_nonneg [of c v] uint_add_nonneg [of c "- v"] by (simp add: sat_sub_def)

lemma sat_inc_clamp:
  assumes "sat_inv c"
  shows "uint (counter (sat_inc c)) = clamp c (uint (counter c) + 1)"
proof (cases "counter c < maxVal c")
  case True
  then have lt: "uint (counter c) + 1 \<le> uint (maxVal c)" by (simp add: word_less_def)
  then have "uint (counter c) + 1 < 2 ^ LENGTH('a)" using uint_bounded [of "maxVal c"] by linarith
  then have "uint (counter c + 1) = uint (counter c) + 1"
    by (simp add: uint_word_ariths)
  with True lt show ?thesis by (simp add: sat_inc_def clamp_def)
next
  case False
  with assms show ?thesis by (simp add: sat_inc_def clamp_def sat_inv_def word_le_def word_less_def)
qed

lemma sat_dec_clamp:
  assumes "sat_inv c"
  shows "uint (counter (sat_dec c)) = clamp c (uint (counter c) - 1)"
proof (cases "counter c > 0")
  case True
  then have "uint (counter c) \<ge> 1" by (simp add: word_less_def)
  moreover have "uint (counter c) - 1 < 2 ^ LENGTH('a)"
    using uint_bounded [of "counter c"] by linarith
  ultimately have "uint (counter c - 1) = uint (counter c) - 1"
    by (simp add: uint_word_ariths)
  with True assms show ?thesis
    by (simp add: sat_dec_def clamp_def sat_inv_def word_le_def word_less_def)
next
  case False
  then have "counter c = 0" by (simp add: word_gt_0)
  then show ?thesis by (simp add: sat_dec_def clamp_def)
qed

lemma clamp_le: "clamp c v \<le> uint (maxVal c)"
  by (simp add: clamp_def)

lemma sat_inv_ops [simp]:
  assumes "sat_inv c"
  shows "sat_inv (sat_inc c)" "sat_inv (sat_dec c)" "sat_inv (sat_add v c)" "sat_inv (sat_sub v c)"
    "sat_inv (sat_reset c)" "sat_inv (snd (saturate c))"
proof -
  have le: "uint (initialVal c) \<le> uint (maxVal c)" using assms by (simp add: sat_inv_def word_le_def)
  then show "sat_inv (sat_inc c)" "sat_inv (sat_dec c)" "sat_inv (sat_add v c)" "sat_inv (sat_sub v c)"
    by (simp_all add: sat_inv_def word_le_def sat_inc_clamp [OF assms] sat_dec_clamp [OF assms]
      sat_add_clamp [OF assms] sat_sub_clamp [OF assms] clamp_le)
  from le show "sat_inv (sat_reset c)" "sat_inv (snd (saturate c))"
    by (simp_all add: sat_inv_def word_le_def) (simp_all add: sat_reset_def)
qed

text \<open>
  A saturating counter saturates: starting from a counter within its range, the four arithmetic
  operations yield the exact result forced into the range from 0 to the maximum, and stay within it.
\<close>

theorem sat_counter_saturates:
  assumes "sat_inv c"
  shows "uint (counter (sat_inc c)) = clamp c (uint (counter c) + 1) \<and>
    uint (counter (sat_dec c)) = clamp c (uint (counter c) - 1) \<and>
    uint (counter (sat_add v c)) = clamp c (uint (counter c) + v) \<and>
    uint (counter (sat_sub v c)) = clamp c (uint (counter c) - v) \<and>
    sat_inv (sat_inc c) \<and> sat_inv (sat_dec c) \<and> sat_inv (sat_add v c) \<and> sat_inv (sat_sub v c)"
  using assms by (simp add: sat_inc_clamp sat_dec_clamp sat_add_clamp sat_sub_clamp)

definition ex_counter :: "8 word sat_counter" where
  "ex_counter = \<lparr>initialVal = 0, maxVal = 7, counter = 5\<rparr>"

theorem sat_counter_saturates_witness: "uint (counter (sat_add 100 ex_counter)) = 7"
  using sat_counter_saturates [of ex_counter 100] by (simp add: ex_counter_def sat_inv_def clamp_def)

text \<open>
  The left shift does not saturate: it truncates to the counter's type before it compares with
  the maximum.  A full-width 8-bit counter at 200 shifted by one holds 144 instead of its maximum
  255, and a 4-bit counter at 1 shifted by eight holds 0 instead of 15.
\<close>

theorem sat_shl_wraps:
  "sat_shl 1 \<lparr>initialVal = 0, maxVal = 255, counter = 200 :: 8 word\<rparr> =
     \<lparr>initialVal = 0, maxVal = 255, counter = 144\<rparr> \<and>
   sat_shl 8 \<lparr>initialVal = 0, maxVal = 15, counter = 1 :: 8 word\<rparr> =
     \<lparr>initialVal = 0, maxVal = 15, counter = 0\<rparr>"
  by (simp add: sat_shl_def push_bit_eq_mult)

end
