(* ===== verification/Rrip_RP.thy ===== *)
theory Rrip_RP
  imports Repl_Policy Random_Gen Sat_Counter
begin

text \<open>
  Re-reference interval prediction: \<open>brrip_rp.cc\<close> (bimodal, static as a special case) and the
  signature-based predictor on top of it, \<open>ship_rp.cc\<close>.  A block carries a saturating counter, its
  predicted re-reference interval, of which a greater value means a later use.
\<close>

section \<open>BRRIP\<close>

record brrip_repl_data = replacement_data +
  rrpv :: "8 word sat_counter"
  brrip_valid :: bool

record brrip_config =
  numRRPVBits :: nat
  hitPriority :: bool
  btp :: uint32

definition newBRRIP :: "nat \<Rightarrow> bool \<Rightarrow> uint32 \<Rightarrow> brrip_config res" where
  "newBRRIP num_bits hit_priority b =
     checkR Fatal (\<not> num_bits \<le> 0)
       (Inr \<lparr>numRRPVBits = num_bits, hitPriority = hit_priority, btp = b\<rparr>)"

text \<open>Creating the data fails if the counter rejects the number of bits.\<close>

definition brrip_instantiateEntry :: "'c brrip_config_scheme \<Rightarrow> replaceable_entry option \<Rightarrow> brrip_repl_data res" where
  "brrip_instantiateEntry cfg e0 =
     bindR (newSatCounter (numRRPVBits cfg) 0) (\<lambda>c.
     Inr \<lparr>rd_entry = e0, rrpv = c, brrip_valid = False\<rparr>)"

definition brrip_invalidate :: "'a brrip_repl_data_scheme \<Rightarrow> 'a brrip_repl_data_scheme" where
  "brrip_invalidate d = d\<lparr>brrip_valid := False\<rparr>"

definition brrip_touch :: "'c brrip_config_scheme \<Rightarrow> 'a brrip_repl_data_scheme \<Rightarrow> 'a brrip_repl_data_scheme" where
  "brrip_touch cfg d =
     (if hitPriority cfg then d\<lparr>rrpv := sat_reset (rrpv d)\<rparr> else d\<lparr>rrpv := sat_dec (rrpv d)\<rparr>)"

definition brrip_reset ::
  "'c brrip_config_scheme \<Rightarrow> rng \<Rightarrow> 'a brrip_repl_data_scheme \<Rightarrow> (rng \<times> 'a brrip_repl_data_scheme) res" where
  "brrip_reset cfg g d =
     (let c = snd (saturate (rrpv d)) in
      bindR (rng_random 1 100 g) (\<lambda>(r, g').
      let c' = (if r \<le> btp cfg then sat_dec c else c)
      in Inr (g', d\<lparr>rrpv := c', brrip_valid := True\<rparr>)))"

text \<open>The search loop: the first invalid candidate ends it, otherwise a greater value replaces the
  victim.  The result says which of the two happened.\<close>

fun brrip_loop :: "nat \<times> 'a brrip_repl_data_scheme \<Rightarrow> nat \<Rightarrow> 'a brrip_repl_data_scheme list \<Rightarrow> nat + nat" where
  "brrip_loop (v, dv) i [] = Inr v"
| "brrip_loop (v, dv) i (d # ds) =
     (if \<not> brrip_valid d then Inl i
      else if counter (rrpv d) > counter (rrpv dv) then brrip_loop (i, d) (Suc i) ds
      else brrip_loop (v, dv) (Suc i) ds)"

definition brrip_age :: "int \<Rightarrow> 'a brrip_repl_data_scheme \<Rightarrow> 'a brrip_repl_data_scheme" where
  "brrip_age diff d = d\<lparr>rrpv := sat_add diff (rrpv d)\<rparr>"

definition brrip_getVictim ::
  "'a brrip_repl_data_scheme list \<Rightarrow> ('a brrip_repl_data_scheme list \<times> nat) res" where
  "brrip_getVictim ds =
     checkR AssertFail (ds \<noteq> [])
       (case brrip_loop (0, hd ds) 0 ds of
          Inl i \<Rightarrow> Inr (ds, i)
        | Inr v \<Rightarrow>
            (let (diff, c) = saturate (rrpv (ds ! v));
                 ds' = ds[v := (ds ! v)\<lparr>rrpv := c\<rparr>]
             in Inr (if uint diff > 0 then map (brrip_age (uint diff)) ds' else ds', v)))"

section \<open>SHiP\<close>

record ship_repl_data = brrip_repl_data +
  signature :: uint64
  outcome :: bool

record ship_state =
  ship_rng :: rng
  SHCT :: "8 word sat_counter list"

record ship_config = brrip_config +
  insertionThreshold :: nat

text \<open>What a policy reads of a packet: the address and the program counter, if there is one.\<close>

record packet =
  pkt_addr :: addr
  pkt_pc :: "addr option"

definition ship_instantiateEntry :: "'c brrip_config_scheme \<Rightarrow> replaceable_entry option \<Rightarrow> ship_repl_data res" where
  "ship_instantiateEntry cfg e0 =
     bindR (newSatCounter (numRRPVBits cfg) 0) (\<lambda>c.
     Inr \<lparr>rd_entry = e0, rrpv = c, brrip_valid = False, signature = 0, outcome = False\<rparr>)"

definition setSignature :: "uint64 \<Rightarrow> ship_repl_data \<Rightarrow> ship_repl_data" where
  "setSignature s d = d\<lparr>signature := s, outcome := False\<rparr>"

definition setReReferenced :: "ship_repl_data \<Rightarrow> ship_repl_data" where
  "setReReferenced d = d\<lparr>outcome := True\<rparr>"

definition wasReReferenced :: "ship_repl_data \<Rightarrow> bool" where
  "wasReReferenced d = outcome d"

definition ship_newTable :: "nat \<Rightarrow> nat \<Rightarrow> 8 word sat_counter list res" where
  "ship_newTable nbits shct_size = bindR (newSatCounter nbits 0) (\<lambda>c. Inr (replicate shct_size c))"

definition SHiPMem_getSignature :: "ship_state \<Rightarrow> packet \<Rightarrow> uint64 res" where
  "SHiPMem_getSignature st pkt =
     (if SHCT st = [] then Inl DivByZero else Inr (pkt_addr pkt mod of_nat (length (SHCT st))))"

definition SHiPPC_getSignature :: "ship_state \<Rightarrow> packet \<Rightarrow> uint64 res" where
  "SHiPPC_getSignature st pkt =
     (let s = (case pkt_pc pkt of Some pc \<Rightarrow> pc | None \<Rightarrow> 0) in
      if SHCT st = [] then Inl DivByZero else Inr (s mod of_nat (length (SHCT st))))"

definition train :: "('w sat_counter \<Rightarrow> 'w sat_counter) \<Rightarrow> uint64 \<Rightarrow> 'w sat_counter list \<Rightarrow> 'w sat_counter list res" where
  "train f s t = bindR (vec_at t (unat s)) (\<lambda>c. Inr (t[unat s := f c]))"

definition ship_invalidate :: "ship_state \<Rightarrow> ship_repl_data \<Rightarrow> (ship_state \<times> ship_repl_data) res" where
  "ship_invalidate st d =
     bindR (if wasReReferenced d then train sat_dec (signature d) (SHCT st) else Inr (SHCT st)) (\<lambda>t.
     Inr (st\<lparr>SHCT := t\<rparr>, brrip_invalidate d))"

definition ship_touch ::
  "(ship_state \<Rightarrow> packet \<Rightarrow> uint64 res) \<Rightarrow> ship_config \<Rightarrow> packet \<Rightarrow> ship_state \<Rightarrow> ship_repl_data
   \<Rightarrow> (ship_state \<times> ship_repl_data) res" where
  "ship_touch getSignature cfg pkt st d =
     bindR (getSignature st pkt) (\<lambda>s.
     bindR (train sat_inc s (SHCT st)) (\<lambda>t.
     Inr (st\<lparr>SHCT := t\<rparr>, brrip_touch cfg (setReReferenced d))))"

definition ship_reset ::
  "(ship_state \<Rightarrow> packet \<Rightarrow> uint64 res) \<Rightarrow> ship_config \<Rightarrow> packet \<Rightarrow> ship_state \<Rightarrow> ship_repl_data
   \<Rightarrow> (ship_state \<times> ship_repl_data) res" where
  "ship_reset getSignature cfg pkt st d =
     bindR (getSignature st pkt) (\<lambda>s.
     bindR (brrip_reset cfg (ship_rng st) (setSignature s d)) (\<lambda>(g, d').
     bindR (vec_at (SHCT st) (unat s)) (\<lambda>c.
     Inr (st\<lparr>ship_rng := g\<rparr>,
          if saturation_at_least (insertionThreshold cfg) c
          then d'\<lparr>rrpv := sat_dec (rrpv d')\<rparr> else d'))))"

text \<open>The overloads without a packet.\<close>

definition ship_touch_no_packet :: "ship_state \<Rightarrow> ship_repl_data \<Rightarrow> (ship_state \<times> ship_repl_data) res" where
  "ship_touch_no_packet st d = Inl Panic"

definition ship_reset_no_packet :: "ship_state \<Rightarrow> ship_repl_data \<Rightarrow> (ship_state \<times> ship_repl_data) res" where
  "ship_reset_no_packet st d = Inl Panic"

section \<open>The victim of BRRIP\<close>

text \<open>
  All blocks of a policy have counters of the same width: \<open>brrip_wf m d\<close> says that the counter
  of \<open>d\<close> is in range and that its maximum is \<open>m\<close>.
\<close>

definition brrip_wf :: "8 word \<Rightarrow> 'a brrip_repl_data_scheme \<Rightarrow> bool" where
  "brrip_wf m d \<longleftrightarrow> sat_inv (rrpv d) \<and> maxVal (rrpv d) = m"

text \<open>The value of the prediction, and the first block with the greatest one.\<close>

definition interval :: "'a brrip_repl_data_scheme \<Rightarrow> int" where
  "interval d = uint (counter (rrpv d))"

lemma interval_less_iff: "counter (rrpv d) > counter (rrpv e) \<longleftrightarrow> - interval d < - interval e"
  by (simp add: interval_def word_less_def)

lemma brrip_loop_valid:
  "list_all brrip_valid ds \<Longrightarrow>
   brrip_loop (v, dv) i ds = Inr (scan_loop (\<lambda>a b. - interval a < - interval b) (v, dv) i ds)"
  by (induction ds arbitrary: v dv i) (simp_all add: interval_less_iff)

lemma brrip_loop_invalid:
  "list_all brrip_valid ds \<Longrightarrow> \<not> brrip_valid d \<Longrightarrow>
   brrip_loop (v, dv) i (ds @ d # es) = Inl (i + length ds)"
  by (induction ds arbitrary: v dv i) simp_all

definition first_invalid :: "'a brrip_repl_data_scheme list \<Rightarrow> nat \<Rightarrow> bool" where
  "first_invalid ds k \<longleftrightarrow> k < length ds \<and> \<not> brrip_valid (ds ! k) \<and> (\<forall>j < k. brrip_valid (ds ! j))"

lemma first_invalid_victim:
  assumes "first_invalid ds k"
  shows "brrip_getVictim ds = Inr (ds, k)"
proof -
  have ds: "ds = take k ds @ ds ! k # drop (Suc k) ds" and "ds \<noteq> []"
    using assms by (auto simp: first_invalid_def id_take_nth_drop)
  have "brrip_loop (0, hd ds) 0 (take k ds @ ds ! k # drop (Suc k) ds) = Inl (0 + length (take k ds))"
    using assms by (intro brrip_loop_invalid) (auto simp: first_invalid_def list_all_length)
  then show ?thesis
    using assms \<open>ds \<noteq> []\<close> by (simp add: brrip_getVictim_def ds [symmetric] first_invalid_def)
qed

lemma brrip_age_interval:
  assumes "brrip_wf m d" "0 \<le> diff" "interval d + diff \<le> uint m"
  shows "interval (brrip_age diff d) = interval d + diff" "brrip_wf m (brrip_age diff d)"
    "brrip_valid (brrip_age diff d) = brrip_valid d"
proof -
  have s: "sat_inv (rrpv d)" and m: "maxVal (rrpv d) = m" using assms(1) by (simp_all add: brrip_wf_def)
  have "0 \<le> interval d" by (simp add: interval_def)
  then show "interval (brrip_age diff d) = interval d + diff"
    using assms(2,3) sat_add_clamp [OF s, of diff] m by (simp add: brrip_age_def interval_def clamp_def)
  then have "counter (sat_add diff (rrpv d)) \<le> m"
    using assms(3) by (simp add: brrip_age_def interval_def word_le_def)
  then show "brrip_wf m (brrip_age diff d)"
    using s m by (simp add: brrip_wf_def brrip_age_def sat_inv_def)
qed (simp add: brrip_age_def)

text \<open>Once all candidates are valid, every one of them ages by the distance of the victim to the maximum.\<close>

lemma brrip_victim_interval:
  assumes "brrip_wf m d"
  shows "interval (d\<lparr>rrpv := snd (saturate (rrpv d))\<rparr>) = uint m"
    "brrip_wf m (d\<lparr>rrpv := snd (saturate (rrpv d))\<rparr>)"
    "uint (fst (saturate (rrpv d))) = uint m - interval d" "interval d \<le> uint m"
  using assms uint_max_minus [of "rrpv d"]
  by (auto simp: interval_def brrip_wf_def sat_inv_def saturate_def word_le_def)

lemma sat_add_saturated: "0 \<le> v \<Longrightarrow> counter c = maxVal c \<Longrightarrow> sat_add v c = c"
  by (simp add: sat_add_def sat_add_nonneg_def)

definition aged :: "nat \<Rightarrow> int \<Rightarrow> 'a brrip_repl_data_scheme list \<Rightarrow> 'a brrip_repl_data_scheme list" where
  "aged v diff ds =
     (let ds' = ds[v := (ds ! v)\<lparr>rrpv := snd (saturate (rrpv (ds ! v)))\<rparr>]
      in if diff > 0 then map (brrip_age diff) ds' else ds')"

lemma aged_interval:
  assumes wf: "list_all (brrip_wf m) ds" and v: "v < length ds" "\<forall>j < length ds. interval (ds ! j) \<le> interval (ds ! v)"
    and diff: "diff = uint m - interval (ds ! v)" and j: "j < length ds"
  shows "interval (aged v diff ds ! j) = interval (ds ! j) + diff \<and> brrip_wf m (aged v diff ds ! j) \<and>
    brrip_valid (aged v diff ds ! j) = brrip_valid (ds ! j)"
proof (cases "j = v")
  case True
  have w: "brrip_wf m (ds ! v)" using wf v(1) by (simp add: list_all_length)
  note vi = brrip_victim_interval [OF w]
  have keep: "brrip_age diff ((ds ! v)\<lparr>rrpv := snd (saturate (rrpv (ds ! v)))\<rparr>) =
      (ds ! v)\<lparr>rrpv := snd (saturate (rrpv (ds ! v)))\<rparr>" if "diff > 0"
    using that by (simp add: brrip_age_def sat_add_saturated)
  show ?thesis using True v(1) vi diff keep by (simp add: aged_def Let_def)
next
  case False
  have w: "brrip_wf m (ds ! j)" and wv: "brrip_wf m (ds ! v)" using wf v(1) j by (simp_all add: list_all_length)
  have le: "interval (ds ! j) + diff \<le> uint m" using v(2) j diff by simp
  have ge: "0 \<le> diff" using brrip_victim_interval(4) [OF wv] diff by simp
  show ?thesis
    using False j w ge brrip_age_interval [OF w ge le] by (simp add: aged_def Let_def)
qed

lemma brrip_getVictim_valid:
  assumes "ds \<noteq> []" "list_all brrip_valid ds" "list_all (brrip_wf m) ds"
  shows "\<exists>v. brrip_getVictim ds = Inr (aged v (uint m - interval (ds ! v)) ds, v) \<and>
    least_at (\<lambda>d. - interval d) ds v"
proof -
  obtain v where v: "brrip_loop (0, hd ds) 0 ds = Inr v" "least_at (\<lambda>d. - interval d) ds v"
    using brrip_loop_valid [OF assms(2), of 0 "hd ds" 0] scan_best_least [OF assms(1), of "\<lambda>d. - interval d"]
    unfolding scan_best_def by blast
  then have "brrip_wf m (ds ! v)" using assms(3) by (simp add: least_at_def list_all_length)
  note vi = brrip_victim_interval(3) [OF this]
  have "brrip_getVictim ds = Inr (aged v (uint m - interval (ds ! v)) ds, v)"
    using assms(1) by (simp add: brrip_getVictim_def v(1) split_beta aged_def Let_def vi)
  with v(2) show ?thesis by blast
qed

lemma first_invalid_cases:
  "list_all brrip_valid ds \<or> (\<exists>k. first_invalid ds k)"
proof (induction ds)
  case (Cons d ds)
  show ?case
  proof (cases "brrip_valid d")
    case True
    then show ?thesis
      using Cons.IH by (auto simp: first_invalid_def nth_Cons less_Suc_eq_0_disj split: nat.splits
        intro: exI [where x = "Suc _"])
  next
    case False
    then show ?thesis by (auto simp: first_invalid_def intro: exI [where x = 0])
  qed
qed simp

definition brrip_rp :: "brrip_config \<Rightarrow> 8 word sat_counter \<Rightarrow> (rng, unit brrip_repl_data_ext) rp" where
  "brrip_rp cfg c0 = \<lparr>rp_instantiateEntry = (\<lambda>e0 s. (s, \<lparr>rd_entry = e0, rrpv = c0, brrip_valid = False\<rparr>)),
     rp_invalidate = (\<lambda>s d. Inr (s, brrip_invalidate d)),
     rp_touch = (\<lambda>now s d. Inr (s, brrip_touch cfg d)),
     rp_reset = (\<lambda>now g d. brrip_reset cfg g d),
     rp_getVictim = (\<lambda>now s cs.
       bindR (brrip_getVictim (map snd cs)) (\<lambda>(ds', k). Inr (s, ds', Some k)))\<rparr>"

lemma brrip_reset_ok: "\<exists>r. brrip_reset cfg g d = Inr r"
proof -
  obtain r g' where "rng_random 1 100 g = Inr (r, g')"
    using rng_random_bounds [of 1 100 g] by auto
  then show ?thesis by (simp add: brrip_reset_def Let_def)
qed

lemma brrip_loop_bound:
  "v < n \<Longrightarrow> i + length ds \<le> n \<Longrightarrow> case brrip_loop (v, dv) i ds of Inl k \<Rightarrow> k < n | Inr k \<Rightarrow> k < n"
  by (induction ds arbitrary: v dv i) auto

lemma brrip_getVictim_total:
  assumes "ds \<noteq> []"
  shows "\<exists>ds' k. brrip_getVictim ds = Inr (ds', k) \<and> k < length ds \<and> length ds' = length ds"
  using assms brrip_loop_bound [of 0 "length ds" 0 ds "hd ds"]
  by (cases "brrip_loop (0, hd ds) 0 ds") (auto simp: brrip_getVictim_def Let_def split_beta)

interpretation brrip: total_policy "brrip_rp cfg c0" "\<lambda>_. True" "\<lambda>_. True" for cfg c0
proof (rule total_policy_trivialI)
  show "\<exists>s' ds' i. rp_getVictim (brrip_rp cfg c0) now s cs = Inr (s', ds', Some i) \<and> i < length cs \<and>
      length ds' = length cs" if "cs \<noteq> []" "length cs < 2 ^ 31" for now s cs
    using that brrip_getVictim_total [of "map snd cs"] by (auto simp: brrip_rp_def)
qed (auto simp: brrip_rp_def intro: brrip_reset_ok simp del: split_paired_Ex)

section \<open>SHiP stays inside its table\<close>

text \<open>The subclasses of SHiP differ in the signature of a packet; all of them index the table.\<close>

locale signature_source =
  fixes getSignature :: "ship_state \<Rightarrow> packet \<Rightarrow> uint64 res"
  assumes signature_in_table: "SHCT st \<noteq> [] \<Longrightarrow> length (SHCT st) < 2 ^ 64 \<Longrightarrow>
    \<exists>s. getSignature st pkt = Inr s \<and> unat s < length (SHCT st)"

lemma unat_mod_length:
  "n \<noteq> 0 \<Longrightarrow> n < 2 ^ 64 \<Longrightarrow> unat ((a :: uint64) mod of_nat n) < n"
  by (simp add: unat_mod unat_of_nat take_bit_nat_eq_self)

interpretation SHiPMem: signature_source SHiPMem_getSignature
  by unfold_locales (simp add: SHiPMem_getSignature_def unat_mod_length)

interpretation SHiPPC: signature_source SHiPPC_getSignature
  by unfold_locales (simp add: SHiPPC_getSignature_def unat_mod_length Let_def)

definition ship_table_ok :: "ship_state \<Rightarrow> bool" where
  "ship_table_ok st \<longleftrightarrow> SHCT st \<noteq> [] \<and> length (SHCT st) < 2 ^ 64 \<and> list_all sat_inv (SHCT st)"

definition ship_block_ok :: "8 word \<Rightarrow> ship_state \<Rightarrow> ship_repl_data \<Rightarrow> bool" where
  "ship_block_ok m st d \<longleftrightarrow> brrip_wf m d \<and> unat (signature d) < length (SHCT st)"

lemma brrip_wf_update:
  "brrip_wf m d \<Longrightarrow> brrip_wf m (brrip_touch cfg d)"
  "brrip_wf m d \<Longrightarrow> brrip_wf m (brrip_invalidate d)"
  "brrip_wf m d \<Longrightarrow> brrip_wf m (d\<lparr>rrpv := sat_dec (rrpv d)\<rparr>)"
  using sat_inv_ops [of "rrpv d"]
  by (auto simp: brrip_wf_def brrip_touch_def brrip_invalidate_def)

lemma brrip_reset_wf:
  assumes "brrip_wf m d" "brrip_reset cfg g d = Inr (g', d')"
  shows "brrip_wf m d' \<and> brrip_valid d'"
  using assms sat_inv_ops [of "rrpv d"] sat_inv_ops [of "snd (saturate (rrpv d))"]
  by (auto simp: brrip_wf_def brrip_reset_def Let_def res_simps split: if_splits)

lemma brrip_reset_signature:
  "brrip_reset cfg g d = Inr (g', d') \<Longrightarrow> signature d' = signature d \<and> outcome d' = outcome d"
  by (auto simp: brrip_reset_def Let_def res_simps)

lemma brrip_touch_signature [simp]:
  "signature (brrip_touch cfg d) = signature d" "outcome (brrip_touch cfg d) = outcome d"
  by (simp_all add: brrip_touch_def)

lemma ship_fields [simp]:
  "signature (setSignature s d) = s" "signature (setReReferenced d) = signature d"
  "signature (brrip_invalidate d) = signature d" "wasReReferenced (setReReferenced d)"
  "\<not> wasReReferenced (setSignature s d)"
  "brrip_wf m (setSignature s d) = brrip_wf m d" "brrip_wf m (setReReferenced d) = brrip_wf m d"
  by (simp_all add: setSignature_def setReReferenced_def brrip_invalidate_def brrip_wf_def wasReReferenced_def)

lemma train_ok:
  assumes "unat s < length t" "list_all sat_inv t" "\<And>c. sat_inv c \<Longrightarrow> sat_inv (f c)"
  shows "train f s t = Inr (t[unat s := f (t ! unat s)]) \<and> list_all sat_inv (t[unat s := f (t ! unat s)])"
  using assms by (auto simp: train_def list_all_length nth_list_update)

text \<open>The operations of a cache on the blocks of one set.\<close>

datatype ship_op = ShTouch nat packet | ShReset nat packet | ShInvalidate nat | ShVictim

definition on_block ::
  "nat \<Rightarrow> (ship_state \<Rightarrow> ship_repl_data \<Rightarrow> (ship_state \<times> ship_repl_data) res)
   \<Rightarrow> ship_state \<times> ship_repl_data list \<Rightarrow> (ship_state \<times> ship_repl_data list) res" where
  "on_block i f sd =
     bindR (vec_at (snd sd) i) (\<lambda>d. bindR (f (fst sd) d) (\<lambda>(st', d'). Inr (st', (snd sd)[i := d'])))"

fun ship_step ::
  "(ship_state \<Rightarrow> packet \<Rightarrow> uint64 res) \<Rightarrow> ship_config \<Rightarrow> ship_op
   \<Rightarrow> ship_state \<times> ship_repl_data list \<Rightarrow> (ship_state \<times> ship_repl_data list) res" where
  "ship_step sig cfg (ShTouch i pkt) sd = on_block i (ship_touch sig cfg pkt) sd"
| "ship_step sig cfg (ShReset i pkt) sd = on_block i (ship_reset sig cfg pkt) sd"
| "ship_step sig cfg (ShInvalidate i) sd = on_block i ship_invalidate sd"
| "ship_step sig cfg ShVictim sd = bindR (brrip_getVictim (snd sd)) (\<lambda>(ds', k). Inr (fst sd, ds'))"

fun ship_op_ok :: "nat \<Rightarrow> ship_op \<Rightarrow> bool" where
  "ship_op_ok n (ShTouch i pkt) = (i < n)"
| "ship_op_ok n (ShReset i pkt) = (i < n)"
| "ship_op_ok n (ShInvalidate i) = (i < n)"
| "ship_op_ok n ShVictim = (0 < n)"

definition ship_inv :: "8 word \<Rightarrow> ship_state \<times> ship_repl_data list \<Rightarrow> bool" where
  "ship_inv m sd \<longleftrightarrow> ship_table_ok (fst sd) \<and> list_all (ship_block_ok m (fst sd)) (snd sd)"

lemma ship_block_ok_mono: "length (SHCT st') = length (SHCT st) \<Longrightarrow> ship_block_ok m st' = ship_block_ok m st"
  by (simp add: ship_block_ok_def fun_eq_iff)

text \<open>What every operation on one block promises.\<close>

definition ship_keeps ::
  "8 word \<Rightarrow> (ship_state \<Rightarrow> ship_repl_data \<Rightarrow> (ship_state \<times> ship_repl_data) res) \<Rightarrow> bool" where
  "ship_keeps m f \<longleftrightarrow> (\<forall>st d. ship_table_ok st \<longrightarrow> ship_block_ok m st d \<longrightarrow>
     (\<exists>st' d'. f st d = Inr (st', d') \<and> ship_table_ok st' \<and> ship_block_ok m st' d' \<and>
        length (SHCT st') = length (SHCT st)))"

lemma ship_invalidate_keeps: "ship_keeps m ship_invalidate"
  unfolding ship_keeps_def
proof (intro allI impI)
  fix st d
  assume ok: "ship_table_ok st" "ship_block_ok m st d"
  then have t: "train sat_dec (signature d) (SHCT st) =
      Inr ((SHCT st)[unat (signature d) := sat_dec (SHCT st ! unat (signature d))]) \<and>
      list_all sat_inv ((SHCT st)[unat (signature d) := sat_dec (SHCT st ! unat (signature d))])"
    by (intro train_ok) (simp_all add: ship_table_ok_def ship_block_ok_def)
  show "\<exists>st' d'. ship_invalidate st d = Inr (st', d') \<and> ship_table_ok st' \<and> ship_block_ok m st' d' \<and>
      length (SHCT st') = length (SHCT st)"
    using ok t by (auto simp: ship_invalidate_def ship_table_ok_def ship_block_ok_def brrip_wf_update)
qed

lemma on_block_keeps:
  assumes "ship_keeps m f" "ship_inv m sd" "i < length (snd sd)"
  shows "\<exists>sd'. on_block i f sd = Inr sd' \<and> ship_inv m sd' \<and> length (snd sd') = length (snd sd)"
proof -
  obtain st ds where sd: "sd = (st, ds)" by (cases sd)
  have ok: "ship_table_ok st" "ship_block_ok m st (ds ! i)"
    using assms(2,3) by (auto simp: sd ship_inv_def list_all_length)
  obtain st' d' where f: "f st (ds ! i) = Inr (st', d')" "ship_table_ok st'" "ship_block_ok m st' d'"
      "length (SHCT st') = length (SHCT st)"
    using assms(1) ok unfolding ship_keeps_def by blast
  have "list_all (ship_block_ok m st') ds"
    using assms(2) ship_block_ok_mono [OF f(4), of m] by (simp add: sd ship_inv_def)
  then show ?thesis
    using f assms(3) by (simp add: sd on_block_def ship_inv_def list_all_update)
qed

context signature_source
begin

lemma ship_touch_keeps: "ship_keeps m (ship_touch getSignature cfg pkt)"
  unfolding ship_keeps_def
proof (intro allI impI)
  fix st d
  assume ok: "ship_table_ok st" "ship_block_ok m st d"
  then obtain s where s: "getSignature st pkt = Inr s" "unat s < length (SHCT st)"
    using signature_in_table [of st pkt] by (auto simp: ship_table_ok_def)
  have t: "train sat_inc s (SHCT st) = Inr ((SHCT st)[unat s := sat_inc (SHCT st ! unat s)]) \<and>
      list_all sat_inv ((SHCT st)[unat s := sat_inc (SHCT st ! unat s)])"
    using ok s(2) by (intro train_ok) (simp_all add: ship_table_ok_def)
  show "\<exists>st' d'. ship_touch getSignature cfg pkt st d = Inr (st', d') \<and> ship_table_ok st' \<and>
      ship_block_ok m st' d' \<and> length (SHCT st') = length (SHCT st)"
    using ok s t by (auto simp: ship_touch_def ship_table_ok_def ship_block_ok_def brrip_wf_update)
qed

lemma ship_reset_keeps: "ship_keeps m (ship_reset getSignature cfg pkt)"
  unfolding ship_keeps_def
proof (intro allI impI)
  fix st d
  assume ok: "ship_table_ok st" "ship_block_ok m st d"
  then obtain s where s: "getSignature st pkt = Inr s" "unat s < length (SHCT st)"
    using signature_in_table [of st pkt] by (auto simp: ship_table_ok_def)
  obtain g d' where r: "brrip_reset cfg (ship_rng st) (setSignature s d) = Inr (g, d')"
    using brrip_reset_ok [of cfg "ship_rng st" "setSignature s d"] by auto
  have "brrip_wf m d'" "signature d' = s"
    using ok(2) brrip_reset_wf [OF _ r] brrip_reset_signature [OF r] by (simp_all add: ship_block_ok_def)
  then show "\<exists>st' d'. ship_reset getSignature cfg pkt st d = Inr (st', d') \<and> ship_table_ok st' \<and>
      ship_block_ok m st' d' \<and> length (SHCT st') = length (SHCT st)"
    using ok s r by (auto simp: ship_reset_def ship_table_ok_def ship_block_ok_def brrip_wf_update)
qed

lemma step_keeps_blocks:
  assumes "ship_inv m sd" "ship_op_ok (length (snd sd)) op" "op \<noteq> ShVictim"
  shows "\<exists>sd'. ship_step getSignature cfg op sd = Inr sd' \<and> ship_inv m sd' \<and>
    length (snd sd') = length (snd sd)"
  using assms on_block_keeps [OF ship_touch_keeps assms(1)] on_block_keeps [OF ship_reset_keeps assms(1)]
    on_block_keeps [OF ship_invalidate_keeps assms(1)]
  by (cases op) simp_all

end

lemma signature_aged: "v < length ds \<Longrightarrow> j < length ds \<Longrightarrow> signature (aged v diff ds ! j) = signature (ds ! j)"
  by (auto simp: aged_def Let_def brrip_age_def nth_list_update)

lemma length_aged [simp]: "length (aged v diff ds) = length ds"
  by (simp add: aged_def Let_def)

lemma ship_victim_keeps:
  assumes "ship_inv m sd" "snd sd \<noteq> []"
  shows "\<exists>ds' k. brrip_getVictim (snd sd) = Inr (ds', k) \<and> ship_inv m (fst sd, ds') \<and> length ds' = length (snd sd)"
proof -
  have wf: "list_all (brrip_wf m) (snd sd)"
    using assms(1) by (auto simp: ship_inv_def ship_block_ok_def list_all_iff)
  show ?thesis
  proof (cases "list_all brrip_valid (snd sd)")
    case False
    then obtain k where "first_invalid (snd sd) k" using first_invalid_cases by blast
    then show ?thesis using first_invalid_victim [of "snd sd" k] assms(1) by simp
  next
    case True
    then obtain v where v: "brrip_getVictim (snd sd) = Inr (aged v (uint m - interval (snd sd ! v)) (snd sd), v)"
      "least_at (\<lambda>d. - interval d) (snd sd) v"
      using brrip_getVictim_valid [OF assms(2) _ wf] by blast
    have lt: "v < length (snd sd)" "\<forall>j < length (snd sd). interval (snd sd ! j) \<le> interval (snd sd ! v)"
      using v(2) by (auto simp: least_at_def)
    have "list_all (ship_block_ok m (fst sd)) (aged v (uint m - interval (snd sd ! v)) (snd sd))"
      using aged_interval [OF wf lt refl] signature_aged [OF lt(1)] assms(1)
      by (simp add: list_all_length ship_block_ok_def ship_inv_def)
    with v(1) assms(1) show ?thesis by (simp add: ship_inv_def)
  qed
qed

lemma ship_step_keeps:
  assumes "signature_source sig" "ship_inv m sd" "ship_op_ok (length (snd sd)) op"
  shows "\<exists>sd'. ship_step sig cfg op sd = Inr sd' \<and> ship_inv m sd' \<and> length (snd sd') = length (snd sd)"
proof (cases "op = ShVictim")
  case True
  then have "snd sd \<noteq> []" using assms(3) by auto
  from ship_victim_keeps [OF assms(2) this] True show ?thesis by auto
next
  case False
  from signature_source.step_keeps_blocks [OF assms False] show ?thesis .
qed

fun ship_run ::
  "(ship_state \<Rightarrow> packet \<Rightarrow> uint64 res) \<Rightarrow> ship_config \<Rightarrow> ship_op list
   \<Rightarrow> ship_state \<times> ship_repl_data list \<Rightarrow> (ship_state \<times> ship_repl_data list) res" where
  "ship_run sig cfg [] sd = Inr sd"
| "ship_run sig cfg (op # ops) sd = bindR (ship_step sig cfg op sd) (ship_run sig cfg ops)"

lemma ship_run_keeps:
  assumes "signature_source sig" "ship_inv m sd" "list_all (ship_op_ok (length (snd sd))) ops"
  shows "\<exists>sd'. ship_run sig cfg ops sd = Inr sd' \<and> ship_inv m sd' \<and> length (snd sd') = length (snd sd)"
  using assms(2,3)
proof (induction ops arbitrary: sd)
  case (Cons op ops)
  then obtain sd1 where "ship_step sig cfg op sd = Inr sd1" "ship_inv m sd1" "length (snd sd1) = length (snd sd)"
    using ship_step_keeps [OF assms(1) Cons.prems(1), of op cfg] by auto
  with Cons.IH [of sd1] Cons.prems(2) show ?case by simp
qed simp

text \<open>A policy object and a set as the constructors make them.\<close>

definition ship_initial :: "nat \<Rightarrow> nat \<Rightarrow> nat \<Rightarrow> rng \<Rightarrow> (ship_state \<times> ship_repl_data list) res" where
  "ship_initial nbits shct_size assoc g =
     bindR (ship_newTable nbits shct_size) (\<lambda>t.
     bindR (ship_instantiateEntry \<lparr>numRRPVBits = nbits, hitPriority = False, btp = 0\<rparr> None) (\<lambda>d.
     Inr (\<lparr>ship_rng = g, SHCT = t\<rparr>, replicate assoc d)))"

lemma newSatCounter_8:
  assumes "n \<le> 8"
  shows "newSatCounter n (0 :: 8 word) =
    Inr \<lparr>initialVal = 0, maxVal = ucast ((push_bit n 1 :: uint64) - 1), counter = 0\<rparr>"
  using assms by (simp add: newSatCounter_def Let_def)

lemma ship_initial_inv:
  assumes "n \<le> 8" "0 < shct_size" "shct_size < 2 ^ 64"
  shows "\<exists>sd. ship_initial n shct_size assoc g = Inr sd \<and>
    ship_inv (ucast ((push_bit n 1 :: uint64) - 1)) sd \<and> length (snd sd) = assoc"
  using assms
  by (simp add: ship_initial_def ship_newTable_def ship_instantiateEntry_def newSatCounter_8 ship_inv_def
    ship_table_ok_def ship_block_ok_def brrip_wf_def sat_inv_def list_all_length)

text \<open>
  The victim of BRRIP and its ageing step.  An invalid candidate is taken before any valid one,
  the first of them, and nothing else changes.  Otherwise the victim is the first candidate with the
  greatest re-reference prediction, and all candidates age by the distance of the victim to the
  maximum: no counter saturates on the way, so the differences between the candidates are kept, and
  the victim ends at the maximum.
\<close>

theorem brrip_victim_ages:
  assumes "ds \<noteq> []" "list_all (brrip_wf m) ds"
  shows "\<exists>ds' v. brrip_getVictim ds = Inr (ds', v) \<and> length ds' = length ds \<and>
    (if list_all brrip_valid ds
     then least_at (\<lambda>d. - interval d) ds v \<and> interval (ds' ! v) = uint m \<and>
       (\<forall>j < length ds. interval (ds' ! j) = interval (ds ! j) + (uint m - interval (ds ! v)) \<and>
          brrip_wf m (ds' ! j) \<and> brrip_valid (ds' ! j))
     else first_invalid ds v \<and> ds' = ds)"
proof (cases "list_all brrip_valid ds")
  case False
  then obtain k where "first_invalid ds k" using first_invalid_cases by blast
  with False show ?thesis using first_invalid_victim [of ds k] by simp
next
  case True
  then obtain v where v: "brrip_getVictim ds = Inr (aged v (uint m - interval (ds ! v)) ds, v)"
    "least_at (\<lambda>d. - interval d) ds v"
    using brrip_getVictim_valid [OF assms(1) _ assms(2)] by blast
  then have lt: "v < length ds" "\<forall>j < length ds. interval (ds ! j) \<le> interval (ds ! v)"
    by (auto simp: least_at_def)
  show ?thesis
    using True v aged_interval [OF assms(2) lt refl] lt(1) by (simp add: list_all_length)
qed

definition ex_brrip :: "nat \<Rightarrow> brrip_repl_data" where
  "ex_brrip r = \<lparr>rd_entry = None, rrpv = \<lparr>initialVal = 0, maxVal = 3, counter = of_nat r\<rparr>, brrip_valid = True\<rparr>"

theorem brrip_victim_ages_witness:
  "\<exists>ds' v. brrip_getVictim [ex_brrip 0, ex_brrip 2, ex_brrip 2] = Inr (ds', v) \<and>
     length ds' = 3 \<and> least_at (\<lambda>d. - interval d) [ex_brrip 0, ex_brrip 2, ex_brrip 2] v \<and> interval (ds' ! v) = 3"
  using brrip_victim_ages [of "[ex_brrip 0, ex_brrip 2, ex_brrip 2]" 3]
  by (force simp: ex_brrip_def brrip_wf_def sat_inv_def)

text \<open>
  C31. SHiP never leaves its history table.  With 1 to 8 bits per counter and a table that is not
  empty, the policy and its blocks as constructed run through every sequence of hits, insertions,
  invalidations and victim searches without stopping: the signatures stored in the blocks and those
  of the packets are positions of the table, and every counter stays within its range.  This holds
  for both signatures, by address and by program counter.
\<close>

theorem ship_runs_safe:
  assumes "0 < n" "n \<le> 8" "0 < shct_size" "shct_size < 2 ^ 64" "list_all (ship_op_ok assoc) ops"
    and "sig = SHiPMem_getSignature \<or> sig = SHiPPC_getSignature"
  shows "\<exists>sd sd' m. ship_initial n shct_size assoc g = Inr sd \<and> ship_run sig cfg ops sd = Inr sd' \<and>
    ship_inv m sd' \<and> length (snd sd') = assoc"
proof -
  have sig: "signature_source sig"
    using assms(6) SHiPMem.signature_source_axioms SHiPPC.signature_source_axioms by blast
  obtain sd where sd: "ship_initial n shct_size assoc g = Inr sd"
    "ship_inv (ucast ((push_bit n 1 :: uint64) - 1)) sd" "length (snd sd) = assoc"
    using ship_initial_inv [OF assms(2-4)] by blast
  from ship_run_keeps [OF sig sd(2), of ops cfg] sd assms(5) show ?thesis by auto
qed

definition ex_rng :: rng where
  "ex_rng = \<lparr>rng_out = (\<lambda>n. of_nat (7 * n)), rng_pos = 0\<rparr>"

theorem ship_runs_safe_witness:
  "\<exists>sd sd' m. ship_initial 2 16384 4 ex_rng = Inr sd \<and>
     ship_run SHiPPC_getSignature \<lparr>numRRPVBits = 2, hitPriority = True, btp = 3, insertionThreshold = 1\<rparr>
       [ShReset 0 \<lparr>pkt_addr = 64, pkt_pc = Some 1000\<rparr>, ShTouch 0 \<lparr>pkt_addr = 64, pkt_pc = None\<rparr>,
        ShVictim, ShInvalidate 0] sd = Inr sd' \<and> ship_inv m sd' \<and> length (snd sd') = 4"
  by (rule ship_runs_safe) simp_all


definition ex_ship_state :: ship_state where
  "ex_ship_state = \<lparr>ship_rng = ex_rng, SHCT = replicate 4 \<lparr>initialVal = 0, maxVal = 3, counter = 2\<rparr>\<rparr>"

definition ex_ship_block :: ship_repl_data where
  "ex_ship_block = \<lparr>rd_entry = None, rrpv = \<lparr>initialVal = 0, maxVal = 3, counter = 0\<rparr>, brrip_valid = False,
     signature = 0, outcome = False\<rparr>"

definition ex_ship_config :: ship_config where
  "ex_ship_config = \<lparr>numRRPVBits = 2, hitPriority = True, btp = 3, insertionThreshold = 1\<rparr>"


end
