(* ===== verification/Tree_Plru_RP.thy ===== *)
theory Tree_Plru_RP
  imports Repl_Policy
begin

text \<open>
  Tree pseudo-LRU (\<open>tree_plru_rp.cc\<close>).  The blocks of a set share one vector of bits, the inner
  nodes of a binary tree in breadth-first order, so the model keeps the vectors in a store and the
  replacement data refers to its vector by address.
\<close>

section \<open>The policy\<close>

record plru_repl_data = replacement_data +
  index :: uint64
  tree :: "nat option"

record plru_state =
  numLeaves :: uint64
  plru_count :: uint64
  treeInstance :: "nat option"
  plru_store :: "bool list list"

text \<open>The detour through \<open>std::floor\<close> is exact below \<open>2^53\<close>; above, the result is past the end of
  every vector whether it is rounded or not.\<close>

definition parentIndex :: "uint64 \<Rightarrow> uint64" where
  "parentIndex i = (i - 1) div 2"

definition leftSubtreeIndex :: "uint64 \<Rightarrow> uint64" where
  "leftSubtreeIndex i = 2 * i + 1"

definition rightSubtreeIndex :: "uint64 \<Rightarrow> uint64" where
  "rightSubtreeIndex i = 2 * i + 2"

definition isRightSubtree :: "uint64 \<Rightarrow> bool" where
  "isRightSubtree i \<longleftrightarrow> i mod 2 = 0"

definition newTreePLRU :: "uint64 \<Rightarrow> plru_state res" where
  "newTreePLRU num_leaves =
     checkR Fatal (\<not> num_leaves < 1)
       (Inr \<lparr>numLeaves = num_leaves, plru_count = 0, treeInstance = None, plru_store = []\<rparr>)"

definition plru_tree_of :: "plru_state \<Rightarrow> plru_repl_data \<Rightarrow> (nat \<times> bool list) res" where
  "plru_tree_of st d =
     (case tree d of
        None \<Rightarrow> Inl NullDeref
      | Some a \<Rightarrow> bindR (vec_at (plru_store st) a) (\<lambda>t. Inr (a, t)))"

lemma unat_half: "unat ((x :: uint64) div 2) = unat x div 2"
  by (simp add: unat_div)

lemma parentIndex_less: "i \<noteq> 0 \<Longrightarrow> unat (parentIndex i) < unat i"
proof -
  assume "i \<noteq> 0"
  then have "unat (i - 1) = unat i - 1" "0 < unat i" by (simp_all add: unat_minus_one unat_gt_0)
  then show ?thesis by (simp add: parentIndex_def unat_half)
qed

text \<open>
  The loop that \<open>invalidate\<close> and \<open>touch\<close> share: from a leaf to the root, every node on the way is
  written, with the direction one came from (\<open>f = id\<close>) or its negation (\<open>f = Not\<close>).
\<close>

function plru_walk :: "(bool \<Rightarrow> bool) \<Rightarrow> uint64 \<Rightarrow> bool list \<Rightarrow> bool list res" where
  "plru_walk f tree_index t =
     (let right = isRightSubtree tree_index;
          p = parentIndex tree_index
      in if unat p < length t
         then let t' = t[unat p := f right]
              in if p \<noteq> 0 then plru_walk f p t' else Inr t'
         else Inl OutOfRange)"
  by pat_completeness auto
termination
  by (relation "measure (\<lambda>(f, i, t). if i = 0 then 2 ^ 64 else unat i)")
     (auto simp: parentIndex_less intro: order.strict_trans2 [OF unat_less_pow])

definition plru_update ::
  "(bool \<Rightarrow> bool) \<Rightarrow> plru_state \<Rightarrow> plru_repl_data \<Rightarrow> (plru_state \<times> plru_repl_data) res" where
  "plru_update f st d =
     bindR (plru_tree_of st d) (\<lambda>(a, t).
     bindR (plru_walk f (index d) t) (\<lambda>t'.
     Inr (st\<lparr>plru_store := (plru_store st)[a := t']\<rparr>, d)))"

definition plru_invalidate :: "plru_state \<Rightarrow> plru_repl_data \<Rightarrow> (plru_state \<times> plru_repl_data) res" where
  "plru_invalidate st d = plru_update (\<lambda>right. right) st d"

definition plru_touch :: "plru_state \<Rightarrow> plru_repl_data \<Rightarrow> (plru_state \<times> plru_repl_data) res" where
  "plru_touch st d = plru_update (\<lambda>right. \<not> right) st d"

definition plru_reset :: "plru_state \<Rightarrow> plru_repl_data \<Rightarrow> (plru_state \<times> plru_repl_data) res" where
  "plru_reset st d = plru_touch st d"

text \<open>
  From the root to a leaf.  The index grows with every step; it could only wrap around in a vector
  of more than \<open>2^63\<close> bits, which no allocation provides, and the descent stops there.
\<close>

function plru_descend :: "bool list \<Rightarrow> uint64 \<Rightarrow> uint64 res" where
  "plru_descend t tree_index =
     (if unat tree_index < length t
      then let next = (if t ! unat tree_index then rightSubtreeIndex tree_index
                       else leftSubtreeIndex tree_index)
           in if unat next \<le> unat tree_index then Inl OutOfRange else plru_descend t next
      else Inr tree_index)"
  by pat_completeness auto
termination
  by (relation "measure (\<lambda>(t, i). length t - unat i)") auto

definition plru_getVictim :: "plru_state \<Rightarrow> plru_repl_data list \<Rightarrow> nat res" where
  "plru_getVictim st ds =
     checkR AssertFail (ds \<noteq> [])
       (bindR (plru_tree_of st (hd ds)) (\<lambda>(a, t).
        bindR (plru_descend t 0) (\<lambda>tree_index.
        let k = unat (tree_index - (numLeaves st - 1))
        in if k < length ds then Inr k else Inl OutOfRange)))"

definition plru_instantiateEntry ::
  "replaceable_entry option \<Rightarrow> plru_state \<Rightarrow> plru_state \<times> plru_repl_data" where
  "plru_instantiateEntry e0 st =
     (let n = numLeaves st;
          st1 = (if plru_count st mod n = 0
                 then st\<lparr>treeInstance := Some (length (plru_store st)),
                         plru_store := plru_store st @ [replicate (unat (n - 1)) False]\<rparr>
                 else st)
      in (st1\<lparr>plru_count := plru_count st1 + 1\<rparr>,
          \<lparr>rd_entry = e0, index = plru_count st mod n + n - 1, tree = treeInstance st1\<rparr>))"

declare plru_walk.simps [simp del] plru_descend.simps [simp del]

section \<open>The tree over natural numbers\<close>

text \<open>
  The same two loops on unbounded indices.  The trees are small enough for the 64-bit loops to agree
  with them; all reasoning about trees is about these.
\<close>

function walk_nat :: "(bool \<Rightarrow> bool) \<Rightarrow> nat \<Rightarrow> bool list \<Rightarrow> bool list" where
  "walk_nat f i t =
     (if i = 0 then t else walk_nat f ((i - 1) div 2) (t[(i - 1) div 2 := f (even i)]))"
  by pat_completeness auto
termination
  by (relation "measure (\<lambda>(f, i, t). i)") auto

function descend_nat :: "bool list \<Rightarrow> nat \<Rightarrow> nat" where
  "descend_nat t i =
     (if i < length t then descend_nat t (if t ! i then 2 * i + 2 else 2 * i + 1) else i)"
  by pat_completeness auto
termination
  by (relation "measure (\<lambda>(t, i). length t - i)") auto

declare walk_nat.simps [simp del] descend_nat.simps [simp del]

lemma unat_parentIndex: "i \<noteq> 0 \<Longrightarrow> unat (parentIndex i) = (unat i - 1) div 2"
  by (simp add: parentIndex_def unat_half unat_minus_one)

lemma isRightSubtree_iff: "isRightSubtree i \<longleftrightarrow> even (unat i)"
proof -
  have "unat (i mod 2) = unat i mod 2" by (simp add: unat_mod)
  then show ?thesis by (metis isRightSubtree_def even_iff_mod_2_eq_zero unat_eq_zero unat_0)
qed

lemma unat_zero_iff: "unat (w :: uint64) = 0 \<longleftrightarrow> w = 0"
  by (simp add: unat_eq_zero)

lemma plru_walk_nat:
  "i \<noteq> 0 \<Longrightarrow> unat i \<le> 2 * length t \<Longrightarrow> plru_walk f i t = Inr (walk_nat f (unat i) t)"
proof (induction f i t rule: plru_walk.induct)
  case (1 f i t)
  let ?p = "parentIndex i"
  note p = unat_parentIndex [OF 1(2)]
  have pos: "0 < unat i" using 1(2) by (simp add: unat_gt_0)
  have lt: "unat ?p < length t" using 1(3) p pos by simp
  show ?case
  proof (cases "?p = 0")
    case True
    then have "(unat i - 1) div 2 = 0" using p by simp
    with True lt pos show ?thesis
      by (simp add: plru_walk.simps [of f i] walk_nat.simps [of f "unat i"] walk_nat.simps [of f 0] isRightSubtree_iff)
  next
    case False
    from 1(1) [OF refl refl lt refl False False] lt
    have "plru_walk f ?p (t[unat ?p := f (isRightSubtree i)]) =
        Inr (walk_nat f (unat ?p) (t[unat ?p := f (isRightSubtree i)]))" by simp
    with False lt pos show ?thesis
      by (simp add: plru_walk.simps [of f i] walk_nat.simps [of f "unat i"] isRightSubtree_iff p Let_def)
  qed
qed

lemma unat_children:
  assumes "unat i < 2 ^ 62"
  shows "unat (leftSubtreeIndex i) = 2 * unat i + 1" "unat (rightSubtreeIndex i) = 2 * unat i + 2"
  using assms by (simp_all add: leftSubtreeIndex_def rightSubtreeIndex_def unat_word_ariths)

lemma plru_descend_nat:
  "length t \<le> 2 ^ 62 \<Longrightarrow> \<exists>r. plru_descend t i = Inr r \<and> unat r = descend_nat t (unat i)"
proof (induction t i rule: plru_descend.induct)
  case (1 t i)
  let ?n = "if t ! unat i then rightSubtreeIndex i else leftSubtreeIndex i"
  show ?case
  proof (cases "unat i < length t")
    case True
    then have n: "unat ?n = (if t ! unat i then 2 * unat i + 2 else 2 * unat i + 1)"
      using 1(2) unat_children [of i] by simp
    then have "\<not> unat ?n \<le> unat i" by simp
    with 1(1) [OF True refl this 1(2)] True n show ?thesis
      by (simp add: plru_descend.simps [of t i] descend_nat.simps [of t "unat i"] Let_def)
  next
    case False
    then show ?thesis
      by (simp add: plru_descend.simps [of t i] descend_nat.simps [of t "unat i"])
  qed
qed

lemma length_walk_nat [simp]: "length (walk_nat f i t) = length t"
  by (induction f i t rule: walk_nat.induct) (simp add: walk_nat.simps)

text \<open>A walk from \<open>i\<close> only writes nodes before \<open>i\<close>.\<close>

lemma walk_nat_above: "i \<le> j \<Longrightarrow> walk_nat f i t ! j = t ! j"
proof (induction f i t rule: walk_nat.induct)
  case (1 f i t)
  show ?case
  proof (cases "i = 0")
    case False
    then have "(i - 1) div 2 < j" using 1(2) by auto
    then show ?thesis using False 1(1) [OF False] by (subst walk_nat.simps) simp
  qed (simp add: walk_nat.simps)
qed

lemma walk_nat_parent:
  assumes "i \<noteq> 0" "i \<le> 2 * length t"
  shows "walk_nat f i t ! ((i - 1) div 2) = f (even i)"
proof -
  have "(i - 1) div 2 < length t" using assms by simp
  then show ?thesis using assms(1) by (subst walk_nat.simps) (simp add: walk_nat_above)
qed

lemma child_of_parent:
  "i \<noteq> 0 \<Longrightarrow> (if even i then 2 * ((i - 1) div 2) + 2 else 2 * ((i - 1) div 2) + 1) = (i :: nat)"
  by (cases "even i") (auto elim!: evenE oddE)

text \<open>After a walk that points every node to where it came from, the descent passes through \<open>i\<close>.\<close>

lemma descend_walk:
  "i \<le> 2 * length t \<Longrightarrow> descend_nat (walk_nat (\<lambda>r. r) i t) 0 = descend_nat (walk_nat (\<lambda>r. r) i t) i"
proof (induction i arbitrary: t rule: less_induct)
  case (less i)
  show ?case
  proof (cases "i = 0")
    case False
    let ?p = "(i - 1) div 2"
    let ?t = "walk_nat (\<lambda>r. r) i t"
    have p: "?p < i" "?p < length t" using False less(2) by simp_all
    have t: "?t = walk_nat (\<lambda>r. r) ?p (t[?p := even i])" using False by (simp add: walk_nat.simps [of _ i])
    have "descend_nat ?t 0 = descend_nat ?t ?p" unfolding t using p by (intro less(1)) simp_all
    also have "\<dots> = descend_nat ?t i"
      using p(2) walk_nat_parent [OF False less(2), of "\<lambda>r. r"] child_of_parent [OF False]
      by (subst descend_nat.simps) simp
    finally show ?thesis .
  qed simp
qed

lemma descend_leaf: "length t \<le> i \<Longrightarrow> descend_nat t i = i"
  by (simp add: descend_nat.simps)

text \<open>The descent ends in a leaf, and the parent of that leaf points to it.\<close>

lemma descend_range:
  assumes "i < length t"
  shows "length t \<le> descend_nat t i \<and> descend_nat t i \<le> 2 * length t \<and>
    t ! ((descend_nat t i - 1) div 2) = even (descend_nat t i)"
  using assms
proof (induction t i rule: descend_nat.induct)
  case (1 t i)
  let ?n = "if t ! i then 2 * i + 2 else 2 * i + 1"
  have d: "descend_nat t i = descend_nat t ?n" using 1(2) by (subst descend_nat.simps) simp
  show ?case
  proof (cases "?n < length t")
    case True
    with 1(1) [OF 1(2)] d show ?thesis by simp
  next
    case False
    then have "descend_nat t i = ?n" using d descend_leaf by simp
    then show ?thesis using False 1(2) by (cases "t ! i") simp_all
  qed
qed

lemma descend_touched:
  assumes "i \<noteq> 0" "i \<le> 2 * length t" "t \<noteq> []"
  shows "descend_nat (walk_nat (\<lambda>r. \<not> r) i t) 0 \<noteq> i"
proof
  let ?t = "walk_nat (\<lambda>r. \<not> r) i t"
  assume "descend_nat ?t 0 = i"
  then have "?t ! ((i - 1) div 2) = even i" using descend_range [of 0 ?t] assms(3) by simp
  with walk_nat_parent [OF assms(1,2), of "\<lambda>r. \<not> r"] show False by simp
qed

section \<open>Sets of blocks\<close>

text \<open>
  \<open>plru_set st n a ds\<close>: the data \<open>ds\<close> of the \<open>n\<close> blocks of a set, in the order of the ways, as they
  were created for the tree at address \<open>a\<close>.  \<open>plru_ok\<close> bounds the number of leaves, from two on.
\<close>

definition plru_ok :: "plru_state \<Rightarrow> bool" where
  "plru_ok st \<longleftrightarrow> 2 \<le> unat (numLeaves st) \<and> unat (numLeaves st) \<le> 2 ^ 62 \<and>
     list_all (\<lambda>t. length t = unat (numLeaves st) - 1) (plru_store st)"

definition plru_set :: "plru_state \<Rightarrow> nat \<Rightarrow> plru_repl_data list \<Rightarrow> bool" where
  "plru_set st a ds \<longleftrightarrow> a < length (plru_store st) \<and> length ds = unat (numLeaves st) \<and>
     (\<forall>w < length ds. tree (ds ! w) = Some a \<and> unat (index (ds ! w)) = w + unat (numLeaves st) - 1)"

definition plru_leaf :: "plru_state \<Rightarrow> nat \<Rightarrow> nat" where
  "plru_leaf st a = descend_nat (plru_store st ! a) 0 - (unat (numLeaves st) - 1)"

lemma plru_getVictim_leaf:
  assumes "plru_ok st" "plru_set st a ds"
  shows "plru_getVictim st ds = Inr (plru_leaf st a)" "plru_leaf st a < length ds"
proof -
  let ?n = "unat (numLeaves st)" and ?t = "plru_store st ! a"
  have n: "2 \<le> ?n" "?n \<le> 2 ^ 62" and t: "length ?t = ?n - 1" and a: "a < length (plru_store st)"
    using assms by (auto simp: plru_ok_def plru_set_def list_all_length)
  have ds: "length ds = ?n" "tree (ds ! 0) = Some a" "ds \<noteq> []"
    using assms(2) n(1) by (auto simp: plru_set_def)
  obtain r where r: "plru_descend ?t 0 = Inr r" "unat r = descend_nat ?t 0"
    using plru_descend_nat [of ?t 0] t n(2) by (auto simp: le_diff_conv)
  have range: "?n - 1 \<le> unat r" "unat r \<le> 2 * (?n - 1)"
    using descend_range [of 0 ?t] t n(1) r(2) by simp_all
  have n1: "unat (numLeaves st - 1) = ?n - 1" using n(1) by (subst unat_minus_one) (auto simp: unat_gt_0 [symmetric] simp del: unat_gt_0)
  have "unat (r - (numLeaves st - 1)) = unat r - (?n - 1)"
    using range(1) n1 by (simp add: unat_sub word_le_nat_alt)
  then have k: "unat (r - (numLeaves st - 1)) = plru_leaf st a" by (simp add: plru_leaf_def r(2))
  show lt: "plru_leaf st a < length ds" using range n(1) ds(1) r(2) by (simp add: plru_leaf_def)
  show "plru_getVictim st ds = Inr (plru_leaf st a)"
    using ds a r(1) k lt by (simp add: plru_getVictim_def plru_tree_of_def Let_def hd_conv_nth)
qed

lemma plru_update_store:
  assumes "plru_ok st" "plru_set st a ds" "w < length ds"
  shows "plru_update f st (ds ! w) = Inr (st\<lparr>plru_store := (plru_store st)[a :=
    walk_nat f (w + unat (numLeaves st) - 1) (plru_store st ! a)]\<rparr>, ds ! w)"
proof -
  have n: "2 \<le> unat (numLeaves st)" "length (plru_store st ! a) = unat (numLeaves st) - 1" "a < length (plru_store st)"
    using assms(1,2) by (auto simp: plru_ok_def plru_set_def list_all_length)
  have d: "tree (ds ! w) = Some a" "unat (index (ds ! w)) = w + unat (numLeaves st) - 1"
    and w: "w < unat (numLeaves st)"
    using assms(2,3) by (auto simp: plru_set_def)
  have "index (ds ! w) \<noteq> 0" using d(2) n(1) by auto
  moreover have "unat (index (ds ! w)) \<le> 2 * length (plru_store st ! a)" using d(2) n w by simp
  ultimately have "plru_walk f (index (ds ! w)) (plru_store st ! a) =
      Inr (walk_nat f (w + unat (numLeaves st) - 1) (plru_store st ! a))"
    using plru_walk_nat [of "index (ds ! w)" "plru_store st ! a" f] d(2) by simp
  then show ?thesis using d(1) n(3) by (simp add: plru_update_def plru_tree_of_def)
qed

lemma plru_update_keeps:
  assumes "plru_ok st" "plru_set st a ds" "length t = length (plru_store st ! a)"
  shows "plru_ok (st\<lparr>plru_store := (plru_store st)[a := t]\<rparr>)"
    "plru_set st b es \<Longrightarrow> plru_set (st\<lparr>plru_store := (plru_store st)[a := t]\<rparr>) b es"
  using assms by (auto simp: plru_ok_def plru_set_def list_all_length nth_list_update)

lemma plru_leaf_update:
  "plru_leaf (st\<lparr>plru_store := (plru_store st)[a := t]\<rparr>) b =
    (if b = a \<and> a < length (plru_store st) then descend_nat t 0 - (unat (numLeaves st) - 1) else plru_leaf st b)"
  by (cases "a < length (plru_store st)") (auto simp: plru_leaf_def list_update_beyond)

section \<open>Creation\<close>

fun plru_create :: "nat \<Rightarrow> plru_state \<Rightarrow> plru_state \<times> plru_repl_data list" where
  "plru_create 0 st = (st, [])"
| "plru_create (Suc m) st =
     (let (st1, ds) = plru_create m st; (st2, d) = plru_instantiateEntry None st1 in (st2, ds @ [d]))"

definition plru_created :: "uint64 \<Rightarrow> nat \<Rightarrow> plru_state \<times> plru_repl_data list \<Rightarrow> bool" where
  "plru_created n m sd \<longleftrightarrow> numLeaves (fst sd) = n \<and> plru_count (fst sd) = of_nat m \<and> length (snd sd) = m \<and>
     plru_store (fst sd) = replicate ((m + unat n - 1) div unat n) (replicate (unat (n - 1)) False) \<and>
     treeInstance (fst sd) = (if m = 0 then None else Some ((m - 1) div unat n)) \<and>
     (\<forall>j < m. tree (snd sd ! j) = Some (j div unat n) \<and> unat (index (snd sd ! j)) = j mod unat n + unat n - 1)"

lemma div_step:
  assumes "0 < (n :: nat)"
  shows "(Suc m + n - 1) div n = (if m mod n = 0 then Suc ((m + n - 1) div n) else (m + n - 1) div n)"
    "m mod n \<noteq> 0 \<Longrightarrow> (m - 1) div n = m div n" "m mod n = 0 \<Longrightarrow> (m + n - 1) div n = m div n"
proof -
  obtain q r where m: "m = q * n + r" "r < n" using assms by (metis div_mult_mod_eq mod_less_divisor)
  have "q * n + r + n = r + Suc q * n" by simp
  then have "(q * n + r + n) div n = Suc q"
    using assms m(2) by (simp only: div_mult_self1) simp
  then have a: "(q * n + r + n) div n = Suc q" "(q * n + r) div n = q" "(q * n + r) mod n = r"
    using m(2) assms by simp_all
  have b: "(q * n + r + n - 1) div n = (if r = 0 then q else Suc q)"
  proof (cases r)
    case 0
    have "q * n + r + n - 1 = (n - 1) + q * n" using 0 assms by simp
    then show ?thesis using 0 assms by (simp only: div_mult_self1 [OF assms [THEN less_imp_neq, symmetric]]) simp
  next
    case (Suc r')
    have "q * n + r + n - 1 = r' + Suc q * n" using Suc by simp
    then show ?thesis using Suc m(2) by (simp only: div_mult_self1 [OF assms [THEN less_imp_neq, symmetric]]) simp
  qed
  show "(Suc m + n - 1) div n = (if m mod n = 0 then Suc ((m + n - 1) div n) else (m + n - 1) div n)"
    using a b by (cases "r = 0") (simp_all add: m(1))
  show "(m - 1) div n = m div n" if nz: "m mod n \<noteq> 0"
  proof -
    obtain r' where "r = Suc r'" using nz a(3) m(1) by (cases r) auto
    then show ?thesis using m a(2) assms by simp
  qed
  show "(m + n - 1) div n = m div n" if "m mod n = 0" using that a b by (simp add: m(1))
qed

lemma plru_created_step:
  assumes "plru_created n m (st, ds)" "2 \<le> unat n" "unat n \<le> 2 ^ 62" "m < 2 ^ 64"
    and "plru_instantiateEntry None st = (st', d)"
  shows "plru_created n (Suc m) (st', ds @ [d])"
proof -
  let ?n = "unat n"
  have pos: "0 < ?n" using assms(2) by simp
  note c = assms(1) [unfolded plru_created_def fst_conv snd_conv]
  have mod: "unat (of_nat m mod n) = m mod ?n"
    using assms(4) by (simp add: unat_mod unat_of_nat take_bit_nat_eq_self)
  then have zero: "of_nat m mod n = 0 \<longleftrightarrow> m mod ?n = 0" by (metis unat_eq_zero)
  have "m mod ?n < ?n" using pos by simp
  then have sum: "unat (of_nat m mod n + n) = m mod ?n + ?n"
    using assms(3) by (simp add: unat_word_ariths(1) mod)
  then have idx: "unat (of_nat m mod n + n - 1) = m mod ?n + ?n - 1"
    using pos by (subst unat_minus_one) (auto simp: unat_zero_iff [symmetric] simp del: unat_eq_0)
  show ?thesis
    using assms(5) c idx zero div_step [OF pos, of m]
    by (auto simp: plru_created_def plru_instantiateEntry_def Let_def nth_append less_Suc_eq
      replicate_append_same add.commute split: if_splits)
qed

lemma plru_create_created:
  assumes "newTreePLRU n = Inr st0" "2 \<le> unat n" "unat n \<le> 2 ^ 62" "m \<le> 2 ^ 64"
  shows "plru_created n m (plru_create m st0)"
  using assms(4)
proof (induction m)
  case 0
  then show ?case using assms(1,2) by (auto simp: plru_created_def newTreePLRU_def)
next
  case (Suc m)
  obtain st ds where c: "plru_create m st0 = (st, ds)" by (cases "plru_create m st0")
  obtain st' d where i: "plru_instantiateEntry None st = (st', d)" by (cases "plru_instantiateEntry None st")
  from plru_created_step [OF _ assms(2,3) _ i, of m ds] Suc c i show ?case by simp
qed

definition plru_ways :: "nat \<Rightarrow> nat \<Rightarrow> plru_repl_data list \<Rightarrow> plru_repl_data list" where
  "plru_ways n s ds = take n (drop (s * n) ds)"

text \<open>
  Tree PLRU gives every set a tree of its own.  A policy with at least two leaves that is asked
  for the replacement data of \<open>sets\<close> sets of \<open>numLeaves\<close> blocks, set after set, creates one tree per
  set with one bit less than there are leaves, and the blocks of the set are the leaves of that tree
  from left to right.  The number of leaves need not be a power of two.
\<close>

theorem plru_create_sets:
  assumes "newTreePLRU n = Inr st0" "2 \<le> unat n" "unat n \<le> 2 ^ 62" "sets * unat n \<le> 2 ^ 64"
    and "plru_create (sets * unat n) st0 = (st, ds)"
  shows "plru_ok st \<and> length (plru_store st) = sets \<and> length ds = sets * unat n \<and>
    (\<forall>s < sets. plru_set st s (plru_ways (unat n) s ds))"
proof -
  let ?n = "unat n"
  have pos: "0 < ?n" using assms(2) by simp
  have c: "plru_created n (sets * ?n) (st, ds)"
    using plru_create_created [OF assms(1-4)] by (simp add: assms(5))
  have len: "(sets * ?n + ?n - 1) div ?n = sets" using div_step(3) [OF pos, of "sets * ?n"] pos by simp
  have n1: "unat (n - 1) = ?n - 1" using pos by (subst unat_minus_one) auto
  have "plru_set st s (plru_ways ?n s ds)" if "s < sets" for s
  proof -
    have le: "s * ?n + ?n \<le> sets * ?n" using mult_le_mono1 [of "Suc s" sets ?n] that by simp
    have "tree (ds ! (s * ?n + w)) = Some s \<and> unat (index (ds ! (s * ?n + w))) = w + ?n - 1" if "w < ?n" for w
      using c that le pos by (simp add: plru_created_def)
    with c le that len show ?thesis by (simp add: plru_set_def plru_ways_def plru_created_def)
  qed
  with c len n1 assms(2,3) show ?thesis by (simp add: plru_ok_def plru_created_def list_all_length)
qed

theorem plru_create_sets_witness:
  "\<exists>st0. newTreePLRU 3 = Inr st0 \<and> plru_ok (fst (plru_create (2 * unat (3 :: uint64)) st0)) \<and>
     plru_set (fst (plru_create (2 * unat (3 :: uint64)) st0)) 1 (plru_ways (unat (3 :: uint64)) 1 (snd (plru_create (2 * unat (3 :: uint64)) st0)))"
proof -
  obtain st0 where st0: "newTreePLRU 3 = Inr st0" by (simp add: newTreePLRU_def)
  have "plru_create (2 * unat (3 :: uint64)) st0 =
      (fst (plru_create (2 * unat (3 :: uint64)) st0), snd (plru_create (2 * unat (3 :: uint64)) st0))" by simp
  from plru_create_sets [OF st0 _ _ _ this] have "plru_ok (fst (plru_create (2 * unat (3 :: uint64)) st0)) \<and>
      plru_set (fst (plru_create (2 * unat (3 :: uint64)) st0)) 1 (plru_ways (unat (3 :: uint64)) 1 (snd (plru_create (2 * unat (3 :: uint64)) st0)))"
    by simp
  with st0 show ?thesis by blast
qed

text \<open>
  C30. What a tree remembers.  On a set created that way, touching a block succeeds and the next
  victim is a block of the set other than the one touched; invalidating a block makes it the next
  victim; and neither changes the victim of a set with another tree.
\<close>

theorem plru_touch_protects:
  assumes "plru_ok st" "plru_set st a ds" "w < length ds"
  shows "\<exists>st1 st2. plru_touch st (ds ! w) = Inr (st1, ds ! w) \<and> plru_invalidate st (ds ! w) = Inr (st2, ds ! w) \<and>
    plru_ok st1 \<and> plru_ok st2 \<and> plru_set st1 a ds \<and> plru_set st2 a ds \<and>
    (\<exists>k. plru_getVictim st1 ds = Inr k \<and> k < length ds \<and> k \<noteq> w) \<and> plru_getVictim st2 ds = Inr w \<and>
    (\<forall>b es. b \<noteq> a \<longrightarrow> plru_set st b es \<longrightarrow>
       plru_getVictim st1 es = plru_getVictim st es \<and> plru_getVictim st2 es = plru_getVictim st es)"
proof -
  let ?n = "unat (numLeaves st)" and ?t = "plru_store st ! a"
  let ?i = "w + ?n - 1"
  let ?st = "\<lambda>f. st\<lparr>plru_store := (plru_store st)[a := walk_nat f ?i ?t]\<rparr>"
  have n: "2 \<le> ?n" "length ?t = ?n - 1" "a < length (plru_store st)" "w < ?n"
    using assms by (auto simp: plru_ok_def plru_set_def list_all_length)
  have keep: "plru_ok (?st f)" "plru_set st b es \<Longrightarrow> plru_set (?st f) b es" for f b es
    using plru_update_keeps [OF assms(1,2), of "walk_nat f ?i ?t"] by simp_all
  have victim: "plru_set st b es \<Longrightarrow> plru_getVictim (?st f) es =
      Inr (if b = a then descend_nat (walk_nat f ?i ?t) 0 - (?n - 1) else plru_leaf st b)" for f b es
    using plru_getVictim_leaf(1) [OF keep(1) keep(2)] n(3) by (simp add: plru_leaf_update)
  have i: "?i \<noteq> 0" "?i \<le> 2 * length ?t" "?t \<noteq> []" "length ?t \<le> ?i" using n by auto
  have inv: "descend_nat (walk_nat (\<lambda>r. r) ?i ?t) 0 = ?i"
    using descend_walk [OF i(2)] descend_leaf [of "walk_nat (\<lambda>r. r) ?i ?t" ?i] i(4) by simp
  have range: "?n - 1 \<le> descend_nat (walk_nat (\<lambda>r. \<not> r) ?i ?t) 0 \<and>
      descend_nat (walk_nat (\<lambda>r. \<not> r) ?i ?t) 0 \<le> 2 * (?n - 1)"
    using descend_range [of 0 "walk_nat (\<lambda>r. \<not> r) ?i ?t"] n by simp
  have len: "length ds = ?n" using assms(2) by (simp add: plru_set_def)
  let ?k = "descend_nat (walk_nat (\<lambda>r. \<not> r) ?i ?t) 0 - (?n - 1)"
  have "?k < length ds" "?k \<noteq> w" using range descend_touched [OF i(1-3)] n len by auto
  moreover have "plru_getVictim (?st (\<lambda>r. r)) ds = Inr w"
    using victim [OF assms(2)] inv n(1) by simp
  moreover have "plru_getVictim (?st f) es = plru_getVictim st es" if "b \<noteq> a" "plru_set st b es" for f b es
    using that victim [OF that(2)] plru_getVictim_leaf(1) [OF assms(1) that(2)] by simp
  ultimately show ?thesis
    using victim [OF assms(2), of "\<lambda>r. \<not> r"] keep assms(2) plru_update_store [OF assms]
    by (intro exI [of _ "?st (\<lambda>r. \<not> r)"] exI [of _ "?st (\<lambda>r. r)"]) (auto simp: plru_touch_def plru_invalidate_def)
qed

definition ex_plru :: plru_state where
  "ex_plru = \<lparr>numLeaves = 4, plru_count = 4, treeInstance = Some 0, plru_store = [[True, False, True]]\<rparr>"

definition ex_plru_set :: "plru_repl_data list" where
  "ex_plru_set = map (\<lambda>w. \<lparr>rd_entry = None, index = of_nat w + 3, tree = Some 0\<rparr>) [0, 1, 2, 3]"

theorem plru_touch_protects_witness:
  "\<exists>st1 st2. plru_touch ex_plru (ex_plru_set ! 3) = Inr (st1, ex_plru_set ! 3) \<and>
     plru_invalidate ex_plru (ex_plru_set ! 3) = Inr (st2, ex_plru_set ! 3) \<and>
     (\<exists>k. plru_getVictim st1 ex_plru_set = Inr k \<and> k < 4 \<and> k \<noteq> 3) \<and> plru_getVictim st2 ex_plru_set = Inr 3"
proof -
  have four: "w < Suc (Suc (Suc (Suc 0))) \<longleftrightarrow> w = 0 \<or> w = 1 \<or> w = 2 \<or> w = 3" for w :: nat by auto
  have "plru_ok ex_plru" by (simp add: plru_ok_def ex_plru_def)
  moreover have "plru_set ex_plru 0 ex_plru_set"
    by (auto simp: plru_set_def ex_plru_def ex_plru_set_def four)
  moreover have "length ex_plru_set = 4" by (simp add: ex_plru_set_def)
  ultimately show ?thesis using plru_touch_protects [of ex_plru 0 ex_plru_set 3] by auto
qed

text \<open>
  A policy with a single leaf, which the constructor accepts, stops the program at the first
  access: the leaf is the root, the tree has no bits, and \<open>touch\<close>, \<open>reset\<close> and \<open>invalidate\<close> write
  the parent of the root.
\<close>

theorem plru_single_leaf_throws:
  "\<exists>st0 st d. newTreePLRU 1 = Inr st0 \<and> plru_instantiateEntry None st0 = (st, d) \<and>
     plru_touch st d = Inl OutOfRange \<and> plru_reset st d = Inl OutOfRange \<and> plru_invalidate st d = Inl OutOfRange"
  by (simp add: newTreePLRU_def plru_instantiateEntry_def plru_reset_def plru_touch_def plru_invalidate_def
    plru_update_def plru_tree_of_def plru_walk.simps)

end
