(* ===== verification/Popcount.thy ===== *)
theory Popcount
  imports Bitfield
begin

unbundle bit_operations_syntax

text \<open>
  \<open>popCount\<close> of \<open>base/bitfield.hh\<close>: the parallel count used where the compiler has no built-in.
  It adds the bits in fields of two, four and eight bits and sums the bytes by a multiplication.
  The theory shows that it counts the set bits.
\<close>

definition popCount :: "uint64 \<Rightarrow> nat" where
  "popCount v0 =
     (let m1 = 0x5555555555555555; m2 = 0x3333333333333333; m4 = 0x0f0f0f0f0f0f0f0f;
          sum = 0x0101010101010101;
          v1 = v0 - (drop_bit 1 v0 AND m1);
          v2 = (v1 AND m2) + (drop_bit 2 v1 AND m2);
          v3 = (v2 + drop_bit 4 v2) AND m4
      in unat (drop_bit 56 (v3 * sum)))"

section \<open>Fields\<close>

text \<open>
  A number below \<open>2^(w*n)\<close> is a list of \<open>n\<close> fields of \<open>w\<close> bits, the lowest first.  \<open>fields w n x\<close>
  reads them and \<open>join w ds\<close> puts them together.
\<close>

definition fields :: "nat \<Rightarrow> nat \<Rightarrow> nat \<Rightarrow> nat list" where
  "fields w n x = map (\<lambda>i. x div 2 ^ (w * i) mod 2 ^ w) [0..<n]"

fun join :: "nat \<Rightarrow> nat list \<Rightarrow> nat" where
  "join w [] = 0"
| "join w (d # ds) = d + 2 ^ w * join w ds"

lemma fields_Suc: "fields w (Suc n) x = (x mod 2 ^ w) # fields w n (x div 2 ^ w)"
  unfolding fields_def upt_conv_Cons [OF zero_less_Suc]
  by (simp add: map_Suc_upt [symmetric] comp_def power_add div_mult2_eq del: upt_Suc)

lemma fields_0 [simp]: "fields w 0 x = []"
  by (simp add: fields_def)

lemma length_fields [simp]: "length (fields w n x) = n"
  by (simp add: fields_def)

lemma join_fields: "x < 2 ^ (w * n) \<Longrightarrow> join w (fields w n x) = x"
proof (induction n arbitrary: x)
  case (Suc n)
  have "x div 2 ^ w < 2 ^ (w * n)" using Suc.prems by (simp add: power_add less_mult_imp_div_less mult.commute)
  from Suc.IH [OF this] show ?case by (simp add: fields_Suc)
qed simp

lemma join_less: "\<forall>d \<in> set ds. d < 2 ^ w \<Longrightarrow> join w ds < 2 ^ (w * length ds)"
proof (induction ds)
  case (Cons d ds)
  then have "Suc (join w ds) \<le> 2 ^ (w * length ds)" "d < 2 ^ w" by auto
  then have "d + 2 ^ w * join w ds < 2 ^ w * Suc (join w ds)" by simp
  also have "\<dots> \<le> 2 ^ w * 2 ^ (w * length ds)"
    using Cons by (intro mult_le_mono2) auto
  finally show ?case by (simp add: power_add)
qed simp

lemma bit_field:
  assumes "a < 2 ^ w"
  shows "bit (a + 2 ^ w * x) i = (if i < w then bit a i else bit (x :: nat) (i - w))"
proof (cases "i < w")
  case True
  then have "w = i + Suc (w - Suc i)" by simp
  then have "(2 :: nat) ^ w = 2 ^ i * (2 * 2 ^ (w - Suc i))" by (metis power_add power_Suc)
  then have "(a + 2 ^ w * x) div 2 ^ i = (a + 2 ^ i * (2 * 2 ^ (w - Suc i) * x)) div 2 ^ i"
    by (simp only: mult.assoc)
  also have "\<dots> = 2 * 2 ^ (w - Suc i) * x + a div 2 ^ i" by (rule div_mult_self2) simp
  finally have "(a + 2 ^ w * x) div 2 ^ i = 2 * 2 ^ (w - Suc i) * x + a div 2 ^ i" .
  with True show ?thesis by (simp add: bit_iff_odd)
next
  case False
  then have "(2 :: nat) ^ i = 2 ^ w * 2 ^ (i - w)" by (simp flip: power_add)
  then have "(a + 2 ^ w * x) div 2 ^ i = x div 2 ^ (i - w)" using assms by (simp add: div_mult2_eq)
  with False show ?thesis by (simp add: bit_iff_odd)
qed

lemma and_less: "a < 2 ^ w \<Longrightarrow> (a AND b :: nat) < 2 ^ w"
proof -
  assume "a < 2 ^ w"
  then have "take_bit w a = a" by (rule take_bit_nat_eq_self)
  then have "take_bit w (a AND b) = a AND b"
    by (auto simp: bit_eq_iff bit_simps)
  then show ?thesis by (metis take_bit_nat_less_exp)
qed

lemma and_field:
  assumes "a < 2 ^ w" "b < 2 ^ w"
  shows "(a + 2 ^ w * x) AND (b + 2 ^ w * y) = (a AND b) + 2 ^ w * (x AND (y :: nat))"
  by (rule bit_eqI) (simp add: bit_and_iff bit_field [OF assms(1)] bit_field [OF assms(2)]
    bit_field [OF and_less [OF assms(1)]])

lemma join_and:
  assumes "length ds = length es" "\<forall>d \<in> set ds. d < 2 ^ w" "\<forall>e \<in> set es. e < 2 ^ w"
  shows "join w ds AND join w es = join w (map2 (AND) ds es)"
  using assms by (induction ds es rule: list_induct2) (simp_all add: and_field)

lemma join_add: "length ds = length es \<Longrightarrow> join w ds + join w es = join w (map2 (+) ds es)"
  by (induction ds es rule: list_induct2) (simp_all flip: distrib_left add: add.assoc add.left_commute)

text \<open>Two neighbouring fields make one of twice the width.\<close>

fun pair_up :: "nat \<Rightarrow> nat list \<Rightarrow> nat list" where
  "pair_up h (a # b # ds) = (a + 2 ^ h * b) # pair_up h ds"
| "pair_up h ds = ds"

definition halves_sum :: "nat \<Rightarrow> nat \<Rightarrow> nat" where
  "halves_sum h e = e mod 2 ^ h + e div 2 ^ h"

lemma join_pair_up: "even (length ds) \<Longrightarrow> join (h + h) (pair_up h ds) = join h ds"
  by (induction h ds rule: pair_up.induct) (simp_all add: power_add algebra_simps)

lemma length_pair_up: "even (length ds) \<Longrightarrow> length (pair_up h ds) = length ds div 2"
  by (induction h ds rule: pair_up.induct) simp_all

lemma sum_pair_up:
  "even (length ds) \<Longrightarrow> \<forall>d \<in> set ds. d < 2 ^ h \<Longrightarrow> sum_list (map (halves_sum h) (pair_up h ds)) = sum_list ds"
  by (induction h ds rule: pair_up.induct) (simp_all add: halves_sum_def)

lemma pair_up_bound:
  "even (length ds) \<Longrightarrow> \<forall>d \<in> set ds. d \<le> m \<Longrightarrow> m < 2 ^ h \<Longrightarrow>
   \<forall>e \<in> set (pair_up h ds). e mod 2 ^ h \<le> m \<and> e div 2 ^ h \<le> m"
  by (induction h ds rule: pair_up.induct) auto

lemma field_bound:
  "e mod 2 ^ h \<le> m \<Longrightarrow> e div 2 ^ h \<le> m \<Longrightarrow> m < 2 ^ h \<Longrightarrow> (e :: nat) < 2 ^ (h + h)"
  using div_less_iff_less_mult [of "2 ^ h" e "2 ^ h"]
  by (simp add: power_add)

section \<open>The masked sums\<close>

lemma and_mask: "(x :: nat) AND (mask h) = x mod 2 ^ h"
  by (simp add: take_bit_eq_mod flip: take_bit_eq_mask)

lemma mask_less: "(mask h :: nat) < 2 ^ (h + h)"
proof -
  have "(2 :: nat) ^ h \<le> 2 ^ (h + h)" by (rule power_increasing) simp_all
  then show ?thesis using mask_nat_less_exp [of h] by linarith
qed

lemma low_halves:
  assumes "\<forall>e \<in> set es. e < 2 ^ (h + h)"
  shows "join (h + h) es AND join (h + h) (replicate (length es) (mask h)) = join (h + h) (map (\<lambda>e. e mod 2 ^ h) es)"
  using assms
proof (induction es)
  case (Cons e es)
  show ?case using Cons mask_less [of h] by (simp add: and_field and_mask [symmetric])
qed simp

lemma high_halves:
  assumes "\<forall>e \<in> set es. e < 2 ^ (h + h)"
  shows "join (h + h) es div 2 ^ h AND join (h + h) (replicate (length es) (mask h)) =
    join (h + h) (map (\<lambda>e. e div 2 ^ h) es)"
  using assms
proof (induction es)
  case (Cons e es)
  let ?y = "join (h + h) es"
  have e: "e div 2 ^ h < 2 ^ h" using Cons.prems by (simp add: power_add less_mult_imp_div_less)
  have a: "e div 2 ^ h + 2 ^ h * (?y mod 2 ^ h) < 2 ^ (h + h)"
    using e join_less [of "[e div 2 ^ h, ?y mod 2 ^ h]" h] by (simp add: mult_2 [symmetric] mult.commute)
  have "(e + 2 ^ (h + h) * ?y) div 2 ^ h = e div 2 ^ h + 2 ^ h * ?y"
    by (simp add: power_add mult.assoc)
  also have "\<dots> = (e div 2 ^ h + 2 ^ h * (?y mod 2 ^ h)) + 2 ^ (h + h) * (?y div 2 ^ h)"
    by (simp add: power_add add.assoc mult.assoc flip: distrib_left)
  finally have x: "(e + 2 ^ (h + h) * ?y) div 2 ^ h =
      (e div 2 ^ h + 2 ^ h * (?y mod 2 ^ h)) + 2 ^ (h + h) * (?y div 2 ^ h)" .
  have "(e div 2 ^ h + 2 ^ h * (?y mod 2 ^ h)) AND (mask h) = e div 2 ^ h"
    using e by (simp add: and_mask)
  then show ?case using Cons by (simp add: x and_field [OF a mask_less] del: mult_Suc_right)
qed simp

lemma join_map_add: "join w (map f es) + join w (map g es) = join w (map (\<lambda>e. f e + g e) es)"
  by (induction es) (simp_all flip: distrib_left add: add.assoc add.left_commute)

text \<open>The first step subtracts the upper halves, the second one adds the two halves.\<close>

lemma subtract_halves:
  assumes "\<forall>e \<in> set es. e < 2 ^ (1 + 1)"
  shows "join (1 + 1) (map (halves_sum 1) es) +
    (join (1 + 1) es div 2 ^ 1 AND join (1 + 1) (replicate (length es) (mask 1))) = join (1 + 1) es"
proof -
  have "halves_sum 1 e + e div 2 ^ 1 = e" for e
    unfolding halves_sum_def power_one_right by presburger
  then have "join (1 + 1) es = join (1 + 1) (map (halves_sum 1) es) + join (1 + 1) (map (\<lambda>e. e div 2 ^ 1) es)"
    unfolding join_map_add by simp
  with high_halves [OF assms] show ?thesis by simp
qed

lemma add_halves:
  assumes "\<forall>e \<in> set es. e < 2 ^ (h + h)"
  shows "(join (h + h) es AND join (h + h) (replicate (length es) (mask h))) +
    (join (h + h) es div 2 ^ h AND join (h + h) (replicate (length es) (mask h))) = join (h + h) (map (halves_sum h) es)"
  by (simp add: low_halves [OF assms] high_halves [OF assms] join_map_add halves_sum_def [abs_def])

text \<open>The third step adds before it masks, which is right while no sum of halves overflows.\<close>

lemma add_then_mask:
  assumes "\<forall>e \<in> set es. e mod 16 \<le> 4 \<and> e div 16 \<le> 4"
  shows "(join 8 es + join 8 es div 16) AND join 8 (replicate (length es) 15) = join 8 (map (halves_sum 4) es) \<and>
    join 8 es mod 16 \<le> 4"
  using assms
proof (induction es)
  case (Cons e es)
  let ?y = "join 8 es"
  let ?a = "e + e div 16 + 16 * (?y mod 16)"
  have IH: "(?y + ?y div 16) AND join 8 (replicate (length es) 15) = join 8 (map (halves_sum 4) es)" "?y mod 16 \<le> 4"
    using Cons by auto
  have e: "e mod 16 \<le> 4" "e div 16 \<le> 4" "e = e mod 16 + 16 * (e div 16)" using Cons.prems by simp_all
  then have a: "?a < 2 ^ 8" using IH(2) by simp
  have "e + 2 ^ 8 * ?y + (e + 2 ^ 8 * ?y) div 16 = e + e div 16 + 16 * ?y + 2 ^ 8 * ?y" by simp
  also have "16 * ?y = 16 * (?y mod 16) + 2 ^ 8 * (?y div 16)"
    using arg_cong [OF mult_div_mod_eq [of 16 ?y], of "(*) 16"] by (simp only: distrib_left mult.assoc [symmetric]) simp
  finally have x: "e + 2 ^ 8 * ?y + (e + 2 ^ 8 * ?y) div 16 = ?a + 2 ^ 8 * (?y + ?y div 16)" by simp
  have "?a AND 15 = ?a mod 2 ^ 4" using and_mask [of ?a 4] by (simp add: mask_eq_exp_minus_1)
  also have "\<dots> = (e + e div 16) mod 16" by (simp add: mod_add_right_eq)
  also have "\<dots> = (e mod 16 + e div 16) mod 16" by (simp add: mod_add_left_eq)
  also have "\<dots> = halves_sum 4 e" using e(1,2) by (simp add: halves_sum_def)
  finally have "(?a + 2 ^ 8 * (?y + ?y div 16)) AND (15 + 2 ^ 8 * join 8 (replicate (length es) 15)) =
      halves_sum 4 e + 2 ^ 8 * join 8 (map (halves_sum 4) es)"
    using a IH(1) by (subst and_field) simp_all
  then have "(e + 2 ^ 8 * ?y + (e + 2 ^ 8 * ?y) div 16) AND (15 + 2 ^ 8 * join 8 (replicate (length es) 15)) =
      halves_sum 4 e + 2 ^ 8 * join 8 (map (halves_sum 4) es)"
    unfolding x .
  moreover have "(e + 2 ^ 8 * ?y) mod 16 = e mod 16" using mod_mult_self2 [of e 16 "16 * ?y"] by simp
  ultimately show ?case using e(1) by (simp only: length_Cons replicate_Suc list.map join.simps)
qed simp

lemma join_append: "join w (ds @ es) = join w ds + 2 ^ (w * length ds) * join w es"
  by (induction ds) (simp_all add: power_add distrib_left mult.assoc)

text \<open>The multiplication leaves the sum of the bytes in the top byte.\<close>

lemma multiply_sums:
  assumes "length bs = 8" "sum_list bs < 256"
  shows "join 8 bs * 0x0101010101010101 mod 2 ^ 64 div 2 ^ 56 = sum_list bs"
proof -
  obtain b0 b1 b2 b3 b4 b5 b6 b7 where bs: "bs = [b0, b1, b2, b3, b4, b5, b6, b7]"
    using assms(1) by (auto simp: length_Suc_conv numeral_eq_Suc)
  let ?s = "[b0, b0 + b1, b0 + b1 + b2, b0 + b1 + b2 + b3, b0 + b1 + b2 + b3 + b4, b0 + b1 + b2 + b3 + b4 + b5,
    b0 + b1 + b2 + b3 + b4 + b5 + b6]"
  let ?top = "b0 + b1 + b2 + b3 + b4 + b5 + b6 + b7"
  let ?rest = "[b1 + b2 + b3 + b4 + b5 + b6 + b7, b2 + b3 + b4 + b5 + b6 + b7, b3 + b4 + b5 + b6 + b7,
    b4 + b5 + b6 + b7, b5 + b6 + b7, b6 + b7, b7]"
  have prod: "join 8 bs * 0x0101010101010101 = (join 8 ?s + 2 ^ 56 * ?top) + 2 ^ 64 * join 8 ?rest"
    by (simp add: bs)
  have s: "join 8 ?s < 2 ^ 56" using join_less [of ?s 8] assms(2) by (simp add: bs)
  have "join 8 ?s + 2 ^ 56 * ?top < 2 ^ 64" using s assms(2) by (simp add: bs)
  then have "join 8 bs * 0x0101010101010101 mod 2 ^ 64 = join 8 ?s + 2 ^ 56 * ?top"
    unfolding prod by (simp only: mod_mult_self2 mod_less)
  then have "join 8 bs * 0x0101010101010101 mod 2 ^ 64 div 2 ^ 56 = (join 8 ?s + 2 ^ 56 * ?top) div 2 ^ 56" by (rule arg_cong)
  also have "\<dots> = ?top + join 8 ?s div 2 ^ 56" by (rule div_mult_self2) simp
  also have "\<dots> = sum_list bs" using s by (simp only: div_less) (simp add: bs)
  finally show ?thesis .
qed

section \<open>The count\<close>

text \<open>The number of set bits, one bit after the other.\<close>

definition count_set :: "uint64 \<Rightarrow> nat" where
  "count_set v = length (filter (bit v) [0..<64])"

lemma count_set_fields: "count_set v = sum_list (fields 1 64 (unat v))"
proof -
  have "length (filter P xs) = sum_list (map (\<lambda>i. of_bool (P i)) xs)" for P and xs :: "nat list"
    by (induction xs) simp_all
  moreover have "of_bool (bit v i) = unat v div 2 ^ i mod 2" for i
    by (simp add: bit_iff_unat bit_iff_odd odd_iff_mod_2_eq_one of_bool_def)
  ultimately show ?thesis by (simp add: count_set_def fields_def del: upt_Suc)
qed

lemma join_replicate: "join w (replicate n m) * (2 ^ w - 1) + m = m * 2 ^ (w * n)"
proof (induction n)
  case (Suc n)
  have "m + 2 ^ w * j * (2 ^ w - 1) = m + 2 ^ w * (j * (2 ^ w - 1))" for j by (simp add: mult.assoc)
  have "join w (replicate (Suc n) m) * (2 ^ w - 1) + m =
      m * (2 ^ w - 1) + m + 2 ^ w * (join w (replicate n m) * (2 ^ w - 1))"
    by (simp add: distrib_right mult.assoc)
  also have "m * (2 ^ w - 1) + m = 2 ^ w * m"
    by (simp add: diff_mult_distrib2 mult.commute)
  finally have "join w (replicate (Suc n) m) * (2 ^ w - 1) + m =
      2 ^ w * (join w (replicate n m) * (2 ^ w - 1) + m)" by (simp only: distrib_left add.commute)
  with Suc show ?case by (simp add: power_add mult.left_commute)
qed simp

lemma masks:
  "join 2 (replicate 32 1) = 0x5555555555555555" "join 4 (replicate 16 3) = 0x3333333333333333"
  "join 8 (replicate 8 15) = 0x0f0f0f0f0f0f0f0f"
  using join_replicate [of 2 32 1] join_replicate [of 4 16 3] join_replicate [of 8 8 15]
  by simp_all

lemma unat_drop_and: "unat (drop_bit n v AND w) = unat v div 2 ^ n AND unat (w :: uint64)"
  by (simp add: unsigned_and_eq unat_drop)

lemma join_mono: "\<forall>d \<in> set ds. d \<le> m \<Longrightarrow> join w ds \<le> join w (replicate (length ds) m)"
  by (induction ds) (simp_all add: add_mono)

lemma count_pairs:
  assumes "even (length ds)" "\<forall>d \<in> set ds. d \<le> m" "m < 2 ^ h"
  shows "\<forall>e \<in> set (pair_up h ds). e < 2 ^ (h + h)"
    "\<forall>d \<in> set (map (halves_sum h) (pair_up h ds)). d \<le> 2 * m"
    "sum_list (map (halves_sum h) (pair_up h ds)) = sum_list ds"
    "join (h + h) (pair_up h ds) = join h ds"
proof -
  note b = pair_up_bound [OF assms]
  show "\<forall>e \<in> set (pair_up h ds). e < 2 ^ (h + h)" using b assms(3) field_bound by blast
  show "\<forall>d \<in> set (map (halves_sum h) (pair_up h ds)). d \<le> 2 * m"
    using b by (fastforce simp: halves_sum_def)
  show "sum_list (map (halves_sum h) (pair_up h ds)) = sum_list ds"
    using assms by (intro sum_pair_up) (auto intro: le_less_trans)
  show "join (h + h) (pair_up h ds) = join h ds" by (rule join_pair_up) (rule assms(1))
qed

lemma field_sums:
  "(2 :: nat) + 2 = 4" "(4 :: nat) + 4 = 8" "mask 1 = (1 :: nat)" "mask 2 = (3 :: nat)"
  by (simp_all add: mask_eq_exp_minus_1)

lemma step_pairs:
  fixes v :: uint64
  assumes "length ds = 64" "\<forall>d \<in> set ds. d \<le> 1" "unat v = join 1 ds"
  shows "unat (v - (drop_bit 1 v AND 0x5555555555555555)) = join 2 (map (halves_sum 1) (pair_up 1 ds))"
proof -
  have c: "\<forall>e \<in> set (pair_up 1 ds). e < 2 ^ (1 + 1)" "join (1 + 1) (pair_up 1 ds) = join 1 ds"
    using assms(1,2) by (intro count_pairs [of ds 1 1]; simp)+
  have l: "length (pair_up 1 ds) = 32" using assms(1) by (simp add: length_pair_up)
  let ?w = "drop_bit 1 v AND 0x5555555555555555"
  have "unat ?w = unat v div 2 ^ 1 AND join 2 (replicate 32 1)" by (simp only: unat_drop_and masks) simp
  then have "join 2 (map (halves_sum 1) (pair_up 1 ds)) + unat ?w = unat v"
    using subtract_halves [OF c(1)] c(2) assms(3) by (simp only: l one_add_one field_sums)
  then show ?thesis using unat_sub [of ?w v] by (simp add: word_le_nat_alt)
qed

lemma step_nibbles:
  fixes v :: uint64
  assumes "length ds = 32" "\<forall>d \<in> set ds. d \<le> 2" "unat v = join 2 ds"
  shows "unat ((v AND 0x3333333333333333) + (drop_bit 2 v AND 0x3333333333333333)) =
    join 4 (map (halves_sum 2) (pair_up 2 ds))"
proof -
  have c: "\<forall>e \<in> set (pair_up 2 ds). e < 2 ^ (2 + 2)" "join (2 + 2) (pair_up 2 ds) = join 2 ds"
    "\<forall>d \<in> set (map (halves_sum 2) (pair_up 2 ds)). d \<le> 2 * 2"
    using assms(1,2) by (intro count_pairs [of ds 2 2]; simp)+
  have l: "length (pair_up 2 ds) = 16" using assms(1) by (simp add: length_pair_up)
  let ?a = "v AND 0x3333333333333333" and ?b = "drop_bit 2 v AND 0x3333333333333333"
  have "unat ?a = unat v AND join 4 (replicate 16 3)" "unat ?b = unat v div 2 ^ 2 AND join 4 (replicate 16 3)"
    by (simp_all only: unat_drop_and unsigned_and_eq masks) (simp_all add: unat_drop)
  then have sum: "unat ?a + unat ?b = join 4 (map (halves_sum 2) (pair_up 2 ds))"
    using add_halves [OF c(1)] c(2) assms(3) by (simp only: l field_sums)
  have "join 4 (map (halves_sum 2) (pair_up 2 ds)) < 2 ^ (4 * 16)"
    using c(3) l by (intro join_less [where w = 4 and ds = "map (halves_sum 2) (pair_up 2 ds)", simplified length_map l]) fastforce
  then show ?thesis using sum by (simp only: unat_word_ariths) simp
qed

lemma step_bytes:
  fixes v :: uint64
  assumes "length ds = 16" "\<forall>d \<in> set ds. d \<le> 4" "unat v = join 4 ds"
  shows "unat ((v + drop_bit 4 v) AND 0x0f0f0f0f0f0f0f0f) = join 8 (map (halves_sum 4) (pair_up 4 ds))"
proof -
  have b: "\<forall>e \<in> set (pair_up 4 ds). e mod 2 ^ 4 \<le> 4 \<and> e div 2 ^ 4 \<le> 4"
    using assms(1,2) by (intro pair_up_bound) simp_all
  have j: "join 8 (pair_up 4 ds) = join 4 ds" using join_pair_up [of ds 4] assms(1) by simp
  have l: "length (pair_up 4 ds) = 8" using assms(1) by (simp add: length_pair_up)
  have "join 4 ds \<le> join 4 (replicate 16 4)" using join_mono [OF assms(2), of 4] assms(1) by simp
  moreover have "join 4 (replicate 16 4) = 0x4444444444444444" using join_replicate [of 4 16 4] by simp
  ultimately have "unat v + unat v div 16 < 2 ^ 64" using assms(3) by simp
  then have "unat (v + drop_bit 4 v) = unat v + unat v div 16"
    by (simp add: unat_word_ariths unat_drop)
  then have "unat ((v + drop_bit 4 v) AND 0x0f0f0f0f0f0f0f0f) = (unat v + unat v div 16) AND join 8 (replicate 8 15)"
    by (simp only: unsigned_and_eq masks) simp
  then show ?thesis using add_then_mask [of "pair_up 4 ds"] b by (simp add: assms(3) j l)
qed

text \<open>
  The parallel population count counts: for every 64-bit word the masked additions and the
  multiplication give the number of its set bits.
\<close>

theorem popCount_counts: "popCount v = count_set v"
proof -
  define d0 where "d0 = fields 1 64 (unat v)"
  define d1 where "d1 = map (halves_sum 1) (pair_up 1 d0)"
  define d2 where "d2 = map (halves_sum 2) (pair_up 2 d1)"
  define d3 where "d3 = map (halves_sum 4) (pair_up 4 d2)"
  have 0: "length d0 = 64" "\<forall>d \<in> set d0. d \<le> 1" "unat v = join 1 d0"
    using join_fields [of "unat v" 1 64] unat_less_pow [of v] by (auto simp: d0_def fields_def)
  have 1: "length d1 = 32" "\<forall>d \<in> set d1. d \<le> 2" "sum_list d1 = sum_list d0"
    using count_pairs [of d0 1 1] 0 by (simp_all add: d1_def length_pair_up)
  have 2: "length d2 = 16" "\<forall>d \<in> set d2. d \<le> 4" "sum_list d2 = sum_list d1"
    using count_pairs [of d1 2 2] 1 by (simp_all add: d2_def length_pair_up)
  have 3: "length d3 = 8" "\<forall>d \<in> set d3. d \<le> 8" "sum_list d3 = sum_list d2"
    using count_pairs [of d2 4 4] 2 by (simp_all add: d3_def length_pair_up)
  define v1 where "v1 = v - (drop_bit 1 v AND 0x5555555555555555)"
  define v2 where "v2 = (v1 AND 0x3333333333333333) + (drop_bit 2 v1 AND 0x3333333333333333)"
  define v3 where "v3 = (v2 + drop_bit 4 v2) AND 0x0f0f0f0f0f0f0f0f"
  have u1: "unat v1 = join 2 d1" unfolding v1_def d1_def by (rule step_pairs) (fact 0)+
  have u2: "unat v2 = join 4 d2" unfolding v2_def d2_def by (rule step_nibbles) (fact 1 u1)+
  have u3: "unat v3 = join 8 d3" unfolding v3_def d3_def by (rule step_bytes) (fact 2 u2)+
  have "sum_list d3 \<le> sum_list (replicate 8 8)"
    using 3 sum_list_mono2 [of d3 "replicate 8 8"] by simp
  then have "join 8 d3 * 0x0101010101010101 mod 2 ^ 64 div 2 ^ 56 = sum_list d3"
    using 3(1) by (intro multiply_sums) (simp_all add: sum_list_replicate)
  moreover have "popCount v = unat v3 * 0x0101010101010101 mod 2 ^ 64 div 2 ^ 56"
    unfolding popCount_def Let_def v1_def [symmetric] v2_def [symmetric] v3_def [symmetric]
    by (simp add: unat_drop unat_word_ariths)
  ultimately show ?thesis using 1 2 3 by (simp add: u3 count_set_fields d0_def)
qed

end
