(* ===== verification/Dueling_RP.thy ===== *)
theory Dueling_RP
  imports Repl_Policy Sat_Counter Popcount Recency_RP
begin

unbundle bit_operations_syntax

text \<open>
  Set dueling: the duelers and their monitor (\<open>tags/dueling.cc\<close>) and the replacement policy that
  lets two policies duel (\<open>dueling_rp.cc\<close>).  Some sets always use one of the two policies; their
  misses move a saturating counter, which decides which policy all the other sets use.
\<close>

section \<open>Duelers and their monitor\<close>

record dueler =
  sampleBits :: uint64
  teamBits :: uint64

definition newDueler :: dueler where
  "newDueler = \<lparr>sampleBits = 0, teamBits = 0\<rparr>"

definition setSample :: "uint64 \<Rightarrow> bool \<Rightarrow> dueler \<Rightarrow> dueler res" where
  "setSample i team d =
     checkR Panic (\<not> popCount i \<noteq> 1)
       (checkR Panic (\<not> sampleBits d AND i \<noteq> 0)
         (Inr (d\<lparr>sampleBits := sampleBits d OR i, teamBits := (if team then teamBits d OR i else teamBits d)\<rparr>)))"

text \<open>\<open>isSample\<close> returns whether the dueler is a sample and, through its reference argument, the team.\<close>

definition isSample :: "uint64 \<Rightarrow> dueler \<Rightarrow> bool \<times> bool" where
  "isSample i d = (sampleBits d AND i \<noteq> 0, teamBits d AND i \<noteq> 0)"

text \<open>The thresholds are percentages, as for \<^const>\<open>saturation_at_least\<close>.\<close>

record dueling_monitor =
  dm_id :: uint64
  constituencySize :: uint64
  teamSize :: uint64
  lowThreshold :: nat
  highThreshold :: nat
  selector :: "32 word sat_counter"
  regionCounter :: int
  winner :: bool

text \<open>
  \<open>id(1 << numInstances)\<close> shifts an \<open>int\<close>: from 32 on the shift is undefined, and 31 gives the most
  negative \<open>int\<close>, which the conversion to 64 bits extends by its sign.
\<close>

definition instance_id :: "nat \<Rightarrow> uint64 res" where
  "instance_id n =
     (if n < 31 then Inr (push_bit n 1) else if n = 31 then Inr (- 0x80000000) else Inl OutOfRange)"

definition newDuelingMonitor ::
  "nat \<Rightarrow> uint64 \<Rightarrow> uint64 \<Rightarrow> nat \<Rightarrow> nat \<Rightarrow> nat \<Rightarrow> (nat \<times> dueling_monitor) res" where
  "newDuelingMonitor numInstances constituency_size team_size num_bits low high =
     bindR (instance_id numInstances) (\<lambda>i.
     bindR (newSatCounter num_bits 0) (\<lambda>c.
     checkR Fatal (\<not> constituency_size < 2 * team_size)
       (checkR Fatal (\<not> numInstances > 63)
         (checkR Fatal (\<not> (low \<le> 0 \<or> high \<ge> 100))
           (checkR Fatal (\<not> (high \<le> 0 \<or> high \<ge> 100))
             (checkR Fatal (\<not> low > high)
               (let sel = sat_shr 1 (snd (saturate c))
                in Inr (Suc numInstances,
                     \<lparr>dm_id = i, constituencySize = constituency_size, teamSize = team_size,
                      lowThreshold = low, highThreshold = high, selector = sel, regionCounter = 0,
                      winner = saturation_at_least low sel\<rparr>))))))))"

definition dm_sample :: "dueling_monitor \<Rightarrow> dueler \<Rightarrow> dueling_monitor" where
  "dm_sample m d =
     (let (sample, team) = isSample (dm_id m) d in
      if sample then
        if team then
          let sel = sat_inc (selector m)
          in m\<lparr>selector := sel, winner := (if saturation_at_least (highThreshold m) sel then True else winner m)\<rparr>
        else
          let sel = sat_dec (selector m)
          in m\<lparr>selector := sel, winner := (if \<not> saturation_at_least (lowThreshold m) sel then False else winner m)\<rparr>
      else m)"

text \<open>\<open>initEntry\<close> compares the \<open>int\<close> counter with 64-bit sizes, as unsigned numbers.\<close>

definition dm_initEntry :: "dueling_monitor \<Rightarrow> dueler \<Rightarrow> (dueling_monitor \<times> dueler) res" where
  "dm_initEntry m d =
     bindR (if word_of_int (regionCounter m) < teamSize m then setSample (dm_id m) False d
            else if word_of_int (regionCounter m) \<ge> constituencySize m - teamSize m then setSample (dm_id m) True d
            else Inr d) (\<lambda>d'.
     checkR OutOfRange (regionCounter m < 2 ^ 31 - 1)
       (let r = regionCounter m + 1
        in Inr (m\<lparr>regionCounter := (if word_of_int r \<ge> constituencySize m then 0 else r)\<rparr>, d')))"

section \<open>The dueling policy\<close>

text \<open>
  The replacement data of a dueler carries the data of both policies.  The policies are parameters:
  any two tables of virtual methods.  Statistics are kept as the two numbers of selections.
\<close>

record ('a, 'b) dueler_repl_data = replacement_data +
  duel :: dueler
  replDataA :: 'a
  replDataB :: 'b

record ('s, 't) dueling_state =
  stateA :: 's
  stateB :: 't
  duelingMonitor :: dueling_monitor
  team_size_param :: uint64
  selectedA :: nat
  selectedB :: nat

type_synonym ('m, 'n) dueling_data = "('m replacement_data_scheme, 'n replacement_data_scheme) dueler_repl_data"

definition dueling_invalidate ::
  "('s, 'm) rp \<Rightarrow> ('t, 'n) rp \<Rightarrow> ('s, 't) dueling_state \<Rightarrow> ('m, 'n) dueling_data
   \<Rightarrow> (('s, 't) dueling_state \<times> ('m, 'n) dueling_data) res" where
  "dueling_invalidate A B st d =
     bindR (rp_invalidate A (stateA st) (replDataA d)) (\<lambda>(sa, da).
     bindR (rp_invalidate B (stateB st) (replDataB d)) (\<lambda>(sb, db).
     Inr (st\<lparr>stateA := sa, stateB := sb\<rparr>, d\<lparr>replDataA := da, replDataB := db\<rparr>)))"

definition dueling_touch ::
  "('s, 'm) rp \<Rightarrow> ('t, 'n) rp \<Rightarrow> tick \<Rightarrow> ('s, 't) dueling_state \<Rightarrow> ('m, 'n) dueling_data
   \<Rightarrow> (('s, 't) dueling_state \<times> ('m, 'n) dueling_data) res" where
  "dueling_touch A B now st d =
     bindR (rp_touch A now (stateA st) (replDataA d)) (\<lambda>(sa, da).
     bindR (rp_touch B now (stateB st) (replDataB d)) (\<lambda>(sb, db).
     Inr (st\<lparr>stateA := sa, stateB := sb\<rparr>, d\<lparr>replDataA := da, replDataB := db\<rparr>)))"

definition dueling_reset ::
  "('s, 'm) rp \<Rightarrow> ('t, 'n) rp \<Rightarrow> tick \<Rightarrow> ('s, 't) dueling_state \<Rightarrow> ('m, 'n) dueling_data
   \<Rightarrow> (('s, 't) dueling_state \<times> ('m, 'n) dueling_data) res" where
  "dueling_reset A B now st d =
     bindR (rp_reset A now (stateA st) (replDataA d)) (\<lambda>(sa, da).
     bindR (rp_reset B now (stateB st) (replDataB d)) (\<lambda>(sb, db).
     Inr (st\<lparr>stateA := sa, stateB := sb, duelingMonitor := dm_sample (duelingMonitor st) (duel d)\<rparr>,
          d\<lparr>replDataA := da, replDataB := db\<rparr>)))"

definition dueling_team_a :: "dueling_monitor \<Rightarrow> dueler \<Rightarrow> bool" where
  "dueling_team_a m d =
     (let win = \<not> winner m; (is_sample, team) = isSample (dm_id m) d
      in (is_sample \<and> \<not> team) \<or> (\<not> is_sample \<and> \<not> win))"

text \<open>The loop that routes the candidates checks that no sampled candidate is of the other team.\<close>

definition dueling_uniform :: "dueling_monitor \<Rightarrow> dueler \<Rightarrow> dueler list \<Rightarrow> bool" where
  "dueling_uniform m d0 ds =
     list_all (\<lambda>d. \<not> (fst (isSample (dm_id m) d) \<and> snd (isSample (dm_id m) d0) \<noteq> snd (isSample (dm_id m) d))) ds"

definition dueling_getVictim ::
  "('s, 'm) rp \<Rightarrow> ('t, 'n) rp \<Rightarrow> tick \<Rightarrow> ('s, 't) dueling_state
   \<Rightarrow> (replaceable_entry \<times> ('m, 'n) dueling_data) list
   \<Rightarrow> (('s, 't) dueling_state \<times> ('m, 'n) dueling_data list \<times> nat option) res" where
  "dueling_getVictim A B now st cs =
     checkR Panic (\<not> of_nat (length cs) \<noteq> team_size_param st)
       (bindR (vec_at cs 0) (\<lambda>c0.
        let m = duelingMonitor st; ds = map snd cs in
        if dueling_team_a m (duel (snd c0)) then
          checkR Panic (dueling_uniform m (duel (snd c0)) (map duel ds))
            (bindR (rp_getVictim A now (stateA st) (map (\<lambda>(e, d). (e, replDataA d)) cs)) (\<lambda>(sa, das, v).
             Inr (st\<lparr>stateA := sa, selectedA := Suc (selectedA st)\<rparr>,
                  map2 (\<lambda>d da. d\<lparr>replDataA := da\<rparr>) ds das, v)))
        else
          checkR Panic (dueling_uniform m (duel (snd c0)) (map duel ds))
            (bindR (rp_getVictim B now (stateB st) (map (\<lambda>(e, d). (e, replDataB d)) cs)) (\<lambda>(sb, dbs, v).
             Inr (st\<lparr>stateB := sb, selectedB := Suc (selectedB st)\<rparr>,
                  map2 (\<lambda>d db. d\<lparr>replDataB := db\<rparr>) ds dbs, v)))))"

text \<open>The data of the two policies is created by them; its \<open>entry\<close> links stay as allocated.\<close>

definition dueling_instantiateEntry ::
  "('s, 'm) rp \<Rightarrow> ('t, 'n) rp \<Rightarrow> replaceable_entry option \<Rightarrow> replaceable_entry option \<Rightarrow> replaceable_entry option
   \<Rightarrow> ('s, 't) dueling_state \<Rightarrow> (('s, 't) dueling_state \<times> ('m, 'n) dueling_data) res" where
  "dueling_instantiateEntry A B e0 ea eb st =
     (let (sa, da) = rp_instantiateEntry A ea (stateA st);
          (sb, db) = rp_instantiateEntry B eb (stateB st)
      in bindR (dm_initEntry (duelingMonitor st) newDueler) (\<lambda>(m, d).
         Inr (st\<lparr>stateA := sa, stateB := sb, duelingMonitor := m\<rparr>,
              \<lparr>rd_entry = e0, duel = d, replDataA = da, replDataB = db\<rparr>)))"

section \<open>The monitor follows the misses\<close>

text \<open>
  Between the thresholds the winner is kept; from the high one on team \<open>True\<close> has won, below the low
  one it has lost.
\<close>

definition dm_inv :: "dueling_monitor \<Rightarrow> bool" where
  "dm_inv m \<longleftrightarrow> sat_inv (selector m) \<and> lowThreshold m \<le> highThreshold m \<and>
     (saturation_at_least (highThreshold m) (selector m) \<longrightarrow> winner m) \<and>
     (winner m \<longrightarrow> saturation_at_least (lowThreshold m) (selector m))"

lemma saturation_mono:
  "saturation_at_least p c \<Longrightarrow> maxVal c' = maxVal c \<Longrightarrow> counter c \<le> counter c' \<Longrightarrow> saturation_at_least p c'"
  "saturation_at_least q c \<Longrightarrow> p \<le> q \<Longrightarrow> saturation_at_least p c"
  using mult_le_mono1 [of "unat (counter c)" "unat (counter c')" 100]
    le_trans [OF mult_le_mono1 [of p q "unat (maxVal c)"], of "unat (counter c) * 100"]
  by (auto simp: saturation_at_least_def word_le_nat_alt)

lemma counter_inc_dec:
  assumes "sat_inv c"
  shows "counter c \<le> counter (sat_inc c)" "counter (sat_dec c) \<le> counter c"
  using sat_inc_clamp [OF assms] sat_dec_clamp [OF assms] assms
  by (auto simp: word_le_def clamp_def sat_inv_def)

lemma dm_sample_inv:
  assumes "dm_inv m"
  shows "dm_inv (dm_sample m d)"
proof -
  note s = counter_inc_dec [of "selector m"] and inv = assms [unfolded dm_inv_def]
  have up: "saturation_at_least p (selector m) \<Longrightarrow> saturation_at_least p (sat_inc (selector m))" for p
    using inv s(1) by (auto intro: saturation_mono(1))
  have down: "saturation_at_least p (sat_dec (selector m)) \<Longrightarrow> saturation_at_least p (selector m)" for p
    using inv s(2) by (auto intro: saturation_mono(1) [of p "sat_dec (selector m)"])
  show ?thesis
    using inv up down saturation_mono(2) [of "highThreshold m" _ "lowThreshold m"]
    by (auto simp: dm_inv_def dm_sample_def split_beta Let_def)
qed

lemma newDuelingMonitor_inv:
  assumes "newDuelingMonitor n c t b low high = Inr (n', m)"
  shows "dm_inv m \<and> dm_id m = (if n < 31 then push_bit n 1 else - 0x80000000) \<and> constituencySize m = c \<and> teamSize m = t \<and>
    lowThreshold m = low \<and> highThreshold m = high \<and> regionCounter m = 0 \<and> \<not> c < 2 * t \<and> n \<le> 31"
proof -
  obtain i cn where i: "instance_id n = Inr i" "newSatCounter b (0 :: 32 word) = Inr cn"
    and m: "\<not> c < 2 * t" "low \<le> high" "m = \<lparr>dm_id = i, constituencySize = c, teamSize = t, lowThreshold = low,
      highThreshold = high, selector = sat_shr 1 (snd (saturate cn)), regionCounter = 0,
      winner = saturation_at_least low (sat_shr 1 (snd (saturate cn)))\<rparr>"
    using assms by (auto simp: newDuelingMonitor_def res_simps Let_def)
  have "sat_inv (snd (saturate cn))" using newSatCounter_inv [OF i(2)] by simp
  then have "sat_inv (sat_shr 1 (snd (saturate cn)))"
    by (simp add: sat_inv_def sat_shr_def word_le_nat_alt drop_bit_eq_div unat_div)
  then show ?thesis using i(1) m saturation_mono(2) [of high _ low]
    by (auto simp: dm_inv_def instance_id_def split: if_splits)
qed

section \<open>Which entries are samples\<close>

lemma length_filter_upt: "length (filter P [0..<n]) = card {i. i < n \<and> P i}"
  by (simp add: length_filter_conv_card cong: conj_cong)

lemma popCount_card: "popCount v = card {i. i < 64 \<and> bit v i}"
  unfolding popCount_counts count_set_def by (rule length_filter_upt)

lemma popCount_single: "n < 64 \<Longrightarrow> popCount (push_bit n 1) = 1"
proof -
  assume "n < 64"
  then have "{i. i < 64 \<and> bit (push_bit n 1 :: uint64) i} = {n}" by (auto simp: bit_simps)
  then show ?thesis by (simp add: popCount_card)
qed

text \<open>
  A monitor that hands out samples: the identifier has one bit, the teams fit into a constituency and
  the counter of the region stays in the range of an \<open>int\<close>.
\<close>

definition dm_layout :: "nat \<Rightarrow> dueling_monitor \<Rightarrow> bool" where
  "dm_layout r m \<longleftrightarrow> popCount (dm_id m) = 1 \<and> unat (constituencySize m) < 2 ^ 31 \<and>
     2 * unat (teamSize m) \<le> unat (constituencySize m) \<and> 0 < unat (constituencySize m) \<and>
     regionCounter m = int (r mod unat (constituencySize m))"

definition dueler_at :: "dueling_monitor \<Rightarrow> nat \<Rightarrow> dueler" where
  "dueler_at m j =
     (let r = j mod unat (constituencySize m); c = unat (constituencySize m); t = unat (teamSize m)
      in \<lparr>sampleBits = (if r < t \<or> c - t \<le> r then dm_id m else 0),
          teamBits = (if c - t \<le> r then dm_id m else 0)\<rparr>)"

lemma dm_initEntry_at:
  assumes "dm_layout r m"
  shows "\<exists>m'. dm_initEntry m newDueler = Inr (m', dueler_at m r) \<and> dm_layout (Suc r) m' \<and>
    m' = m\<lparr>regionCounter := regionCounter m'\<rparr>"
proof -
  let ?c = "unat (constituencySize m)" and ?t = "unat (teamSize m)"
  let ?r = "r mod ?c"
  have c: "?c < 2 ^ 31" "2 * ?t \<le> ?c" "0 < ?c" and pop: "popCount (dm_id m) = 1" and rc: "regionCounter m = int ?r"
    using assms by (simp_all add: dm_layout_def)
  have r: "?r < ?c" using c(3) by simp
  have w: "unat (of_nat k :: uint64) = k" if "k \<le> ?c" for k
    using that c(1) by (simp add: unat_of_nat take_bit_nat_eq_self)
  have lt: "of_nat ?r < teamSize m \<longleftrightarrow> ?r < ?t" using w [of ?r] r by (simp add: word_less_nat_alt)
  have ct: "unat (constituencySize m - teamSize m) = ?c - ?t" using c(2) by (simp add: unat_sub word_le_nat_alt)
  have ge: "of_nat ?r \<ge> constituencySize m - teamSize m \<longleftrightarrow> ?c - ?t \<le> ?r"
    using w [of ?r] r ct by (simp add: word_le_nat_alt)
  have "unat (of_nat ?r + 1 :: uint64) = Suc ?r" using w [of "Suc ?r"] r by (simp add: add.commute)
  then have nz: "of_nat ?r + 1 \<ge> constituencySize m \<longleftrightarrow> Suc ?r = ?c"
    using r by (auto simp: word_le_nat_alt)
  have nxt: "int (Suc r mod ?c) = (if Suc ?r = ?c then 0 else int ?r + 1)"
    using mod_Suc [of r ?c] by simp
  have excl: "?r < ?t \<Longrightarrow> \<not> ?c - ?t \<le> ?r" using c(2) by linarith
  have "dm_initEntry m newDueler = Inr (m\<lparr>regionCounter := int (Suc r mod ?c)\<rparr>, dueler_at m r)"
    using c(1) r nxt excl
    by (simp add: dm_initEntry_def rc lt ge nz setSample_def newDueler_def pop dueler_at_def Let_def)
  then show ?thesis using assms by (auto simp: dm_layout_def)
qed

fun dm_create :: "nat \<Rightarrow> dueling_monitor \<Rightarrow> (dueling_monitor \<times> dueler list) res" where
  "dm_create 0 m = Inr (m, [])"
| "dm_create (Suc n) m =
     bindR (dm_create n m) (\<lambda>(m1, ds). bindR (dm_initEntry m1 newDueler) (\<lambda>(m2, d). Inr (m2, ds @ [d])))"

lemma dueler_at_region [simp]: "dueler_at (m\<lparr>regionCounter := x\<rparr>) = dueler_at m"
  by (simp add: dueler_at_def fun_eq_iff Let_def)

lemma dm_create_at:
  assumes "dm_layout 0 m"
  shows "\<exists>m'. dm_create n m = Inr (m', map (dueler_at m) [0..<n]) \<and> dm_layout n m' \<and> m' = m\<lparr>regionCounter := regionCounter m'\<rparr>"
proof (induction n)
  case 0
  show ?case using assms by simp
next
  case (Suc n)
  then obtain m1 where m1: "dm_create n m = Inr (m1, map (dueler_at m) [0..<n])" "dm_layout n m1"
    "m1 = m\<lparr>regionCounter := regionCounter m1\<rparr>" by blast
  obtain m2 where m2: "dm_initEntry m1 newDueler = Inr (m2, dueler_at m1 n)" "dm_layout (Suc n) m2"
    "m2 = m1\<lparr>regionCounter := regionCounter m2\<rparr>" using dm_initEntry_at [OF m1(2)] by blast
  have "dueler_at m1 = dueler_at m" by (subst m1(3)) simp
  moreover have "m2 = m\<lparr>regionCounter := regionCounter m2\<rparr>" by (subst m2(3), subst m1(3)) simp
  ultimately show ?case using m1(1) m2(1,2) by simp
qed

lemma set_position:
  assumes "0 < (t :: nat)" "w < t" "2 \<le> k"
  shows "(s * t + w) mod (k * t) = (s mod k) * t + w"
    "(s mod k) * t + w < t \<longleftrightarrow> s mod k = 0" "k * t - t \<le> (s mod k) * t + w \<longleftrightarrow> s mod k = k - 1"
proof -
  have "s mod k * t + w < k * t"
  proof -
    have "Suc (s mod k) * t \<le> k * t" using assms(3) by (intro mult_le_mono1) (simp add: Suc_le_eq)
    then show ?thesis using assms(2) by simp
  qed
  moreover have "s * t + w = (s mod k) * t + w + (s div k) * (k * t)"
    by (metis add.assoc add.commute div_mult_mod_eq distrib_right mult.assoc)
  ultimately show "(s * t + w) mod (k * t) = (s mod k) * t + w" by (simp only: mod_mult_self1 mod_less)
  show "(s mod k) * t + w < t \<longleftrightarrow> s mod k = 0"
    using assms(2) by (cases "s mod k") auto
  have "k * t - t = (k - 1) * t" by (simp add: diff_mult_distrib)
  moreover have "(k - 1) * t \<le> (s mod k) * t + w \<longleftrightarrow> k - 1 \<le> s mod k"
  proof
    assume "(k - 1) * t \<le> (s mod k) * t + w"
    then have "(k - 1) * t < Suc (s mod k) * t" using assms(2) by simp
    then show "k - 1 \<le> s mod k" by (simp only: mult_less_cancel2) simp
  next
    assume "k - 1 \<le> s mod k"
    then show "(k - 1) * t \<le> (s mod k) * t + w" by (rule trans_le_add1 [OF mult_le_mono1])
  qed
  moreover have "s mod k < k" using assms(3) by simp
  ultimately show "k * t - t \<le> (s mod k) * t + w \<longleftrightarrow> s mod k = k - 1" by auto
qed

text \<open>
  Which sets duel.  When the team size is the associativity and divides the constituency into \<open>k\<close>
  sets, a monitor (one of the first 31) gives every block of a set the same role: the first set of a
  constituency samples the first policy, the last one the second policy, and all other sets follow the
  winner.  In particular the blocks of a set never belong to different teams, which \<open>getVictim\<close>
  requires.
\<close>

theorem dueling_set_roles:
  assumes "newDuelingMonitor n (of_nat (k * t)) (of_nat t) b low high = Inr (n', m)" "n < 31"
    and "0 < t" "2 \<le> k" "k * t < 2 ^ 31"
  shows "\<exists>m' ds. dm_create (sets * t) m = Inr (m', ds) \<and> length ds = sets * t \<and>
    (\<forall>s < sets. \<forall>w < t. isSample (dm_id m) (ds ! (s * t + w)) =
       (s mod k = 0 \<or> s mod k = k - 1, s mod k = k - 1))"
proof -
  have m: "dm_id m = push_bit n 1" "constituencySize m = of_nat (k * t)" "teamSize m = of_nat t" "regionCounter m = 0"
    using newDuelingMonitor_inv [OF assms(1)] assms(2) by simp_all
  have t: "t < 2 ^ 31" using assms(4,5) mult_le_mono1 [of 2 k t] by linarith
  have u: "unat (of_nat (k * t) :: uint64) = k * t" "unat (of_nat t :: uint64) = t"
    using assms(5) t by (simp_all add: unat_of_nat take_bit_nat_eq_self del: of_nat_mult)
  have "dm_layout 0 m"
    using popCount_single [of n] assms u mult_le_mono1 [of 2 k t] by (simp add: dm_layout_def m del: of_nat_mult)
  then obtain m' where c: "dm_create (sets * t) m = Inr (m', map (dueler_at m) [0..<sets * t])"
    using dm_create_at by blast
  have nz: "dm_id m \<noteq> 0" using m(1) assms(2) by (simp add: push_bit_eq_mult)
  have "isSample (dm_id m) (map (dueler_at m) [0..<sets * t] ! (s * t + w)) = (s mod k = 0 \<or> s mod k = k - 1, s mod k = k - 1)"
    if "s < sets" "w < t" for s w
  proof -
    have "s * t + w < sets * t" using mult_le_mono1 [of "Suc s" sets t] that by simp
    then have "map (dueler_at m) [0..<sets * t] ! (s * t + w) = dueler_at m (s * t + w)" by simp
    then show ?thesis
      using set_position [OF assms(3) that(2) assms(4), of s] nz
      by (simp add: dueler_at_def isSample_def Let_def m(2,3) u del: of_nat_mult)
  qed
  with c show ?thesis by auto
qed

theorem dueling_set_roles_witness:
  "\<exists>n' m m' ds. newDuelingMonitor 0 (of_nat (16 * 4)) (of_nat 4) 10 50 50 = Inr (n', m) \<and>
     dm_create (64 * 4) m = Inr (m', ds) \<and> isSample (dm_id m) (ds ! (31 * 4 + 2)) = (True, True)"
proof -
  obtain n' m where m: "newDuelingMonitor 0 (of_nat (16 * 4)) (of_nat 4) 10 50 50 = Inr (n', m)"
    by (simp add: newDuelingMonitor_def instance_id_def newSatCounter_def Let_def)
  from dueling_set_roles [OF m, of 64] obtain m' ds where c: "dm_create (64 * 4) m = Inr (m', ds)"
    "\<forall>s < 64. \<forall>w < 4. isSample (dm_id m) (ds ! (s * 4 + w)) = (s mod 16 = 0 \<or> s mod 16 = 16 - 1, s mod 16 = 16 - 1)"
    by auto
  from c(2) [rule_format, of 31 2] have "isSample (dm_id m) (ds ! (31 * 4 + 2)) = (True, True)" by simp
  with m c(1) show ?thesis by blast
qed

text \<open>
  Who wins.  With one threshold \<open>p\<close>, after any sequence of misses \<open>getVictim\<close> uses the first
  policy for a set exactly when the set samples that policy, or samples none and the counter, which
  the misses of the second policy's sets raise and those of the first policy's sets lower, stands at
  \<open>p\<close> percent or more.
\<close>

theorem dueling_follows_misses:
  assumes "newDuelingMonitor n c t b p p = Inr (n', m0)" "m = fold (\<lambda>d m. dm_sample m d) ds m0"
  shows "dueling_team_a m d \<longleftrightarrow>
    (if fst (isSample (dm_id m) d) then \<not> snd (isSample (dm_id m) d) else saturation_at_least p (selector m))"
proof -
  have keep: "dm_inv (dm_sample m d) \<and> lowThreshold (dm_sample m d) = lowThreshold m \<and>
      highThreshold (dm_sample m d) = highThreshold m" if "dm_inv m" for m d
    using dm_sample_inv [OF that, of d] by (simp add: dm_sample_def split_beta Let_def)
  have "dm_inv m0 \<and> lowThreshold m0 = p \<and> highThreshold m0 = p" using newDuelingMonitor_inv [OF assms(1)] by simp
  then have "dm_inv (fold (\<lambda>d m. dm_sample m d) ds m0) \<and> lowThreshold (fold (\<lambda>d m. dm_sample m d) ds m0) = p \<and>
      highThreshold (fold (\<lambda>d m. dm_sample m d) ds m0) = p"
    by (induction ds arbitrary: m0) (simp_all add: keep)
  then have "winner m = saturation_at_least p (selector m)" by (auto simp: assms(2) dm_inv_def)
  then show ?thesis by (simp add: dueling_team_a_def split_beta Let_def)
qed

theorem dueling_follows_misses_witness:
  "\<exists>n' m0. newDuelingMonitor 3 64 4 10 50 50 = Inr (n', m0) \<and>
     (let m = fold (\<lambda>d m. dm_sample m d) [\<lparr>sampleBits = 8, teamBits = 8\<rparr>] m0
      in dueling_team_a m newDueler = saturation_at_least 50 (selector m))"
proof -
  obtain n' m where m: "newDuelingMonitor 3 64 4 10 50 50 = Inr (n', m)"
    by (simp add: newDuelingMonitor_def instance_id_def newSatCounter_def Let_def)
  from dueling_follows_misses [OF m refl, of "[\<lparr>sampleBits = 8, teamBits = 8\<rparr>]" newDueler] m
  show ?thesis by (simp add: newDueler_def isSample_def Let_def)
qed

section \<open>Victims\<close>

text \<open>
  What the candidates must be: as many as a team, all in positions of the table, all live for both
  policies, and no two of different teams.
\<close>

definition duel_candidates ::
  "('m replacement_data_scheme \<Rightarrow> bool) \<Rightarrow> ('n replacement_data_scheme \<Rightarrow> bool) \<Rightarrow> ('s, 't) dueling_state
   \<Rightarrow> (replaceable_entry \<times> ('m, 'n) dueling_data) list \<Rightarrow> bool" where
  "duel_candidates liveA liveB st cs \<longleftrightarrow> cs \<noteq> [] \<and> length cs < 2 ^ 31 \<and> of_nat (length cs) = team_size_param st \<and>
     list_all (\<lambda>(e, d). pos_ok e \<and> liveA (replDataA d) \<and> liveB (replDataB d)) cs \<and>
     dueling_uniform (duelingMonitor st) (duel (snd (hd cs))) (map (duel \<circ> snd) cs)"

locale dueling_pair = A: victim_policy A pinvA liveA + B: victim_policy B pinvB liveB
  for A :: "('s, 'm) rp" and pinvA liveA and B :: "('t, 'n) rp" and pinvB liveB
begin

lemma victim_A:
  assumes "pinvA (stateA st)" "duel_candidates liveA liveB st cs"
    and "dueling_team_a (duelingMonitor st) (duel (snd (hd cs)))"
  shows "\<exists>sa das i. rp_getVictim A now (stateA st) (map (\<lambda>(e, d). (e, replDataA d)) cs) = Inr (sa, das, Some i) \<and>
    dueling_getVictim A B now st cs = Inr (st\<lparr>stateA := sa, selectedA := Suc (selectedA st)\<rparr>,
      map2 (\<lambda>d da. d\<lparr>replDataA := da\<rparr>) (map snd cs) das, Some i) \<and>
    pinvA sa \<and> i < length cs \<and> length das = length cs \<and> list_all liveA das"
proof -
  let ?cs = "map (\<lambda>(e, d). (e, replDataA d)) cs"
  have "list_all (\<lambda>c. pos_ok (fst c) \<and> liveA (snd c)) ?cs"
    using assms(2) by (auto simp: duel_candidates_def list_all_iff split: prod.splits)
  then obtain sa das i where v: "rp_getVictim A now (stateA st) ?cs = Inr (sa, das, Some i)" "pinvA sa"
    "i < length cs" "length das = length cs" "list_all liveA das"
    using A.victim_ok [of "stateA st" ?cs now] assms by (auto simp: duel_candidates_def)
  with assms(2,3) show ?thesis
    by (auto simp: duel_candidates_def dueling_getVictim_def Let_def hd_conv_nth)
qed

lemma victim_B:
  assumes "pinvB (stateB st)" "duel_candidates liveA liveB st cs"
    and "\<not> dueling_team_a (duelingMonitor st) (duel (snd (hd cs)))"
  shows "\<exists>sb dbs i. rp_getVictim B now (stateB st) (map (\<lambda>(e, d). (e, replDataB d)) cs) = Inr (sb, dbs, Some i) \<and>
    dueling_getVictim A B now st cs = Inr (st\<lparr>stateB := sb, selectedB := Suc (selectedB st)\<rparr>,
      map2 (\<lambda>d db. d\<lparr>replDataB := db\<rparr>) (map snd cs) dbs, Some i) \<and>
    pinvB sb \<and> i < length cs \<and> length dbs = length cs \<and> list_all liveB dbs"
proof -
  let ?cs = "map (\<lambda>(e, d). (e, replDataB d)) cs"
  have "list_all (\<lambda>c. pos_ok (fst c) \<and> liveB (snd c)) ?cs"
    using assms(2) by (auto simp: duel_candidates_def list_all_iff split: prod.splits)
  then obtain sb dbs i where v: "rp_getVictim B now (stateB st) ?cs = Inr (sb, dbs, Some i)" "pinvB sb"
    "i < length cs" "length dbs = length cs" "list_all liveB dbs"
    using B.victim_ok [of "stateB st" ?cs now] assms by (auto simp: duel_candidates_def)
  with assms(2,3) show ?thesis
    by (auto simp: duel_candidates_def dueling_getVictim_def Let_def hd_conv_nth)
qed

end

text \<open>The pairing of the DIP policy: LRU against bimodal insertion.\<close>

interpretation dip: dueling_pair lru_rp "\<lambda>_. True" "\<lambda>_. True" "bip_rp btp" "\<lambda>_. True" "\<lambda>_. True" for btp
  by unfold_locales

text \<open>
  Dueling delegates.  For any two policies that meet the interface, on candidates that make up one
  set, the dueling policy returns a candidate: the victim of the first policy if the team rule selects
  it and the victim of the second one otherwise, each computed on its own replacement data.  The
  samples, the monitor and the other policy's state and data are left alone.
\<close>

theorem dueling_victim_delegates:
  assumes "victim_policy A pinvA liveA" "victim_policy B pinvB liveB" "pinvA (stateA st)" "pinvB (stateB st)"
    and "duel_candidates liveA liveB st cs"
  shows "\<exists>st' ds' i. dueling_getVictim A B now st cs = Inr (st', ds', Some i) \<and> i < length cs \<and>
    duelingMonitor st' = duelingMonitor st \<and> pinvA (stateA st') \<and> pinvB (stateB st') \<and>
    map duel ds' = map (duel \<circ> snd) cs \<and>
    (if dueling_team_a (duelingMonitor st) (duel (snd (hd cs)))
     then (\<exists>das. rp_getVictim A now (stateA st) (map (\<lambda>(e, d). (e, replDataA d)) cs) = Inr (stateA st', das, Some i) \<and>
       map replDataA ds' = das) \<and> stateB st' = stateB st \<and> map replDataB ds' = map (replDataB \<circ> snd) cs
     else (\<exists>dbs. rp_getVictim B now (stateB st) (map (\<lambda>(e, d). (e, replDataB d)) cs) = Inr (stateB st', dbs, Some i) \<and>
       map replDataB ds' = dbs) \<and> stateA st' = stateA st \<and> map replDataA ds' = map (replDataA \<circ> snd) cs)"
proof -
  have pair: "dueling_pair A pinvA liveA B pinvB liveB" using assms(1,2) by (rule dueling_pair.intro)
  show ?thesis
  proof (cases "dueling_team_a (duelingMonitor st) (duel (snd (hd cs)))")
    case True
    from dueling_pair.victim_A [OF pair assms(3,5) True, of now] show ?thesis
      using True assms(4) by (auto simp: comp_def split_beta intro!: nth_equalityI)
  next
    case False
    from dueling_pair.victim_B [OF pair assms(4,5) False, of now] show ?thesis
      using False assms(3) by (auto simp: comp_def split_beta intro!: nth_equalityI)
  qed
qed

definition ex_duel_state :: "bool \<Rightarrow> (unit, rng) dueling_state" where
  "ex_duel_state win = \<lparr>stateA = (), stateB = \<lparr>rng_out = of_nat, rng_pos = 0\<rparr>,
     duelingMonitor = \<lparr>dm_id = 1, constituencySize = 8, teamSize = 2, lowThreshold = 50, highThreshold = 50,
       selector = \<lparr>initialVal = 0, maxVal = 1023, counter = 600\<rparr>, regionCounter = 0, winner = win\<rparr>,
     team_size_param = 2, selectedA = 0, selectedB = 0\<rparr>"

definition ex_duel_set :: "(replaceable_entry \<times> (unit lru_repl_data_ext, unit lru_repl_data_ext) dueling_data) list" where
  "ex_duel_set = map (\<lambda>(w, a, b). (\<lparr>entry_set = 0, entry_way = w\<rparr>,
     \<lparr>rd_entry = None, duel = newDueler, replDataA = \<lparr>rd_entry = None, lastTouchTick = a\<rparr>,
      replDataB = \<lparr>rd_entry = None, lastTouchTick = b\<rparr>\<rparr>)) [(0, 20, 1), (1, 10, 5)]"

theorem dueling_victim_delegates_witness:
  "(\<exists>st' ds'. dueling_getVictim lru_rp (bip_rp 3) 30 (ex_duel_state True) ex_duel_set = Inr (st', ds', Some 1)) \<and>
   (\<exists>st' ds'. dueling_getVictim lru_rp (bip_rp 3) 30 (ex_duel_state False) ex_duel_set = Inr (st', ds', Some 0))"
proof -
  have "duel_candidates (\<lambda>_. True) (\<lambda>_. True) (ex_duel_state b) ex_duel_set" for b
    by (simp add: duel_candidates_def ex_duel_state_def ex_duel_set_def pos_ok_def getSet_def dueling_uniform_def
      isSample_def newDueler_def)
  note d = dueling_victim_delegates [OF lru.victim_policy_axioms bip.victim_policy_axioms TrueI TrueI this, of 3 30]
  have A: "rp_getVictim lru_rp 30 () (map (\<lambda>(e, d). (e, replDataA d)) ex_duel_set) =
      Inr ((), map (replDataA \<circ> snd) ex_duel_set, Some 1)"
    by (simp add: lru_rp_def pure_victim_def lru_getVictim_def scan_best_def ex_duel_set_def)
  have B: "rp_getVictim (bip_rp 3) 30 g (map (\<lambda>(e, d). (e, replDataB d)) ex_duel_set) =
      Inr (g, map (replDataB \<circ> snd) ex_duel_set, Some 0)" for g
    by (simp add: bip_rp_def pure_victim_def lru_getVictim_def scan_best_def ex_duel_set_def)
  have t: "dueling_team_a (duelingMonitor (ex_duel_state b)) (duel (snd (hd ex_duel_set))) = b" for b
    by (simp add: dueling_team_a_def ex_duel_state_def ex_duel_set_def newDueler_def isSample_def Let_def)
  from d [of True] d [of False] show ?thesis by (auto simp: t A B)
qed

text \<open>
  The monitors run out long before the 64 the constructor allows for.  The identifier is shifted as
  an \<open>int\<close>: the 32nd monitor of a simulation gets an identifier with 33 bits set and stops the program
  with a panic at the first entry it initialises, and from the 33rd on the shift itself is undefined.
\<close>

theorem dueling_too_many_monitors:
  "(\<exists>m. newDuelingMonitor 31 64 4 10 50 50 = Inr (32, m) \<and> popCount (dm_id m) = 33 \<and>
     dm_initEntry m newDueler = Inl Panic) \<and> newDuelingMonitor 32 64 4 10 50 50 = Inl OutOfRange"
proof -
  have "popCount (- 0x80000000) = 33" by (simp add: popCount_def)
  then show ?thesis
    by (simp add: newDuelingMonitor_def instance_id_def newSatCounter_def Let_def dm_initEntry_def setSample_def)
qed

end
