(* ===== verification/Indexing.thy ===== *)
theory Indexing
  imports Repl_Policy Intmath
begin

unbundle bit_operations_syntax

text \<open>
  The indexing policies of the classic caches (\<open>tags/indexing_policies\<close> and \<open>tagged_entry.hh\<close>): how
  an address selects the sets its block may be in, and how the address is computed back from the tag
  and the position of a block.  The matrix of entries itself is part of the tag store.
\<close>

section \<open>The base class and set associativity\<close>

record indexing =
  ip_assoc :: uint32
  numSets :: uint32
  setShift :: nat
  setMask :: uint32
  tagShift :: nat

text \<open>The members are initialised, dividing by the associativity, before the checks of the body.\<close>

definition newIndexingPolicy :: "uint32 \<Rightarrow> uint32 \<Rightarrow> nat \<Rightarrow> indexing res" where
  "newIndexingPolicy assoc num_entries set_shift =
     (if assoc = 0 then Inl DivByZero
      else
        let n = num_entries div assoc in
        bindR (floorLog2 4 (ucast n)) (\<lambda>log.
        checkR Fatal (\<not> \<not> isPowerOf2 (ucast n))
          (checkR Fatal (\<not> assoc \<le> 0)
            (Inr \<lparr>ip_assoc = assoc, numSets = n, setShift = set_shift, setMask = n - 1,
                  tagShift = set_shift + log\<rparr>))))"

text \<open>\<open>SetAssociative::SetAssociative\<close>: the number of entries is a 64-bit quotient cut to 32 bits.\<close>

definition newSetAssociative :: "uint32 \<Rightarrow> uint64 \<Rightarrow> uint32 \<Rightarrow> indexing res" where
  "newSetAssociative assoc bytes entry_size =
     (if entry_size = 0 then Inl DivByZero
      else bindR (floorLog2 4 (ucast entry_size)) (\<lambda>shift.
           newIndexingPolicy assoc (ucast (bytes div ucast entry_size)) shift))"

definition extractTag :: "'i indexing_scheme \<Rightarrow> addr \<Rightarrow> addr" where
  "extractTag ip a = drop_bit (tagShift ip) a"

definition sa_extractSet :: "indexing \<Rightarrow> addr \<Rightarrow> uint32" where
  "sa_extractSet ip a = ucast (drop_bit (setShift ip) a AND ucast (setMask ip))"

text \<open>\<open>entry->getSet() << setShift\<close> is a shift of a 32-bit number.\<close>

definition sa_regenerateAddr :: "indexing \<Rightarrow> addr \<Rightarrow> 'a replaceable_entry_scheme \<Rightarrow> addr" where
  "sa_regenerateAddr ip t e =
     push_bit (tagShift ip) t OR ucast (push_bit (setShift ip) (getSet e) :: uint32)"

text \<open>The position of the entry with a given index: row after row.\<close>

definition ip_position :: "indexing \<Rightarrow> nat \<Rightarrow> (uint32 \<times> uint32) res" where
  "ip_position ip i =
     (let s = i div unat (ip_assoc ip); w = i mod unat (ip_assoc ip)
      in checkR AssertFail (of_nat s < numSets ip) (Inr (of_nat s, of_nat w)))"

section \<open>Skewed associativity\<close>

record skewed = indexing +
  msbShift :: nat

definition newSkewedAssociative :: "uint32 \<Rightarrow> uint64 \<Rightarrow> uint32 \<Rightarrow> skewed res" where
  "newSkewedAssociative assoc bytes entry_size =
     bindR (newSetAssociative assoc bytes entry_size) (\<lambda>ip.
     bindR (floorLog2 4 (ucast (numSets ip))) (\<lambda>log.
     checkR Panic (\<not> setShift ip + 2 * log > 64)
       (checkR Fatal (\<not> numSets ip \<le> 2)
         (Inr \<lparr>ip_assoc = ip_assoc ip, numSets = numSets ip, setShift = setShift ip, setMask = setMask ip,
               tagShift = tagShift ip, msbShift = log - 1\<rparr>))))"

text \<open>
  The hash and its inverse on the \<open>m + 1\<close> bits of a set number, where \<open>m\<close> is \<open>msbShift\<close>.  The
  positions are constant and in range, so the values of \<open>bits\<close> and \<open>insertBits\<close> are used directly.
\<close>

definition skew_hash :: "nat \<Rightarrow> addr \<Rightarrow> addr" where
  "skew_hash m a =
     (let lsb = bits_val a 0 0; msb = bits_val a m m; xor_bit = msb XOR lsb
      in inserted (drop_bit 1 a) m m xor_bit)"

definition skew_dehash :: "nat \<Rightarrow> addr \<Rightarrow> addr" where
  "skew_dehash m a =
     (let msb = bits_val a (m - 1) (m - 1); xor_bit = bits_val a m m; lsb = msb XOR xor_bit;
          addr_no_msb = mbits a (m - 1) 0
      in inserted (push_bit 1 addr_no_msb) 0 0 lsb)"

text \<open>The two halves the skewing functions work on: the set bits and the lower bits of the tag.\<close>

definition skew_addr1 :: "nat \<Rightarrow> addr \<Rightarrow> addr" where
  "skew_addr1 m a = bits_val a m 0"

definition skew_addr2 :: "nat \<Rightarrow> addr \<Rightarrow> addr" where
  "skew_addr2 m a = bits_val a (2 * (m + 1) - 1) (m + 1)"

definition skew :: "nat \<Rightarrow> addr \<Rightarrow> uint32 \<Rightarrow> addr res" where
  "skew m a way =
     (let a1 = skew_addr1 m a; a2 = skew_addr2 m a; h = skew_hash m; d = skew_dehash m; k = way mod 8 in
      bindR
        (if k = 0 then Inr (h a1 XOR h a2 XOR a2)
         else if k = 1 then Inr (h a1 XOR h a2 XOR a1)
         else if k = 2 then Inr (h a1 XOR d a2 XOR a2)
         else if k = 3 then Inr (h a1 XOR d a2 XOR a1)
         else if k = 4 then Inr (d a1 XOR h a2 XOR a2)
         else if k = 5 then Inr (d a1 XOR h a2 XOR a1)
         else if k = 6 then Inr (d a1 XOR d a2 XOR a2)
         else if k = 7 then Inr (d a1 XOR d a2 XOR a1)
         else Inl Panic)
        (\<lambda>a1'. Inr ((h ^^ unat (way div 8)) a1')))"

definition deskew :: "nat \<Rightarrow> addr \<Rightarrow> uint32 \<Rightarrow> addr res" where
  "deskew m a way =
     (let a1 = skew_addr1 m a; a2 = skew_addr2 m a; h = skew_hash m; d = skew_dehash m; k = way mod 8;
          a1 = (if way \<ge> 8 then (d ^^ unat (way div 8)) a1 else a1)
      in if k = 0 then Inr (d (a1 XOR h a2 XOR a2))
         else if k = 1 then Inr ((h ^^ m) (a1 XOR h a2))
         else if k = 2 then Inr (d (a1 XOR d a2 XOR a2))
         else if k = 3 then Inr ((h ^^ m) (a1 XOR d a2))
         else if k = 4 then Inr (h (a1 XOR h a2 XOR a2))
         else if k = 5 then Inr ((h ^^ Suc m) (a1 XOR h a2))
         else if k = 6 then Inr (h (a1 XOR d a2 XOR a2))
         else if k = 7 then Inr ((h ^^ Suc m) (a1 XOR d a2))
         else Inl Panic)"

definition sk_extractSet :: "skewed \<Rightarrow> addr \<Rightarrow> uint32 \<Rightarrow> uint32 res" where
  "sk_extractSet ip a way =
     bindR (skew (msbShift ip) (drop_bit (setShift ip) a) way) (\<lambda>s.
     Inr (ucast (s AND ucast (setMask ip))))"

definition sk_regenerateAddr :: "skewed \<Rightarrow> addr \<Rightarrow> 'a replaceable_entry_scheme \<Rightarrow> addr res" where
  "sk_regenerateAddr ip t e =
     (let addr_set = push_bit (msbShift ip + 1) t OR ucast (getSet e) in
      bindR (deskew (msbShift ip) addr_set (getWay e)) (\<lambda>s.
      Inr (push_bit (tagShift ip) t OR push_bit (setShift ip) (s AND ucast (setMask ip)))))"

section \<open>The hash is a linear recurrence\<close>

text \<open>
  Numbers of \<open>m + 1\<close> bits.  Hashing appends one bit to the top and drops the lowest, so that the
  values of repeated hashing are windows of one sequence of bits: \<open>hash_seq\<close>.
\<close>

definition narrow :: "nat \<Rightarrow> addr \<Rightarrow> bool" where
  "narrow m a \<longleftrightarrow> (\<forall>i. bit a i \<longrightarrow> i \<le> m)"

lemma bit_skew_hash:
  assumes "m < 64"
  shows "bit (skew_hash m a) i \<longleftrightarrow> (if i = m then bit a m \<noteq> bit a 0 else bit a (Suc i))"
proof (cases "i < 64")
  case True
  then show ?thesis
    by (auto simp: skew_hash_def Let_def bit_inserted bit_simps bit_bits_val)
next
  case False
  then show ?thesis using assms by (auto dest: bit_imp_le_length)
qed

lemma bit_skew_dehash:
  assumes "0 < m" "m < 64"
  shows "bit (skew_dehash m a) i \<longleftrightarrow> (if i = 0 then bit a (m - 1) \<noteq> bit a m else i \<le> m \<and> bit a (i - 1))"
proof (cases "i < 64")
  case True
  then have "bit (push_bit 1 x) i \<longleftrightarrow> 1 \<le> i \<and> bit x (i - 1)" for x :: addr
    by (simp only: bit_push_bit_iff possible_bit_word) (simp add: conj_commute)
  with True show ?thesis
    unfolding skew_dehash_def Let_def bit_inserted [OF True] bit_mbits bit_xor_iff bit_bits_val
    using assms by (auto simp: bit_mbits)
next
  case False
  then show ?thesis using assms by (auto dest: bit_imp_le_length)
qed

lemma hash_dehash:
  assumes "0 < m" "m < 64" "narrow m a"
  shows "skew_dehash m (skew_hash m a) = a" "skew_hash m (skew_dehash m a) = a"
    "narrow m (skew_hash m a)" "narrow m (skew_dehash m a)"
proof -
  note b = bit_skew_hash [OF assms(2)] bit_skew_dehash [OF assms(1,2)]
  have n: "bit a i \<Longrightarrow> i \<le> m" for i using assms(3) by (simp add: narrow_def)
  have n': "m < i \<Longrightarrow> \<not> bit a i" for i using n [of i] by auto
  show "skew_dehash m (skew_hash m a) = a"
  proof (rule uint64_eqI)
    fix i
    show "bit (skew_dehash m (skew_hash m a)) i = bit a i"
      using assms(1) n' by (cases "i \<le> m") (auto simp: b)
  qed
  show "skew_hash m (skew_dehash m a) = a"
    using assms(1) n by (intro uint64_eqI) (auto simp: b dest: n)
  show "narrow m (skew_hash m a)" unfolding narrow_def b by (auto dest: n)
  show "narrow m (skew_dehash m a)" unfolding narrow_def b by auto
qed

fun hash_seq :: "nat \<Rightarrow> addr \<Rightarrow> nat \<Rightarrow> bool" where
  "hash_seq m a k = (if k \<le> m then bit a k else hash_seq m a (k - 1) \<noteq> hash_seq m a (k - 1 - m))"

declare hash_seq.simps [simp del]

lemma bit_hash_power:
  assumes "m < 64" "i \<le> m"
  shows "bit ((skew_hash m ^^ k) a) i = hash_seq m a (k + i)"
  using assms(2)
proof (induction k arbitrary: i)
  case 0
  then show ?case by (simp add: hash_seq.simps)
next
  case (Suc k)
  show ?case
  proof (cases "i = m")
    case True
    then show ?thesis
      using Suc.IH [of m] Suc.IH [of 0] hash_seq.simps [of m a "Suc k + m"] by (simp add: bit_skew_hash [OF assms(1)])
  next
    case False
    then show ?thesis using Suc.IH [of "Suc i"] Suc.prems by (simp add: bit_skew_hash [OF assms(1)])
  qed
qed

lemma narrow_power:
  "0 < m \<Longrightarrow> m < 64 \<Longrightarrow> narrow m a \<Longrightarrow> narrow m ((skew_hash m ^^ k) a) \<and> narrow m ((skew_dehash m ^^ k) a)"
  by (induction k) (simp_all add: hash_dehash)

lemma narrow_xor: "narrow m a \<Longrightarrow> narrow m b \<Longrightarrow> narrow m (a XOR b)"
  by (auto simp: narrow_def bit_xor_iff)

lemma narrow_eqI: "narrow m a \<Longrightarrow> narrow m b \<Longrightarrow> (\<And>i. i \<le> m \<Longrightarrow> bit a i = bit b i) \<Longrightarrow> a = b"
  unfolding narrow_def by (rule uint64_eqI) metis

lemma hash_linear: "m < 64 \<Longrightarrow> skew_hash m (a XOR b) = skew_hash m a XOR skew_hash m b"
  by (rule uint64_eqI) (auto simp: bit_skew_hash bit_xor_iff)

lemma hash_power_linear: "m < 64 \<Longrightarrow> (skew_hash m ^^ k) (a XOR b) = (skew_hash m ^^ k) a XOR (skew_hash m ^^ k) b"
  by (induction k) (simp_all add: hash_linear)

text \<open>
  The recurrence of the sequence, read on whole numbers: hashing \<open>m + 1\<close> times is hashing \<open>m\<close> times
  combined with not hashing at all.  This is why the loops of \<open>deskew\<close> invert \<open>hash(x) ^ x\<close>.
\<close>

lemma hash_recurrence:
  assumes "0 < m" "m < 64" "narrow m a"
  shows "(skew_hash m ^^ Suc m) a = (skew_hash m ^^ m) a XOR a"
proof (rule narrow_eqI [of m])
  show "narrow m ((skew_hash m ^^ Suc m) a)" "narrow m ((skew_hash m ^^ m) a XOR a)"
    using assms by (simp_all only: narrow_power narrow_xor)
  fix i
  assume i: "i \<le> m"
  have "bit ((skew_hash m ^^ Suc m) a) i = hash_seq m a (Suc m + i)" by (rule bit_hash_power) (fact assms i)+
  also have "\<dots> = (hash_seq m a (m + i) \<noteq> hash_seq m a i)" using hash_seq.simps [of m a "Suc m + i"] by simp
  also have "\<dots> = bit ((skew_hash m ^^ m) a XOR a) i"
    using bit_hash_power [OF assms(2) i, of m a] bit_hash_power [OF assms(2) i, of 0 a] by (simp add: bit_xor_iff)
  finally show "bit ((skew_hash m ^^ Suc m) a) i = bit ((skew_hash m ^^ m) a XOR a) i" .
qed

lemma unpile: "0 < m \<Longrightarrow> m < 64 \<Longrightarrow> narrow m a \<Longrightarrow> (skew_dehash m ^^ k) ((skew_hash m ^^ k) a) = a"
proof (induction k)
  case (Suc k)
  have "(skew_dehash m ^^ Suc k) ((skew_hash m ^^ Suc k) a) =
      (skew_dehash m ^^ k) (skew_dehash m (skew_hash m ((skew_hash m ^^ k) a)))"
    by (simp only: funpow_Suc_right o_apply funpow_swap1)
  with Suc narrow_power [of m a k] show ?case by (simp add: hash_dehash)
qed simp

section \<open>Round trips\<close>

lemma way_cases:
  fixes way :: uint32
  obtains "way mod 8 = 0" | "way mod 8 = 1" | "way mod 8 = 2" | "way mod 8 = 3"
    | "way mod 8 = 4" | "way mod 8 = 5" | "way mod 8 = 6" | "way mod 8 = 7"
proof -
  have "unat (way mod 8) < 8" by (simp add: unat_mod)
  then have "unat (way mod 8) \<in> {0, 1, 2, 3, 4, 5, 6, 7}" by auto
  then have "(of_nat (unat (way mod 8)) :: uint32) \<in> of_nat ` {0, 1, 2, 3, 4, 5, 6, 7 :: nat}" by (rule imageI)
  then have "way mod 8 \<in> {0, 1, 2, 3, 4, 5, 6, 7}" by simp
  then show ?thesis by (elim insertE emptyE) (erule that)+
qed

lemma xor_cancel: "(x XOR y) XOR y = (x :: addr)" "(x XOR y XOR z) XOR y XOR z = x" "(x XOR y XOR z) XOR y = x XOR z"
  by (rule bit_eqI, auto simp: bit_xor_iff)+

lemma skew_inverse:
  assumes m: "0 < m" "m < 63" and a2: "skew_addr2 m b = skew_addr2 m a"
    and b: "skew m a way = Inr (skew_addr1 m b)"
  shows "deskew m b way = Inr (skew_addr1 m a)"
proof -
  define x y h d where "x = skew_addr1 m a" and "y = skew_addr2 m a" and "h = skew_hash m" and "d = skew_dehash m"
  have n: "narrow m x" "narrow m y"
    by (auto simp: x_def y_def narrow_def skew_addr1_def skew_addr2_def bit_bits_val)
  have m64: "m < 64" using m(2) by simp
  note inv = hash_dehash [OF m(1) m64, folded h_def d_def]
  have nn: "narrow m (h x)" "narrow m (d x)" "narrow m (h y)" "narrow m (d y)" using inv(3,4) n by simp_all
  have lin: "(h ^^ k) (u XOR v) = (h ^^ k) u XOR (h ^^ k) v" for k u v
    unfolding h_def by (rule hash_power_linear) (fact m64)
  have rec: "(h ^^ m) (h x) = (h ^^ m) x XOR x"
    using hash_recurrence [OF m(1) m64 n(1)] by (simp add: h_def funpow_swap1)
  have up: "(h ^^ m) (h x XOR x) = x" by (simp add: lin rec) (simp add: xor.assoc xor.left_commute)
  have down: "(h ^^ Suc m) (d x XOR x) = x"
    using inv(2) [OF n(1)] lin [of 1 "d x" x]
    by (simp only: funpow_Suc_right o_apply) (simp add: lin rec xor.assoc xor.left_commute)
  have pile: "(d ^^ k) ((h ^^ k) u) = u" if "narrow m u" for k u
    unfolding h_def d_def using m(1) m64 that by (rule unpile)
  have bs: "skew_addr1 m b = (h ^^ unat (way div 8)) u \<Longrightarrow> narrow m u \<Longrightarrow>
      (if way \<ge> 8 then (d ^^ unat (way div 8)) (skew_addr1 m b) else skew_addr1 m b) = u" for u
  proof (cases "way \<ge> 8")
    case False
    assume "skew_addr1 m b = (h ^^ unat (way div 8)) u"
    moreover have "unat (way div 8) = 0" using False by (simp add: unat_div word_le_nat_alt)
    ultimately show ?thesis using False by simp
  qed (simp add: pile)
  note defs = skew_def deskew_def Let_def x_def [symmetric] y_def [symmetric] h_def [symmetric] d_def [symmetric] a2
  show ?thesis
  proof (cases way rule: way_cases)
    case 1
    then have "skew_addr1 m b = (h ^^ unat (way div 8)) (h x XOR h y XOR y)" using b by (simp add: defs)
    from bs [OF this] 1 inv(1) n nn show ?thesis by (simp add: defs narrow_xor xor_cancel)
  next
    case 2
    then have "skew_addr1 m b = (h ^^ unat (way div 8)) (h x XOR h y XOR x)" using b by (simp add: defs)
    from bs [OF this] 2 up n nn show ?thesis by (simp add: defs narrow_xor xor_cancel)
  next
    case 3
    then have "skew_addr1 m b = (h ^^ unat (way div 8)) (h x XOR d y XOR y)" using b by (simp add: defs)
    from bs [OF this] 3 inv(1) n nn show ?thesis by (simp add: defs narrow_xor xor_cancel)
  next
    case 4
    then have "skew_addr1 m b = (h ^^ unat (way div 8)) (h x XOR d y XOR x)" using b by (simp add: defs)
    from bs [OF this] 4 up n nn show ?thesis by (simp add: defs narrow_xor xor_cancel)
  next
    case 5
    then have "skew_addr1 m b = (h ^^ unat (way div 8)) (d x XOR h y XOR y)" using b by (simp add: defs)
    from bs [OF this] 5 inv(2) n nn show ?thesis by (simp add: defs narrow_xor xor_cancel)
  next
    case 6
    then have "skew_addr1 m b = (h ^^ unat (way div 8)) (d x XOR h y XOR x)" using b by (simp add: defs)
    from bs [OF this] 6 down n nn show ?thesis
      by (simp add: defs narrow_xor xor_cancel del: funpow.simps)
  next
    case 7
    then have "skew_addr1 m b = (h ^^ unat (way div 8)) (d x XOR d y XOR y)" using b by (simp add: defs)
    from bs [OF this] 7 inv(2) n nn show ?thesis by (simp add: defs narrow_xor xor_cancel)
  next
    case 8
    then have "skew_addr1 m b = (h ^^ unat (way div 8)) (d x XOR d y XOR x)" using b by (simp add: defs)
    from bs [OF this] 8 down n nn show ?thesis
      by (simp add: defs narrow_xor xor_cancel del: funpow.simps)
  qed
qed

text \<open>What the constructors establish.\<close>

definition ip_ok :: "'i indexing_scheme \<Rightarrow> nat \<Rightarrow> bool" where
  "ip_ok ip n \<longleftrightarrow> n < 32 \<and> numSets ip = 2 ^ n \<and> setMask ip = mask n \<and> tagShift ip = setShift ip + n \<and> ip_assoc ip \<noteq> 0"

lemma newIndexingPolicy_ok:
  assumes "newIndexingPolicy assoc num sh = Inr ip"
  shows "\<exists>n. ip_ok ip n \<and> setShift ip = sh \<and> ip_assoc ip = assoc"
proof -
  let ?n = "num div assoc"
  have pow: "isPowerOf2 (ucast ?n)" and a: "assoc \<noteq> 0" and ip: "\<exists>log. floorLog2 4 (ucast ?n) = Inr log \<and>
      ip = \<lparr>ip_assoc = assoc, numSets = ?n, setShift = sh, setMask = ?n - 1, tagShift = sh + log\<rparr>"
    using assms by (auto simp: newIndexingPolicy_def Let_def res_simps split: if_splits)
  obtain k where k: "k < 64" "(ucast ?n :: uint64) = 2 ^ k" using pow by (auto simp: isPowerOf2_iff)
  have "unat (ucast ?n :: uint64) = 2 ^ k" using k by (simp add: unat_pow2)
  then have un: "unat ?n = 2 ^ k" by simp
  then have "(2 :: nat) ^ k < 2 ^ 32" using unat_less_pow [of ?n] by simp
  then have k32: "k < 32" by (rule power_less_imp_less_exp [rotated]) simp
  have n: "?n = 2 ^ k"
  proof -
    have "?n = of_nat (unat ?n)" by simp
    then show ?thesis unfolding un by simp
  qed
  have "floorLog2 4 (ucast ?n) = Inr k" using floorLog2_pow2 [of k 4] k k32 by simp
  then show ?thesis using ip n k32 a by (auto simp: ip_ok_def mask_eq_exp_minus_1)
qed

lemma newSetAssociative_ok:
  assumes "newSetAssociative assoc bytes es = Inr ip"
  shows "\<exists>n. ip_ok ip n \<and> ip_assoc ip = assoc"
  using assms newIndexingPolicy_ok by (auto simp: newSetAssociative_def res_simps split: if_splits)

lemma bit_sa_extractSet:
  assumes "ip_ok ip n"
  shows "bit (sa_extractSet ip a) j \<longleftrightarrow> j < n \<and> bit a (setShift ip + j)"
  using assms by (auto simp: ip_ok_def sa_extractSet_def bit_simps)

lemma sa_regenerate_ok:
  assumes n: "ip_ok ip n" and "tagShift ip \<le> 32" "getSet e = sa_extractSet ip a"
  shows "sa_regenerateAddr ip (extractTag ip a) e = a AND NOT (mask (setShift ip))"
proof -
  have t: "tagShift ip = setShift ip + n" using n by (simp add: ip_ok_def)
  show ?thesis
  proof (rule uint64_eqI)
    fix i :: nat
    assume i: "i < 64"
    have "bit (push_bit (tagShift ip) (extractTag ip a)) i \<longleftrightarrow> tagShift ip \<le> i \<and> bit a i"
      using i by (auto simp: extractTag_def bit_simps)
    moreover have "bit (ucast (push_bit (setShift ip) (getSet e) :: uint32) :: addr) i \<longleftrightarrow>
        setShift ip \<le> i \<and> i < tagShift ip \<and> bit a i"
      using i assms(2) t by (auto simp: assms(3) bit_simps bit_sa_extractSet [OF n])
    ultimately show "bit (sa_regenerateAddr ip (extractTag ip a) e) i = bit (a AND NOT (mask (setShift ip))) i"
      using i t by (auto simp: sa_regenerateAddr_def bit_simps)
  qed
qed

text \<open>
  Set-associative indexing loses no address.  For every policy the constructor accepts whose tag
  starts at bit 32 or below, the address computed back from the tag of an address and an entry of its
  set is the block address, the address without the offset.
\<close>

theorem sa_regenerate_roundtrip:
  assumes "newSetAssociative assoc bytes es = Inr ip" "tagShift ip \<le> 32" "getSet e = sa_extractSet ip a"
  shows "sa_regenerateAddr ip (extractTag ip a) e = a AND NOT (mask (setShift ip))"
  using newSetAssociative_ok [OF assms(1)] sa_regenerate_ok [OF _ assms(2,3)] by blast

definition ex_sa :: indexing where
  "ex_sa = \<lparr>ip_assoc = 8, numSets = 64, setShift = 6, setMask = 63, tagShift = 12\<rparr>"

lemma ex_sa_new: "newSetAssociative 8 0x8000 64 = Inr ex_sa"
  by (simp add: newSetAssociative_def newIndexingPolicy_def floorLog2_pow2 [of 6, simplified] isPowerOf2_def ex_sa_def Let_def)

theorem sa_regenerate_roundtrip_witness:
  "sa_regenerateAddr ex_sa (extractTag ex_sa 0xdeadbeef) \<lparr>entry_set = sa_extractSet ex_sa 0xdeadbeef, entry_way = 3\<rparr> = 0xdeadbec0"
proof -
  have "sa_regenerateAddr ex_sa (extractTag ex_sa 0xdeadbeef) \<lparr>entry_set = sa_extractSet ex_sa 0xdeadbeef, entry_way = 3\<rparr> =
      0xdeadbeef AND NOT (mask (setShift ex_sa))"
    by (rule sa_regenerate_roundtrip [OF ex_sa_new]) (simp_all add: ex_sa_def getSet_def)
  then show ?thesis by (simp add: ex_sa_def mask_eq_exp_minus_1)
qed

text \<open>
  Above that size it does lose bits: in a direct-mapped cache of 8 GiB with blocks of 64 bytes the
  set number is shifted out of its 32 bits, and a block of the upper half of the sets gets back an
  address of the lower half.
\<close>

theorem sa_regenerate_truncates:
  "\<exists>ip. newSetAssociative 1 0x200000000 64 = Inr ip \<and> tagShift ip = 33 \<and>
     sa_regenerateAddr ip (extractTag ip 0x100000000) \<lparr>entry_set = sa_extractSet ip 0x100000000, entry_way = 0\<rparr> = 0"
proof -
  have "newSetAssociative 1 0x200000000 64 =
      Inr \<lparr>ip_assoc = 1, numSets = 0x8000000, setShift = 6, setMask = 0x7ffffff, tagShift = 33\<rparr>"
    by (simp add: newSetAssociative_def newIndexingPolicy_def floorLog2_pow2 [of 6, simplified]
      floorLog2_pow2 [of 27, simplified] isPowerOf2_def Let_def)
  then show ?thesis by (simp add: sa_regenerateAddr_def extractTag_def sa_extractSet_def getSet_def)
qed

lemma ucast_pow2: "n < 32 \<Longrightarrow> (ucast (2 ^ n :: uint32) :: uint64) = 2 ^ n"
  by (rule bit_word_eqI) (auto simp: bit_unsigned_iff bit_exp_iff)

lemma less_pow2_bits:
  assumes "\<And>i. bit w i \<Longrightarrow> i < n" "n < 32"
  shows "(w :: uint32) < 2 ^ n"
proof -
  have "take_bit n w = w" by (rule bit_word_eqI) (use assms(1) in \<open>auto simp: bit_take_bit_iff\<close>)
  then have "unat w < 2 ^ n" by (metis unsigned_take_bit_eq take_bit_nat_less_exp)
  moreover have "unat (2 ^ n :: uint32) = 2 ^ n"
    using assms(2) unat_ucast_32_64 [of "2 ^ n"] by (simp add: ucast_pow2 unat_pow2 del: unat_ucast_32_64)
  ultimately show ?thesis by (simp add: word_less_nat_alt)
qed

lemma newSkewedAssociative_ok:
  assumes "newSkewedAssociative assoc bytes es = Inr ip"
  shows "\<exists>n. ip_ok ip n \<and> msbShift ip = n - 1 \<and> 2 \<le> n \<and> setShift ip + 2 * n \<le> 64"
proof -
  obtain ip0 log where ip0: "newSetAssociative assoc bytes es = Inr ip0" "floorLog2 4 (ucast (numSets ip0)) = Inr log"
    and ip: "setShift ip0 + 2 * log \<le> 64" "\<not> numSets ip0 \<le> 2" "ip = \<lparr>ip_assoc = ip_assoc ip0, numSets = numSets ip0,
      setShift = setShift ip0, setMask = setMask ip0, tagShift = tagShift ip0, msbShift = log - 1\<rparr>"
    using assms by (auto simp: newSkewedAssociative_def res_simps)
  obtain n where n: "ip_ok ip0 n" using newSetAssociative_ok [OF ip0(1)] by blast
  then have "(ucast (numSets ip0) :: uint64) = 2 ^ n"
    by (simp add: ip_ok_def ucast_pow2)
  then have "log = n" using ip0(2) floorLog2_pow2 [of n 4] n by (simp add: ip_ok_def)
  moreover have "2 \<le> n"
  proof (rule ccontr)
    assume "\<not> 2 \<le> n"
    then have "n = 0 \<or> n = 1" by auto
    then show False using n ip(2) by (auto simp: ip_ok_def)
  qed
  ultimately show ?thesis using n ip by (auto simp: ip_ok_def)
qed

lemma skew_Inr:
  assumes "0 < m" "m < 64"
  shows "\<exists>s. skew m a way = Inr s \<and> narrow m s"
proof -
  have n: "narrow m (skew_addr1 m a)" "narrow m (skew_addr2 m a)"
    by (auto simp: narrow_def skew_addr1_def skew_addr2_def bit_bits_val)
  note h = hash_dehash(3,4) [OF assms n(1)] hash_dehash(3,4) [OF assms n(2)]
  show ?thesis
    by (cases way rule: way_cases) (simp_all add: skew_def Let_def narrow_power [OF assms, THEN conjunct1] narrow_xor n h)
qed

text \<open>
  C38. Skewed indexing loses no address either.  Every way hashes the address differently, but for
  every policy the constructor accepts, every address and every way, the set number is found, and
  \<open>regenerateAddr\<close> of the tag and of the entry in that set and way inverts the hash of the way and
  returns the block address.
\<close>

theorem skewed_regenerate_roundtrip:
  assumes "newSkewedAssociative assoc bytes es = Inr ip"
  shows "\<exists>s. sk_extractSet ip a way = Inr s \<and> s < numSets ip \<and>
    (\<forall>e :: 'e replaceable_entry_scheme. getSet e = s \<longrightarrow> getWay e = way \<longrightarrow>
      sk_regenerateAddr ip (extractTag ip a) e = Inr (a AND NOT (mask (setShift ip))))"
proof -
  obtain n where n: "ip_ok ip n" "msbShift ip = n - 1" "2 \<le> n" "setShift ip + 2 * n \<le> 64"
    using newSkewedAssociative_ok [OF assms] by blast
  have ok: "n < 32" "numSets ip = 2 ^ n" "setMask ip = mask n" "tagShift ip = setShift ip + n"
    using n(1) by (simp_all add: ip_ok_def)
  let ?m = "n - 1" and ?b = "drop_bit (setShift ip) a" and ?t = "extractTag ip a"
  have m: "0 < ?m" "?m < 63" "Suc ?m = n" using n(3) ok(1) by simp_all
  obtain v where v: "skew ?m ?b way = Inr v" "narrow ?m v" using skew_Inr [of ?m ?b way] m by auto
  define s where "s = (ucast (v AND ucast (setMask ip)) :: uint32)"
  have bs: "bit s i \<longleftrightarrow> bit v i" for i
    using v(2) m(3) ok(1) by (auto simp: s_def ok(3) bit_simps narrow_def)
  define b where "b = push_bit n ?t OR ucast s"
  have a1: "skew_addr1 ?m b = v"
    by (rule uint64_eqI) (use v(2) m(3) ok(1) in \<open>auto simp: b_def skew_addr1_def bit_bits_val bit_or_iff
      bit_push_bit_iff bit_unsigned_iff bs narrow_def\<close>)
  have a2: "skew_addr2 ?m b = skew_addr2 ?m ?b"
    by (rule uint64_eqI) (use v(2) m(3) n(4) ok in \<open>auto simp: b_def skew_addr2_def bit_bits_val bit_simps
      bs narrow_def extractTag_def ac_simps\<close>)
  have de: "deskew ?m b way = Inr (skew_addr1 ?m ?b)"
    using skew_inverse [OF m(1,2) a2] v(1) a1 by simp
  have "s < 2 ^ n" by (rule less_pow2_bits) (use v(2) m(3) ok(1) bs in \<open>auto simp: narrow_def\<close>)
  moreover have "push_bit (tagShift ip) ?t OR push_bit (setShift ip) (skew_addr1 ?m ?b AND ucast (setMask ip)) =
      a AND NOT (mask (setShift ip))"
  proof (rule uint64_eqI)
    fix i :: nat
    assume i: "i < 64"
    show "bit (push_bit (tagShift ip) ?t OR push_bit (setShift ip) (skew_addr1 ?m ?b AND ucast (setMask ip))) i =
        bit (a AND NOT (mask (setShift ip))) i"
      using i m(3) ok n(4)
      by (cases "tagShift ip \<le> i") (auto simp: extractTag_def skew_addr1_def bit_bits_val bit_simps)
  qed
  ultimately show ?thesis
    using v(1) de m(3) by (auto simp: sk_extractSet_def sk_regenerateAddr_def n(2) b_def ok(2) s_def)
qed

definition ex_skewed :: skewed where
  "ex_skewed = \<lparr>ip_assoc = 8, numSets = 64, setShift = 6, setMask = 63, tagShift = 12, msbShift = 5\<rparr>"

lemma ex_skewed_new: "newSkewedAssociative 8 0x8000 64 = Inr ex_skewed"
  by (simp add: newSkewedAssociative_def ex_sa_new) (simp add: ex_sa_def ex_skewed_def floorLog2_pow2 [of 6, simplified])

theorem skewed_regenerate_roundtrip_witness:
  "\<exists>s. sk_extractSet ex_skewed 0xdeadbeef 5 = Inr s \<and>
     sk_regenerateAddr ex_skewed (extractTag ex_skewed 0xdeadbeef) \<lparr>entry_set = s, entry_way = 5\<rparr> = Inr 0xdeadbec0"
  using skewed_regenerate_roundtrip [OF ex_skewed_new, where a = "0xdeadbeef" and way = 5 and ?'e = unit]
  by (auto simp: getSet_def getWay_def ex_skewed_def mask_eq_exp_minus_1)

end
