(* ===== verification/Cache_Blk.thy ===== *)
theory Cache_Blk
  imports Repl_Policy
begin

unbundle bit_operations_syntax

text \<open>
  The blocks of the classic caches: \<open>TaggedEntry\<close> (\<open>tags/tagged_entry.hh\<close>) and \<open>CacheBlk\<close>
  (\<open>cache_blk.hh\<close>, \<open>cache_blk.cc\<close>).  The function object that extracts a tag from an address is an
  argument, \<open>ext\<close>; the storage the data pointer leads to is not part of the block.
\<close>

section \<open>Tagged entries\<close>

record tagged_entry = replaceable_entry +
  te_valid :: bool
  te_secure :: bool
  te_tag :: addr

definition newTaggedEntry :: tagged_entry where
  "newTaggedEntry = \<lparr>entry_set = 0, entry_way = 0, te_valid = False, te_secure = False, te_tag = - 1\<rparr>"

record lookup_key =
  key_address :: addr
  key_secure :: bool

definition te_match :: "(addr \<Rightarrow> addr) \<Rightarrow> lookup_key \<Rightarrow> 'a tagged_entry_scheme \<Rightarrow> bool" where
  "te_match ext key e \<longleftrightarrow> te_valid e \<and> te_tag e = ext (key_address key) \<and> te_secure e = key_secure key"

definition te_insert :: "(addr \<Rightarrow> addr) \<Rightarrow> lookup_key \<Rightarrow> 'a tagged_entry_scheme \<Rightarrow> 'a tagged_entry_scheme res" where
  "te_insert ext key e =
     checkR AssertFail (\<not> te_valid e)
       (let e1 = e\<lparr>te_valid := True, te_tag := ext (key_address key)\<rparr>
        in Inr (if key_secure key then e1\<lparr>te_secure := True\<rparr> else e1))"

definition te_invalidate :: "'a tagged_entry_scheme \<Rightarrow> 'a tagged_entry_scheme" where
  "te_invalidate e = e\<lparr>te_valid := False, te_tag := - 1, te_secure := False\<rparr>"

section \<open>Cache blocks\<close>

text \<open>Of a request the block reads the address range and the context that issued it.\<close>

record request =
  req_paddr :: addr
  req_size :: uint32
  req_contextId :: int

record block_lock =
  lock_contextId :: int
  lowAddr :: addr
  highAddr :: addr

record cache_blk = tagged_entry +
  blk_coherence :: uint32
  whenReady :: tick
  lockList :: "block_lock list"
  taskId :: uint32
  srcRequestorId :: int
  partitionId :: uint64
  refCount :: uint32
  tickInserted :: tick
  prefetched :: bool

definition WritableBit :: uint32 where "WritableBit = 0x02"

definition ReadableBit :: uint32 where "ReadableBit = 0x04"

definition DirtyBit :: uint32 where "DirtyBit = 0x08"

definition AllBits :: uint32 where "AllBits = 0x0E"

definition setCoherenceBits :: "uint32 \<Rightarrow> 'a cache_blk_scheme \<Rightarrow> 'a cache_blk_scheme res" where
  "setCoherenceBits b blk =
     checkR AssertFail (te_valid blk) (Inr (blk\<lparr>blk_coherence := blk_coherence blk OR b\<rparr>))"

definition clearCoherenceBits :: "uint32 \<Rightarrow> 'a cache_blk_scheme \<Rightarrow> 'a cache_blk_scheme" where
  "clearCoherenceBits b blk = blk\<lparr>blk_coherence := blk_coherence blk AND NOT b\<rparr>"

definition isSet :: "uint32 \<Rightarrow> 'a cache_blk_scheme \<Rightarrow> bool" where
  "isSet b blk \<longleftrightarrow> te_valid blk \<and> blk_coherence blk AND b \<noteq> 0"

definition getWhenReady :: "'a cache_blk_scheme \<Rightarrow> tick res" where
  "getWhenReady blk = checkR AssertFail (whenReady blk \<noteq> - 1) (Inr (whenReady blk))"

definition setWhenReady :: "tick \<Rightarrow> 'a cache_blk_scheme \<Rightarrow> 'a cache_blk_scheme res" where
  "setWhenReady t blk = checkR AssertFail (t \<ge> tickInserted blk) (Inr (blk\<lparr>whenReady := t\<rparr>))"

definition increaseRefCount :: "'a cache_blk_scheme \<Rightarrow> 'a cache_blk_scheme" where
  "increaseRefCount blk = blk\<lparr>refCount := refCount blk + 1\<rparr>"

definition getAge :: "tick \<Rightarrow> 'a cache_blk_scheme \<Rightarrow> tick res" where
  "getAge now blk = checkR AssertFail (tickInserted blk \<le> now) (Inr (now - tickInserted blk))"

text \<open>\<open>setWhenReady(MaxTick)\<close> in \<open>invalidate\<close> cannot fail: no tick is later.\<close>

definition blk_invalidate :: "'a cache_blk_scheme \<Rightarrow> 'a cache_blk_scheme" where
  "blk_invalidate blk =
     (let b = clearCoherenceBits AllBits ((te_invalidate blk)\<lparr>prefetched := False\<rparr>)
      in b\<lparr>taskId := 1024, partitionId := - 1, whenReady := - 1, refCount := 0, srcRequestorId := 65535,
           lockList := []\<rparr>)"

definition newCacheBlk :: cache_blk where
  "newCacheBlk = blk_invalidate
     \<lparr>entry_set = 0, entry_way = 0, te_valid = False, te_secure = False, te_tag = - 1, blk_coherence = 0,
      whenReady = 0, lockList = [], taskId = 0, srcRequestorId = 0, partitionId = 0, refCount = 0,
      tickInserted = 0, prefetched = False\<rparr>"

definition blk_insert ::
  "(addr \<Rightarrow> addr) \<Rightarrow> tick \<Rightarrow> lookup_key \<Rightarrow> int \<Rightarrow> uint32 \<Rightarrow> uint64
   \<Rightarrow> 'a cache_blk_scheme \<Rightarrow> 'a cache_blk_scheme res" where
  "blk_insert ext now key src_requestor_ID task_ID partition_id blk =
     checkR AssertFail (\<not> te_valid blk)
       (bindR (te_insert ext key blk) (\<lambda>b.
        Inr (increaseRefCount (b\<lparr>srcRequestorId := src_requestor_ID, taskId := task_ID,
          partitionId := partition_id, tickInserted := now\<rparr>))))"

text \<open>
  The move assignment, returning the new destination and source.  It inserts with the tag of the
  other block in the place of the address.
\<close>

definition blk_move ::
  "(addr \<Rightarrow> addr) \<Rightarrow> tick \<Rightarrow> 'a cache_blk_scheme \<Rightarrow> 'a cache_blk_scheme
   \<Rightarrow> ('a cache_blk_scheme \<times> 'a cache_blk_scheme) res" where
  "blk_move ext now dest src =
     checkR AssertFail (\<not> te_valid dest)
       (checkR AssertFail (te_valid src)
         (bindR (te_insert ext \<lparr>key_address = te_tag src, key_secure = te_secure src\<rparr> dest) (\<lambda>d1.
          let d2 = (if prefetched src then d1\<lparr>prefetched := True\<rparr> else d1) in
          bindR (setCoherenceBits (blk_coherence src) d2) (\<lambda>d3.
          bindR (setWhenReady now (d3\<lparr>taskId := taskId src, partitionId := partitionId src\<rparr>)) (\<lambda>d4.
          let d5 = d4\<lparr>refCount := refCount src, srcRequestorId := srcRequestorId src, lockList := lockList src\<rparr>
          in Inr (d5, blk_invalidate (src\<lparr>lockList := lockList d4\<rparr>)))))))"

section \<open>Load-locked and store-conditional\<close>

definition req_high :: "request \<Rightarrow> addr" where
  "req_high r = req_paddr r + ucast (req_size r) - 1"

definition newLock :: "request \<Rightarrow> block_lock" where
  "newLock r = \<lparr>lock_contextId = req_contextId r, lowAddr = req_paddr r,
     highAddr = req_paddr r + ucast (req_size r) - 1\<rparr>"

definition lock_matches :: "block_lock \<Rightarrow> request \<Rightarrow> bool" where
  "lock_matches l r \<longleftrightarrow> lock_contextId l = req_contextId r \<and> req_paddr r \<ge> lowAddr l \<and> req_high r \<le> highAddr l"

definition lock_intersects :: "block_lock \<Rightarrow> request \<Rightarrow> bool" where
  "lock_intersects l r \<longleftrightarrow> req_paddr r \<le> highAddr l \<and> req_high r \<ge> lowAddr l"

definition trackLoadLocked :: "request \<Rightarrow> 'a cache_blk_scheme \<Rightarrow> 'a cache_blk_scheme" where
  "trackLoadLocked r blk =
     blk\<lparr>lockList := newLock r # filter (\<lambda>l. \<not> lock_intersects l r) (lockList blk)\<rparr>"

definition clearLoadLocks :: "request \<Rightarrow> 'a cache_blk_scheme \<Rightarrow> 'a cache_blk_scheme" where
  "clearLoadLocks r blk =
     blk\<lparr>lockList := filter (\<lambda>l. \<not> (lock_intersects l r \<and> lock_contextId l \<noteq> req_contextId r)) (lockList blk)\<rparr>"

text \<open>The search for a matching lock, which erases the first one it finds.\<close>

fun erase_match :: "request \<Rightarrow> block_lock list \<Rightarrow> bool \<times> block_lock list" where
  "erase_match r [] = (False, [])"
| "erase_match r (l # ls) =
     (if lock_matches l r then (True, ls) else let (s, ls') = erase_match r ls in (s, l # ls'))"

text \<open>
  \<open>checkWrite\<close> returns whether the write proceeds, which for a store-conditional (\<open>llsc\<close>) is also the
  extra data it leaves in the request.
\<close>

definition checkWrite :: "bool \<Rightarrow> request \<Rightarrow> 'a cache_blk_scheme \<Rightarrow> bool \<times> 'a cache_blk_scheme" where
  "checkWrite llsc r blk =
     (if \<not> llsc \<and> lockList blk = [] then (True, blk)
      else if llsc then
        (let (success, ls) = erase_match r (lockList blk)
         in (success, clearLoadLocks r (blk\<lparr>lockList := ls\<rparr>)))
      else (True, clearLoadLocks r blk))"

section \<open>Which locks a block holds\<close>

text \<open>
  The events a block sees, with a specification of the locks by the history alone: a lock is held if
  its load-locked was not followed by an event that breaks it.
\<close>

datatype lock_event = LoadLocked request | StoreConditional request | PlainWrite request

fun lock_apply :: "lock_event \<Rightarrow> 'a cache_blk_scheme \<Rightarrow> 'a cache_blk_scheme" where
  "lock_apply (LoadLocked r) blk = trackLoadLocked r blk"
| "lock_apply (StoreConditional r) blk = snd (checkWrite True r blk)"
| "lock_apply (PlainWrite r) blk = snd (checkWrite False r blk)"

definition lock_run :: "lock_event list \<Rightarrow> 'a cache_blk_scheme \<Rightarrow> 'a cache_blk_scheme" where
  "lock_run es blk = fold lock_apply es blk"

fun breaks_lock :: "block_lock \<Rightarrow> lock_event \<Rightarrow> bool" where
  "breaks_lock l (LoadLocked r) \<longleftrightarrow> lock_intersects l r"
| "breaks_lock l (StoreConditional r) \<longleftrightarrow>
     lock_matches l r \<or> (lock_intersects l r \<and> lock_contextId l \<noteq> req_contextId r)"
| "breaks_lock l (PlainWrite r) \<longleftrightarrow> lock_intersects l r \<and> lock_contextId l \<noteq> req_contextId r"

definition held :: "lock_event list \<Rightarrow> block_lock \<Rightarrow> bool" where
  "held es l \<longleftrightarrow> (\<exists>pre r post. es = pre @ LoadLocked r # post \<and> l = newLock r \<and>
     (\<forall>e \<in> set post. \<not> breaks_lock l e))"

text \<open>Requests with a non-empty range that does not wrap around.\<close>

definition req_ok :: "request \<Rightarrow> bool" where
  "req_ok r \<longleftrightarrow> req_paddr r \<le> req_high r"

fun event_ok :: "lock_event \<Rightarrow> bool" where
  "event_ok (LoadLocked r) = req_ok r"
| "event_ok (StoreConditional r) = req_ok r"
| "event_ok (PlainWrite r) = req_ok r"

definition disjoint_locks :: "block_lock list \<Rightarrow> bool" where
  "disjoint_locks ls \<longleftrightarrow> list_all (\<lambda>l. lowAddr l \<le> highAddr l) ls \<and>
     sorted_wrt (\<lambda>l k. highAddr l < lowAddr k \<or> highAddr k < lowAddr l) ls"

lemma disjoint_filter: "disjoint_locks ls \<Longrightarrow> disjoint_locks (filter P ls)"
  by (auto simp: disjoint_locks_def list_all_iff sorted_wrt_filter)

lemma disjoint_newLock:
  "disjoint_locks ls \<Longrightarrow> req_ok r \<Longrightarrow> disjoint_locks (newLock r # filter (\<lambda>l. \<not> lock_intersects l r) ls)"
  using disjoint_filter [of ls "\<lambda>l. \<not> lock_intersects l r"]
  by (auto simp: disjoint_locks_def newLock_def req_ok_def req_high_def lock_intersects_def)

lemma erase_match_result:
  assumes "disjoint_locks ls" "req_ok r"
  shows "erase_match r ls = (\<exists>l \<in> set ls. lock_matches l r, filter (\<lambda>l. \<not> lock_matches l r) ls)"
  using assms(1)
proof (induction ls)
  case (Cons l ls)
  have tail: "disjoint_locks ls" using Cons.prems by (simp add: disjoint_locks_def)
  have "\<not> lock_matches k r" if "lock_matches l r" "k \<in> set ls" for k
    using that Cons.prems assms(2) by (auto simp: disjoint_locks_def lock_matches_def req_ok_def)
  then show ?case using Cons.IH [OF tail] by (auto simp: Let_def filter_id_conv)
qed simp

lemma lock_apply_set:
  assumes "disjoint_locks (lockList blk)" "event_ok e"
  shows "disjoint_locks (lockList (lock_apply e blk))"
    "set (lockList (lock_apply e blk)) = {l \<in> set (lockList blk). \<not> breaks_lock l e} \<union>
      (case e of LoadLocked r \<Rightarrow> {newLock r} | _ \<Rightarrow> {})"
  using assms disjoint_newLock [of "lockList blk"]
  by (cases e; auto simp: trackLoadLocked_def checkWrite_def clearLoadLocks_def split_beta erase_match_result
    intro: disjoint_filter)+

lemma held_snoc:
  "held (es @ [e]) l \<longleftrightarrow> (held es l \<and> \<not> breaks_lock l e) \<or> (\<exists>r. e = LoadLocked r \<and> l = newLock r)"
proof
  assume "held (es @ [e]) l"
  then obtain pre r post where s: "es @ [e] = pre @ LoadLocked r # post" "l = newLock r" "\<forall>e \<in> set post. \<not> breaks_lock l e"
    by (auto simp: held_def)
  then show "(held es l \<and> \<not> breaks_lock l e) \<or> (\<exists>r. e = LoadLocked r \<and> l = newLock r)"
    by (cases post rule: rev_cases) (auto simp: held_def)
next
  assume "(held es l \<and> \<not> breaks_lock l e) \<or> (\<exists>r. e = LoadLocked r \<and> l = newLock r)"
  then show "held (es @ [e]) l"
  proof
    assume "held es l \<and> \<not> breaks_lock l e"
    then obtain pre r post where "es = pre @ LoadLocked r # post" "l = newLock r"
      "\<forall>e \<in> set (post @ [e]). \<not> breaks_lock l e" by (auto simp: held_def)
    then show ?thesis unfolding held_def by (intro exI [of _ pre] exI [of _ r] exI [of _ "post @ [e]"]) simp
  next
    assume "\<exists>r. e = LoadLocked r \<and> l = newLock r"
    then show ?thesis unfolding held_def by force
  qed
qed

lemma lock_run_held:
  assumes "lockList blk = []" "list_all event_ok es"
  shows "disjoint_locks (lockList (lock_run es blk)) \<and> set (lockList (lock_run es blk)) = {l. held es l}"
  using assms(2)
proof (induction es rule: rev_induct)
  case Nil
  show ?case using assms(1) by (simp add: lock_run_def held_def disjoint_locks_def)
next
  case (snoc e es)
  then have IH: "disjoint_locks (lockList (lock_run es blk))" "set (lockList (lock_run es blk)) = {l. held es l}"
    and e: "event_ok e" by simp_all
  have run: "lock_run (es @ [e]) blk = lock_apply e (lock_run es blk)" by (simp add: lock_run_def)
  show ?case using lock_apply_set [OF IH(1) e] unfolding run IH(2) by (auto simp: held_snoc split: lock_event.splits)
qed

text \<open>
  C37. Store-conditionals are atomic.  On a block that starts without locks, after any sequence of
  load-locked, store-conditional and plain writes, a store-conditional proceeds exactly if a
  load-locked of the same context covers its range and nothing broke that lock since: no later
  load-locked and no write or store-conditional of another context touched the locked range, and no
  store-conditional of the context has used the lock up.
\<close>

theorem store_conditional_atomic:
  assumes "lockList blk = []" "list_all event_ok es" "req_ok r"
  shows "fst (checkWrite True r (lock_run es blk)) \<longleftrightarrow>
    (\<exists>pre q post. es = pre @ LoadLocked q # post \<and> req_contextId q = req_contextId r \<and>
       req_paddr q \<le> req_paddr r \<and> req_high r \<le> req_high q \<and> (\<forall>e \<in> set post. \<not> breaks_lock (newLock q) e))"
proof -
  have m: "lock_matches (newLock q) r \<longleftrightarrow> req_contextId q = req_contextId r \<and> req_paddr q \<le> req_paddr r \<and> req_high r \<le> req_high q" for q
    by (auto simp: lock_matches_def newLock_def req_high_def)
  have "fst (checkWrite True r (lock_run es blk)) \<longleftrightarrow> (\<exists>l. held es l \<and> lock_matches l r)"
    using lock_run_held [OF assms(1,2)] erase_match_result [OF _ assms(3)] by (auto simp: checkWrite_def split_beta)
  then show ?thesis unfolding held_def using m by blast
qed

definition ex_req :: "int \<Rightarrow> request" where
  "ex_req c = \<lparr>req_paddr = 0x1000, req_size = 8, req_contextId = c\<rparr>"

theorem store_conditional_atomic_witness:
  "fst (checkWrite True (ex_req 1) (lock_run [LoadLocked (ex_req 1), PlainWrite (ex_req 1)] newCacheBlk)) \<and>
   \<not> fst (checkWrite True (ex_req 1) (lock_run [LoadLocked (ex_req 1), PlainWrite (ex_req 2)] newCacheBlk))"
proof
  have ok: "req_ok (ex_req c)" for c by (simp add: ex_req_def req_ok_def req_high_def)
  have free: "lockList newCacheBlk = []" by (simp add: newCacheBlk_def blk_invalidate_def Let_def)
  note sc = store_conditional_atomic [OF free _ ok, of _ 1]
  have "\<exists>pre q post. [LoadLocked (ex_req 1), PlainWrite (ex_req 1)] = pre @ LoadLocked q # post \<and>
      req_contextId q = req_contextId (ex_req 1) \<and> req_paddr q \<le> req_paddr (ex_req 1) \<and>
      req_high (ex_req 1) \<le> req_high q \<and> (\<forall>e \<in> set post. \<not> breaks_lock (newLock q) e)"
    by (intro exI [of _ "[]"] exI [of _ "ex_req 1"] exI [of _ "[PlainWrite (ex_req 1)]"])
       (simp add: ex_req_def newLock_def)
  then show "fst (checkWrite True (ex_req 1) (lock_run [LoadLocked (ex_req 1), PlainWrite (ex_req 1)] newCacheBlk))"
    using sc [of "[LoadLocked (ex_req 1), PlainWrite (ex_req 1)]"] ok by simp
  have "breaks_lock (newLock (ex_req 1)) (PlainWrite (ex_req 2))"
    by (simp add: ex_req_def newLock_def lock_intersects_def req_high_def)
  then show "\<not> fst (checkWrite True (ex_req 1) (lock_run [LoadLocked (ex_req 1), PlainWrite (ex_req 2)] newCacheBlk))"
    using sc [of "[LoadLocked (ex_req 1), PlainWrite (ex_req 2)]"] ok by (auto simp: Cons_eq_append_conv)
qed

text \<open>
  Moving a block changes its address.  The move assignment passes the tag of the source to
  \<open>insert\<close>, which takes an address and extracts the tag from it once more.  For an extractor that
  shifts (here by 12 bits) the moved block no longer matches the key the source matched.
\<close>

theorem block_move_loses_tag:
  "\<exists>src dest src'. blk_insert (drop_bit 12) 5 \<lparr>key_address = 0xdeadbeef, key_secure = False\<rparr> 0 0 0 newCacheBlk = Inr src \<and>
     te_match (drop_bit 12) \<lparr>key_address = 0xdeadbeef, key_secure = False\<rparr> src \<and>
     blk_move (drop_bit 12) 7 newCacheBlk src = Inr (dest, src') \<and> te_tag src = 0xdeadb \<and> te_tag dest = 0xde \<and>
     \<not> te_match (drop_bit 12) \<lparr>key_address = 0xdeadbeef, key_secure = False\<rparr> dest"
  by (simp add: blk_insert_def te_insert_def newCacheBlk_def blk_invalidate_def te_invalidate_def clearCoherenceBits_def
    te_match_def blk_move_def setCoherenceBits_def setWhenReady_def increaseRefCount_def Let_def)

end
