(* ===== verification/Base_Tags.thy ===== *)
theory Base_Tags
  imports Cache_Blk
begin

text \<open>
  What \<open>BaseTags\<close> (\<open>tags/base.cc\<close>, \<open>tags/base.hh\<close>) does for every tag store of the classic caches: the
  common part of inserting, invalidating and moving a block, on the block, the statistics and the
  warm-up flag, and the statistics by task and age.
\<close>

record tag_stats =
  tagsInUse :: int
  totalRefs :: nat
  sampledRefs :: nat
  warmupTick :: tick
  occupancies :: "int \<Rightarrow> int"
  tagAccesses :: nat
  dataAccesses :: nat

definition no_tag_stats :: tag_stats where
  "no_tag_stats = \<lparr>tagsInUse = 0, totalRefs = 0, sampledRefs = 0, warmupTick = 0, occupancies = (\<lambda>_. 0),
     tagAccesses = 0, dataAccesses = 0\<rparr>"

record tag_packet =
  tp_key :: lookup_key
  tp_requestor :: nat
  tp_task :: uint32

definition base_insertBlock ::
  "(addr \<Rightarrow> addr) \<Rightarrow> nat \<Rightarrow> tick \<Rightarrow> tag_packet \<Rightarrow> uint32 \<Rightarrow> 'a cache_blk_scheme \<times> bool \<times> tag_stats
   \<Rightarrow> ('a cache_blk_scheme \<times> bool \<times> tag_stats) res" where
  "base_insertBlock ext maxRequestors now pkt bound =
     (\<lambda>(b, warmed, st).
      checkR AssertFail (\<not> te_valid b)
        (checkR AssertFail (tp_requestor pkt < maxRequestors)
          (bindR (blk_insert ext now (tp_key pkt) (int (tp_requestor pkt)) (tp_task pkt) 0 b) (\<lambda>b'.
           let r = int (tp_requestor pkt);
               warm = \<not> warmed \<and> tagsInUse st \<ge> int (unat bound)
           in Inr (b', warmed \<or> warm,
                st\<lparr>occupancies := (occupancies st)(r := occupancies st r + 1),
                   warmupTick := (if warm then now else warmupTick st),
                   tagAccesses := tagAccesses st + 1, dataAccesses := dataAccesses st + 1\<rparr>)))))"

definition base_invalidate :: "'a cache_blk_scheme \<times> tag_stats \<Rightarrow> ('a cache_blk_scheme \<times> tag_stats) res" where
  "base_invalidate =
     (\<lambda>(b, st).
      checkR AssertFail (te_valid b)
        (let r = srcRequestorId b
         in Inr (blk_invalidate b,
              st\<lparr>occupancies := (occupancies st)(r := occupancies st r - 1),
                 totalRefs := totalRefs st + unat (refCount b), sampledRefs := sampledRefs st + 1\<rparr>)))"

definition base_moveBlock ::
  "(addr \<Rightarrow> addr) \<Rightarrow> tick \<Rightarrow> 'a cache_blk_scheme \<Rightarrow> 'a cache_blk_scheme
   \<Rightarrow> ('a cache_blk_scheme \<times> 'a cache_blk_scheme) res" where
  "base_moveBlock ext now bs bd =
     checkR AssertFail (\<not> te_valid bd)
       (checkR AssertFail (te_valid bs)
         (bindR (blk_move ext now bd bs) (\<lambda>(bd', bs').
          checkR AssertFail (te_valid bd')
            (checkR AssertFail (\<not> te_valid bs') (Inr (bd', bs'))))))"

text \<open>
  The occupancy by task and by age that \<open>computeStats\<close> gathers before a dump; \<open>us\<close> and \<open>ms\<close> are the
  ticks per micro- and millisecond of the simulation.
\<close>

definition age_index :: "tick \<Rightarrow> tick \<Rightarrow> tick \<Rightarrow> nat" where
  "age_index us ms age =
     (if age div us < 10 then 0 else if age div us < 100 then 1 else if age div ms < 1 then 2
      else if age div ms < 10 then 3 else 4)"

definition computeStatsVisitor ::
  "tick \<Rightarrow> tick \<Rightarrow> tick \<Rightarrow> cache_blk \<Rightarrow> nat list \<times> nat list list \<Rightarrow> (nat list \<times> nat list list) res" where
  "computeStatsVisitor us ms now b =
     (\<lambda>(occ, ages).
      if te_valid b then
        let t = unat (taskId b) in
        checkR AssertFail (t < 1025)
          (bindR (getAge now b) (\<lambda>age.
           if us = 0 \<or> (ms = 0 \<and> \<not> age div us < 100) then Inl DivByZero
           else let k = age_index us ms age
                in Inr (occ[t := occ ! t + 1], ages[t := (ages ! t)[k := ages ! t ! k + 1]])))
      else Inr (occ, ages))"

fun computeStats_loop ::
  "tick \<Rightarrow> tick \<Rightarrow> tick \<Rightarrow> cache_blk list \<Rightarrow> nat list \<times> nat list list \<Rightarrow> (nat list \<times> nat list list) res" where
  "computeStats_loop us ms now [] acc = Inr acc"
| "computeStats_loop us ms now (b # bs) acc =
     bindR (computeStatsVisitor us ms now b acc) (computeStats_loop us ms now bs)"

lemma blk_invalidate_simps [simp]:
  "\<not> te_valid (blk_invalidate b)" "\<not> te_secure (blk_invalidate b)" "getSet (blk_invalidate b) = getSet b"
  "cache_blk.more (blk_invalidate b) = cache_blk.more b"
  by (simp_all add: blk_invalidate_def Let_def clearCoherenceBits_def te_invalidate_def getSet_def)

lemma increaseRefCount_simps [simp]:
  "te_valid (increaseRefCount b) = te_valid b" "te_secure (increaseRefCount b) = te_secure b"
  "te_tag (increaseRefCount b) = te_tag b" "getSet (increaseRefCount b) = getSet b" "entry_set (increaseRefCount b) = entry_set b"
  "cache_blk.more (increaseRefCount b) = cache_blk.more b"
  by (simp_all add: increaseRefCount_def getSet_def)

text \<open>What an insertion promises about the block.\<close>

lemma base_insertBlock_ok:
  assumes "\<not> te_valid b" "\<not> te_secure b" "tp_requestor pkt < maxRequestors"
  shows "\<exists>b' w' st'. base_insertBlock ext maxRequestors now pkt bound (b, w, st) = Inr (b', w', st') \<and> te_valid b' \<and>
    te_tag b' = ext (key_address (tp_key pkt)) \<and> te_secure b' = key_secure (tp_key pkt) \<and> getSet b' = getSet b \<and>
    cache_blk.more b' = cache_blk.more b"
  using assms by (auto simp: base_insertBlock_def blk_insert_def te_insert_def Let_def getSet_def)

lemma base_invalidate_ok:
  "te_valid b \<Longrightarrow> \<exists>st'. base_invalidate (b, st) = Inr (blk_invalidate b, st')"
  by (simp add: base_invalidate_def Let_def)

end
