(* ===== verification/Set_Assoc_Tags.thy ===== *)
theory Set_Assoc_Tags
  imports Indexing Base_Tags Arc_RP Recency_RP
begin

unbundle bit_operations_syntax

text \<open>
  The tag store of the classic caches, \<open>BaseSetAssoc\<close> (\<open>tags/base_set_assoc.cc\<close> and its header, with
  the parts of \<open>tags/base.cc\<close> that search it) over the set-associative indexing and any replacement
  policy.  Blocks are named by their index in \<open>blks\<close>; the matrix of the indexing policy holds these
  names, \<open>None\<close> for the null pointer.  The replacement data of a block is \<open>None\<close> until \<open>tagsInit\<close>
  creates it.  The store is modelled without a partition manager, which is optional.
\<close>

record ('s, 'm) tag_store =
  ts_ip :: indexing
  ts_sets :: "nat option list list"
  ts_blks :: "cache_blk list"
  ts_repl :: "'m replacement_data_scheme option list"
  ts_policy :: 's
  blkSize :: uint32
  numBlocks :: nat
  allocAssoc :: uint32
  sequentialAccess :: bool
  warmupBound :: uint32
  warmedUp :: bool
  ts_stats :: tag_stats

text \<open>The warm-up bound is a truncated floating-point product; it is an argument here.\<close>

definition newBaseSetAssoc ::
  "indexing option \<Rightarrow> 's \<Rightarrow> uint64 \<Rightarrow> uint32 \<Rightarrow> uint32 \<Rightarrow> bool \<Rightarrow> uint32 \<Rightarrow> ('s, 'm) tag_store res" where
  "newBaseSetAssoc indexing_policy pol bytes block_size assoc seqacc warmup =
     (if block_size = 0 then Inl DivByZero
      else
        let n = bytes div ucast block_size in
        case indexing_policy of
          None \<Rightarrow> Inl Fatal
        | Some ip \<Rightarrow>
            checkR Fatal (\<not> (block_size < 4 \<or> \<not> isPowerOf2 (ucast block_size)))
              (Inr \<lparr>ts_ip = ip, ts_sets = replicate (unat (numSets ip)) (replicate (unat (ip_assoc ip)) None),
                    ts_blks = replicate (unat n) newCacheBlk, ts_repl = replicate (unat n) None, ts_policy = pol,
                    blkSize = block_size, numBlocks = unat (ucast n :: uint32), allocAssoc = assoc,
                    sequentialAccess = seqacc, warmupBound = warmup, warmedUp = False, ts_stats = no_tag_stats\<rparr>))"

definition blkAlign :: "('s, 'm) tag_store \<Rightarrow> addr \<Rightarrow> addr" where
  "blkAlign ts a = a AND NOT (ucast (blkSize ts - 1))"

definition extractBlkOffset :: "('s, 'm) tag_store \<Rightarrow> addr \<Rightarrow> addr" where
  "extractBlkOffset ts a = a AND ucast (blkSize ts - 1)"

text \<open>\<open>IndexingPolicyTemplate::setEntry\<close>, which also tells the entry its position.\<close>

definition setEntry :: "nat \<Rightarrow> ('s, 'm) tag_store \<Rightarrow> ('s, 'm) tag_store res" where
  "setEntry i ts =
     bindR (ip_position (ts_ip ts) i) (\<lambda>(s, w).
     bindR (vec_at (ts_sets ts) (unat s)) (\<lambda>row.
     bindR (vec_at row (unat w)) (\<lambda>_.
     bindR (vec_at (ts_blks ts) i) (\<lambda>b.
     let (b', rd') = setPosition s w b (ts_repl ts ! i)
     in Inr (ts\<lparr>ts_sets := (ts_sets ts)[unat s := row[unat w := Some i]], ts_blks := (ts_blks ts)[i := b'],
                ts_repl := (ts_repl ts)[i := rd']\<rparr>)))))"

text \<open>One turn of the loop of \<open>tagsInit\<close>: the position is set first, the replacement data second.\<close>

definition tagsInit_block ::
  "('s, 'm) rp \<Rightarrow> replaceable_entry option \<Rightarrow> nat \<Rightarrow> ('s, 'm) tag_store \<Rightarrow> ('s, 'm) tag_store res" where
  "tagsInit_block P e0 i ts =
     bindR (setEntry i ts) (\<lambda>ts1.
     let (s', d) = rp_instantiateEntry P e0 (ts_policy ts1)
     in Inr (ts1\<lparr>ts_policy := s', ts_repl := (ts_repl ts1)[i := Some d]\<rparr>))"

fun tagsInit_upto ::
  "('s, 'm) rp \<Rightarrow> replaceable_entry option \<Rightarrow> nat \<Rightarrow> ('s, 'm) tag_store \<Rightarrow> ('s, 'm) tag_store res" where
  "tagsInit_upto P e0 0 ts = Inr ts"
| "tagsInit_upto P e0 (Suc n) ts = bindR (tagsInit_upto P e0 n ts) (tagsInit_block P e0 n)"

definition tagsInit :: "('s, 'm) rp \<Rightarrow> replaceable_entry option \<Rightarrow> ('s, 'm) tag_store \<Rightarrow> ('s, 'm) tag_store res" where
  "tagsInit P e0 ts = tagsInit_upto P e0 (numBlocks ts) ts"

section \<open>Looking up\<close>

definition getPossibleEntries :: "('s, 'm) tag_store \<Rightarrow> lookup_key \<Rightarrow> nat option list res" where
  "getPossibleEntries ts key = vec_at (ts_sets ts) (unat (sa_extractSet (ts_ip ts) (key_address key)))"

definition blk_deref :: "('s, 'm) tag_store \<Rightarrow> nat option \<Rightarrow> (nat \<times> cache_blk) res" where
  "blk_deref ts p =
     (case p of None \<Rightarrow> Inl NullDeref | Some i \<Rightarrow> bindR (vec_at (ts_blks ts) i) (\<lambda>b. Inr (i, b)))"

fun findBlock_loop :: "('s, 'm) tag_store \<Rightarrow> lookup_key \<Rightarrow> nat option list \<Rightarrow> nat option res" where
  "findBlock_loop ts key [] = Inr None"
| "findBlock_loop ts key (p # ps) =
     bindR (blk_deref ts p) (\<lambda>(i, b).
     if te_match (extractTag (ts_ip ts)) key b then Inr (Some i) else findBlock_loop ts key ps)"

definition findBlock :: "('s, 'm) tag_store \<Rightarrow> lookup_key \<Rightarrow> nat option res" where
  "findBlock ts key = bindR (getPossibleEntries ts key) (findBlock_loop ts key)"

definition findBlockBySetAndWay :: "('s, 'm) tag_store \<Rightarrow> nat \<Rightarrow> nat \<Rightarrow> nat option res" where
  "findBlockBySetAndWay ts s w = bindR (vec_at (ts_sets ts) s) (\<lambda>row. vec_at row w)"

definition regenerateBlkAddr :: "('s, 'm) tag_store \<Rightarrow> cache_blk \<Rightarrow> addr" where
  "regenerateBlkAddr ts b = sa_regenerateAddr (ts_ip ts) (te_tag b) b"

section \<open>Operations\<close>

text \<open>The replacement data a block points to, dereferenced by every call of the policy.\<close>

definition repl_of :: "('s, 'm) tag_store \<Rightarrow> nat \<Rightarrow> 'm replacement_data_scheme res" where
  "repl_of ts i = bindR (vec_at (ts_repl ts) i) (\<lambda>r. case r of None \<Rightarrow> Inl NullDeref | Some d \<Rightarrow> Inr d)"

definition with_repl ::
  "('s \<Rightarrow> 'm replacement_data_scheme \<Rightarrow> ('s \<times> 'm replacement_data_scheme) res) \<Rightarrow> nat
   \<Rightarrow> ('s, 'm) tag_store \<Rightarrow> ('s, 'm) tag_store res" where
  "with_repl f i ts =
     bindR (repl_of ts i) (\<lambda>d.
     bindR (f (ts_policy ts) d) (\<lambda>(s', d').
     Inr (ts\<lparr>ts_policy := s', ts_repl := (ts_repl ts)[i := Some d']\<rparr>)))"

definition accessBlock ::
  "('s, 'm) rp \<Rightarrow> tick \<Rightarrow> tag_packet \<Rightarrow> ('s, 'm) tag_store \<Rightarrow> (nat option \<times> ('s, 'm) tag_store) res" where
  "accessBlock P now pkt ts =
     bindR (findBlock ts (tp_key pkt)) (\<lambda>r.
     let st = ts_stats ts;
         st1 = st\<lparr>tagAccesses := tagAccesses st + unat (allocAssoc ts)\<rparr>;
         st2 = (if sequentialAccess ts
                then (if r \<noteq> None then st1\<lparr>dataAccesses := dataAccesses st1 + 1\<rparr> else st1)
                else st1\<lparr>dataAccesses := dataAccesses st1 + unat (allocAssoc ts)\<rparr>);
         ts1 = ts\<lparr>ts_stats := st2\<rparr>
     in case r of
          None \<Rightarrow> Inr (None, ts1)
        | Some i \<Rightarrow>
            bindR (with_repl (rp_touch P now) i
              (ts1\<lparr>ts_blks := (ts_blks ts1)[i := increaseRefCount (ts_blks ts1 ! i)]\<rparr>)) (\<lambda>ts2.
            Inr (Some i, ts2)))"

fun derefs :: "('s, 'm) tag_store \<Rightarrow> nat option list \<Rightarrow> (nat \<times> replaceable_entry \<times> 'm replacement_data_scheme) list res" where
  "derefs ts [] = Inr []"
| "derefs ts (p # ps) =
     bindR (blk_deref ts p) (\<lambda>(i, b).
     bindR (repl_of ts i) (\<lambda>d.
     bindR (derefs ts ps) (\<lambda>cs. Inr ((i, position b, d) # cs))))"

fun put_repl :: "nat list \<Rightarrow> 'd list \<Rightarrow> 'd option list \<Rightarrow> 'd option list" where
  "put_repl (i # is) (d # ds) rs = put_repl is ds (rs[i := Some d])"
| "put_repl is ds rs = rs"

definition findVictim ::
  "('s, 'm) rp \<Rightarrow> tick \<Rightarrow> lookup_key \<Rightarrow> ('s, 'm) tag_store \<Rightarrow> (nat option \<times> ('s, 'm) tag_store) res" where
  "findVictim P now key ts =
     bindR (getPossibleEntries ts key) (\<lambda>entries.
     if entries = [] then Inr (None, ts)
     else
       bindR (derefs ts entries) (\<lambda>cs.
       bindR (rp_getVictim P now (ts_policy ts) (map snd cs)) (\<lambda>(s', ds', v).
       Inr (map_option (\<lambda>k. fst (cs ! k)) v,
            ts\<lparr>ts_policy := s', ts_repl := put_repl (map fst cs) ds' (ts_repl ts)\<rparr>))))"

definition insertBlock ::
  "('s, 'm) rp \<Rightarrow> nat \<Rightarrow> tick \<Rightarrow> tag_packet \<Rightarrow> nat \<Rightarrow> ('s, 'm) tag_store \<Rightarrow> ('s, 'm) tag_store res" where
  "insertBlock P maxRequestors now pkt i ts =
     bindR (vec_at (ts_blks ts) i) (\<lambda>b.
     bindR (base_insertBlock (extractTag (ts_ip ts)) maxRequestors now pkt (warmupBound ts) (b, warmedUp ts, ts_stats ts))
       (\<lambda>(b', w, st).
     with_repl (rp_reset P now) i
       (ts\<lparr>ts_blks := (ts_blks ts)[i := b'], warmedUp := w, ts_stats := st\<lparr>tagsInUse := tagsInUse st + 1\<rparr>\<rparr>)))"

definition ts_invalidate :: "('s, 'm) rp \<Rightarrow> nat \<Rightarrow> ('s, 'm) tag_store \<Rightarrow> ('s, 'm) tag_store res" where
  "ts_invalidate P i ts =
     bindR (vec_at (ts_blks ts) i) (\<lambda>b.
     bindR (base_invalidate (b, ts_stats ts)) (\<lambda>(b', st).
     with_repl (rp_invalidate P) i
       (ts\<lparr>ts_blks := (ts_blks ts)[i := b'], ts_stats := st\<lparr>tagsInUse := tagsInUse st - 1\<rparr>\<rparr>)))"

definition moveBlock :: "('s, 'm) rp \<Rightarrow> tick \<Rightarrow> nat \<Rightarrow> nat \<Rightarrow> ('s, 'm) tag_store \<Rightarrow> ('s, 'm) tag_store res" where
  "moveBlock P now src dest ts =
     bindR (vec_at (ts_blks ts) src) (\<lambda>bs.
     bindR (vec_at (ts_blks ts) dest) (\<lambda>bd.
     bindR (base_moveBlock (extractTag (ts_ip ts)) now bs bd) (\<lambda>(bd', bs').
     bindR (with_repl (rp_invalidate P) src (ts\<lparr>ts_blks := (ts_blks ts)[dest := bd', src := bs']\<rparr>))
       (with_repl (rp_reset P now) dest))))"

definition setWayAllocationMax :: "int \<Rightarrow> ('s, 'm) tag_store \<Rightarrow> ('s, 'm) tag_store res" where
  "setWayAllocationMax ways ts = checkR Fatal (\<not> ways < 1) (Inr (ts\<lparr>allocAssoc := word_of_int ways\<rparr>))"

definition anyBlk :: "(cache_blk \<Rightarrow> bool) \<Rightarrow> ('s, 'm) tag_store \<Rightarrow> bool" where
  "anyBlk visitor ts = list_ex visitor (ts_blks ts)"

definition cleanupRefs :: "('s, 'm) tag_store \<Rightarrow> ('s, 'm) tag_store" where
  "cleanupRefs ts = ts\<lparr>ts_stats := fold (\<lambda>b st. if te_valid b
     then st\<lparr>totalRefs := totalRefs st + unat (cache_blk.refCount b), sampledRefs := sampledRefs st + 1\<rparr> else st)
     (ts_blks ts) (ts_stats ts)\<rparr>"

definition computeStats :: "tick \<Rightarrow> tick \<Rightarrow> tick \<Rightarrow> ('s, 'm) tag_store \<Rightarrow> (nat list \<times> nat list list) res" where
  "computeStats us ms now ts =
     computeStats_loop us ms now (ts_blks ts) (replicate 1025 0, replicate 1025 (replicate 5 0))"

section \<open>The contract of a policy in this store\<close>

text \<open>
  \<open>tagsInit\<close> never links the replacement data to its entry, and \<open>findVictim\<close> offers every block of the
  set, valid or not.  A policy that works here must cope with both.
\<close>

locale linkless_policy = victim_policy P pinv "\<lambda>_. True" for P :: "('s, 'm) rp" and pinv +
  assumes reset_total: "pinv s \<Longrightarrow> \<exists>s' d'. rp_reset P now s d = Inr (s', d')"

text \<open>Geometry, replacement data and the tags of the blocks.\<close>

definition ts_geom :: "('s, 'm) tag_store \<Rightarrow> bool" where
  "ts_geom ts \<longleftrightarrow>
     (let A = unat (ip_assoc (ts_ip ts)); N = unat (numSets (ts_ip ts)) in
      (\<exists>n. ip_ok (ts_ip ts) n) \<and> A < 2 ^ 31 \<and> length (ts_blks ts) = N * A \<and> length (ts_repl ts) = N * A \<and>
      length (ts_sets ts) = N \<and> (\<forall>s < N. ts_sets ts ! s = map Some [s * A..<s * A + A]) \<and>
      (\<forall>i < N * A. getSet (ts_blks ts ! i) = of_nat (i div A) \<and> ts_repl ts ! i \<noteq> None))"

definition resident :: "('s, 'm) tag_store \<Rightarrow> lookup_key \<Rightarrow> nat \<Rightarrow> bool" where
  "resident ts key i \<longleftrightarrow> i < length (ts_blks ts) \<and>
     getSet (ts_blks ts ! i) = sa_extractSet (ts_ip ts) (key_address key) \<and>
     te_match (extractTag (ts_ip ts)) key (ts_blks ts ! i)"

definition ts_inv :: "('s \<Rightarrow> bool) \<Rightarrow> ('s, 'm) tag_store \<Rightarrow> bool" where
  "ts_inv pinv ts \<longleftrightarrow> ts_geom ts \<and> pinv (ts_policy ts) \<and>
     (\<forall>key i j. resident ts key i \<longrightarrow> resident ts key j \<longrightarrow> i = j) \<and>
     (\<forall>i < length (ts_blks ts). \<not> te_valid (ts_blks ts ! i) \<longrightarrow> \<not> te_secure (ts_blks ts ! i))"

section \<open>Where blocks are found\<close>

definition key_set :: "('s, 'm) tag_store \<Rightarrow> lookup_key \<Rightarrow> nat" where
  "key_set ts key = unat (sa_extractSet (ts_ip ts) (key_address key))"

definition set_range :: "('s, 'm) tag_store \<Rightarrow> lookup_key \<Rightarrow> nat list" where
  "set_range ts key =
     (let A = unat (ip_assoc (ts_ip ts)) in [key_set ts key * A..<key_set ts key * A + A])"

lemma numSets_unat: "ip_ok ip n \<Longrightarrow> unat (numSets ip) = 2 ^ n"
  using unat_ucast_32_64 [of "2 ^ n"] by (simp add: ip_ok_def ucast_pow2 unat_pow2 del: unat_ucast_32_64)

lemma key_set_less:
  assumes "ts_geom ts"
  shows "key_set ts key < unat (numSets (ts_ip ts))"
proof -
  obtain n where n: "ip_ok (ts_ip ts) n" using assms by (auto simp: ts_geom_def Let_def)
  have "sa_extractSet (ts_ip ts) (key_address key) < 2 ^ n"
    by (rule less_pow2_bits) (use n in \<open>auto simp: bit_sa_extractSet ip_ok_def\<close>)
  then show ?thesis using n by (simp add: key_set_def ip_ok_def word_less_nat_alt)
qed

lemma getPossibleEntries_eq:
  assumes "ts_geom ts"
  shows "getPossibleEntries ts key = Inr (map Some (set_range ts key))"
  using key_set_less [OF assms, of key] assms
  by (simp add: getPossibleEntries_def ts_geom_def Let_def set_range_def key_set_def)

lemma block_set:
  assumes "ts_geom ts" "i < length (ts_blks ts)"
  shows "i div unat (ip_assoc (ts_ip ts)) < unat (numSets (ts_ip ts))"
    "unat (getSet (ts_blks ts ! i)) = i div unat (ip_assoc (ts_ip ts))" "getSet (ts_blks ts ! i) < numSets (ts_ip ts)"
    "pos_ok (ts_blks ts ! i)"
proof -
  let ?A = "unat (ip_assoc (ts_ip ts))" and ?N = "unat (numSets (ts_ip ts))"
  show less: "i div ?A < ?N" using assms by (simp add: ts_geom_def Let_def less_mult_imp_div_less)
  obtain n where n: "ip_ok (ts_ip ts) n" using assms by (auto simp: ts_geom_def Let_def)
  then have N: "?N \<le> 2 ^ 31" using power_increasing [of n 31 "2 :: nat"] numSets_unat [OF n] by (simp add: ip_ok_def)
  then show u: "unat (getSet (ts_blks ts ! i)) = i div ?A"
    using assms less by (simp add: ts_geom_def Let_def unat_of_nat take_bit_nat_eq_self)
  then show "getSet (ts_blks ts ! i) < numSets (ts_ip ts)" using less by (simp add: word_less_nat_alt)
  show "pos_ok (ts_blks ts ! i)" using u less N by (simp add: pos_ok_def word_less_nat_alt)
qed

lemma set_range_iff:
  assumes "ts_geom ts"
  shows "i \<in> set (set_range ts key) \<longleftrightarrow> i < length (ts_blks ts) \<and>
    getSet (ts_blks ts ! i) = sa_extractSet (ts_ip ts) (key_address key)"
proof -
  let ?A = "unat (ip_assoc (ts_ip ts))" and ?s = "key_set ts key"
  have A: "0 < ?A" and len: "length (ts_blks ts) = unat (numSets (ts_ip ts)) * ?A"
    using assms by (auto simp: ts_geom_def Let_def ip_ok_def unat_gt_0)
  have "Suc ?s * ?A \<le> length (ts_blks ts)" unfolding len using key_set_less [OF assms, of key] by (intro mult_le_mono1) simp
  then have "i \<in> set (set_range ts key) \<longleftrightarrow> i < length (ts_blks ts) \<and> i div ?A = ?s"
    using A by (auto simp: set_range_def Let_def div_nat_eqI dividend_less_times_div mult.commute add.commute
        intro: div_nat_eqI) (metis div_times_less_eq_dividend mult.commute, metis dividend_less_div_times)
  then show ?thesis using block_set(2) [OF assms] by (auto simp: key_set_def word_unat_eq_iff)
qed

lemma findBlock_loop_map:
  "\<forall>i \<in> set is. i < length (ts_blks ts) \<Longrightarrow>
   findBlock_loop ts key (map Some is) = Inr (List.find (\<lambda>i. te_match (extractTag (ts_ip ts)) key (ts_blks ts ! i)) is)"
  by (induction "is") (auto simp: blk_deref_def)

lemma findBlock_eq:
  assumes "ts_geom ts"
  shows "findBlock ts key =
    Inr (List.find (\<lambda>i. te_match (extractTag (ts_ip ts)) key (ts_blks ts ! i)) (set_range ts key))"
  using set_range_iff [OF assms]
  by (simp add: findBlock_def getPossibleEntries_eq [OF assms] findBlock_loop_map)

lemma find_member: "List.find Q xs = Some x \<Longrightarrow> x \<in> set xs \<and> Q x"
  by (induction xs) (auto split: if_splits)

lemma resident_range:
  assumes "ts_geom ts"
  shows "resident ts key i \<longleftrightarrow> i \<in> set (set_range ts key) \<and> te_match (extractTag (ts_ip ts)) key (ts_blks ts ! i)"
  by (auto simp: resident_def set_range_iff [OF assms])

lemma findBlock_None:
  assumes "ts_inv pinv ts"
  shows "findBlock ts key = Inr None \<longleftrightarrow> (\<forall>i. \<not> resident ts key i)"
  using assms by (auto simp: ts_inv_def findBlock_eq find_None_iff set_range_iff resident_def)

lemma findBlock_Some:
  assumes "ts_inv pinv ts"
  shows "findBlock ts key = Inr (Some i) \<longleftrightarrow> resident ts key i"
proof -
  have g: "ts_geom ts" using assms by (simp add: ts_inv_def)
  obtain r where f: "findBlock ts key = Inr r" using g by (simp add: findBlock_eq)
  show ?thesis
  proof (cases r)
    case None
    then show ?thesis using f findBlock_None [OF assms, of key] by simp
  next
    case (Some j)
    then have "resident ts key j" using f find_member by (simp add: findBlock_eq [OF g] resident_range [OF g])
    then show ?thesis using assms f Some by (auto simp: ts_inv_def)
  qed
qed

lemma findBlock_cong:
  assumes "ts_inv pinv ts" "ts_inv pinv ts'" "\<And>i. resident ts' key' i = resident ts key i"
  shows "findBlock ts' key' = findBlock ts key"
proof -
  obtain r where f: "findBlock ts key = Inr r" using assms(1) by (simp add: ts_inv_def findBlock_eq)
  then show ?thesis using assms(3) findBlock_None [OF assms(1)] findBlock_None [OF assms(2)]
    findBlock_Some [OF assms(1)] findBlock_Some [OF assms(2)] by (cases r) metis+
qed

section \<open>Operations keep the invariant\<close>

lemma nth_update: "xs[i := y] ! j = (if i = j \<and> j < length xs then y else xs ! j)"
  by (cases "i < length xs") (auto simp: nth_list_update list_update_beyond)

lemma ts_geom_cong:
  assumes "ts_geom ts" "ts_ip ts' = ts_ip ts" "ts_sets ts' = ts_sets ts"
    "length (ts_blks ts') = length (ts_blks ts)" "length (ts_repl ts') = length (ts_repl ts)"
    "\<And>i. i < length (ts_blks ts) \<Longrightarrow> getSet (ts_blks ts' ! i) = getSet (ts_blks ts ! i)"
    "\<And>i. i < length (ts_repl ts) \<Longrightarrow> ts_repl ts' ! i \<noteq> None"
  shows "ts_geom ts'"
  using assms by (simp add: ts_geom_def Let_def)

definition same_line :: "('s, 'm) tag_store \<Rightarrow> lookup_key \<Rightarrow> lookup_key \<Rightarrow> bool" where
  "same_line ts k k' \<longleftrightarrow> extractTag (ts_ip ts) (key_address k) = extractTag (ts_ip ts) (key_address k') \<and>
     sa_extractSet (ts_ip ts) (key_address k) = sa_extractSet (ts_ip ts) (key_address k') \<and>
     key_secure k = key_secure k'"

text \<open>The store after block \<open>i\<close> was replaced by \<open>b\<close>, with whatever replacement data and statistics.\<close>

definition updated :: "('s, 'm) tag_store \<Rightarrow> nat \<Rightarrow> cache_blk \<Rightarrow> ('s, 'm) tag_store \<Rightarrow> bool" where
  "updated ts i b ts' \<longleftrightarrow> ts_ip ts' = ts_ip ts \<and> ts_sets ts' = ts_sets ts \<and> ts_blks ts' = (ts_blks ts)[i := b] \<and>
     length (ts_repl ts') = length (ts_repl ts) \<and> (\<forall>j < length (ts_repl ts). ts_repl ts' ! j \<noteq> None)"

lemma updated_geom:
  assumes "ts_geom ts" "updated ts i b ts'" "getSet b = getSet (ts_blks ts ! i)"
  shows "ts_geom ts'"
  by (rule ts_geom_cong [OF assms(1)]) (use assms(2,3) in \<open>auto simp: updated_def nth_update\<close>)

lemma updated_resident:
  assumes "updated ts i b ts'" "getSet b = getSet (ts_blks ts ! i)"
  shows "resident ts' key j \<longleftrightarrow> (if j = i then i < length (ts_blks ts) \<and>
      getSet b = sa_extractSet (ts_ip ts) (key_address key) \<and> te_match (extractTag (ts_ip ts)) key b
    else resident ts key j)"
  using assms by (auto simp: updated_def resident_def)

lemma updated_inv:
  assumes "ts_inv pinv ts" "updated ts i b ts'" "getSet b = getSet (ts_blks ts ! i)" "pinv (ts_policy ts')"
    "\<not> te_valid b \<longrightarrow> \<not> te_secure b"
    "\<And>key j. te_match (extractTag (ts_ip ts)) key b \<Longrightarrow> getSet b = sa_extractSet (ts_ip ts) (key_address key) \<Longrightarrow>
      resident ts key j \<Longrightarrow> j = i"
  shows "ts_inv pinv ts'"
proof -
  have "resident ts' key j \<Longrightarrow> resident ts' key k \<Longrightarrow> j = k" for key j k
    using assms(1,6) unfolding updated_resident [OF assms(2,3)] by (auto simp: ts_inv_def split: if_splits)
  moreover have "\<not> te_valid (ts_blks ts' ! j) \<longrightarrow> \<not> te_secure (ts_blks ts' ! j)" if "j < length (ts_blks ts')" for j
    using that assms(1,2,5) by (auto simp: ts_inv_def updated_def nth_update split: if_splits)
  ultimately show ?thesis using updated_geom [OF _ assms(2,3)] assms(1,4) by (simp add: ts_inv_def)
qed

lemma derefs_map:
  assumes "ts_geom ts" "\<forall>i \<in> set is. i < length (ts_blks ts)"
  shows "derefs ts (map Some is) = Inr (map (\<lambda>i. (i, position (ts_blks ts ! i), the (ts_repl ts ! i))) is)"
proof -
  have "repl_of ts i = Inr (the (ts_repl ts ! i))" if "i < length (ts_blks ts)" for i
    using assms(1) that by (auto simp: ts_geom_def Let_def repl_of_def)
  then show ?thesis using assms(2) by (induction "is") (auto simp: blk_deref_def)
qed

lemma put_repl_length [simp]: "length (put_repl is ds rs) = length rs"
  by (induction "is" ds rs rule: put_repl.induct) auto

lemma put_repl_some: "\<forall>j < length rs. rs ! j \<noteq> None \<Longrightarrow> j < length rs \<Longrightarrow> put_repl is ds rs ! j \<noteq> None"
  by (induction "is" ds rs rule: put_repl.induct) (auto simp: nth_update)

context linkless_policy
begin

lemma with_repl_ok:
  assumes "ts_geom ts" "pinv (ts_policy ts)" "i < length (ts_blks ts)"
    and ts1: "ts_ip ts1 = ts_ip ts" "ts_sets ts1 = ts_sets ts" "ts_repl ts1 = ts_repl ts" "ts_policy ts1 = ts_policy ts"
      "ts_blks ts1 = (ts_blks ts)[i := b]"
    and f: "\<And>s d. pinv s \<Longrightarrow> \<exists>s' d'. f s d = Inr (s', d') \<and> pinv s'"
  shows "\<exists>ts'. with_repl f i ts1 = Inr ts' \<and> updated ts i b ts' \<and> pinv (ts_policy ts')"
proof -
  have r: "i < length (ts_repl ts)" "\<forall>j < length (ts_repl ts). ts_repl ts ! j \<noteq> None"
    using assms(1,3) by (auto simp: ts_geom_def Let_def)
  then obtain d where d: "ts_repl ts ! i = Some d" by blast
  obtain s' d' where "f (ts_policy ts) d = Inr (s', d')" "pinv s'" using f [OF assms(2)] by blast
  then show ?thesis using r d by (auto simp: with_repl_def repl_of_def updated_def nth_update ts1)
qed

lemma reset_keeps: "pinv s \<Longrightarrow> \<exists>s' d'. rp_reset P now s d = Inr (s', d') \<and> pinv s'"
  using reset_total reset_inv by metis

lemma touch_keeps: "pinv s \<Longrightarrow> \<exists>s' d'. rp_touch P now s d = Inr (s', d') \<and> pinv s'"
  using touch_ok by fastforce

lemma invalidate_step:
  assumes inv: "ts_inv pinv ts" and i: "i < length (ts_blks ts)" and v: "te_valid (ts_blks ts ! i)"
  shows "\<exists>ts'. ts_invalidate P i ts = Inr ts' \<and> updated ts i (blk_invalidate (ts_blks ts ! i)) ts' \<and>
    ts_inv pinv ts'"
proof -
  let ?b = "blk_invalidate (ts_blks ts ! i)"
  have g: "ts_geom ts" and p: "pinv (ts_policy ts)" using inv by (auto simp: ts_inv_def)
  obtain st where st: "base_invalidate (ts_blks ts ! i, ts_stats ts) = Inr (?b, st)" using base_invalidate_ok [OF v] by blast
  have "\<exists>ts'. ts_invalidate P i ts = Inr ts' \<and> updated ts i ?b ts' \<and> pinv (ts_policy ts')"
    unfolding ts_invalidate_def vec_at_inr [OF i] bindR_simps st prod.case
    by (rule with_repl_ok [OF g p i _ _ _ _ _ invalidate_ok]) simp_all
  then obtain ts' where ts': "ts_invalidate P i ts = Inr ts'" "updated ts i ?b ts'" "pinv (ts_policy ts')" by blast
  then have "ts_inv pinv ts'"
    by (intro updated_inv [OF inv ts'(2) _ ts'(3)]) (auto simp: te_match_def)
  then show ?thesis using ts' by blast
qed

lemma insert_step:
  assumes inv: "ts_inv pinv ts" and i: "i < length (ts_blks ts)" and v: "\<not> te_valid (ts_blks ts ! i)"
    and set: "getSet (ts_blks ts ! i) = sa_extractSet (ts_ip ts) (key_address (tp_key pkt))"
    and req: "tp_requestor pkt < maxRequestors" and miss: "findBlock ts (tp_key pkt) = Inr None"
  shows "\<exists>ts' b. insertBlock P maxRequestors now pkt i ts = Inr ts' \<and> updated ts i b ts' \<and>
    getSet b = getSet (ts_blks ts ! i) \<and> te_tag b = extractTag (ts_ip ts) (key_address (tp_key pkt)) \<and>
    te_valid b \<and> te_secure b = key_secure (tp_key pkt) \<and> ts_inv pinv ts'"
proof -
  let ?k = "tp_key pkt"
  have g: "ts_geom ts" and p: "pinv (ts_policy ts)" and sec: "\<not> te_secure (ts_blks ts ! i)"
    using inv i v by (auto simp: ts_inv_def)
  obtain b w st where b: "base_insertBlock (extractTag (ts_ip ts)) maxRequestors now pkt (warmupBound ts)
      (ts_blks ts ! i, warmedUp ts, ts_stats ts) = Inr (b, w, st)"
    and b': "getSet b = getSet (ts_blks ts ! i)" "te_tag b = extractTag (ts_ip ts) (key_address ?k)"
      "te_valid b" "te_secure b = key_secure ?k"
    using base_insertBlock_ok [OF v sec req] by metis
  have "\<exists>ts'. insertBlock P maxRequestors now pkt i ts = Inr ts' \<and> updated ts i b ts' \<and> pinv (ts_policy ts')"
    unfolding insertBlock_def vec_at_inr [OF i] bindR_simps b prod.case
    by (rule with_repl_ok [OF g p i _ _ _ _ _ reset_keeps]) simp_all
  then obtain ts' where ts': "insertBlock P maxRequestors now pkt i ts = Inr ts'" "updated ts i b ts'" "pinv (ts_policy ts')"
    by blast
  have "j = i" if "te_match (extractTag (ts_ip ts)) key b" "getSet b = sa_extractSet (ts_ip ts) (key_address key)"
    "resident ts key j" for key j
  proof -
    have "resident ts ?k j" using that b' set by (auto simp: resident_def te_match_def)
    then show ?thesis using miss by (simp add: findBlock_None [OF inv])
  qed
  then have "ts_inv pinv ts'" by (intro updated_inv [OF inv ts'(2) b'(1) ts'(3)]) (use b'(3) in auto)
  then show ?thesis using ts' b' by blast
qed

lemma victim_step:
  assumes inv: "ts_inv pinv ts"
  shows "\<exists>v ts'. findVictim P now key ts = Inr (Some v, ts') \<and> v \<in> set (set_range ts key) \<and>
    updated ts v (ts_blks ts ! v) ts' \<and> ts_inv pinv ts'"
proof -
  have g: "ts_geom ts" and p: "pinv (ts_policy ts)" using inv by (auto simp: ts_inv_def)
  have repl: "\<forall>j < length (ts_repl ts). ts_repl ts ! j \<noteq> None" using g by (simp add: ts_geom_def Let_def)
  let ?is = "set_range ts key"
  let ?cs = "map (\<lambda>i. (i, position (ts_blks ts ! i), the (ts_repl ts ! i))) ?is"
  have len: "length ?is = unat (ip_assoc (ts_ip ts))" by (simp add: set_range_def Let_def)
  then have ne: "?is \<noteq> []" and small: "length ?is < 2 ^ 31"
    using g by (auto simp: ts_geom_def Let_def ip_ok_def unat_eq_zero)
  have rng: "\<forall>i \<in> set ?is. i < length (ts_blks ts)" using set_range_iff [OF g] by blast
  obtain s' ds' k where k: "rp_getVictim P now (ts_policy ts) (map snd ?cs) = Inr (s', ds', Some k)" "pinv s'"
    "k < length (map snd ?cs)"
    using victim_ok [OF p, of "map snd ?cs" now] ne small rng block_set(4) [OF g] by (auto simp: list_all_iff)
  then have v: "?is ! k \<in> set ?is" "fst (?cs ! k) = ?is ! k" by simp_all
  define ts' where "ts' = ts\<lparr>ts_policy := s', ts_repl := put_repl (map fst ?cs) ds' (ts_repl ts)\<rparr>"
  have "findVictim P now key ts = Inr (Some (?is ! k), ts')"
    using ne k v by (simp add: findVictim_def getPossibleEntries_eq [OF g] derefs_map [OF g rng] ts'_def)
  moreover have u: "updated ts (?is ! k) (ts_blks ts ! (?is ! k)) ts'"
    using put_repl_some [OF repl] by (simp add: updated_def ts'_def)
  moreover have "ts_inv pinv ts'"
    by (rule updated_inv [OF inv u]) (use inv k(2) v rng in \<open>auto simp: ts_inv_def ts'_def resident_def\<close>)
  ultimately show ?thesis using v(1) by blast
qed

lemma access_step:
  assumes inv: "ts_inv pinv ts"
  shows "\<exists>r ts'. findBlock ts (tp_key pkt) = Inr r \<and> accessBlock P now pkt ts = Inr (r, ts') \<and> ts_inv pinv ts' \<and>
    (\<forall>key i. resident ts' key i = resident ts key i)"
proof -
  have g: "ts_geom ts" and p: "pinv (ts_policy ts)" using inv by (auto simp: ts_inv_def)
  obtain r where r: "findBlock ts (tp_key pkt) = Inr r" using g by (simp add: findBlock_eq)
  show ?thesis
  proof (cases r)
    case None
    then show ?thesis using r inv
      by (auto simp: accessBlock_def Let_def ts_inv_def ts_geom_def resident_def)
  next
    case (Some i)
    then have res: "resident ts (tp_key pkt) i" using r by (simp add: findBlock_Some [OF inv])
    then have i: "i < length (ts_blks ts)" by (simp add: resident_def)
    let ?b = "increaseRefCount (ts_blks ts ! i)"
    have set: "getSet ?b = getSet (ts_blks ts ! i)" and m: "\<And>key. te_match (extractTag (ts_ip ts)) key ?b =
        te_match (extractTag (ts_ip ts)) key (ts_blks ts ! i)"
      and sec: "te_valid ?b = te_valid (ts_blks ts ! i)" "te_secure ?b = te_secure (ts_blks ts ! i)"
      by (simp_all add: increaseRefCount_def getSet_def te_match_def)
    have "\<exists>ts'. accessBlock P now pkt ts = Inr (Some i, ts') \<and> updated ts i ?b ts' \<and> pinv (ts_policy ts')"
      using with_repl_ok [OF g p i, where b = ?b and f = "rp_touch P now", OF _ _ _ _ _ touch_keeps]
      unfolding accessBlock_def r Some bindR_simps Let_def option.case
      by (auto simp: res_simps) 
    then obtain ts' where ts': "accessBlock P now pkt ts = Inr (Some i, ts')" "updated ts i ?b ts'" "pinv (ts_policy ts')"
      by blast
    have "ts_inv pinv ts'"
      by (rule updated_inv [OF inv ts'(2) set ts'(3)])
        (use inv i in \<open>auto simp: ts_inv_def resident_def m set sec\<close>)
    moreover have "resident ts' key j = resident ts key j" for key j
      using updated_resident [OF ts'(2) set] m set by (auto simp: resident_def)
    ultimately show ?thesis using r ts' Some by blast
  qed
qed

end

section \<open>Replacing a block\<close>

text \<open>
  The order in which a cache uses the store on a miss (\<open>BaseCache::allocateBlock\<close>, without the
  write-backs): choose a victim, invalidate it if it is valid, insert the new block there.
\<close>

definition ts_replace ::
  "('s, 'm) rp \<Rightarrow> nat \<Rightarrow> tick \<Rightarrow> tag_packet \<Rightarrow> ('s, 'm) tag_store \<Rightarrow> (nat option \<times> ('s, 'm) tag_store) res" where
  "ts_replace P maxRequestors now pkt ts =
     bindR (findVictim P now (tp_key pkt) ts) (\<lambda>(v, ts1).
     case v of
       None \<Rightarrow> Inr (None, ts1)
     | Some i \<Rightarrow>
         bindR (if te_valid (ts_blks ts1 ! i) then ts_invalidate P i ts1 else Inr ts1) (\<lambda>ts2.
         bindR (insertBlock P maxRequestors now pkt i ts2) (\<lambda>ts3. Inr (Some i, ts3))))"

lemma updated_same_resident:
  "updated ts i (ts_blks ts ! i) ts' \<Longrightarrow> resident ts' key j = resident ts key j"
  using updated_resident [of ts i "ts_blks ts ! i" ts' key j] by (auto simp: resident_def)

context linkless_policy
begin

lemma vacate_step:
  assumes inv: "ts_inv pinv ts" and i: "i < length (ts_blks ts)"
  shows "\<exists>ts'. (if te_valid (ts_blks ts ! i) then ts_invalidate P i ts else Inr ts) = Inr ts' \<and> ts_inv pinv ts' \<and>
    ts_ip ts' = ts_ip ts \<and> i < length (ts_blks ts') \<and> \<not> te_valid (ts_blks ts' ! i) \<and>
    getSet (ts_blks ts' ! i) = getSet (ts_blks ts ! i) \<and>
    (\<forall>key j. resident ts' key j \<longleftrightarrow> j \<noteq> i \<and> resident ts key j)"
proof (cases "te_valid (ts_blks ts ! i)")
  case True
  let ?b = "blk_invalidate (ts_blks ts ! i)"
  have b: "getSet ?b = getSet (ts_blks ts ! i)" "\<not> te_valid ?b" by simp_all
  obtain ts' where ts': "ts_invalidate P i ts = Inr ts'" "updated ts i ?b ts'" "ts_inv pinv ts'"
    using invalidate_step [OF inv i True] by blast
  have "resident ts' key j \<longleftrightarrow> j \<noteq> i \<and> resident ts key j" for key j
    using updated_resident [OF ts'(2) b(1)] b(2) by (simp add: te_match_def)
  moreover have "ts_ip ts' = ts_ip ts" "ts_blks ts' = (ts_blks ts)[i := ?b]" using ts'(2) by (simp_all add: updated_def)
  ultimately show ?thesis using ts'(1,3) True b i by (intro exI [of _ ts']) auto
next
  case False
  then have "\<not> resident ts key i" for key by (simp add: resident_def te_match_def)
  then show ?thesis using False inv i by auto
qed

lemma replace_step:
  assumes inv: "ts_inv pinv ts" and miss: "findBlock ts (tp_key pkt) = Inr None"
    and req: "tp_requestor pkt < maxRequestors"
  shows "\<exists>v ts'. ts_replace P maxRequestors now pkt ts = Inr (Some v, ts') \<and> ts_inv pinv ts' \<and> ts_ip ts' = ts_ip ts \<and>
    getSet (ts_blks ts' ! v) = sa_extractSet (ts_ip ts) (key_address (tp_key pkt)) \<and>
    te_tag (ts_blks ts' ! v) = extractTag (ts_ip ts) (key_address (tp_key pkt)) \<and>
    (\<forall>key j. resident ts' key j \<longleftrightarrow> (if j = v then same_line ts key (tp_key pkt) else resident ts key j))"
proof -
  let ?k = "tp_key pkt"
  obtain v ts1 where 1: "findVictim P now ?k ts = Inr (Some v, ts1)" "v \<in> set (set_range ts ?k)"
    "updated ts v (ts_blks ts ! v) ts1" "ts_inv pinv ts1" using victim_step [OF inv] by blast
  have v: "v < length (ts_blks ts)" "getSet (ts_blks ts ! v) = sa_extractSet (ts_ip ts) (key_address ?k)"
    using 1(2) set_range_iff inv by (auto simp: ts_inv_def)
  have e1: "ts_blks ts1 = ts_blks ts" "ts_ip ts1 = ts_ip ts" using 1(3) by (simp_all add: updated_def)
  obtain ts2 where 2: "(if te_valid (ts_blks ts1 ! v) then ts_invalidate P v ts1 else Inr ts1) = Inr ts2"
    "ts_inv pinv ts2" "ts_ip ts2 = ts_ip ts1" "v < length (ts_blks ts2)" "\<not> te_valid (ts_blks ts2 ! v)"
    "getSet (ts_blks ts2 ! v) = getSet (ts_blks ts1 ! v)" "\<And>key j. resident ts2 key j \<longleftrightarrow> j \<noteq> v \<and> resident ts1 key j"
    using vacate_step [OF 1(4)] v(1) e1 by metis
  note r1 = updated_same_resident [OF 1(3)]
  have miss2: "findBlock ts2 ?k = Inr None"
    using miss by (simp add: findBlock_None [OF inv] findBlock_None [OF 2(2)] 2(7) r1)
  have set2: "getSet (ts_blks ts2 ! v) = sa_extractSet (ts_ip ts2) (key_address ?k)" using 2(3,6) v(2) e1 by simp
  obtain ts3 b where 3: "insertBlock P maxRequestors now pkt v ts2 = Inr ts3" "updated ts2 v b ts3"
    "getSet b = getSet (ts_blks ts2 ! v)" "te_tag b = extractTag (ts_ip ts2) (key_address ?k)"
    "te_valid b" "te_secure b = key_secure ?k" "ts_inv pinv ts3"
    using insert_step [OF 2(2,4,5) set2 req miss2] by blast
  have b: "ts_blks ts3 ! v = b" "ts_ip ts3 = ts_ip ts" using 3(2) 2(3,4) e1 by (auto simp: updated_def)
  have "resident ts3 key j \<longleftrightarrow> (if j = v then same_line ts key ?k else resident ts key j)" for key j
    using updated_resident [OF 3(2,3)] 2(3,4,7) 3(3-6) set2 e1 by (auto simp: same_line_def te_match_def r1)
  then show ?thesis using 1(1) 2(1) 3 b set2 e1 2(3) by (intro exI [of _ v] exI [of _ ts3]) (simp add: ts_replace_def)
qed

end


section \<open>Initialisation\<close>

definition init_row :: "nat \<Rightarrow> nat \<Rightarrow> nat \<Rightarrow> nat option list" where
  "init_row A n s = map (\<lambda>w. if s * A + w < n then Some (s * A + w) else None) [0..<A]"

text \<open>What the loop of \<open>tagsInit\<close> has done after \<open>n\<close> of its turns.\<close>

definition init_upto ::
  "('s, 'm) rp \<Rightarrow> replaceable_entry option \<Rightarrow> ('s \<Rightarrow> bool) \<Rightarrow> indexing \<Rightarrow> nat \<Rightarrow> ('s, 'm) tag_store \<Rightarrow> bool" where
  "init_upto P e0 pinv ip n ts \<longleftrightarrow>
     (let A = unat (ip_assoc ip); N = unat (numSets ip) in
      ts_ip ts = ip \<and> pinv (ts_policy ts) \<and> length (ts_blks ts) = N * A \<and> length (ts_repl ts) = N * A \<and>
      length (ts_sets ts) = N \<and>
      (\<forall>s < N. ts_sets ts ! s = init_row A n s) \<and>
      (\<forall>i < N * A. \<not> te_valid (ts_blks ts ! i) \<and> \<not> te_secure (ts_blks ts ! i)) \<and>
      (\<forall>i < n. getSet (ts_blks ts ! i) = of_nat (i div A) \<and>
        (\<exists>s. ts_repl ts ! i = Some (snd (rp_instantiateEntry P e0 s)))))"

lemma row_update:
  assumes "(A :: nat) > 0"
  shows "(if n div A = s then (init_row A n s)[n mod A := Some n] else init_row A n s) = init_row A (Suc n) s"
proof (rule nth_equalityI, goal_cases)
  case (2 w)
  then have w: "w < A" by (simp add: init_row_def split: if_splits)
  have "s * A + w = n \<longleftrightarrow> n div A = s \<and> n mod A = w"
    using w assms(1) by (auto simp: div_mult_self1 mult.commute)
  then show ?case using w by (auto simp: init_row_def nth_update less_Suc_eq)
qed (simp add: init_row_def)

lemma init_step:
  assumes "init_upto P e0 pinv ip n ts" "n < unat (numSets ip) * unat (ip_assoc ip)" "ip_ok ip k"
    and pol: "\<And>s. pinv s \<Longrightarrow> pinv (fst (rp_instantiateEntry P e0 s))"
  shows "\<exists>ts'. tagsInit_block P e0 n ts = Inr ts' \<and> init_upto P e0 pinv ip (Suc n) ts'"
proof -
  let ?A = "unat (ip_assoc ip)" and ?N = "unat (numSets ip)"
  have A: "?A > 0" using assms(3) by (simp add: ip_ok_def unat_gt_0)
  have s: "n div ?A < ?N" and w: "n mod ?A < ?A" using assms(2) A by (simp_all add: less_mult_imp_div_less)
  have su: "unat (of_nat (n div ?A) :: uint32) = n div ?A" "unat (of_nat (n mod ?A) :: uint32) = n mod ?A"
    using s w unat_less_pow [of "numSets ip"] unat_less_pow [of "ip_assoc ip"]
    by (simp_all add: unat_of_nat take_bit_nat_eq_self)
  have lt: "(of_nat (n div ?A) :: uint32) < numSets ip" using s su by (simp add: word_less_nat_alt)
  note I = assms(1) [unfolded init_upto_def Let_def]
  have pos: "ip_position (ts_ip ts) n = Inr (of_nat (n div ?A), of_nat (n mod ?A))"
    using I lt by (simp add: ip_position_def Let_def)
  let ?b = "(ts_blks ts ! n)\<lparr>entry_set := of_nat (n div ?A), entry_way := of_nat (n mod ?A)\<rparr>"
  let ?sd = "rp_instantiateEntry P e0 (ts_policy ts)"
  let ?ts' = "ts\<lparr>ts_sets := (ts_sets ts)[n div ?A := (init_row ?A n (n div ?A))[n mod ?A := Some n]],
    ts_blks := (ts_blks ts)[n := ?b], ts_repl := (ts_repl ts)[n := Some (snd ?sd)], ts_policy := fst ?sd\<rparr>"
  have "tagsInit_block P e0 n ts = Inr ?ts'"
    using I s w su assms(2) pos
    by (simp add: tagsInit_block_def setEntry_def setPosition_def Let_def case_prod_beta init_row_def)
  moreover have "ts_sets ?ts' ! s = init_row ?A (Suc n) s" if "s < ?N" for s
    using I that by (simp add: nth_update flip: row_update [OF A])
  then have "init_upto P e0 pinv ip (Suc n) ?ts'"
    using I assms(2) pol unfolding init_upto_def Let_def
    by (simp add: nth_update less_Suc_eq getSet_def) blast
  ultimately show ?thesis by blast
qed

lemma tagsInit_upto_ok:
  assumes "init_upto P e0 pinv ip 0 ts" "n \<le> unat (numSets ip) * unat (ip_assoc ip)" "ip_ok ip k"
    and pol: "\<And>s. pinv s \<Longrightarrow> pinv (fst (rp_instantiateEntry P e0 s))"
  shows "\<exists>ts'. tagsInit_upto P e0 n ts = Inr ts' \<and> init_upto P e0 pinv ip n ts'"
  using assms(2)
proof (induction n)
  case (Suc n)
  then obtain ts' where ts': "tagsInit_upto P e0 n ts = Inr ts'" "init_upto P e0 pinv ip n ts'" by auto
  have "n < unat (numSets ip) * unat (ip_assoc ip)" using Suc.prems by simp
  then have "\<exists>ts''. tagsInit_block P e0 n ts' = Inr ts'' \<and> init_upto P e0 pinv ip (Suc n) ts''"
    by (rule init_step [OF ts'(2) _ assms(3) pol])
  then show ?case by (simp add: ts'(1))
qed (use assms(1) in simp)

text \<open>The constructors leave the store ready for \<open>tagsInit\<close> when the blocks fill the sets exactly.\<close>

definition tags_built ::
  "'s \<Rightarrow> uint32 \<Rightarrow> uint64 \<Rightarrow> uint32 \<Rightarrow> bool \<Rightarrow> uint32 \<Rightarrow> indexing \<Rightarrow> ('s, 'm) tag_store \<Rightarrow> bool" where
  "tags_built pol assoc bytes block_size seqacc warmup ip ts \<longleftrightarrow>
     newSetAssociative assoc bytes block_size = Inr ip \<and>
     newBaseSetAssoc (Some ip) pol bytes block_size assoc seqacc warmup = Inr ts \<and>
     assoc < 0x80000000 \<and> bytes div ucast block_size < 0x100000000 \<and>
     unat (bytes div ucast block_size) = unat (numSets ip) * unat assoc"

lemma newCacheBlk_invalid [simp]: "\<not> te_valid newCacheBlk" "\<not> te_secure newCacheBlk"
  by (simp_all add: newCacheBlk_def)

lemma tagsInit_built:
  assumes built: "tags_built pol assoc bytes bs sq wu ip ts" and "pinv pol"
    and pol: "\<And>s. pinv s \<Longrightarrow> pinv (fst (rp_instantiateEntry P e0 s))"
  shows "\<exists>k ts'. ip_ok ip k \<and> ip_assoc ip = assoc \<and> tagsInit P e0 ts = Inr ts' \<and>
    init_upto P e0 pinv ip (unat (numSets ip) * unat (ip_assoc ip)) ts'"
proof -
  let ?n = "bytes div ucast bs"
  obtain k where k: "ip_ok ip k" "ip_assoc ip = assoc"
    using built newSetAssociative_ok [of assoc bytes bs ip] by (auto simp: tags_built_def)
  have n: "unat ?n = unat (numSets ip) * unat (ip_assoc ip)" "unat (ucast ?n :: uint32) = unat ?n"
    using built k(2) by (auto simp: tags_built_def unsigned_ucast_eq take_bit_nat_eq_self word_less_nat_alt)
  have ts: "ts = \<lparr>ts_ip = ip, ts_sets = replicate (unat (numSets ip)) (replicate (unat (ip_assoc ip)) None),
      ts_blks = replicate (unat ?n) newCacheBlk, ts_repl = replicate (unat ?n) None, ts_policy = pol,
      blkSize = bs, numBlocks = unat ?n, allocAssoc = assoc,
      sequentialAccess = sq, warmupBound = wu, warmedUp = False, ts_stats = no_tag_stats\<rparr>"
    using built n(2) by (auto simp: tags_built_def newBaseSetAssoc_def Let_def split: if_splits)
  have "init_upto P e0 pinv ip 0 ts"
    using assms(2) n by (simp add: init_upto_def Let_def ts init_row_def map_replicate_const)
  then have "\<exists>ts'. tagsInit_upto P e0 (unat (numSets ip) * unat (ip_assoc ip)) ts = Inr ts' \<and>
      init_upto P e0 pinv ip (unat (numSets ip) * unat (ip_assoc ip)) ts'"
    using tagsInit_upto_ok [where pinv = pinv and P = P and ?e0.0 = e0, OF _ order_refl k(1) pol] by blast
  then show ?thesis using k n by (auto simp: tagsInit_def ts)
qed

lemma init_done_inv:
  assumes "init_upto P e0 pinv ip (unat (numSets ip) * unat (ip_assoc ip)) ts" "ip_ok ip k" "ip_assoc ip < 0x80000000"
  shows "ts_inv pinv ts \<and> (\<forall>key. findBlock ts key = Inr None)"
proof -
  let ?A = "unat (ip_assoc ip)" and ?N = "unat (numSets ip)"
  note I = assms(1) [unfolded init_upto_def Let_def]
  have row: "init_row ?A (?N * ?A) s = map Some [s * ?A..<s * ?A + ?A]" if "s < ?N" for s
  proof -
    have "Suc s * ?A \<le> ?N * ?A" using that by (intro mult_le_mono1) simp
    then show ?thesis by (intro nth_equalityI) (auto simp: init_row_def)
  qed
  have "ts_geom ts" using I row assms(2,3) by (auto simp: ts_geom_def Let_def word_less_nat_alt)
  moreover have none: "\<not> resident ts key i" for key i using I by (auto simp: resident_def te_match_def)
  ultimately have "ts_inv pinv ts" using I by (auto simp: ts_inv_def)
  then show ?thesis using none by (simp add: findBlock_None)
qed

text \<open>
  \<open>tagsInit\<close> establishes the invariant: for every accepted geometry whose blocks fill the sets, the
  loop over the blocks ends without an error, with an empty store.
\<close>

theorem tags_init_establishes:
  assumes "linkless_policy P pinv" "pinv pol" "tags_built pol assoc bytes bs sq wu ip ts"
  shows "\<exists>ts'. tagsInit P e0 ts = Inr ts' \<and> ts_inv pinv ts' \<and> (\<forall>key. findBlock ts' key = Inr None)"
proof -
  have pol: "pinv s \<Longrightarrow> pinv (fst (rp_instantiateEntry P e0 s))" for s
    using assms(1) by (auto simp: linkless_policy_def intro: victim_policy.instantiate_pinv)
  obtain k ts' where k: "ip_ok ip k" "ip_assoc ip = assoc" "tagsInit P e0 ts = Inr ts'"
    "init_upto P e0 pinv ip (unat (numSets ip) * unat (ip_assoc ip)) ts'"
    using tagsInit_built [OF assms(3), where pinv = pinv and P = P, OF assms(2) pol] by blast
  then show ?thesis using init_done_inv [OF k(4,1)] assms(3) by (simp add: tags_built_def)
qed

section \<open>Policies in the store\<close>

lemma linkless_of_total:
  assumes "total_policy P (\<lambda>_. True) (\<lambda>_. True)" "\<And>now s d. \<exists>r. rp_reset P now s d = Inr r"
  shows "linkless_policy P (\<lambda>_. True)"
  using assms by (simp add: total_policy_def linkless_policy_def linkless_policy_axioms_def)

interpretation lru_tags: linkless_policy lru_rp "\<lambda>_. True"
  by (rule linkless_of_total [OF lru.total_policy_axioms]) (simp add: lru_rp_def)

interpretation mru_tags: linkless_policy mru_rp "\<lambda>_. True"
  by (rule linkless_of_total [OF mru.total_policy_axioms]) (simp add: mru_rp_def)

interpretation lfu_tags: linkless_policy lfu_rp "\<lambda>_. True"
  by (rule linkless_of_total [OF lfu.total_policy_axioms]) (simp add: lfu_rp_def)

interpretation random_tags: linkless_policy random_rp "\<lambda>_. True"
  by (rule linkless_of_total [OF random.total_policy_axioms]) (simp add: random_rp_def)


section \<open>A small store\<close>

text \<open>Two sets of two blocks of 64 bytes.\<close>

definition ex_ip :: indexing where
  "ex_ip = \<lparr>ip_assoc = 2, numSets = 2, setShift = 6, setMask = 1, tagShift = 7\<rparr>"

definition ex_store :: "'s \<Rightarrow> ('s, 'm) tag_store" where
  "ex_store pol = \<lparr>ts_ip = ex_ip, ts_sets = replicate 2 (replicate 2 None), ts_blks = replicate 4 newCacheBlk,
     ts_repl = replicate 4 None, ts_policy = pol, blkSize = 64, numBlocks = 4, allocAssoc = 2,
     sequentialAccess = False, warmupBound = 4, warmedUp = False, ts_stats = no_tag_stats\<rparr>"

definition ex_pkt :: tag_packet where
  "ex_pkt = \<lparr>tp_key = \<lparr>key_address = 0x1fc8, key_secure = False\<rparr>, tp_requestor = 3, tp_task = 7\<rparr>"

lemma ex_built: "tags_built pol 2 256 64 False 4 ex_ip (ex_store pol)"
  using floorLog2_pow2 [of 1 4] floorLog2_pow2 [of 6 4]
  by (simp add: tags_built_def newSetAssociative_def newIndexingPolicy_def newBaseSetAssoc_def ex_ip_def ex_store_def
      isPowerOf2_def Let_def)

lemma ex_lru_store:
  "\<exists>ts. tagsInit lru_rp None (ex_store ()) = Inr ts \<and> ts_inv (\<lambda>_. True) ts \<and> (\<forall>key. findBlock ts key = Inr None) \<and>
     ts_ip ts = ex_ip"
proof -
  obtain k ts where "ip_ok ex_ip k" "tagsInit lru_rp None (ex_store ()) = Inr ts"
    "init_upto lru_rp None (\<lambda>_. True) ex_ip (unat (numSets ex_ip) * unat (ip_assoc ex_ip)) ts"
    using tagsInit_built [OF ex_built, where pinv = "\<lambda>_. True" and P = lru_rp and ?e0.0 = None] by auto
  then show ?thesis using init_done_inv [of lru_rp None "\<lambda>_. True" ex_ip ts k]
    by (auto simp: ex_ip_def init_upto_def Let_def)
qed


theorem tags_init_establishes_witness:
  "\<exists>ts'. tagsInit lru_rp None (ex_store ()) = Inr ts' \<and> ts_inv (\<lambda>_. True) ts' \<and> findBlock ts' (tp_key ex_pkt) = Inr None"
  using tags_init_establishes [OF lru_tags.linkless_policy_axioms _ ex_built, of None] by auto


end
