(* ===== verification/Fa_Lru.thy ===== *)
theory Fa_Lru
  imports Base_Tags Intmath
begin

unbundle bit_operations_syntax

text \<open>
  The fully associative LRU tag store (\<open>tags/fa_lru.cc\<close>, \<open>tags/fa_lru.hh\<close>).  The blocks form a doubly
  linked list through pointers into the array of blocks; pointers are block numbers, \<open>None\<close> is the null
  pointer.  \<open>CacheTracking\<close> keeps, for a range of smaller cache sizes, the block where each of these
  caches would end, and counts the hits such a cache would have had.
\<close>

section \<open>State\<close>

record falru_blk = cache_blk +
  fb_prev :: "nat option"
  fb_next :: "nat option"
  inCachesMask :: uint32

record falru =
  fl_blks :: "falru_blk list"
  head :: "nat option"
  tail :: "nat option"
  tagHash :: "addr \<times> bool \<Rightarrow> nat option"
  fl_blkSize :: uint32
  fl_numBlocks :: nat
  fl_warmupBound :: uint32
  fl_warmedUp :: bool
  fl_stats :: tag_stats
  minTrackedSize :: uint32
  numTrackedCaches :: nat
  inAllCachesMask :: uint32
  boundaries :: "nat option list"
  hits :: "nat list"
  misses :: "nat list"
  accesses :: nat

definition newFALRUBlk :: falru_blk where
  "newFALRUBlk = cache_blk.extend newCacheBlk \<lparr>fb_prev = None, fb_next = None, inCachesMask = 0\<rparr>"

text \<open>\<open>floorLog2(max_size) - floorLog2(min_size)\<close>, at type \<open>unsigned\<close>.\<close>

definition tracked_caches :: "uint32 \<Rightarrow> uint32 \<Rightarrow> nat res" where
  "tracked_caches min_size max_size =
     (if max_size > min_size
      then bindR (floorLog2 4 (ucast max_size)) (\<lambda>a. bindR (floorLog2 4 (ucast min_size)) (\<lambda>b. Inr (a - b)))
      else Inr 0)"

definition newFALRU :: "uint64 \<Rightarrow> uint32 \<Rightarrow> uint32 \<Rightarrow> uint32 \<Rightarrow> falru res" where
  "newFALRU bytes block_size min_tracked_cache_size warmup =
     (if block_size = 0 then Inl DivByZero
      else
        let n = unat (ucast (bytes div ucast block_size) :: uint32); sz = ucast bytes :: uint32 in
        bindR (tracked_caches min_tracked_cache_size sz) (\<lambda>m.
        checkR Fatal (\<not> m > 32)
          (checkR Fatal (isPowerOf2 (ucast block_size))
            (checkR Fatal (isPowerOf2 (ucast sz))
              (Inr \<lparr>fl_blks = replicate n newFALRUBlk, head = None, tail = None, tagHash = (\<lambda>_. None),
                    fl_blkSize = block_size, fl_numBlocks = n, fl_warmupBound = warmup, fl_warmedUp = False,
                    fl_stats = no_tag_stats, minTrackedSize = min_tracked_cache_size, numTrackedCaches = m,
                    inAllCachesMask = mask m, boundaries = replicate m None, hits = replicate (m + 1) 0,
                    misses = replicate (m + 1) 0, accesses = 0\<rparr>)))))"

text \<open>Reading and writing a block through a pointer.\<close>

definition fl_get :: "nat option \<Rightarrow> falru \<Rightarrow> falru_blk res" where
  "fl_get p fl = (case p of None \<Rightarrow> Inl NullDeref | Some i \<Rightarrow> vec_at (fl_blks fl) i)"

definition fl_upd :: "nat option \<Rightarrow> (falru_blk \<Rightarrow> falru_blk) \<Rightarrow> falru \<Rightarrow> falru res" where
  "fl_upd p f fl =
     (case p of
        None \<Rightarrow> Inl NullDeref
      | Some i \<Rightarrow> bindR (vec_at (fl_blks fl) i) (\<lambda>b. Inr (fl\<lparr>fl_blks := (fl_blks fl)[i := f b]\<rparr>)))"

section \<open>Tracking smaller caches\<close>

text \<open>
  One turn of the walk along the list in \<open>init\<close>; the fuel is the number of blocks.  The state of the
  loop is the current size, the next tracked size, the mask and the number of boundaries set.
\<close>

fun ct_init_loop ::
  "nat \<Rightarrow> nat option \<Rightarrow> uint32 \<Rightarrow> uint32 \<Rightarrow> uint32 \<Rightarrow> nat \<Rightarrow> falru \<Rightarrow> falru res" where
  "ct_init_loop fuel None curr_size tracked_size in_mask j fl = Inr fl"
| "ct_init_loop 0 (Some i) curr_size tracked_size in_mask j fl = Inl OutOfRange"
| "ct_init_loop (Suc fuel) (Some i) curr_size tracked_size in_mask j fl =
     bindR (fl_upd (Some i) (\<lambda>b. b\<lparr>inCachesMask := in_mask\<rparr>) fl) (\<lambda>fl1.
     bindR (fl_get (Some i) fl1) (\<lambda>b.
     let curr_size' = curr_size + fl_blkSize fl1 in
     if curr_size' = tracked_size \<and> Some i \<noteq> tail fl1 then
       bindR (vec_at (boundaries fl1) j) (\<lambda>_.
       ct_init_loop fuel (fb_next b) curr_size' (push_bit 1 tracked_size) (in_mask AND NOT (push_bit j 1)) (Suc j)
         (fl1\<lparr>boundaries := (boundaries fl1)[j := Some i]\<rparr>))
     else ct_init_loop fuel (fb_next b) curr_size' tracked_size in_mask j fl1))"

definition ct_init :: "falru \<Rightarrow> falru res" where
  "ct_init fl =
     ct_init_loop (fl_numBlocks fl) (if numTrackedCaches fl \<noteq> 0 then head fl else None) 0 (minTrackedSize fl)
       (inAllCachesMask fl) 0 fl"

definition ct_head_turn :: "nat \<Rightarrow> uint32 \<Rightarrow> nat \<Rightarrow> falru \<Rightarrow> falru res" where
  "ct_head_turn blk update_mask i fl =
     (let current = push_bit i 1 :: uint32; bd = boundaries fl ! i in
      if current AND update_mask \<noteq> 0 then
        bindR (fl_upd bd (\<lambda>b. b\<lparr>inCachesMask := inCachesMask b AND NOT current\<rparr>) fl) (\<lambda>fl1.
        bindR (fl_get bd fl1) (\<lambda>b. Inr (fl1\<lparr>boundaries := (boundaries fl1)[i := fb_prev b]\<rparr>)))
      else if bd = Some blk then
        bindR (fl_get (Some blk) fl) (\<lambda>b. Inr (fl\<lparr>boundaries := (boundaries fl)[i := fb_prev b]\<rparr>))
      else Inr fl)"

fun loopR :: "(nat \<Rightarrow> 's \<Rightarrow> 's res) \<Rightarrow> nat \<Rightarrow> 's \<Rightarrow> 's res" where
  "loopR f 0 s = Inr s"
| "loopR f (Suc n) s = bindR (loopR f n s) (f n)"

definition moveBlockToHead :: "nat \<Rightarrow> falru \<Rightarrow> falru res" where
  "moveBlockToHead blk fl =
     bindR (fl_get (Some blk) fl) (\<lambda>b.
     bindR (loopR (ct_head_turn blk (inAllCachesMask fl XOR inCachesMask b)) (numTrackedCaches fl) fl) (\<lambda>fl1.
     fl_upd (Some blk) (\<lambda>b. b\<lparr>inCachesMask := inAllCachesMask fl1\<rparr>) fl1))"

definition ct_tail_turn :: "nat \<Rightarrow> uint32 \<Rightarrow> nat \<Rightarrow> falru \<Rightarrow> falru res" where
  "ct_tail_turn blk update_mask i fl =
     (let current = push_bit i 1 :: uint32 in
      if current AND update_mask \<noteq> 0 then
        bindR (fl_get (boundaries fl ! i) fl) (\<lambda>b.
        bindR (if fb_next b = Some blk then bindR (fl_get (Some blk) fl) (\<lambda>c. Inr (fb_next c)) else Inr (fb_next b)) (\<lambda>bd.
        fl_upd bd (\<lambda>b. b\<lparr>inCachesMask := inCachesMask b OR current\<rparr>) (fl\<lparr>boundaries := (boundaries fl)[i := bd]\<rparr>)))
      else Inr fl)"

definition moveBlockToTail :: "nat \<Rightarrow> falru \<Rightarrow> falru res" where
  "moveBlockToTail blk fl =
     bindR (fl_get (Some blk) fl) (\<lambda>b.
     bindR (loopR (ct_tail_turn blk (inCachesMask b)) (numTrackedCaches fl) fl)
       (fl_upd (Some blk) (\<lambda>b. b\<lparr>inCachesMask := 0\<rparr>)))"

definition record_turn :: "falru_blk option \<Rightarrow> nat \<Rightarrow> falru \<Rightarrow> falru" where
  "record_turn blk i fl =
     (if (case blk of None \<Rightarrow> False | Some b \<Rightarrow> push_bit i 1 AND inCachesMask b \<noteq> 0)
      then fl\<lparr>hits := (hits fl)[i := hits fl ! i + 1]\<rparr>
      else fl\<lparr>misses := (misses fl)[i := misses fl ! i + 1]\<rparr>)"

definition recordAccess :: "falru_blk option \<Rightarrow> falru \<Rightarrow> falru" where
  "recordAccess blk fl =
     (let fl1 = fold (record_turn blk) [0..<numTrackedCaches fl] fl; m = numTrackedCaches fl;
          fl2 = (if (case blk of None \<Rightarrow> False | Some b \<Rightarrow> te_valid b)
                 then fl1\<lparr>hits := (hits fl1)[m := hits fl1 ! m + 1]\<rparr>
                 else fl1\<lparr>misses := (misses fl1)[m := misses fl1 ! m + 1]\<rparr>)
      in fl2\<lparr>accesses := accesses fl2 + 1\<rparr>)"

section \<open>The list\<close>

text \<open>The pointer updates of \<open>moveToHead\<close> and \<open>moveToTail\<close>, after the tracked caches were updated.\<close>

definition relinkHead :: "nat \<Rightarrow> falru \<Rightarrow> falru res" where
  "relinkHead blk fl =
     bindR (fl_get (Some blk) fl) (\<lambda>b.
     bindR
       (if Some blk = tail fl then
          checkR AssertFail (fb_next b = None)
            (fl_upd (fb_prev b) (\<lambda>c. c\<lparr>fb_next := None\<rparr>) (fl\<lparr>tail := fb_prev b\<rparr>))
        else
          bindR (fl_upd (fb_prev b) (\<lambda>c. c\<lparr>fb_next := fb_next b\<rparr>) fl)
            (fl_upd (fb_next b) (\<lambda>c. c\<lparr>fb_prev := fb_prev b\<rparr>))) (\<lambda>fl.
     bindR (fl_upd (Some blk) (\<lambda>c. c\<lparr>fb_next := head fl, fb_prev := None\<rparr>) fl) (\<lambda>fl.
     bindR (fl_upd (head fl) (\<lambda>c. c\<lparr>fb_prev := Some blk\<rparr>) fl) (\<lambda>fl.
     Inr (fl\<lparr>head := Some blk\<rparr>)))))"

definition moveToHead :: "nat \<Rightarrow> falru \<Rightarrow> falru res" where
  "moveToHead blk fl =
     (if Some blk = head fl then Inr fl else bindR (moveBlockToHead blk fl) (relinkHead blk))"

definition relinkTail :: "nat \<Rightarrow> falru \<Rightarrow> falru res" where
  "relinkTail blk fl =
     bindR (fl_get (Some blk) fl) (\<lambda>b.
     bindR
       (if Some blk = head fl then
          checkR AssertFail (fb_prev b = None)
            (fl_upd (fb_next b) (\<lambda>c. c\<lparr>fb_prev := None\<rparr>) (fl\<lparr>head := fb_next b\<rparr>))
        else
          bindR (fl_upd (fb_prev b) (\<lambda>c. c\<lparr>fb_next := fb_next b\<rparr>) fl)
            (fl_upd (fb_next b) (\<lambda>c. c\<lparr>fb_prev := fb_prev b\<rparr>))) (\<lambda>fl.
     bindR (fl_upd (Some blk) (\<lambda>c. c\<lparr>fb_prev := tail fl, fb_next := None\<rparr>) fl) (\<lambda>fl.
     bindR (fl_upd (tail fl) (\<lambda>c. c\<lparr>fb_next := Some blk\<rparr>) fl) (\<lambda>fl.
     Inr (fl\<lparr>tail := Some blk\<rparr>)))))"

definition moveToTail :: "nat \<Rightarrow> falru \<Rightarrow> falru res" where
  "moveToTail blk fl =
     (if Some blk = tail fl then Inr fl else bindR (moveBlockToTail blk fl) (relinkTail blk))"

section \<open>Operations\<close>

text \<open>
  \<open>tagsInit\<close> writes the pointers of the first, the inner and the last block, in this order; a store of
  one block is outside its arrays.  \<open>setPosition\<close> gives every block set 0 and its index as the way; the
  blocks have no replacement data.
\<close>

definition fl_place :: "nat \<Rightarrow> nat option \<Rightarrow> nat option \<Rightarrow> falru \<Rightarrow> falru res" where
  "fl_place i p n fl =
     fl_upd (Some i) (\<lambda>b. b\<lparr>entry_set := 0, entry_way := of_nat i, fb_prev := p, fb_next := n\<rparr>) fl"

definition fl_tagsInit :: "falru \<Rightarrow> falru res" where
  "fl_tagsInit fl =
     (let n = fl_numBlocks fl in
      if n < 2 then Inl OutOfRange
      else
        bindR (fl_place 0 None (Some 1) (fl\<lparr>head := Some 0\<rparr>)) (\<lambda>fl.
        bindR (loopR (\<lambda>i. fl_place (i + 1) (Some i) (Some (i + 2))) (n - 2) fl) (\<lambda>fl.
        bindR (fl_place (n - 1) (Some (n - 2)) None (fl\<lparr>tail := Some (n - 1)\<rparr>))
        ct_init)))"

definition fl_extractTag :: "falru \<Rightarrow> addr \<Rightarrow> addr" where
  "fl_extractTag fl a = a AND NOT (ucast (fl_blkSize fl - 1))"

definition fl_findBlock :: "falru \<Rightarrow> lookup_key \<Rightarrow> nat option res" where
  "fl_findBlock fl key =
     (let t = fl_extractTag fl (key_address key); r = tagHash fl (t, key_secure key) in
      case r of
        None \<Rightarrow> Inr None
      | Some i \<Rightarrow>
          bindR (fl_get (Some i) fl) (\<lambda>b.
          if te_valid b
          then checkR AssertFail (te_tag b = t) (checkR AssertFail (te_secure b = key_secure key) (Inr (Some i)))
          else Inr (Some i)))"

definition fl_invalidate :: "nat \<Rightarrow> falru \<Rightarrow> falru res" where
  "fl_invalidate i fl =
     bindR (fl_get (Some i) fl) (\<lambda>b.
     let key = (te_tag b, te_secure b) in
     checkR AssertFail (tagHash fl key \<noteq> None)
       (bindR (base_invalidate (b, fl_stats fl)) (\<lambda>(b', st).
        moveToTail i
          (fl\<lparr>tagHash := (tagHash fl)(key := None), fl_blks := (fl_blks fl)[i := b'],
              fl_stats := st\<lparr>tagsInUse := tagsInUse st - 1\<rparr>\<rparr>))))"

text \<open>Besides the block, \<open>accessBlock\<close> returns the mask of the tracked caches that hold it.\<close>

definition fl_accessBlock :: "lookup_key \<Rightarrow> falru \<Rightarrow> (nat option \<times> uint32 \<times> falru) res" where
  "fl_accessBlock key fl =
     bindR (fl_findBlock fl key) (\<lambda>r.
     case r of
       None \<Rightarrow> Inr (None, 0, recordAccess None fl)
     | Some i \<Rightarrow>
         bindR (fl_get (Some i) fl) (\<lambda>b.
         bindR (if te_valid b then moveToHead i fl else Inr fl) (\<lambda>fl1.
         bindR (fl_get (Some i) fl1) (\<lambda>b1.
         Inr (Some i, if te_valid b then inCachesMask b else 0, recordAccess (Some b1) fl1)))))"

definition fl_findVictim :: "falru \<Rightarrow> nat option" where
  "fl_findVictim fl = tail fl"

text \<open>
  \<open>ext\<close> is the tag extractor registered in the blocks, \<open>None\<close> for the empty function object a block is
  created with.
\<close>

definition fl_insertBlock ::
  "(addr \<Rightarrow> addr) option \<Rightarrow> nat \<Rightarrow> tick \<Rightarrow> tag_packet \<Rightarrow> nat \<Rightarrow> falru \<Rightarrow> falru res" where
  "fl_insertBlock ext maxRequestors now pkt i fl =
     bindR (fl_get (Some i) fl) (\<lambda>b.
     checkR AssertFail (inCachesMask b = 0)
       (bindR
         (case ext of
            None \<Rightarrow> checkR AssertFail (\<not> te_valid b) (checkR AssertFail (tp_requestor pkt < maxRequestors) (Inl BadCall))
          | Some e \<Rightarrow> base_insertBlock e maxRequestors now pkt (fl_warmupBound fl) (b, fl_warmedUp fl, fl_stats fl))
         (\<lambda>(b', w, st).
        bindR (moveToHead i
          (fl\<lparr>fl_blks := (fl_blks fl)[i := b'], fl_warmedUp := w, fl_stats := st\<lparr>tagsInUse := tagsInUse st + 1\<rparr>\<rparr>))
          (\<lambda>fl1.
        Inr (fl1\<lparr>tagHash := (tagHash fl1)((te_tag b', te_secure b') := Some i)\<rparr>)))))"

definition fl_regenerateBlkAddr :: "falru_blk \<Rightarrow> addr" where
  "fl_regenerateBlkAddr b = te_tag b"

end
