(* ===== verification/Fa_Lru_List.thy ===== *)
theory Fa_Lru_List
  imports Fa_Lru
begin

unbundle bit_operations_syntax

text \<open>
  The linked list of the fully associative store as a mathematical list, most recently used block
  first: moving a block in the pointer structure moves it in the list, and the boundaries and masks of
  the tracked caches follow.
\<close>

section \<open>Neighbours and positions in a list\<close>

fun nxt_of :: "'a list \<Rightarrow> 'a \<Rightarrow> 'a option" where
  "nxt_of (x # y # zs) i = (if i = x then Some y else nxt_of (y # zs) i)"
| "nxt_of xs i = None"

definition prv_of :: "'a list \<Rightarrow> 'a \<Rightarrow> 'a option" where
  "prv_of xs i = nxt_of (rev xs) i"

fun pos_of :: "'a list \<Rightarrow> 'a \<Rightarrow> nat" where
  "pos_of [] j = 0"
| "pos_of (x # xs) j = (if x = j then 0 else Suc (pos_of xs j))"

lemma nxt_of_notin: "j \<notin> set xs \<Longrightarrow> nxt_of xs j = None"
  by (induction xs j rule: nxt_of.induct) auto

lemma nxt_of_append:
  "distinct (as @ bs) \<Longrightarrow> nxt_of (as @ bs) j =
     (if j \<in> set as then (if j = last as then (if bs = [] then None else Some (hd bs)) else nxt_of as j)
      else nxt_of bs j)"
proof (induction as)
  case (Cons a as)
  note IH = Cons
  show ?case
  proof (cases as)
    case Nil
    then show ?thesis by (cases bs) simp_all
  next
    case (Cons c cs)
    then have l: "last (a # as) = last as" "last as \<in> set as" "a \<notin> set as" using IH(2) by auto
    have "nxt_of (a # as @ bs) j = (if j = a then Some c else nxt_of (as @ bs) j)"
      "nxt_of (a # as) j = (if j = a then Some c else nxt_of as j)" using Cons by simp_all
    then show ?thesis using IH l by auto
  qed
qed simp

lemma prv_of_append:
  assumes "distinct (as @ bs)"
  shows "prv_of (as @ bs) j =
    (if j \<in> set bs then (if j = hd bs then (if as = [] then None else Some (last as)) else prv_of bs j)
     else prv_of as j)"
proof -
  have d: "distinct (rev bs @ rev as)" using assms by auto
  have "bs \<noteq> []" if "j \<in> set bs" using that by auto
  then show ?thesis unfolding prv_of_def rev_append nxt_of_append [OF d] by (auto simp: last_rev hd_rev)
qed

lemma nxt_of_Cons:
  assumes "distinct (a # bs)"
  shows "nxt_of (a # bs) j = (if j = a then (if bs = [] then None else Some (hd bs)) else nxt_of bs j)"
  using nxt_of_append [of "[a]" bs j] assms by simp

lemma prv_of_Cons:
  assumes "distinct (a # bs)"
  shows "prv_of (a # bs) j = (if j \<in> set bs then (if j = hd bs then Some a else prv_of bs j) else None)"
  using prv_of_append [of "[a]" bs j] assms by (simp add: prv_of_def)

lemma prv_of_notin: "j \<notin> set xs \<Longrightarrow> prv_of xs j = None"
  by (simp add: prv_of_def nxt_of_notin)

lemma nxt_of_nth:
  assumes "distinct xs" "Suc k < length xs"
  shows "nxt_of xs (xs ! k) = Some (xs ! Suc k)"
proof -
  have "xs = take (Suc k) xs @ drop (Suc k) xs" "distinct (take (Suc k) xs @ drop (Suc k) xs)" using assms by simp_all
  moreover have "last (take (Suc k) xs) = xs ! k" "xs ! k \<in> set (take (Suc k) xs)" "hd (drop (Suc k) xs) = xs ! Suc k"
    "drop (Suc k) xs \<noteq> []"
    using assms by (auto simp: take_Suc_conv_app_nth hd_drop_conv_nth)
  ultimately show ?thesis using nxt_of_append [of "take (Suc k) xs" "drop (Suc k) xs" "xs ! k"] by simp
qed

lemma prv_of_nth:
  assumes "distinct xs" "Suc k < length xs"
  shows "prv_of xs (xs ! Suc k) = Some (xs ! k)"
proof -
  let ?r = "length xs - Suc (Suc k)"
  have "rev xs ! ?r = xs ! Suc k" "rev xs ! Suc ?r = xs ! k" using assms by (simp_all add: rev_nth Suc_diff_Suc)
  then show ?thesis using nxt_of_nth [of "rev xs" ?r] assms by (simp add: prv_of_def)
qed

lemma pos_of_append: "pos_of (as @ bs) j = (if j \<in> set as then pos_of as j else length as + pos_of bs j)"
  by (induction as) auto

lemma pos_of_less: "j \<in> set xs \<Longrightarrow> pos_of xs j < length xs"
  by (induction xs) auto

lemma nth_pos_of: "j \<in> set xs \<Longrightarrow> xs ! pos_of xs j = j"
  by (induction xs) auto

lemma pos_of_nth: "distinct xs \<Longrightarrow> k < length xs \<Longrightarrow> pos_of xs (xs ! k) = k"
proof (induction xs arbitrary: k)
  case (Cons x xs)
  then show ?case by (cases k) auto
qed simp

section \<open>The pointer structure\<close>

definition linked :: "('a \<Rightarrow> 'a option) \<Rightarrow> ('a \<Rightarrow> 'a option) \<Rightarrow> 'a list \<Rightarrow> bool" where
  "linked N P xs \<longleftrightarrow> (\<forall>j \<in> set xs. N j = nxt_of xs j \<and> P j = prv_of xs j)"

definition first :: "'a list \<Rightarrow> 'a option" where
  "first xs = (if xs = [] then None else Some (hd xs))"

definition final :: "'a list \<Rightarrow> 'a option" where
  "final xs = (if xs = [] then None else Some (last xs))"

lemma linked_unlink:
  assumes "linked N P (as @ i # bs)" "distinct (as @ i # bs)"
    and "as \<noteq> [] \<Longrightarrow> N' (last as) = first bs" "\<And>j. j \<in> set (as @ bs) \<Longrightarrow> final as \<noteq> Some j \<Longrightarrow> N' j = N j"
    and "bs \<noteq> [] \<Longrightarrow> P' (hd bs) = final as" "\<And>j. j \<in> set (as @ bs) \<Longrightarrow> first bs \<noteq> Some j \<Longrightarrow> P' j = P j"
  shows "linked N' P' (as @ bs)"
proof -
  have d: "distinct (as @ bs)" "distinct (i # bs)" using assms(2) by auto
  have "N' j = nxt_of (as @ bs) j \<and> P' j = prv_of (as @ bs) j" if j: "j \<in> set (as @ bs)" for j
  proof
    have "N j = nxt_of (as @ i # bs) j" "P j = prv_of (as @ i # bs) j" using assms(1) j by (auto simp: linked_def)
    note N = this(1) [unfolded nxt_of_append [OF assms(2)] nxt_of_Cons [OF d(2)]]
      and P = this(2) [unfolded prv_of_append [OF assms(2)] prv_of_Cons [OF d(2)]]
    show "N' j = nxt_of (as @ bs) j"
      using N assms(2,3) assms(4) [OF j] j unfolding nxt_of_append [OF d(1)]
      by (cases "as = []") (auto simp: first_def final_def split: if_splits)
    show "P' j = prv_of (as @ bs) j"
      using P assms(2,5) assms(6) [OF j] j unfolding prv_of_append [OF d(1)]
      by (cases "bs = []") (auto simp: first_def final_def split: if_splits)
  qed
  then show ?thesis by (simp add: linked_def)
qed

lemma linked_cons:
  assumes "linked N P xs" "distinct (i # xs)" "xs \<noteq> []"
    and "N' i = Some (hd xs)" "P' i = None" "P' (hd xs) = Some i"
    and "\<And>j. j \<in> set xs \<Longrightarrow> N' j = N j" "\<And>j. j \<in> set xs \<Longrightarrow> j \<noteq> hd xs \<Longrightarrow> P' j = P j"
  shows "linked N' P' (i # xs)"
  using assms by (auto simp: linked_def nxt_of_Cons prv_of_Cons)

lemma linked_snoc:
  assumes "linked N P xs" "distinct (xs @ [i])" "xs \<noteq> []"
    and "P' i = Some (last xs)" "N' i = None" "N' (last xs) = Some i"
    and "\<And>j. j \<in> set xs \<Longrightarrow> P' j = P j" "\<And>j. j \<in> set xs \<Longrightarrow> j \<noteq> last xs \<Longrightarrow> N' j = N j"
  shows "linked N' P' (xs @ [i])"
proof -
  have "prv_of [i] j = None" for j by (simp add: prv_of_def)
  then show ?thesis using assms by (auto simp: linked_def nxt_of_append prv_of_append)
qed

definition links_of :: "falru \<Rightarrow> nat list \<Rightarrow> bool" where
  "links_of fl xs \<longleftrightarrow> linked (\<lambda>j. fb_next (fl_blks fl ! j)) (\<lambda>j. fb_prev (fl_blks fl ! j)) xs"

definition dll :: "falru \<Rightarrow> nat list \<Rightarrow> bool" where
  "dll fl xs \<longleftrightarrow> distinct xs \<and> xs \<noteq> [] \<and> (\<forall>i \<in> set xs. i < length (fl_blks fl)) \<and>
     head fl = Some (hd xs) \<and> tail fl = Some (last xs) \<and> links_of fl xs"

text \<open>Only the links differ.\<close>

definition same_links :: "falru_blk \<Rightarrow> falru_blk \<Rightarrow> bool" where
  "same_links b b' \<longleftrightarrow> (\<exists>p n. b' = b\<lparr>fb_prev := p, fb_next := n\<rparr>)"

definition relinked :: "falru \<Rightarrow> falru \<Rightarrow> bool" where
  "relinked fl fl' \<longleftrightarrow> list_all2 same_links (fl_blks fl) (fl_blks fl') \<and>
     fl' = fl\<lparr>fl_blks := fl_blks fl', head := head fl', tail := tail fl'\<rparr>"

lemma nth_upd: "xs[i := y] ! j = (if i = j \<and> j < length xs then y else xs ! j)"
  by (cases "i < length xs") (auto simp: nth_list_update list_update_beyond)

lemma fl_upd_ok [simp]:
  "i < length (fl_blks fl) \<Longrightarrow> fl_upd (Some i) f fl = Inr (fl\<lparr>fl_blks := (fl_blks fl)[i := f (fl_blks fl ! i)]\<rparr>)"
  by (simp add: fl_upd_def)

lemma fl_get_ok [simp]: "i < length (fl_blks fl) \<Longrightarrow> fl_get (Some i) fl = Inr (fl_blks fl ! i)"
  by (simp add: fl_get_def)

lemma same_links_refl: "same_links b b"
  unfolding same_links_def by (rule exI [of _ "fb_prev b"], rule exI [of _ "fb_next b"]) simp

lemma same_links_upd:
  "same_links b c \<Longrightarrow> same_links b (c\<lparr>fb_prev := p\<rparr>)" "same_links b c \<Longrightarrow> same_links b (c\<lparr>fb_next := n\<rparr>)"
  unfolding same_links_def by (cases b; cases c; auto)+

lemma all2_prev: "list_all2 same_links bs cs \<Longrightarrow> list_all2 same_links bs (cs[i := (cs ! i)\<lparr>fb_prev := p\<rparr>])"
  and all2_next: "list_all2 same_links bs cs \<Longrightarrow> list_all2 same_links bs (cs[i := (cs ! i)\<lparr>fb_next := n\<rparr>])"
  and all2_both: "list_all2 same_links bs cs \<Longrightarrow> list_all2 same_links bs (cs[i := (cs ! i)\<lparr>fb_next := n, fb_prev := p\<rparr>])"
  and all2_both': "list_all2 same_links bs cs \<Longrightarrow> list_all2 same_links bs (cs[i := (cs ! i)\<lparr>fb_prev := p, fb_next := n\<rparr>])"
  by (auto simp: list_all2_conv_all_nth nth_upd intro!: same_links_upd)

lemma falru_upd_order:
  "fl\<lparr>tail := t, fl_blks := b, head := h\<rparr> = fl\<lparr>fl_blks := b, head := h, tail := t\<rparr>"
  "fl\<lparr>head := h, fl_blks := b, tail := t\<rparr> = fl\<lparr>fl_blks := b, head := h, tail := t\<rparr>"
  by (cases fl; simp)+

lemma relinkHead_ok:
  assumes d: "dll fl (as @ i # bs)" and as: "as \<noteq> []"
  shows "\<exists>fl'. relinkHead i fl = Inr fl' \<and> dll fl' (i # as @ bs) \<and> relinked fl fl'"
proof -
  let ?B = "fl_blks fl" and ?h = "hd as" and ?p = "last as" and ?n = "hd bs"
  let ?B1 = "?B[?p := (?B ! ?p)\<lparr>fb_next := first bs\<rparr>]"
  let ?B2 = "if bs = [] then ?B1 else ?B1[?n := (?B1 ! ?n)\<lparr>fb_prev := Some ?p\<rparr>]"
  let ?B3 = "?B2[i := (?B2 ! i)\<lparr>fb_next := Some ?h, fb_prev := None\<rparr>]"
  let ?B4 = "?B3[?h := (?B3 ! ?h)\<lparr>fb_prev := Some i\<rparr>]"
  let ?fl' = "fl\<lparr>fl_blks := ?B4, head := Some i, tail := (if bs = [] then Some ?p else tail fl)\<rparr>"
  have dist: "distinct (as @ i # bs)" and rng: "\<forall>j \<in> set (as @ i # bs). j < length ?B"
    and ends: "head fl = Some ?h" "tail fl = Some (last (i # bs))" and l: "links_of fl (as @ i # bs)"
    using d as by (auto simp: dll_def)
  have mem: "?h \<in> set as" "?p \<in> set as" "bs \<noteq> [] \<Longrightarrow> ?n \<in> set bs \<and> last bs \<in> set bs" using as by simp_all
  have bi: "fb_next (?B ! i) = first bs" "fb_prev (?B ! i) = Some ?p"
    using l dist as by (auto simp: links_of_def linked_def nxt_of_append prv_of_append nxt_of_Cons first_def)
  have run: "relinkHead i fl = Inr ?fl'"
    using bi mem dist rng ends by (auto simp: relinkHead_def first_def falru_upd_order)
  have "linked (\<lambda>j. fb_next (?B2 ! j)) (\<lambda>j. fb_prev (?B2 ! j)) (as @ bs)"
    using l dist rng mem as unfolding links_of_def
    by (elim linked_unlink) (auto simp: nth_upd first_def final_def split: if_splits)
  then have "linked (\<lambda>j. fb_next (?B4 ! j)) (\<lambda>j. fb_prev (?B4 ! j)) (i # as @ bs)"
    by (rule linked_cons) (use dist rng mem as in \<open>auto simp: nth_upd\<close>)
  then have "dll ?fl' (i # as @ bs)" using dist rng as ends by (auto simp: dll_def links_of_def)
  moreover have "relinked fl ?fl'"
    by (auto simp: relinked_def intro!: all2_prev all2_next all2_both list_all2_refl same_links_refl)
  ultimately show ?thesis using run by blast
qed

lemma relinkTail_ok:
  assumes d: "dll fl (as @ i # bs)" and bs: "bs \<noteq> []"
  shows "\<exists>fl'. relinkTail i fl = Inr fl' \<and> dll fl' ((as @ bs) @ [i]) \<and> relinked fl fl'"
proof -
  let ?B = "fl_blks fl" and ?t = "last bs" and ?p = "last as" and ?n = "hd bs"
  let ?B1 = "if as = [] then ?B else ?B[?p := (?B ! ?p)\<lparr>fb_next := Some ?n\<rparr>]"
  let ?B2 = "?B1[?n := (?B1 ! ?n)\<lparr>fb_prev := final as\<rparr>]"
  let ?B3 = "?B2[i := (?B2 ! i)\<lparr>fb_prev := Some ?t, fb_next := None\<rparr>]"
  let ?B4 = "?B3[?t := (?B3 ! ?t)\<lparr>fb_next := Some i\<rparr>]"
  let ?fl' = "fl\<lparr>fl_blks := ?B4, head := (if as = [] then Some ?n else head fl), tail := Some i\<rparr>"
  have dist: "distinct (as @ i # bs)" and rng: "\<forall>j \<in> set (as @ i # bs). j < length ?B"
    and ends: "head fl = Some (hd (as @ [i]))" "tail fl = Some ?t" and l: "links_of fl (as @ i # bs)"
    using d bs by (auto simp: dll_def hd_append)
  have mem: "?n \<in> set bs" "?t \<in> set bs" "as \<noteq> [] \<Longrightarrow> ?p \<in> set as \<and> hd as \<in> set as" using bs by simp_all
  have bi: "fb_next (?B ! i) = Some ?n" "fb_prev (?B ! i) = final as"
    using l dist bs by (auto simp: links_of_def linked_def nxt_of_append prv_of_append nxt_of_Cons final_def)
  have run: "relinkTail i fl = Inr ?fl'"
    using bi mem dist rng ends by (auto simp: relinkTail_def final_def falru_upd_order hd_append)
  have "linked (\<lambda>j. fb_next (?B2 ! j)) (\<lambda>j. fb_prev (?B2 ! j)) (as @ bs)"
    using l dist rng mem bs unfolding links_of_def
    by (elim linked_unlink) (auto simp: nth_upd first_def final_def split: if_splits)
  then have "linked (\<lambda>j. fb_next (?B4 ! j)) (\<lambda>j. fb_prev (?B4 ! j)) ((as @ bs) @ [i])"
    by (rule linked_snoc) (use dist rng mem bs in \<open>auto simp: nth_upd\<close>)
  then have "dll ?fl' ((as @ bs) @ [i])" using dist rng bs ends by (auto simp: dll_def links_of_def hd_append)
  moreover have "relinked fl ?fl'"
    by (auto simp: relinked_def intro!: all2_prev all2_next all2_both all2_both' list_all2_refl same_links_refl)
  ultimately show ?thesis using run by blast
qed

section \<open>Boundaries and masks\<close>

text \<open>Only masks and boundaries differ.\<close>

definition same_mask :: "falru_blk \<Rightarrow> falru_blk \<Rightarrow> bool" where
  "same_mask b b' \<longleftrightarrow> (\<exists>m. b' = b\<lparr>inCachesMask := m\<rparr>)"

definition remasked :: "falru \<Rightarrow> falru \<Rightarrow> bool" where
  "remasked fl fl' \<longleftrightarrow> list_all2 same_mask (fl_blks fl) (fl_blks fl') \<and>
     fl' = fl\<lparr>fl_blks := fl_blks fl', boundaries := boundaries fl'\<rparr>"

text \<open>\<open>M\<close> describes the bits of the masks of the blocks in \<open>X\<close>, \<open>D\<close> the boundaries.\<close>

definition tracks :: "nat set \<Rightarrow> falru \<Rightarrow> (nat \<Rightarrow> nat \<Rightarrow> bool) \<Rightarrow> (nat \<Rightarrow> nat) \<Rightarrow> bool" where
  "tracks X fl M D \<longleftrightarrow> (\<forall>j \<in> X. j < length (fl_blks fl) \<and> (\<forall>k. bit (inCachesMask (fl_blks fl ! j)) k \<longleftrightarrow> M j k)) \<and>
     length (boundaries fl) = numTrackedCaches fl \<and> (\<forall>k < numTrackedCaches fl. boundaries fl ! k = Some (D k))"

lemma same_mask_refl: "same_mask b b"
  unfolding same_mask_def by (rule exI [of _ "inCachesMask b"]) simp

lemma remasked_refl: "remasked fl fl"
  by (simp add: remasked_def list_all2_refl same_mask_refl)

lemma remasked_upd:
  assumes "remasked fl fl1"
  shows "remasked fl (fl1\<lparr>fl_blks := (fl_blks fl1)[i := (fl_blks fl1 ! i)\<lparr>inCachesMask := m\<rparr>]\<rparr>)"
    and "remasked fl (fl1\<lparr>boundaries := bd\<rparr>)"
proof -
  have e: "fl1 = fl\<lparr>fl_blks := fl_blks fl1, boundaries := boundaries fl1\<rparr>" using assms by (simp add: remasked_def)
  have "same_mask b c \<Longrightarrow> same_mask b (c\<lparr>inCachesMask := m\<rparr>)" for b c by (auto simp: same_mask_def)
  then have "list_all2 same_mask (fl_blks fl) ((fl_blks fl1)[i := (fl_blks fl1 ! i)\<lparr>inCachesMask := m\<rparr>])"
    using assms by (auto simp: remasked_def list_all2_conv_all_nth nth_upd)
  then show "remasked fl (fl1\<lparr>fl_blks := (fl_blks fl1)[i := (fl_blks fl1 ! i)\<lparr>inCachesMask := m\<rparr>]\<rparr>)"
    using e by (cases fl; cases fl1) (auto simp: remasked_def)
  show "remasked fl (fl1\<lparr>boundaries := bd\<rparr>)"
    using assms e by (cases fl; cases fl1) (auto simp: remasked_def)
qed

lemma remasked_fields:
  assumes "remasked fl fl'"
  shows "numTrackedCaches fl' = numTrackedCaches fl" "inAllCachesMask fl' = inAllCachesMask fl" "head fl' = head fl"
    "tail fl' = tail fl" "minTrackedSize fl' = minTrackedSize fl" "fl_blkSize fl' = fl_blkSize fl" "length (fl_blks fl') = length (fl_blks fl)"
    "j < length (fl_blks fl) \<Longrightarrow> fb_next (fl_blks fl' ! j) = fb_next (fl_blks fl ! j)"
    "j < length (fl_blks fl) \<Longrightarrow> fb_prev (fl_blks fl' ! j) = fb_prev (fl_blks fl ! j)"
proof -
  have e: "fl' = fl\<lparr>fl_blks := fl_blks fl', boundaries := boundaries fl'\<rparr>" using assms by (simp add: remasked_def)
  show "numTrackedCaches fl' = numTrackedCaches fl" "inAllCachesMask fl' = inAllCachesMask fl" "head fl' = head fl"
    "tail fl' = tail fl" "minTrackedSize fl' = minTrackedSize fl" "fl_blkSize fl' = fl_blkSize fl" by (subst e; simp)+
  show "length (fl_blks fl') = length (fl_blks fl)"
    "j < length (fl_blks fl) \<Longrightarrow> fb_next (fl_blks fl' ! j) = fb_next (fl_blks fl ! j)"
    "j < length (fl_blks fl) \<Longrightarrow> fb_prev (fl_blks fl' ! j) = fb_prev (fl_blks fl ! j)"
    using assms by (auto simp: remasked_def list_all2_conv_all_nth same_mask_def)
qed

lemma current_mask: "push_bit i 1 AND u \<noteq> 0 \<longleftrightarrow> bit (u :: uint32) i"
  by (simp add: bit_iff_and_push_bit_not_eq_0 and.commute)

lemma bit_clear: "bit (w AND NOT (push_bit i 1)) k \<longleftrightarrow> bit (w :: uint32) k \<and> k \<noteq> i"
  by (auto simp: bit_simps dest: bit_imp_le_length)

lemma bit_raise: "bit (w OR push_bit i 1) k \<longleftrightarrow> bit (w :: uint32) k \<or> (k = i \<and> i < 32)"
  by (auto simp: bit_simps dest: bit_imp_le_length)

lemma tracks_mask_upd:
  assumes "tracks X fl M D" "\<And>k. bit m k \<longleftrightarrow> M' k"
  shows "tracks X (fl\<lparr>fl_blks := (fl_blks fl)[i := (fl_blks fl ! i)\<lparr>inCachesMask := m\<rparr>]\<rparr>) (M(i := M')) D"
  using assms by (auto simp: tracks_def nth_upd)

lemma tracks_bd_upd:
  "tracks X fl M D \<Longrightarrow> tracks X (fl\<lparr>boundaries := (boundaries fl)[i := Some d]\<rparr>) M (D(i := d))"
  by (auto simp: tracks_def nth_upd)

lemma tracks_cong:
  assumes "tracks X fl M D" "X = Y" "\<And>j k. j \<in> X \<Longrightarrow> M j k = M' j k" "\<And>k. k < numTrackedCaches fl \<Longrightarrow> D k = D' k"
  shows "tracks Y fl M' D'"
  using assms by (simp add: tracks_def)

lemma head_turn:
  assumes re: "remasked fl0 fl" and t: "tracks X fl M D" and i: "i < numTrackedCaches fl0" and blk: "blk \<in> X" "D i \<in> X"
    and q: "bit u i \<or> D i = blk \<Longrightarrow> fb_prev (fl_blks fl0 ! D i) = Some q"
  shows "\<exists>fl'. ct_head_turn blk u i fl = Inr fl' \<and> remasked fl0 fl' \<and>
    tracks X fl' (if bit u i then M(D i := (M (D i))(i := False)) else M) (if bit u i \<or> D i = blk then D(i := q) else D)"
proof -
  note F = remasked_fields [OF re]
  have bd: "boundaries fl ! i = Some (D i)" and len: "D i < length (fl_blks fl)" "blk < length (fl_blks fl)"
    using t i blk by (auto simp: tracks_def F)
  have q': "bit u i \<or> D i = blk \<Longrightarrow> fb_prev (fl_blks fl ! D i) = Some q" using q len(1) by (simp add: F)
  let ?c = "push_bit i 1 :: uint32"
  let ?fl1 = "fl\<lparr>fl_blks := (fl_blks fl)[D i := (fl_blks fl ! D i)\<lparr>inCachesMask := inCachesMask (fl_blks fl ! D i) AND NOT ?c\<rparr>]\<rparr>"
  show ?thesis
  proof (cases "bit u i")
    case True
    have "bit (inCachesMask (fl_blks fl ! D i) AND NOT ?c) k \<longleftrightarrow> ((M (D i))(i := False)) k" for k
      using t blk(2) by (auto simp: tracks_def bit_clear simp del: push_bit_of_1)
    then have "tracks X ?fl1 (M(D i := (M (D i))(i := False))) D" by (rule tracks_mask_upd [OF t])
    then have "tracks X (?fl1\<lparr>boundaries := (boundaries ?fl1)[i := Some q]\<rparr>) (M(D i := (M (D i))(i := False))) (D(i := q))"
      by (rule tracks_bd_upd)
    moreover have "ct_head_turn blk u i fl = Inr (?fl1\<lparr>boundaries := (boundaries ?fl1)[i := Some q]\<rparr>)"
      using True bd len q' by (simp add: ct_head_turn_def Let_def current_mask del: push_bit_of_1)
    moreover have "remasked fl0 (?fl1\<lparr>boundaries := (boundaries ?fl1)[i := Some q]\<rparr>)"
      by (rule remasked_upd(2) [OF remasked_upd(1) [OF re]])
    ultimately show ?thesis using True by auto
  next
    case False
    then show ?thesis using bd len q' t re remasked_upd(2) [OF re] tracks_bd_upd [OF t]
      by (auto simp: ct_head_turn_def Let_def current_mask simp del: push_bit_of_1)
  qed
qed

definition head_masks :: "(nat \<Rightarrow> bool) \<Rightarrow> (nat \<Rightarrow> nat \<Rightarrow> bool) \<Rightarrow> (nat \<Rightarrow> nat) \<Rightarrow> nat \<Rightarrow> nat \<Rightarrow> nat \<Rightarrow> bool" where
  "head_masks u M D n j k \<longleftrightarrow> M j k \<and> \<not> (k < n \<and> u k \<and> j = D k)"

definition head_bounds :: "(nat \<Rightarrow> bool) \<Rightarrow> (nat \<Rightarrow> nat) \<Rightarrow> nat \<Rightarrow> (nat \<Rightarrow> nat) \<Rightarrow> nat \<Rightarrow> nat \<Rightarrow> nat" where
  "head_bounds u D blk q n k = (if k < n \<and> (u k \<or> D k = blk) then q k else D k)"

lemma head_loop:
  assumes t: "tracks X fl M D" and blk: "blk \<in> X" "\<And>k. k < numTrackedCaches fl \<Longrightarrow> D k \<in> X"
    and q: "\<And>k. k < numTrackedCaches fl \<Longrightarrow> bit u k \<or> D k = blk \<Longrightarrow> fb_prev (fl_blks fl ! D k) = Some (q k)"
  shows "n \<le> numTrackedCaches fl \<Longrightarrow> \<exists>fl'. loopR (ct_head_turn blk u) n fl = Inr fl' \<and> remasked fl fl' \<and>
    tracks X fl' (head_masks (bit u) M D n) (head_bounds (bit u) D blk q n)"
proof (induction n)
  case 0
  have "head_masks (bit u) M D 0 = M" "head_bounds (bit u) D blk q 0 = D" by (auto simp: fun_eq_iff head_masks_def head_bounds_def)
  then show ?case using t remasked_refl by auto
next
  case (Suc n)
  let ?M = "head_masks (bit u) M D n" and ?D = "head_bounds (bit u) D blk q n"
  obtain fl' where fl': "loopR (ct_head_turn blk u) n fl = Inr fl'" "remasked fl fl'" "tracks X fl' ?M ?D"
    using Suc by auto
  have D: "?D n = D n" by (simp add: head_bounds_def)
  have n: "n < numTrackedCaches fl" using Suc.prems by simp
  have "\<exists>fl''. ct_head_turn blk u n fl' = Inr fl'' \<and> remasked fl fl'' \<and>
    tracks X fl'' (if bit u n then ?M(?D n := (?M (?D n))(n := False)) else ?M) (if bit u n \<or> ?D n = blk then ?D(n := q n) else ?D)"
    by (rule head_turn [OF fl'(2,3) n blk(1)]) (use blk(2) n q D in auto)
  moreover have "(if bit u n then ?M(?D n := (?M (?D n))(n := False)) else ?M) = head_masks (bit u) M D (Suc n)"
    by (auto simp: fun_eq_iff head_masks_def D less_Suc_eq)
  moreover have "(if bit u n \<or> ?D n = blk then ?D(n := q n) else ?D) = head_bounds (bit u) D blk q (Suc n)"
    by (auto simp: fun_eq_iff head_bounds_def less_Suc_eq)
  ultimately show ?case using fl'(1) by auto
qed

lemma tail_turn:
  assumes re: "remasked fl0 fl" and t: "tracks X fl M D" and i: "i < numTrackedCaches fl0" "i < 32"
    and D: "D i \<in> X" and q: "bit u i \<Longrightarrow> fb_next (fl_blks fl0 ! D i) = Some q \<and> q \<in> X \<and> q \<noteq> blk"
  shows "\<exists>fl'. ct_tail_turn blk u i fl = Inr fl' \<and> remasked fl0 fl' \<and>
    tracks X fl' (if bit u i then M(q := (M q)(i := True)) else M) (if bit u i then D(i := q) else D)"
proof -
  note F = remasked_fields [OF re]
  have bd: "boundaries fl ! i = Some (D i)" and len: "D i < length (fl_blks fl)"
    using t i D by (auto simp: tracks_def F)
  show ?thesis
  proof (cases "bit u i")
    case True
    then have q': "fb_next (fl_blks fl ! D i) = Some q" "q \<in> X" "q \<noteq> blk" using q len by (simp_all add: F)
    then have lq: "q < length (fl_blks fl)" using t by (auto simp: tracks_def)
    let ?c = "push_bit i 1 :: uint32" and ?fl1 = "fl\<lparr>boundaries := (boundaries fl)[i := Some q]\<rparr>"
    let ?fl2 = "?fl1\<lparr>fl_blks := (fl_blks ?fl1)[q := (fl_blks ?fl1 ! q)\<lparr>inCachesMask := inCachesMask (fl_blks fl ! q) OR ?c\<rparr>]\<rparr>"
    have "bit (inCachesMask (fl_blks fl ! q) OR ?c) k \<longleftrightarrow> ((M q)(i := True)) k" for k
      using t q'(2) i(2) by (auto simp: tracks_def bit_raise simp del: push_bit_of_1)
    then have "tracks X ?fl2 (M(q := (M q)(i := True))) (D(i := q))" by (rule tracks_mask_upd [OF tracks_bd_upd [OF t]])
    moreover have "ct_tail_turn blk u i fl = Inr ?fl2"
      using True bd len lq q' by (simp add: ct_tail_turn_def Let_def current_mask del: push_bit_of_1)
    moreover have "remasked fl0 ?fl2" by (rule remasked_upd(1) [OF remasked_upd(2) [OF re]])
    ultimately show ?thesis using True by auto
  next
    case False
    then show ?thesis using t re by (auto simp: ct_tail_turn_def Let_def current_mask simp del: push_bit_of_1)
  qed
qed

definition tail_masks :: "(nat \<Rightarrow> bool) \<Rightarrow> (nat \<Rightarrow> nat \<Rightarrow> bool) \<Rightarrow> (nat \<Rightarrow> nat) \<Rightarrow> nat \<Rightarrow> nat \<Rightarrow> nat \<Rightarrow> bool" where
  "tail_masks u M q n j k \<longleftrightarrow> M j k \<or> (k < n \<and> u k \<and> j = q k)"

definition tail_bounds :: "(nat \<Rightarrow> bool) \<Rightarrow> (nat \<Rightarrow> nat) \<Rightarrow> (nat \<Rightarrow> nat) \<Rightarrow> nat \<Rightarrow> nat \<Rightarrow> nat" where
  "tail_bounds u D q n k = (if k < n \<and> u k then q k else D k)"

lemma tail_loop:
  assumes t: "tracks X fl M D" and D: "\<And>k. k < numTrackedCaches fl \<Longrightarrow> D k \<in> X" and m: "numTrackedCaches fl \<le> 32"
    and q: "\<And>k. k < numTrackedCaches fl \<Longrightarrow> bit u k \<Longrightarrow> fb_next (fl_blks fl ! D k) = Some (q k) \<and> q k \<in> X \<and> q k \<noteq> blk"
  shows "n \<le> numTrackedCaches fl \<Longrightarrow> \<exists>fl'. loopR (ct_tail_turn blk u) n fl = Inr fl' \<and> remasked fl fl' \<and>
    tracks X fl' (tail_masks (bit u) M q n) (tail_bounds (bit u) D q n)"
proof (induction n)
  case 0
  have "tail_masks (bit u) M q 0 = M" "tail_bounds (bit u) D q 0 = D" by (auto simp: fun_eq_iff tail_masks_def tail_bounds_def)
  then show ?case using t remasked_refl by auto
next
  case (Suc n)
  let ?M = "tail_masks (bit u) M q n" and ?D = "tail_bounds (bit u) D q n"
  obtain fl' where fl': "loopR (ct_tail_turn blk u) n fl = Inr fl'" "remasked fl fl'" "tracks X fl' ?M ?D"
    using Suc by auto
  have n: "n < numTrackedCaches fl" "n < 32" and Dn: "?D n = D n" using Suc.prems m by (simp_all add: tail_bounds_def)
  have "\<exists>fl''. ct_tail_turn blk u n fl' = Inr fl'' \<and> remasked fl fl'' \<and>
    tracks X fl'' (if bit u n then ?M(q n := (?M (q n))(n := True)) else ?M) (if bit u n then ?D(n := q n) else ?D)"
    by (rule tail_turn [OF fl'(2,3) n]) (use D n q Dn in auto)
  moreover have "(if bit u n then ?M(q n := (?M (q n))(n := True)) else ?M) = tail_masks (bit u) M q (Suc n)"
    by (auto simp: fun_eq_iff tail_masks_def less_Suc_eq)
  moreover have "(if bit u n then ?D(n := q n) else ?D) = tail_bounds (bit u) D q (Suc n)"
    by (auto simp: fun_eq_iff tail_bounds_def less_Suc_eq)
  ultimately show ?case using fl'(1) by auto
qed

section \<open>The tracked caches\<close>

text \<open>The number of blocks of the \<open>k\<close>-th tracked cache.\<close>

definition csize :: "falru \<Rightarrow> nat \<Rightarrow> nat" where
  "csize fl k = unat (minTrackedSize fl) div unat (fl_blkSize fl) * 2 ^ k"

definition tracked :: "falru \<Rightarrow> nat list \<Rightarrow> bool" where
  "tracked fl xs \<longleftrightarrow> numTrackedCaches fl \<le> 32 \<and> inAllCachesMask fl = mask (numTrackedCaches fl) \<and>
     (\<forall>k < numTrackedCaches fl. 2 \<le> csize fl k \<and> csize fl k < length xs) \<and>
     tracks (set xs) fl (\<lambda>j k. k < numTrackedCaches fl \<and> pos_of xs j < csize fl k) (\<lambda>k. xs ! (csize fl k - 1))"

lemma remasked_csize: "remasked fl fl' \<Longrightarrow> csize fl' = csize fl"
  by (simp add: fun_eq_iff csize_def remasked_fields)

lemma remasked_dll: "remasked fl fl' \<Longrightarrow> dll fl xs \<Longrightarrow> dll fl' xs"
  by (auto simp: dll_def links_of_def linked_def remasked_fields)

lemma nth_eq_pos:
  "distinct xs \<Longrightarrow> j \<in> set xs \<Longrightarrow> k < length xs \<Longrightarrow> j = xs ! k \<longleftrightarrow> pos_of xs j = k"
  using nth_pos_of [of j xs] pos_of_nth [of xs k] by auto

lemma pos_of_move:
  assumes "distinct (as @ i # bs)" "j \<in> set (as @ i # bs)"
  shows "pos_of (as @ i # bs) j = (if j \<in> set as then pos_of as j else if j = i then length as else Suc (length as + pos_of bs j))"
    "pos_of (i # as @ bs) j = (if j \<in> set as then Suc (pos_of as j) else if j = i then 0 else Suc (length as + pos_of bs j))"
    "pos_of ((as @ bs) @ [i]) j = (if j \<in> set as then pos_of as j else if j = i then length as + length bs else length as + pos_of bs j)"
  using assms by (auto simp: pos_of_append)

lemma head_pos:
  assumes "distinct (as @ i # bs)" "j \<in> set (as @ i # bs)" "j \<noteq> i" "2 \<le> s" "s < length (as @ i # bs)"
  shows "pos_of (as @ i # bs) j < s \<and> \<not> (s \<le> length as \<and> j = (as @ i # bs) ! (s - 1)) \<longleftrightarrow> pos_of (i # as @ bs) j < s"
proof -
  have "j = (as @ i # bs) ! (s - 1) \<longleftrightarrow> pos_of (as @ i # bs) j = s - 1"
    by (rule nth_eq_pos) (use assms in auto)
  then show ?thesis unfolding pos_of_move [OF assms(1,2)] using assms(3,4) pos_of_less [of j as] by auto
qed

lemma head_nth:
  assumes "distinct (as @ i # bs)" "2 \<le> s" "s < length (as @ i # bs)"
  shows "(if s \<le> length as \<or> (as @ i # bs) ! (s - 1) = i then (as @ i # bs) ! (s - 2) else (as @ i # bs) ! (s - 1)) =
    (i # as @ bs) ! (s - 1)"
proof -
  have "i = (as @ i # bs) ! (s - 1) \<longleftrightarrow> pos_of (as @ i # bs) i = s - 1"
    by (rule nth_eq_pos) (use assms in auto)
  moreover have "pos_of (as @ i # bs) i = length as" using assms(1) by (simp add: pos_of_append)
  ultimately have e: "(as @ i # bs) ! (s - 1) = i \<longleftrightarrow> s - 1 = length as" by metis
  define s' where "s' = s - 2"
  have s: "s = Suc (Suc s')" using assms(2) by (simp add: s'_def)
  show ?thesis unfolding e unfolding s using assms(3) s by (auto simp: nth_append nth_Cons')
qed

lemma moveBlockToHead_ok:
  assumes d: "dll fl (as @ i # bs)" and t: "tracked fl (as @ i # bs)" and as: "as \<noteq> []"
  shows "\<exists>fl'. moveBlockToHead i fl = Inr fl' \<and> remasked fl fl' \<and> tracked fl' (i # as @ bs)"
proof -
  let ?xs = "as @ i # bs" and ?m = "numTrackedCaches fl" and ?a = "length as" and ?ys = "i # as @ bs"
  let ?M = "\<lambda>j k. k < ?m \<and> pos_of ?xs j < csize fl k" and ?D = "\<lambda>k. ?xs ! (csize fl k - 1)"
  have dist: "distinct ?xs" and li: "i < length (fl_blks fl)" using d by (auto simp: dll_def)
  have T: "?m \<le> 32" "inAllCachesMask fl = mask ?m" "tracks (set ?xs) fl ?M ?D"
    and sz: "\<And>k. k < ?m \<Longrightarrow> 2 \<le> csize fl k \<and> csize fl k < length ?xs"
    using t by (auto simp: tracked_def)
  have posi: "pos_of ?xs i = ?a" using dist by (auto simp: pos_of_append)
  define u where "u = inAllCachesMask fl XOR inCachesMask (fl_blks fl ! i)"
  have u: "bit u k \<longleftrightarrow> k < ?m \<and> csize fl k \<le> ?a" for k
    using T posi by (auto simp: u_def bit_xor_iff bit_mask_iff tracks_def)
  let ?q = "\<lambda>k. ?xs ! (csize fl k - 2)"
  have q: "fb_prev (fl_blks fl ! ?D k) = Some (?q k)" if "k < ?m" for k
  proof -
    have "Suc (csize fl k - 2) = csize fl k - 1" using sz [OF that] by arith
    moreover have "?D k \<in> set ?xs" by (rule nth_mem) (use sz [OF that] in arith)
    ultimately show ?thesis using d prv_of_nth [OF dist, of "csize fl k - 2"] sz [OF that]
      by (auto simp: dll_def links_of_def linked_def)
  qed
  have Dmem: "?D k \<in> set ?xs" if "k < ?m" for k by (rule nth_mem) (use sz [OF that] in arith)
  have "\<exists>fl1. loopR (ct_head_turn i u) ?m fl = Inr fl1 \<and> remasked fl fl1 \<and>
      tracks (set ?xs) fl1 (head_masks (bit u) ?M ?D ?m) (head_bounds (bit u) ?D i ?q ?m)"
    by (rule head_loop [OF T(3) _ Dmem q order_refl]) simp_all
  then obtain fl1 where fl1: "loopR (ct_head_turn i u) ?m fl = Inr fl1" "remasked fl fl1"
    "tracks (set ?xs) fl1 (head_masks (bit u) ?M ?D ?m) (head_bounds (bit u) ?D i ?q ?m)" by blast
  note F = remasked_fields [OF fl1(2)]
  define fl2 where "fl2 = fl1\<lparr>fl_blks := (fl_blks fl1)[i := (fl_blks fl1 ! i)\<lparr>inCachesMask := inAllCachesMask fl1\<rparr>]\<rparr>"
  have run: "moveBlockToHead i fl = Inr fl2"
    using li fl1(1) F by (simp add: moveBlockToHead_def u_def fl2_def)
  have re: "remasked fl fl2" unfolding fl2_def by (rule remasked_upd(1) [OF fl1(2)])
  have "tracks (set ?xs) fl2 ((head_masks (bit u) ?M ?D ?m)(i := (\<lambda>k. k < ?m))) (head_bounds (bit u) ?D i ?q ?m)"
    unfolding fl2_def by (rule tracks_mask_upd [OF fl1(3)]) (use T in \<open>auto simp: F bit_mask_iff\<close>)
  moreover have "((head_masks (bit u) ?M ?D ?m)(i := (\<lambda>k. k < ?m))) j k \<longleftrightarrow> k < ?m \<and> pos_of ?ys j < csize fl k"
    if j: "j \<in> set ?xs" for j k
    using head_pos [OF dist j] sz [of k] by (auto simp: head_masks_def u)
  moreover have "head_bounds (bit u) ?D i ?q ?m k = ?ys ! (csize fl k - 1)" if "k < ?m" for k
    using head_nth [OF dist, of "csize fl k"] sz [OF that] that by (simp only: head_bounds_def u simp_thms)
  ultimately have "tracks (set ?ys) fl2 (\<lambda>j k. k < ?m \<and> pos_of ?ys j < csize fl k) (\<lambda>k. ?ys ! (csize fl k - 1))"
    by (elim tracks_cong) (auto simp: fl2_def F)
  then have "tracked fl2 ?ys" using T sz re by (simp add: tracked_def remasked_csize remasked_fields)
  then show ?thesis using run re by blast
qed

lemma tail_pos:
  assumes "distinct (as @ i # bs)" "j \<in> set (as @ i # bs)" "j \<noteq> i" "s < length (as @ i # bs)"
  shows "pos_of (as @ i # bs) j < s \<or> (length as < s \<and> j = (as @ i # bs) ! s) \<longleftrightarrow> pos_of ((as @ bs) @ [i]) j < s"
proof -
  have "j = (as @ i # bs) ! s \<longleftrightarrow> pos_of (as @ i # bs) j = s"
    by (rule nth_eq_pos) (use assms in auto)
  then show ?thesis unfolding pos_of_move [OF assms(1,2)] using assms(3) pos_of_less [of j as] by auto
qed

lemma tail_nth:
  assumes "0 < s" "s < length (as @ i # bs)"
  shows "(if length as < s then (as @ i # bs) ! s else (as @ i # bs) ! (s - 1)) = ((as @ bs) @ [i]) ! (s - 1)"
proof -
  define s' where "s' = s - 1"
  have s: "s = Suc s'" using assms(1) by (simp add: s'_def)
  show ?thesis unfolding s using assms(2) s by (auto simp: nth_append nth_Cons' Suc_diff_le)
qed

lemma moveBlockToTail_ok:
  assumes d: "dll fl (as @ i # bs)" and t: "tracked fl (as @ i # bs)" and bs: "bs \<noteq> []"
  shows "\<exists>fl'. moveBlockToTail i fl = Inr fl' \<and> remasked fl fl' \<and> tracked fl' ((as @ bs) @ [i])"
proof -
  let ?xs = "as @ i # bs" and ?m = "numTrackedCaches fl" and ?a = "length as" and ?ys = "(as @ bs) @ [i]"
  let ?M = "\<lambda>j k. k < ?m \<and> pos_of ?xs j < csize fl k" and ?D = "\<lambda>k. ?xs ! (csize fl k - 1)"
  have dist: "distinct ?xs" and li: "i < length (fl_blks fl)" using d by (auto simp: dll_def)
  have T: "?m \<le> 32" "inAllCachesMask fl = mask ?m" "tracks (set ?xs) fl ?M ?D"
    and sz: "\<And>k. k < ?m \<Longrightarrow> 2 \<le> csize fl k \<and> csize fl k < length ?xs"
    using t by (auto simp: tracked_def)
  have posi: "pos_of ?xs i = ?a" using dist by (auto simp: pos_of_append)
  define u where "u = inCachesMask (fl_blks fl ! i)"
  have u: "bit u k \<longleftrightarrow> k < ?m \<and> ?a < csize fl k" for k using T posi by (auto simp: u_def tracks_def)
  let ?q = "\<lambda>k. ?xs ! csize fl k"
  have Dmem: "?D k \<in> set ?xs" if "k < ?m" for k by (rule nth_mem) (use sz [OF that] in arith)
  have q: "fb_next (fl_blks fl ! ?D k) = Some (?q k) \<and> ?q k \<in> set ?xs \<and> ?q k \<noteq> i" if "k < ?m" "bit u k" for k
  proof -
    have "Suc (csize fl k - 1) = csize fl k" using sz [OF that(1)] by arith
    then have "fb_next (fl_blks fl ! ?D k) = Some (?q k)"
      using d nxt_of_nth [OF dist, of "csize fl k - 1"] sz [OF that(1)] Dmem [OF that(1)]
      by (auto simp: dll_def links_of_def linked_def)
    moreover have "?q k \<noteq> i" using nth_eq_pos [OF dist, of i "csize fl k"] posi sz [OF that(1)] that u by auto
    ultimately show ?thesis using sz [OF that(1)] nth_mem by blast
  qed
  have "\<exists>fl1. loopR (ct_tail_turn i u) ?m fl = Inr fl1 \<and> remasked fl fl1 \<and>
      tracks (set ?xs) fl1 (tail_masks (bit u) ?M ?q ?m) (tail_bounds (bit u) ?D ?q ?m)"
    by (rule tail_loop [OF T(3) Dmem T(1) q order_refl])
  then obtain fl1 where fl1: "loopR (ct_tail_turn i u) ?m fl = Inr fl1" "remasked fl fl1"
    "tracks (set ?xs) fl1 (tail_masks (bit u) ?M ?q ?m) (tail_bounds (bit u) ?D ?q ?m)" by blast
  note F = remasked_fields [OF fl1(2)]
  define fl2 where "fl2 = fl1\<lparr>fl_blks := (fl_blks fl1)[i := (fl_blks fl1 ! i)\<lparr>inCachesMask := 0\<rparr>]\<rparr>"
  have run: "moveBlockToTail i fl = Inr fl2"
    using li fl1(1) F by (simp add: moveBlockToTail_def u_def fl2_def)
  have re: "remasked fl fl2" unfolding fl2_def by (rule remasked_upd(1) [OF fl1(2)])
  have "tracks (set ?xs) fl2 ((tail_masks (bit u) ?M ?q ?m)(i := (\<lambda>k. False))) (tail_bounds (bit u) ?D ?q ?m)"
    unfolding fl2_def by (rule tracks_mask_upd [OF fl1(3)]) simp
  moreover have "((tail_masks (bit u) ?M ?q ?m)(i := (\<lambda>k. False))) j k \<longleftrightarrow> k < ?m \<and> pos_of ?ys j < csize fl k"
    if j: "j \<in> set ?xs" for j k
  proof (cases "j = i")
    case True
    have "pos_of ?ys i = ?a + length bs" using dist by (auto simp: pos_of_append)
    then show ?thesis using True sz [of k] by auto
  next
    case False
    then show ?thesis using tail_pos [OF dist j False, of "csize fl k"] sz [of k] by (auto simp: tail_masks_def u)
  qed
  moreover have "tail_bounds (bit u) ?D ?q ?m k = ?ys ! (csize fl k - 1)" if "k < ?m" for k
    using tail_nth [of "csize fl k" as i bs] sz [OF that] that by (simp only: tail_bounds_def u simp_thms) simp
  ultimately have "tracks (set ?ys) fl2 (\<lambda>j k. k < ?m \<and> pos_of ?ys j < csize fl k) (\<lambda>k. ?ys ! (csize fl k - 1))"
    by (elim tracks_cong) (auto simp: fl2_def F)
  then have "tracked fl2 ?ys" using T sz re by (simp add: tracked_def remasked_csize remasked_fields)
  then show ?thesis using run re by blast
qed

section \<open>Moving a block\<close>

definition lru_list :: "falru \<Rightarrow> nat list \<Rightarrow> bool" where
  "lru_list fl xs \<longleftrightarrow> dll fl xs \<and> tracked fl xs"

text \<open>Links, masks, boundaries and the ends of the list may differ, nothing else.\<close>

definition same_data :: "falru_blk \<Rightarrow> falru_blk \<Rightarrow> bool" where
  "same_data b b' \<longleftrightarrow> (\<exists>p n m. b' = b\<lparr>fb_prev := p, fb_next := n, inCachesMask := m\<rparr>)"

definition moved :: "falru \<Rightarrow> falru \<Rightarrow> bool" where
  "moved fl fl' \<longleftrightarrow> list_all2 same_data (fl_blks fl) (fl_blks fl') \<and>
     fl' = fl\<lparr>fl_blks := fl_blks fl', head := head fl', tail := tail fl', boundaries := boundaries fl'\<rparr>"

lemma same_data_refl: "same_data b b"
  unfolding same_data_def by (cases b) auto

lemma moved_refl: "moved fl fl"
  by (simp add: moved_def list_all2_refl same_data_refl)

lemma same_mask_links: "same_mask b c \<Longrightarrow> same_links c e \<Longrightarrow> same_data b e"
  unfolding same_mask_def same_links_def same_data_def by (cases b) auto

lemma remasked_relinked:
  assumes "remasked fl fl1" "relinked fl1 fl2"
  shows "moved fl fl2"
proof -
  have "list_all2 same_data (fl_blks fl) (fl_blks fl2)"
    using assms same_mask_links unfolding remasked_def relinked_def list_all2_conv_all_nth by metis
  moreover have "fl1 = fl\<lparr>fl_blks := fl_blks fl1, boundaries := boundaries fl1\<rparr>"
    "fl2 = fl1\<lparr>fl_blks := fl_blks fl2, head := head fl2, tail := tail fl2\<rparr>"
    using assms by (auto simp: remasked_def relinked_def)
  ultimately show ?thesis by (cases fl; cases fl1; cases fl2) (auto simp: moved_def)
qed

lemma relinked_tracked:
  assumes "relinked fl fl'" "tracked fl xs"
  shows "tracked fl' xs"
proof -
  have e: "fl' = fl\<lparr>fl_blks := fl_blks fl', head := head fl', tail := tail fl'\<rparr>" using assms(1) by (simp add: relinked_def)
  have f: "numTrackedCaches fl' = numTrackedCaches fl" "inAllCachesMask fl' = inAllCachesMask fl"
    "boundaries fl' = boundaries fl" "minTrackedSize fl' = minTrackedSize fl" "fl_blkSize fl' = fl_blkSize fl"
    by (subst e; simp)+
  have m: "length (fl_blks fl') = length (fl_blks fl)"
    "j < length (fl_blks fl) \<Longrightarrow> inCachesMask (fl_blks fl' ! j) = inCachesMask (fl_blks fl ! j)" for j
    using assms(1) by (auto simp: relinked_def list_all2_conv_all_nth same_links_def)
  have "csize fl' = csize fl" by (simp add: fun_eq_iff csize_def f)
  then show ?thesis using assms(2) by (simp add: tracked_def tracks_def f m)
qed

lemma moveToHead_ok:
  assumes "lru_list fl xs" "i \<in> set xs"
  shows "\<exists>fl'. moveToHead i fl = Inr fl' \<and> lru_list fl' (i # remove1 i xs) \<and> moved fl fl'"
proof (cases "i = hd xs")
  case True
  then have "i # remove1 i xs = xs" using assms(2) by (cases xs) auto
  then show ?thesis using True assms moved_refl by (auto simp: moveToHead_def lru_list_def dll_def)
next
  case False
  obtain as bs where xs: "xs = as @ i # bs" using assms(2) by (meson split_list)
  then have as: "as \<noteq> []" using False by auto
  have d: "dll fl (as @ i # bs)" and t: "tracked fl (as @ i # bs)" using assms(1) xs by (auto simp: lru_list_def)
  obtain fl1 where fl1: "moveBlockToHead i fl = Inr fl1" "remasked fl fl1" "tracked fl1 (i # as @ bs)"
    using moveBlockToHead_ok [OF d t as] by blast
  obtain fl2 where fl2: "relinkHead i fl1 = Inr fl2" "dll fl2 (i # as @ bs)" "relinked fl1 fl2"
    using relinkHead_ok [OF remasked_dll [OF fl1(2) d] as] by blast
  have "i \<notin> set as" using d by (auto simp: dll_def)
  then have "remove1 i xs = as @ bs" by (simp add: xs remove1_append)
  moreover have "tracked fl2 (i # as @ bs)" by (rule relinked_tracked [OF fl2(3) fl1(3)])
  moreover have "Some i \<noteq> head fl" using d as False xs by (auto simp: dll_def)
  ultimately show ?thesis using fl1 fl2 remasked_relinked by (auto simp: moveToHead_def lru_list_def)
qed

lemma moveToTail_ok:
  assumes "lru_list fl xs" "i \<in> set xs"
  shows "\<exists>fl'. moveToTail i fl = Inr fl' \<and> lru_list fl' (remove1 i xs @ [i]) \<and> moved fl fl'"
proof (cases "i = last xs")
  case True
  have "distinct xs" "xs \<noteq> []" using assms by (auto simp: lru_list_def dll_def)
  then obtain ys where "xs = ys @ [i]" "i \<notin> set ys" using True
    by (metis append_butlast_last_id distinct_append insert_disjoint(2) list.simps(15) disjoint_insert(1))
  then have "remove1 i xs @ [i] = xs" by (simp add: remove1_append)
  then show ?thesis using True assms moved_refl by (auto simp: moveToTail_def lru_list_def dll_def)
next
  case False
  obtain as bs where xs: "xs = as @ i # bs" using assms(2) by (meson split_list)
  then have bs: "bs \<noteq> []" using False by auto
  have d: "dll fl (as @ i # bs)" and t: "tracked fl (as @ i # bs)" using assms(1) xs by (auto simp: lru_list_def)
  obtain fl1 where fl1: "moveBlockToTail i fl = Inr fl1" "remasked fl fl1" "tracked fl1 ((as @ bs) @ [i])"
    using moveBlockToTail_ok [OF d t bs] by blast
  obtain fl2 where fl2: "relinkTail i fl1 = Inr fl2" "dll fl2 ((as @ bs) @ [i])" "relinked fl1 fl2"
    using relinkTail_ok [OF remasked_dll [OF fl1(2) d] bs] by blast
  have "i \<notin> set as" using d by (auto simp: dll_def)
  then have "remove1 i xs = as @ bs" by (simp add: xs remove1_append)
  moreover have "tracked fl2 ((as @ bs) @ [i])" by (rule relinked_tracked [OF fl2(3) fl1(3)])
  moreover have "Some i \<noteq> tail fl" using d bs False xs by (auto simp: dll_def)
  ultimately show ?thesis using fl1 fl2 remasked_relinked by (auto simp: moveToTail_def lru_list_def)
qed

end
