(* ===== verification/Fa_Lru_Run.thy ===== *)
theory Fa_Lru_Run
  imports Fa_Lru_List
begin

unbundle bit_operations_syntax

text \<open>
  The fully associative store at work: its operations on the abstract list of cached lines, most
  recent first, and the comparison of the tracked caches with LRU caches of their size.
\<close>

section \<open>The LRU cache as a specification\<close>

text \<open>An LRU cache of \<open>n\<close> blocks is the list of its lines; a use puts the line in front.\<close>

definition lru_use :: "nat \<Rightarrow> 'a \<Rightarrow> 'a list \<Rightarrow> 'a list" where
  "lru_use n x L = take n (x # remove1 x L)"

definition lru_state :: "nat \<Rightarrow> 'a list \<Rightarrow> 'a list" where
  "lru_state n xs = fold (lru_use n) xs []"

lemma lru_use_distinct: "distinct L \<Longrightarrow> distinct (lru_use n x L)"
  by (auto simp: lru_use_def intro: distinct_take)

text \<open>The inclusion property: a smaller LRU cache holds the front of a larger one.\<close>

lemma take_remove1: "distinct L \<Longrightarrow> take n (remove1 x L) = take n (remove1 x (take (Suc n) L))"
proof (induction L arbitrary: n)
  case (Cons a L)
  then show ?case by (cases n) (auto simp: remove1_idem dest: in_set_takeD)
qed simp

lemma take_lru_use:
  assumes "distinct L" "0 < s" "s \<le> n"
  shows "take s (lru_use n x L) = lru_use s x (take s L)"
proof (cases s)
  case (Suc s')
  then show ?thesis using assms take_remove1 [of L s' x] by (simp add: lru_use_def min_def)
qed (use assms in simp)

lemma lru_fold:
  assumes "distinct L" "0 < s" "s \<le> n"
  shows "distinct (fold (lru_use n) xs L) \<and> take s (fold (lru_use n) xs L) = fold (lru_use s) xs (take s L)"
  using assms(1)
proof (induction xs arbitrary: L)
  case (Cons x xs)
  then show ?case using take_lru_use [OF Cons.prems assms(2,3), of x] lru_use_distinct [OF Cons.prems] by simp
qed simp

lemma lru_inclusion: "0 < s \<Longrightarrow> s \<le> n \<Longrightarrow> take s (lru_state n xs) = lru_state s xs"
  using lru_fold [of "[]" s n xs] by (simp add: lru_state_def)

section \<open>The abstract content\<close>

definition line_of :: "falru_blk \<Rightarrow> addr \<times> bool" where
  "line_of b = (te_tag b, te_secure b)"

definition lines :: "falru \<Rightarrow> nat list \<Rightarrow> (addr \<times> bool) list" where
  "lines fl vs = map (\<lambda>i. line_of (fl_blks fl ! i)) vs"

text \<open>The list consists of valid blocks with distinct lines, followed by invalid ones.\<close>

definition content :: "falru \<Rightarrow> nat list \<Rightarrow> nat list \<Rightarrow> bool" where
  "content fl vs us \<longleftrightarrow> distinct (lines fl vs) \<and> (\<forall>i \<in> set vs. te_valid (fl_blks fl ! i)) \<and>
     (\<forall>i \<in> set us. \<not> te_valid (fl_blks fl ! i) \<and> \<not> te_secure (fl_blks fl ! i)) \<and>
     (\<forall>key i. tagHash fl key = Some i \<longleftrightarrow> i \<in> set vs \<and> line_of (fl_blks fl ! i) = key)"

definition holds :: "falru \<Rightarrow> nat list \<Rightarrow> nat list \<Rightarrow> bool" where
  "holds fl vs us \<longleftrightarrow> lru_list fl (vs @ us) \<and> content fl vs us"

lemma content_hash:
  "content fl vs us \<Longrightarrow> tagHash fl key = Some i \<longleftrightarrow> i \<in> set vs \<and> line_of (fl_blks fl ! i) = key"
  by (simp add: content_def del: split_paired_All)

lemma same_data_simps:
  "same_data b b' \<Longrightarrow> te_valid b' = te_valid b \<and> te_secure b' = te_secure b \<and> te_tag b' = te_tag b \<and> line_of b' = line_of b"
  by (auto simp: same_data_def line_of_def)

lemma moved_fields:
  assumes "moved fl fl'"
  shows "tagHash fl' = tagHash fl" "numTrackedCaches fl' = numTrackedCaches fl" "minTrackedSize fl' = minTrackedSize fl"
    "fl_blkSize fl' = fl_blkSize fl" "hits fl' = hits fl" "csize fl' = csize fl"
    "length (fl_blks fl') = length (fl_blks fl)"
    "i < length (fl_blks fl) \<Longrightarrow> same_data (fl_blks fl ! i) (fl_blks fl' ! i)"
proof -
  have e: "fl' = fl\<lparr>fl_blks := fl_blks fl', head := head fl', tail := tail fl', boundaries := boundaries fl'\<rparr>"
    using assms by (simp add: moved_def)
  show f: "tagHash fl' = tagHash fl" "numTrackedCaches fl' = numTrackedCaches fl" "minTrackedSize fl' = minTrackedSize fl"
    "fl_blkSize fl' = fl_blkSize fl" "hits fl' = hits fl" by (subst e; simp)+
  show "csize fl' = csize fl" by (simp add: fun_eq_iff csize_def f)
  show "length (fl_blks fl') = length (fl_blks fl)"
    "i < length (fl_blks fl) \<Longrightarrow> same_data (fl_blks fl ! i) (fl_blks fl' ! i)"
    using assms by (auto simp: moved_def list_all2_conv_all_nth)
qed

lemma lru_list_range: "lru_list fl xs \<Longrightarrow> i \<in> set xs \<Longrightarrow> i < length (fl_blks fl)"
  by (simp add: lru_list_def dll_def)

lemma lru_list_distinct: "lru_list fl xs \<Longrightarrow> distinct xs"
  by (simp add: lru_list_def dll_def)

lemma moved_lines:
  assumes "moved fl fl'" "\<forall>i \<in> set vs. i < length (fl_blks fl)"
  shows "lines fl' vs = lines fl vs"
  using assms(2) moved_fields(8) [OF assms(1)] same_data_simps by (auto simp: lines_def)

lemma moved_content:
  assumes c: "content fl vs us" and m: "moved fl fl'" and rng: "\<forall>i \<in> set vs \<union> set us. i < length (fl_blks fl)"
    and "set vs' = set vs" "distinct vs'" "set us' = set us"
  shows "content fl' vs' us'"
proof -
  have b: "i \<in> set vs \<union> set us \<Longrightarrow> te_valid (fl_blks fl' ! i) = te_valid (fl_blks fl ! i) \<and>
      te_secure (fl_blks fl' ! i) = te_secure (fl_blks fl ! i) \<and> line_of (fl_blks fl' ! i) = line_of (fl_blks fl ! i)" for i
    using moved_fields(8) [OF m] rng same_data_simps by blast
  have "inj_on (\<lambda>i. line_of (fl_blks fl ! i)) (set vs)" using c by (auto simp: content_def lines_def distinct_map)
  then have "inj_on (\<lambda>i. line_of (fl_blks fl' ! i)) (set vs')"
    using assms(4) b by (simp add: inj_on_def)
  then show ?thesis using assms b moved_fields(1) [OF m] by (auto simp: content_def lines_def distinct_map)
qed

lemma lines_remove1:
  assumes "distinct (lines fl vs)" "i \<in> set vs"
  shows "lines fl (remove1 i vs) = remove1 (line_of (fl_blks fl ! i)) (lines fl vs)"
  using assms by (induction vs) (auto simp: lines_def rev_image_eqI)

lemma holds_range:
  assumes "holds fl vs us"
  shows "\<forall>i \<in> set vs \<union> set us. i < length (fl_blks fl)" "distinct (vs @ us)"
  using assms lru_list_range [of fl "vs @ us"] lru_list_distinct [of fl "vs @ us"] by (auto simp: holds_def)

lemma holds_head:
  assumes h: "holds fl vs us" and i: "i \<in> set vs"
  shows "\<exists>fl'. moveToHead i fl = Inr fl' \<and> holds fl' (i # remove1 i vs) us \<and> moved fl fl'"
proof -
  obtain fl' where fl': "moveToHead i fl = Inr fl'" "lru_list fl' (i # remove1 i (vs @ us))" "moved fl fl'"
    using moveToHead_ok [of fl "vs @ us" i] h i by (auto simp: holds_def)
  have e: "i # remove1 i (vs @ us) = (i # remove1 i vs) @ us" using i by (simp add: remove1_append)
  have "content fl' (i # remove1 i vs) us"
    by (rule moved_content [OF _ fl'(3)]) (use h i holds_range [OF h] in \<open>auto simp: holds_def\<close>)
  then show ?thesis using fl' e by (auto simp: holds_def)
qed

lemma more_fields:
  "cache_blk.more b = cache_blk.more c \<Longrightarrow> fb_prev b = fb_prev c \<and> fb_next b = fb_next c \<and> inCachesMask b = inCachesMask c"
  by (cases b; cases c) simp

text \<open>Filling or emptying a block changes neither the list nor the tracked caches.\<close>

definition fl_put :: "nat \<Rightarrow> falru_blk \<Rightarrow> (addr \<times> bool \<Rightarrow> nat option) \<Rightarrow> bool \<Rightarrow> tag_stats \<Rightarrow> falru \<Rightarrow> falru" where
  "fl_put i b H w st fl = fl\<lparr>tagHash := H, fl_blks := (fl_blks fl)[i := b], fl_warmedUp := w, fl_stats := st\<rparr>"

lemma fl_put_simps [simp]:
  "numTrackedCaches (fl_put i b H w st fl) = numTrackedCaches fl" "inAllCachesMask (fl_put i b H w st fl) = inAllCachesMask fl"
  "boundaries (fl_put i b H w st fl) = boundaries fl" "head (fl_put i b H w st fl) = head fl"
  "tail (fl_put i b H w st fl) = tail fl" "csize (fl_put i b H w st fl) = csize fl" "tagHash (fl_put i b H w st fl) = H"
  "fl_blks (fl_put i b H w st fl) = (fl_blks fl)[i := b]" "fl_blkSize (fl_put i b H w st fl) = fl_blkSize fl"
  "hits (fl_put i b H w st fl) = hits fl"
  by (simp_all add: fl_put_def csize_def fun_eq_iff)

lemma fl_put_list:
  assumes "lru_list fl xs" "cache_blk.more b = cache_blk.more (fl_blks fl ! i)"
  shows "lru_list (fl_put i b H w st fl) xs"
  using assms(1) more_fields [OF assms(2)]
  by (auto simp: lru_list_def dll_def links_of_def linked_def tracked_def tracks_def nth_upd)

lemma lines_cong: "(\<And>i. i \<in> set vs \<Longrightarrow> line_of (fl_blks fl' ! i) = line_of (fl_blks fl ! i)) \<Longrightarrow> lines fl' vs = lines fl vs"
  by (simp add: lines_def)

lemma invalidate_holds:
  assumes h: "holds fl vs us" and i: "i \<in> set vs"
  shows "\<exists>fl'. fl_invalidate i fl = Inr fl' \<and> holds fl' (remove1 i vs) (us @ [i]) \<and>
    lines fl' (remove1 i vs) = lines fl (remove1 i vs) \<and> fl_blkSize fl' = fl_blkSize fl \<and>
    numTrackedCaches fl' = numTrackedCaches fl \<and> csize fl' = csize fl \<and> hits fl' = hits fl"
proof -
  let ?b = "fl_blks fl ! i"
  have list: "lru_list fl (vs @ us)" and v: "te_valid ?b" and hash: "tagHash fl (te_tag ?b, te_secure ?b) = Some i"
    and dl: "distinct (lines fl vs)" and c: "content fl vs us"
    using h i by (auto simp: holds_def content_def line_of_def)
  have len: "i < length (fl_blks fl)" using holds_range(1) [OF h] i by blast
  obtain st where st: "base_invalidate (?b, fl_stats fl) = Inr (blk_invalidate ?b, st)" using base_invalidate_ok [OF v] by blast
  define H where "H = (tagHash fl)((te_tag ?b, te_secure ?b) := None)"
  define fl1 where "fl1 = fl_put i (blk_invalidate ?b) H (fl_warmedUp fl) (st\<lparr>tagsInUse := tagsInUse st - 1\<rparr>) fl"
  have run: "fl_invalidate i fl = moveToTail i fl1"
    using len hash st by (simp add: fl_invalidate_def fl1_def fl_put_def H_def Let_def)
  have "lru_list fl1 (vs @ us)" unfolding fl1_def by (rule fl_put_list [OF list]) simp
  then obtain fl2 where fl2: "moveToTail i fl1 = Inr fl2" "lru_list fl2 (remove1 i (vs @ us) @ [i])" "moved fl1 fl2"
    using moveToTail_ok [of fl1 "vs @ us" i] i by auto
  have e: "remove1 i (vs @ us) @ [i] = remove1 i vs @ us @ [i]" using i by (simp add: remove1_append)
  have blk: "fl_blks fl1 ! j = (if j = i then blk_invalidate ?b else fl_blks fl ! j)" for j using len by (simp add: fl1_def nth_upd)
  have vs: "set (remove1 i vs) = set vs - {i}" "i \<notin> set us" "distinct (remove1 i vs)" using holds_range(2) [OF h] i by auto
  have l1: "lines fl1 (remove1 i vs) = lines fl (remove1 i vs)" by (rule lines_cong) (use vs in \<open>auto simp: blk\<close>)
  have inj: "inj_on (\<lambda>j. line_of (fl_blks fl ! j)) (set vs)" using dl by (simp add: lines_def distinct_map)
  have "tagHash fl1 key = Some j \<longleftrightarrow> j \<in> set (remove1 i vs) \<and> line_of (fl_blks fl1 ! j) = key" for key j
  proof -
    have "tagHash fl1 = (tagHash fl)(line_of ?b := None)" by (simp add: fl1_def H_def line_of_def)
    then show ?thesis using inj i content_hash [OF c, of key j] by (auto simp: vs(1) blk inj_on_def)
  qed
  moreover have "distinct (lines fl1 (remove1 i vs))" unfolding l1 lines_remove1 [OF dl i] using dl by simp
  ultimately have "content fl1 (remove1 i vs) (us @ [i])" using c vs by (auto simp: content_def blk)
  then have "content fl2 (remove1 i vs) (us @ [i])"
    by (rule moved_content [OF _ fl2(3)]) (use holds_range [OF h] vs len in \<open>auto simp: fl1_def\<close>)
  moreover have "lines fl2 (remove1 i vs) = lines fl1 (remove1 i vs)"
    by (rule moved_lines [OF fl2(3)]) (use holds_range [OF h] vs in \<open>auto simp: fl1_def\<close>)
  ultimately show ?thesis using run fl2 e l1 moved_fields [OF fl2(3)] by (auto simp: holds_def fl1_def)
qed

text \<open>Inserting into the last block of the list, which is what \<open>findVictim\<close> returns.\<close>

lemma insert_holds:
  assumes h: "holds fl vs (us @ [i])" and ext: "ext = Some (fl_extractTag fl)"
    and key: "key = (fl_extractTag fl (key_address (tp_key pkt)), key_secure (tp_key pkt))" "key \<notin> set (lines fl vs)"
    and req: "tp_requestor pkt < maxRequestors"
  shows "\<exists>fl'. fl_insertBlock ext maxRequestors now pkt i fl = Inr fl' \<and> holds fl' (i # vs) us \<and>
    lines fl' (i # vs) = key # lines fl vs \<and> fl_blkSize fl' = fl_blkSize fl \<and>
    numTrackedCaches fl' = numTrackedCaches fl \<and> csize fl' = csize fl \<and> hits fl' = hits fl"
proof -
  let ?b = "fl_blks fl ! i"
  have list: "lru_list fl (vs @ us @ [i])" and v: "\<not> te_valid ?b" "\<not> te_secure ?b" and c: "content fl vs (us @ [i])"
    and dl: "distinct (lines fl vs)"
    using h by (auto simp: holds_def content_def)
  have len: "i < length (fl_blks fl)" using holds_range(1) [OF h] by auto
  have d: "i \<notin> set vs" "i \<notin> set us" using holds_range(2) [OF h] by auto
  have mask0: "inCachesMask ?b = 0"
  proof -
    have "pos_of (vs @ us @ [i]) i = length (vs @ us)" using d by (simp add: pos_of_append)
    then have "\<not> bit (inCachesMask ?b) k" for k
      using list by (auto simp: lru_list_def tracked_def tracks_def)
    then show ?thesis by (simp add: bit_eq_iff)
  qed
  obtain b w st where b: "base_insertBlock (fl_extractTag fl) maxRequestors now pkt (fl_warmupBound fl)
      (?b, fl_warmedUp fl, fl_stats fl) = Inr (b, w, st)"
    and b': "te_valid b" "line_of b = key" "cache_blk.more b = cache_blk.more ?b"
    using base_insertBlock_ok [OF v req, of "fl_extractTag fl" now "fl_warmupBound fl" "fl_warmedUp fl" "fl_stats fl"] key(1)
    by (auto simp: line_of_def)
  define fl1 where "fl1 = fl_put i b (tagHash fl) w (st\<lparr>tagsInUse := tagsInUse st + 1\<rparr>) fl"
  have "lru_list fl1 (vs @ us @ [i])" unfolding fl1_def by (rule fl_put_list [OF list b'(3)])
  then obtain fl2 where fl2: "moveToHead i fl1 = Inr fl2" "lru_list fl2 (i # remove1 i (vs @ us @ [i]))" "moved fl1 fl2"
    using moveToHead_ok [of fl1 "vs @ us @ [i]" i] by auto
  define fl3 where "fl3 = fl2\<lparr>tagHash := (tagHash fl2)(key := Some i)\<rparr>"
  have e: "i # remove1 i (vs @ us @ [i]) = (i # vs) @ us" using d by (simp add: remove1_append)
  have run: "fl_insertBlock ext maxRequestors now pkt i fl = Inr fl3"
    using len mask0 b fl2(1) b'(2) by (simp add: fl_insertBlock_def ext fl1_def fl_put_def fl3_def line_of_def)
  have blk: "fl_blks fl1 ! j = (if j = i then b else fl_blks fl ! j)" for j using len by (simp add: fl1_def nth_upd)
  have b2: "te_valid (fl_blks fl2 ! j) = te_valid (fl_blks fl1 ! j) \<and> te_secure (fl_blks fl2 ! j) = te_secure (fl_blks fl1 ! j) \<and>
      line_of (fl_blks fl2 ! j) = line_of (fl_blks fl1 ! j)" if "j \<in> set (vs @ us @ [i])" for j
  proof -
    have "j < length (fl_blks fl1)" using holds_range(1) [OF h] that by (auto simp: fl1_def)
    then show ?thesis using same_data_simps [OF moved_fields(8) [OF fl2(3)]] by simp
  qed
  have l3: "lines fl3 (i # vs) = key # lines fl vs"
    using b2 b'(2) d by (auto simp: lines_def fl3_def blk)
  have "tagHash fl3 k = Some j \<longleftrightarrow> j \<in> set (i # vs) \<and> line_of (fl_blks fl3 ! j) = k" for k j
  proof -
    have "tagHash fl3 = (tagHash fl)(key := Some i)" using moved_fields(1) [OF fl2(3)] by (simp add: fl3_def fl1_def)
    moreover have "j \<in> set (i # vs) \<Longrightarrow> line_of (fl_blks fl3 ! j) = (if j = i then key else line_of (fl_blks fl ! j))"
      using b2 b'(2) by (auto simp: fl3_def blk)
    moreover have "\<And>j. j \<in> set vs \<Longrightarrow> line_of (fl_blks fl ! j) \<noteq> key" using key(2) by (auto simp: lines_def)
    ultimately show ?thesis using content_hash [OF c, of k j] d by (cases "j = i"; cases "k = key") auto
  qed
  moreover have "distinct (lines fl3 (i # vs))" using l3 dl key(2) by simp
  ultimately have "content fl3 (i # vs) us" using c b2 b'(1) d by (auto simp: content_def fl3_def blk)
  moreover have "lru_list fl3 ((i # vs) @ us)"
    using fl2(2) e by (auto simp: fl3_def lru_list_def dll_def links_of_def tracked_def tracks_def csize_def)
  moreover have "fl_blkSize fl3 = fl_blkSize fl \<and> numTrackedCaches fl3 = numTrackedCaches fl \<and> csize fl3 = csize fl \<and> hits fl3 = hits fl"
    using moved_fields [OF fl2(3)] by (auto simp: fl3_def fl1_def csize_def fun_eq_iff)
  ultimately show ?thesis using run l3 by (auto simp: holds_def)
qed

section \<open>Using a line\<close>

definition key_line :: "falru \<Rightarrow> lookup_key \<Rightarrow> addr \<times> bool" where
  "key_line fl key = (fl_extractTag fl (key_address key), key_secure key)"

lemma findBlock_hit:
  assumes "holds fl vs us" "i \<in> set vs" "line_of (fl_blks fl ! i) = key_line fl key"
  shows "fl_findBlock fl key = Inr (Some i)"
proof -
  have "tagHash fl (key_line fl key) = Some i" using assms content_hash [of fl vs us "key_line fl key" i] by (auto simp: holds_def)
  then show ?thesis using assms holds_range(1) [OF assms(1)] by (auto simp: fl_findBlock_def key_line_def line_of_def Let_def)
qed

lemma findBlock_miss:
  assumes "holds fl vs us" "key_line fl key \<notin> set (lines fl vs)"
  shows "fl_findBlock fl key = Inr None"
proof -
  have "tagHash fl (key_line fl key) \<noteq> Some i" for i
  proof -
    have "i \<in> set vs \<Longrightarrow> line_of (fl_blks fl ! i) \<in> set (lines fl vs)" by (simp add: lines_def)
    then show ?thesis using assms content_hash [of fl vs us "key_line fl key" i] by (auto simp: holds_def)
  qed
  then have "tagHash fl (key_line fl key) = None" by (cases "tagHash fl (key_line fl key)") auto
  then show ?thesis by (simp add: fl_findBlock_def key_line_def Let_def)
qed

text \<open>The counters of the tracked caches all count alike.\<close>

definition alike :: "falru \<Rightarrow> bool" where
  "alike fl \<longleftrightarrow> length (hits fl) = Suc (numTrackedCaches fl) \<and> (\<forall>k < numTrackedCaches fl. hits fl ! k = hits fl ! numTrackedCaches fl)"

text \<open>What \<open>recordAccess\<close> leaves alone.\<close>

definition counted :: "falru \<Rightarrow> falru \<Rightarrow> bool" where
  "counted fl fl' \<longleftrightarrow> (\<exists>h m a. fl' = fl\<lparr>hits := h, misses := m, accesses := a\<rparr>)"

lemma counted_refl: "counted fl fl"
  unfolding counted_def by (cases fl) auto

lemma counted_upd:
  "counted fl fl' \<Longrightarrow> counted fl (fl'\<lparr>hits := h\<rparr>)" "counted fl fl' \<Longrightarrow> counted fl (fl'\<lparr>misses := m\<rparr>)"
  "counted fl fl' \<Longrightarrow> counted fl (fl'\<lparr>accesses := a\<rparr>)"
  unfolding counted_def by (cases fl; auto)+

lemma record_loop:
  assumes "n \<le> length (hits fl)"
  shows "counted fl (fold (record_turn blk) [0..<n] fl) \<and> length (hits (fold (record_turn blk) [0..<n] fl)) = length (hits fl) \<and>
    (\<forall>k < length (hits fl). hits (fold (record_turn blk) [0..<n] fl) ! k =
      hits fl ! k + (if k < n \<and> (case blk of None \<Rightarrow> False | Some b \<Rightarrow> bit (inCachesMask b) k) then 1 else 0))"
  using assms
proof (induction n)
  case (Suc n)
  then show ?case
    by (auto simp: record_turn_def current_mask nth_upd less_Suc_eq simp del: push_bit_of_1 intro: counted_upd split: option.splits)
qed (simp add: counted_refl)

lemma recordAccess_ok:
  assumes "alike fl" and "\<And>b k. blk = Some b \<Longrightarrow> te_valid b \<and> (k < numTrackedCaches fl \<longrightarrow> bit (inCachesMask b) k)"
  shows "counted fl (recordAccess blk fl) \<and> alike (recordAccess blk fl)"
proof -
  let ?m = "numTrackedCaches fl"
  let ?fl1 = "fold (record_turn blk) [0..<?m] fl"
  have r: "counted fl ?fl1" "length (hits ?fl1) = length (hits fl)" "\<And>k. k < length (hits fl) \<Longrightarrow> hits ?fl1 ! k =
      hits fl ! k + (if k < ?m \<and> (case blk of None \<Rightarrow> False | Some b \<Rightarrow> bit (inCachesMask b) k) then 1 else 0)"
    using record_loop [of ?m fl blk] assms(1) by (auto simp: alike_def)
  have m: "numTrackedCaches ?fl1 = ?m" using r(1) by (auto simp: counted_def)
  show ?thesis using assms r m
    by (cases blk) (auto simp: recordAccess_def Let_def alike_def nth_upd intro: counted_upd)
qed

lemma counted_holds:
  assumes "counted fl fl'"
  shows "holds fl' vs us = holds fl vs us" "lines fl' vs = lines fl vs" "numTrackedCaches fl' = numTrackedCaches fl"
    "csize fl' = csize fl" "fl_blkSize fl' = fl_blkSize fl" "tail fl' = tail fl" "fl_blks fl' = fl_blks fl"
proof -
  obtain h m a where e: "fl' = fl\<lparr>hits := h, misses := m, accesses := a\<rparr>" using assms by (auto simp: counted_def)
  show c: "csize fl' = csize fl" by (simp add: e csize_def fun_eq_iff)
  have "lru_list fl' (vs @ us) = lru_list fl (vs @ us)"
    unfolding lru_list_def tracked_def c by (simp add: e dll_def links_of_def tracks_def)
  moreover have "content fl' vs us = content fl vs us" unfolding content_def lines_def by (simp add: e)
  ultimately show "holds fl' vs us = holds fl vs us" by (simp add: holds_def)
  show "lines fl' vs = lines fl vs" "numTrackedCaches fl' = numTrackedCaches fl" "fl_blkSize fl' = fl_blkSize fl"
    "tail fl' = tail fl" "fl_blks fl' = fl_blks fl" by (simp_all add: e lines_def)
qed

text \<open>
  An access and, on a miss, the insertion of the line in the place of the victim, which is invalidated
  first if it is valid.  The result tells whether the line was found and in which tracked caches.
\<close>

definition fl_use ::
  "(addr \<Rightarrow> addr) option \<Rightarrow> nat \<Rightarrow> tick \<Rightarrow> tag_packet \<Rightarrow> falru \<Rightarrow> ((bool \<times> uint32) \<times> falru) res" where
  "fl_use ext maxRequestors now pkt fl =
     bindR (fl_accessBlock (tp_key pkt) fl) (\<lambda>(r, in_mask, fl1).
     case r of
       Some i \<Rightarrow> Inr ((True, in_mask), fl1)
     | None \<Rightarrow>
         case fl_findVictim fl1 of
           None \<Rightarrow> Inl NullDeref
         | Some v \<Rightarrow>
             bindR (fl_get (Some v) fl1) (\<lambda>b.
             bindR (if te_valid b then fl_invalidate v fl1 else Inr fl1) (\<lambda>fl2.
             bindR (fl_insertBlock ext maxRequestors now pkt v fl2) (\<lambda>fl3.
             Inr ((False, in_mask), fl3)))))"

lemma in_take_pos: "distinct xs \<Longrightarrow> i \<in> set xs \<Longrightarrow> i \<in> set (take s xs) \<longleftrightarrow> pos_of xs i < s"
proof (induction xs arbitrary: s)
  case (Cons x xs)
  then show ?case by (cases s) (auto dest: in_set_takeD)
qed simp

lemma mask_lines:
  assumes h: "holds fl vs us" and i: "i \<in> set vs" and k: "k < numTrackedCaches fl"
  shows "bit (inCachesMask (fl_blks fl ! i)) k \<longleftrightarrow> line_of (fl_blks fl ! i) \<in> set (take (csize fl k) (lines fl vs))"
proof -
  let ?f = "\<lambda>i. line_of (fl_blks fl ! i)"
  have "bit (inCachesMask (fl_blks fl ! i)) k \<longleftrightarrow> pos_of vs i < csize fl k"
    using h i k by (auto simp: holds_def lru_list_def tracked_def tracks_def pos_of_append)
  also have "\<dots> \<longleftrightarrow> i \<in> set (take (csize fl k) vs)" using holds_range(2) [OF h] i by (simp add: in_take_pos)
  also have "\<dots> \<longleftrightarrow> ?f i \<in> set (take (csize fl k) (lines fl vs))"
  proof -
    have "inj_on ?f (set vs)" using h by (auto simp: holds_def content_def lines_def distinct_map)
    then have "?f i \<in> ?f ` set (take (csize fl k) vs) \<longleftrightarrow> i \<in> set (take (csize fl k) vs)"
      using i by (meson inj_on_image_mem_iff set_take_subset)
    then show ?thesis by (simp add: lines_def take_map)
  qed
  finally show ?thesis .
qed

lemma use_hit:
  assumes h: "holds fl vs us" and a: "alike fl" and key: "key_line fl (tp_key pkt) \<in> set (lines fl vs)"
  shows "\<exists>m fl' vs'. fl_use ext maxRequestors now pkt fl = Inr ((True, m), fl') \<and> holds fl' vs' us \<and> alike fl' \<and>
    lines fl' vs' = key_line fl (tp_key pkt) # remove1 (key_line fl (tp_key pkt)) (lines fl vs) \<and> length vs' = length vs \<and>
    fl_blkSize fl' = fl_blkSize fl \<and> numTrackedCaches fl' = numTrackedCaches fl \<and> csize fl' = csize fl \<and>
    (\<forall>k < numTrackedCaches fl. bit m k \<longleftrightarrow> key_line fl (tp_key pkt) \<in> set (take (csize fl k) (lines fl vs)))"
proof -
  obtain i where i: "i \<in> set vs" "line_of (fl_blks fl ! i) = key_line fl (tp_key pkt)" using key by (auto simp: lines_def)
  have dl: "distinct (lines fl vs)" and v: "te_valid (fl_blks fl ! i)" using h i by (auto simp: holds_def content_def)
  have len: "i < length (fl_blks fl)" using holds_range(1) [OF h] i by blast
  obtain fl1 where fl1: "moveToHead i fl = Inr fl1" "holds fl1 (i # remove1 i vs) us" "moved fl fl1"
    using holds_head [OF h i(1)] by blast
  note F = moved_fields [OF fl1(3)]
  let ?b = "fl_blks fl1 ! i" and ?fl2 = "recordAccess (Some (fl_blks fl1 ! i)) fl1"
  have "te_valid ?b" using same_data_simps [OF F(8) [OF len]] v by simp
  moreover have "bit (inCachesMask ?b) k" if "k < numTrackedCaches fl1" for k
    using fl1(2) that by (auto simp: holds_def lru_list_def tracked_def tracks_def)
  moreover have "alike fl1" using a by (simp add: alike_def F)
  ultimately have c: "counted fl1 ?fl2" "alike ?fl2" using recordAccess_ok [of fl1 "Some ?b"] by auto
  have run: "fl_use ext maxRequestors now pkt fl = Inr ((True, inCachesMask (fl_blks fl ! i)), ?fl2)"
    using findBlock_hit [OF h i] len v fl1(1) F(7) by (simp add: fl_use_def fl_accessBlock_def)
  have "lines fl1 (i # remove1 i vs) = lines fl (i # remove1 i vs)"
    by (rule moved_lines [OF fl1(3)]) (use holds_range(1) [OF h] i set_remove1_subset [of i vs] in auto)
  also have "\<dots> = key_line fl (tp_key pkt) # remove1 (key_line fl (tp_key pkt)) (lines fl vs)"
    using lines_remove1 [OF dl i(1)] i(2) by (simp add: lines_def)
  finally have l: "lines ?fl2 (i # remove1 i vs) = \<dots>" using counted_holds(2) [OF c(1)] by simp
  have "length (i # remove1 i vs) = length vs" using i(1) by (simp add: length_remove1)
      (metis Suc_pred length_pos_if_in_set)
  moreover have "holds ?fl2 (i # remove1 i vs) us" using fl1(2) counted_holds(1) [OF c(1)] by simp
  ultimately show ?thesis
    using run l c(2) mask_lines [OF h i(1)] i(2) F counted_holds [OF c(1)] by (intro exI conjI) (assumption | auto)+
qed

lemma use_miss:
  assumes h: "holds fl vs us" and a: "alike fl" and key: "key_line fl (tp_key pkt) \<notin> set (lines fl vs)"
    and ext: "ext = Some (fl_extractTag fl)" and req: "tp_requestor pkt < maxRequestors"
  shows "\<exists>fl' vs' us'. fl_use ext maxRequestors now pkt fl = Inr ((False, 0), fl') \<and> holds fl' vs' us' \<and> alike fl' \<and>
    lines fl' vs' = take (length (vs @ us)) (key_line fl (tp_key pkt) # lines fl vs) \<and> length (vs' @ us') = length (vs @ us) \<and>
    fl_blkSize fl' = fl_blkSize fl \<and> numTrackedCaches fl' = numTrackedCaches fl \<and> csize fl' = csize fl"
proof -
  let ?fl1 = "recordAccess None fl" and ?key = "key_line fl (tp_key pkt)"
  have c: "counted fl ?fl1" "alike ?fl1" using recordAccess_ok [OF a, of None] by auto
  note C = counted_holds [OF c(1)]
  have h1: "holds ?fl1 vs us" using h C by simp
  have acc: "fl_accessBlock (tp_key pkt) fl = Inr (None, 0, ?fl1)"
    using findBlock_miss [OF h key] by (simp add: fl_accessBlock_def)
  define v where "v = last (vs @ us)"
  have ne: "vs @ us \<noteq> []" and tl: "fl_findVictim ?fl1 = Some v"
    using h1 by (auto simp: holds_def lru_list_def dll_def fl_findVictim_def v_def)
  have len: "v < length (fl_blks ?fl1)"
    using holds_range(1) [OF h1] last_in_set [OF ne] by (auto simp: v_def simp del: last_append)
  have "\<exists>fl2 vs2 us2. (if te_valid (fl_blks ?fl1 ! v) then fl_invalidate v ?fl1 else Inr ?fl1) = Inr fl2 \<and>
      holds fl2 vs2 (us2 @ [v]) \<and> ?key # lines fl2 vs2 = take (length (vs @ us)) (?key # lines fl vs) \<and>
      length vs2 + length us2 + 1 = length (vs @ us) \<and> fl_blkSize fl2 = fl_blkSize fl \<and>
      numTrackedCaches fl2 = numTrackedCaches fl \<and> csize fl2 = csize fl \<and> hits fl2 = hits ?fl1"
  proof (cases "us = []")
    case True
    then have vs: "vs \<noteq> []" "v = last vs" "v \<in> set vs" using ne by (auto simp: v_def)
    have d: "distinct vs" using holds_range(2) [OF h] by simp
    obtain ws where ws: "vs = ws @ [v]" using vs by (metis append_butlast_last_id)
    then have bl: "remove1 v vs = butlast vs" using d by (simp add: remove1_append)
    obtain fl2 where fl2: "fl_invalidate v ?fl1 = Inr fl2" "holds fl2 (butlast vs) [v]" "lines fl2 (butlast vs) = lines ?fl1 (butlast vs)"
      "fl_blkSize fl2 = fl_blkSize ?fl1" "numTrackedCaches fl2 = numTrackedCaches ?fl1" "csize fl2 = csize ?fl1" "hits fl2 = hits ?fl1"
      using invalidate_holds [OF h1 vs(3)] True bl by auto
    moreover have "te_valid (fl_blks ?fl1 ! v)" using h1 vs(3) by (auto simp: holds_def content_def)
    moreover have "lines ?fl1 (butlast vs) = take (length vs - 1) (lines fl vs)"
      by (simp add: lines_def C(7) take_map butlast_conv_take)
    moreover obtain n where "length vs = Suc n" using vs(1) by (cases vs) auto
    ultimately show ?thesis using True C by (intro exI [of _ fl2] exI [of _ "butlast vs"] exI [of _ "[]"]) simp
  next
    case False
    then obtain us0 where us: "us = us0 @ [v]" by (metis append_butlast_last_id last_append v_def)
    have "\<not> te_valid (fl_blks ?fl1 ! v)" using h1 us by (auto simp: holds_def content_def)
    then show ?thesis using h1 us C by (intro exI [of _ ?fl1] exI [of _ vs] exI [of _ us0]) (simp add: lines_def)
  qed
  then obtain fl2 vs2 us2 where 2: "(if te_valid (fl_blks ?fl1 ! v) then fl_invalidate v ?fl1 else Inr ?fl1) = Inr fl2"
    "holds fl2 vs2 (us2 @ [v])" "?key # lines fl2 vs2 = take (length (vs @ us)) (?key # lines fl vs)"
    "length vs2 + length us2 + 1 = length (vs @ us)" "fl_blkSize fl2 = fl_blkSize fl"
    "numTrackedCaches fl2 = numTrackedCaches fl" "csize fl2 = csize fl" "hits fl2 = hits ?fl1" by blast
  have e: "fl_extractTag fl2 = fl_extractTag fl" using 2(5) by (simp add: fun_eq_iff fl_extractTag_def)
  have "set (lines fl2 vs2) \<subseteq> set (lines fl vs)"
    using 2(3) by (cases "length (vs @ us)") (auto dest: in_set_takeD)
  then have "?key \<notin> set (lines fl2 vs2)" using key by blast
  moreover have "?key = (fl_extractTag fl2 (key_address (tp_key pkt)), key_secure (tp_key pkt))" by (simp add: key_line_def e)
  ultimately obtain fl3 where 3: "fl_insertBlock ext maxRequestors now pkt v fl2 = Inr fl3" "holds fl3 (v # vs2) us2"
    "lines fl3 (v # vs2) = ?key # lines fl2 vs2" "fl_blkSize fl3 = fl_blkSize fl2"
    "numTrackedCaches fl3 = numTrackedCaches fl2" "csize fl3 = csize fl2" "hits fl3 = hits fl2"
    using insert_holds [OF 2(2), of ext ?key pkt maxRequestors now] ext req e by auto
  have "fl_use ext maxRequestors now pkt fl = Inr ((False, 0), fl3)"
    using acc tl len 2(1) 3(1) by (simp add: fl_use_def)
  moreover have "alike fl3" using c(2) 2(6,8) 3(5,7) C(3) by (simp add: alike_def)
  ultimately show ?thesis using 2 3 by (intro exI [of _ fl3] exI [of _ "v # vs2"] exI [of _ us2]) auto
qed

end
