(* ===== verification/Fa_Lru_Track.thy ===== *)
theory Fa_Lru_Track
  imports Fa_Lru_Run
begin

unbundle bit_operations_syntax

text \<open>
  The fully associative store from its construction on: \<open>tagsInit\<close> builds the list and the tracked
  caches, and every use of a line afterwards tells exactly which LRU caches of the tracked sizes would
  hold it.
\<close>

section \<open>Building the list\<close>

definition placed :: "nat \<Rightarrow> falru \<Rightarrow> falru \<Rightarrow> bool" where
  "placed p fl0 fl \<longleftrightarrow> length (fl_blks fl) = fl_numBlocks fl0 \<and>
     fl = fl0\<lparr>fl_blks := fl_blks fl, head := head fl, tail := tail fl\<rparr> \<and>
     (\<forall>i < fl_numBlocks fl0. \<not> te_valid (fl_blks fl ! i) \<and> \<not> te_secure (fl_blks fl ! i) \<and> inCachesMask (fl_blks fl ! i) = 0) \<and>
     (\<forall>i < p. fb_prev (fl_blks fl ! i) = (if i = 0 then None else Some (i - 1)) \<and>
              fb_next (fl_blks fl ! i) = (if Suc i < fl_numBlocks fl0 then Some (Suc i) else None))"

lemma placed_step:
  assumes "placed p fl0 fl" "p < fl_numBlocks fl0" "pr = (if p = 0 then None else Some (p - 1))"
    "nx = (if Suc p < fl_numBlocks fl0 then Some (Suc p) else None)"
  shows "\<exists>fl'. fl_place p pr nx fl = Inr fl' \<and> placed (Suc p) fl0 fl' \<and> head fl' = head fl \<and> tail fl' = tail fl"
proof -
  have len: "p < length (fl_blks fl)" using assms by (simp add: placed_def)
  let ?fl' = "fl\<lparr>fl_blks := (fl_blks fl)[p := (fl_blks fl ! p)\<lparr>entry_set := 0, entry_way := of_nat p, fb_prev := pr, fb_next := nx\<rparr>]\<rparr>"
  have "fl = fl0\<lparr>fl_blks := fl_blks fl, head := head fl, tail := tail fl\<rparr>" using assms(1) by (simp add: placed_def)
  then have "?fl' = fl0\<lparr>fl_blks := fl_blks ?fl', head := head ?fl', tail := tail ?fl'\<rparr>"
    by (cases fl0; cases fl) simp
  then have "placed (Suc p) fl0 ?fl'"
    using assms len unfolding placed_def by (simp add: nth_upd less_Suc_eq)
  then show ?thesis using len by (simp add: fl_place_def)
qed

lemma placed_ends: "placed p fl0 fl \<Longrightarrow> placed p fl0 (fl\<lparr>head := h\<rparr>)" "placed p fl0 fl \<Longrightarrow> placed p fl0 (fl\<lparr>tail := t\<rparr>)"
  by (cases fl0; cases fl; simp add: placed_def)+

lemma place_loop:
  assumes "placed 1 fl0 fl" "n \<le> fl_numBlocks fl0 - 2"
  shows "\<exists>fl'. loopR (\<lambda>i. fl_place (i + 1) (Some i) (Some (i + 2))) n fl = Inr fl' \<and> placed (Suc n) fl0 fl' \<and>
    head fl' = head fl \<and> tail fl' = tail fl"
  using assms(2)
proof (induction n)
  case (Suc n)
  then obtain fl' where fl': "loopR (\<lambda>i. fl_place (i + 1) (Some i) (Some (i + 2))) n fl = Inr fl'" "placed (Suc n) fl0 fl'"
    "head fl' = head fl" "tail fl' = tail fl" by auto
  have "\<exists>fl''. fl_place (Suc n) (Some n) (Some (Suc (Suc n))) fl' = Inr fl'' \<and> placed (Suc (Suc n)) fl0 fl'' \<and>
      head fl'' = head fl' \<and> tail fl'' = tail fl'"
    by (rule placed_step [OF fl'(2)]) (use Suc.prems in auto)
  then show ?case using fl' by auto
qed (use assms(1) in simp)

lemma nxt_of_upt: "i < n \<Longrightarrow> nxt_of [0..<n] i = (if Suc i < n then Some (Suc i) else None)"
proof (cases "Suc i < n")
  case True
  then show ?thesis using nxt_of_nth [of "[0..<n]" i] by simp
next
  case False
  moreover assume "i < n"
  ultimately have "n = Suc i" by simp
  moreover have "nxt_of [i] i = None" by simp
  ultimately show ?thesis using nxt_of_append [of "[0..<i]" "[i]" i] by simp
qed

lemma prv_of_upt: "i < n \<Longrightarrow> prv_of [0..<n] i = (if i = 0 then None else Some (i - 1))"
proof (cases i)
  case 0
  moreover assume "i < n"
  then have "[0..<n] = [] @ 0 # [1..<n]" using 0 by (simp add: upt_rec)
  ultimately show ?thesis using prv_of_append [of "[]" "0 # [1..<n]" 0] by simp
next
  case (Suc j)
  moreover assume "i < n"
  ultimately show ?thesis using prv_of_nth [of "[0..<n]" j] by simp
qed

lemma placed_dll:
  assumes "placed (fl_numBlocks fl0) fl0 fl" "head fl = Some 0" "tail fl = Some (fl_numBlocks fl0 - 1)" "2 \<le> fl_numBlocks fl0"
  shows "dll fl [0..<fl_numBlocks fl0]"
  using assms by (auto simp: dll_def links_of_def linked_def placed_def nxt_of_upt prv_of_upt)

section \<open>Setting the boundaries\<close>

text \<open>
  The geometry: the block size, the smallest tracked size and the cache size are powers of two, and
  the smallest tracked cache has at least two blocks.
\<close>

definition geometry :: "falru \<Rightarrow> bool" where
  "geometry fl \<longleftrightarrow> (let B = unat (fl_blkSize fl); m = numTrackedCaches fl in
     0 < B \<and> unat (minTrackedSize fl) = csize fl 0 * B \<and> 2 \<le> csize fl 0 \<and>
     fl_numBlocks fl = csize fl m \<and> fl_numBlocks fl * B < 2 ^ 32 \<and> m \<le> 32 \<and> inAllCachesMask fl = mask m)"

definition walking :: "falru \<Rightarrow> nat \<Rightarrow> nat \<Rightarrow> uint32 \<Rightarrow> falru \<Rightarrow> bool" where
  "walking fl1 p j in_mask fl \<longleftrightarrow> remasked fl1 fl \<and> p \<le> fl_numBlocks fl1 \<and> j \<le> numTrackedCaches fl1 \<and>
     (\<forall>k < numTrackedCaches fl1. csize fl1 k \<le> p \<longleftrightarrow> k < j) \<and> length (boundaries fl) = numTrackedCaches fl1 \<and>
     (\<forall>k < j. boundaries fl ! k = Some (csize fl1 k - 1)) \<and>
     (\<forall>k. bit in_mask k \<longleftrightarrow> j \<le> k \<and> k < numTrackedCaches fl1) \<and>
     (\<forall>i < p. \<forall>k. bit (inCachesMask (fl_blks fl ! i)) k \<longleftrightarrow> k < numTrackedCaches fl1 \<and> i < csize fl1 k)"

lemma csize_mono: "k < k' \<Longrightarrow> 0 < csize fl 0 \<Longrightarrow> csize fl k < csize fl k'"
  by (simp add: csize_def power_strict_increasing)

lemma walking_mask:
  assumes "walking fl1 p j in_mask fl" "p < fl_numBlocks fl1" "length (fl_blks fl1) = fl_numBlocks fl1"
  shows "\<exists>fl'. fl_upd (Some p) (\<lambda>b. b\<lparr>inCachesMask := in_mask\<rparr>) fl = Inr fl' \<and> remasked fl1 fl' \<and>
    boundaries fl' = boundaries fl \<and> p < length (fl_blks fl') \<and>
    (\<forall>i < Suc p. \<forall>k. bit (inCachesMask (fl_blks fl' ! i)) k \<longleftrightarrow> k < numTrackedCaches fl1 \<and> i < csize fl1 k)"
proof -
  have re: "remasked fl1 fl" using assms(1) by (simp add: walking_def)
  have len: "p < length (fl_blks fl)" using assms remasked_fields(7) [OF re] by simp
  let ?fl' = "fl\<lparr>fl_blks := (fl_blks fl)[p := (fl_blks fl ! p)\<lparr>inCachesMask := in_mask\<rparr>]\<rparr>"
  have "bit (inCachesMask (fl_blks ?fl' ! i)) k \<longleftrightarrow> k < numTrackedCaches fl1 \<and> i < csize fl1 k" if "i < Suc p" for i k
  proof (cases "i = p")
    case True
    have "csize fl1 k \<le> p \<longleftrightarrow> k < j" if "k < numTrackedCaches fl1" using assms(1) that by (simp add: walking_def)
    moreover have "bit in_mask k \<longleftrightarrow> j \<le> k \<and> k < numTrackedCaches fl1" using assms(1) by (simp add: walking_def)
    ultimately show ?thesis using True len by (auto simp: nth_upd not_le)
  next
    case False
    then show ?thesis using assms(1) that by (simp add: walking_def nth_upd)
  qed
  then show ?thesis using len remasked_upd(1) [OF re] by (auto simp del: split_paired_All)
qed

definition bytes_of :: "falru \<Rightarrow> nat \<Rightarrow> uint32" where
  "bytes_of fl x = of_nat (x * unat (fl_blkSize fl))"

lemma bytes_of_simps:
  "bytes_of fl 0 = 0" "bytes_of fl p + fl_blkSize fl = bytes_of fl (Suc p)"
  "bytes_of fl (csize fl j) * 2 = bytes_of fl (csize fl (Suc j))"
  by (simp_all add: bytes_of_def csize_def add.commute mult.commute mult.left_commute)

lemma bytes_of_eq:
  assumes g: "geometry fl" and "p < fl_numBlocks fl" "j \<le> numTrackedCaches fl"
  shows "bytes_of fl (Suc p) = bytes_of fl (csize fl j) \<longleftrightarrow> Suc p = csize fl j"
proof -
  let ?B = "unat (fl_blkSize fl)"
  have B: "0 < ?B" "fl_numBlocks fl * ?B < 2 ^ 32" "fl_numBlocks fl = csize fl (numTrackedCaches fl)"
    using g by (auto simp: geometry_def Let_def)
  have "csize fl j \<le> csize fl (numTrackedCaches fl)"
    using assms(3) by (simp add: csize_def)
  then have "csize fl j * ?B \<le> fl_numBlocks fl * ?B" "Suc p * ?B \<le> fl_numBlocks fl * ?B"
    using assms(2) by (auto simp only: B(3) intro!: mult_le_mono1)
  then have "csize fl j * ?B < 2 ^ 32" "Suc p * ?B < 2 ^ 32" using le_less_trans [OF _ B(2)] by blast+
  then have "unat (bytes_of fl (csize fl j)) = csize fl j * ?B" "unat (bytes_of fl (Suc p)) = Suc p * ?B"
    unfolding bytes_of_def unat_of_nat by (simp_all add: take_bit_nat_eq_self)
  then have "bytes_of fl (Suc p) = bytes_of fl (csize fl j) \<longleftrightarrow> Suc p * ?B = csize fl j * ?B" by (simp only: word_unat_eq_iff)
  then show ?thesis unfolding mult_cancel2 using B(1) by simp
qed

lemma walking_boundary:
  assumes w: "walking fl1 p j in_mask fl" and g: "geometry fl1" and p: "Suc p = csize fl1 j" "j < numTrackedCaches fl1"
    and re: "remasked fl1 fl'" and bd: "boundaries fl' = boundaries fl"
    and m: "\<forall>i < Suc p. \<forall>k. bit (inCachesMask (fl_blks fl' ! i)) k \<longleftrightarrow> k < numTrackedCaches fl1 \<and> i < csize fl1 k"
  shows "walking fl1 (Suc p) (Suc j) (in_mask AND NOT (push_bit j 1)) (fl'\<lparr>boundaries := (boundaries fl')[j := Some p]\<rparr>)"
proof -
  have c0: "0 < csize fl1 0" "fl_numBlocks fl1 = csize fl1 (numTrackedCaches fl1)" using g by (auto simp: geometry_def Let_def)
  have "csize fl1 k \<le> Suc p \<longleftrightarrow> k < Suc j" for k
    using csize_mono [OF _ c0(1), of k j] csize_mono [OF _ c0(1), of j k] p(1) by (metis leD less_Suc_eq less_imp_le_nat not_less_eq order_refl linorder_neqE_nat)
  moreover have "p = csize fl1 j - 1" "Suc p \<le> fl_numBlocks fl1" using p csize_mono [OF p(2) c0(1)] c0(2) by simp_all
  moreover have "bit (in_mask AND NOT (push_bit j 1)) k \<longleftrightarrow> Suc j \<le> k \<and> k < numTrackedCaches fl1" for k
    using w unfolding walking_def bit_clear by auto
  moreover have "(boundaries fl') [j := Some p] ! k = Some (csize fl1 k - 1)" if "k < Suc j" for k
    using w p that bd by (auto simp: walking_def nth_upd less_Suc_eq)
  ultimately show ?thesis using w re remasked_upd(2) [OF re] m bd p by (simp add: walking_def del: push_bit_of_1)
qed

lemma walking_plain:
  assumes w: "walking fl1 p j in_mask fl" and g: "geometry fl1" and p: "p < fl_numBlocks fl1"
    and no: "j < numTrackedCaches fl1 \<Longrightarrow> Suc p \<noteq> csize fl1 j"
    and re: "remasked fl1 fl'" and bd: "boundaries fl' = boundaries fl"
    and m: "\<forall>i < Suc p. \<forall>k. bit (inCachesMask (fl_blks fl' ! i)) k \<longleftrightarrow> k < numTrackedCaches fl1 \<and> i < csize fl1 k"
  shows "walking fl1 (Suc p) j in_mask fl'"
proof -
  have c0: "0 < csize fl1 0" using g by (auto simp: geometry_def Let_def)
  have "csize fl1 k \<le> Suc p \<longleftrightarrow> k < j" if k: "k < numTrackedCaches fl1" for k
  proof -
    have k': "csize fl1 k \<le> p \<longleftrightarrow> k < j" using w k by (simp add: walking_def)
    moreover have "csize fl1 k \<noteq> Suc p" if "\<not> k < j"
    proof (cases "k = j")
      case False
      then have "csize fl1 j < csize fl1 k" using that by (intro csize_mono [OF _ c0]) simp
      moreover have "p < csize fl1 j" using w k that by (auto simp: walking_def not_le [symmetric])
      ultimately show ?thesis by simp
    qed (use no k in auto)
    ultimately show ?thesis by (auto simp: le_Suc_eq)
  qed
  then show ?thesis using w re bd m p by (simp add: walking_def)
qed

lemma init_loop:
  assumes g: "geometry fl1" and pl: "placed (fl_numBlocks fl1) fl1 fl1" and tl: "tail fl1 = Some (fl_numBlocks fl1 - 1)"
    and w: "walking fl1 p j in_mask fl"
  shows "\<exists>fl'. ct_init_loop (fl_numBlocks fl1 - p) (if p < fl_numBlocks fl1 then Some p else None)
      (bytes_of fl1 p) (bytes_of fl1 (csize fl1 j)) in_mask j fl = Inr fl' \<and>
    (\<exists>j' m'. walking fl1 (fl_numBlocks fl1) j' m' fl')"
  using w
proof (induction "fl_numBlocks fl1 - p" arbitrary: p j in_mask fl)
  case 0
  then have "p = fl_numBlocks fl1" by (simp add: walking_def)
  then show ?case using 0 by auto
next
  case (Suc fuel)
  let ?n = "fl_numBlocks fl1"
  have p: "p < ?n" "?n - Suc p = fuel" and j: "j \<le> numTrackedCaches fl1" using Suc by (auto simp: walking_def)
  have len: "length (fl_blks fl1) = ?n" using pl by (simp add: placed_def)
  obtain fl' where fl': "fl_upd (Some p) (\<lambda>b. b\<lparr>inCachesMask := in_mask\<rparr>) fl = Inr fl'" "remasked fl1 fl'"
    "boundaries fl' = boundaries fl" "p < length (fl_blks fl')"
    "\<forall>i < Suc p. \<forall>k. bit (inCachesMask (fl_blks fl' ! i)) k \<longleftrightarrow> k < numTrackedCaches fl1 \<and> i < csize fl1 k"
    using walking_mask [OF Suc.prems p(1) len] by auto
  note F = remasked_fields [OF fl'(2)]
  have nx: "fb_next (fl_blks fl' ! p) = (if Suc p < ?n then Some (Suc p) else None)"
    using F(8) [of p] pl p len by (simp add: placed_def)
  have sz: "bytes_of fl1 (Suc p) = bytes_of fl1 (csize fl1 j) \<longleftrightarrow> Suc p = csize fl1 j"
    by (rule bytes_of_eq [OF g p(1) j])
  have last: "Some p \<noteq> tail fl' \<longleftrightarrow> Suc p \<noteq> ?n" using p tl F(4) by auto
  have blen: "length (boundaries fl') = numTrackedCaches fl1" using Suc.prems fl'(3) by (simp add: walking_def)
  show ?case
  proof (cases "Suc p = csize fl1 j \<and> Suc p \<noteq> ?n")
    case True
    then have jm: "j < numTrackedCaches fl1" using j g by (auto simp: geometry_def Let_def le_less)
    show ?thesis
      using Suc.hyps(1) [OF p(2) [symmetric] walking_boundary [OF Suc.prems g _ jm fl'(2,3,5)]] True jm fl'(1,4) nx sz last blen
      unfolding Suc.hyps(2) [symmetric] using p by (simp add: F(6) Let_def bytes_of_simps del: push_bit_of_1)
  next
    case False
    have "walking fl1 (Suc p) j in_mask fl'"
      by (rule walking_plain [OF Suc.prems g p(1) _ fl'(2,3,5)]) (use False g in \<open>auto simp: geometry_def Let_def csize_def\<close>)
    then show ?thesis
      using Suc.hyps(1) [OF p(2) [symmetric]] False fl'(1,4) nx sz last
      unfolding Suc.hyps(2) [symmetric] using p by (auto simp: F(6) Let_def bytes_of_simps simp del: push_bit_of_1)
  qed
qed

lemma same_mask_data: "same_mask b b' \<Longrightarrow> te_valid b' = te_valid b \<and> te_secure b' = te_secure b"
  by (auto simp: same_mask_def)

lemma remasked_more:
  assumes "remasked fl fl'"
  shows "tagHash fl' = tagHash fl" "hits fl' = hits fl" "fl_numBlocks fl' = fl_numBlocks fl"
    "i < length (fl_blks fl) \<Longrightarrow> same_mask (fl_blks fl ! i) (fl_blks fl' ! i)"
proof -
  have e: "fl' = fl\<lparr>fl_blks := fl_blks fl', boundaries := boundaries fl'\<rparr>" using assms by (simp add: remasked_def)
  show "tagHash fl' = tagHash fl" "hits fl' = hits fl" "fl_numBlocks fl' = fl_numBlocks fl" by (subst e; simp)+
  show "i < length (fl_blks fl) \<Longrightarrow> same_mask (fl_blks fl ! i) (fl_blks fl' ! i)"
    using assms by (auto simp: remasked_def list_all2_conv_all_nth)
qed

lemma ct_init_ok:
  assumes g: "geometry fl" and pl: "placed (fl_numBlocks fl) fl fl" and ends: "head fl = Some 0" "tail fl = Some (fl_numBlocks fl - 1)"
    and bd: "length (boundaries fl) = numTrackedCaches fl"
  shows "\<exists>fl'. ct_init fl = Inr fl' \<and> remasked fl fl' \<and> lru_list fl' [0..<fl_numBlocks fl]"
proof -
  let ?n = "fl_numBlocks fl" and ?m = "numTrackedCaches fl"
  have G: "2 \<le> csize fl 0" "?n = csize fl ?m" "?m \<le> 32" "inAllCachesMask fl = mask ?m"
    and u: "unat (minTrackedSize fl) = csize fl 0 * unat (fl_blkSize fl)"
    using g by (auto simp: geometry_def Let_def)
  have mt: "minTrackedSize fl = bytes_of fl (csize fl 0)" unfolding bytes_of_def u [symmetric] by simp
  have sz: "2 \<le> csize fl k" "k < ?m \<Longrightarrow> csize fl k < ?n" for k
    using G(1,2) csize_mono [of k ?m fl] csize_mono [of 0 k fl] by (cases k; simp)+
  have sz0: "0 < csize fl k" for k using sz(1) [of k] by simp
  have d: "dll fl [0..<?n]" by (rule placed_dll [OF pl ends]) (use sz G in simp)
  have pos: "pos_of [0..<?n] i = i" if "i < ?n" for i using pos_of_nth [of "[0..<?n]" i] that by simp
  have "\<exists>fl'. ct_init fl = Inr fl' \<and> remasked fl fl' \<and> length (boundaries fl') = ?m \<and>
      (\<forall>k < ?m. boundaries fl' ! k = Some (csize fl k - 1)) \<and>
      (\<forall>i < ?n. \<forall>k. bit (inCachesMask (fl_blks fl' ! i)) k \<longleftrightarrow> k < ?m \<and> i < csize fl k)"
  proof (cases "?m = 0")
    case True
    then show ?thesis using pl bd remasked_refl by (auto simp: ct_init_def placed_def)
  next
    case False
    have "walking fl 0 0 (inAllCachesMask fl) fl"
      using remasked_refl bd G sz sz0 by (auto simp: walking_def bit_mask_iff not_le)
    from init_loop [OF g pl ends(2) this] obtain fl' j' m' where fl': "ct_init_loop ?n (Some 0) 0 (minTrackedSize fl) (inAllCachesMask fl) 0 fl = Inr fl'"
      "walking fl ?n j' m' fl'" using G sz0 mt by (auto simp: bytes_of_simps)
    have "k < j'" if "k < ?m" for k using fl'(2) less_imp_le [OF sz(2) [OF that]] that by (simp add: walking_def)
    then show ?thesis using fl' False ends by (auto simp: ct_init_def walking_def)
  qed
  then obtain fl' where fl': "ct_init fl = Inr fl'" "remasked fl fl'" "length (boundaries fl') = ?m"
    "\<And>k. k < ?m \<Longrightarrow> boundaries fl' ! k = Some (csize fl k - 1)"
    "\<And>i k. i < ?n \<Longrightarrow> bit (inCachesMask (fl_blks fl' ! i)) k \<longleftrightarrow> k < ?m \<and> i < csize fl k" by blast
  note F = remasked_fields [OF fl'(2)] remasked_csize [OF fl'(2)]
  have "tracked fl' [0..<?n]"
    using fl' G sz pos F d by (auto simp: tracked_def tracks_def dll_def less_imp_diff_less)
  then show ?thesis using fl' remasked_dll [OF fl'(2) d] by (auto simp: lru_list_def)
qed

section \<open>From construction to use\<close>

lemma newFALRUBlk_simps [simp]:
  "te_valid newFALRUBlk = False" "te_secure newFALRUBlk = False" "inCachesMask newFALRUBlk = 0"
  by (simp_all add: newFALRUBlk_def cache_blk.extend_def newCacheBlk_def blk_invalidate_def te_invalidate_def
      clearCoherenceBits_def Let_def)

lemma tagsInit_ok:
  assumes new: "newFALRU bytes bs min_size wu = Inr fl0" and g: "geometry fl0"
  shows "\<exists>fl. fl_tagsInit fl0 = Inr fl \<and> holds fl [] [0..<fl_numBlocks fl0] \<and> alike fl \<and> fl_blkSize fl = fl_blkSize fl0 \<and>
    numTrackedCaches fl = numTrackedCaches fl0 \<and> csize fl = csize fl0"
proof -
  let ?n = "fl_numBlocks fl0"
  have N: "fl_blks fl0 = replicate ?n newFALRUBlk" "tagHash fl0 = (\<lambda>_. None)" "length (boundaries fl0) = numTrackedCaches fl0"
    "hits fl0 = replicate (numTrackedCaches fl0 + 1) 0"
    using new by (auto simp: newFALRU_def Let_def res_simps split: if_splits)
  have "csize fl0 0 \<le> csize fl0 (numTrackedCaches fl0)" by (simp add: csize_def)
  then have n: "2 \<le> ?n" using g by (auto simp: geometry_def Let_def)
  have p0: "placed 0 fl0 fl0" using N(1) by (simp add: placed_def)
  have "\<exists>fl1. fl_place 0 None (Some 1) (fl0\<lparr>head := Some 0\<rparr>) = Inr fl1 \<and> placed (Suc 0) fl0 fl1 \<and>
      head fl1 = head (fl0\<lparr>head := Some 0\<rparr>) \<and> tail fl1 = tail (fl0\<lparr>head := Some 0\<rparr>)"
    by (rule placed_step [OF placed_ends(1) [OF p0]]) (use n in auto)
  then obtain fl1 where fl1: "fl_place 0 None (Some 1) (fl0\<lparr>head := Some 0\<rparr>) = Inr fl1" "placed 1 fl0 fl1" "head fl1 = Some 0" by auto
  obtain fl2 where fl2: "loopR (\<lambda>i. fl_place (i + 1) (Some i) (Some (i + 2))) (?n - 2) fl1 = Inr fl2"
    "placed (Suc (?n - 2)) fl0 fl2" "head fl2 = Some 0" using place_loop [OF fl1(2) order_refl] fl1(3) by auto
  have e: "Suc (?n - 2) = ?n - 1" "Suc (?n - 1) = ?n" using n by simp_all
  have "\<exists>fl3. fl_place (?n - 1) (Some (?n - 2)) None (fl2\<lparr>tail := Some (?n - 1)\<rparr>) = Inr fl3 \<and> placed (Suc (?n - 1)) fl0 fl3 \<and>
      head fl3 = head (fl2\<lparr>tail := Some (?n - 1)\<rparr>) \<and> tail fl3 = tail (fl2\<lparr>tail := Some (?n - 1)\<rparr>)"
    by (rule placed_step [OF placed_ends(2) [OF fl2(2) [unfolded e(1)]]]) (use n in auto)
  then obtain fl3 where fl3: "fl_place (?n - 1) (Some (?n - 2)) None (fl2\<lparr>tail := Some (?n - 1)\<rparr>) = Inr fl3"
    "placed ?n fl0 fl3" "head fl3 = Some 0" "tail fl3 = Some (?n - 1)" using e fl2(3) by auto
  have f3: "fl3 = fl0\<lparr>fl_blks := fl_blks fl3, head := head fl3, tail := tail fl3\<rparr>" using fl3(2) by (simp add: placed_def)
  have F: "fl_numBlocks fl3 = ?n" "fl_blkSize fl3 = fl_blkSize fl0" "numTrackedCaches fl3 = numTrackedCaches fl0"
    "minTrackedSize fl3 = minTrackedSize fl0" "inAllCachesMask fl3 = inAllCachesMask fl0" "boundaries fl3 = boundaries fl0"
    "tagHash fl3 = tagHash fl0" "hits fl3 = hits fl0" by (subst f3; simp)+
  have c3: "csize fl3 = csize fl0" by (simp add: fun_eq_iff csize_def F)
  have "geometry fl3" using g by (simp add: geometry_def F c3)
  moreover have "placed ?n fl3 fl3" using fl3(2) by (simp add: placed_def F)
  ultimately obtain fl4 where fl4: "ct_init fl3 = Inr fl4" "remasked fl3 fl4" "lru_list fl4 [0..<?n]"
    using ct_init_ok [of fl3] fl3 F N(3) by auto
  have run: "fl_tagsInit fl0 = Inr fl4" using n fl1(1) fl2(1) fl3(1) fl4(1) by (simp add: fl_tagsInit_def Let_def)
  note R = remasked_more [OF fl4(2)] and R' = remasked_fields [OF fl4(2)]
  have "\<not> te_valid (fl_blks fl4 ! i) \<and> \<not> te_secure (fl_blks fl4 ! i)" if "i < ?n" for i
    using same_mask_data [OF R(4), of i] fl3(2) that by (auto simp: placed_def)
  then have "holds fl4 [] [0..<?n]" using fl4(3) by (simp add: holds_def content_def lines_def R(1) F N(2))
  moreover have "alike fl4" by (simp add: alike_def R(2) R' F N(4) nth_Cons')
  ultimately show ?thesis using run R' F c3 remasked_csize [OF fl4(2)] by auto
qed

text \<open>Using a sequence of lines, with the result of every access.\<close>

fun fl_run ::
  "(addr \<Rightarrow> addr) option \<Rightarrow> nat \<Rightarrow> (tick \<times> tag_packet) list \<Rightarrow> falru \<Rightarrow> ((bool \<times> uint32) list \<times> falru) res" where
  "fl_run ext maxRequestors [] fl = Inr ([], fl)"
| "fl_run ext maxRequestors ((now, pkt) # ps) fl =
     bindR (fl_use ext maxRequestors now pkt fl) (\<lambda>(r, fl1).
     bindR (fl_run ext maxRequestors ps fl1) (\<lambda>(rs, fl2). Inr (r # rs, fl2)))"

definition packet_line :: "falru \<Rightarrow> tick \<times> tag_packet \<Rightarrow> addr \<times> bool" where
  "packet_line fl p = key_line fl (tp_key (snd p))"

lemma use_ok:
  assumes h: "holds fl vs us" and a: "alike fl" and ext: "ext = Some (fl_extractTag fl)" and req: "tp_requestor pkt < maxRequestors"
  shows "\<exists>m fl' vs' us'. fl_use ext maxRequestors now pkt fl = Inr ((key_line fl (tp_key pkt) \<in> set (lines fl vs), m), fl') \<and>
    holds fl' vs' us' \<and> alike fl' \<and> lines fl' vs' = lru_use (length (vs @ us)) (key_line fl (tp_key pkt)) (lines fl vs) \<and>
    length (vs' @ us') = length (vs @ us) \<and> fl_blkSize fl' = fl_blkSize fl \<and> numTrackedCaches fl' = numTrackedCaches fl \<and>
    csize fl' = csize fl \<and>
    (\<forall>k < numTrackedCaches fl. bit m k \<longleftrightarrow> key_line fl (tp_key pkt) \<in> set (take (csize fl k) (lines fl vs)))"
proof (cases "key_line fl (tp_key pkt) \<in> set (lines fl vs)")
  case True
  let ?k = "key_line fl (tp_key pkt)"
  have "length (?k # remove1 ?k (lines fl vs)) = length vs"
    using True length_pos_if_in_set [OF True] by (simp add: length_remove1 lines_def)
  then have "lru_use (length (vs @ us)) ?k (lines fl vs) = ?k # remove1 ?k (lines fl vs)" by (simp add: lru_use_def)
  then show ?thesis using use_hit [OF h a True, of ext maxRequestors now] True by fastforce
next
  case False
  then have "key_line fl (tp_key pkt) \<notin> set (take n (lines fl vs))" for n by (auto dest: in_set_takeD)
  then show ?thesis using use_miss [OF h a False ext req, of now] False by (fastforce simp: lru_use_def remove1_idem)
qed

lemma run_ok:
  assumes "holds fl vs us" "alike fl" "ext = Some (fl_extractTag fl)" "\<forall>p \<in> set ps. tp_requestor (snd p) < maxRequestors"
    and n: "n = length (vs @ us)"
  shows "\<exists>rs fl'. fl_run ext maxRequestors ps fl = Inr (rs, fl') \<and> length rs = length ps \<and> alike fl' \<and>
    numTrackedCaches fl' = numTrackedCaches fl \<and>
    (\<forall>t < length ps. let x = packet_line fl (ps ! t); L = fold (lru_use n) (map (packet_line fl) (take t ps)) (lines fl vs) in
      (fst (rs ! t) \<longleftrightarrow> x \<in> set L) \<and>
      (\<forall>k < numTrackedCaches fl. bit (snd (rs ! t)) k \<longleftrightarrow> x \<in> set (take (csize fl k) L)))"
  using assms
proof (induction ps arbitrary: fl vs us)
  case (Cons p ps)
  obtain now pkt where p: "p = (now, pkt)" by (cases p)
  let ?k = "key_line fl (tp_key pkt)"
  obtain m fl1 vs1 us1 where u: "fl_use ext maxRequestors now pkt fl = Inr ((?k \<in> set (lines fl vs), m), fl1)"
    "holds fl1 vs1 us1" "alike fl1" "lines fl1 vs1 = lru_use (length (vs @ us)) ?k (lines fl vs)"
    "length (vs1 @ us1) = length (vs @ us)" "fl_blkSize fl1 = fl_blkSize fl" "numTrackedCaches fl1 = numTrackedCaches fl"
    "csize fl1 = csize fl" "\<And>k. k < numTrackedCaches fl \<Longrightarrow> bit m k \<longleftrightarrow> ?k \<in> set (take (csize fl k) (lines fl vs))"
    using use_ok [OF Cons.prems(1-3), of pkt maxRequestors now] Cons.prems(4) p by auto
  have x: "fl_extractTag fl1 = fl_extractTag fl" using u(6) by (simp add: fun_eq_iff fl_extractTag_def)
  have pl: "packet_line fl1 = packet_line fl" by (simp add: fun_eq_iff packet_line_def key_line_def x)
  have "ext = Some (fl_extractTag fl1)" "\<forall>p \<in> set ps. tp_requestor (snd p) < maxRequestors" "n = length (vs1 @ us1)"
    using Cons.prems(3-5) u(5) x by auto
  note IH = Cons.IH [OF u(2,3) this]
  have L: "lines fl1 vs1 = lru_use n (packet_line fl p) (lines fl vs)" using u(4) Cons.prems(5) by (simp add: p packet_line_def)
  obtain rs fl' where rs: "fl_run ext maxRequestors ps fl1 = Inr (rs, fl')" "length rs = length ps" "alike fl'"
    "numTrackedCaches fl' = numTrackedCaches fl"
    "\<And>t. t < length ps \<Longrightarrow> let x = packet_line fl (ps ! t);
        L = fold (lru_use n) (map (packet_line fl) (take t ps)) (lru_use n (packet_line fl p) (lines fl vs)) in
      (fst (rs ! t) \<longleftrightarrow> x \<in> set L) \<and> (\<forall>k < numTrackedCaches fl. bit (snd (rs ! t)) k \<longleftrightarrow> x \<in> set (take (csize fl k) L))"
    using IH unfolding pl L u(7,8) by blast
  have "let x = packet_line fl ((p # ps) ! t);
        L = fold (lru_use n) (map (packet_line fl) (take t (p # ps))) (lines fl vs) in
      (fst (((?k \<in> set (lines fl vs), m) # rs) ! t) \<longleftrightarrow> x \<in> set L) \<and>
      (\<forall>k < numTrackedCaches fl. bit (snd (((?k \<in> set (lines fl vs), m) # rs) ! t)) k \<longleftrightarrow> x \<in> set (take (csize fl k) L))"
    if "t < length (p # ps)" for t
  proof (cases t)
    case 0
    then show ?thesis using u(9) by (simp add: p packet_line_def)
  next
    case (Suc t')
    then show ?thesis using rs(5) [of t'] that by simp
  qed
  moreover have "fl_run ext maxRequestors (p # ps) fl = Inr ((?k \<in> set (lines fl vs), m) # rs, fl')" using u(1) rs(1) p by simp
  ultimately show ?case using rs(2-4) by (intro exI conjI) (assumption | simp)+
qed simp


text \<open>A store of 1024 bytes with blocks of 64 bytes that tracks caches of 2, 4 and 8 blocks.\<close>

lemma ex_falru_new:
  "\<exists>fl0. newFALRU 1024 64 128 16 = Inr fl0 \<and> geometry fl0 \<and> fl_blkSize fl0 = 64 \<and> fl_numBlocks fl0 = 16 \<and>
     numTrackedCaches fl0 = 3 \<and> csize fl0 0 = 2"
proof -
  have "floorLog2 4 1024 = Inr 10" "floorLog2 4 128 = Inr 7"
    using floorLog2_pow2 [of 10 4] floorLog2_pow2 [of 7 4] by simp_all
  then show ?thesis by (simp add: newFALRU_def tracked_caches_def isPowerOf2_def geometry_def csize_def Let_def)
qed

definition ex_use :: "addr \<Rightarrow> tick \<times> tag_packet" where
  "ex_use a = (7, \<lparr>tp_key = \<lparr>key_address = a, key_secure = False\<rparr>, tp_requestor = 0, tp_task = 1\<rparr>)"


text \<open>
  As written, the store cannot insert anything: unlike the set-associative store, \<open>tagsInit\<close>
  registers no tag extractor in the blocks, and the first insertion calls the empty function object.
\<close>

theorem falru_insert_fails:
  assumes "newFALRU bytes bs min_size wu = Inr fl0" "geometry fl0" "tp_requestor pkt < maxRequestors"
  shows "\<exists>fl v. fl_tagsInit fl0 = Inr fl \<and> fl_findVictim fl = Some v \<and> fl_insertBlock None maxRequestors now pkt v fl = Inl BadCall"
proof -
  obtain fl where fl: "fl_tagsInit fl0 = Inr fl" "holds fl [] [0..<fl_numBlocks fl0]" using tagsInit_ok [OF assms(1,2)] by blast
  let ?n = "fl_numBlocks fl0"
  have ne: "[0..<?n] \<noteq> []" and v: "fl_findVictim fl = Some (?n - 1)"
    using fl(2) by (auto simp: holds_def lru_list_def dll_def fl_findVictim_def)
  then have mem: "?n - 1 \<in> set [0..<?n]" by simp
  have "?n - 1 < length (fl_blks fl)" "\<not> te_valid (fl_blks fl ! (?n - 1))"
    using fl(2) holds_range(1) [OF fl(2)] mem by (auto simp: holds_def content_def)
  moreover have "inCachesMask (fl_blks fl ! (?n - 1)) = 0"
  proof -
    have "pos_of [0..<?n] (?n - 1) = ?n - 1" using pos_of_nth [of "[0..<?n]" "?n - 1"] ne by simp
    then have "\<not> bit (inCachesMask (fl_blks fl ! (?n - 1))) k" for k
      using fl(2) mem by (auto simp: holds_def lru_list_def tracked_def tracks_def)
    then show ?thesis by (simp add: bit_eq_iff)
  qed
  ultimately show ?thesis using fl(1) v assms(3) by (auto simp: fl_insertBlock_def)
qed

theorem falru_insert_fails_witness:
  "\<exists>fl0 fl v. newFALRU 1024 64 128 16 = Inr fl0 \<and> fl_tagsInit fl0 = Inr fl \<and> fl_findVictim fl = Some v \<and>
     fl_insertBlock None 1 0 (snd (ex_use 0x040)) v fl = Inl BadCall"
proof -
  obtain fl0 where fl0: "newFALRU 1024 64 128 16 = Inr fl0" "geometry fl0" using ex_falru_new by blast
  have "tp_requestor (snd (ex_use 0x040)) < 1" by (simp add: ex_use_def)
  then show ?thesis using falru_insert_fails [OF fl0] fl0(1) by blast
qed

end
