(* ===== verification/Event_Queue.thy ===== *)
theory Event_Queue
  imports Prelude
begin

unbundle bit_operations_syntax

text \<open>
  The data structure of gem5's event queue (\<open>src/sim/eventq.cc\<close>): a list of bins in the
  order of time and priority, each bin a stack of events with the same time and priority.  Only
  the top event of a bin has a valid \<open>nextBin\<close> pointer; those further down the stack may be
  stale.  Events are objects in an explicit store (a partial function, \<open>None\<close> for an object
  that does not exist or has been deleted), pointers are natural numbers or null.  The loops over
  pointers are partial functions, so that a loop around a cycle has no value; the lemmas show that
  on a well-formed queue they return.

  The predicate \<open>queue_rep h p xs\<close> says that the pointers from \<open>p\<close> represent the list
  \<open>xs\<close>, sorted by time and priority.  Insertion is the insertion into this list before the
  first event that is not earlier, removal is the removal from the list.
\<close>

section \<open>Events\<close>

record event =
  nextBin :: "nat option"
  nextInBin :: "nat option"
  ev_when :: tick
  ev_priority :: "8 word"
  ev_flags :: "16 word"
  ev_queue :: "nat option"

type_synonym ev_heap = "nat \<Rightarrow> event option"

definition PublicRead :: "16 word" where "PublicRead = 0x003f"
definition PublicWrite :: "16 word" where "PublicWrite = 0x001d"
definition Squashed :: "16 word" where "Squashed = 0x0001"
definition Scheduled :: "16 word" where "Scheduled = 0x0002"
definition Managed :: "16 word" where "Managed = 0x0004"
definition IsExitEvent :: "16 word" where "IsExitEvent = 0x0010"
definition IsMainQueue :: "16 word" where "IsMainQueue = 0x0020"
definition Initialized :: "16 word" where "Initialized = 0x7a40"
definition InitMask :: "16 word" where "InitMask = 0xffc0"

text \<open>The members of \<open>Flags\<close> (\<open>base/flags.hh\<close>).\<close>

definition flag_isSet :: "16 word \<Rightarrow> 16 word \<Rightarrow> bool" where
  "flag_isSet f m \<longleftrightarrow> f AND m \<noteq> 0"

definition flag_noneSet :: "16 word \<Rightarrow> 16 word \<Rightarrow> bool" where
  "flag_noneSet f m \<longleftrightarrow> f AND m = 0"

definition flag_set :: "16 word \<Rightarrow> event \<Rightarrow> event" where
  "flag_set m e = e\<lparr>ev_flags := ev_flags e OR m\<rparr>"

definition flag_clear :: "16 word \<Rightarrow> event \<Rightarrow> event" where
  "flag_clear m e = e\<lparr>ev_flags := ev_flags e AND NOT m\<rparr>"

definition newEvent :: "8 word \<Rightarrow> 16 word \<Rightarrow> event res" where
  "newEvent p f = checkR AssertFail (flag_noneSet f (NOT PublicWrite))
     (Inr \<lparr>nextBin = None, nextInBin = None, ev_when = 0, ev_priority = p,
           ev_flags = Initialized OR f, ev_queue = None\<rparr>)"

definition initialized :: "event \<Rightarrow> bool" where
  "initialized e \<longleftrightarrow> ev_flags e AND InitMask = Initialized"

definition scheduled :: "event \<Rightarrow> bool" where
  "scheduled e \<longleftrightarrow> flag_isSet (ev_flags e) Scheduled"

definition squashed :: "event \<Rightarrow> bool" where
  "squashed e \<longleftrightarrow> flag_isSet (ev_flags e) Squashed"

definition isExitEvent :: "event \<Rightarrow> bool" where
  "isExitEvent e \<longleftrightarrow> flag_isSet (ev_flags e) IsExitEvent"

definition isManaged :: "event \<Rightarrow> bool" where
  "isManaged e \<longleftrightarrow> flag_isSet (ev_flags e) Managed"

text \<open>The priority is a signed 8-bit number.\<close>

definition ev_lt :: "event \<Rightarrow> event \<Rightarrow> bool" where
  "ev_lt l r \<longleftrightarrow> ev_when l < ev_when r \<or>
     ev_when l = ev_when r \<and> sint (ev_priority l) < sint (ev_priority r)"

definition ev_le :: "event \<Rightarrow> event \<Rightarrow> bool" where
  "ev_le l r \<longleftrightarrow> ev_when l < ev_when r \<or>
     ev_when l = ev_when r \<and> sint (ev_priority l) \<le> sint (ev_priority r)"

definition ev_eq :: "event \<Rightarrow> event \<Rightarrow> bool" where
  "ev_eq l r \<longleftrightarrow> ev_when l = ev_when r \<and> ev_priority l = ev_priority r"

section \<open>Pointers\<close>

definition ev_at :: "ev_heap \<Rightarrow> nat \<Rightarrow> event res" where
  "ev_at h p = (case h p of None \<Rightarrow> Inl UseAfterFree | Some e \<Rightarrow> Inr e)"

definition ev_upd :: "(event \<Rightarrow> event) \<Rightarrow> nat \<Rightarrow> ev_heap \<Rightarrow> ev_heap res" where
  "ev_upd f p h = bindR (ev_at h p) (\<lambda>e. Inr (h(p \<mapsto> f e)))"

definition insertBefore :: "nat \<Rightarrow> nat option \<Rightarrow> ev_heap \<Rightarrow> ev_heap res" where
  "insertBefore ev cur h = (case cur of
     None \<Rightarrow> ev_upd (\<lambda>e. e\<lparr>nextBin := None, nextInBin := None\<rparr>) ev h
   | Some c \<Rightarrow> bindR (ev_at h ev) (\<lambda>e. bindR (ev_at h c) (\<lambda>ec.
       if ev_lt e ec then ev_upd (\<lambda>e. e\<lparr>nextBin := Some c, nextInBin := None\<rparr>) ev h
       else ev_upd (\<lambda>e. e\<lparr>nextBin := nextBin ec, nextInBin := Some c\<rparr>) ev h)))"

text \<open>
  The loop of \<open>insert\<close> and \<open>remove\<close> that walks over the bins before the event's; it
  ends with \<open>prev\<close> and \<open>cur\<close>.
\<close>

partial_function (option) bin_loop ::
  "ev_heap \<Rightarrow> event \<Rightarrow> nat \<times> nat option \<Rightarrow> (nat \<times> nat option) res option" where
  "bin_loop h e pc = (case snd pc of
     None \<Rightarrow> Some (Inr pc)
   | Some c \<Rightarrow> (case h c of
       None \<Rightarrow> Some (Inl UseAfterFree)
     | Some ec \<Rightarrow> if ev_lt ec e then bin_loop h e (c, nextBin ec) else Some (Inr pc)))"

definition evq_insert :: "nat \<Rightarrow> ev_heap \<times> nat option \<Rightarrow> (ev_heap \<times> nat option) res" where
  "evq_insert ev q = (case q of
     (h, None) \<Rightarrow> bindR (insertBefore ev None h) (\<lambda>h1. Inr (h1, Some ev))
   | (h, Some p) \<Rightarrow> bindR (ev_at h ev) (\<lambda>e. bindR (ev_at h p) (\<lambda>ep.
       if ev_le e ep then bindR (insertBefore ev (Some p) h) (\<lambda>h1. Inr (h1, Some ev))
       else bindR (loopR (bin_loop h e (p, nextBin ep))) (\<lambda>(prev, cur).
         bindR (insertBefore ev cur h) (\<lambda>h1.
         bindR (ev_upd (\<lambda>x. x\<lparr>nextBin := Some ev\<rparr>) prev h1) (\<lambda>h2. Inr (h2, Some p)))))))"

text \<open>The loop of \<open>removeItem\<close> over the pair of \<open>curr\<close> and \<open>next\<close>.\<close>

partial_function (option) item_loop ::
  "ev_heap \<Rightarrow> nat \<Rightarrow> nat \<times> nat option \<Rightarrow> nat res option" where
  "item_loop h ev cn = (case snd cn of
     None \<Rightarrow> Some (Inl Panic)
   | Some n \<Rightarrow> if n = ev then Some (Inr (fst cn))
       else (case h n of
         None \<Rightarrow> Some (Inl UseAfterFree)
       | Some en \<Rightarrow> item_loop h ev (n, nextInBin en)))"

definition removeItem :: "nat \<Rightarrow> nat \<Rightarrow> ev_heap \<Rightarrow> (ev_heap \<times> nat option) res" where
  "removeItem ev tp h = bindR (ev_at h tp) (\<lambda>t.
     if ev = tp then (case nextInBin t of
         None \<Rightarrow> Inr (h, nextBin t)
       | Some n \<Rightarrow> bindR (ev_upd (\<lambda>x. x\<lparr>nextBin := nextBin t\<rparr>) n h) (\<lambda>h1. Inr (h1, Some n)))
     else bindR (loopR (item_loop h ev (tp, nextInBin t))) (\<lambda>cur.
       bindR (ev_at h ev) (\<lambda>e.
       bindR (ev_upd (\<lambda>x. x\<lparr>nextInBin := nextInBin e\<rparr>) cur h) (\<lambda>h1. Inr (h1, Some tp)))))"

definition evq_remove ::
  "nat \<Rightarrow> nat \<Rightarrow> ev_heap \<times> nat option \<Rightarrow> (ev_heap \<times> nat option) res" where
  "evq_remove self ev q = (case q of
     (h, None) \<Rightarrow> Inl Panic
   | (h, Some p) \<Rightarrow> bindR (ev_at h ev) (\<lambda>e. checkR AssertFail (ev_queue e = Some self)
       (bindR (ev_at h p) (\<lambda>ep.
       if ev_eq ep e then removeItem ev p h
       else bindR (loopR (bin_loop h e (p, nextBin ep))) (\<lambda>(prev, cur). (case cur of
           None \<Rightarrow> Inl Panic
         | Some c \<Rightarrow> bindR (ev_at h c) (\<lambda>ec.
             if \<not> ev_eq ec e then Inl Panic
             else bindR (removeItem ev c h) (\<lambda>(h1, r).
               bindR (ev_upd (\<lambda>x. x\<lparr>nextBin := r\<rparr>) prev h1) (\<lambda>h2. Inr (h2, Some p))))))))))"

section \<open>Well-formed queues\<close>

definition ev_key :: "event \<Rightarrow> tick \<times> int" where
  "ev_key e = (ev_when e, sint (ev_priority e))"

lemma ev_order [simp]:
  "ev_lt l r \<longleftrightarrow> ev_key l < ev_key r"
  "ev_le l r \<longleftrightarrow> ev_key l \<le> ev_key r"
  "ev_eq l r \<longleftrightarrow> ev_key l = ev_key r"
  by (auto simp: ev_lt_def ev_le_def ev_eq_def ev_key_def less_prod_def less_eq_prod_def
      signed_word_eqI)

definition key_of :: "ev_heap \<Rightarrow> nat \<Rightarrow> tick \<times> int" where
  "key_of h p = (case h p of None \<Rightarrow> (0, 0) | Some e \<Rightarrow> ev_key e)"

lemma key_of_Some [simp]: "h p = Some e \<Longrightarrow> key_of h p = ev_key e"
  by (simp add: key_of_def)

lemma ev_key_links [simp]:
  "ev_key (e\<lparr>nextBin := a\<rparr>) = ev_key e"
  "ev_key (e\<lparr>nextInBin := b\<rparr>) = ev_key e"
  by (simp_all add: ev_key_def)

lemma ev_at_Some [simp]: "h p = Some e \<Longrightarrow> ev_at h p = Inr e"
  by (simp add: ev_at_def)

lemma ev_upd_Some [simp]: "h p = Some e \<Longrightarrow> ev_upd f p h = Inr (h(p \<mapsto> f e))"
  by (simp add: ev_upd_def)

text \<open>A stack of events, and a list of such stacks, as the pointers represent them.\<close>

fun inbin :: "ev_heap \<Rightarrow> nat option \<Rightarrow> nat list \<Rightarrow> bool" where
  "inbin h p [] \<longleftrightarrow> p = None"
| "inbin h p (x # xs) \<longleftrightarrow> p = Some x \<and> (\<exists>e. h x = Some e \<and> inbin h (nextInBin e) xs)"

fun bins :: "ev_heap \<Rightarrow> nat option \<Rightarrow> nat list list \<Rightarrow> bool" where
  "bins h p [] \<longleftrightarrow> p = None"
| "bins h p ([] # bs) \<longleftrightarrow> False"
| "bins h p ((x # xs) # bs) \<longleftrightarrow> p = Some x \<and>
     (\<exists>e. h x = Some e \<and> inbin h (nextInBin e) xs \<and> bins h (nextBin e) bs)"

lemma inbin_cong: "\<forall>x\<in>set xs. h' x = h x \<Longrightarrow> inbin h' p xs \<longleftrightarrow> inbin h p xs"
  by (induction xs arbitrary: p) auto

lemma bins_cong: "\<forall>x\<in>set (concat bs). h' x = h x \<Longrightarrow> bins h' p bs \<longleftrightarrow> bins h p bs"
proof (induction h p bs rule: bins.induct)
  case (3 h p x xs bs)
  have "inbin h' q xs \<longleftrightarrow> inbin h q xs" for q using 3 by (intro inbin_cong) auto
  then show ?case using 3 by auto
qed auto

lemma inbin_alive: "inbin h p xs \<Longrightarrow> x \<in> set xs \<Longrightarrow> \<exists>e. h x = Some e"
  by (induction xs arbitrary: p) auto

lemma bins_alive: "bins h p bs \<Longrightarrow> x \<in> set (concat bs) \<Longrightarrow> \<exists>e. h x = Some e"
  by (induction h p bs rule: bins.induct) (auto dest: inbin_alive)

lemma bins_nonempty: "bins h p bs \<Longrightarrow> b \<in> set bs \<Longrightarrow> b \<noteq> []"
  by (induction h p bs rule: bins.induct) auto

text \<open>
  Replacing what follows the bin \<open>c\<close>: the bins before it are untouched, and only the top
  of \<open>c\<close> gets another \<open>nextBin\<close>.
\<close>

lemma bins_relink:
  assumes "bins h p (bs1 @ (t # ts) # bs2)" "h t = Some et"
    and "h' t = Some (et\<lparr>nextBin := r\<rparr>)"
    and "\<forall>x\<in>set (concat bs1) \<union> set ts. h' x = h x"
    and "bins h' r bs2'"
  shows "bins h' p (bs1 @ (t # ts) # bs2')"
  using assms
proof (induction h p bs1 rule: bins.induct)
  case (1 h p)
  have "inbin h' q ts \<longleftrightarrow> inbin h q ts" for q using 1 by (intro inbin_cong) auto
  then show ?case using 1 by auto
next
  case (3 h p x xs bs)
  have "inbin h' q xs \<longleftrightarrow> inbin h q xs" for q using 3 by (intro inbin_cong) auto
  then show ?case using 3 by auto
qed auto

text \<open>All events of a bin have one key, and the keys of the bins increase.\<close>

fun bins_wf :: "(nat \<Rightarrow> tick \<times> int) \<Rightarrow> nat list list \<Rightarrow> bool" where
  "bins_wf k [] \<longleftrightarrow> True"
| "bins_wf k (b # bs) \<longleftrightarrow> distinct b \<and> set b \<inter> set (concat bs) = {} \<and> bins_wf k bs \<and>
     (\<forall>x\<in>set b. \<forall>y\<in>set (concat bs). k x < k y) \<and> (\<forall>x\<in>set b. \<forall>y\<in>set b. k x = k y)"

definition queue_rep :: "ev_heap \<Rightarrow> nat option \<Rightarrow> nat list \<Rightarrow> bool" where
  "queue_rep h p xs \<longleftrightarrow> (\<exists>bs. bins h p bs \<and> bins_wf (key_of h) bs \<and> xs = concat bs)"

lemma bins_wf_distinct: "bins_wf k bs \<Longrightarrow> distinct (concat bs)"
  by (induction bs) simp_all

lemma queue_rep_distinct: "queue_rep h p xs \<Longrightarrow> distinct xs"
  by (auto simp: queue_rep_def bins_wf_distinct)

lemma bins_wf_append:
  "bins_wf k (bs @ cs) \<longleftrightarrow> bins_wf k bs \<and> bins_wf k cs \<and> set (concat bs) \<inter> set (concat cs) = {} \<and>
     (\<forall>x\<in>set (concat bs). \<forall>y\<in>set (concat cs). k x < k y)"
proof (induction bs)
  case (Cons b bs)
  then show ?case by (simp only: append_Cons bins_wf.simps concat.simps concat_append set_append) blast
qed simp

lemma sorted_const: "\<forall>x\<in>set b. \<forall>y\<in>set b. k x = k y \<Longrightarrow> sorted (map k b)"
proof (induction b)
  case (Cons a b)
  have "k a \<le> k y" if "y \<in> set b" for y
    by (rule eq_refl) (use Cons.prems that in \<open>meson list.set_intros\<close>)
  moreover have "sorted (map k b)" by (rule Cons.IH) (use Cons.prems in \<open>meson list.set_intros(2)\<close>)
  ultimately show ?case by simp
qed simp

lemma bins_wf_sorted: "bins_wf k bs \<Longrightarrow> sorted (map k (concat bs))"
proof (induction bs)
  case (Cons b bs)
  have "sorted (map k b)" using Cons.prems unfolding bins_wf.simps by (intro sorted_const) blast
  moreover have "k x \<le> k y" if "x \<in> set b" "y \<in> set (concat bs)" for x y
    using Cons.prems that unfolding bins_wf.simps by (meson less_imp_le)
  moreover have "sorted (map k (concat bs))" using Cons unfolding bins_wf.simps by blast
  ultimately show ?case by (auto simp: sorted_append)
qed simp

lemma queue_rep_sorted: "queue_rep h p xs \<Longrightarrow> sorted (map (key_of h) xs)"
  by (auto simp: queue_rep_def intro: bins_wf_sorted)

lemma bins_wf_cong: "\<forall>x\<in>set (concat bs). k x = k' x \<Longrightarrow> bins_wf k bs \<longleftrightarrow> bins_wf k' bs"
proof (induction bs)
  case (Cons b bs)
  have "\<forall>x\<in>set b. k x = k' x" "\<forall>x\<in>set (concat bs). k x = k' x" using Cons.prems by simp_all
  then show ?case using Cons.IH by (simp cong: ball_cong)
qed simp

lemmas bins_wf_Cons = bins_wf.simps(2)
declare bins_wf.simps(2) [simp del]

text \<open>
  The operations change links only: \<open>relinked X h h'\<close> says that \<open>h'\<close> differs from
  \<open>h\<close> in the links of the events in \<open>X\<close> at most.
\<close>

definition unlinked :: "event \<Rightarrow> event" where
  "unlinked e = e\<lparr>nextBin := None, nextInBin := None\<rparr>"

definition relinked :: "nat set \<Rightarrow> ev_heap \<Rightarrow> ev_heap \<Rightarrow> bool" where
  "relinked X h h' \<longleftrightarrow> (\<forall>p. p \<notin> X \<longrightarrow> h' p = h p) \<and>
     (\<forall>p. map_option unlinked (h' p) = map_option unlinked (h p))"

lemma unlinked_links [simp]:
  "unlinked (e\<lparr>nextBin := a\<rparr>) = unlinked e"
  "unlinked (e\<lparr>nextInBin := b\<rparr>) = unlinked e"
  by (simp_all add: unlinked_def)

lemma relinked_refl: "relinked X h h"
  by (simp add: relinked_def)

lemma relinked_trans: "relinked X h h1 \<Longrightarrow> relinked X h1 h2 \<Longrightarrow> relinked X h h2"
  by (simp add: relinked_def)

lemma relinked_mono: "relinked X h h' \<Longrightarrow> X \<subseteq> Y \<Longrightarrow> relinked Y h h'"
  by (auto simp: relinked_def)

lemma relinked_upd:
  "h p = Some e \<Longrightarrow> unlinked e' = unlinked e \<Longrightarrow> p \<in> X \<Longrightarrow> relinked X h (h(p \<mapsto> e'))"
  by (auto simp: relinked_def)

lemma ev_key_unlinked: "ev_key (unlinked e) = ev_key e"
  by (simp add: unlinked_def)

lemma relinked_key: "relinked X h h' \<Longrightarrow> key_of h' = key_of h"
proof
  fix p assume "relinked X h h'"
  then have "map_option unlinked (h' p) = map_option unlinked (h p)" by (simp add: relinked_def)
  then show "key_of h' p = key_of h p"
    by (cases "h p"; cases "h' p") (simp_all add: key_of_def, metis ev_key_unlinked)
qed

text \<open>The queue depends on the links and the keys of its events only.\<close>

definition node_view :: "event \<Rightarrow> nat option \<times> nat option \<times> tick \<times> int" where
  "node_view e = (nextBin e, nextInBin e, ev_key e)"

lemma view_cases:
  assumes "map_option node_view (h' x) = map_option node_view (h x)" "h x = Some e"
  obtains e' where "h' x = Some e'" "nextBin e' = nextBin e" "nextInBin e' = nextInBin e"
    "ev_key e' = ev_key e"
  using assms by (auto simp: node_view_def)

lemma inbin_view:
  "\<forall>x\<in>set xs. map_option node_view (h' x) = map_option node_view (h x) \<Longrightarrow>
   inbin h p xs \<Longrightarrow> inbin h' p xs"
  by (induction xs arbitrary: p) (auto simp: node_view_def)

lemma bins_view:
  "\<forall>x\<in>set (concat bs). map_option node_view (h' x) = map_option node_view (h x) \<Longrightarrow>
   bins h p bs \<Longrightarrow> bins h' p bs"
proof (induction h p bs rule: bins.induct)
  case (3 h p x xs bs)
  obtain e where e: "p = Some x" "h x = Some e" "inbin h (nextInBin e) xs" "bins h (nextBin e) bs"
    using 3(3) by auto
  have "map_option node_view (h' x) = map_option node_view (h x)" using 3(2) by simp
  then obtain e' where "h' x = Some e'" "nextBin e' = nextBin e" "nextInBin e' = nextInBin e"
    using e(2) by (rule view_cases)
  moreover have "inbin h' (nextInBin e) xs" using inbin_view [of xs h' h] 3(2) e(3) by simp
  ultimately show ?case using 3(1,2) e by simp
qed auto

lemma queue_rep_view:
  assumes "\<forall>x\<in>set xs. map_option node_view (h' x) = map_option node_view (h x)" "queue_rep h p xs"
  shows "queue_rep h' p xs"
proof -
  obtain bs where bs: "bins h p bs" "bins_wf (key_of h) bs" "xs = concat bs"
    using assms(2) by (auto simp: queue_rep_def)
  have "key_of h x = key_of h' x" if "x \<in> set (concat bs)" for x
  proof -
    have "map_option node_view (h' x) = map_option node_view (h x)" using assms(1) that bs(3) by blast
    then show ?thesis by (cases "h x"; cases "h' x") (simp_all add: key_of_def node_view_def)
  qed
  then have "bins_wf (key_of h') bs" using bs(2) bins_wf_cong [of bs "key_of h" "key_of h'"] by simp
  then show ?thesis unfolding queue_rep_def using bins_view bs assms(1) by blast
qed

section \<open>Insertion\<close>

text \<open>The specification: before the first event that is not earlier.\<close>

definition insert_event :: "(nat \<Rightarrow> tick \<times> int) \<Rightarrow> nat \<Rightarrow> nat list \<Rightarrow> nat list" where
  "insert_event k ev xs =
     takeWhile (\<lambda>x. k x < k ev) xs @ ev # dropWhile (\<lambda>x. k x < k ev) xs"

lemma set_insert_event [simp]: "set (insert_event k ev xs) = insert ev (set xs)"
  by (metis insert_event_def list.simps(15) set_append takeWhile_dropWhile_id Un_insert_right)

lemma insert_event_split:
  "\<forall>x\<in>set xs. k x < k ev \<Longrightarrow> (case ys of [] \<Rightarrow> True | y # _ \<Rightarrow> k ev \<le> k y) \<Longrightarrow>
   insert_event k ev (xs @ ys) = xs @ ev # ys"
  by (cases ys) (simp_all add: insert_event_def takeWhile_append2 dropWhile_append2 not_less [symmetric])

text \<open>The first bin that is not earlier than the event gets it on top, or it gets a bin.\<close>

fun place :: "(nat \<Rightarrow> tick \<times> int) \<Rightarrow> nat \<Rightarrow> nat list list \<Rightarrow> nat list list" where
  "place k ev [] = [[ev]]"
| "place k ev (b # bs) = (if k ev < k (hd b) then [ev] # b # bs else (ev # b) # bs)"

lemma concat_place [simp]: "concat (place k ev bs) = ev # concat bs"
  by (cases bs) auto

definition not_before :: "(nat \<Rightarrow> tick \<times> int) \<Rightarrow> nat \<Rightarrow> nat list list \<Rightarrow> bool" where
  "not_before k ev bs \<longleftrightarrow> (case bs of [] \<Rightarrow> True | b # _ \<Rightarrow> k ev \<le> k (hd b))"

lemma place_wf:
  assumes "bins_wf k bs" "not_before k ev bs" "ev \<notin> set (concat bs)" "\<forall>b\<in>set bs. b \<noteq> []"
  shows "bins_wf k (place k ev bs)"
proof (cases bs)
  case (Cons b bs')
  then obtain x xs where b: "b = x # xs" using assms(4) by (cases b) auto
  have eq: "k y = k x" if "y \<in> set b" for y
    using assms(1) that b unfolding Cons bins_wf_Cons by (meson list.set_intros(1))
  have lt: "k x < k y" if "y \<in> set (concat bs')" for y
    using assms(1) that b unfolding Cons bins_wf_Cons by (meson list.set_intros(1))
  have le: "k ev \<le> k x" using assms(2) by (simp add: not_before_def Cons b)
  have later: "k ev < k y" if "y \<in> set (concat bs')" for y using le lt [OF that] by simp
  show ?thesis
  proof (cases "k ev < k x")
    case True
    have "k ev < k y" if "y \<in> set (concat (b # bs'))" for y
      using that True later eq by auto
    then have "bins_wf k ([ev] # b # bs')"
      using assms(1,3) unfolding Cons bins_wf_Cons [of k "[ev]"]
      by (simp del: concat.simps)
    then show ?thesis using True by (simp add: Cons b)
  next
    case False
    then have same: "k y = k x" if "y \<in> insert ev (set b)" for y using le eq that by auto
    then have "\<forall>y\<in>set (ev # b). \<forall>z\<in>set (ev # b). k y = k z" by (metis list.simps(15))
    moreover have "\<forall>y\<in>set (ev # b). \<forall>z\<in>set (concat bs'). k y < k z"
      using same lt by (metis list.simps(15))
    moreover have "distinct (ev # b)" "set (ev # b) \<inter> set (concat bs') = {}" "bins_wf k bs'"
      using assms(1,3) unfolding Cons bins_wf_Cons by auto
    ultimately have "bins_wf k ((ev # b) # bs')" by (simp only: bins_wf_Cons simp_thms)
    then show ?thesis using False by (simp add: Cons b)
  qed
qed (simp add: bins_wf_Cons)

lemma insertBefore_place:
  assumes "bins h cur bs" "h ev = Some e" "ev \<notin> set (concat bs)" "not_before (key_of h) ev bs"
  obtains h' where "insertBefore ev cur h = Inr h'" "relinked {ev} h h'"
    "bins h' (Some ev) (place (key_of h) ev bs)"
proof (cases bs)
  case Nil
  show ?thesis
    by (rule that [of "h(ev \<mapsto> e\<lparr>nextBin := None, nextInBin := None\<rparr>)"])
       (use assms Nil in \<open>auto simp: insertBefore_def intro: relinked_upd\<close>)
next
  case (Cons b bs')
  then obtain x xs ex where b: "b = x # xs" "cur = Some x" "h x = Some ex"
      "inbin h (nextInBin ex) xs" "bins h (nextBin ex) bs'"
    using assms(1) by (cases b) auto
  have nev: "x \<noteq> ev" "ev \<notin> set xs" "ev \<notin> set (concat bs')" using assms(3) Cons b by auto
  have fr: "inbin (h(ev := z)) q xs \<longleftrightarrow> inbin h q xs" "bins (h(ev := z)) q bs' \<longleftrightarrow> bins h q bs'" for q z
    using nev by (intro inbin_cong bins_cong; auto)+
  show ?thesis
  proof (cases "ev_key e < ev_key ex")
    case True
    show ?thesis
      by (rule that [of "h(ev \<mapsto> e\<lparr>nextBin := Some x, nextInBin := None\<rparr>)"])
         (use assms True nev b fr Cons in \<open>auto simp: insertBefore_def intro: relinked_upd\<close>)
  next
    case False
    show ?thesis
      by (rule that [of "h(ev \<mapsto> e\<lparr>nextBin := nextBin ex, nextInBin := Some x\<rparr>)"])
         (use assms False nev b fr Cons in \<open>auto simp: insertBefore_def intro: relinked_upd\<close>)
  qed
qed

text \<open>The search ends at the last bin before the event.\<close>

lemma bin_loop_finds:
  assumes "bins h (Some t) ((t # ts) # bs)" "h t = Some et" "key_of h t < ev_key e"
  obtains bs1 u us eu bs2 cur where "(t # ts) # bs = bs1 @ (u # us) # bs2"
    "bin_loop h e (t, nextBin et) = Some (Inr (u, cur))" "h u = Some eu" "key_of h u < ev_key e"
    "bins h cur bs2" "case bs2 of [] \<Rightarrow> True | b # _ \<Rightarrow> ev_key e \<le> key_of h (hd b)"
  using assms
proof (induction bs arbitrary: t ts et thesis)
  case Nil
  show ?case
    by (rule Nil.prems(1) [of "[]" t ts "[]" None et])
       (use Nil.prems in \<open>auto simp: bin_loop.simps [of h e]\<close>)
next
  case (Cons b bs)
  obtain x xs ex where b: "b = x # xs" "nextBin et = Some x" "h x = Some ex"
      "bins h (Some x) ((x # xs) # bs)"
    using Cons.prems(2,3) by (cases b) auto
  show ?case
  proof (cases "ev_key ex < ev_key e")
    case True
    obtain bs1 u us eu bs2 cur where *: "(x # xs) # bs = bs1 @ (u # us) # bs2"
        "bin_loop h e (x, nextBin ex) = Some (Inr (u, cur))" "h u = Some eu" "key_of h u < ev_key e"
        "bins h cur bs2" "case bs2 of [] \<Rightarrow> True | b # _ \<Rightarrow> ev_key e \<le> key_of h (hd b)"
      by (rule Cons.IH [OF _ b(4,3)]) (use True b in auto)
    have "bin_loop h e (t, nextBin et) = bin_loop h e (x, nextBin ex)"
      using True b by (simp add: bin_loop.simps [of h e "(t, _)"])
    with * b show ?thesis by (intro Cons.prems(1) [of "(t # ts) # bs1"]) auto
  next
    case False
    have "bin_loop h e (t, nextBin et) = Some (Inr (t, Some x))"
      using False b by (simp add: bin_loop.simps [of h e "(t, _)"])
    then show ?thesis
      by (rule Cons.prems(1) [of "[]" t ts "b # bs", rotated])
         (use Cons.prems False b in \<open>auto simp del: bins.simps(3)\<close>)
  qed
qed

lemma last_bin_greatest:
  assumes "bins_wf k (bs @ [u # us])" "x \<in> set (concat (bs @ [u # us]))"
  shows "k x \<le> k u"
proof (cases "x \<in> set (u # us)")
  case True
  have "\<forall>y\<in>set (u # us). \<forall>z\<in>set (u # us). k y = k z"
    using assms(1) unfolding bins_wf_append bins_wf_Cons by blast
  then have "k x = k u" using True by (meson list.set_intros(1))
  then show ?thesis by simp
next
  case False
  have "\<forall>y\<in>set (concat bs). \<forall>z\<in>set (concat [u # us]). k y < k z"
    using assms(1) unfolding bins_wf_append by blast
  moreover have "x \<in> set (concat bs)" "u \<in> set (concat [u # us])" using assms(2) False by auto
  ultimately show ?thesis by (meson less_imp_le)
qed

text \<open>
  What follows the last earlier bin can be exchanged for any well-formed list of bins after it.
\<close>

lemma queue_rep_relink:
  assumes "bins h p (bs1 @ (u # us) # bs2)" "bins_wf (key_of h) (bs1 @ (u # us) # bs2')"
    "h u = Some eu" "bins h1 r bs2'" "relinked X h h1" "X \<inter> set (concat (bs1 @ [u # us])) = {}"
    "u \<notin> set (concat bs2')"
  obtains h2 where "ev_upd (\<lambda>x. x\<lparr>nextBin := r\<rparr>) u h1 = Inr h2" "relinked (insert u X) h h2"
    "queue_rep h2 p (concat bs1 @ (u # us) @ concat bs2')"
proof
  let ?h = "h1(u \<mapsto> eu\<lparr>nextBin := r\<rparr>)"
  have same: "h1 y = h y" if "y \<in> set (concat (bs1 @ [u # us]))" for y
    using assms(5,6) that unfolding relinked_def by (metis disjoint_iff)
  then have u1: "h1 u = Some eu" using assms(3) by simp
  then show "ev_upd (\<lambda>x. x\<lparr>nextBin := r\<rparr>) u h1 = Inr ?h" by simp
  have rl: "relinked (insert u X) h1 ?h" using u1 by (intro relinked_upd) auto
  then show "relinked (insert u X) h ?h"
    using assms(5) by (meson relinked_mono relinked_trans subset_insertI)
  have nu: "u \<notin> set (concat bs1) \<union> set us"
    using bins_wf_distinct [OF assms(2)] by auto
  have "bins ?h r bs2'" using assms(4,7) by (subst bins_cong [of _ _ h1]) auto
  moreover have "\<forall>x\<in>set (concat bs1) \<union> set us. ?h x = h x" using same nu by auto
  ultimately have "bins ?h p (bs1 @ (u # us) # bs2')"
    by (intro bins_relink [OF assms(1,3), of ?h r]) simp_all
  moreover have "key_of ?h = key_of h"
    using relinked_key [OF rl] relinked_key [OF assms(5)] by simp
  ultimately show "queue_rep ?h p (concat bs1 @ (u # us) @ concat bs2')"
    unfolding queue_rep_def using assms(2) by (intro exI [of _ "bs1 @ (u # us) # bs2'"]) simp
qed

definition inserted :: "nat \<Rightarrow> ev_heap \<Rightarrow> nat option \<Rightarrow> nat list \<Rightarrow> bool" where
  "inserted ev h p xs \<longleftrightarrow> (\<exists>h' p'. evq_insert ev (h, p) = Inr (h', p') \<and>
     queue_rep h' p' (insert_event (key_of h) ev xs) \<and> relinked (insert ev (set xs)) h h')"

lemma insert_front:
  assumes bs: "bins h p bs" "bins_wf (key_of h) bs" "xs = concat bs"
    and ev: "h ev = Some e" "ev \<notin> set xs"
    and eq: "evq_insert ev (h, p) = bindR (insertBefore ev p h) (\<lambda>h1. Inr (h1, Some ev))"
    and nb: "not_before (key_of h) ev bs"
  shows "inserted ev h p xs"
proof -
  let ?k = "key_of h"
  have ne: "\<forall>b\<in>set bs. b \<noteq> []" using bins_nonempty [OF bs(1)] by blast
  obtain h1 where h1: "insertBefore ev p h = Inr h1" "relinked {ev} h h1"
      "bins h1 (Some ev) (place ?k ev bs)"
    using insertBefore_place bs ev nb by metis
  have "bins_wf (key_of h1) (place ?k ev bs)"
    unfolding relinked_key [OF h1(2)] using bs ev nb ne by (intro place_wf) auto
  then have "queue_rep h1 (Some ev) (ev # xs)"
    unfolding queue_rep_def using h1 bs by (intro exI [of _ "place ?k ev bs"]) simp
  moreover have "insert_event ?k ev xs = ev # xs"
    using insert_event_split [of "[]" ?k ev xs] nb ne unfolding bs(3)
    by (cases bs; cases "hd bs") (auto simp: not_before_def)
  ultimately show ?thesis using h1 eq by (auto simp: inserted_def intro: relinked_mono)
qed

lemma insert_after:
  assumes bs: "bins h p (bs1 @ (u # us) # bs2)" "bins_wf (key_of h) (bs1 @ (u # us) # bs2)"
    and ev: "h ev = Some e" "ev \<notin> set (concat (bs1 @ (u # us) # bs2))"
    and u: "h u = Some eu" "key_of h u < key_of h ev"
    and cur: "bins h cur bs2" "not_before (key_of h) ev bs2"
    and eq: "evq_insert ev (h, p) = bindR (insertBefore ev cur h) (\<lambda>h1.
      bindR (ev_upd (\<lambda>x. x\<lparr>nextBin := Some ev\<rparr>) u h1) (\<lambda>h2. Inr (h2, p)))"
  shows "inserted ev h p (concat (bs1 @ (u # us) # bs2))"
proof -
  let ?k = "key_of h" and ?pre = "concat (bs1 @ [u # us])"
  have ne: "\<forall>b\<in>set bs2. b \<noteq> []" using bins_nonempty [OF cur(1)] by blast
  obtain h1 where h1: "insertBefore ev cur h = Inr h1" "relinked {ev} h h1"
      "bins h1 (Some ev) (place ?k ev bs2)"
    using insertBefore_place [OF cur(1) ev(1) _ cur(2)] ev(2) by auto
  have w: "bins_wf ?k (bs1 @ [u # us])" "bins_wf ?k bs2" "set ?pre \<inter> set (concat bs2) = {}"
      "\<forall>x\<in>set ?pre. \<forall>y\<in>set (concat bs2). ?k x < ?k y"
    using bs(2) bins_wf_append [of ?k "bs1 @ [u # us]" bs2] by simp_all
  have before: "?k x < ?k ev" if "x \<in> set ?pre" for x
    using last_bin_greatest [OF w(1) that] u(2) by simp
  have "bins_wf ?k (place ?k ev bs2)" using w(2) cur(2) ev(2) ne by (intro place_wf) auto
  then have "bins_wf ?k ((bs1 @ [u # us]) @ place ?k ev bs2)"
    using w before ev(2) by (subst bins_wf_append) auto
  then have wf: "bins_wf ?k (bs1 @ (u # us) # place ?k ev bs2)" by simp
  obtain h2 where h2: "ev_upd (\<lambda>x. x\<lparr>nextBin := Some ev\<rparr>) u h1 = Inr h2"
      "relinked {u, ev} h h2" "queue_rep h2 p (concat bs1 @ (u # us) @ concat (place ?k ev bs2))"
    using queue_rep_relink [OF bs(1) wf u(1) h1(3,2)] ev(2) w(3) by auto
  have "insert_event ?k ev (?pre @ concat bs2) = ?pre @ ev # concat bs2"
    using before cur(2) ne
    by (intro insert_event_split ballI) (cases bs2; cases "hd bs2"; auto simp: not_before_def)+
  moreover have "relinked (insert ev (set (?pre @ concat bs2))) h h2"
    by (rule relinked_mono [OF h2(2)]) auto
  ultimately show ?thesis using h1(1) h2(1,3) eq by (simp add: inserted_def)
qed

theorem evq_insert_refines:
  assumes q: "queue_rep h p xs" and ev: "h ev = Some e" "ev \<notin> set xs"
  shows "inserted ev h p xs"
proof -
  obtain bs where bs: "bins h p bs" "bins_wf (key_of h) bs" "xs = concat bs"
    using q by (auto simp: queue_rep_def)
  show ?thesis
  proof (cases bs)
    case Nil
    then show ?thesis using bs ev by (intro insert_front [of h p bs]) (auto simp: evq_insert_def not_before_def)
  next
    case (Cons b bs')
    then obtain t ts et where b: "b = t # ts" "p = Some t" "h t = Some et" using bs by (cases b) auto
    show ?thesis
    proof (cases "ev_key e \<le> ev_key et")
      case True
      then show ?thesis using b ev Cons bs
        by (intro insert_front [of h p bs]) (auto simp: evq_insert_def not_before_def)
    next
      case False
      have t: "bins h (Some t) ((t # ts) # bs')" using bs b Cons by simp
      obtain bs1 u us eu bs2 cur where *: "(t # ts) # bs' = bs1 @ (u # us) # bs2"
          "bin_loop h e (t, nextBin et) = Some (Inr (u, cur))" "h u = Some eu" "key_of h u < ev_key e"
          "bins h cur bs2" "case bs2 of [] \<Rightarrow> True | b # _ \<Rightarrow> ev_key e \<le> key_of h (hd b)"
        by (rule bin_loop_finds [OF t b(3), of e]) (use b(3) False in auto)
      have split: "bs = bs1 @ (u # us) # bs2" using * b Cons by simp
      have "inserted ev h p (concat (bs1 @ (u # us) # bs2))"
        using *(3-6) bs b ev False *(2) unfolding split
        by (intro insert_after) (auto simp: evq_insert_def not_before_def split: list.splits)
      then show ?thesis by (simp add: bs(3) split)
    qed
  qed
qed

section \<open>Removal\<close>

text \<open>
  Within a bin the event is unlinked from the stack; when it was the top, the new top takes over
  the pointer to the next bin, which may have been stale.
\<close>

lemma item_loop_finds:
  assumes "inbin h (nextInBin ec) xs" "h c = Some ec" "ev \<in> set xs"
  obtains ys d zs ed where "c # xs = ys @ d # ev # zs" "h d = Some ed"
    "item_loop h ev (c, nextInBin ec) = Some (Inr d)"
  using assms
proof (induction xs arbitrary: c ec thesis)
  case (Cons x xs)
  obtain ex where x: "nextInBin ec = Some x" "h x = Some ex" "inbin h (nextInBin ex) xs"
    using Cons.prems(2) by auto
  show ?case
  proof (cases "x = ev")
    case True
    have "item_loop h ev (c, nextInBin ec) = Some (Inr c)"
      using True x by (simp add: item_loop.simps [of h ev "(c, _)"])
    then show ?thesis using True Cons.prems(3) by (intro Cons.prems(1) [of "[]"]) auto
  next
    case False
    have "item_loop h ev (c, nextInBin ec) = item_loop h ev (x, nextInBin ex)"
      using False x by (simp add: item_loop.simps [of h ev "(c, _)"])
    moreover obtain ys d zs ed where "x # xs = ys @ d # ev # zs" "h d = Some ed"
        "item_loop h ev (x, nextInBin ex) = Some (Inr d)"
      by (rule Cons.IH [OF _ x(3,2)]) (use False Cons.prems(4) in auto)
    ultimately show ?thesis by (intro Cons.prems(1) [of "c # ys"]) auto
  qed
qed simp

lemma item_loop_absent:
  "inbin h p xs \<Longrightarrow> ev \<notin> set xs \<Longrightarrow> item_loop h ev (c, p) = Some (Inl Panic)"
  by (induction xs arbitrary: c p) (auto simp: item_loop.simps [of h ev "(_, _)"])

lemma inbin_unlink:
  assumes "inbin h p (ys @ d # ev # zs)" "h d = Some ed" "h ev = Some e" "distinct (ys @ d # ev # zs)"
  shows "inbin (h(d \<mapsto> ed\<lparr>nextInBin := nextInBin e\<rparr>)) p (ys @ d # zs)"
  using assms
proof (induction ys arbitrary: p)
  case Nil
  then have "inbin h (nextInBin e) zs" by simp
  then have "inbin (h(d \<mapsto> ed\<lparr>nextInBin := nextInBin e\<rparr>)) (nextInBin e) zs"
    using Nil.prems(4) by (subst inbin_cong [of _ _ h]) auto
  then show ?case using Nil by (simp add: fun_upd_def)
qed auto

definition drop_item :: "nat \<Rightarrow> nat list \<Rightarrow> nat list list \<Rightarrow> nat list list" where
  "drop_item ev b bs = (if b = [ev] then bs else remove1 ev b # bs)"

lemma concat_drop_item [simp]: "concat (drop_item ev b bs) = remove1 ev b @ concat bs"
  by (simp add: drop_item_def)

lemma removeItem_drops:
  assumes b: "bins h (Some t) ((t # ts) # bs)" "ev \<in> set (t # ts)" "distinct (concat ((t # ts) # bs))"
  obtains h' r where "removeItem ev t h = Inr (h', r)" "bins h' r (drop_item ev (t # ts) bs)"
    "relinked (set (t # ts)) h h'"
proof -
  obtain et where t: "h t = Some et" "inbin h (nextInBin et) ts" "bins h (nextBin et) bs"
    using b(1) by auto
  show ?thesis
  proof (cases "ev = t")
    case True
    show ?thesis
    proof (cases ts)
      case Nil
      then show ?thesis using True t
        by (intro that [of h "nextBin et"]) (auto simp: removeItem_def drop_item_def relinked_refl)
    next
      case (Cons n ns)
      then obtain en where n: "nextInBin et = Some n" "h n = Some en" "inbin h (nextInBin en) ns"
        using t(2) by auto
      let ?h = "h(n \<mapsto> en\<lparr>nextBin := nextBin et\<rparr>)"
      have "inbin ?h (nextInBin en) ns" "bins ?h (nextBin et) bs"
        using b(3) Cons n(3) t(3) by (subst inbin_cong [of _ _ h] bins_cong [of _ _ h]; auto)+
      then show ?thesis using True t n Cons
        by (intro that [of ?h "Some n"])
           (auto simp: removeItem_def drop_item_def intro: relinked_upd)
    qed
  next
    case False
    obtain ys d zs ed where *: "t # ts = ys @ d # ev # zs" "h d = Some ed"
        "item_loop h ev (t, nextInBin et) = Some (Inr d)"
      by (rule item_loop_finds [OF t(2,1), of ev]) (use False b(2) in auto)
    obtain e where e: "h ev = Some e" using bins_alive [OF b(1), of ev] b(2) by auto
    let ?h = "h(d \<mapsto> ed\<lparr>nextInBin := nextInBin e\<rparr>)"
    have dist: "distinct (ys @ d # ev # zs)" using b(3) by (simp flip: *(1))
    obtain ts' where ts': "ys @ d # zs = t # ts'" using *(1) by (cases ys) auto
    have "inbin h (Some t) (ys @ d # ev # zs)" using t by (simp flip: *(1))
    then have in': "inbin ?h (Some t) (t # ts')" using inbin_unlink *(2) e dist by (simp flip: ts')
    have "d \<in> set (t # ts)" using *(1) by simp
    then have "bins ?h (nextBin et) bs"
      using b(3) t(3) by (subst bins_cong [of _ _ h]) auto
    moreover have "\<exists>et'. ?h t = Some et' \<and> nextBin et' = nextBin et" using t(1) *(2) by auto
    ultimately have bins': "bins ?h (Some t) ((t # ts') # bs)" using in' by auto
    have "remove1 ev (t # ts) = t # ts'"
      unfolding *(1) ts' [symmetric] using dist by (simp add: remove1_append)
    then have "drop_item ev (t # ts) bs = (t # ts') # bs" using False by (simp add: drop_item_def)
    then show ?thesis using False t e * bins'
      by (intro that [of ?h "Some t"]) (auto simp: removeItem_def intro!: relinked_upd)
  qed
qed

lemma removeItem_absent:
  assumes "bins h (Some t) ((t # ts) # bs)" "ev \<notin> set (t # ts)"
  shows "removeItem ev t h = Inl Panic"
  using assms by (auto simp: removeItem_def item_loop_absent)

lemma drop_item_wf:
  assumes "bins_wf k (b # bs)"
  shows "bins_wf k (drop_item ev b bs)"
proof -
  have "\<forall>x\<in>set (remove1 ev b). x \<in> set b" by (meson notin_set_remove1)
  then show ?thesis
    using assms unfolding drop_item_def by (auto simp: bins_wf_Cons)
qed

definition removed :: "nat \<Rightarrow> nat \<Rightarrow> ev_heap \<Rightarrow> nat option \<Rightarrow> nat list \<Rightarrow> bool" where
  "removed self ev h p xs \<longleftrightarrow> (\<exists>h' p'. evq_remove self ev (h, p) = Inr (h', p') \<and>
     queue_rep h' p' (remove1 ev xs) \<and> relinked (set xs) h h')"

lemma removeItem_front:
  assumes bs: "bins h (Some t) ((t # ts) # bs)" "bins_wf (key_of h) ((t # ts) # bs)"
    and ev: "ev \<in> set (t # ts)"
  obtains h' r where "removeItem ev t h = Inr (h', r)"
    "queue_rep h' r (remove1 ev (concat ((t # ts) # bs)))"
    "relinked (set (concat ((t # ts) # bs))) h h'"
proof -
  obtain h' r where *: "removeItem ev t h = Inr (h', r)" "bins h' r (drop_item ev (t # ts) bs)"
      "relinked (set (t # ts)) h h'"
    using removeItem_drops [OF bs(1) ev bins_wf_distinct [OF bs(2)]] .
  have "bins_wf (key_of h') (drop_item ev (t # ts) bs)"
    unfolding relinked_key [OF *(3)] by (rule drop_item_wf [OF bs(2)])
  then have "queue_rep h' r (remove1 ev (t # ts) @ concat bs)"
    unfolding queue_rep_def using *(2) by (intro exI [of _ "drop_item ev (t # ts) bs"]) simp
  then have "queue_rep h' r (remove1 ev (concat ((t # ts) # bs)))"
    using ev by (auto simp: remove1_append split: if_splits)
  moreover have "relinked (set (concat ((t # ts) # bs))) h h'"
    by (rule relinked_mono [OF *(3)]) auto
  ultimately show ?thesis using *(1) that by blast
qed

text \<open>Taking the first event off the queue.\<close>

lemma removeItem_head:
  assumes "queue_rep h p (ev # xs)"
  obtains h' r where "p = Some ev" "removeItem ev ev h = Inr (h', r)" "queue_rep h' r xs"
    "relinked (set (ev # xs)) h h'"
proof -
  obtain bs where bs: "bins h p bs" "bins_wf (key_of h) bs" "ev # xs = concat bs"
    using assms by (auto simp: queue_rep_def)
  then obtain ts bs' where c: "bs = (ev # ts) # bs'" "p = Some ev"
    by (cases "(h, p, bs)" rule: bins.cases) auto
  obtain h' r where "removeItem ev ev h = Inr (h', r)"
      "queue_rep h' r (remove1 ev (concat ((ev # ts) # bs')))"
      "relinked (set (concat ((ev # ts) # bs'))) h h'"
    by (rule removeItem_front [of h ev ts bs' ev]) (use bs c in simp_all)
  then show ?thesis using that bs(3) c by simp
qed

lemma remove_front:
  assumes bs: "bins h (Some t) ((t # ts) # bs)" "bins_wf (key_of h) ((t # ts) # bs)"
    and ev: "ev \<in> set (t # ts)"
    and eq: "evq_remove self ev (h, Some t) = removeItem ev t h"
  shows "removed self ev h (Some t) (concat ((t # ts) # bs))"
  using removeItem_front [OF bs ev] unfolding removed_def eq by blast

lemma remove_after:
  assumes bs: "bins h p (bs1 @ (u # us) # (t # ts) # bs)"
      "bins_wf (key_of h) (bs1 @ (u # us) # (t # ts) # bs)"
    and ev: "ev \<in> set (t # ts)" and u: "h u = Some eu"
    and t: "bins h (Some t) ((t # ts) # bs)"
    and eq: "evq_remove self ev (h, p) = bindR (removeItem ev t h) (\<lambda>(h1, r).
      bindR (ev_upd (\<lambda>x. x\<lparr>nextBin := r\<rparr>) u h1) (\<lambda>h2. Inr (h2, p)))"
  shows "removed self ev h p (concat (bs1 @ (u # us) # (t # ts) # bs))"
proof -
  let ?k = "key_of h" and ?pre = "concat (bs1 @ [u # us])" and ?d = "drop_item ev (t # ts) bs"
  have w: "bins_wf ?k (bs1 @ [u # us])" "bins_wf ?k ((t # ts) # bs)"
      "set ?pre \<inter> set (concat ((t # ts) # bs)) = {}"
      "\<forall>x\<in>set ?pre. \<forall>y\<in>set (concat ((t # ts) # bs)). ?k x < ?k y"
    using bs(2) bins_wf_append [of ?k "bs1 @ [u # us]" "(t # ts) # bs"] by simp_all
  obtain h1 r where h1: "removeItem ev t h = Inr (h1, r)" "bins h1 r ?d" "relinked (set (t # ts)) h h1"
    using removeItem_drops [OF t ev bins_wf_distinct [OF w(2)]] .
  have sub: "set (concat ?d) \<subseteq> set (concat ((t # ts) # bs))"
    using set_remove1_subset [of ev "t # ts"] by auto
  have "bins_wf ?k ((bs1 @ [u # us]) @ ?d)"
    unfolding bins_wf_append [of ?k "bs1 @ [u # us]" ?d]
    using w drop_item_wf [OF w(2), of ev] sub by (meson disjoint_iff subset_iff)
  then have wf: "bins_wf ?k (bs1 @ (u # us) # ?d)" by simp
  have "set (t # ts) \<inter> set ?pre = {}" "u \<notin> set (concat ?d)" using w(3) sub by auto
  then obtain h2 where h2: "ev_upd (\<lambda>x. x\<lparr>nextBin := r\<rparr>) u h1 = Inr h2"
      "relinked (insert u (set (t # ts))) h h2" "queue_rep h2 p (concat bs1 @ (u # us) @ concat ?d)"
    using queue_rep_relink [OF bs(1) wf u h1(2,3)] by blast
  have "ev \<notin> set ?pre" using w(3) ev by auto
  then have "remove1 ev (?pre @ (t # ts) @ concat bs) = concat bs1 @ (u # us) @ concat ?d"
    using ev by (simp only: remove1_append concat_drop_item) simp
  moreover have "relinked (set (concat (bs1 @ (u # us) # (t # ts) # bs))) h h2"
    by (rule relinked_mono [OF h2(2)]) auto
  ultimately show ?thesis using h1(1) h2(1,3) eq by (simp add: removed_def)
qed

text \<open>
  The search for the bin of an event that is in the queue stops at that bin.
\<close>

lemma bin_of_member:
  assumes "bins_wf k (b # bs)" "ev \<in> set (concat (b # bs))" "b = t # ts" "k ev \<le> k t"
  shows "ev \<in> set b" "k ev = k t"
proof -
  show "ev \<in> set b"
    using assms unfolding bins_wf_Cons
    by (metis UnE concat.simps(2) list.set_intros(1) not_less set_append)
  then show "k ev = k t" using assms(1,3) unfolding bins_wf_Cons by (meson list.set_intros(1))
qed

theorem evq_remove_refines:
  assumes q: "queue_rep h p xs" and ev: "h ev = Some e" "ev \<in> set xs" "ev_queue e = Some self"
  shows "removed self ev h p xs"
proof -
  obtain bs where bs: "bins h p bs" "bins_wf (key_of h) bs" "xs = concat bs"
    using q by (auto simp: queue_rep_def)
  obtain b bs' where b: "bs = b # bs'" using bs(3) ev(2) by (cases bs) auto
  obtain t ts et where t: "b = t # ts" "p = Some t" "h t = Some et" using bs b by (cases b) auto
  have t': "bins h (Some t) ((t # ts) # bs')" using bs b t by simp
  show ?thesis
  proof (cases "ev_key e \<le> ev_key et")
    case True
    have *: "ev \<in> set b" "key_of h ev = key_of h t"
      using bin_of_member [of "key_of h" b bs' ev t ts] bs b t ev True by auto
    then have "evq_remove self ev (h, Some t) = removeItem ev t h"
      using ev t by (simp add: evq_remove_def)
    then show ?thesis using remove_front [OF t'] bs(2,3) b t * by simp
  next
    case False
    obtain bs1 u us eu bs2 cur where *: "(t # ts) # bs' = bs1 @ (u # us) # bs2"
        "bin_loop h e (t, nextBin et) = Some (Inr (u, cur))" "h u = Some eu" "key_of h u < ev_key e"
        "bins h cur bs2" "case bs2 of [] \<Rightarrow> True | b # _ \<Rightarrow> ev_key e \<le> key_of h (hd b)"
      by (rule bin_loop_finds [OF t' t(3), of e]) (use t(3) False in auto)
    have split: "bs = bs1 @ (u # us) # bs2" using * b t by simp
    have w: "bins_wf (key_of h) (bs1 @ [u # us])" "bins_wf (key_of h) bs2"
      using bs(2) bins_wf_append [of _ "bs1 @ [u # us]" bs2] by (simp_all add: split)
    have "ev \<notin> set (concat (bs1 @ [u # us]))"
      using last_bin_greatest [OF w(1), of ev] *(4) ev(1) by fastforce
    then have in2: "ev \<in> set (concat bs2)" using ev(2) by (auto simp: bs(3) split)
    then obtain c bs3 where c: "bs2 = c # bs3" by (cases bs2) auto
    then obtain v vs ev' where v: "c = v # vs" "cur = Some v" "h v = Some ev'"
      using *(5) by (cases c) auto
    have m: "ev \<in> set c" "key_of h ev = key_of h v"
      using bin_of_member [of "key_of h" c bs3 ev v vs] w(2) in2 c v *(6) ev(1) by auto
    have "ev_key et \<noteq> ev_key e" using False by auto
    then have "evq_remove self ev (h, p) = bindR (removeItem ev v h) (\<lambda>(h1, r).
        bindR (ev_upd (\<lambda>x. x\<lparr>nextBin := r\<rparr>) u h1) (\<lambda>h2. Inr (h2, p)))"
      using ev t *(2) v m by (simp add: evq_remove_def case_prod_beta)
    then show ?thesis
      using remove_after [of h p bs1 u us v vs bs3 ev eu self] bs split c v m *(3,5) by simp
  qed
qed

text \<open>An event that is not in the queue is not found, wherever its key lies.\<close>

lemma bin_loop_result:
  assumes "bins h cur bs" "h prev = Some ep"
  obtains u c where "bin_loop h e (prev, cur) = Some (Inr (u, c))"
    "c = None \<or> (\<exists>t ts bs1 bs2. c = Some t \<and> bs = bs1 @ (t # ts) # bs2 \<and> bins h c ((t # ts) # bs2))"
  using assms
proof (induction bs arbitrary: prev cur ep thesis)
  case Nil
  then show ?case by (simp add: bin_loop.simps)
next
  case (Cons b bs)
  obtain x xs ex where b: "b = x # xs" "cur = Some x" "h x = Some ex" "bins h (nextBin ex) bs"
    using Cons.prems(2) by (cases b) auto
  show ?case
  proof (cases "ev_key ex < ev_key e")
    case True
    obtain u c where *: "bin_loop h e (x, nextBin ex) = Some (Inr (u, c))" "c = None \<or>
        (\<exists>t ts bs1 bs2. c = Some t \<and> bs = bs1 @ (t # ts) # bs2 \<and> bins h c ((t # ts) # bs2))"
      by (rule Cons.IH [OF _ b(4,3)])
    have eq: "bin_loop h e (prev, cur) = Some (Inr (u, c))"
      using True b *(1) by (simp add: bin_loop.simps [of h e "(prev, _)"])
    have "bs = bs1 @ z \<Longrightarrow> b # bs = (b # bs1) @ z" for bs1 z by simp
    then show ?thesis using *(2) by (intro Cons.prems(1) [OF eq]) blast
  next
    case False
    have eq: "bin_loop h e (prev, cur) = Some (Inr (prev, cur))"
      using False b by (simp add: bin_loop.simps [of h e "(prev, _)"])
    show ?thesis using b Cons.prems(2) by (intro Cons.prems(1) [OF eq]) blast
  qed
qed

theorem evq_remove_absent:
  assumes q: "queue_rep h p xs" and ev: "h ev = Some e" "ev \<notin> set xs" "ev_queue e = Some self"
  shows "evq_remove self ev (h, p) = Inl Panic"
proof -
  obtain bs where bs: "bins h p bs" "xs = concat bs" using q by (auto simp: queue_rep_def)
  show ?thesis
  proof (cases bs)
    case Nil
    then show ?thesis using bs by (simp add: evq_remove_def)
  next
    case (Cons b bs')
    then obtain t ts et where t: "b = t # ts" "p = Some t" "h t = Some et"
        "bins h (Some t) ((t # ts) # bs')" "bins h (nextBin et) bs'"
      using bs by (cases b) auto
    obtain u c where c: "bin_loop h e (t, nextBin et) = Some (Inr (u, c))" "c = None \<or>
        (\<exists>v vs bs1 bs2. c = Some v \<and> bs' = bs1 @ (v # vs) # bs2 \<and> bins h c ((v # vs) # bs2))"
      using bin_loop_result [OF t(5,3), of e] .
    have head: "removeItem ev t h = Inl Panic"
      using removeItem_absent [OF t(4)] ev(2) bs(2) Cons t(1) by simp
    have rest: "removeItem ev v h = Inl Panic \<and> (\<exists>x. h v = Some x)" if "c = Some v" for v
    proof -
      obtain vs bs1 bs2 where v: "bs' = bs1 @ (v # vs) # bs2" "bins h (Some v) ((v # vs) # bs2)"
        using c(2) \<open>c = Some v\<close> by auto
      then show ?thesis using removeItem_absent [OF v(2), of ev] ev(2) bs(2) Cons by auto
    qed
    show ?thesis using ev t c(1) head rest
      by (cases c) (auto simp: evq_remove_def)
  qed
qed

end
