(* ===== verification/Event_Sim.thy ===== *)
theory Event_Sim
  imports Event_Queue
begin

unbundle bit_operations_syntax

text \<open>
  The operations of gem5's event queues (\<open>src/sim/eventq.hh\<close>, \<open>src/sim/eventq.cc\<close>) on
  a state that holds the event objects and all main event queues: scheduling, descheduling and
  rescheduling, the service of one event and of all events up to a time, asynchronous insertion in
  parallel mode, checkpointing.  \<open>Event::process\<close> is a parameter, an arbitrary state
  transformer.  The mutexes are left out: each operation runs alone.

  \<open>sim_rep s L\<close> is the invariant: \<open>L\<close> lists, for each queue, its events in the order
  of service, and the scheduled events are exactly those of the lists and those waiting for
  asynchronous insertion.
\<close>

section \<open>State\<close>

text \<open>A queue's name is \<open>MainEventQueue-\<close> and the number.\<close>

record evq =
  evq_name :: nat
  evq_head :: "nat option"
  evq_curTick :: tick
  evq_async :: "nat list"

record evsim =
  ev_store :: ev_heap
  mainEventQueue :: "evq list"
  curEventQueue :: "nat option"
  inParallelMode :: bool

definition newEventQueue :: "nat \<Rightarrow> evq" where
  "newEventQueue n = \<lparr>evq_name = n, evq_head = None, evq_curTick = 0, evq_async = []\<rparr>"

definition getEventQueue :: "nat \<Rightarrow> evsim \<Rightarrow> evsim" where
  "getEventQueue i s = s\<lparr>mainEventQueue := mainEventQueue s @
     replicate (Suc i - length (mainEventQueue s)) (newEventQueue i)\<rparr>"

definition set_queue :: "nat \<Rightarrow> evq \<Rightarrow> evsim \<Rightarrow> evsim" where
  "set_queue q x s = s\<lparr>mainEventQueue := (mainEventQueue s)[q := x]\<rparr>"

definition ev_modify :: "(event \<Rightarrow> event) \<Rightarrow> nat \<Rightarrow> evsim \<Rightarrow> evsim res" where
  "ev_modify f ev s = bindR (ev_upd f ev (ev_store s)) (\<lambda>h. Inr (s\<lparr>ev_store := h\<rparr>))"

definition q_insert :: "nat \<Rightarrow> nat \<Rightarrow> evsim \<Rightarrow> evsim res" where
  "q_insert q ev s = bindR (vec_at (mainEventQueue s) q) (\<lambda>eq.
     bindR (evq_insert ev (ev_store s, evq_head eq)) (\<lambda>(h, p).
     Inr (set_queue q (eq\<lparr>evq_head := p\<rparr>) (s\<lparr>ev_store := h\<rparr>))))"

definition q_remove :: "nat \<Rightarrow> nat \<Rightarrow> evsim \<Rightarrow> evsim res" where
  "q_remove q ev s = bindR (vec_at (mainEventQueue s) q) (\<lambda>eq.
     bindR (evq_remove q ev (ev_store s, evq_head eq)) (\<lambda>(h, p).
     Inr (set_queue q (eq\<lparr>evq_head := p\<rparr>) (s\<lparr>ev_store := h\<rparr>))))"

definition setCurTick :: "nat \<Rightarrow> tick \<Rightarrow> evsim \<Rightarrow> evsim res" where
  "setCurTick q t s = bindR (vec_at (mainEventQueue s) q) (\<lambda>eq.
     Inr (set_queue q (eq\<lparr>evq_curTick := t\<rparr>) s))"

section \<open>Operations\<close>

definition setFlags :: "16 word \<Rightarrow> nat \<Rightarrow> evsim \<Rightarrow> evsim res" where
  "setFlags m ev s = checkR AssertFail (flag_noneSet m (NOT PublicWrite))
     (ev_modify (flag_set m) ev s)"

definition clearFlags :: "16 word \<Rightarrow> nat \<Rightarrow> evsim \<Rightarrow> evsim res" where
  "clearFlags m ev s = checkR AssertFail (flag_noneSet m (NOT PublicWrite))
     (ev_modify (flag_clear m) ev s)"

definition squash :: "nat \<Rightarrow> evsim \<Rightarrow> evsim res" where
  "squash ev s = ev_modify (flag_set Squashed) ev s"

definition deleteEvent :: "nat \<Rightarrow> evsim \<Rightarrow> evsim res" where
  "deleteEvent ev s = bindR (ev_at (ev_store s) ev) (\<lambda>e.
     checkR AssertFail (\<not> scheduled e) (Inr (s\<lparr>ev_store := (ev_store s)(ev := None)\<rparr>)))"

definition acquireImpl :: "nat \<Rightarrow> evsim \<Rightarrow> evsim res" where
  "acquireImpl ev s = Inr s"

definition releaseImpl :: "nat \<Rightarrow> evsim \<Rightarrow> evsim res" where
  "releaseImpl ev s = bindR (ev_at (ev_store s) ev) (\<lambda>e.
     if \<not> scheduled e then deleteEvent ev s else Inr s)"

definition acquire :: "nat \<Rightarrow> evsim \<Rightarrow> evsim res" where
  "acquire ev s = bindR (ev_at (ev_store s) ev) (\<lambda>e.
     if isManaged e then acquireImpl ev s else Inr s)"

definition release :: "nat \<Rightarrow> evsim \<Rightarrow> evsim res" where
  "release ev s = bindR (ev_at (ev_store s) ev) (\<lambda>e.
     if isManaged e then releaseImpl ev s else Inr s)"

definition setWhen :: "tick \<Rightarrow> nat \<Rightarrow> nat \<Rightarrow> evsim \<Rightarrow> evsim res" where
  "setWhen w q ev s = ev_modify (\<lambda>e. e\<lparr>ev_when := w, ev_queue := Some q\<rparr>) ev s"

definition asyncInsert :: "nat \<Rightarrow> nat \<Rightarrow> evsim \<Rightarrow> evsim res" where
  "asyncInsert q ev s = bindR (vec_at (mainEventQueue s) q) (\<lambda>eq.
     Inr (set_queue q (eq\<lparr>evq_async := evq_async eq @ [ev]\<rparr>) s))"

definition schedule :: "nat \<Rightarrow> nat \<Rightarrow> tick \<Rightarrow> bool \<Rightarrow> evsim \<Rightarrow> evsim res" where
  "schedule q ev w global s = bindR (vec_at (mainEventQueue s) q) (\<lambda>eq.
     checkR AssertFail (evq_curTick eq \<le> w) (bindR (ev_at (ev_store s) ev) (\<lambda>e.
     checkR AssertFail (\<not> scheduled e) (checkR AssertFail (initialized e)
     (bindR (setWhen w q ev s) (\<lambda>s1.
      bindR (if inParallelMode s \<and> (curEventQueue s \<noteq> Some q \<or> global)
             then asyncInsert q ev s1 else q_insert q ev s1) (\<lambda>s2.
      bindR (ev_modify (flag_set Scheduled) ev s2) (acquire ev))))))))"

definition deschedule :: "nat \<Rightarrow> nat \<Rightarrow> evsim \<Rightarrow> evsim res" where
  "deschedule q ev s = bindR (ev_at (ev_store s) ev) (\<lambda>e.
     checkR AssertFail (scheduled e) (checkR AssertFail (initialized e)
     (checkR AssertFail (\<not> inParallelMode s \<or> curEventQueue s = Some q)
     (bindR (q_remove q ev s) (\<lambda>s1.
      bindR (ev_modify (flag_clear Squashed) ev s1) (\<lambda>s2.
      bindR (ev_modify (flag_clear Scheduled) ev s2) (release ev)))))))"

definition reschedule :: "nat \<Rightarrow> nat \<Rightarrow> tick \<Rightarrow> bool \<Rightarrow> evsim \<Rightarrow> evsim res" where
  "reschedule q ev w always s = bindR (vec_at (mainEventQueue s) q) (\<lambda>eq.
     checkR AssertFail (evq_curTick eq \<le> w) (bindR (ev_at (ev_store s) ev) (\<lambda>e.
     checkR AssertFail (always \<or> scheduled e) (checkR AssertFail (initialized e)
     (checkR AssertFail (\<not> inParallelMode s \<or> curEventQueue s = Some q)
     (bindR (if scheduled e then q_remove q ev s else acquire ev s) (\<lambda>s1.
      bindR (setWhen w q ev s1) (\<lambda>s2.
      bindR (q_insert q ev s2) (\<lambda>s3.
      bindR (ev_modify (flag_clear Squashed) ev s3) (ev_modify (flag_set Scheduled) ev))))))))))"

text \<open>
  \<open>serviceOne\<close> in two parts: taking the event off the queue and advancing the time, and what
  follows the event's action.
\<close>

definition service_pop :: "nat \<Rightarrow> evsim \<Rightarrow> (evsim \<times> nat) res" where
  "service_pop q s = bindR (vec_at (mainEventQueue s) q) (\<lambda>eq. case evq_head eq of
     None \<Rightarrow> Inl NullDeref
   | Some ev \<Rightarrow> bindR (ev_at (ev_store s) ev) (\<lambda>e.
       bindR (ev_modify (flag_clear Scheduled) ev s) (\<lambda>s1.
       bindR (case nextInBin e of
           Some n \<Rightarrow> bindR (ev_modify (\<lambda>x. x\<lparr>nextBin := nextBin e\<rparr>) n s1) (\<lambda>s2. Inr (s2, Some n))
         | None \<Rightarrow> Inr (s1, nextBin e)) (\<lambda>(s2, p).
       Inr (set_queue q (eq\<lparr>evq_head := p\<rparr>) s2, ev)))))"

definition service_finish :: "nat \<Rightarrow> evsim \<Rightarrow> (evsim \<times> nat option) res" where
  "service_finish ev s = bindR (ev_at (ev_store s) ev) (\<lambda>e.
     if isExitEvent e then
       checkR AssertFail (\<not> flag_isSet (ev_flags e) Managed \<or> \<not> flag_isSet (ev_flags e) IsMainQueue)
         (Inr (s, Some ev))
     else bindR (release ev s) (\<lambda>s1. Inr (s1, None)))"

definition serviceOne ::
  "nat \<Rightarrow> (nat \<Rightarrow> evsim \<Rightarrow> evsim res) \<Rightarrow> evsim \<Rightarrow> (evsim \<times> nat option) res" where
  "serviceOne q process s = bindR (service_pop q s) (\<lambda>(s1, ev).
     bindR (ev_at (ev_store s1) ev) (\<lambda>e.
     if \<not> squashed e then
       bindR (setCurTick q (ev_when e) s1) (\<lambda>s2.
       bindR (process ev s2) (service_finish ev))
     else bindR (ev_modify (flag_clear Squashed) ev s1) (\<lambda>s2.
       bindR (release ev s2) (\<lambda>s3. Inr (s3, None)))))"

text \<open>\<open>empty\<close> and \<open>nextTick\<close>: the time of the first event, if there is one.\<close>

definition nextTick :: "nat \<Rightarrow> evsim \<Rightarrow> tick option res" where
  "nextTick q s = bindR (vec_at (mainEventQueue s) q) (\<lambda>eq. case evq_head eq of
     None \<Rightarrow> Inr None
   | Some p \<Rightarrow> bindR (ev_at (ev_store s) p) (\<lambda>e. Inr (Some (ev_when e))))"

partial_function (option) service_loop ::
  "nat \<Rightarrow> tick \<Rightarrow> (nat \<Rightarrow> evsim \<Rightarrow> evsim res) \<Rightarrow> evsim \<Rightarrow> evsim res option" where
  "service_loop q w process s = (case nextTick q s of
     Inl x \<Rightarrow> Some (Inl x)
   | Inr t \<Rightarrow> if t = None \<or> the t > w then Some (Inr s)
       else (case serviceOne q process s of
         Inl x \<Rightarrow> Some (Inl x)
       | Inr r \<Rightarrow> service_loop q w process (fst r)))"

definition serviceEvents ::
  "nat \<Rightarrow> tick \<Rightarrow> (nat \<Rightarrow> evsim \<Rightarrow> evsim res) \<Rightarrow> evsim \<Rightarrow> evsim res" where
  "serviceEvents q w process s = bindR (loopR (service_loop q w process s)) (setCurTick q w)"

partial_function (option) destroy_loop :: "nat \<Rightarrow> evsim \<Rightarrow> evsim res option" where
  "destroy_loop q s = (case vec_at (mainEventQueue s) q of
     Inl x \<Rightarrow> Some (Inl x)
   | Inr eq \<Rightarrow> (case evq_head eq of
       None \<Rightarrow> Some (Inr s)
     | Some p \<Rightarrow> (case deschedule q p s of
         Inl x \<Rightarrow> Some (Inl x)
       | Inr s' \<Rightarrow> destroy_loop q s')))"

definition set_async :: "nat \<Rightarrow> nat list \<Rightarrow> evsim \<Rightarrow> evsim res" where
  "set_async q evs s = bindR (vec_at (mainEventQueue s) q) (\<lambda>eq.
     Inr (set_queue q (eq\<lparr>evq_async := evs\<rparr>) s))"

fun async_loop :: "nat \<Rightarrow> nat list \<Rightarrow> evsim \<Rightarrow> evsim res" where
  "async_loop q [] s = Inr s"
| "async_loop q (ev # evs) s = bindR (q_insert q ev s) (\<lambda>s1.
     bindR (set_async q evs s1) (async_loop q evs))"

definition handleAsyncInsertions :: "nat \<Rightarrow> evsim \<Rightarrow> evsim res" where
  "handleAsyncInsertions q s = checkR AssertFail (curEventQueue s = Some q)
     (bindR (vec_at (mainEventQueue s) q) (\<lambda>eq. async_loop q (evq_async eq) s))"

section \<open>The debugging check\<close>

text \<open>
  The inner and the outer loop of \<open>debugVerify\<close>; the accumulator holds the time and the
  priority of the last event and the events seen so far, \<open>None\<close> is the early
  \<open>return false\<close>.
\<close>

partial_function (option) verify_bin ::
  "ev_heap \<Rightarrow> nat option \<times> tick \<times> int \<times> nat list \<Rightarrow> (tick \<times> int \<times> nat list) option res option" where
  "verify_bin h st = (case st of (p, time, pri, seen) \<Rightarrow> (case p of
     None \<Rightarrow> Some (Inr (Some (time, pri, seen)))
   | Some x \<Rightarrow> (case h x of
       None \<Rightarrow> Some (Inl UseAfterFree)
     | Some e \<Rightarrow>
         if ev_when e < time then Some (Inr None)
         else if ev_when e = time \<and> sint (ev_priority e) < pri then Some (Inr None)
         else if x \<in> set seen then Some (Inr None)
         else verify_bin h (nextInBin e, ev_when e, sint (ev_priority e), x # seen))))"

partial_function (option) verify_bins ::
  "ev_heap \<Rightarrow> nat option \<times> tick \<times> int \<times> nat list \<Rightarrow> bool res option" where
  "verify_bins h st = (case st of (p, acc) \<Rightarrow> (case p of
     None \<Rightarrow> Some (Inr True)
   | Some x \<Rightarrow> (case loopR (verify_bin h (p, acc)) of
       Inl err \<Rightarrow> Some (Inl err)
     | Inr r \<Rightarrow> (case r of
         None \<Rightarrow> Some (Inr False)
       | Some acc' \<Rightarrow> (case h x of
           None \<Rightarrow> Some (Inl UseAfterFree)
         | Some e \<Rightarrow> verify_bins h (nextBin e, acc'))))))"

definition debugVerify :: "nat \<Rightarrow> evsim \<Rightarrow> bool res" where
  "debugVerify q s = bindR (vec_at (mainEventQueue s) q) (\<lambda>eq.
     loopR (verify_bins (ev_store s) (evq_head eq, 0, 0, [])))"

section \<open>Checkpoints\<close>

definition serialize :: "event \<Rightarrow> tick \<times> 8 word \<times> 16 word" where
  "serialize e = (ev_when e, ev_priority e, ev_flags e)"

definition unserialize :: "tick \<times> 8 word \<times> 16 word \<Rightarrow> event \<Rightarrow> event res" where
  "unserialize cp e = (case cp of (w, p, f) \<Rightarrow> checkR AssertFail (\<not> scheduled e)
     (checkR AssertFail (initialized e)
       (let e1 = flag_set Initialized (e\<lparr>ev_when := w, ev_priority := p, ev_flags := f\<rparr>) in
        Inr (if flag_isSet (ev_flags e1) Scheduled \<and> \<not> flag_isSet (ev_flags e1) Squashed
             then flag_clear (Squashed OR Scheduled) e1 else e1))))"

definition checkpointReschedule :: "nat \<Rightarrow> nat \<Rightarrow> evsim \<Rightarrow> evsim res" where
  "checkpointReschedule q ev s = bindR (ev_at (ev_store s) ev) (\<lambda>e.
     if flag_isSet (ev_flags e) Scheduled then q_insert q ev s else Inr s)"

section \<open>Flags\<close>

lemma disjoint_bits: "(m :: 16 word) AND k = 0 \<Longrightarrow> bit m n \<Longrightarrow> \<not> bit k n"
  by (metis bit_and_iff bit_0_eq bot_apply bot_bool_def)

lemma flags_other:
  fixes f m k :: "16 word"
  assumes "m AND k = 0"
  shows "(f OR m) AND k = f AND k" "(f AND NOT m) AND k = f AND k"
  using disjoint_bits [OF assms] by (auto intro!: bit_word_eqI simp: bit_simps)

lemma flags_same:
  fixes f m :: "16 word"
  shows "(f OR m) AND m = m" "(f AND NOT m) AND m = 0"
  by (auto intro!: bit_word_eqI simp: bit_simps)

lemmas flag_preds = scheduled_def squashed_def isManaged_def isExitEvent_def initialized_def
  flag_isSet_def flag_noneSet_def
lemmas flag_masks = PublicWrite_def Squashed_def Scheduled_def Managed_def IsExitEvent_def
  IsMainQueue_def InitMask_def

lemma mask_facts:
  "Scheduled AND Squashed = 0" "Squashed AND Scheduled = 0" "Scheduled AND InitMask = 0"
  "Squashed AND InitMask = 0" "Scheduled \<noteq> 0" "Squashed \<noteq> 0"
  "Scheduled AND Managed = 0" "Squashed AND Managed = 0"
  "Scheduled AND IsExitEvent = 0" "Squashed AND IsExitEvent = 0"
  by (simp_all add: flag_masks)

lemma scheduled_flags [simp]:
  "scheduled (flag_set Scheduled e)"
  "\<not> scheduled (flag_clear Scheduled e)"
  "scheduled (flag_set Squashed e) \<longleftrightarrow> scheduled e"
  "scheduled (flag_clear Squashed e) \<longleftrightarrow> scheduled e"
  by (simp_all add: flag_preds flag_set_def flag_clear_def flags_same flags_other mask_facts)

lemma initialized_flags [simp]:
  "initialized (flag_set Scheduled e) \<longleftrightarrow> initialized e"
  "initialized (flag_clear Scheduled e) \<longleftrightarrow> initialized e"
  "initialized (flag_set Squashed e) \<longleftrightarrow> initialized e"
  "initialized (flag_clear Squashed e) \<longleftrightarrow> initialized e"
  by (simp_all add: flag_preds flag_set_def flag_clear_def flags_other mask_facts)

lemma squashed_flags [simp]:
  "\<not> squashed (flag_clear Squashed e)"
  "squashed (flag_set Scheduled e) \<longleftrightarrow> squashed e"
  "squashed (flag_clear Scheduled e) \<longleftrightarrow> squashed e"
  by (simp_all add: flag_preds flag_set_def flag_clear_def flags_same flags_other mask_facts)

lemma other_flags [simp]:
  "isManaged (flag_set Scheduled e) \<longleftrightarrow> isManaged e"
  "isManaged (flag_clear Scheduled e) \<longleftrightarrow> isManaged e"
  "isManaged (flag_clear Squashed e) \<longleftrightarrow> isManaged e"
  "isExitEvent (flag_clear Scheduled e) \<longleftrightarrow> isExitEvent e"
  "isExitEvent (flag_clear Squashed e) \<longleftrightarrow> isExitEvent e"
  by (simp_all add: flag_preds flag_set_def flag_clear_def flags_other mask_facts)

text \<open>The flags that code outside the queue may write do not say whether an event is scheduled.\<close>

lemma public_write_other:
  assumes "flag_noneSet m (NOT PublicWrite)"
  shows "m AND Scheduled = 0" "m AND InitMask = 0"
proof -
  have sub: "m AND k = 0" if "k AND PublicWrite = 0" for k
  proof (rule bit_word_eqI)
    fix n assume "n < LENGTH(16)"
    then show "bit (m AND k) n \<longleftrightarrow> bit (0 :: 16 word) n"
      using disjoint_bits [OF that, of n] disjoint_bits [of m "NOT PublicWrite" n] assms
      by (auto simp: flag_noneSet_def bit_simps)
  qed
  show "m AND Scheduled = 0" "m AND InitMask = 0" by (auto intro!: sub simp: flag_masks)
qed

lemma public_flags:
  assumes "flag_noneSet m (NOT PublicWrite)"
  shows "scheduled (flag_set m e) \<longleftrightarrow> scheduled e" "scheduled (flag_clear m e) \<longleftrightarrow> scheduled e"
    "initialized (flag_set m e) \<longleftrightarrow> initialized e" "initialized (flag_clear m e) \<longleftrightarrow> initialized e"
  using public_write_other [OF assms]
  by (simp_all add: flag_preds flag_set_def flag_clear_def flags_other)

lemma event_fields [simp]:
  "ev_queue (flag_set m e) = ev_queue e" "ev_queue (flag_clear m e) = ev_queue e"
  "ev_when (flag_set m e) = ev_when e" "ev_when (flag_clear m e) = ev_when e"
  "nextBin (flag_set m e) = nextBin e" "nextBin (flag_clear m e) = nextBin e"
  "nextInBin (flag_set m e) = nextInBin e" "nextInBin (flag_clear m e) = nextInBin e"
  "ev_priority (flag_set m e) = ev_priority e" "ev_priority (flag_clear m e) = ev_priority e"
  by (simp_all add: flag_set_def flag_clear_def)

lemma flags_of_links [simp]:
  "scheduled (e\<lparr>ev_when := w, ev_queue := q\<rparr>) \<longleftrightarrow> scheduled e"
  "initialized (e\<lparr>ev_when := w, ev_queue := q\<rparr>) \<longleftrightarrow> initialized e"
  "scheduled (unlinked e) \<longleftrightarrow> scheduled e"
  "initialized (unlinked e) \<longleftrightarrow> initialized e"
  "squashed (unlinked e) \<longleftrightarrow> squashed e"
  "isManaged (unlinked e) \<longleftrightarrow> isManaged e"
  "ev_queue (unlinked e) = ev_queue e"
  "ev_when (unlinked e) = ev_when e"
  by (simp_all add: flag_preds unlinked_def)

lemma newEvent_flags:
  "newEvent p f = Inr e \<Longrightarrow> \<not> scheduled e \<and> initialized e"
  using public_write_other [of f]
  by (auto simp: newEvent_def flag_preds flags_other Initialized_def Scheduled_def InitMask_def)

section \<open>The invariant\<close>

text \<open>The event is scheduled on the queue \<open>q\<close>.\<close>

definition on_queue :: "nat \<Rightarrow> event \<Rightarrow> bool" where
  "on_queue q e \<longleftrightarrow> ev_queue e = Some q \<and> scheduled e \<and> initialized e"

definition alive_with :: "(event \<Rightarrow> bool) \<Rightarrow> ev_heap \<Rightarrow> nat \<Rightarrow> bool" where
  "alive_with P h x \<longleftrightarrow> (\<exists>e. h x = Some e \<and> P e)"

definition members :: "evsim \<Rightarrow> nat list list \<Rightarrow> nat \<Rightarrow> nat set" where
  "members s L q = set (L ! q) \<union> set (evq_async (mainEventQueue s ! q))"

definition sim_rep :: "evsim \<Rightarrow> nat list list \<Rightarrow> bool" where
  "sim_rep s L \<longleftrightarrow> length L = length (mainEventQueue s) \<and>
     (\<forall>q<length L. queue_rep (ev_store s) (evq_head (mainEventQueue s ! q)) (L ! q) \<and>
        distinct (evq_async (mainEventQueue s ! q)) \<and>
        set (L ! q) \<inter> set (evq_async (mainEventQueue s ! q)) = {} \<and>
        (\<forall>x\<in>members s L q. alive_with (on_queue q) (ev_store s) x)) \<and>
     (\<forall>x. alive_with scheduled (ev_store s) x \<longrightarrow> (\<exists>q<length L. x \<in> members s L q))"

lemma sim_repD:
  assumes "sim_rep s L" "q < length L"
  shows "queue_rep (ev_store s) (evq_head (mainEventQueue s ! q)) (L ! q)"
    "x \<in> members s L q \<Longrightarrow> alive_with (on_queue q) (ev_store s) x"
    "q < length (mainEventQueue s)"
  using assms by (auto simp: sim_rep_def)

lemma member_unique:
  assumes "sim_rep s L" "q < length L" "q' < length L" "x \<in> members s L q" "x \<in> members s L q'"
  shows "q' = q"
  using sim_repD(2) [OF assms(1,2,4)] sim_repD(2) [OF assms(1,3,5)]
  by (auto simp: alive_with_def on_queue_def)

text \<open>An unscheduled event is in no queue, a scheduled one in its own only.\<close>

lemma unscheduled_nowhere:
  "sim_rep s L \<Longrightarrow> \<not> alive_with scheduled (ev_store s) x \<Longrightarrow> q < length L \<Longrightarrow> x \<notin> members s L q"
  using sim_repD(2) by (fastforce simp: alive_with_def on_queue_def)

lemma scheduled_somewhere:
  assumes "sim_rep s L" "ev_store s x = Some e" "scheduled e"
  obtains q where "q < length L" "x \<in> members s L q" "ev_queue e = Some q" "initialized e"
proof -
  obtain q where q: "q < length L" "x \<in> members s L q"
    using assms by (auto simp: sim_rep_def alive_with_def)
  with sim_repD(2) [OF assms(1) q] assms(2) that show ?thesis
    by (auto simp: alive_with_def on_queue_def)
qed

text \<open>
  An operation works on one queue and one event: it changes the links within the queue, and other
  data of the event only.
\<close>

lemma alive_with_unlinked:
  assumes "map_option unlinked (h' x) = map_option unlinked (h x)"
  shows "alive_with (on_queue q) h' x \<longleftrightarrow> alive_with (on_queue q) h x"
    "alive_with scheduled h' x \<longleftrightarrow> alive_with scheduled h x"
proof -
  have u: "on_queue q (unlinked e) \<longleftrightarrow> on_queue q e" "scheduled (unlinked e) \<longleftrightarrow> scheduled e" for e
    by (simp_all add: on_queue_def)
  have P: "alive_with P h' x \<longleftrightarrow> alive_with P h x" if "\<And>e. P (unlinked e) \<longleftrightarrow> P e" for P
    using assms by (cases "h x"; cases "h' x") (simp_all add: alive_with_def, metis that)
  show "alive_with (on_queue q) h' x \<longleftrightarrow> alive_with (on_queue q) h x"
    "alive_with scheduled h' x \<longleftrightarrow> alive_with scheduled h x"
    by (rule P, rule u)+
qed

lemma sim_rep_update:
  assumes rep: "sim_rep s L" "q < length L"
    and queues: "mainEventQueue s' = (mainEventQueue s)[q := eq]"
    and rep': "queue_rep (ev_store s') (evq_head eq) xs" "distinct (evq_async eq)"
      "set xs \<inter> set (evq_async eq) = {}"
    and frame: "\<forall>x. x \<noteq> ev \<longrightarrow> x \<notin> set (L ! q) \<longrightarrow> ev_store s' x = ev_store s x"
    and attr: "\<forall>x. x \<noteq> ev \<longrightarrow> map_option unlinked (ev_store s' x) = map_option unlinked (ev_store s x)"
    and elsewhere: "\<forall>q'<length L. q' \<noteq> q \<longrightarrow> ev \<notin> members s L q'"
    and mem: "set xs \<union> set (evq_async eq) - {ev} = members s L q - {ev}"
    and ev: "ev \<in> set xs \<union> set (evq_async eq) \<Longrightarrow> alive_with (on_queue q) (ev_store s') ev"
      "alive_with scheduled (ev_store s') ev \<Longrightarrow> ev \<in> set xs \<union> set (evq_async eq)"
  shows "sim_rep s' (L[q := xs])"
proof -
  let ?L = "L[q := xs]"
  have len: "length L = length (mainEventQueue s)" using rep(1) by (simp add: sim_rep_def)
  have here: "members s' ?L q = set xs \<union> set (evq_async eq)"
    using rep(2) len by (simp add: members_def queues)
  have there: "members s' ?L q' = members s L q'" if "q' \<noteq> q" for q'
    using that by (simp add: members_def queues)
  have other: "queue_rep (ev_store s') (evq_head (mainEventQueue s' ! q')) (?L ! q')"
    if "q' < length L" "q' \<noteq> q" for q'
  proof -
    have "\<forall>x\<in>set (L ! q'). x \<noteq> ev \<and> x \<notin> set (L ! q)"
      using elsewhere that member_unique [OF rep(1,2) that(1)] by (auto simp: members_def)
    then have "queue_rep (ev_store s') (evq_head (mainEventQueue s ! q')) (L ! q')"
      using frame by (intro queue_rep_view [OF _ sim_repD(1) [OF rep(1) that(1)]]) simp
    then show ?thesis using that by (simp add: queues)
  qed
  have alive: "alive_with (on_queue q') (ev_store s') x"
    if "q' < length L" "x \<in> members s' ?L q'" for q' x
  proof (cases "x = ev")
    case True
    then show ?thesis using that elsewhere ev(1) here there by (cases "q' = q") auto
  next
    case False
    then have "x \<in> members s L q'" using that mem here there by (cases "q' = q") auto
    then show ?thesis
      using sim_repD(2) [OF rep(1) that(1)] alive_with_unlinked(1) attr False by metis
  qed
  have "\<exists>q'<length L. x \<in> members s' ?L q'" if "alive_with scheduled (ev_store s') x" for x
  proof (cases "x = ev")
    case True
    then show ?thesis using that ev(2) rep(2) here by auto
  next
    case False
    then have "alive_with scheduled (ev_store s) x" using alive_with_unlinked(2) attr that by metis
    then obtain q' where q': "q' < length L" "x \<in> members s L q'" using rep(1) by (auto simp: sim_rep_def)
    then have "x \<in> members s' ?L q'" using mem here there False by (cases "q' = q") auto
    then show ?thesis using q' by auto
  qed
  moreover have "queue_rep (ev_store s') (evq_head (mainEventQueue s' ! q')) (?L ! q') \<and>
      distinct (evq_async (mainEventQueue s' ! q')) \<and>
      set (?L ! q') \<inter> set (evq_async (mainEventQueue s' ! q')) = {}" if "q' < length L" for q'
    using that other rep' rep len by (cases "q' = q") (auto simp: queues sim_rep_def)
  ultimately show ?thesis using alive len unfolding sim_rep_def by (simp add: queues)
qed

lemma sim_rep_flags:
  assumes rep: "sim_rep s L" and e: "ev_store s ev = Some e"
    and e': "node_view e' = node_view e" "ev_queue e' = ev_queue e"
      "scheduled e' \<longleftrightarrow> scheduled e" "initialized e' \<longleftrightarrow> initialized e"
    and s': "ev_store s' = (ev_store s)(ev \<mapsto> e')" "mainEventQueue s' = mainEventQueue s"
  shows "sim_rep s' L"
proof -
  have view: "map_option node_view (ev_store s' x) = map_option node_view (ev_store s x)" for x
    using e e'(1) by (simp add: s')
  have "alive_with (on_queue q) (ev_store s') x \<longleftrightarrow> alive_with (on_queue q) (ev_store s) x" for q x
    using e e' by (auto simp: s' alive_with_def on_queue_def)
  moreover have "alive_with scheduled (ev_store s') x \<longleftrightarrow> alive_with scheduled (ev_store s) x" for x
    using e e' by (auto simp: s' alive_with_def)
  moreover have "members s' L = members s L" by (auto simp: members_def s' fun_eq_iff)
  ultimately show ?thesis
    using rep queue_rep_view [of _ "ev_store s'" "ev_store s"] view unfolding sim_rep_def s'(2) by auto
qed

section \<open>Scheduling\<close>

text \<open>
  What an operation may change: the links, the heads of the queues and, for one event, the data
  given by \<open>f\<close> (\<open>None\<close> for an event that is deleted).
\<close>

definition headless :: "evq \<Rightarrow> evq" where
  "headless eq = eq\<lparr>evq_head := None\<rparr>"

definition ev_effect :: "nat \<Rightarrow> event option \<Rightarrow> evsim \<Rightarrow> evsim \<Rightarrow> bool" where
  "ev_effect ev v s s' \<longleftrightarrow> curEventQueue s' = curEventQueue s \<and> inParallelMode s' = inParallelMode s \<and>
     map headless (mainEventQueue s') = map headless (mainEventQueue s) \<and>
     map_option unlinked (ev_store s' ev) = map_option unlinked v \<and>
     (\<forall>x. x \<noteq> ev \<longrightarrow> map_option unlinked (ev_store s' x) = map_option unlinked (ev_store s x))"

lemma headless_upd [simp]: "headless (eq\<lparr>evq_head := p\<rparr>) = headless eq"
  by (simp add: headless_def)

lemma set_queue_simps [simp]:
  "ev_store (set_queue q x s) = ev_store s"
  "mainEventQueue (set_queue q x s) = (mainEventQueue s)[q := x]"
  "curEventQueue (set_queue q x s) = curEventQueue s"
  "inParallelMode (set_queue q x s) = inParallelMode s"
  by (simp_all add: set_queue_def)

lemma ev_modify_Some [simp]:
  "ev_store s ev = Some e \<Longrightarrow> ev_modify f ev s = Inr (s\<lparr>ev_store := (ev_store s)(ev \<mapsto> f e)\<rparr>)"
  by (simp add: ev_modify_def)

lemma map_headless_upd [simp]:
  "q < length qs \<Longrightarrow> map headless (qs[q := (qs ! q)\<lparr>evq_head := p\<rparr>]) = map headless qs"
  by (simp add: map_update list_update_same_conv)

lemma relinked_Some:
  assumes "relinked X h h'" "h x = Some e"
  obtains e' where "h' x = Some e'" "unlinked e' = unlinked e"
  using assms unfolding relinked_def by (metis (no_types, lifting) map_option_eq_Some)

lemma q_insert_ok:
  assumes "q < length (mainEventQueue s)" "mainEventQueue s ! q = eq" "ev_store s ev = Some e" "ev \<notin> set xs"
    "queue_rep (ev_store s) (evq_head eq) xs"
  obtains h p where
    "q_insert q ev s = Inr (set_queue q (eq\<lparr>evq_head := p\<rparr>) (s\<lparr>ev_store := h\<rparr>))"
    "queue_rep h p (insert_event (key_of h) ev xs)" "relinked (insert ev (set xs)) (ev_store s) h"
proof -
  obtain h p where "evq_insert ev (ev_store s, evq_head eq) = Inr (h, p)"
      "queue_rep h p (insert_event (key_of (ev_store s)) ev xs)"
      and rl: "relinked (insert ev (set xs)) (ev_store s) h"
    using evq_insert_refines [OF assms(5,3,4)] by (auto simp: inserted_def)
  then show ?thesis using assms(1,2) relinked_key [OF rl] by (intro that [of p h]) (auto simp: q_insert_def)
qed

lemma q_remove_ok:
  assumes "q < length (mainEventQueue s)" "mainEventQueue s ! q = eq" "ev_store s ev = Some e" "ev \<in> set xs" "ev_queue e = Some q"
    "queue_rep (ev_store s) (evq_head eq) xs"
  obtains h p where
    "q_remove q ev s = Inr (set_queue q (eq\<lparr>evq_head := p\<rparr>) (s\<lparr>ev_store := h\<rparr>))"
    "queue_rep h p (remove1 ev xs)" "relinked (set xs) (ev_store s) h"
proof -
  obtain h p where "evq_remove q ev (ev_store s, evq_head eq) = Inr (h, p)"
      "queue_rep h p (remove1 ev xs)" "relinked (set xs) (ev_store s) h"
    using evq_remove_refines [OF assms(6,3,4,5)] by (auto simp: removed_def)
  then show ?thesis using assms(1,2) by (intro that [of p h]) (auto simp: q_remove_def)
qed

lemma acquire_Some [simp]: "ev_store s ev = Some e \<Longrightarrow> acquire ev s = Inr s"
  by (simp add: acquire_def acquireImpl_def)

lemma node_view_flags [simp]:
  "node_view (flag_set m e) = node_view e" "node_view (flag_clear m e) = node_view e"
  by (simp_all add: node_view_def ev_key_def)

text \<open>The flags of the event do not matter to the queues.\<close>

lemma queue_rep_upd:
  "queue_rep h p xs \<Longrightarrow> h ev = Some e \<Longrightarrow> node_view e' = node_view e \<Longrightarrow> queue_rep (h(ev \<mapsto> e')) p xs"
  by (rule queue_rep_view [of _ _ h]) auto

lemma queue_rep_other: "queue_rep h p xs \<Longrightarrow> ev \<notin> set xs \<Longrightarrow> queue_rep (h(ev := v)) p xs"
  by (rule queue_rep_view [of _ _ h]) auto

lemma key_of_upd:
  "h ev = Some e \<Longrightarrow> node_view e' = node_view e \<Longrightarrow> key_of (h(ev \<mapsto> e')) = key_of h"
  by (auto simp: key_of_def node_view_def fun_eq_iff)

definition sched_event :: "tick \<Rightarrow> nat \<Rightarrow> event \<Rightarrow> event" where
  "sched_event w q e = flag_set Scheduled (e\<lparr>ev_when := w, ev_queue := Some q\<rparr>)"

lemma sched_event_simps [simp]:
  "scheduled (sched_event w q e)" "initialized (sched_event w q e) \<longleftrightarrow> initialized e"
  "squashed (sched_event w q e) \<longleftrightarrow> squashed e"
  "ev_queue (sched_event w q e) = Some q" "ev_when (sched_event w q e) = w"
  "ev_priority (sched_event w q e) = ev_priority e"
  by (simp_all add: sched_event_def) (simp add: squashed_def)

lemma unlinked_set: "unlinked (flag_set m e) = flag_set m (unlinked e)"
  "unlinked (flag_clear m e) = flag_clear m (unlinked e)"
  by (simp_all add: unlinked_def flag_set_def flag_clear_def)

lemma unlinked_eqD:
  assumes "unlinked a = unlinked b"
  shows "scheduled a \<longleftrightarrow> scheduled b" "initialized a \<longleftrightarrow> initialized b" "squashed a \<longleftrightarrow> squashed b"
    "ev_queue a = ev_queue b" "ev_when a = ev_when b" "ev_key a = ev_key b" "ev_flags a = ev_flags b"
    "isManaged a \<longleftrightarrow> isManaged b"
  using arg_cong [OF assms, of scheduled] arg_cong [OF assms, of initialized]
    arg_cong [OF assms, of squashed] arg_cong [OF assms, of ev_queue] arg_cong [OF assms, of ev_when]
    arg_cong [OF assms, of ev_key] arg_cong [OF assms, of ev_flags] arg_cong [OF assms, of isManaged]
  by (simp_all add: ev_key_unlinked) (simp add: unlinked_def)

lemma alive_with_same:
  "h ev = Some e \<Longrightarrow> unlinked e = unlinked v \<Longrightarrow> scheduled v \<Longrightarrow> initialized v \<Longrightarrow>
   ev_queue v = Some q \<Longrightarrow> alive_with (on_queue q) h ev"
  by (simp add: alive_with_def on_queue_def unlinked_eqD [of e v])

theorem schedule_ok:
  assumes rep: "sim_rep s L" "q < length L" and e: "ev_store s ev = Some e"
    and pre: "\<not> scheduled e" "initialized e" "evq_curTick (mainEventQueue s ! q) \<le> w"
    and sync: "\<not> (inParallelMode s \<and> (curEventQueue s \<noteq> Some q \<or> global))"
  obtains s' where "schedule q ev w global s = Inr s'"
    "sim_rep s' (L[q := insert_event (key_of (ev_store s')) ev (L ! q)])"
    "ev_effect ev (Some (sched_event w q e)) s s'"
proof -
  let ?e1 = "e\<lparr>ev_when := w, ev_queue := Some q\<rparr>"
  let ?s1 = "s\<lparr>ev_store := (ev_store s)(ev \<mapsto> ?e1)\<rparr>"
  have q: "q < length (mainEventQueue s)" using sim_repD(3) [OF rep] .
  have nowhere: "ev \<notin> members s L q'" if "q' < length L" for q'
    using unscheduled_nowhere [OF rep(1) _ that] e pre(1) by (simp add: alive_with_def)
  then have new: "ev \<notin> set (L ! q)" using rep(2) by (auto simp: members_def)
  have rep1: "queue_rep (ev_store ?s1) (evq_head (mainEventQueue s ! q)) (L ! q)"
    using queue_rep_other [OF sim_repD(1) [OF rep] new] by simp
  obtain h p where ins: "q_insert q ev ?s1 =
        Inr (set_queue q ((mainEventQueue s ! q)\<lparr>evq_head := p\<rparr>) (?s1\<lparr>ev_store := h\<rparr>))"
      "queue_rep h p (insert_event (key_of h) ev (L ! q))"
      and rl: "relinked (insert ev (set (L ! q))) (ev_store ?s1) h"
    by (rule q_insert_ok [OF _ _ _ new rep1]) (use q in simp_all)
  obtain e2 where e2: "h ev = Some e2" "unlinked e2 = unlinked ?e1"
    using relinked_Some [OF rl, of ev ?e1] by auto
  let ?eq = "(mainEventQueue s ! q)\<lparr>evq_head := p\<rparr>" and ?h = "h(ev \<mapsto> flag_set Scheduled e2)"
  let ?s3 = "set_queue q ?eq (s\<lparr>ev_store := ?h\<rparr>)"
  have res: "schedule q ev w global s = Inr ?s3"
    using sync e pre q ins(1) e2(1) by (auto simp: schedule_def setWhen_def set_queue_def)
  have u: "unlinked (flag_set Scheduled e2) = unlinked (sched_event w q e)"
    by (simp add: sched_event_def unlinked_set e2(2))
  have other: "map_option unlinked (?h x) = map_option unlinked (ev_store s x)" if "x \<noteq> ev" for x
    using rl that by (simp add: relinked_def)
  have "sim_rep ?s3 (L[q := insert_event (key_of ?h) ev (L ! q)])"
  proof (rule sim_rep_update [OF rep, where ev = ev and eq = ?eq])
    have "key_of ?h = key_of h" using e2(1) by (simp add: key_of_upd)
    then show "queue_rep (ev_store ?s3) (evq_head ?eq) (insert_event (key_of ?h) ev (L ! q))"
      using queue_rep_upd [OF ins(2) e2(1)] by simp
    show "\<forall>x. x \<noteq> ev \<longrightarrow> x \<notin> set (L ! q) \<longrightarrow> ev_store ?s3 x = ev_store s x"
      using rl by (simp add: relinked_def)
    show "alive_with (on_queue q) (ev_store ?s3) ev"
      using alive_with_same [OF _ u, of ?h ev q] pre(2) by simp
  qed (use rep nowhere other q in \<open>auto simp: sim_rep_def members_def\<close>)
  moreover have "ev_effect ev (Some (sched_event w q e)) s ?s3"
    unfolding ev_effect_def using u other q by simp
  ultimately show ?thesis using res by (intro that [of ?s3]) simp_all
qed

section \<open>Descheduling and rescheduling\<close>

lemma sim_rep_leave:
  assumes rep: "sim_rep s L" "q < length L" and ev: "ev \<in> set (L ! q)"
    and s': "mainEventQueue s' = (mainEventQueue s)[q := eq]"
      "evq_async eq = evq_async (mainEventQueue s ! q)"
      "queue_rep (ev_store s') (evq_head eq) (remove1 ev (L ! q))"
      "\<forall>x. x \<noteq> ev \<longrightarrow> x \<notin> set (L ! q) \<longrightarrow> ev_store s' x = ev_store s x"
      "\<forall>x. x \<noteq> ev \<longrightarrow> map_option unlinked (ev_store s' x) = map_option unlinked (ev_store s x)"
      "\<not> alive_with scheduled (ev_store s') ev"
  shows "sim_rep s' (L[q := remove1 ev (L ! q)])"
proof (rule sim_rep_update [OF rep s'(1,3) _ _ s'(4,5)])
  have dist: "distinct (L ! q)" using queue_rep_distinct [OF sim_repD(1) [OF rep]] .
  then have set: "set (remove1 ev (L ! q)) = set (L ! q) - {ev}" by simp
  show "distinct (evq_async eq)" "set (remove1 ev (L ! q)) \<inter> set (evq_async eq) = {}"
    using rep unfolding set s'(2) by (auto simp: sim_rep_def)
  have m: "ev \<in> members s L q" using ev by (simp add: members_def)
  show "\<forall>q'<length L. q' \<noteq> q \<longrightarrow> ev \<notin> members s L q'" using member_unique [OF rep _ m] by blast
  show "set (remove1 ev (L ! q)) \<union> set (evq_async eq) - {ev} = members s L q - {ev}"
    unfolding set s'(2) members_def by blast
  have "ev \<notin> set (evq_async eq)" using rep ev unfolding s'(2) by (auto simp: sim_rep_def)
  then show "ev \<in> set (remove1 ev (L ! q)) \<union> set (evq_async eq) \<Longrightarrow>
      alive_with (on_queue q) (ev_store s') ev"
    unfolding set by simp
  show "alive_with scheduled (ev_store s') ev \<Longrightarrow>
      ev \<in> set (remove1 ev (L ! q)) \<union> set (evq_async eq)"
    using s'(6) by simp
qed

lemma member_event:
  assumes "sim_rep s L" "q < length L" "ev \<in> set (L ! q)"
  obtains e where "ev_store s ev = Some e" "ev_queue e = Some q" "scheduled e" "initialized e"
  using sim_repD(2) [OF assms(1,2), of ev] assms(3)
  by (auto simp: members_def alive_with_def on_queue_def)

definition desched_event :: "event \<Rightarrow> event option" where
  "desched_event e = (if isManaged e then None
     else Some (flag_clear Scheduled (flag_clear Squashed e)))"

lemma release_unscheduled:
  "ev_store s ev = Some e \<Longrightarrow> \<not> scheduled e \<Longrightarrow>
   release ev s = Inr (if isManaged e then s\<lparr>ev_store := (ev_store s)(ev := None)\<rparr> else s)"
  by (simp add: release_def releaseImpl_def deleteEvent_def)

theorem deschedule_ok:
  assumes rep: "sim_rep s L" "q < length L" and ev: "ev \<in> set (L ! q)" "ev_store s ev = Some e"
    and par: "\<not> inParallelMode s \<or> curEventQueue s = Some q"
  obtains s' where "deschedule q ev s = Inr s'" "sim_rep s' (L[q := remove1 ev (L ! q)])"
    "ev_effect ev (desched_event e) s s'"
proof -
  have q: "q < length (mainEventQueue s)" using sim_repD(3) [OF rep] .
  have e: "ev_queue e = Some q" "scheduled e" "initialized e"
    using member_event [OF rep ev(1)] ev(2) by auto
  obtain h p where rem: "q_remove q ev s =
        Inr (set_queue q ((mainEventQueue s ! q)\<lparr>evq_head := p\<rparr>) (s\<lparr>ev_store := h\<rparr>))"
      "queue_rep h p (remove1 ev (L ! q))" "relinked (set (L ! q)) (ev_store s) h"
    by (rule q_remove_ok [OF q refl ev(2,1) e(1) sim_repD(1) [OF rep]])
  obtain e1 where e1: "h ev = Some e1" "unlinked e1 = unlinked e"
    using relinked_Some [OF rem(3) ev(2)] by auto
  let ?e2 = "flag_clear Scheduled (flag_clear Squashed e1)"
  let ?v = "if isManaged e then None else Some ?e2"
  let ?eq = "(mainEventQueue s ! q)\<lparr>evq_head := p\<rparr>"
  let ?s' = "set_queue q ?eq (s\<lparr>ev_store := h(ev := ?v)\<rparr>)"
  have res: "deschedule q ev s = Inr ?s'"
    using ev e par rem(1) e1 unlinked_eqD(8) [OF e1(2)]
    by (auto simp: deschedule_def set_queue_def release_unscheduled)
  have attr: "map_option unlinked (ev_store ?s' x) = map_option unlinked (ev_store s x)" if "x \<noteq> ev" for x
    using rem(3) that by (simp add: relinked_def)
  have "queue_rep (h(ev := ?v)) p (remove1 ev (L ! q))"
    using queue_rep_distinct [OF sim_repD(1) [OF rep]] by (intro queue_rep_other [OF rem(2)]) simp
  then have "sim_rep ?s' (L[q := remove1 ev (L ! q)])"
    using rem(3) attr by (intro sim_rep_leave [OF rep ev(1), where eq = ?eq]) (auto simp: relinked_def alive_with_def)
  moreover have "ev_effect ev (desched_event e) s ?s'"
    unfolding ev_effect_def using attr q e1(2) by (simp add: desched_event_def unlinked_set)
  ultimately show ?thesis using res that by blast
qed

text \<open>An event that waits for asynchronous insertion cannot be descheduled.\<close>

theorem deschedule_async_panics:
  assumes rep: "sim_rep s L" "q < length L" and ev: "ev \<in> set (evq_async (mainEventQueue s ! q))"
    and par: "\<not> inParallelMode s \<or> curEventQueue s = Some q"
  shows "deschedule q ev s = Inl Panic"
proof -
  have "alive_with (on_queue q) (ev_store s) ev" using sim_repD(2) [OF rep] ev by (simp add: members_def)
  then obtain e where e: "ev_store s ev = Some e" "ev_queue e = Some q" "scheduled e" "initialized e"
    by (auto simp: alive_with_def on_queue_def)
  have "ev \<notin> set (L ! q)" using rep ev by (auto simp: sim_rep_def)
  then have "evq_remove q ev (ev_store s, evq_head (mainEventQueue s ! q)) = Inl Panic"
    using evq_remove_absent [OF sim_repD(1) [OF rep]] e by blast
  then show ?thesis using e par sim_repD(3) [OF rep] by (auto simp: deschedule_def q_remove_def)
qed

definition resched_event :: "tick \<Rightarrow> nat \<Rightarrow> event \<Rightarrow> event" where
  "resched_event w q e = flag_set Scheduled (flag_clear Squashed (e\<lparr>ev_when := w, ev_queue := Some q\<rparr>))"

lemma resched_event_simps [simp]:
  "scheduled (resched_event w q e)" "initialized (resched_event w q e) \<longleftrightarrow> initialized e"
  "\<not> squashed (resched_event w q e)" "ev_queue (resched_event w q e) = Some q"
  "ev_when (resched_event w q e) = w" "ev_priority (resched_event w q e) = ev_priority e"
  by (simp_all add: resched_event_def)

text \<open>The second half of \<open>reschedule\<close>, after the event has left its queue.\<close>

definition reinsert :: "nat \<Rightarrow> nat \<Rightarrow> tick \<Rightarrow> evsim \<Rightarrow> evsim res" where
  "reinsert q ev w s = bindR (setWhen w q ev s) (\<lambda>s2. bindR (q_insert q ev s2) (\<lambda>s3.
     bindR (ev_modify (flag_clear Squashed) ev s3) (ev_modify (flag_set Scheduled) ev)))"

lemma reinsert_ok:
  assumes "q < length (mainEventQueue s)" "mainEventQueue s ! q = eq" "ev_store s ev = Some e"
    "ev \<notin> set xs" "queue_rep (ev_store s) (evq_head eq) xs"
  obtains h p e' where
    "reinsert q ev w s = Inr (set_queue q (eq\<lparr>evq_head := p\<rparr>) (s\<lparr>ev_store := h\<rparr>))"
    "queue_rep h p (insert_event (key_of h) ev xs)"
    "relinked (set xs) ((ev_store s)(ev := None)) (h(ev := None))"
    "h ev = Some e'" "unlinked e' = unlinked (resched_event w q e)"
proof -
  let ?e1 = "e\<lparr>ev_when := w, ev_queue := Some q\<rparr>"
  let ?s1 = "s\<lparr>ev_store := (ev_store s)(ev \<mapsto> ?e1)\<rparr>"
  have rep1: "queue_rep (ev_store ?s1) (evq_head eq) xs"
    using queue_rep_other [OF assms(5,4)] by simp
  obtain h p where ins: "q_insert q ev ?s1 = Inr (set_queue q (eq\<lparr>evq_head := p\<rparr>) (?s1\<lparr>ev_store := h\<rparr>))"
      "queue_rep h p (insert_event (key_of h) ev xs)"
      and rl: "relinked (insert ev (set xs)) (ev_store ?s1) h"
    by (rule q_insert_ok [OF _ _ _ assms(4) rep1]) (use assms in simp_all)
  obtain e2 where e2: "h ev = Some e2" "unlinked e2 = unlinked ?e1"
    using relinked_Some [OF rl, of ev ?e1] by auto
  let ?e' = "flag_set Scheduled (flag_clear Squashed e2)"
  let ?h = "h(ev \<mapsto> ?e')"
  show ?thesis
  proof (rule that)
    show "reinsert q ev w s = Inr (set_queue q (eq\<lparr>evq_head := p\<rparr>) (s\<lparr>ev_store := ?h\<rparr>))"
      using assms(3) ins(1) e2(1) by (simp add: reinsert_def setWhen_def set_queue_def)
    have "key_of ?h = key_of h" using e2(1) by (simp add: key_of_upd)
    then show "queue_rep ?h p (insert_event (key_of ?h) ev xs)"
      using queue_rep_upd [OF ins(2) e2(1)] by simp
    show "relinked (set xs) ((ev_store s)(ev := None)) (?h(ev := None))"
      using rl by (auto simp: relinked_def)
    show "unlinked ?e' = unlinked (resched_event w q e)"
      by (simp add: resched_event_def unlinked_set e2(2))
  qed simp
qed

lemma sim_rep_enter:
  assumes rep: "sim_rep s L" "q < length L"
    and ev: "\<forall>q'<length L. q' \<noteq> q \<longrightarrow> ev \<notin> members s L q'"
      "ev \<notin> set (evq_async (mainEventQueue s ! q))"
    and s': "mainEventQueue s' = (mainEventQueue s)[q := eq]"
      "evq_async eq = evq_async (mainEventQueue s ! q)"
      "queue_rep (ev_store s') (evq_head eq) (insert_event k ev (remove1 ev (L ! q)))"
      "\<forall>x. x \<noteq> ev \<longrightarrow> x \<notin> set (L ! q) \<longrightarrow> ev_store s' x = ev_store s x"
      "\<forall>x. x \<noteq> ev \<longrightarrow> map_option unlinked (ev_store s' x) = map_option unlinked (ev_store s x)"
      "alive_with (on_queue q) (ev_store s') ev"
  shows "sim_rep s' (L[q := insert_event k ev (remove1 ev (L ! q))])"
proof (rule sim_rep_update [OF rep s'(1,3) _ _ s'(4,5) ev(1)])
  have dist: "distinct (L ! q)" using queue_rep_distinct [OF sim_repD(1) [OF rep]] .
  have set: "set (insert_event k ev (remove1 ev (L ! q))) = insert ev (set (L ! q))" using dist by auto
  show "distinct (evq_async eq)"
    "set (insert_event k ev (remove1 ev (L ! q))) \<inter> set (evq_async eq) = {}"
    using rep ev(2) unfolding set s'(2) by (auto simp: sim_rep_def)
  show "set (insert_event k ev (remove1 ev (L ! q))) \<union> set (evq_async eq) - {ev} = members s L q - {ev}"
    unfolding set s'(2) members_def by blast
qed (use s'(6) in simp_all)

lemma event_place:
  assumes rep: "sim_rep s L" "q < length L" and ev: "ev_store s ev = Some e"
    and place: "scheduled e \<Longrightarrow> ev \<in> set (L ! q)"
  shows "\<forall>q'<length L. q' \<noteq> q \<longrightarrow> ev \<notin> members s L q'"
    "ev \<notin> set (evq_async (mainEventQueue s ! q))"
proof -
  show "\<forall>q'<length L. q' \<noteq> q \<longrightarrow> ev \<notin> members s L q'"
  proof (intro allI impI)
    fix q' assume q': "q' < length L" "q' \<noteq> q"
    show "ev \<notin> members s L q'"
    proof
      assume m: "ev \<in> members s L q'"
      then have "scheduled e" using sim_repD(2) [OF rep(1) q'(1) m] ev by (auto simp: alive_with_def on_queue_def)
      then have "ev \<in> members s L q" using place by (simp add: members_def)
      with m show False using member_unique [OF rep(1) q'(1) rep(2)] q'(2) by blast
    qed
  qed
  show "ev \<notin> set (evq_async (mainEventQueue s ! q))"
  proof
    assume a: "ev \<in> set (evq_async (mainEventQueue s ! q))"
    then have "scheduled e"
      using sim_repD(2) [OF rep, of ev] ev by (auto simp: members_def alive_with_def on_queue_def)
    with a place rep show False by (auto simp: sim_rep_def)
  qed
qed

lemma unlinked_resched: "unlinked (resched_event w q e) = resched_event w q (unlinked e)"
  by (simp add: resched_event_def unlinked_def flag_set_def flag_clear_def)

theorem reschedule_ok:
  assumes rep: "sim_rep s L" "q < length L" and ev: "ev_store s ev = Some e"
    and place: "scheduled e \<Longrightarrow> ev \<in> set (L ! q)"
    and pre: "always \<or> scheduled e" "initialized e" "evq_curTick (mainEventQueue s ! q) \<le> w"
    and par: "\<not> inParallelMode s \<or> curEventQueue s = Some q"
  obtains s' where "reschedule q ev w always s = Inr s'"
    "sim_rep s' (L[q := insert_event (key_of (ev_store s')) ev (remove1 ev (L ! q))])"
    "ev_effect ev (Some (resched_event w q e)) s s'"
proof -
  let ?xs = "remove1 ev (L ! q)"
  have q: "q < length (mainEventQueue s)" using sim_repD(3) [OF rep] .
  have dist: "distinct (L ! q)" using queue_rep_distinct [OF sim_repD(1) [OF rep]] .
  obtain h p where out: "(if scheduled e then q_remove q ev s else acquire ev s) =
        Inr (set_queue q ((mainEventQueue s ! q)\<lparr>evq_head := p\<rparr>) (s\<lparr>ev_store := h\<rparr>))"
      "queue_rep h p ?xs" "relinked (set (L ! q)) (ev_store s) h"
  proof (cases "scheduled e")
    case True
    then have "ev_queue e = Some q" using member_event [OF rep place] ev by auto
    from q_remove_ok [OF q refl ev place [OF True] this sim_repD(1) [OF rep]] True that show ?thesis
      by auto
  next
    case False
    then have "ev \<notin> members s L q"
      using unscheduled_nowhere [OF rep(1) _ rep(2)] ev by (simp add: alive_with_def)
    then have "?xs = L ! q" by (simp add: members_def remove1_idem)
    then show ?thesis
      using that [of "evq_head (mainEventQueue s ! q)" "ev_store s"] False ev sim_repD(1) [OF rep]
      by (simp add: set_queue_def relinked_refl)
  qed
  obtain e1 where e1: "h ev = Some e1" "unlinked e1 = unlinked e"
    using relinked_Some [OF out(3) ev] by auto
  let ?eq = "(mainEventQueue s ! q)\<lparr>evq_head := p\<rparr>"
  let ?s1 = "set_queue q ?eq (s\<lparr>ev_store := h\<rparr>)"
  obtain h2 p2 e2 where ins: "reinsert q ev w ?s1 = Inr (set_queue q (?eq\<lparr>evq_head := p2\<rparr>) (?s1\<lparr>ev_store := h2\<rparr>))"
      "queue_rep h2 p2 (insert_event (key_of h2) ev ?xs)"
      "relinked (set ?xs) (h(ev := None)) (h2(ev := None))"
      "h2 ev = Some e2" "unlinked e2 = unlinked (resched_event w q e1)"
    by (rule reinsert_ok [of q ?s1 ?eq ev e1 ?xs w]) (use q e1(1) out(2) dist in simp_all)
  let ?s' = "set_queue q (?eq\<lparr>evq_head := p2\<rparr>) (?s1\<lparr>ev_store := h2\<rparr>)"
  have res: "reschedule q ev w always s = Inr ?s'"
    using ev pre par q out(1) ins(1) unfolding reinsert_def by (simp add: reschedule_def)
  have u: "unlinked e2 = unlinked (resched_event w q e)"
    using ins(5) e1(2) by (simp add: unlinked_resched)
  have upd: "h2 x = (h2(ev := None)) x" "(h(ev := None)) x = h x" if "x \<noteq> ev" for x using that by simp_all
  have attr: "map_option unlinked (h2 x) = map_option unlinked (ev_store s x)" if "x \<noteq> ev" for x
    using ins(3) out(3) upd [OF that] unfolding relinked_def by metis
  have frame: "h2 x = ev_store s x" if "x \<noteq> ev" "x \<notin> set (L ! q)" for x
    using ins(3) out(3) upd [OF that(1)] that(2) unfolding relinked_def by (metis notin_set_remove1)
  have "sim_rep ?s' (L[q := insert_event (key_of h2) ev ?xs])"
  proof (rule sim_rep_enter [OF rep event_place [OF rep ev place], where eq = "?eq\<lparr>evq_head := p2\<rparr>"])
    show "alive_with (on_queue q) (ev_store ?s') ev"
      using alive_with_same [of h2 ev e2, OF ins(4) u] pre(2) by simp
  qed (use ins(2) attr frame in \<open>auto simp: set_queue_def\<close>)
  moreover have "ev_effect ev (Some (resched_event w q e)) s ?s'"
    unfolding ev_effect_def using u attr q ins(4) by simp
  ultimately show ?thesis using res by (intro that [of ?s']) simp_all
qed

end
