(* ===== verification/Event_Run.thy ===== *)
theory Event_Run
  imports Event_Sim
begin

text \<open>
  What the operations on events and the service of events do to the invariant of the queues: taking
  the first event, updates of flags, construction and deletion of events, new queues, asynchronous
  insertion.
\<close>

section \<open>Serving an event\<close>

lemma service_pop_removeItem:
  assumes "q < length (mainEventQueue s)" "mainEventQueue s ! q = eq" "evq_head eq = Some ev"
    "ev_store s ev = Some e"
  shows "service_pop q s = bindR (removeItem ev ev ((ev_store s)(ev \<mapsto> flag_clear Scheduled e)))
    (\<lambda>(h, p). Inr (set_queue q (eq\<lparr>evq_head := p\<rparr>) (s\<lparr>ev_store := h\<rparr>), ev))"
  using assms
  by (auto simp: service_pop_def removeItem_def ev_modify_def ev_upd_def set_queue_def bindR_def
      split: option.splits sum.splits)

theorem service_pop_ok:
  assumes rep: "sim_rep s L" "q < length L" and L: "L ! q = ev # xs" and e: "ev_store s ev = Some e"
  obtains s' where "service_pop q s = Inr (s', ev)" "sim_rep s' (L[q := xs])"
    "ev_effect ev (Some (flag_clear Scheduled e)) s s'"
proof -
  let ?e1 = "flag_clear Scheduled e"
  let ?h1 = "(ev_store s)(ev \<mapsto> ?e1)" and ?eq = "mainEventQueue s ! q"
  have q: "q < length (mainEventQueue s)" using sim_repD(3) [OF rep] .
  have rep0: "queue_rep (ev_store s) (evq_head ?eq) (ev # xs)" using sim_repD(1) [OF rep] L by simp
  then have "queue_rep ?h1 (evq_head ?eq) (ev # xs)" using e by (intro queue_rep_upd) simp_all
  then obtain h p where h: "evq_head ?eq = Some ev" "removeItem ev ev ?h1 = Inr (h, p)"
      "queue_rep h p xs" "relinked (set (ev # xs)) ?h1 h"
    by (rule removeItem_head)
  let ?s' = "set_queue q (?eq\<lparr>evq_head := p\<rparr>) (s\<lparr>ev_store := h\<rparr>)"
  obtain e2 where e2: "h ev = Some e2" "unlinked e2 = unlinked ?e1"
    using relinked_Some [OF h(4), of ev ?e1] by auto
  have attr: "map_option unlinked (h x) = map_option unlinked (ev_store s x)" if "x \<noteq> ev" for x
    using h(4) that by (simp add: relinked_def)
  have pop: "service_pop q s = Inr (?s', ev)"
    using service_pop_removeItem [OF q refl h(1) e] h(2) by simp
  have "\<not> scheduled e2" using unlinked_eqD(1) [OF e2(2)] by simp
  then have "sim_rep ?s' (L[q := remove1 ev (L ! q)])"
    using h(3,4) attr e2(1) L
    by (intro sim_rep_leave [OF rep, where eq = "?eq\<lparr>evq_head := p\<rparr>"])
       (auto simp: relinked_def alive_with_def)
  moreover have "ev_effect ev (Some ?e1) s ?s'"
    unfolding ev_effect_def using attr q e2 by simp
  ultimately show ?thesis using pop that [of ?s'] L by simp
qed

lemma service_pop_head:
  "q < length (mainEventQueue s) \<Longrightarrow> evq_head (mainEventQueue s ! q) = None \<Longrightarrow>
   service_pop q s = Inl NullDeref"
  by (simp add: service_pop_def)

lemma queue_rep_Nil: "queue_rep h p [] \<longleftrightarrow> p = None"
proof
  assume "queue_rep h p []"
  then obtain bs where "bins h p bs" "[] = concat bs" by (auto simp: queue_rep_def)
  then show "p = None" by (cases "(h, p, bs)" rule: bins.cases) auto
next
  assume "p = None"
  then show "queue_rep h p []" by (auto simp: queue_rep_def intro!: exI [of _ "[]"])
qed

section \<open>Operations on single events\<close>

lemma ev_modify_inv:
  assumes "ev_modify f ev s = Inr s'"
  obtains e where "ev_store s ev = Some e" "s' = s\<lparr>ev_store := (ev_store s)(ev \<mapsto> f e)\<rparr>"
  using assms by (auto simp: ev_modify_def ev_upd_def ev_at_def split: option.splits)

text \<open>An update that keeps the links, the key, the queue and the scheduled flag.\<close>

definition harmless :: "(event \<Rightarrow> event) \<Rightarrow> bool" where
  "harmless f \<longleftrightarrow> (\<forall>e. node_view (f e) = node_view e \<and> ev_queue (f e) = ev_queue e \<and>
     ev_when (f e) = ev_when e \<and> (scheduled (f e) \<longleftrightarrow> scheduled e) \<and> (initialized (f e) \<longleftrightarrow> initialized e))"

lemma harmless_public:
  assumes "flag_noneSet m (NOT PublicWrite)"
  shows "harmless (flag_set m)" "harmless (flag_clear m)"
  by (simp_all add: harmless_def public_flags [OF assms])

lemma harmless_squash: "harmless (flag_set Squashed)" "harmless (flag_clear Squashed)"
  by (simp_all add: harmless_def)

lemma ev_effect_store:
  "ev_effect ev v s (s\<lparr>ev_store := (ev_store s)(ev := v)\<rparr>)"
  by (simp add: ev_effect_def)

lemma modify_ok:
  assumes rep: "sim_rep s L" and f: "harmless f" and r: "ev_modify f ev s = Inr s'"
  obtains e where "ev_store s ev = Some e" "sim_rep s' L" "ev_effect ev (Some (f e)) s s'"
proof -
  obtain e where e: "ev_store s ev = Some e" "s' = s\<lparr>ev_store := (ev_store s)(ev \<mapsto> f e)\<rparr>"
    using ev_modify_inv [OF r] by blast
  then have "sim_rep s' L" using f by (intro sim_rep_flags [OF rep e(1)]) (simp_all add: harmless_def)
  then show ?thesis using e that ev_effect_store by blast
qed

text \<open>Objects that come into being or are deleted are in no queue.\<close>

lemma sim_rep_object:
  assumes rep: "sim_rep s L" and old: "\<not> alive_with scheduled (ev_store s) ev"
    and new: "\<And>e. v = Some e \<Longrightarrow> \<not> scheduled e"
  shows "sim_rep (s\<lparr>ev_store := (ev_store s)(ev := v)\<rparr>) L"
proof -
  let ?s = "s\<lparr>ev_store := (ev_store s)(ev := v)\<rparr>"
  have nowhere: "ev \<notin> members s L q" if "q < length L" for q
    using unscheduled_nowhere [OF rep old that] .
  have "members ?s L = members s L" by (simp add: members_def fun_eq_iff)
  moreover have "queue_rep (ev_store ?s) (evq_head (mainEventQueue s ! q)) (L ! q)" if "q < length L" for q
    using queue_rep_other [OF sim_repD(1) [OF rep that]] nowhere [OF that] by (simp add: members_def)
  moreover have "alive_with (on_queue q) (ev_store ?s) x" if "q < length L" "x \<in> members s L q" for q x
    using sim_repD(2) [OF rep that] nowhere [OF that(1)] that(2) by (auto simp: alive_with_def)
  moreover have "alive_with scheduled (ev_store s) x" if "alive_with scheduled (ev_store ?s) x" for x
    using that new by (auto simp: alive_with_def split: if_splits)
  ultimately show ?thesis using rep unfolding sim_rep_def by auto
qed

lemma deleteEvent_ok:
  assumes rep: "sim_rep s L" and r: "deleteEvent ev s = Inr s'"
  shows "sim_rep s' L" "ev_effect ev None s s'"
proof -
  obtain e where "ev_store s ev = Some e" "\<not> scheduled e"
      "s' = s\<lparr>ev_store := (ev_store s)(ev := None)\<rparr>"
    using r by (auto simp: deleteEvent_def ev_at_def split: option.splits)
  then show "sim_rep s' L" "ev_effect ev None s s'"
    using sim_rep_object [OF rep, of ev None] ev_effect_store by (auto simp: alive_with_def)
qed

lemma release_cases:
  assumes "release ev s = Inr s'"
  shows "s' = s \<or> deleteEvent ev s = Inr s'"
  using assms by (auto simp: release_def releaseImpl_def ev_at_def split: option.splits if_splits)

lemma newEvent_ok:
  assumes rep: "sim_rep s L" and "ev_store s ev = None" "newEvent p f = Inr e"
  shows "sim_rep (s\<lparr>ev_store := (ev_store s)(ev \<mapsto> e)\<rparr>) L"
  using newEvent_flags [OF assms(3)] assms(2)
  by (intro sim_rep_object [OF rep]) (simp_all add: alive_with_def)

lemma getEventQueue_ok:
  assumes rep: "sim_rep s L"
  shows "sim_rep (getEventQueue i s) (L @ replicate (Suc i - length L) [])"
proof -
  let ?s = "getEventQueue i s" and ?n = "Suc i - length (mainEventQueue s)"
  let ?L = "L @ replicate ?n []"
  have len: "length L = length (mainEventQueue s)" using rep by (simp add: sim_rep_def)
  have old: "mainEventQueue ?s ! q = mainEventQueue s ! q" "?L ! q = L ! q" if "q < length L" for q
    using that len by (simp_all add: getEventQueue_def nth_append)
  have new: "mainEventQueue ?s ! q = newEventQueue i" "?L ! q = []" if "\<not> q < length L" "q < length ?L" for q
    using that len by (auto simp: getEventQueue_def nth_append)
  have st: "ev_store ?s = ev_store s" by (simp add: getEventQueue_def)
  have mem: "members ?s ?L q = (if q < length L then members s L q else {})" if "q < length ?L" for q
    using that old new by (auto simp: members_def newEventQueue_def)
  have "queue_rep (ev_store ?s) (evq_head (mainEventQueue ?s ! q)) (?L ! q) \<and>
      distinct (evq_async (mainEventQueue ?s ! q)) \<and>
      set (?L ! q) \<inter> set (evq_async (mainEventQueue ?s ! q)) = {} \<and>
      (\<forall>x\<in>members ?s ?L q. alive_with (on_queue q) (ev_store ?s) x)" if "q < length ?L" for q
  proof (cases "q < length L")
    case True
    then show ?thesis using rep mem [OF that] old [OF True] by (auto simp: sim_rep_def st)
  next
    case False
    then show ?thesis using mem [OF that] new [OF False that]
      by (simp add: newEventQueue_def queue_rep_Nil)
  qed
  moreover have "\<exists>q<length ?L. x \<in> members ?s ?L q" if sch: "alive_with scheduled (ev_store ?s) x" for x
  proof -
    obtain q where "q < length L" "x \<in> members s L q" using rep sch unfolding sim_rep_def st by blast
    then show ?thesis using mem [of q] by (intro exI [of _ q]) simp
  qed
  moreover have "length ?L = length (mainEventQueue ?s)" using len by (simp add: getEventQueue_def)
  ultimately show ?thesis unfolding sim_rep_def len by blast
qed

section \<open>Asynchronous insertion\<close>

lemma sim_rep_async:
  assumes "sim_rep s L" "q < length L"
  shows "distinct (evq_async (mainEventQueue s ! q))"
    "set (L ! q) \<inter> set (evq_async (mainEventQueue s ! q)) = {}"
  using assms unfolding sim_rep_def by blast+

lemma schedule_async_ok:
  assumes rep: "sim_rep s L" "q < length L" and e: "ev_store s ev = Some e"
    and pre: "\<not> scheduled e" "initialized e" "evq_curTick (mainEventQueue s ! q) \<le> w"
    and async: "inParallelMode s" "curEventQueue s \<noteq> Some q \<or> global"
  obtains s' where "schedule q ev w global s = Inr s'" "sim_rep s' L"
    "evq_async (mainEventQueue s' ! q) = evq_async (mainEventQueue s ! q) @ [ev]"
    "inParallelMode s'"
proof -
  let ?eq = "(mainEventQueue s ! q)\<lparr>evq_async := evq_async (mainEventQueue s ! q) @ [ev]\<rparr>"
  let ?h = "(ev_store s)(ev \<mapsto> sched_event w q e)"
  let ?s' = "set_queue q ?eq (s\<lparr>ev_store := ?h\<rparr>)"
  have q: "q < length (mainEventQueue s)" using sim_repD(3) [OF rep] .
  have nowhere: "ev \<notin> members s L q'" if "q' < length L" for q'
    using unscheduled_nowhere [OF rep(1) _ that] e pre(1) by (simp add: alive_with_def)
  have res: "schedule q ev w global s = Inr ?s'"
    using async e pre q
    by (simp add: schedule_def setWhen_def asyncInsert_def set_queue_def sched_event_def)
  have "sim_rep ?s' (L[q := L ! q])"
  proof (rule sim_rep_update [OF rep, where ev = ev and eq = ?eq])
    show "queue_rep (ev_store ?s') (evq_head ?eq) (L ! q)"
      using queue_rep_other [OF sim_repD(1) [OF rep]] nowhere [OF rep(2)] by (simp add: members_def)
    show "alive_with (on_queue q) (ev_store ?s') ev"
      using pre(2) by (simp add: alive_with_def on_queue_def)
  qed (use rep nowhere q in \<open>auto simp: sim_rep_def members_def\<close>)
  then show ?thesis using that [OF res] q async(1) by simp
qed

lemma async_step_ok:
  assumes rep: "sim_rep s L" "q < length L" and a: "evq_async (mainEventQueue s ! q) = ev # evs"
  obtains s1 s2 where "q_insert q ev s = Inr s1" "set_async q evs s1 = Inr s2"
    "sim_rep s2 (L[q := insert_event (key_of (ev_store s2)) ev (L ! q)])"
    "evq_async (mainEventQueue s2 ! q) = evs" "inParallelMode s2 = inParallelMode s"
proof -
  have q: "q < length (mainEventQueue s)" using sim_repD(3) [OF rep] .
  have m: "ev \<in> members s L q" using a by (simp add: members_def)
  have as: "distinct (ev # evs)" "set (L ! q) \<inter> set (ev # evs) = {}"
    using sim_rep_async [OF rep] a by simp_all
  obtain e where e: "ev_store s ev = Some e" "on_queue q e"
    using sim_repD(2) [OF rep m] by (auto simp: alive_with_def)
  have new: "ev \<notin> set (L ! q)" using as(2) by auto
  obtain h p where ins: "q_insert q ev s =
        Inr (set_queue q ((mainEventQueue s ! q)\<lparr>evq_head := p\<rparr>) (s\<lparr>ev_store := h\<rparr>))"
      "queue_rep h p (insert_event (key_of h) ev (L ! q))" "relinked (insert ev (set (L ! q))) (ev_store s) h"
    by (rule q_insert_ok [OF q refl e(1) new sim_repD(1) [OF rep]])
  let ?eq = "(mainEventQueue s ! q)\<lparr>evq_head := p, evq_async := evs\<rparr>"
  let ?s1 = "set_queue q ((mainEventQueue s ! q)\<lparr>evq_head := p\<rparr>) (s\<lparr>ev_store := h\<rparr>)"
  let ?s2 = "set_queue q ?eq (s\<lparr>ev_store := h\<rparr>)"
  have res: "set_async q evs ?s1 = Inr ?s2" using q by (simp add: set_async_def set_queue_def)
  have attr: "map_option unlinked (h x) = map_option unlinked (ev_store s x)" for x
    using ins(3) by (simp add: relinked_def)
  have "sim_rep ?s2 (L[q := insert_event (key_of h) ev (L ! q)])"
  proof (rule sim_rep_update [OF rep, where ev = ev and eq = ?eq])
    show "\<forall>x. x \<noteq> ev \<longrightarrow> x \<notin> set (L ! q) \<longrightarrow> ev_store ?s2 x = ev_store s x"
      using ins(3) by (simp add: relinked_def)
    show "alive_with (on_queue q) (ev_store ?s2) ev"
      using alive_with_unlinked(1) [of h ev "ev_store s" q, OF attr] e by (simp add: alive_with_def)
    show "\<forall>q'<length L. q' \<noteq> q \<longrightarrow> ev \<notin> members s L q'"
      using member_unique [OF rep _ m] by blast
  qed (use ins(2) attr as a in \<open>auto simp: members_def\<close>)
  then show ?thesis using that [OF ins(1) res] q by simp
qed

text \<open>The pending insertions are all made, in the order in which they were requested.\<close>

theorem handleAsyncInsertions_ok:
  assumes rep: "sim_rep s L" "q < length L" and cur: "curEventQueue s = Some q"
  obtains s' L' where "handleAsyncInsertions q s = Inr s'" "sim_rep s' L'"
    "set (L' ! q) = set (L ! q) \<union> set (evq_async (mainEventQueue s ! q))"
    "evq_async (mainEventQueue s' ! q) = []" "inParallelMode s' = inParallelMode s"
proof -
  have "\<exists>s' L'. async_loop q evs s = Inr s' \<and> sim_rep s' L' \<and> set (L' ! q) = set (L ! q) \<union> set evs \<and>
      evq_async (mainEventQueue s' ! q) = [] \<and> inParallelMode s' = inParallelMode s"
    if "sim_rep s L" "q < length L" "evq_async (mainEventQueue s ! q) = evs" for s L evs
    using that
  proof (induction evs arbitrary: s L)
    case (Cons ev evs)
    obtain s1 s2 where 1: "q_insert q ev s = Inr s1" "set_async q evs s1 = Inr s2"
      "sim_rep s2 (L[q := insert_event (key_of (ev_store s2)) ev (L ! q)])"
      "evq_async (mainEventQueue s2 ! q) = evs" "inParallelMode s2 = inParallelMode s"
      using async_step_ok [OF Cons.prems] by blast
    from Cons.IH [OF 1(3) _ 1(4)] Cons.prems(2) 1 show ?case by auto
  qed auto
  from this [OF rep refl] that show ?thesis
    using cur sim_repD(3) [OF rep] by (auto simp: handleAsyncInsertions_def)
qed

end
