(* ===== verification/Event_Order.thy ===== *)
theory Event_Order
  imports Event_Run
begin

text \<open>
  The states of the event queues that any interleaving of the operations can reach from an empty
  simulator.  In all of them the queues are well-formed; with a single thread of simulation no
  scheduled event lies in the past of its queue.
\<close>

section \<open>Reachable states\<close>

definition new_sim :: "bool \<Rightarrow> nat option \<Rightarrow> evsim" where
  "new_sim par c = \<lparr>ev_store = (\<lambda>_. None), mainEventQueue = [], curEventQueue = c, inParallelMode = par\<rparr>"

text \<open>
  The steps of \<open>serviceOne\<close> are single steps here, so that the action of an event is any
  sequence of steps between them.  \<open>advance\<close> is the end of \<open>serviceEvents\<close>.
\<close>

inductive evreach :: "bool \<Rightarrow> evsim \<Rightarrow> bool" for par where
  start: "evreach par (new_sim par c)"
| queue: "evreach par s \<Longrightarrow> evreach par (getEventQueue i s)"
| thread: "evreach par s \<Longrightarrow> evreach par (s\<lparr>curEventQueue := c\<rparr>)"
| construct: "evreach par s \<Longrightarrow> ev_store s ev = None \<Longrightarrow> newEvent p f = Inr e \<Longrightarrow>
    evreach par (s\<lparr>ev_store := (ev_store s)(ev \<mapsto> e)\<rparr>)"
| destruct: "evreach par s \<Longrightarrow> deleteEvent ev s = Inr s' \<Longrightarrow> evreach par s'"
| setf: "evreach par s \<Longrightarrow> setFlags m ev s = Inr s' \<Longrightarrow> evreach par s'"
| clearf: "evreach par s \<Longrightarrow> clearFlags m ev s = Inr s' \<Longrightarrow> evreach par s'"
| squashing: "evreach par s \<Longrightarrow> squash ev s = Inr s' \<Longrightarrow> evreach par s'"
| scheduling: "evreach par s \<Longrightarrow> schedule q ev w g s = Inr s' \<Longrightarrow> evreach par s'"
| descheduling: "evreach par s \<Longrightarrow> deschedule q ev s = Inr s' \<Longrightarrow> evreach par s'"
| rescheduling: "evreach par s \<Longrightarrow> reschedule q ev w always s = Inr s' \<Longrightarrow> evreach par s'"
| serve: "evreach par s \<Longrightarrow> service_pop q s = Inr (s1, ev) \<Longrightarrow> ev_at (ev_store s1) ev = Inr e \<Longrightarrow>
    \<not> squashed e \<Longrightarrow> setCurTick q (ev_when e) s1 = Inr s' \<Longrightarrow> evreach par s'"
| skip: "evreach par s \<Longrightarrow> service_pop q s = Inr (s1, ev) \<Longrightarrow> ev_at (ev_store s1) ev = Inr e \<Longrightarrow>
    squashed e \<Longrightarrow> ev_modify (flag_clear Squashed) ev s1 = Inr s' \<Longrightarrow> evreach par s'"
| releasing: "evreach par s \<Longrightarrow> release ev s = Inr s' \<Longrightarrow> evreach par s'"
| advance: "evreach par s \<Longrightarrow> nextTick q s = Inr t \<Longrightarrow> t = None \<or> the t > w \<Longrightarrow>
    setCurTick q w s = Inr s' \<Longrightarrow> evreach par s'"
| merge: "evreach par s \<Longrightarrow> handleAsyncInsertions q s = Inr s' \<Longrightarrow> evreach par s'"

text \<open>No scheduled event lies in the past of its queue.\<close>

definition time_ok :: "evsim \<Rightarrow> bool" where
  "time_ok s \<longleftrightarrow> (\<forall>x e q. ev_store s x = Some e \<and> scheduled e \<and> ev_queue e = Some q \<and>
     q < length (mainEventQueue s) \<longrightarrow> evq_curTick (mainEventQueue s ! q) \<le> ev_when e)"

definition sim_ok :: "bool \<Rightarrow> evsim \<Rightarrow> bool" where
  "sim_ok par s \<longleftrightarrow> (\<exists>L. sim_rep s L) \<and> inParallelMode s = par \<and>
     (\<not> par \<longrightarrow> time_ok s \<and> (\<forall>eq\<in>set (mainEventQueue s). evq_async eq = []))"

lemma headless_nth:
  assumes "map headless qs' = map headless qs" "q < length qs"
  shows "evq_curTick (qs' ! q) = evq_curTick (qs ! q)" "evq_async (qs' ! q) = evq_async (qs ! q)"
    "length qs' = length qs"
proof -
  show len: "length qs' = length qs" using map_eq_imp_length_eq [OF assms(1)] .
  have "headless (qs' ! q) = headless (qs ! q)"
    using arg_cong [OF assms(1), of "\<lambda>l. l ! q"] assms(2) len by simp
  from arg_cong [OF this, of evq_curTick] arg_cong [OF this, of evq_async]
  show "evq_curTick (qs' ! q) = evq_curTick (qs ! q)" "evq_async (qs' ! q) = evq_async (qs ! q)"
    by (simp_all add: headless_def)
qed

lemma effect_event:
  assumes "ev_effect ev v s s'" "ev_store s' x = Some e'"
  obtains e where "unlinked e' = unlinked e" "if x = ev then v = Some e else ev_store s x = Some e"
proof (cases "x = ev")
  case True
  then have "map_option unlinked v = Some (unlinked e')" using assms by (simp add: ev_effect_def)
  then obtain e where "v = Some e" "unlinked e = unlinked e'" by auto
  then show ?thesis using that [of e] True by simp
next
  case False
  then have "map_option unlinked (ev_store s x) = Some (unlinked e')"
    using assms unfolding ev_effect_def by (metis option.simps(9))
  then obtain e where "ev_store s x = Some e" "unlinked e = unlinked e'" by auto
  then show ?thesis using that [of e] False by simp
qed

lemma effect_ok:
  assumes ok: "sim_ok par s" and rep: "sim_rep s' L" and eff: "ev_effect ev v s s'"
    and time: "\<And>e q. v = Some e \<Longrightarrow> scheduled e \<Longrightarrow> ev_queue e = Some q \<Longrightarrow>
      q < length (mainEventQueue s) \<Longrightarrow> \<not> par \<Longrightarrow> evq_curTick (mainEventQueue s ! q) \<le> ev_when e"
  shows "sim_ok par s'"
proof -
  have hl: "map headless (mainEventQueue s') = map headless (mainEventQueue s)"
    and "inParallelMode s' = inParallelMode s" using eff by (simp_all add: ev_effect_def)
  moreover have "time_ok s'" if "\<not> par"
    unfolding time_ok_def
  proof (intro allI impI)
    fix x e' q
    assume a: "ev_store s' x = Some e' \<and> scheduled e' \<and> ev_queue e' = Some q \<and> q < length (mainEventQueue s')"
    then obtain e where e: "unlinked e' = unlinked e" "if x = ev then v = Some e else ev_store s x = Some e"
      using effect_event [OF eff] by metis
    have q: "q < length (mainEventQueue s)" using a headless_nth(3) [OF hl] map_eq_imp_length_eq [OF hl] by simp
    have "evq_curTick (mainEventQueue s ! q) \<le> ev_when e"
      using a e unlinked_eqD [OF e(1)] time q that ok
      by (cases "x = ev") (auto simp: sim_ok_def time_ok_def)
    then show "evq_curTick (mainEventQueue s' ! q) \<le> ev_when e'"
      using headless_nth(1) [OF hl q] unlinked_eqD(5) [OF e(1)] by simp
  qed
  moreover have "\<forall>eq\<in>set (mainEventQueue s'). evq_async eq = []" if "\<not> par"
    using ok that headless_nth [OF hl] map_eq_imp_length_eq [OF hl]
    by (auto simp: sim_ok_def all_set_conv_all_nth)
  ultimately show ?thesis using ok rep unfolding sim_ok_def by auto
qed

section \<open>Every step keeps the invariant\<close>

lemma sim_okE:
  assumes "sim_ok par s"
  obtains L where "sim_rep s L" "length L = length (mainEventQueue s)"
  using assms unfolding sim_ok_def by (metis sim_rep_def)

lemma ev_atD [dest]: "ev_at h p = Inr e \<Longrightarrow> h p = Some e"
  by (simp add: ev_at_def split: option.splits)

lemma vec_atD: "vec_at xs i = Inr x \<Longrightarrow> i < length xs \<and> xs ! i = x"
  by (simp add: vec_at_eq_Inr_iff)

lemma modify_sim_ok:
  assumes ok: "sim_ok par s" and f: "harmless f" and r: "ev_modify f ev s = Inr s'"
  shows "sim_ok par s'"
proof -
  obtain L where L: "sim_rep s L" using sim_okE [OF ok] by blast
  obtain e where e: "ev_store s ev = Some e" "sim_rep s' L" "ev_effect ev (Some (f e)) s s'"
    using modify_ok [OF L f r] by blast
  show ?thesis
    by (rule effect_ok [OF ok e(2,3)])
       (use ok f e(1) in \<open>auto simp: sim_ok_def time_ok_def harmless_def\<close>)
qed

lemma delete_sim_ok:
  assumes ok: "sim_ok par s" and r: "deleteEvent ev s = Inr s'"
  shows "sim_ok par s'"
proof -
  obtain L where L: "sim_rep s L" using sim_okE [OF ok] by blast
  show ?thesis by (rule effect_ok [OF ok deleteEvent_ok [OF L r]]) simp
qed

lemma construct_sim_ok:
  assumes ok: "sim_ok par s" and r: "ev_store s ev = None" "newEvent p f = Inr e"
  shows "sim_ok par (s\<lparr>ev_store := (ev_store s)(ev \<mapsto> e)\<rparr>)"
proof -
  obtain L where L: "sim_rep s L" using sim_okE [OF ok] by blast
  show ?thesis
    by (rule effect_ok [OF ok newEvent_ok [OF L r] ev_effect_store]) (use newEvent_flags [OF r(2)] in auto)
qed

lemma queue_sim_ok:
  assumes ok: "sim_ok par s"
  shows "sim_ok par (getEventQueue i s)"
proof -
  obtain L where L: "sim_rep s L" "length L = length (mainEventQueue s)" using sim_okE [OF ok] by blast
  let ?s = "getEventQueue i s"
  have "q < length (mainEventQueue s)" if "ev_store s x = Some e" "scheduled e" "ev_queue e = Some q" for x e q
    using scheduled_somewhere [OF L(1) that(1,2)] that(3) L(2) by auto
  then have "time_ok ?s" if "\<not> par"
    using ok that unfolding sim_ok_def time_ok_def
    by (auto simp: getEventQueue_def nth_append)
  moreover have "\<forall>eq\<in>set (mainEventQueue ?s). evq_async eq = []" if "\<not> par"
    using ok that by (auto simp: sim_ok_def getEventQueue_def newEventQueue_def)
  ultimately show ?thesis
    using ok getEventQueue_ok [OF L(1), of i] by (auto simp: sim_ok_def getEventQueue_def)
qed

lemma thread_sim_ok: "sim_ok par s \<Longrightarrow> sim_ok par (s\<lparr>curEventQueue := c\<rparr>)"
  by (auto simp: sim_ok_def time_ok_def sim_rep_def members_def)

lemma schedule_inv:
  assumes "schedule q ev w g s = Inr s'"
  obtains e where "q < length (mainEventQueue s)" "ev_store s ev = Some e" "\<not> scheduled e"
    "initialized e" "evq_curTick (mainEventQueue s ! q) \<le> w"
  using assms by (auto simp: schedule_def bindR_eq_Inr_iff dest!: vec_atD)

lemma schedule_sim_ok:
  assumes ok: "sim_ok par s" and r: "schedule q ev w g s = Inr s'"
  shows "sim_ok par s'"
proof -
  obtain L where L: "sim_rep s L" "length L = length (mainEventQueue s)" using sim_okE [OF ok] by blast
  obtain e where e: "q < length L" "ev_store s ev = Some e" "\<not> scheduled e" "initialized e"
      "evq_curTick (mainEventQueue s ! q) \<le> w"
    using schedule_inv [OF r] L(2) by metis
  show ?thesis
  proof (cases "inParallelMode s \<and> (curEventQueue s \<noteq> Some q \<or> g)")
    case True
    then obtain s1 where "schedule q ev w g s = Inr s1" "sim_rep s1 L" "inParallelMode s1"
      using schedule_async_ok [OF L(1) e] by blast
    then show ?thesis using r ok True by (auto simp: sim_ok_def)
  next
    case False
    obtain s1 L1 where "schedule q ev w g s = Inr s1" "sim_rep s1 L1"
        "ev_effect ev (Some (sched_event w q e)) s s1"
      using schedule_ok [OF L(1) e False] by blast
    then have "sim_rep s' L1" "ev_effect ev (Some (sched_event w q e)) s s'" using r by simp_all
    then show ?thesis by (rule effect_ok [OF ok]) (use e(5) in auto)
  qed
qed

lemma q_remove_inv:
  assumes L: "sim_rep s L" and r: "q_remove q ev s = Inr s'" and e: "ev_store s ev = Some e" "scheduled e"
  shows "q < length L" "ev \<in> set (L ! q)"
proof -
  have q: "q < length (mainEventQueue s)" and rm: "\<exists>x. evq_remove q ev (ev_store s, evq_head (mainEventQueue s ! q)) = Inr x"
    using r by (auto simp: q_remove_def bindR_eq_Inr_iff dest!: vec_atD)
  then have "ev_queue e = Some q"
    using e by (auto simp: evq_remove_def split: option.splits)
  then have m: "q < length L" "ev \<in> members s L q" using scheduled_somewhere [OF L e] by auto
  then show "q < length L" by simp
  show "ev \<in> set (L ! q)"
    using evq_remove_absent [OF sim_repD(1) [OF L m(1)] e(1) _ \<open>ev_queue e = Some q\<close>] rm by fastforce
qed

lemma deschedule_sim_ok:
  assumes ok: "sim_ok par s" and r: "deschedule q ev s = Inr s'"
  shows "sim_ok par s'"
proof -
  obtain L where L: "sim_rep s L" using sim_okE [OF ok] by blast
  obtain e s1 where e: "ev_store s ev = Some e" "scheduled e" "q_remove q ev s = Inr s1"
      "\<not> inParallelMode s \<or> curEventQueue s = Some q"
    using r by (auto simp: deschedule_def bindR_eq_Inr_iff)
  note m = q_remove_inv [OF L e(3,1,2)]
  obtain L' where "sim_rep s' L'" "ev_effect ev (desched_event e) s s'"
    using deschedule_ok [OF L m e(1,4)] r by (metis sum.inject(2))
  then show ?thesis by (rule effect_ok [OF ok]) (auto simp: desched_event_def split: if_splits)
qed

lemma reschedule_sim_ok:
  assumes ok: "sim_ok par s" and r: "reschedule q ev w always s = Inr s'"
  shows "sim_ok par s'"
proof -
  obtain L where L: "sim_rep s L" "length L = length (mainEventQueue s)" using sim_okE [OF ok] by blast
  obtain e s1 where e: "q < length (mainEventQueue s)" "evq_curTick (mainEventQueue s ! q) \<le> w"
      "ev_store s ev = Some e" "always \<or> scheduled e" "initialized e"
      "\<not> inParallelMode s \<or> curEventQueue s = Some q"
      "(if scheduled e then q_remove q ev s else acquire ev s) = Inr s1"
    using r by (auto simp: reschedule_def bindR_eq_Inr_iff dest!: vec_atD)
  have place: "ev \<in> set (L ! q)" if "scheduled e" using q_remove_inv [OF L(1) _ e(3) that] e(7) that by simp
  obtain L' where L': "sim_rep s' L'" "ev_effect ev (Some (resched_event w q e)) s s'"
    using reschedule_ok [OF L(1) _ e(3) place e(4,5,2,6)] e(1) L(2) r by (metis sum.inject(2))
  show ?thesis by (rule effect_ok [OF ok L']) (use e(2) in auto)
qed

lemma setCurTick_inv:
  assumes "setCurTick q t s = Inr s'"
  shows "q < length (mainEventQueue s)"
    "s' = set_queue q ((mainEventQueue s ! q)\<lparr>evq_curTick := t\<rparr>) s"
  using assms by (auto simp: setCurTick_def bindR_eq_Inr_iff dest!: vec_atD)

lemma sim_rep_tick:
  assumes "sim_rep s L" "q < length (mainEventQueue s)"
  shows "sim_rep (set_queue q ((mainEventQueue s ! q)\<lparr>evq_curTick := t\<rparr>) s) L"
proof -
  let ?qs = "(mainEventQueue s)[q := (mainEventQueue s ! q)\<lparr>evq_curTick := t\<rparr>]"
  have "evq_head (?qs ! q') = evq_head (mainEventQueue s ! q')"
    "evq_async (?qs ! q') = evq_async (mainEventQueue s ! q')" for q'
    using assms(2) by (cases "q' = q"; simp)+
  then show ?thesis using assms(1) by (auto simp: sim_rep_def members_def)
qed

text \<open>The time of a queue may move up to that of its first event.\<close>

lemma tick_sim_ok:
  assumes ok: "sim_ok par s" and rep: "sim_rep s L" and r: "setCurTick q t s = Inr s'"
    and early: "\<And>x e. x \<in> set (L ! q) \<Longrightarrow> ev_store s x = Some e \<Longrightarrow> t \<le> ev_when e"
  shows "sim_ok par s'"
proof -
  note q = setCurTick_inv [OF r]
  have len: "length L = length (mainEventQueue s)" using rep by (simp add: sim_rep_def)
  have "evq_curTick (mainEventQueue s' ! q') \<le> ev_when e"
    if np: "\<not> par" and e: "ev_store s x = Some e" "scheduled e" "ev_queue e = Some q'"
      "q' < length (mainEventQueue s)" for x e q'
  proof (cases "q' = q")
    case True
    have "x \<in> members s L q" using scheduled_somewhere [OF rep e(1,2)] e(3) True by auto
    moreover have "evq_async (mainEventQueue s ! q) = []" using ok np q(1) by (auto simp: sim_ok_def)
    ultimately have "x \<in> set (L ! q)" by (simp add: members_def)
    then show ?thesis using early e(1) True q by simp
  next
    case False
    then show ?thesis using ok np e q(2) by (auto simp: sim_ok_def time_ok_def)
  qed
  then have "time_ok s'" if "\<not> par" using that unfolding time_ok_def q(2) by auto
  moreover have "\<forall>eq\<in>set (mainEventQueue s'). evq_async eq = []" if "\<not> par"
    using ok that q unfolding sim_ok_def by (auto dest!: set_list_updateD)
  ultimately show ?thesis using ok sim_rep_tick [OF rep q(1), of t] q(2) by (auto simp: sim_ok_def)
qed

lemma when_le: "ev_key a \<le> ev_key b \<Longrightarrow> ev_when a \<le> ev_when b"
  by (auto simp: ev_key_def less_eq_prod_def)

lemma head_least:
  assumes "queue_rep h p (ev # xs)" "h ev = Some e" "x \<in> set xs" "h x = Some e'"
  shows "ev_key e \<le> ev_key e'"
  using queue_rep_sorted [OF assms(1)] assms(2-4) by auto

lemma pop_inv:
  assumes L: "sim_rep s L" and r: "service_pop q s = Inr (s1, ev)"
  obtains xs e where "q < length L" "L ! q = ev # xs" "ev_store s ev = Some e"
    "sim_rep s1 (L[q := xs])" "ev_effect ev (Some (flag_clear Scheduled e)) s s1"
    "evq_head (mainEventQueue s ! q) = Some ev"
proof -
  have len: "length L = length (mainEventQueue s)" using L by (simp add: sim_rep_def)
  have q: "q < length L" "evq_head (mainEventQueue s ! q) \<noteq> None"
    using r len by (auto simp: service_pop_def bindR_eq_Inr_iff dest!: vec_atD split: option.splits)
  obtain ev' xs where xs: "L ! q = ev' # xs"
    using sim_repD(1) [OF L q(1)] q(2) queue_rep_Nil by (cases "L ! q") auto
  obtain e where e: "ev_store s ev' = Some e" using member_event [OF L q(1), of ev'] xs by auto
  obtain s2 where "service_pop q s = Inr (s2, ev')" "sim_rep s2 (L[q := xs])"
      "ev_effect ev' (Some (flag_clear Scheduled e)) s s2"
    by (rule service_pop_ok [OF L q(1) xs e])
  moreover have "evq_head (mainEventQueue s ! q) = Some ev'"
    using removeItem_head [OF sim_repD(1) [OF L q(1), unfolded xs]] by blast
  ultimately show ?thesis using that q xs e r by auto
qed

lemma pop_sim_ok:
  assumes ok: "sim_ok par s" and L: "sim_rep s L" and r: "service_pop q s = Inr (s1, ev)"
  shows "sim_ok par s1"
proof -
  obtain xs e where p: "q < length L" "L ! q = ev # xs" "ev_store s ev = Some e"
      "sim_rep s1 (L[q := xs])" "ev_effect ev (Some (flag_clear Scheduled e)) s s1"
      "evq_head (mainEventQueue s ! q) = Some ev"
    by (rule pop_inv [OF L r])
  show ?thesis by (rule effect_ok [OF ok p(4,5)]) auto
qed

lemma serve_sim_ok:
  assumes ok: "sim_ok par s" and r: "service_pop q s = Inr (s1, ev)" "ev_at (ev_store s1) ev = Inr e"
      "setCurTick q (ev_when e) s1 = Inr s'"
  shows "sim_ok par s'"
proof -
  obtain L where L: "sim_rep s L" using sim_okE [OF ok] by blast
  obtain xs e0 where p: "q < length L" "L ! q = ev # xs" "ev_store s ev = Some e0"
      "sim_rep s1 (L[q := xs])" "ev_effect ev (Some (flag_clear Scheduled e0)) s s1"
      "evq_head (mainEventQueue s ! q) = Some ev"
    by (rule pop_inv [OF L r(1)])
  have "unlinked e = unlinked (flag_clear Scheduled e0)" using p(5) r(2) by (auto simp: ev_effect_def)
  from unlinked_eqD(5) [OF this] have same: "ev_when e = ev_when e0" by simp
  have dist: "ev \<notin> set xs" using queue_rep_distinct [OF sim_repD(1) [OF L p(1)]] p(2) by simp
  show ?thesis
  proof (rule tick_sim_ok [OF pop_sim_ok [OF ok L r(1)] p(4) r(3)])
    fix x ex assume x: "x \<in> set (L[q := xs] ! q)" "ev_store s1 x = Some ex"
    then have "x \<in> set xs" "x \<noteq> ev" using p(1) dist by auto
    moreover obtain ey where "unlinked ex = unlinked ey" "if x = ev then Some (flag_clear Scheduled e0) = Some ey else ev_store s x = Some ey"
      by (rule effect_event [OF p(5) x(2)])
    ultimately have y: "unlinked ex = unlinked ey" "ev_store s x = Some ey" "x \<in> set xs" by simp_all
    have "ev_when e0 \<le> ev_when ey"
      by (rule when_le, rule head_least [OF sim_repD(1) [OF L p(1), unfolded p(2)] p(3) y(3,2)])
    then show "ev_when e \<le> ev_when ex" using unlinked_eqD(5) [OF y(1)] same by simp
  qed
qed

lemma nextTick_early:
  assumes L: "sim_rep s L" and t: "nextTick q s = Inr t" "t = None \<or> the t > w"
    and x: "x \<in> set (L ! q)" "ev_store s x = Some e"
  shows "w < ev_when e"
proof -
  have len: "length L = length (mainEventQueue s)" using L by (simp add: sim_rep_def)
  then have q: "q < length L" using t(1) by (auto simp: nextTick_def bindR_eq_Inr_iff dest!: vec_atD)
  obtain ev xs where xs: "L ! q = ev # xs" using x(1) by (cases "L ! q") auto
  note rep = sim_repD(1) [OF L q, unfolded xs]
  obtain e0 where e0: "ev_store s ev = Some e0" using member_event [OF L q, of ev] xs by auto
  have "evq_head (mainEventQueue s ! q) = Some ev" using removeItem_head [OF rep] by blast
  then have "t = Some (ev_when e0)" using t(1) e0 q len by (simp add: nextTick_def)
  then have "w < ev_when e0" using t(2) by simp
  moreover have "ev_when e0 \<le> ev_when e"
    using x e0 xs head_least [OF rep e0 _ x(2)] when_le [of e0 e] by auto
  ultimately show ?thesis by simp
qed

lemma merge_sim_ok:
  assumes ok: "sim_ok par s" and r: "handleAsyncInsertions q s = Inr s'"
  shows "sim_ok par s'"
proof -
  obtain L where L: "sim_rep s L" "length L = length (mainEventQueue s)" using sim_okE [OF ok] by blast
  have q: "q < length L" "curEventQueue s = Some q"
    using r L(2) by (auto simp: handleAsyncInsertions_def bindR_eq_Inr_iff dest!: vec_atD)
  show ?thesis
  proof (cases par)
    case True
    obtain s1 L1 where "handleAsyncInsertions q s = Inr s1" "sim_rep s1 L1"
        "inParallelMode s1 = inParallelMode s"
      using handleAsyncInsertions_ok [OF L(1) q] by blast
    then show ?thesis using r ok True by (auto simp: sim_ok_def)
  next
    case False
    then have "evq_async (mainEventQueue s ! q) = []" using ok q(1) L(2) by (auto simp: sim_ok_def)
    then have "s' = s" using r q L(2) by (simp add: handleAsyncInsertions_def)
    then show ?thesis using ok by simp
  qed
qed

lemma squash_setFlags: "squash ev s = setFlags Squashed ev s"
  by (simp add: squash_def setFlags_def flag_noneSet_def flag_masks)

theorem evreach_sim_ok: "evreach par s \<Longrightarrow> sim_ok par s"
proof (induction rule: evreach.induct)
  case (start c)
  show ?case by (auto simp: new_sim_def sim_ok_def sim_rep_def time_ok_def alive_with_def)
next
  case (queue s i)
  then show ?case by (simp add: queue_sim_ok)
next
  case (thread s c)
  then show ?case by (simp add: thread_sim_ok)
next
  case (construct s ev p f e)
  then show ?case by (simp add: construct_sim_ok)
next
  case (destruct s ev s')
  then show ?case by (simp add: delete_sim_ok)
next
  case (setf s m ev s')
  then show ?case by (auto simp: setFlags_def intro: modify_sim_ok harmless_public)
next
  case (clearf s m ev s')
  then show ?case by (auto simp: clearFlags_def intro: modify_sim_ok harmless_public)
next
  case (squashing s ev s')
  then show ?case by (auto simp: squash_def intro: modify_sim_ok harmless_squash)
next
  case (scheduling s q ev w g s')
  then show ?case by (simp add: schedule_sim_ok)
next
  case (descheduling s q ev s')
  then show ?case by (simp add: deschedule_sim_ok)
next
  case (rescheduling s q ev w always s')
  then show ?case by (simp add: reschedule_sim_ok)
next
  case (serve s q s1 ev e s')
  then show ?case by (simp add: serve_sim_ok)
next
  case (skip s q s1 ev e s')
  then obtain L where "sim_rep s L" using sim_okE by blast
  with skip show ?case using modify_sim_ok [OF pop_sim_ok harmless_squash(2)] by blast
next
  case (releasing s ev s')
  then show ?case using release_cases delete_sim_ok by blast
next
  case (advance s q t w s')
  obtain L where L: "sim_rep s L" using sim_okE advance.IH by blast
  show ?case
    by (rule tick_sim_ok [OF advance.IH L advance.hyps(4)])
       (use nextTick_early [OF L advance.hyps(2,3)] in \<open>auto intro: less_imp_le\<close>)
next
  case (merge s q s')
  then show ?case by (simp add: merge_sim_ok)
qed

end
