(* ===== verification/Event_Theorems.thy ===== *)
theory Event_Theorems
  imports Event_Order
begin

text \<open>
  What the event queues promise: each queue is a list sorted by time and priority on which the
  operations act as on an abstract calendar, the first event is served first, the documented
  preconditions are enough for every operation to succeed, and the loops that serve or discard
  events end.
\<close>

section \<open>Order of service\<close>

text \<open>The events that are scheduled on a queue, with a bound on their time.\<close>

definition due :: "evsim \<Rightarrow> nat \<Rightarrow> tick \<Rightarrow> nat set" where
  "due s q w = {x. \<exists>e. ev_store s x = Some e \<and> scheduled e \<and> ev_queue e = Some q \<and> ev_when e \<le> w}"

lemma seq_lists:
  assumes "evreach False s"
  obtains L where "sim_rep s L" "length L = length (mainEventQueue s)" "time_ok s"
    "\<not> inParallelMode s" "\<forall>q<length L. members s L q = set (L ! q)"
proof -
  have ok: "sim_ok False s" using evreach_sim_ok [OF assms] .
  obtain L where L: "sim_rep s L" "length L = length (mainEventQueue s)" using sim_okE [OF ok] by blast
  have "members s L q = set (L ! q)" if "q < length L" for q
    using ok that L(2) by (auto simp: sim_ok_def members_def)
  then show ?thesis using ok L that by (auto simp: sim_ok_def)
qed

lemma in_queue:
  assumes L: "sim_rep s L" "\<forall>q<length L. members s L q = set (L ! q)"
    and e: "ev_store s x = Some e" "scheduled e" "ev_queue e = Some q"
  shows "q < length L" "x \<in> set (L ! q)"
  using scheduled_somewhere [OF L(1) e(1,2)] L(2) e(3) by auto

text \<open>
  C22. An event of the queue with the least time and, among those, the least priority value is served,
  it is not in the past, and its action runs at its time.
\<close>

theorem event_service_order:
  assumes "evreach False s" "q < length (mainEventQueue s)" "evq_head (mainEventQueue s ! q) \<noteq> None"
  shows "\<exists>ev e s1. service_pop q s = Inr (s1, ev) \<and> ev_store s ev = Some e \<and> scheduled e \<and>
    ev_queue e = Some q \<and> evq_curTick (mainEventQueue s ! q) \<le> ev_when e \<and>
    (\<forall>x e'. ev_store s x = Some e' \<and> scheduled e' \<and> ev_queue e' = Some q \<longrightarrow> ev_key e \<le> ev_key e') \<and>
    (squashed e \<or> (\<exists>s2. evq_curTick (mainEventQueue s2 ! q) = ev_when e \<and>
       (\<forall>process. serviceOne q process s = bindR (process ev s2) (service_finish ev))))"
proof -
  obtain L where L: "sim_rep s L" "length L = length (mainEventQueue s)" "time_ok s"
      "\<not> inParallelMode s" "\<forall>q<length L. members s L q = set (L ! q)"
    by (rule seq_lists [OF assms(1)])
  have q: "q < length L" using assms(2) L(2) by simp
  obtain ev xs where xs: "L ! q = ev # xs"
    using sim_repD(1) [OF L(1) q] assms(3) queue_rep_Nil by (cases "L ! q") auto
  obtain e where e: "ev_store s ev = Some e" "ev_queue e = Some q" "scheduled e"
    using member_event [OF L(1) q, of ev] xs by auto
  obtain s1 where s1: "service_pop q s = Inr (s1, ev)" "sim_rep s1 (L[q := xs])"
      "ev_effect ev (Some (flag_clear Scheduled e)) s s1"
    by (rule service_pop_ok [OF L(1) q xs e(1)])
  have least: "ev_key e \<le> ev_key e'" if "ev_store s x = Some e'" "scheduled e'" "ev_queue e' = Some q" for x e'
    using in_queue(2) [OF L(1,5) that] xs e(1) that(1)
      head_least [OF sim_repD(1) [OF L(1) q, unfolded xs] e(1), of x e'] by auto
  have past: "evq_curTick (mainEventQueue s ! q) \<le> ev_when e"
    using L(3) e assms(2) by (auto simp: time_ok_def)
  obtain e1 where e1: "ev_store s1 ev = Some e1" "unlinked e1 = unlinked (flag_clear Scheduled e)"
    using s1(3) by (auto simp: ev_effect_def)
  have q1: "q < length (mainEventQueue s1)" using s1(2) q by (simp add: sim_rep_def)
  let ?s2 = "set_queue q ((mainEventQueue s1 ! q)\<lparr>evq_curTick := ev_when e1\<rparr>) s1"
  have w: "ev_when e1 = ev_when e" "squashed e1 = squashed e" using unlinked_eqD [OF e1(2)] by simp_all
  have "serviceOne q process s = bindR (process ev ?s2) (service_finish ev)" if "\<not> squashed e" for process
    using s1(1) e1(1) q1 w that by (simp add: serviceOne_def setCurTick_def)
  moreover have "evq_curTick (mainEventQueue ?s2 ! q) = ev_when e" using q1 w by simp
  ultimately show ?thesis using s1(1) e least past by blast
qed

section \<open>The operations succeed\<close>

text \<open>
  C24. The asserted preconditions are enough: an event that is not scheduled can be scheduled at any
  time that is not past, one that is scheduled on the queue can be descheduled, and either can be
  rescheduled.
\<close>

theorem event_ops_succeed:
  assumes "evreach False s" "q < length (mainEventQueue s)" "ev_store s ev = Some e" "initialized e"
  shows "(\<not> scheduled e \<and> evq_curTick (mainEventQueue s ! q) \<le> w \<longrightarrow> (\<exists>s'. schedule q ev w g s = Inr s')) \<and>
    (scheduled e \<and> ev_queue e = Some q \<longrightarrow> (\<exists>s'. deschedule q ev s = Inr s')) \<and>
    ((scheduled e \<longrightarrow> ev_queue e = Some q) \<and> (always \<or> scheduled e) \<and>
      evq_curTick (mainEventQueue s ! q) \<le> w \<longrightarrow> (\<exists>s'. reschedule q ev w always s = Inr s'))"
proof -
  obtain L where L: "sim_rep s L" "length L = length (mainEventQueue s)" "time_ok s"
      "\<not> inParallelMode s" "\<forall>q<length L. members s L q = set (L ! q)"
    by (rule seq_lists [OF assms(1)])
  have q: "q < length L" using assms(2) L(2) by simp
  have mem: "ev \<in> set (L ! q)" if "scheduled e" "ev_queue e = Some q"
    using in_queue(2) [OF L(1,5) assms(3) that] .
  have "\<exists>s'. schedule q ev w g s = Inr s'"
    if "\<not> scheduled e" "evq_curTick (mainEventQueue s ! q) \<le> w"
    by (rule schedule_ok [OF L(1) q assms(3) that(1) assms(4) that(2), of g]) (use L(4) in auto)
  moreover have "\<exists>s'. deschedule q ev s = Inr s'" if "scheduled e" "ev_queue e = Some q"
    by (rule deschedule_ok [OF L(1) q mem [OF that] assms(3)]) (use L(4) in auto)
  moreover have "\<exists>s'. reschedule q ev w always s = Inr s'"
    if "scheduled e \<longrightarrow> ev_queue e = Some q" "always \<or> scheduled e"
      "evq_curTick (mainEventQueue s ! q) \<le> w"
    by (rule reschedule_ok [OF L(1) q assms(3) _ that(2) assms(4) that(3)]) (use mem that L(4) in auto)
  ultimately show ?thesis by blast
qed

section \<open>The queue as a list\<close>

text \<open>The list that a queue represents is unique.\<close>

lemma inbin_unique: "inbin h p xs \<Longrightarrow> inbin h p ys \<Longrightarrow> ys = xs"
proof (induction xs arbitrary: p ys)
  case Nil
  then show ?case by (cases ys) auto
next
  case (Cons x xs)
  then show ?case by (cases ys) auto
qed

lemma bins_unique: "bins h p bs \<Longrightarrow> bins h p cs \<Longrightarrow> cs = bs"
proof (induction h p bs arbitrary: cs rule: bins.induct)
  case (1 h p)
  then show ?case by (cases "(h, p, cs)" rule: bins.cases) auto
next
  case (3 h p x xs bs)
  then obtain y ys ds where "cs = (y # ys) # ds" by (cases "(h, p, cs)" rule: bins.cases) auto
  with 3 show ?case by (auto dest: inbin_unique)
qed simp

lemma queue_rep_unique: "queue_rep h p xs \<Longrightarrow> queue_rep h p ys \<Longrightarrow> ys = xs"
  unfolding queue_rep_def using bins_unique by blast

definition pending :: "evsim \<Rightarrow> nat \<Rightarrow> nat list \<Rightarrow> bool" where
  "pending s q xs \<longleftrightarrow> q < length (mainEventQueue s) \<and>
     queue_rep (ev_store s) (evq_head (mainEventQueue s ! q)) xs"

lemma pending_rep: "sim_rep s L \<Longrightarrow> pending s q xs \<longleftrightarrow> q < length L \<and> xs = L ! q"
  using queue_rep_unique [OF sim_repD(1) [of s L q]]
  by (auto simp: pending_def sim_rep_def [of s L])

text \<open>
  C21. Scheduling inserts the event before all events of its queue that are not earlier, so it comes
  first among those with its time and priority; descheduling removes it; rescheduling does both.
  Every other queue stays as it is.
\<close>

theorem event_queue_refines_list:
  assumes "evreach False s" "pending s q xs"
  shows "(schedule q ev w g s = Inr s' \<longrightarrow> pending s' q (insert_event (key_of (ev_store s')) ev xs)) \<and>
    (deschedule q ev s = Inr s' \<longrightarrow> pending s' q (remove1 ev xs)) \<and>
    (reschedule q ev w always s = Inr s' \<longrightarrow>
       pending s' q (insert_event (key_of (ev_store s')) ev (remove1 ev xs))) \<and>
    (service_pop q s = Inr (s', ev) \<longrightarrow> xs = ev # tl xs \<and> pending s' q (tl xs)) \<and>
    (\<forall>q' ys. q' \<noteq> q \<and> pending s q' ys \<and> (schedule q ev w g s = Inr s' \<or> deschedule q ev s = Inr s' \<or>
       reschedule q ev w always s = Inr s' \<or> service_pop q s = Inr (s', ev)) \<longrightarrow> pending s' q' ys)"
proof -
  obtain L where L: "sim_rep s L" "length L = length (mainEventQueue s)" "time_ok s"
      "\<not> inParallelMode s" "\<forall>q<length L. members s L q = set (L ! q)"
    by (rule seq_lists [OF assms(1)])
  have q: "q < length L" "xs = L ! q" using assms(2) pending_rep [OF L(1)] by simp_all
  define upd where "upd ys \<longleftrightarrow> sim_rep s' (L[q := ys])" for ys
  have "upd (insert_event (key_of (ev_store s')) ev xs)" if r: "schedule q ev w g s = Inr s'"
  proof -
    obtain e where e: "ev_store s ev = Some e" "\<not> scheduled e" "initialized e"
        "evq_curTick (mainEventQueue s ! q) \<le> w"
      using schedule_inv [OF r] by blast
    show ?thesis unfolding upd_def
      by (rule schedule_ok [OF L(1) q(1) e, of g]) (use L(4) r q(2) in auto)
  qed
  moreover have "upd (remove1 ev xs)" if r: "deschedule q ev s = Inr s'"
  proof -
    obtain e s1 where e: "ev_store s ev = Some e" "scheduled e" "q_remove q ev s = Inr s1"
      using r by (auto simp: deschedule_def bindR_eq_Inr_iff)
    show ?thesis unfolding upd_def
      by (rule deschedule_ok [OF L(1) q_remove_inv [OF L(1) e(3,1,2)] e(1)]) (use L(4) r q(2) in auto)
  qed
  moreover have "upd (insert_event (key_of (ev_store s')) ev (remove1 ev xs))"
    if r: "reschedule q ev w always s = Inr s'"
  proof -
    obtain e s1 where e: "evq_curTick (mainEventQueue s ! q) \<le> w" "ev_store s ev = Some e"
        "always \<or> scheduled e" "initialized e"
        "(if scheduled e then q_remove q ev s else acquire ev s) = Inr s1"
      using r by (auto simp: reschedule_def bindR_eq_Inr_iff dest!: vec_atD)
    have "ev \<in> set (L ! q)" if "scheduled e" using q_remove_inv [OF L(1) _ e(2) that] e(5) that by simp
    then show ?thesis unfolding upd_def
      by (rule reschedule_ok [OF L(1) q(1) e(2) _ e(3,4,1)]) (use L(4) r q(2) in auto)
  qed
  moreover have "xs = ev # tl xs \<and> upd (tl xs)" if r: "service_pop q s = Inr (s', ev)"
    unfolding upd_def by (rule pop_inv [OF L(1) r]) (use q(2) in auto)
  moreover have "pending s' q ys" if "upd ys" for ys
    using pending_rep [of s' "L[q := ys]" q] that q(1) by (simp add: upd_def)
  moreover have "pending s' q' zs" if "upd ys" "q' \<noteq> q" "pending s q' zs" for ys q' zs
    using pending_rep [of s' "L[q := ys]" q'] pending_rep [OF L(1), of q' zs] that by (simp add: upd_def)
  ultimately show ?thesis by blast
qed

section \<open>The loops end\<close>

lemma reach_pending:
  assumes "evreach False s" "q < length (mainEventQueue s)"
  obtains L where "sim_rep s L" "pending s q (L ! q)" "q < length L" "\<not> inParallelMode s"
    "\<forall>q<length L. members s L q = set (L ! q)"
proof -
  obtain L where L: "sim_rep s L" "length L = length (mainEventQueue s)" "time_ok s"
      "\<not> inParallelMode s" "\<forall>q<length L. members s L q = set (L ! q)"
    by (rule seq_lists [OF assms(1)])
  then show ?thesis using that [OF L(1) _ _ L(4,5)] pending_rep [OF L(1)] assms(2) by simp
qed

lemma due_pending:
  assumes "sim_rep s L" "\<forall>q<length L. members s L q = set (L ! q)" "q < length L"
  shows "due s q w = {x \<in> set (L ! q). \<exists>e. ev_store s x = Some e \<and> ev_when e \<le> w}"
proof -
  have "x \<in> set (L ! q)" if "x \<in> due s q w" for x
    using that in_queue(2) [OF assms(1,2), of x] by (auto simp: due_def)
  moreover have "\<exists>e. ev_store s x = Some e \<and> scheduled e \<and> ev_queue e = Some q" if "x \<in> set (L ! q)" for x
    using member_event [OF assms(1,3) that] by blast
  ultimately show ?thesis by (fastforce simp: due_def)
qed

lemma destroy_loop_ends:
  assumes "evreach False s" "pending s q xs"
  shows "\<exists>s'. destroy_loop q s = Some (Inr s') \<and> evreach False s' \<and> pending s' q []"
  using assms
proof (induction xs arbitrary: s)
  case Nil
  then have "destroy_loop q s = Some (Inr s)"
    by (simp add: destroy_loop.simps [of q s] pending_def queue_rep_Nil)
  then show ?case using Nil by blast
next
  case (Cons ev xs)
  obtain L where L: "sim_rep s L" "length L = length (mainEventQueue s)" "time_ok s"
      "\<not> inParallelMode s" "\<forall>q<length L. members s L q = set (L ! q)"
    by (rule seq_lists [OF Cons.prems(1)])
  have q: "q < length L" "L ! q = ev # xs" "q < length (mainEventQueue s)"
    using Cons.prems(2) pending_rep [OF L(1)] L(2) by simp_all
  then have ev: "ev \<in> set (L ! q)" by simp
  obtain e where e: "ev_store s ev = Some e" by (rule member_event [OF L(1) q(1) ev])
  obtain s1 where s1: "deschedule q ev s = Inr s1" "sim_rep s1 (L[q := remove1 ev (L ! q)])"
    by (rule deschedule_ok [OF L(1) q(1) ev e]) (use L(4) in auto)
  have hd: "evq_head (mainEventQueue s ! q) = Some ev"
    by (rule removeItem_head [OF sim_repD(1) [OF L(1) q(1), unfolded q(2)]])
  have "pending s1 q xs" using pending_rep [OF s1(2), of q] q(1,2) by simp
  from Cons.IH [OF evreach.descheduling [OF Cons.prems(1) s1(1)] this]
  show ?case using s1(1) hd q(3) by (simp add: destroy_loop.simps [of q s])
qed

text \<open>C40. The destructor of a queue takes every event off it and ends.\<close>

theorem evq_destructor_ends:
  assumes "evreach False s" "q < length (mainEventQueue s)"
  shows "\<exists>s'. destroy_loop q s = Some (Inr s') \<and> evreach False s' \<and>
    evq_head (mainEventQueue s' ! q) = None \<and> (\<forall>w. due s' q w = {})"
proof -
  obtain L where "pending s q (L ! q)" by (rule reach_pending [OF assms])
  then obtain s' where s': "destroy_loop q s = Some (Inr s')" "evreach False s'" "pending s' q []"
    using destroy_loop_ends [OF assms(1)] by blast
  have q': "q < length (mainEventQueue s')" using s'(3) by (simp add: pending_def)
  obtain L' where L': "sim_rep s' L'" "pending s' q (L' ! q)" "q < length L'" "\<not> inParallelMode s'"
      "\<forall>q<length L'. members s' L' q = set (L' ! q)"
    by (rule reach_pending [OF s'(2) q'])
  have "L' ! q = []" using s'(3) pending_rep [OF L'(1)] by simp
  then have "due s' q w = {}" for w using due_pending [OF L'(1,5,3)] by simp
  then show ?thesis using s' by (auto simp: pending_def queue_rep_Nil)
qed

section \<open>Every event that is due is served\<close>

lemma due_effect:
  assumes "ev_effect ev v s s'"
  shows "due s' q w = due s q w - {ev} \<union>
    {x. x = ev \<and> (\<exists>e. v = Some e \<and> scheduled e \<and> ev_queue e = Some q \<and> ev_when e \<le> w)}"
proof (rule set_eqI)
  fix x
  have eq: "map_option unlinked (ev_store s' x) = map_option unlinked (if x = ev then v else ev_store s x)"
    using assms by (simp add: ev_effect_def)
  have cong: "(\<exists>e. a = Some e \<and> scheduled e \<and> ev_queue e = Some q \<and> ev_when e \<le> w) \<longleftrightarrow>
      (\<exists>e. b = Some e \<and> scheduled e \<and> ev_queue e = Some q \<and> ev_when e \<le> w)"
    if "map_option unlinked a = map_option unlinked b" for a b
    using that by (cases a; cases b) (auto dest: unlinked_eqD)
  show "x \<in> due s' q w \<longleftrightarrow> x \<in> due s q w - {ev} \<union>
      {x. x = ev \<and> (\<exists>e. v = Some e \<and> scheduled e \<and> ev_queue e = Some q \<and> ev_when e \<le> w)}"
    using cong [OF eq] by (cases "x = ev") (auto simp: due_def)
qed

lemma due_release:
  assumes "sim_rep s L" "release ev s = Inr s'"
  shows "due s' q w = due s q w" "mainEventQueue s' = mainEventQueue s"
proof -
  have "s' = s \<or> (\<exists>e. ev_store s ev = Some e \<and> \<not> scheduled e \<and> s' = s\<lparr>ev_store := (ev_store s)(ev := None)\<rparr>)"
    using release_cases [OF assms(2)] by (auto simp: deleteEvent_def bindR_eq_Inr_iff)
  then show "due s' q w = due s q w" "mainEventQueue s' = mainEventQueue s"
    by (auto simp: due_def split: if_splits)
qed

text \<open>
  An action that may be run by \<open>serviceEvents q w\<close>: it returns, uses the queues through their
  operations, makes no event due on \<open>q\<close>, and leaves its event in a state in which the service
  can be completed.
\<close>

definition due_preserving :: "nat \<Rightarrow> tick \<Rightarrow> (nat \<Rightarrow> evsim \<Rightarrow> evsim res) \<Rightarrow> bool" where
  "due_preserving q w process \<longleftrightarrow> (\<forall>ev s e. evreach False s \<and> ev_store s ev = Some e \<longrightarrow>
     (\<exists>s' r. process ev s = Inr s' \<and> evreach False s' \<and> service_finish ev s' = Inr r \<and>
        length (mainEventQueue s') = length (mainEventQueue s) \<and> due s' q w \<subseteq> due s q w))"

lemma serviceOne_due:
  assumes reach: "evreach False s" and L: "sim_rep s L" "q < length L" "L ! q = ev # xs"
    and e: "ev_store s ev = Some e" and proc: "due_preserving q w process"
  obtains s' r where "serviceOne q process s = Inr (s', r)" "evreach False s'"
    "due s' q w \<subseteq> due s q w - {ev}" "length (mainEventQueue s') = length (mainEventQueue s)"
proof -
  obtain s1 where s1: "service_pop q s = Inr (s1, ev)" "sim_rep s1 (L[q := xs])"
      "ev_effect ev (Some (flag_clear Scheduled e)) s s1"
    by (rule service_pop_ok [OF L e])
  have due1: "due s1 q w = due s q w - {ev}" using due_effect [OF s1(3)] by simp
  obtain e1 where e1: "ev_store s1 ev = Some e1" "unlinked e1 = unlinked (flag_clear Scheduled e)"
    using s1(3) by (auto simp: ev_effect_def)
  have len1: "length (mainEventQueue s1) = length (mainEventQueue s)"
    using s1(2) L(1) by (simp add: sim_rep_def)
  have q1: "q < length (mainEventQueue s1)" using s1(2) L(2) by (simp add: sim_rep_def)
  show ?thesis
  proof (cases "squashed e1")
    case False
    let ?s2 = "set_queue q ((mainEventQueue s1 ! q)\<lparr>evq_curTick := ev_when e1\<rparr>) s1"
    have tick: "setCurTick q (ev_when e1) s1 = Inr ?s2" using q1 by (simp add: setCurTick_def)
    have "evreach False ?s2" by (rule evreach.serve [OF reach s1(1) _ False tick]) (simp add: e1(1))
    then obtain s3 r where s3: "process ev ?s2 = Inr s3" "evreach False s3" "service_finish ev s3 = Inr r"
        "length (mainEventQueue s3) = length (mainEventQueue ?s2)" "due s3 q w \<subseteq> due ?s2 q w"
      using proc e1(1) unfolding due_preserving_def by (metis set_queue_simps(1))
    obtain L3 where L3: "sim_rep s3 L3" using seq_lists [OF s3(2)] by metis
    have fin: "fst r = s3 \<or> release ev s3 = Inr (fst r)"
      using s3(3) by (auto simp: service_finish_def bindR_eq_Inr_iff split: if_splits)
    then have "evreach False (fst r)" "due (fst r) q w = due s3 q w" "mainEventQueue (fst r) = mainEventQueue s3"
      using s3(2) evreach.releasing due_release [OF L3] by auto
    moreover have "serviceOne q process s = Inr (fst r, snd r)"
      using s1(1) e1(1) False tick s3(1,3) by (simp add: serviceOne_def)
    moreover have "due ?s2 q w = due s1 q w" by (simp add: due_def)
    ultimately show ?thesis using that [of "fst r" "snd r"] s3(4,5) due1 len1 by simp
  next
    case True
    let ?s2 = "s1\<lparr>ev_store := (ev_store s1)(ev \<mapsto> flag_clear Squashed e1)\<rparr>"
    have cl: "ev_modify (flag_clear Squashed) ev s1 = Inr ?s2" using e1(1) by simp
    have reach2: "evreach False ?s2" by (rule evreach.skip [OF reach s1(1) _ True cl]) (simp add: e1(1))
    obtain L2 where L2: "sim_rep ?s2 L2" using seq_lists [OF reach2] by metis
    have ns: "\<not> scheduled e1" using unlinked_eqD(1) [OF e1(2)] by simp
    then obtain s3 where s3: "release ev ?s2 = Inr s3"
      using release_unscheduled [of ?s2 ev "flag_clear Squashed e1"] by auto
    have "serviceOne q process s = Inr (s3, None)"
      using s1(1) e1(1) True cl s3 by (simp add: serviceOne_def)
    moreover have "due ?s2 q w = due s1 q w" using e1(1) ns by (auto simp: due_def)
    ultimately show ?thesis
      using that [of s3 None] evreach.releasing [OF reach2 s3] due_release [OF L2 s3] due1 len1 by simp
  qed
qed

lemma service_loop_ends:
  assumes "evreach False s" "q < length (mainEventQueue s)" "due_preserving q w process"
  shows "\<exists>s' t. service_loop q w process s = Some (Inr s') \<and> evreach False s' \<and> nextTick q s' = Inr t \<and>
    (t = None \<or> the t > w) \<and> q < length (mainEventQueue s')"
  using assms
proof (induction "card (due s q w)" arbitrary: s rule: less_induct)
  case less
  obtain L where L: "sim_rep s L" "pending s q (L ! q)" "q < length L" "\<not> inParallelMode s"
      "\<forall>q<length L. members s L q = set (L ! q)"
    by (rule reach_pending [OF less.prems(1,2)])
  show ?case
  proof (cases "L ! q")
    case Nil
    then have "nextTick q s = Inr None"
      using L(2) less.prems(2) by (simp add: nextTick_def pending_def queue_rep_Nil)
    then show ?thesis using less.prems by (simp add: service_loop.simps [of q w process s])
  next
    case (Cons ev xs)
    have rep: "queue_rep (ev_store s) (evq_head (mainEventQueue s ! q)) (ev # xs)"
      using L(2) Cons by (simp add: pending_def)
    have ev: "ev \<in> set (L ! q)" using Cons by simp
    obtain e where e: "ev_store s ev = Some e" by (rule member_event [OF L(1,3) ev])
    have "evq_head (mainEventQueue s ! q) = Some ev" by (rule removeItem_head [OF rep])
    then have nt: "nextTick q s = Inr (Some (ev_when e))" using e less.prems(2) by (simp add: nextTick_def)
    show ?thesis
    proof (cases "ev_when e > w")
      case True
      then show ?thesis using nt less.prems by (simp add: service_loop.simps [of q w process s])
    next
      case False
      obtain s1 r where s1: "serviceOne q process s = Inr (s1, r)" "evreach False s1"
          "due s1 q w \<subseteq> due s q w - {ev}" "length (mainEventQueue s1) = length (mainEventQueue s)"
        by (rule serviceOne_due [OF less.prems(1) L(1,3) Cons e less.prems(3)])
      have "ev \<in> due s q w" "finite (due s q w)"
        using due_pending [OF L(1,5,3)] ev e False by auto
      then have "card (due s1 q w) < card (due s q w)"
        using s1(3) by (intro psubset_card_mono) auto
      from less.hyps [OF this s1(2) _ less.prems(3)] s1(4) less.prems(2)
      have "\<exists>s' t. service_loop q w process s1 = Some (Inr s') \<and> evreach False s' \<and> nextTick q s' = Inr t \<and>
          (t = None \<or> the t > w) \<and> q < length (mainEventQueue s')" by simp
      then show ?thesis using nt s1(1) False by (simp add: service_loop.simps [of q w process s])
    qed
  qed
qed


section \<open>The debugging check\<close>

lemma key_le_iff: "(t, r) \<le> ev_key e \<longleftrightarrow> \<not> ev_when e < t \<and> \<not> (ev_when e = t \<and> sint (ev_priority e) < r)"
  by (auto simp: ev_key_def less_eq_prod_def)

lemma verify_bin_passes:
  assumes "inbin h p xs" "distinct xs" "set xs \<inter> set seen = {}" "sorted (map (key_of h) xs)"
    "\<forall>x\<in>set xs. (t, r) \<le> key_of h x"
  shows "\<exists>t' r' seen'. verify_bin h (p, t, r, seen) = Some (Inr (Some (t', r', seen'))) \<and>
    set seen' = set seen \<union> set xs \<and>
    (\<forall>k. (t, r) \<le> k \<and> (\<forall>x\<in>set xs. key_of h x \<le> k) \<longrightarrow> (t', r') \<le> k)"
  using assms
proof (induction xs arbitrary: p t r seen)
  case Nil
  then show ?case by (simp add: verify_bin.simps)
next
  case (Cons x xs)
  obtain e where e: "p = Some x" "h x = Some e" "inbin h (nextInBin e) xs" using Cons.prems(1) by auto
  have "\<forall>y\<in>set xs. (ev_when e, sint (ev_priority e)) \<le> key_of h y"
    using Cons.prems(4) e(2) by (simp add: ev_key_def)
  then obtain t' r' seen' where *: "verify_bin h (nextInBin e, ev_when e, sint (ev_priority e), x # seen) =
        Some (Inr (Some (t', r', seen')))" "set seen' = set (x # seen) \<union> set xs"
      "\<forall>k. (ev_when e, sint (ev_priority e)) \<le> k \<and> (\<forall>x\<in>set xs. key_of h x \<le> k) \<longrightarrow> (t', r') \<le> k"
    using Cons.IH [OF e(3), of "x # seen" "ev_when e" "sint (ev_priority e)"] Cons.prems by auto
  have "(t, r) \<le> ev_key e" using Cons.prems(5) e(2) by simp
  then have "verify_bin h (p, t, r, seen) = Some (Inr (Some (t', r', seen')))"
    using e Cons.prems(3) *(1) by (simp add: verify_bin.simps [of h "(Some x, _)"] key_le_iff)
  then show ?case using *(2,3) e(2) by (auto simp: ev_key_def)
qed

lemma verify_bins_passes:
  assumes "bins h p bs" "bins_wf (key_of h) bs" "set (concat bs) \<inter> set seen = {}"
    "\<forall>x\<in>set (concat bs). (t, r) \<le> key_of h x"
  shows "verify_bins h (p, t, r, seen) = Some (Inr True)"
  using assms
proof (induction h p bs arbitrary: t r seen rule: bins.induct)
  case (1 h p)
  then show ?case by (simp add: verify_bins.simps)
next
  case (3 h p x xs bs)
  obtain e where e: "p = Some x" "h x = Some e" "inbin h (nextInBin e) xs" "bins h (nextBin e) bs"
    using 3(2) by auto
  let ?b = "x # xs"
  have wf: "distinct ?b" "bins_wf (key_of h) bs" "set ?b \<inter> set (concat bs) = {}"
      "\<forall>y\<in>set ?b. \<forall>z\<in>set (concat bs). key_of h y < key_of h z"
    using 3(3) unfolding bins_wf_Cons by blast+
  have srt: "sorted (map (key_of h) ?b)" using bins_wf_sorted [OF 3(3)] by (simp add: sorted_append)
  have seen: "set ?b \<inter> set seen = {}" using 3(4) by auto
  have low: "\<forall>y\<in>set ?b. (t, r) \<le> key_of h y" using 3(5) by simp
  have in_b: "inbin h p ?b" using e by simp
  obtain t' r' seen' where *: "verify_bin h (p, t, r, seen) = Some (Inr (Some (t', r', seen')))"
      "set seen' = set seen \<union> set ?b"
      "\<forall>k. (t, r) \<le> k \<and> (\<forall>x\<in>set ?b. key_of h x \<le> k) \<longrightarrow> (t', r') \<le> k"
    using verify_bin_passes [OF in_b wf(1) seen srt low] by blast
  have "(t', r') \<le> key_of h y" if y: "y \<in> set (concat bs)" for y
  proof -
    have "(t, r) \<le> key_of h y" using 3(5) y by simp
    moreover have "\<forall>z\<in>set ?b. key_of h z \<le> key_of h y" using wf(4) y by (meson less_imp_le)
    ultimately show ?thesis using *(3) by blast
  qed
  moreover have "set (concat bs) \<inter> set seen' = {}" using wf(3) 3(4) *(2) by auto
  ultimately have "verify_bins h (nextBin e, t', r', seen') = Some (Inr True)"
    using 3(1) [OF e(4) wf(2)] by blast
  then show ?case using e(1,2) *(1) by (simp add: verify_bins.simps [of h "(Some x, _)"])
qed simp

text \<open>
  On a well-formed queue \<open>debugVerify\<close> answers yes, unless the first event is at time 0 and
  has a negative priority: the check starts with priority 0 as the last one seen.
\<close>

theorem debugVerify_result:
  assumes "pending s q xs"
  shows "debugVerify q s = Inr (xs = [] \<or> \<not> (key_of (ev_store s) (hd xs) < (0, 0)))"
proof -
  obtain bs where bs: "bins (ev_store s) (evq_head (mainEventQueue s ! q)) bs"
      "bins_wf (key_of (ev_store s)) bs" "xs = concat bs" and q: "q < length (mainEventQueue s)"
    using assms by (auto simp: pending_def queue_rep_def)
  let ?h = "ev_store s" and ?p = "evq_head (mainEventQueue s ! q)"
  have dv: "debugVerify q s = loopR (verify_bins ?h (?p, 0, 0, []))"
    using q by (simp add: debugVerify_def)
  show ?thesis
  proof (cases "xs = [] \<or> \<not> key_of ?h (hd xs) < (0, 0)")
    case True
    have "sorted (map (key_of ?h) xs)" using bins_wf_sorted [OF bs(2)] bs(3) by simp
    then have "\<forall>x\<in>set xs. (0, 0) \<le> key_of ?h x"
      using True by (cases xs) (auto simp: not_less intro: order_trans)
    then show ?thesis using verify_bins_passes [OF bs(1,2), of "[]" 0 0] bs(3) True dv by simp
  next
    case False
    then obtain x xs' bs' e where x: "bs = (x # xs') # bs'" "?p = Some x" "?h x = Some e" "hd xs = x"
      using bs by (cases "(?h, ?p, bs)" rule: bins.cases) auto
    then have "\<not> (0, 0) \<le> ev_key e" using False by auto
    then have "verify_bin ?h (?p, 0, 0, []) = Some (Inr None)"
      using x by (simp add: verify_bin.simps [of ?h "(Some x, _)"] key_le_iff)
    then show ?thesis using dv False x by (simp add: verify_bins.simps [of ?h "(Some x, _)"])
  qed
qed

section \<open>Checkpoints\<close>

text \<open>
  An event that is pending when the checkpoint is taken comes back with its time and priority but
  without its scheduled flag, so that the rescheduling that follows does nothing; one that was
  squashed comes back scheduled and is inserted.
\<close>

theorem checkpoint_drops_pending:
  assumes "scheduled e" "\<not> scheduled e0" "initialized e0"
  shows "\<exists>e1. unserialize (serialize e) e0 = Inr e1 \<and> ev_key e1 = ev_key e \<and>
    (scheduled e1 \<longleftrightarrow> squashed e) \<and>
    (\<forall>s q ev. ev_store s ev = Some e1 \<longrightarrow> checkpointReschedule q ev s =
       (if squashed e then q_insert q ev s else Inr s))"
proof -
  have m: "Initialized AND Scheduled = 0" "Initialized AND Squashed = 0"
    by (simp_all add: Initialized_def Scheduled_def Squashed_def)
  let ?e1 = "flag_set Initialized (e0\<lparr>ev_when := ev_when e, ev_priority := ev_priority e, ev_flags := ev_flags e\<rparr>)"
  have f: "scheduled ?e1" "squashed ?e1 \<longleftrightarrow> squashed e"
    using assms(1) by (simp_all add: flag_preds flag_set_def flags_other m)
  let ?e2 = "if squashed e then ?e1 else flag_clear (Squashed OR Scheduled) ?e1"
  have u: "unserialize (serialize e) e0 = Inr ?e2"
    using assms f by (auto simp: unserialize_def serialize_def scheduled_def squashed_def Let_def)
  have "\<not> scheduled (flag_clear (Squashed OR Scheduled) a)" for a
    by (simp add: flag_preds flag_clear_def Squashed_def Scheduled_def)
       (rule bit_word_eqI, auto simp: bit_simps)
  then have sch: "scheduled ?e2 \<longleftrightarrow> squashed e" using f by simp
  have "ev_key ?e2 = ev_key e" by (simp add: ev_key_def)
  then show ?thesis using u sch by (auto simp: checkpointReschedule_def scheduled_def)
qed

section \<open>An example\<close>

text \<open>One queue with one event, pending at time 5.\<close>

definition demo_event :: event where
  "demo_event = \<lparr>nextBin = None, nextInBin = None, ev_when = 0, ev_priority = 0,
     ev_flags = Initialized, ev_queue = None\<rparr>"

definition demo_new :: evsim where
  "demo_new = (getEventQueue 0 (new_sim False None))\<lparr>ev_store := [0 \<mapsto> demo_event]\<rparr>"

definition demo :: evsim where
  "demo = \<lparr>ev_store = [0 \<mapsto> demo_event\<lparr>ev_when := 5, ev_flags := 0x7a42, ev_queue := Some 0\<rparr>],
     mainEventQueue = [\<lparr>evq_name = 0, evq_head = Some 0, evq_curTick = 0, evq_async = []\<rparr>],
     curEventQueue = None, inParallelMode = False\<rparr>"

lemma demo_new_reach: "evreach False demo_new"
proof -
  have "evreach False (getEventQueue 0 (new_sim False None))"
    by (intro evreach.queue evreach.start)
  moreover have "ev_store (getEventQueue 0 (new_sim False None)) = Map.empty"
    by (simp add: getEventQueue_def new_sim_def)
  moreover have "newEvent 0 0 = Inr demo_event"
    by (simp add: newEvent_def demo_event_def flag_noneSet_def)
  ultimately show ?thesis
    using evreach.construct [of False "getEventQueue 0 (new_sim False None)" 0 0 0 demo_event]
    by (simp add: demo_new_def)
qed

lemma demo_scheduled: "schedule 0 0 5 False demo_new = Inr demo"
  by (simp add: schedule_def demo_new_def demo_def getEventQueue_def new_sim_def newEventQueue_def
      demo_event_def setWhen_def q_insert_def evq_insert_def insertBefore_def set_queue_def
      flag_preds Initialized_def Scheduled_def InitMask_def flag_set_def vec_at_def)

lemma demo_reach: "evreach False demo"
  using evreach.scheduling [OF demo_new_reach demo_scheduled] .

theorem event_service_order_witness:
  "\<exists>ev e s1. service_pop 0 demo = Inr (s1, ev) \<and> ev_store demo ev = Some e \<and> scheduled e \<and>
    ev_queue e = Some 0 \<and> evq_curTick (mainEventQueue demo ! 0) \<le> ev_when e \<and>
    (\<forall>x e'. ev_store demo x = Some e' \<and> scheduled e' \<and> ev_queue e' = Some 0 \<longrightarrow> ev_key e \<le> ev_key e') \<and>
    (squashed e \<or> (\<exists>s2. evq_curTick (mainEventQueue s2 ! 0) = ev_when e \<and>
       (\<forall>process. serviceOne 0 process demo = bindR (process ev s2) (service_finish ev))))"
  by (rule event_service_order [OF demo_reach]) (simp_all add: demo_def)

theorem event_ops_succeed_witness:
  "(\<exists>s'. deschedule 0 0 demo = Inr s') \<and> (\<exists>s'. reschedule 0 0 7 False demo = Inr s')"
proof -
  let ?e = "demo_event\<lparr>ev_when := 5, ev_flags := 0x7a42, ev_queue := Some 0\<rparr>"
  have "ev_store demo 0 = Some ?e" "0 < length (mainEventQueue demo)" "initialized ?e" "scheduled ?e"
    "evq_curTick (mainEventQueue demo ! 0) \<le> 7" "ev_queue ?e = Some 0"
    by (simp_all add: demo_def flag_preds Scheduled_def InitMask_def Initialized_def)
  then show ?thesis using event_ops_succeed [OF demo_reach, of 0 0 ?e 7 False False] by simp
qed

lemma demo_pending: "pending demo 0 [0]"
  by (simp add: pending_def queue_rep_def demo_def demo_event_def)
     (intro exI [of _ "[[0]]"], simp add: bins_wf_Cons)

theorem event_queue_refines_list_witness:
  "\<exists>s'. deschedule 0 0 demo = Inr s' \<and> pending s' 0 []"
proof -
  have "\<exists>s'. deschedule 0 0 demo = Inr s'"
    by (simp add: deschedule_def demo_def demo_event_def flag_preds Scheduled_def InitMask_def
        Initialized_def Squashed_def Managed_def q_remove_def evq_remove_def removeItem_def vec_at_def set_queue_def
        flag_clear_def release_def)
  then obtain s' where "deschedule 0 0 demo = Inr s'" by blast
  then show ?thesis
    using event_queue_refines_list [OF demo_reach demo_pending, of 0 0 False s' False] by auto
qed

theorem evq_destructor_ends_witness:
  "\<exists>s'. destroy_loop 0 demo = Some (Inr s') \<and> evreach False s' \<and>
    evq_head (mainEventQueue s' ! 0) = None \<and> (\<forall>w. due s' 0 w = {})"
  by (rule evq_destructor_ends [OF demo_reach]) (simp add: demo_def)

theorem debugVerify_result_witness: "debugVerify 0 demo = Inr True"
proof -
  have "debugVerify 0 demo = Inr ([0 :: nat] = [] \<or> \<not> key_of (ev_store demo) (hd [0]) < (0, 0))"
    by (rule debugVerify_result [OF demo_pending])
  moreover have "key_of (ev_store demo) 0 = (5, 0)" by (simp add: key_of_def demo_def ev_key_def demo_event_def)
  ultimately show ?thesis by simp
qed

theorem checkpoint_drops_pending_witness:
  "\<exists>e1. unserialize (serialize (flag_set Scheduled demo_event)) demo_event = Inr e1 \<and> \<not> scheduled e1"
proof -
  have "scheduled (flag_set Scheduled demo_event)" "\<not> scheduled demo_event" "initialized demo_event"
      "\<not> squashed (flag_set Scheduled demo_event)"
    by (simp_all add: demo_event_def flag_preds flag_set_def Scheduled_def InitMask_def Initialized_def
        Squashed_def)
  then show ?thesis using checkpoint_drops_pending [of "flag_set Scheduled demo_event" demo_event] by auto
qed

text \<open>An action that clears the exit flag of its event may be run by \<open>serviceEvents\<close>.\<close>

lemma demo_action: "due_preserving q w (\<lambda>ev s. clearFlags IsExitEvent ev s)"
proof -
  have m: "flag_noneSet IsExitEvent (NOT PublicWrite)"
    by (simp add: flag_noneSet_def IsExitEvent_def PublicWrite_def)
  have "\<exists>s' r. clearFlags IsExitEvent ev s = Inr s' \<and> evreach False s' \<and> service_finish ev s' = Inr r \<and>
      length (mainEventQueue s') = length (mainEventQueue s) \<and> due s' q w \<subseteq> due s q w"
    if "evreach False s" "ev_store s ev = Some e" for ev s e
  proof -
    let ?e = "flag_clear IsExitEvent e"
    let ?s = "s\<lparr>ev_store := (ev_store s)(ev \<mapsto> ?e)\<rparr>"
    have r: "clearFlags IsExitEvent ev s = Inr ?s" using that(2) m by (simp add: clearFlags_def)
    have "\<not> isExitEvent ?e" by (simp add: isExitEvent_def flag_isSet_def flag_clear_def flags_same)
    then have "\<exists>r. service_finish ev ?s = Inr r"
      by (auto simp: service_finish_def release_def releaseImpl_def deleteEvent_def)
    moreover have "due ?s q w \<subseteq> due s q w"
      using that(2) public_flags(2) [OF m, of e] by (auto simp: due_def split: if_splits)
    ultimately show ?thesis using r evreach.clearf [OF that(1) r] by auto
  qed
  then show ?thesis unfolding due_preserving_def by blast
qed


end
