(* ===== verification/Stack_Dist.thy ===== *)
theory Stack_Dist
  imports Intmath
begin

text \<open>
  The stack distance calculator (\<open>mem/stack_dist_calc.cc\<close>): for each access, the number of
  different addresses accessed since the last access to the same address, which decides whether an
  LRU cache of a given size hits.  The calculator keeps a binary tree of partial sums over the
  sequence of accesses, in layers: \<open>tree ! 0\<close> holds the leaves, one per address at the index of its
  last access, the last layer holds the root.  A node is named by its layer and its index in the
  layer, and pointers are such names; \<open>None\<close> is the null pointer, and reading \<open>tree[l][k]\<close> where
  there is no node yields it.

  The counters are natural numbers: they count accesses.  The shifts \<open>1 << i\<close> of the code are of
  type \<open>int\<close>, so that from 31 layers on their behaviour is undefined; the model stops there.
\<close>

section \<open>Nodes and layers\<close>

record sd_node =
  sumLeft :: nat
  sumRight :: nat
  discardLeft :: bool
  discardRight :: bool
  nodeIndex :: nat
  parent :: "(nat \<times> nat) option"
  isLeftNode :: bool
  isMarked :: bool

type_synonym sd_tree = "(nat \<rightharpoonup> sd_node) list"

record sd_calc =
  sd_index :: nat
  sd_tree :: sd_tree
  aiMap :: "addr \<rightharpoonup> nat"
  nextIndex :: "nat list"
  sd_stack :: "addr list"
  verifyStack :: bool

definition newNode :: sd_node where
  "newNode = \<lparr>sumLeft = 0, sumRight = 0, discardLeft = False, discardRight = False, nodeIndex = 0,
     parent = None, isLeftNode = True, isMarked = False\<rparr>"

definition Infinity :: nat where
  "Infinity = 2 ^ 64 - 1"

definition newStackDistCalc :: "bool \<Rightarrow> sd_calc" where
  "newStackDistCalc v = \<lparr>sd_index = 0, sd_tree = [Map.empty, [0 \<mapsto> newNode]], aiMap = Map.empty,
     nextIndex = [0, 1], sd_stack = [], verifyStack = v\<rparr>"

definition deleteStackDistCalc :: "sd_calc \<Rightarrow> sd_calc" where
  "deleteStackDistCalc c = c\<lparr>sd_tree := [], aiMap := Map.empty, nextIndex := [], sd_stack := []\<rparr>"

definition getTreeDepth :: "sd_tree \<Rightarrow> nat" where
  "getTreeDepth t = length t - 1"

definition tree_ptr :: "sd_tree \<Rightarrow> nat \<Rightarrow> nat \<Rightarrow> (nat \<times> nat) option res" where
  "tree_ptr t l k = bindR (vec_at t l) (\<lambda>m. Inr (if m k = None then None else Some (l, k)))"

definition node_at :: "sd_tree \<Rightarrow> (nat \<times> nat) option \<Rightarrow> sd_node res" where
  "node_at t p = (case p of
     None \<Rightarrow> Inl NullDeref
   | Some (l, k) \<Rightarrow> if l < length t
       then (case (t ! l) k of None \<Rightarrow> Inl UseAfterFree | Some n \<Rightarrow> Inr n)
       else Inl UseAfterFree)"

definition node_put :: "nat \<times> nat \<Rightarrow> sd_node option \<Rightarrow> sd_tree \<Rightarrow> sd_tree" where
  "node_put p v t = t[fst p := (t ! fst p)(snd p := v)]"

section \<open>Sums\<close>

text \<open>
  The check of \<open>verifyStack\<close>: the sums of a node are at most the number of leaves below either side.
\<close>

definition sums_ok :: "bool \<Rightarrow> nat \<Rightarrow> sd_node \<Rightarrow> unit res" where
  "sums_ok v level n = (if v then checkR OutOfRange (level - 1 < 31)
       (checkR Panic (\<not> sumLeft n > 2 ^ (level - 1)) (checkR Panic (\<not> sumRight n > 2 ^ (level - 1)) (Inr ())))
     else Inr ())"

text \<open>
  One call of \<open>updateSum\<close> without its recursion: the new tree, distance and discard flag, and the
  parent to go on with, if any, the side of the node and the sum it passes up.
\<close>

definition update_node ::
  "bool \<Rightarrow> sd_tree \<Rightarrow> (nat \<times> nat) option \<Rightarrow> bool \<Rightarrow> nat \<Rightarrow> nat \<Rightarrow> nat \<Rightarrow> bool \<Rightarrow>
   (sd_tree \<times> nat \<times> bool \<times> (nat \<times> nat) option \<times> bool \<times> nat) res" where
  "update_node v t p from_left below level dist discard_node =
     bindR (node_at t p) (\<lambda>n.
     bindR (sums_ok v level n) (\<lambda>_.
       let n1 = (if from_left then n\<lparr>sumLeft := below\<rparr> else n\<lparr>sumRight := below\<rparr>);
           dist1 = (if from_left then dist + sumRight n else dist);
           n2 = (if discard_node \<and> below = 0
                 then if from_left then n1\<lparr>discardLeft := True\<rparr> else n1\<lparr>discardRight := True\<rparr>
                 else n1);
           t1 = node_put (the p) (Some n2) t
       in if discardLeft n2 \<and> discardRight n2 \<and> discard_node \<and> parent n \<noteq> None \<and> below = 0
          then bindR (vec_at t1 level) (\<lambda>_.
            Inr (node_put (level, nodeIndex n) None (node_put (the p) None t1), dist1, True,
                 parent n, isLeftNode n, sumLeft n2 + sumRight n2))
          else Inr (t1, dist1, False, parent n, isLeftNode n, sumLeft n2 + sumRight n2)))"

partial_function (option) updateSum ::
  "bool \<Rightarrow> sd_tree \<times> (nat \<times> nat) option \<times> bool \<times> nat \<times> nat \<times> nat \<times> bool \<Rightarrow> (sd_tree \<times> nat) res option" where
  "updateSum v st = (case st of (t, p, from_left, below, level, dist, discard_node) \<Rightarrow>
     (case update_node v t p from_left below (Suc level) dist discard_node of
        Inl x \<Rightarrow> Some (Inl x)
      | Inr r \<Rightarrow> (case r of (t1, dist1, discard1, up, left, s) \<Rightarrow>
          if up = None then Some (Inr (t1, dist1))
          else updateSum v (t1, up, left, s, Suc level, dist1, discard1))))"

definition updateSumsLeavesToRoot ::
  "bool \<Rightarrow> sd_tree \<Rightarrow> (nat \<times> nat) option \<Rightarrow> bool \<Rightarrow> (sd_tree \<times> nat) res" where
  "updateSumsLeavesToRoot v t p is_new_leaf = bindR (node_at t p) (\<lambda>n.
     if is_new_leaf then
       bindR (loopR (updateSum v (node_put (the p) (Some (n\<lparr>sumLeft := 1\<rparr>)) t,
           parent n, isLeftNode n, 1, 0, 0, False))) (\<lambda>(t1, _). Inr (t1, Infinity))
     else
       loopR (updateSum v (node_put (the p) (Some (n\<lparr>sumLeft := 0\<rparr>)) t,
           parent n, isLeftNode n, 0, 0, 0, True)))"

partial_function (option) getSum ::
  "sd_tree \<Rightarrow> (nat \<times> nat) option \<times> bool \<times> nat \<Rightarrow> nat res option" where
  "getSum t st = (case st of (p, from_left, dist) \<Rightarrow>
     (case node_at t p of
        Inl x \<Rightarrow> Some (Inl x)
      | Inr n \<Rightarrow>
          if parent n = None then Some (Inr (if from_left then dist + sumRight n else dist))
          else getSum t (parent n, isLeftNode n, if from_left then dist + sumRight n else dist)))"

definition getSumsLeavesToRoot :: "sd_tree \<Rightarrow> (nat \<times> nat) option \<Rightarrow> nat res" where
  "getSumsLeavesToRoot t p = bindR (node_at t p) (\<lambda>n. loopR (getSum t (parent n, isLeftNode n, 0)))"

section \<open>Growing the tree\<close>

text \<open>The body of the loops of \<open>updateTree\<close>: a new inner node in layer \<open>i\<close>.\<close>

definition add_inode :: "nat \<Rightarrow> sd_tree \<times> nat list \<Rightarrow> (sd_tree \<times> nat list) res" where
  "add_inode i tn = (case tn of (t, ni) \<Rightarrow>
     bindR (vec_at ni i) (\<lambda>k. bindR (vec_at ni (Suc i)) (\<lambda>k1.
     bindR (tree_ptr t (Suc i) (k1 - 1)) (\<lambda>p. bindR (vec_at t i) (\<lambda>_.
     Inr (node_put (i, k) (Some (newNode\<lparr>isLeftNode := k mod 2 = 0, parent := p, nodeIndex := k\<rparr>)) t,
          ni[i := Suc k]))))))"

fun op1_loop :: "nat \<Rightarrow> sd_tree \<times> nat list \<Rightarrow> (sd_tree \<times> nat list) res" where
  "op1_loop 0 tn = Inr tn"
| "op1_loop (Suc i) tn = bindR (add_inode (Suc i) tn) (op1_loop i)"

fun op2_loop :: "nat \<Rightarrow> nat \<Rightarrow> sd_tree \<times> nat list \<Rightarrow> (sd_tree \<times> nat list) res" where
  "op2_loop idx 0 tn = Inr tn"
| "op2_loop idx (Suc i) tn = checkR OutOfRange (Suc i < 31)
     (bindR (if idx mod 2 ^ Suc i = 0 then add_inode (Suc i) tn else Inr tn) (op2_loop idx i))"

definition updateTree :: "nat \<Rightarrow> sd_tree \<times> nat list \<Rightarrow> (sd_tree \<times> nat list) res" where
  "updateTree idx tn = (case tn of (t, ni) \<Rightarrow>
     if isPowerOf2 (of_nat idx) then
       bindR (tree_ptr t (getTreeDepth t) 0) (\<lambda>p. bindR (node_at t p) (\<lambda>r.
         let root = newNode\<lparr>sumLeft := sumRight r + sumLeft r,
               discardLeft := discardLeft r \<and> discardRight r\<rparr>;
             t1 = t @ [[0 \<mapsto> root]];
             t2 = node_put (the p) (Some (r\<lparr>parent := Some (length t, 0)\<rparr>)) t1
         in op1_loop (getTreeDepth t2 - 1) (t2, ni @ [1])))
     else op2_loop idx (getTreeDepth t - 1) (t, ni))"

section \<open>Verification inside the calculator\<close>

fun sanity_loop :: "nat \<Rightarrow> sd_tree \<Rightarrow> (nat \<times> nat) option \<Rightarrow> (nat \<times> nat) option res" where
  "sanity_loop 0 t p = Inr p"
| "sanity_loop (Suc n) t p = bindR (node_at t p) (\<lambda>nd.
     checkR Panic (parent nd \<noteq> None) (sanity_loop n t (parent nd)))"

definition sanityCheckTree :: "sd_tree \<Rightarrow> (nat \<times> nat) option \<Rightarrow> unit res" where
  "sanityCheckTree t p = bindR (node_at t p) (\<lambda>n.
     bindR (sanity_loop (getTreeDepth t - 1) t (parent n)) (\<lambda>up.
     bindR (node_at t up) (\<lambda>r. checkR Panic (parent r = None) (Inr ()))))"

text \<open>The naive stack: the last element of the vector is the top.\<close>

fun find_from_top :: "addr \<Rightarrow> addr list \<Rightarrow> nat \<Rightarrow> nat option" where
  "find_from_top a [] d = None"
| "find_from_top a (x # xs) d = (if x = a then Some d else find_from_top a xs (Suc d))"

definition verifyStackDist :: "addr \<Rightarrow> bool \<Rightarrow> addr list \<Rightarrow> nat \<times> addr list" where
  "verifyStackDist a update_stack st = (case find_from_top a (rev st) 0 of
     Some d \<Rightarrow> (d, if update_stack
         then take (length st - 1 - d) st @ drop (length st - d) st @ [a] else st)
   | None \<Rightarrow> (Infinity, if update_stack then st @ [a] else st))"

section \<open>Accesses\<close>

definition remove_leaf ::
  "bool \<Rightarrow> sd_tree \<Rightarrow> nat \<Rightarrow> (sd_tree \<times> nat \<times> bool) res" where
  "remove_leaf v t k = bindR (tree_ptr t 0 k) (\<lambda>p.
     bindR (updateSumsLeavesToRoot v t p False) (\<lambda>(t1, dist).
     bindR (tree_ptr t1 0 k) (\<lambda>p1. bindR (node_at t1 p1) (\<lambda>n.
     Inr (node_put (0, k) None t1, dist, isMarked n)))))"

definition add_leaf :: "bool \<Rightarrow> nat \<Rightarrow> sd_tree \<times> nat list \<Rightarrow> (sd_tree \<times> nat list) res" where
  "add_leaf v idx tn =
     bindR (if idx mod 2 = 0 then updateTree idx tn else Inr tn) (\<lambda>(t, ni).
     bindR (vec_at ni 0) (\<lambda>k0. bindR (vec_at ni 1) (\<lambda>k1.
     bindR (tree_ptr t 1 (k1 - 1)) (\<lambda>p. bindR (vec_at t 0) (\<lambda>_.
       let leaf = newNode\<lparr>nodeIndex := idx, isLeftNode := idx mod 2 = 0, parent := p\<rparr>;
           t1 = node_put (0, idx) (Some leaf) t
       in bindR (updateSumsLeavesToRoot v t1 (Some (0, idx)) True) (\<lambda>(t2, _).
          Inr (t2, ni[0 := Suc k0])))))))"

definition calcStackDistAndUpdate :: "addr \<Rightarrow> bool \<Rightarrow> sd_calc \<Rightarrow> (sd_calc \<times> nat \<times> bool) res" where
  "calcStackDistAndUpdate a addNewNode c =
     bindR (case aiMap c a of
         Some k \<Rightarrow> bindR (remove_leaf (verifyStack c) (sd_tree c) k) (\<lambda>(t, dist, mark).
           Inr (t, (aiMap c)(a := if addNewNode then Some (sd_index c) else None), dist, mark))
       | None \<Rightarrow> Inr (sd_tree c, if addNewNode then (aiMap c)(a \<mapsto> sd_index c) else aiMap c,
           Infinity, False)) (\<lambda>(t, ai, dist, mark).
     if addNewNode then
       bindR (add_leaf (verifyStack c) (sd_index c) (t, nextIndex c)) (\<lambda>(t1, ni).
       if verifyStack c then
         bindR (tree_ptr t1 0 (sd_index c)) (\<lambda>p. bindR (sanityCheckTree t1 p) (\<lambda>_.
         case verifyStackDist a True (sd_stack c) of (vdist, st) \<Rightarrow>
           checkR Panic (vdist = dist)
             (Inr (c\<lparr>sd_index := Suc (sd_index c), sd_tree := t1, aiMap := ai, nextIndex := ni,
                    sd_stack := st\<rparr>, dist, mark))))
       else Inr (c\<lparr>sd_index := Suc (sd_index c), sd_tree := t1, aiMap := ai, nextIndex := ni\<rparr>,
              dist, mark))
     else Inr (c\<lparr>sd_tree := t, aiMap := ai\<rparr>, dist, mark))"

definition calcStackDist :: "addr \<Rightarrow> bool \<Rightarrow> sd_calc \<Rightarrow> (sd_calc \<times> nat \<times> bool) res" where
  "calcStackDist a mark c =
     bindR (case aiMap c a of
         Some k \<Rightarrow> bindR (tree_ptr (sd_tree c) 0 k) (\<lambda>p. bindR (node_at (sd_tree c) p) (\<lambda>n.
           let t = node_put (the p) (Some (n\<lparr>isMarked := mark\<rparr>)) (sd_tree c) in
           bindR (getSumsLeavesToRoot t p) (\<lambda>dist. Inr (t, dist, isMarked n))))
       | None \<Rightarrow> Inr (sd_tree c, Infinity, False)) (\<lambda>(t, dist, mk).
     if verifyStack c then
       (case verifyStackDist a False (sd_stack c) of (vdist, _) \<Rightarrow>
         checkR Panic (vdist = dist) (Inr (c\<lparr>sd_tree := t\<rparr>, dist, mk)))
     else Inr (c\<lparr>sd_tree := t\<rparr>, dist, mk))"

end
