(* ===== verification/Stack_Dist_Inv.thy ===== *)
theory Stack_Dist_Inv
  imports Stack_Dist
begin

text \<open>
  The invariant of the stack distance calculator's tree.  The node \<open>j\<close> of layer \<open>l\<close> stands for
  the leaves \<open>x\<close> with \<open>x div 2 ^ l = j\<close>; its sums count the live leaves below its two children.  A
  node is deleted only when all leaves below it have been created and removed.  Walking from a leaf
  to the root adds up the live leaves to the right of it.
\<close>

section \<open>Leaves below a node\<close>

definition leaves :: "nat \<Rightarrow> nat \<Rightarrow> nat set" where
  "leaves l j = {x. x div 2 ^ l = j}"

lemma div_Suc_pow: "x div 2 ^ Suc l = (x div 2 ^ l) div (2 :: nat)"
  by (simp only: power_Suc2 div_mult2_eq)

lemma div_double_pow [simp]: "x div (2 * 2 ^ l) = (x div 2 ^ l) div (2 :: nat)"
  using div_Suc_pow [of x l] by simp

lemma leaves_0 [simp]: "leaves 0 j = {j}"
  by (auto simp: leaves_def)

lemma leaves_interval: "leaves l j = {j * 2 ^ l ..< j * 2 ^ l + 2 ^ l}"
proof (rule set_eqI)
  fix x :: nat
  have "x div 2 ^ l = j \<longleftrightarrow> 2 ^ l * j \<le> x \<and> x < 2 ^ l * Suc j"
  proof
    assume "x div 2 ^ l = j"
    then show "2 ^ l * j \<le> x \<and> x < 2 ^ l * Suc j"
      using div_times_less_eq_dividend [of x "2 ^ l"] dividend_less_div_times [of "2 ^ l" x]
      by (simp add: mult.commute add.commute)
  qed (auto intro: div_nat_eqI)
  then show "x \<in> leaves l j \<longleftrightarrow> x \<in> {j * 2 ^ l ..< j * 2 ^ l + 2 ^ l}"
    by (auto simp: leaves_def mult.commute add.commute)
qed

lemma finite_leaves [simp]: "finite (leaves l j)"
  by (simp add: leaves_interval)

lemma card_leaves [simp]: "card (leaves l j) = 2 ^ l"
  by (simp add: leaves_interval)

lemma leaves_Suc: "leaves (Suc l) j = leaves l (2 * j) \<union> leaves l (Suc (2 * j))"
  by (auto simp: leaves_def div_Suc_pow)

lemma leaves_disjoint: "i \<noteq> j \<Longrightarrow> leaves l i \<inter> leaves l j = {}"
  by (auto simp: leaves_def)

lemma card_leaves_Suc:
  "card (A \<inter> leaves (Suc l) j) = card (A \<inter> leaves l (2 * j)) + card (A \<inter> leaves l (Suc (2 * j)))"
  unfolding leaves_Suc Int_Un_distrib
  by (rule card_Un_disjoint) (use leaves_disjoint [of "2 * j" "Suc (2 * j)" l] in auto)

lemma card_live_le: "card (A \<inter> leaves l j) \<le> 2 ^ l"
  using card_mono [of "leaves l j" "A \<inter> leaves l j"] by simp

text \<open>All leaves below the node have been created, of the first \<open>N\<close>, and removed.\<close>

definition gone :: "nat set \<Rightarrow> nat \<Rightarrow> nat \<Rightarrow> nat \<Rightarrow> bool" where
  "gone A N l j \<longleftrightarrow> (\<forall>x \<in> leaves l j. x < N \<and> x \<notin> A)"

lemma gone_Suc: "gone A N (Suc l) j \<longleftrightarrow> gone A N l (2 * j) \<and> gone A N l (Suc (2 * j))"
  by (auto simp: gone_def leaves_Suc)

section \<open>The invariant\<close>

definition leaf_ok :: "nat \<Rightarrow> sd_node \<Rightarrow> bool" where
  "leaf_ok k n \<longleftrightarrow> nodeIndex n = k \<and> (isLeftNode n \<longleftrightarrow> even k) \<and> parent n = Some (1, k div 2)"

definition node_ok :: "nat set \<Rightarrow> nat \<Rightarrow> nat \<Rightarrow> nat \<Rightarrow> nat \<Rightarrow> sd_node \<Rightarrow> bool" where
  "node_ok A N d l j n \<longleftrightarrow> nodeIndex n = j \<and> (isLeftNode n \<longleftrightarrow> even j) \<and>
     parent n = (if l = d then None else Some (Suc l, j div 2)) \<and>
     sumLeft n = card (A \<inter> leaves (l - 1) (2 * j)) \<and>
     sumRight n = card (A \<inter> leaves (l - 1) (Suc (2 * j))) \<and>
     (discardLeft n \<longrightarrow> gone A N (l - 1) (2 * j)) \<and>
     (discardRight n \<longrightarrow> gone A N (l - 1) (Suc (2 * j)))"

definition inner_ok :: "nat set \<Rightarrow> nat \<Rightarrow> nat \<Rightarrow> nat \<Rightarrow> nat \<Rightarrow> (nat \<rightharpoonup> sd_node) \<Rightarrow> bool" where
  "inner_ok A N M d l m \<longleftrightarrow> (\<forall>j. case m j of
     None \<Rightarrow> l \<noteq> d \<and> gone A N l j \<or> M div 2 ^ l < j
   | Some n \<Rightarrow> j \<le> M div 2 ^ l \<and> node_ok A N d l j n)"

definition leaf_layer_ok :: "nat set \<Rightarrow> (nat \<rightharpoonup> sd_node) \<Rightarrow> bool" where
  "leaf_layer_ok A m \<longleftrightarrow> (\<forall>k. case m k of None \<Rightarrow> k \<notin> A | Some n \<Rightarrow> k \<in> A \<and> leaf_ok k n)"

text \<open>
  \<open>A\<close> is the set of live leaves, \<open>N\<close> the number of leaves created so far, and the inner nodes
  exist for the leaves up to \<open>M\<close>.
\<close>

definition tree_inv :: "nat set \<Rightarrow> nat \<Rightarrow> nat \<Rightarrow> nat \<Rightarrow> sd_tree \<Rightarrow> bool" where
  "tree_inv A N M d t \<longleftrightarrow> length t = Suc d \<and> 1 \<le> d \<and> M < 2 ^ d \<and> A \<subseteq> {..M} \<and>
     leaf_layer_ok A (t ! 0) \<and> (\<forall>l. 1 \<le> l \<and> l \<le> d \<longrightarrow> inner_ok A N M d l (t ! l))"

lemma nth_node_put:
  "l < length t \<Longrightarrow> node_put (l, k) v t ! l' = (if l' = l then (t ! l)(k := v) else t ! l')"
  by (simp add: node_put_def)

lemma length_node_put [simp]: "length (node_put p v t) = length t"
  by (simp add: node_put_def)

lemma node_at_Some:
  "l < length t \<Longrightarrow> (t ! l) k = Some n \<Longrightarrow> node_at t (Some (l, k)) = Inr n"
  by (simp add: node_at_def)

section \<open>Walking up\<close>

text \<open>
  The set of live leaves changes at \<open>r\<close> only, from \<open>A\<close> to \<open>B\<close>.  On the way up the layers up
  to \<open>l\<close> are correct for \<open>B\<close> and those above for \<open>A\<close>.
\<close>

definition walking :: "nat set \<Rightarrow> nat set \<Rightarrow> nat \<Rightarrow> nat \<Rightarrow> nat \<Rightarrow> nat \<Rightarrow> nat \<Rightarrow> sd_tree \<Rightarrow> bool" where
  "walking A B r N M d l t \<longleftrightarrow> length t = Suc d \<and>
     (\<forall>i. 1 \<le> i \<and> i \<le> l \<longrightarrow> inner_ok B N M d i (t ! i)) \<and>
     (\<forall>i. l < i \<and> i \<le> d \<longrightarrow> inner_ok A N M d i (t ! i))"

definition changes_at :: "nat \<Rightarrow> nat \<Rightarrow> nat \<Rightarrow> nat set \<Rightarrow> nat set \<Rightarrow> bool" where
  "changes_at r N M A B \<longleftrightarrow> A - {r} = B - {r} \<and> r \<le> M \<and> (r \<in> A \<or> \<not> r < N) \<and> (r < N \<longrightarrow> r \<notin> B)"

lemma changes_card:
  assumes "changes_at r N M A B" "j \<noteq> r div 2 ^ l"
  shows "A \<inter> leaves l j = B \<inter> leaves l j"
proof -
  have "r \<notin> leaves l j" using assms(2) by (simp add: leaves_def)
  moreover have "A - {r} = B - {r}" using assms(1) by (simp add: changes_at_def)
  ultimately show ?thesis by blast
qed

lemma changes_gone: "changes_at r N M A B \<Longrightarrow> gone A N l j \<Longrightarrow> gone B N l j"
  unfolding changes_at_def gone_def by blast

lemma changes_not_gone: "changes_at r N M A B \<Longrightarrow> \<not> gone A N l (r div 2 ^ l)"
  unfolding changes_at_def gone_def leaves_def by blast

lemma path_node:
  assumes "changes_at r N M A B" "walking A B r N M d l t" "l < d"
  obtains n where "(t ! Suc l) (r div 2 ^ Suc l) = Some n" "node_ok A N d (Suc l) (r div 2 ^ Suc l) n"
proof -
  let ?j = "r div 2 ^ Suc l"
  have io: "inner_ok A N M d (Suc l) (t ! Suc l)" using assms(2,3) by (simp add: walking_def)
  have "\<not> gone A N (Suc l) ?j" using changes_not_gone [OF assms(1)] .
  moreover have "\<not> M div 2 ^ Suc l < ?j"
    using assms(1) div_le_mono [of r M "2 ^ Suc l"] by (simp add: changes_at_def not_less)
  ultimately have "(t ! Suc l) ?j \<noteq> None"
    using io unfolding inner_ok_def by (metis option.simps(4))
  then obtain n where n: "(t ! Suc l) ?j = Some n" by blast
  show ?thesis by (rule that [OF n]) (use io n in \<open>auto simp: inner_ok_def simp del: power_Suc split: option.splits\<close>)
qed

lemma off_path_node:
  assumes "changes_at r N M A B" "node_ok A N d (Suc l) j n" "j \<noteq> r div 2 ^ Suc l"
  shows "node_ok B N d (Suc l) j n"
proof -
  have "2 * j \<noteq> r div 2 ^ l" "Suc (2 * j) \<noteq> r div 2 ^ l"
    using assms(3) by (auto simp: div_Suc_pow)
  then show ?thesis
    using assms(2) changes_card [OF assms(1)] changes_gone [OF assms(1)] by (simp add: node_ok_def)
qed

lemma inner_ok_upd:
  assumes ch: "changes_at r N M A B" and ok: "inner_ok A N M d (Suc l) m"
    and v: "case v of None \<Rightarrow> Suc l \<noteq> d \<and> gone B N (Suc l) (r div 2 ^ Suc l) | Some n \<Rightarrow> node_ok B N d (Suc l) (r div 2 ^ Suc l) n"
  shows "inner_ok B N M d (Suc l) (m(r div 2 ^ Suc l := v))"
  unfolding inner_ok_def
proof
  fix j
  have r: "r div 2 ^ Suc l \<le> M div 2 ^ Suc l" using ch by (intro div_le_mono) (simp add: changes_at_def)
  show "case (m(r div 2 ^ Suc l := v)) j of None \<Rightarrow> Suc l \<noteq> d \<and> gone B N (Suc l) j \<or> M div 2 ^ Suc l < j
    | Some n \<Rightarrow> j \<le> M div 2 ^ Suc l \<and> node_ok B N d (Suc l) j n"
  proof (cases "j = r div 2 ^ Suc l")
    case True
    then show ?thesis using v r by (auto simp del: power_Suc split: option.splits)
  next
    case False
    then show ?thesis
      using ok changes_gone [OF ch, of "Suc l" j] off_path_node [OF ch _ False]
      unfolding inner_ok_def by (cases "m j") (auto simp del: power_Suc split: option.splits dest: spec [of _ j])
  qed
qed

lemma walking_step:
  assumes ch: "changes_at r N M A B" and wk: "walking A B r N M d l t" and l: "l < d"
    and v: "case v of None \<Rightarrow> Suc l \<noteq> d \<and> gone B N (Suc l) (r div 2 ^ Suc l) | Some n \<Rightarrow> node_ok B N d (Suc l) (r div 2 ^ Suc l) n"
  shows "walking A B r N M d (Suc l) (node_put (Suc l, r div 2 ^ Suc l) v t)"
proof -
  have len: "Suc l < length t" using wk l by (simp add: walking_def)
  have "inner_ok A N M d (Suc l) (t ! Suc l)" using wk l by (simp add: walking_def)
  from inner_ok_upd [OF ch this v]
  have "inner_ok B N M d (Suc l) (node_put (Suc l, r div 2 ^ Suc l) v t ! Suc l)"
    by (simp add: nth_node_put [OF len] del: power_Suc)
  moreover have "node_put (Suc l, r div 2 ^ Suc l) v t ! i = t ! i" if "i \<noteq> Suc l" for i
    using that by (simp add: nth_node_put [OF len] del: power_Suc)
  ultimately show ?thesis using wk unfolding walking_def
    by (metis le_Suc_eq length_node_put less_Suc_eq_le not_less Suc_lessD)
qed

text \<open>The new content of a node on the path.\<close>

definition new_node :: "bool \<Rightarrow> nat \<Rightarrow> bool \<Rightarrow> sd_node \<Rightarrow> sd_node" where
  "new_node from_left below discard n =
     (let n1 = (if from_left then n\<lparr>sumLeft := below\<rparr> else n\<lparr>sumRight := below\<rparr>)
      in if discard \<and> below = 0
         then if from_left then n1\<lparr>discardLeft := True\<rparr> else n1\<lparr>discardRight := True\<rparr> else n1)"

lemma new_node_ok:
  assumes ch: "changes_at r N M A B" and n: "node_ok A N d (Suc l) (r div 2 ^ Suc l) n"
    and below: "below = card (B \<inter> leaves l (r div 2 ^ l))"
    and disc: "discard \<and> below = 0 \<longrightarrow> gone B N l (r div 2 ^ l)"
  shows "node_ok B N d (Suc l) (r div 2 ^ Suc l) (new_node (even (r div 2 ^ l)) below discard n)"
proof -
  let ?c = "r div 2 ^ l" and ?c' = "r div 2 ^ l div 2"
  have side: "even ?c \<Longrightarrow> 2 * ?c' = ?c" "odd ?c \<Longrightarrow> Suc (2 * ?c') = ?c" by simp_all
  have "B \<inter> leaves l (Suc (2 * ?c')) = A \<inter> leaves l (Suc (2 * ?c'))" if "even ?c"
    using changes_card [OF ch, of "Suc (2 * ?c')" l] side(1) that by simp
  moreover have "B \<inter> leaves l (2 * ?c') = A \<inter> leaves l (2 * ?c')" if "odd ?c"
  proof -
    have "2 * ?c' \<noteq> ?c" using that by (metis dvd_triv_left)
    from changes_card [OF ch this] show ?thesis by simp
  qed
  ultimately show ?thesis
    using n below disc side changes_gone [OF ch, of l]
    by (auto simp: node_ok_def new_node_def Let_def)
qed

lemma update_node_eq:
  assumes "node_at t (Some p) = Inr n" "sums_ok v level n = Inr ()" "level < length t"
  shows "update_node v t (Some p) from_left below level dist discard =
    (let n2 = new_node from_left below discard n; t1 = node_put p (Some n2) t;
         del = (discardLeft n2 \<and> discardRight n2 \<and> discard \<and> parent n \<noteq> None \<and> below = 0)
     in Inr (if del then node_put (level, nodeIndex n) None (node_put p None t1) else t1,
          if from_left then dist + sumRight n else dist, del, parent n, isLeftNode n, sumLeft n2 + sumRight n2))"
  using assms by (auto simp: update_node_def new_node_def Let_def vec_at_def)

lemma update_node_step:
  assumes ch: "changes_at r N M A B" and wk: "walking A B r N M d l t" and l: "l < d"
    and below: "below = card (B \<inter> leaves l (r div 2 ^ l))"
    and disc: "discard \<and> below = 0 \<longrightarrow> gone B N l (r div 2 ^ l)" and v: "v \<longrightarrow> d \<le> 31"
  obtains t' discard' where
    "update_node v t (Some (Suc l, r div 2 ^ Suc l)) (even (r div 2 ^ l)) below (Suc l) dist discard =
       Inr (t', if even (r div 2 ^ l) then dist + card (A \<inter> leaves l (Suc (r div 2 ^ l))) else dist, discard',
         if Suc l = d then None else Some (Suc (Suc l), r div 2 ^ Suc (Suc l)), even (r div 2 ^ Suc l),
         card (B \<inter> leaves (Suc l) (r div 2 ^ Suc l)))"
    "walking A B r N M d (Suc l) t'" "t' ! 0 = t ! 0" "discard' \<longrightarrow> gone B N (Suc l) (r div 2 ^ Suc l)"
proof -
  let ?c = "r div 2 ^ l" and ?c' = "r div 2 ^ Suc l" and ?fl = "even (r div 2 ^ l)"
  have len: "Suc l < length t" using wk l by (simp add: walking_def)
  obtain n where n: "(t ! Suc l) ?c' = Some n" "node_ok A N d (Suc l) ?c' n"
    by (rule path_node [OF ch wk l])
  let ?n = "new_node ?fl below discard n"
  have ok: "node_ok B N d (Suc l) ?c' ?n" by (rule new_node_ok [OF ch n(2) below disc])
  have fields: "nodeIndex n = ?c'" "isLeftNode n = even ?c'"
      "parent n = (if Suc l = d then None else Some (Suc (Suc l), r div 2 ^ Suc (Suc l)))"
    using n(2) unfolding node_ok_def div_Suc_pow [of r "Suc l"] by simp_all
  have sums: "sumLeft ?n + sumRight ?n = card (B \<inter> leaves (Suc l) ?c')"
    using ok by (simp add: node_ok_def card_leaves_Suc)
  have "sumRight n = card (A \<inter> leaves l (Suc ?c))" if ?fl
    using n(2) that by (simp add: node_ok_def)
  then have dist: "(if ?fl then dist + sumRight n else dist) = (if ?fl then dist + card (A \<inter> leaves l (Suc ?c)) else dist)"
    by simp
  have check: "sums_ok v (Suc l) n = Inr ()"
    using n(2) card_live_le [of A l] v l by (auto simp: sums_ok_def node_ok_def not_less)
  let ?del = "discardLeft ?n \<and> discardRight ?n \<and> discard \<and> parent n \<noteq> None \<and> below = 0"
  let ?t1 = "node_put (Suc l, ?c') (Some ?n) t"
  let ?t2 = "node_put (Suc l, ?c') None ?t1"
  have put: "node_put (Suc l, ?c') None (node_put (Suc l, ?c') w t) = node_put (Suc l, ?c') None t" for w
    using len by (simp add: node_put_def)
  let ?t' = "if ?del then node_put (Suc l, ?c') None t else ?t1"
  have "gone B N (Suc l) ?c'" if ?del
    using ok that unfolding node_ok_def gone_Suc diff_Suc_1 by blast
  moreover have "Suc l \<noteq> d" if ?del using that fields(3) by auto
  ultimately have gone: "Suc l \<noteq> d \<and> gone B N (Suc l) ?c'" if ?del using that by blast
  have res: "update_node v t (Some (Suc l, ?c')) ?fl below (Suc l) dist discard =
      Inr (?t', if ?fl then dist + card (A \<inter> leaves l (Suc ?c)) else dist, ?del,
        if Suc l = d then None else Some (Suc (Suc l), r div 2 ^ Suc (Suc l)), even ?c',
        card (B \<inter> leaves (Suc l) ?c'))"
    unfolding update_node_eq [OF node_at_Some [OF len n(1)] check len] Let_def fields(1,2) sums put dist
      fields(3) [symmetric] by (rule refl)
  show ?thesis
  proof (rule that [OF res])
    show "walking A B r N M d (Suc l) ?t'"
      using walking_step [OF ch wk l, of None] walking_step [OF ch wk l, of "Some ?n"] ok gone
      by (simp only: option.case split: if_split) blast
    show "?t' ! 0 = t ! 0" using len by (simp add: nth_node_put del: power_Suc)
  qed (use gone in blast)
qed

text \<open>The live leaves to the right of \<open>r\<close> below the node of layer \<open>l\<close> above \<open>r\<close>.\<close>

definition right_of :: "nat set \<Rightarrow> nat \<Rightarrow> nat \<Rightarrow> nat" where
  "right_of A r l = card (A \<inter> leaves l (r div 2 ^ l) \<inter> {r<..})"

lemma right_of_0 [simp]: "right_of A r 0 = 0"
proof -
  have "A \<inter> leaves 0 (r div 2 ^ 0) \<inter> {r<..} = {}" by auto
  then show ?thesis by (simp only: right_of_def card.empty)
qed

lemma right_of_Suc:
  "right_of A r (Suc l) =
     right_of A r l + (if even (r div 2 ^ l) then card (A \<inter> leaves l (Suc (r div 2 ^ l))) else 0)"
proof -
  let ?c = "r div 2 ^ l"
  have r: "r \<in> leaves l ?c" by (simp add: leaves_def)
  have upper: "leaves l (Suc ?c) \<subseteq> {r<..}"
  proof
    fix x assume "x \<in> leaves l (Suc ?c)"
    then have "\<not> x div 2 ^ l \<le> r div 2 ^ l" by (simp add: leaves_def)
    then show "x \<in> {r<..}" using div_le_mono [of x r "2 ^ l"] by (auto simp: not_le [symmetric])
  qed
  have lower: "leaves l j \<inter> {r<..} = {}" if "j < ?c" for j
  proof -
    have "x div 2 ^ l \<noteq> j" if "r < x" for x
      using div_le_mono [of r x "2 ^ l"] that \<open>j < ?c\<close> by simp
    then show ?thesis by (auto simp: leaves_def)
  qed
  show ?thesis
  proof (cases "even ?c")
    case True
    have "A \<inter> leaves (Suc l) (r div 2 ^ Suc l) \<inter> {r<..} =
        (A \<inter> leaves l ?c \<inter> {r<..}) \<union> (A \<inter> leaves l (Suc ?c))"
      unfolding leaves_Suc div_Suc_pow using True upper by auto
    moreover have "(A \<inter> leaves l ?c \<inter> {r<..}) \<inter> (A \<inter> leaves l (Suc ?c)) = {}"
      using leaves_disjoint [of ?c "Suc ?c" l] by auto
    ultimately show ?thesis using True by (simp add: right_of_def card_Un_disjoint)
  next
    case False
    then have "Suc (2 * (?c div 2)) = ?c" by simp
    then have "Suc (2 * (?c div 2)) = ?c" "2 * (?c div 2) < ?c" by linarith+
    then have "leaves l (Suc (2 * (?c div 2))) = leaves l ?c" "leaves l (2 * (?c div 2)) \<inter> {r<..} = {}"
      using lower by simp_all
    then have "A \<inter> leaves (Suc l) (r div 2 ^ Suc l) \<inter> {r<..} = A \<inter> leaves l ?c \<inter> {r<..}"
      unfolding leaves_Suc div_Suc_pow by blast
    then show ?thesis using False by (simp add: right_of_def)
  qed
qed

lemma right_of_root:
  assumes "A \<subseteq> {..<2 ^ d}" "r < 2 ^ d"
  shows "right_of A r d = card (A \<inter> {r<..})"
proof -
  have "A \<inter> leaves d (r div 2 ^ d) = A" using assms by (auto simp: leaves_def)
  then show ?thesis by (simp add: right_of_def)
qed

text \<open>The whole walk.\<close>

lemma updateSum_walk:
  assumes ch: "changes_at r N M A B" and v: "v \<longrightarrow> d \<le> 31"
  shows "walking A B r N M d l t \<Longrightarrow> l < d \<Longrightarrow> discard \<and> card (B \<inter> leaves l (r div 2 ^ l)) = 0 \<longrightarrow> gone B N l (r div 2 ^ l) \<Longrightarrow>
    \<exists>t'. updateSum v (t, Some (Suc l, r div 2 ^ Suc l), even (r div 2 ^ l),
        card (B \<inter> leaves l (r div 2 ^ l)), l, right_of A r l, discard) = Some (Inr (t', right_of A r d)) \<and>
      walking A B r N M d d t' \<and> t' ! 0 = t ! 0"
proof (induction "d - l" arbitrary: l t discard)
  case 0
  then show ?case by simp
next
  case (Suc k)
  obtain t1 discard1 where s: "update_node v t (Some (Suc l, r div 2 ^ Suc l)) (even (r div 2 ^ l))
        (card (B \<inter> leaves l (r div 2 ^ l))) (Suc l) (right_of A r l) discard =
       Inr (t1, if even (r div 2 ^ l) then right_of A r l + card (A \<inter> leaves l (Suc (r div 2 ^ l))) else right_of A r l,
         discard1, if Suc l = d then None else Some (Suc (Suc l), r div 2 ^ Suc (Suc l)), even (r div 2 ^ Suc l),
         card (B \<inter> leaves (Suc l) (r div 2 ^ Suc l)))"
      "walking A B r N M d (Suc l) t1" "t1 ! 0 = t ! 0" "discard1 \<longrightarrow> gone B N (Suc l) (r div 2 ^ Suc l)"
    by (rule update_node_step [OF ch Suc.prems(1,2) refl Suc.prems(3) v])
  have dist: "(if even (r div 2 ^ l) then right_of A r l + card (A \<inter> leaves l (Suc (r div 2 ^ l))) else right_of A r l) =
      right_of A r (Suc l)"
    by (simp add: right_of_Suc)
  show ?case
  proof (cases "Suc l = d")
    case True
    then show ?thesis using s(2,3) unfolding updateSum.simps [of v "(t, _)"] prod.case s(1) dist
      by simp
  next
    case False
    have "k = d - Suc l" "Suc l < d" using Suc.hyps(2) Suc.prems(2) False by simp_all
    from Suc.hyps(1) [OF this(1) s(2) this(2)] s(4)
    obtain t' where "updateSum v (t1, Some (Suc (Suc l), r div 2 ^ Suc (Suc l)), even (r div 2 ^ Suc l),
        card (B \<inter> leaves (Suc l) (r div 2 ^ Suc l)), Suc l, right_of A r (Suc l), discard1) = Some (Inr (t', right_of A r d))"
      "walking A B r N M d d t'" "t' ! 0 = t1 ! 0" by blast
    then show ?thesis using False s(3) unfolding updateSum.simps [of v "(t, _)"] prod.case s(1) dist
      by (simp del: power_Suc)
  qed
qed

end
