(* ===== verification/Stack_Dist_Run.thy ===== *)
theory Stack_Dist_Run
  imports Stack_Dist_Inv
begin

text \<open>
  The operations of the stack distance calculator keep the tree's invariant: removing a leaf, which
  yields the number of live leaves to the right of it, growing the tree, adding a leaf, and the read
  only walk.
\<close>

lemma inner_ok_iff:
  "inner_ok A N M d l m \<longleftrightarrow> (\<forall>j. m j = None \<longrightarrow> l \<noteq> d \<and> gone A N l j \<or> M div 2 ^ l < j) \<and>
     (\<forall>j n. m j = Some n \<longrightarrow> j \<le> M div 2 ^ l \<and> node_ok A N d l j n)"
  unfolding inner_ok_def option.split [where P = "\<lambda>x. x"] by blast

lemma leaf_layer_iff:
  "leaf_layer_ok A m \<longleftrightarrow> (\<forall>k. m k = None \<longrightarrow> k \<notin> A) \<and> (\<forall>k n. m k = Some n \<longrightarrow> k \<in> A \<and> leaf_ok k n)"
  unfolding leaf_layer_ok_def option.split [where P = "\<lambda>x. x"] by blast

section \<open>Removing and adding a leaf\<close>

lemma tree_inv_walking: "tree_inv A N M d t \<Longrightarrow> walking A B r N M d 0 (node_put (0, k) v t)"
  by (auto simp: tree_inv_def walking_def nth_node_put)

lemma walking_tree_inv:
  assumes "walking A B r N M d d t" "leaf_layer_ok B (t ! 0)" "1 \<le> d" "M < 2 ^ d" "B \<subseteq> {..M}"
  shows "tree_inv B N M d t"
  using assms by (auto simp: tree_inv_def walking_def)

lemma tree_inv_depth: "tree_inv A N M d t \<Longrightarrow> length t = Suc d \<and> 0 < d"
  by (simp add: tree_inv_def)

lemma tree_inv_leaf:
  assumes "tree_inv A N M d t" "k \<in> A"
  obtains n where "(t ! 0) k = Some n" "leaf_ok k n"
proof -
  have "case (t ! 0) k of None \<Rightarrow> k \<notin> A | Some n \<Rightarrow> k \<in> A \<and> leaf_ok k n"
    using assms(1) by (simp add: tree_inv_def leaf_layer_ok_def)
  then show ?thesis using that assms(2) by (cases "(t ! 0) k") auto
qed

lemma leaf_layer_remove: "leaf_layer_ok A m \<Longrightarrow> leaf_layer_ok (A - {k}) (m(k := None))"
  by (simp add: leaf_layer_iff)

lemma leaf_layer_add: "leaf_layer_ok A m \<Longrightarrow> leaf_ok k n \<Longrightarrow> leaf_layer_ok (insert k A) (m(k \<mapsto> n))"
  by (simp add: leaf_layer_iff)

lemma tree_ptr_Some: "l < length t \<Longrightarrow> (t ! l) k = Some n \<Longrightarrow> tree_ptr t l k = Inr (Some (l, k))"
  by (simp add: tree_ptr_def vec_at_def)

lemma changes_remove: "A \<subseteq> {..M} \<Longrightarrow> k \<in> A \<Longrightarrow> changes_at k N M A (A - {k})"
  by (auto simp: changes_at_def)

lemma changes_add: "A \<subseteq> {..<N} \<Longrightarrow> changes_at N N N A (insert N A)"
  by (auto simp: changes_at_def)

lemma walk_from_leaf:
  assumes ch: "changes_at k N M A B" and inv: "tree_inv A N M d t" and v: "v \<longrightarrow> d \<le> 31"
    and disc: "discard \<and> k \<notin> B \<longrightarrow> k < N"
  shows "\<exists>t'. updateSum v (node_put (0, k) w t, Some (1, k div 2), even k, if k \<in> B then 1 else 0, 0, 0, discard) =
      Some (Inr (t', card (A \<inter> {k<..}))) \<and> walking A B k N M d d t' \<and> t' ! 0 = (t ! 0)(k := w)"
proof -
  have len: "length t = Suc d" "0 < d" and M: "M < 2 ^ d" and A: "A \<subseteq> {..M}"
    using inv by (simp_all add: tree_inv_def)
  have k: "k < 2 ^ d" using ch M by (simp add: changes_at_def)
  have "A \<subseteq> {..<2 ^ d}" using A M by auto
  note root = right_of_root [OF this k]
  have card: "card (B \<inter> leaves 0 (k div 2 ^ 0)) = (if k \<in> B then 1 else 0)" by simp
  have "discard \<and> card (B \<inter> leaves 0 (k div 2 ^ 0)) = 0 \<longrightarrow> gone B N 0 (k div 2 ^ 0)"
    using disc by (simp add: gone_def)
  from updateSum_walk [OF ch v tree_inv_walking [OF inv, of B k k w] len(2) this]
  obtain t' where "updateSum v (node_put (0, k) w t, Some (1, k div 2), even k, if k \<in> B then 1 else 0, 0, 0, discard) =
      Some (Inr (t', card (A \<inter> {k<..})))" "walking A B k N M d d t'" "t' ! 0 = node_put (0, k) w t ! 0"
    unfolding card root by auto
  then show ?thesis using len by (auto simp: nth_node_put)
qed

lemma remove_leaf_ok:
  assumes inv: "tree_inv A N M d t" and k: "k \<in> A" "A \<subseteq> {..<N}" and v: "v \<longrightarrow> d \<le> 31"
  obtains t' where "remove_leaf v t k = Inr (t', card (A \<inter> {k<..}), isMarked (the ((t ! 0) k)))"
    "tree_inv (A - {k}) N M d t'" "t' ! 0 = (t ! 0)(k := None)"
proof -
  have len: "0 < length t" "0 < d" "length t = Suc d" "M < 2 ^ d" "A \<subseteq> {..M}" and lo: "leaf_layer_ok A (t ! 0)"
    using inv by (simp_all add: tree_inv_def)
  obtain n where n: "(t ! 0) k = Some n" "leaf_ok k n" by (rule tree_inv_leaf [OF inv k(1)])
  let ?n = "n\<lparr>sumLeft := 0\<rparr>"
  have "k < N" using k by auto
  then obtain t' where u: "updateSum v (node_put (0, k) (Some ?n) t, Some (1, k div 2), even k, 0, 0, 0, True) =
      Some (Inr (t', card (A \<inter> {k<..})))" "walking A (A - {k}) k N M d d t'" "t' ! 0 = (t ! 0)(k \<mapsto> ?n)"
    using walk_from_leaf [OF changes_remove [OF len(5) k(1)] inv v, of True "Some ?n"] v by auto
  have len': "length t' = Suc d" using u(2) by (simp add: walking_def)
  have "updateSumsLeavesToRoot v t (Some (0, k)) False = Inr (t', card (A \<inter> {k<..}))"
    using n(2) u(1) unfolding updateSumsLeavesToRoot_def node_at_Some [OF len(1) n(1)]
    by (simp add: leaf_ok_def loopR_def)
  moreover have "node_at t' (Some (0, k)) = Inr ?n" "tree_ptr t' 0 k = Inr (Some (0, k))"
    using len' u(3) by (simp_all add: node_at_Some tree_ptr_Some)
  ultimately have "remove_leaf v t k = Inr (node_put (0, k) None t', card (A \<inter> {k<..}), isMarked (the ((t ! 0) k)))"
    unfolding remove_leaf_def tree_ptr_Some [OF len(1) n(1)] n(1) by simp
  moreover have "tree_inv (A - {k}) N M d (node_put (0, k) None t')"
  proof (rule walking_tree_inv)
    show "walking A (A - {k}) k N M d d (node_put (0, k) None t')"
      using u(2) by (auto simp: walking_def nth_node_put)
    show "leaf_layer_ok (A - {k}) (node_put (0, k) None t' ! 0)"
      using leaf_layer_remove [OF lo] len' u(3) by (simp add: nth_node_put)
  qed (use len in auto)
  moreover have "node_put (0, k) None t' ! 0 = (t ! 0)(k := None)" using len' u(3) by (simp add: nth_node_put)
  ultimately show ?thesis by (rule that)
qed

lemma gone_mono: "gone A N l j \<Longrightarrow> N \<le> N' \<Longrightarrow> gone A N' l j"
  by (auto simp: gone_def)

lemma tree_inv_mono:
  assumes "tree_inv A N M d t" "N \<le> N'"
  shows "tree_inv A N' M d t"
proof -
  have "node_ok A N d l j n \<Longrightarrow> node_ok A N' d l j n" for l j n
    using gone_mono [OF _ assms(2)] by (auto simp: node_ok_def)
  then have "inner_ok A N M d l m \<Longrightarrow> inner_ok A N' M d l m" for l m
    using gone_mono [OF _ assms(2)] unfolding inner_ok_iff by blast
  then show ?thesis using assms(1) by (auto simp: tree_inv_def)
qed

text \<open>The part of \<open>add_leaf\<close> after growing the tree.\<close>

lemma insert_leaf_ok:
  assumes inv: "tree_inv A N N d t" and A: "A \<subseteq> {..<N}" and v: "v \<longrightarrow> d \<le> 31"
  obtains t' where
    "updateSumsLeavesToRoot v (node_put (0, N) (Some (newNode\<lparr>nodeIndex := N, isLeftNode := N mod 2 = 0,
       parent := Some (1, N div 2)\<rparr>)) t) (Some (0, N)) True = Inr (t', Infinity)"
    "tree_inv (insert N A) (Suc N) N d t'" "\<exists>n. t' ! 0 = (t ! 0)(N \<mapsto> n) \<and> \<not> isMarked n"
proof -
  have len: "length t = Suc d" "0 < d" "N < 2 ^ d" and lo: "leaf_layer_ok A (t ! 0)"
    using inv by (simp_all add: tree_inv_def)
  let ?n = "newNode\<lparr>nodeIndex := N, isLeftNode := N mod 2 = 0, parent := Some (1, N div 2)\<rparr>"
  let ?n' = "?n\<lparr>sumLeft := 1\<rparr>" and ?t0 = "node_put (0, N) (Some ?n) t"
  have left: "N mod 2 = 0 \<longleftrightarrow> even N" by presburger
  obtain t' where u: "updateSum v (node_put (0, N) (Some ?n') t, Some (1, N div 2), even N, 1, 0, 0, False) =
      Some (Inr (t', card (A \<inter> {N<..})))" "walking A (insert N A) N N N d d t'" "t' ! 0 = (t ! 0)(N \<mapsto> ?n')"
    using walk_from_leaf [OF changes_add [OF A] inv v, of False "Some ?n'"] by auto
  have "node_at ?t0 (Some (0, N)) = Inr ?n" using len by (simp add: node_at_def nth_node_put)
  moreover have "node_put (0, N) (Some ?n') ?t0 = node_put (0, N) (Some ?n') t"
    using len by (simp add: node_put_def)
  ultimately have "updateSumsLeavesToRoot v ?t0 (Some (0, N)) True = Inr (t', Infinity)"
    using u(1) by (simp add: updateSumsLeavesToRoot_def loopR_def left)
  moreover have "tree_inv (insert N A) N N d t'"
  proof (rule walking_tree_inv [OF u(2)])
    have "leaf_ok N ?n'" by (simp add: leaf_ok_def left)
    from leaf_layer_add [OF lo this] show "leaf_layer_ok (insert N A) (t' ! 0)" unfolding u(3) .
  qed (use len A in auto)
  moreover have "\<not> isMarked ?n'" by (simp add: newNode_def)
  then have "\<exists>n. t' ! 0 = (t ! 0)(N \<mapsto> n) \<and> \<not> isMarked n" using u(3) by blast
  ultimately show ?thesis by (intro that) (auto intro: tree_inv_mono)
qed

section \<open>Growing the tree\<close>

definition layer_ok :: "nat set \<Rightarrow> nat \<Rightarrow> nat \<Rightarrow> nat \<Rightarrow> sd_tree \<Rightarrow> nat list \<Rightarrow> nat \<Rightarrow> bool" where
  "layer_ok A N K d t ni l \<longleftrightarrow> inner_ok A N K d l (t ! l) \<and> ni ! l = Suc (K div 2 ^ l)"

text \<open>The layers above \<open>i\<close> have the nodes for the leaf \<open>N\<close>, those up to \<open>i\<close> for the leaf before it.\<close>

definition growing :: "nat set \<Rightarrow> nat \<Rightarrow> nat \<Rightarrow> nat \<Rightarrow> sd_tree \<Rightarrow> nat list \<Rightarrow> bool" where
  "growing A N d i t ni \<longleftrightarrow> length t = Suc d \<and> length ni = Suc d \<and> leaf_layer_ok A (t ! 0) \<and> ni ! 0 = N \<and>
     (\<forall>l. i < l \<and> l \<le> d \<longrightarrow> layer_ok A N N d t ni l) \<and>
     (\<forall>l. 1 \<le> l \<and> l \<le> i \<longrightarrow> layer_ok A N (N - 1) d t ni l)"

lemma pred_div_dvd: "0 < N \<Longrightarrow> 2 ^ l dvd N \<Longrightarrow> Suc ((N - 1) div 2 ^ l) = N div (2 :: nat) ^ l"
  using div_Suc [of "N - 1" "2 ^ l"] by (simp add: mod_eq_0_iff_dvd)

lemma pred_div_not_dvd: "\<not> 2 ^ l dvd N \<Longrightarrow> (N - 1) div 2 ^ l = N div (2 :: nat) ^ l"
  using div_Suc [of "N - 1" "2 ^ l"] by (cases N) (simp_all add: mod_eq_0_iff_dvd)

lemma no_leaves_yet:
  assumes "A \<subseteq> {..<N}" "2 ^ l dvd N"
  shows "A \<inter> leaves l (N div 2 ^ l) = {}"
proof -
  have "leaves l (N div 2 ^ l) = {N ..< N + 2 ^ l}" using assms(2) by (simp add: leaves_interval)
  then show ?thesis using assms(1) by auto
qed

lemma layer_current:
  assumes "layer_ok A N N d t ni l"
  obtains n where "(t ! l) (N div 2 ^ l) = Some n" "node_ok A N d l (N div 2 ^ l) n" "ni ! l - 1 = N div 2 ^ l"
proof -
  have io: "inner_ok A N N d l (t ! l)" and ni: "ni ! l = Suc (N div 2 ^ l)"
    using assms by (simp_all add: layer_ok_def)
  have "\<not> gone A N l (N div 2 ^ l)" by (auto simp: gone_def leaves_def)
  then obtain n where "(t ! l) (N div 2 ^ l) = Some n"
    using io unfolding inner_ok_iff by (cases "(t ! l) (N div 2 ^ l)") auto
  then show ?thesis using that io ni unfolding inner_ok_iff by auto
qed

lemma inner_ok_grow:
  assumes "inner_ok A N M d l m" "Suc (M div 2 ^ l) = K div 2 ^ l" "node_ok A N d l (K div 2 ^ l) n"
  shows "inner_ok A N K d l (m(K div 2 ^ l \<mapsto> n))"
  unfolding inner_ok_iff
proof (intro conjI allI impI)
  fix j assume "(m(K div 2 ^ l \<mapsto> n)) j = None"
  then have "m j = None" "j \<noteq> K div 2 ^ l" by (simp_all split: if_splits)
  then show "l \<noteq> d \<and> gone A N l j \<or> K div 2 ^ l < j"
    using assms(1) unfolding inner_ok_iff assms(2) [symmetric] by (metis Suc_lessI)
next
  fix j n' assume j: "(m(K div 2 ^ l \<mapsto> n)) j = Some n'"
  have old: "m j = Some n' \<Longrightarrow> j \<le> M div 2 ^ l \<and> node_ok A N d l j n'"
    using assms(1) unfolding inner_ok_iff by blast
  have "M div 2 ^ l \<le> K div 2 ^ l" unfolding assms(2) [symmetric] by simp
  with old show "j \<le> K div 2 ^ l" using j by (cases "j = K div 2 ^ l") auto
  show "node_ok A N d l j n'" using old j assms(3) by (cases "j = K div 2 ^ l") auto
qed

lemma add_inode_step:
  assumes g: "growing A N d (Suc i) t ni" and i: "Suc i < d" and A: "A \<subseteq> {..<N}" and N: "0 < N" "2 ^ Suc i dvd N"
  obtains t' ni' where "add_inode (Suc i) (t, ni) = Inr (t', ni')" "growing A N d i t' ni'"
proof -
  let ?l = "Suc i" and ?k = "N div 2 ^ Suc i"
  have len: "length t = Suc d" "length ni = Suc d" using g by (simp_all add: growing_def)
  have up: "layer_ok A N N d t ni (Suc ?l)" and low: "layer_ok A N (N - 1) d t ni ?l"
    using g i by (simp_all add: growing_def)
  have k: "ni ! ?l = ?k" using low pred_div_dvd [OF N] by (simp add: layer_ok_def)
  obtain p where p: "(t ! Suc ?l) (N div 2 ^ Suc ?l) = Some p" "ni ! Suc ?l - 1 = N div 2 ^ Suc ?l"
    by (rule layer_current [OF up]) (rule that)
  have half: "N div 2 ^ Suc ?l = ?k div 2" by (rule div_Suc_pow)
  let ?n = "newNode\<lparr>isLeftNode := ?k mod 2 = 0, parent := Some (Suc ?l, ?k div 2), nodeIndex := ?k\<rparr>"
  let ?t = "node_put (?l, ?k) (Some ?n) t" and ?ni = "ni[?l := Suc ?k]"
  have "add_inode ?l (t, ni) = Inr (?t, ?ni)"
    using len i k p unfolding add_inode_def half by (simp add: vec_at_def tree_ptr_Some del: power_Suc)
  moreover have "growing A N d i ?t ?ni"
  proof -
    have "A \<inter> leaves i (2 * ?k) = {}" "A \<inter> leaves i (Suc (2 * ?k)) = {}"
      using no_leaves_yet [OF A N(2)] by (auto simp: leaves_Suc)
    then have "node_ok A N d ?l ?k ?n"
      using i by (simp add: node_ok_def newNode_def even_iff_mod_2_eq_zero del: power_Suc)
    with low have "inner_ok A N N d ?l ((t ! ?l)(?k \<mapsto> ?n))"
      using inner_ok_grow [OF _ pred_div_dvd [OF N]] unfolding layer_ok_def by blast
    then have "layer_ok A N N d ?t ?ni ?l" using len i by (simp add: layer_ok_def nth_node_put)
    moreover have "layer_ok A N K d ?t ?ni l = layer_ok A N K d t ni l" if "l \<noteq> ?l" for l K
      using that len i by (simp add: layer_ok_def nth_node_put)
    moreover have "?t ! 0 = t ! 0" using len i by (simp add: nth_node_put)
    ultimately show ?thesis using g unfolding growing_def
      by (simp del: power_Suc) (metis le_SucI Suc_leI Suc_lessI le_imp_less_Suc less_irrefl)
  qed
  ultimately show ?thesis by (rule that)
qed

lemma growing_skip:
  assumes "growing A N d (Suc i) t ni" "\<not> 2 ^ Suc i dvd N"
  shows "growing A N d i t ni"
proof -
  have "layer_ok A N (N - 1) d t ni (Suc i) = layer_ok A N N d t ni (Suc i)"
    unfolding layer_ok_def inner_ok_iff pred_div_not_dvd [OF assms(2)] by (rule refl)
  then show ?thesis using assms(1) unfolding growing_def by (metis Suc_leI Suc_lessI le_SucI zero_less_Suc One_nat_def)
qed

lemma op2_loop_ok:
  assumes A: "A \<subseteq> {..<N}" and N: "0 < N"
  shows "growing A N d i t ni \<Longrightarrow> i < d \<Longrightarrow> i < 31 \<Longrightarrow>
    \<exists>t' ni'. op2_loop N i (t, ni) = Inr (t', ni') \<and> growing A N d 0 t' ni'"
proof (induction i arbitrary: t ni)
  case (Suc i)
  show ?case
  proof (cases "2 ^ Suc i dvd N")
    case True
    obtain t1 ni1 where "add_inode (Suc i) (t, ni) = Inr (t1, ni1)" "growing A N d i t1 ni1"
      by (rule add_inode_step [OF Suc.prems(1,2) A N True])
    then show ?thesis using Suc True by (simp add: mod_eq_0_iff_dvd del: power_Suc)
  next
    case False
    from growing_skip [OF Suc.prems(1) this] show ?thesis
      using Suc False by (simp add: mod_eq_0_iff_dvd del: power_Suc)
  qed
qed simp

lemma op1_loop_ok:
  assumes A: "A \<subseteq> {..<N}" and N: "0 < N"
  shows "growing A N d i t ni \<Longrightarrow> i < d \<Longrightarrow> 2 ^ i dvd N \<Longrightarrow>
    \<exists>t' ni'. op1_loop i (t, ni) = Inr (t', ni') \<and> growing A N d 0 t' ni'"
proof (induction i arbitrary: t ni)
  case (Suc i)
  obtain t1 ni1 where "add_inode (Suc i) (t, ni) = Inr (t1, ni1)" "growing A N d i t1 ni1"
    by (rule add_inode_step [OF Suc.prems(1,2) A N Suc.prems(3)])
  moreover have "2 ^ i dvd N" using Suc.prems(3) by (auto elim: dvd_trans [rotated])
  ultimately show ?case using Suc by (simp del: power_Suc)
qed simp

text \<open>Between two accesses.\<close>

definition calc_tree :: "nat set \<Rightarrow> nat \<Rightarrow> nat \<Rightarrow> sd_tree \<Rightarrow> nat list \<Rightarrow> bool" where
  "calc_tree A N d t ni \<longleftrightarrow> tree_inv A N (N - 1) d t \<and> A \<subseteq> {..<N} \<and> length ni = Suc d \<and> ni ! 0 = N \<and>
     (\<forall>l. 1 \<le> l \<and> l \<le> d \<longrightarrow> ni ! l = Suc ((N - 1) div 2 ^ l)) \<and> (d = 1 \<or> 2 ^ (d - 1) \<le> N - 1)"

lemma depth_le: "d = 1 \<or> 2 ^ (d - 1) \<le> (N :: nat) \<Longrightarrow> N < 2 ^ 31 \<Longrightarrow> d \<le> 31"
proof -
  assume "d = 1 \<or> 2 ^ (d - 1) \<le> N" "N < 2 ^ 31"
  then have "d = 1 \<or> (2 :: nat) ^ (d - 1) < 2 ^ 31" by linarith
  then show ?thesis by (simp only: power_strict_increasing_iff) linarith
qed

lemma calc_tree_depth: "calc_tree A N d t ni \<Longrightarrow> N \<le> 2 ^ 31 \<Longrightarrow> d \<le> 31"
  by (rule depth_le [of d "N - 1"]) (auto simp: calc_tree_def)

lemma isPowerOf2_nat:
  assumes "N < 2 ^ 64"
  shows "isPowerOf2 (of_nat N) \<longleftrightarrow> (\<exists>k. N = 2 ^ k)"
proof -
  have "(of_nat N :: uint64) = 2 ^ k \<longleftrightarrow> N = 2 ^ k" if "k < 64" for k
  proof -
    have "(2 :: nat) ^ k < 2 ^ 64" using that by (rule power_strict_increasing) simp
    then have "take_bit 64 (2 ^ k :: nat) = 2 ^ k" "take_bit 64 N = N"
      using assms by (simp_all only: take_bit_nat_eq_self_iff)
    then have "(of_nat N :: uint64) = of_nat (2 ^ k) \<longleftrightarrow> N = 2 ^ k"
      unfolding word_of_nat_eq_iff by simp
    then show ?thesis by simp
  qed
  moreover have "k < 64" if "N = 2 ^ k" for k
    using assms that by (simp only: power_strict_increasing_iff)
  ultimately show ?thesis unfolding isPowerOf2_iff by blast
qed

lemma growing_tree_inv:
  assumes "growing A N d 0 t ni" "A \<subseteq> {..<N}" "N < 2 ^ d" "1 \<le> d"
  shows "tree_inv A N N d t"
  using assms by (auto simp: growing_def layer_ok_def tree_inv_def)

lemma calc_tree_growing:
  assumes "calc_tree A N d t ni" "N < 2 ^ d"
  shows "growing A N d (d - 1) t ni"
proof -
  have inv: "tree_inv A N (N - 1) d t" using assms(1) by (simp add: calc_tree_def)
  have old: "layer_ok A N (N - 1) d t ni l" if "1 \<le> l" "l \<le> d" for l
    using assms(1) inv that by (simp add: calc_tree_def layer_ok_def tree_inv_def)
  have root: "layer_ok A N N d t ni d = layer_ok A N (N - 1) d t ni d"
    using assms(2) unfolding layer_ok_def inner_ok_iff by simp
  have d: "1 \<le> d" using inv by (simp add: tree_inv_def)
  show ?thesis unfolding growing_def
  proof (intro conjI allI impI)
    fix l assume "d - 1 < l \<and> l \<le> d"
    then have "l = d" by linarith
    then show "layer_ok A N N d t ni l" using root old [OF d] by simp
  next
    fix l assume "1 \<le> l \<and> l \<le> d - 1"
    then show "layer_ok A N (N - 1) d t ni l" by (intro old) linarith+
  qed (use assms(1) inv in \<open>simp_all add: calc_tree_def tree_inv_def\<close>)
qed

lemma inner_ok_deeper: "l < d \<Longrightarrow> inner_ok A N M d l m \<Longrightarrow> inner_ok A N M (Suc d) l m"
  unfolding inner_ok_iff node_ok_def by auto

lemma root_node:
  assumes "tree_inv A N M d t"
  obtains r where "(t ! d) 0 = Some r" "node_ok A N d d 0 r" "\<forall>j. j \<noteq> 0 \<longrightarrow> (t ! d) j = None"
proof -
  have io: "inner_ok A N M d d (t ! d)" and M: "M div 2 ^ d = 0" using assms by (simp_all add: tree_inv_def)
  then obtain r where r: "(t ! d) 0 = Some r" unfolding inner_ok_iff by (cases "(t ! d) 0") auto
  have "(t ! d) j = None" if "j \<noteq> 0" for j
    using io M that unfolding inner_ok_iff by (cases "(t ! d) j") auto
  then show ?thesis using that [OF r] io r unfolding inner_ok_iff by blast
qed

lemma raise_root:
  assumes c: "calc_tree A N d t ni" and N: "N = 2 ^ d" and r: "(t ! d) 0 = Some r" "node_ok A N d d 0 r"
    and only: "\<forall>j. j \<noteq> 0 \<longrightarrow> (t ! d) j = None"
  shows "growing A N (Suc d) d (node_put (d, 0) (Some (r\<lparr>parent := Some (Suc d, 0)\<rparr>))
      (t @ [[0 \<mapsto> newNode\<lparr>sumLeft := sumRight r + sumLeft r, discardLeft := discardLeft r \<and> discardRight r\<rparr>]]))
    (ni @ [1])" (is "growing _ _ _ _ ?t _")
proof -
  have inv: "tree_inv A N (N - 1) d t" and A: "A \<subseteq> {..<N}" using c by (simp_all add: calc_tree_def)
  have len: "length t = Suc d" "1 \<le> d" using inv by (simp_all add: tree_inv_def)
  have ni: "length ni = Suc d" "ni ! 0 = N" and nl: "\<And>l. 1 \<le> l \<Longrightarrow> l \<le> d \<Longrightarrow> ni ! l = Suc ((N - 1) div 2 ^ l)"
    using c by (simp_all add: calc_tree_def)
  let ?n = "newNode\<lparr>sumLeft := sumRight r + sumLeft r, discardLeft := discardLeft r \<and> discardRight r\<rparr>"
  have tr: "?t ! l = (if l = d then (t ! d)(0 \<mapsto> r\<lparr>parent := Some (Suc d, 0)\<rparr>) else if l = Suc d then [0 \<mapsto> ?n] else t ! l)"
    if "l \<le> Suc d" for l
    using len that by (simp add: nth_node_put nth_append)
  have d: "Suc (d - 1) = d" using len by simp
  have "A \<inter> leaves d 1 = {}" using no_leaves_yet [OF A, of d] N by simp
  moreover have "sumRight r + sumLeft r = card (A \<inter> leaves d 0)"
    using r(2) card_leaves_Suc [of A "d - 1" 0] unfolding d by (simp add: node_ok_def)
  moreover have "discardLeft r \<and> discardRight r \<longrightarrow> gone A N d 0"
    using r(2) gone_Suc [of A N "d - 1" 0] unfolding d by (simp add: node_ok_def)
  ultimately have "node_ok A N (Suc d) (Suc d) 0 ?n" by (simp add: node_ok_def newNode_def)
  moreover have "N div 2 ^ Suc d = 0" using N by simp
  ultimately have new_root: "inner_ok A N N (Suc d) (Suc d) [0 \<mapsto> ?n]" by (auto simp: inner_ok_iff simp del: power_Suc)
  have "node_ok A N (Suc d) d 0 (r\<lparr>parent := Some (Suc d, 0)\<rparr>)" using r(2) by (simp add: node_ok_def)
  then have old_root: "inner_ok A N (N - 1) (Suc d) d ((t ! d)(0 \<mapsto> r\<lparr>parent := Some (Suc d, 0)\<rparr>))"
    using only N by (auto simp: inner_ok_iff)
  have low: "inner_ok A N (N - 1) (Suc d) l (t ! l)" if "1 \<le> l" "l < d" for l
    using inner_ok_deeper [OF that(2)] inv that by (simp add: tree_inv_def)
  show ?thesis unfolding growing_def
  proof (intro conjI allI impI)
    fix l assume "d < l \<and> l \<le> Suc d"
    then have "l = Suc d" by simp
    then show "layer_ok A N N (Suc d) ?t (ni @ [1]) l"
      using new_root ni N by (simp add: layer_ok_def tr nth_append)
  next
    fix l assume l: "1 \<le> l \<and> l \<le> d"
    then show "layer_ok A N (N - 1) (Suc d) ?t (ni @ [1]) l"
      using old_root low [of l] nl [of l] ni by (cases "l = d") (simp_all add: layer_ok_def tr nth_append)
  qed (use len ni inv tr [of 0] in \<open>simp_all add: tree_inv_def nth_append\<close>)
qed

lemma even_power_depth:
  assumes "calc_tree A N d t ni" "even N" "N = 2 ^ k"
  shows "k = d"
proof -
  have d: "1 \<le> d" "N - 1 < 2 ^ d" "d = 1 \<or> 2 ^ (d - 1) \<le> N - 1"
    using assms(1) by (auto simp: calc_tree_def tree_inv_def)
  have N: "0 < N" using assms(3) by simp
  have "k \<noteq> 0" using assms(2,3) by (auto intro: ccontr)
  have "(2 :: nat) ^ k \<le> 2 ^ d" using d(2) N assms(3) by linarith
  then have "k \<le> d" by (simp only: power_increasing_iff)
  moreover have "d - 1 < k" if "d \<noteq> 1"
  proof -
    have "(2 :: nat) ^ (d - 1) < 2 ^ k" using d(3) that N assms(3) by linarith
    then show ?thesis by (simp only: power_strict_increasing_iff)
  qed
  ultimately show ?thesis using \<open>k \<noteq> 0\<close> d(1) by linarith
qed

lemma grow_ok:
  assumes c: "calc_tree A N d t ni" and N: "N < 2 ^ 31"
  obtains t' ni' d' where "(if N mod 2 = 0 then updateTree N (t, ni) else Inr (t, ni)) = Inr (t', ni')"
    "growing A N d' 0 t' ni'" "N < 2 ^ d'" "1 \<le> d'" "d' = 1 \<or> 2 ^ (d' - 1) \<le> N"
proof -
  have inv: "tree_inv A N (N - 1) d t" and A: "A \<subseteq> {..<N}" and small: "d = 1 \<or> 2 ^ (d - 1) \<le> N - 1"
    using c by (simp_all add: calc_tree_def)
  have d: "length t = Suc d" "1 \<le> d" "N - 1 < 2 ^ d" using inv by (simp_all add: tree_inv_def)
  have d31: "d \<le> 31" by (rule calc_tree_depth [OF c less_imp_le [OF N]])
  have is_pow: "isPowerOf2 (of_nat N) \<longleftrightarrow> (\<exists>k. N = 2 ^ k)" using N by (intro isPowerOf2_nat) simp
  consider (odd) "odd N" | (pow) "even N" "N = 2 ^ d" | (other) "even N" "\<not> isPowerOf2 (of_nat N)"
    using even_power_depth [OF c] is_pow by blast
  then show ?thesis
  proof cases
    case odd
    then have "N \<noteq> 2 ^ d" using d(2) by auto
    then have "N < 2 ^ d" using d(3) by linarith
    moreover have "growing A N d 0 t ni"
    proof -
      have "growing A N d i t ni \<Longrightarrow> growing A N d 0 t ni" for i
      proof (induction i)
        case (Suc i)
        have "\<not> 2 ^ Suc i dvd N" using odd by (auto elim: dvd_mult_left)
        then show ?case using growing_skip Suc by blast
      qed
      then show ?thesis using calc_tree_growing [OF c \<open>N < 2 ^ d\<close>] .
    qed
    moreover have "d = 1 \<or> 2 ^ (d - 1) \<le> N" using small by linarith
    ultimately show ?thesis using that [of t ni d] odd d(2) by (simp add: odd_iff_mod_2_eq_one)
  next
    case pow
    obtain r where r: "(t ! d) 0 = Some r" "node_ok A N d d 0 r" "\<forall>j. j \<noteq> 0 \<longrightarrow> (t ! d) j = None"
      by (rule root_node [OF inv])
    have "0 < N" "2 ^ d dvd N" using pow by simp_all
    from op1_loop_ok [OF A this(1) raise_root [OF c pow(2) r] lessI this(2)]
    obtain t' ni' where "op1_loop d (node_put (d, 0) (Some (r\<lparr>parent := Some (Suc d, 0)\<rparr>))
      (t @ [[0 \<mapsto> newNode\<lparr>sumLeft := sumRight r + sumLeft r, discardLeft := discardLeft r \<and> discardRight r\<rparr>]]),
      ni @ [1]) = Inr (t', ni')" and g: "growing A N (Suc d) 0 t' ni'" by blast
    moreover have "isPowerOf2 (of_nat N)" using is_pow pow by blast
    ultimately have "updateTree N (t, ni) = Inr (t', ni')"
      using d r(1) by (simp add: updateTree_def getTreeDepth_def tree_ptr_def vec_at_def node_at_def Let_def)
    then show ?thesis using that [OF _ g] pow by (simp add: even_iff_mod_2_eq_zero)
  next
    case other
    then have "N \<noteq> 2 ^ d" using is_pow by blast
    then have lt: "N < 2 ^ d" using d by linarith
    note g = calc_tree_growing [OF c this]
    have "\<exists>t' ni'. op2_loop N (d - 1) (t, ni) = Inr (t', ni') \<and> growing A N d 0 t' ni'"
    proof (cases "N = 0")
      case True
      then have "d = 1" using small by simp
      then show ?thesis using g by simp
    next
      case False
      then show ?thesis by (intro op2_loop_ok [OF A _ g]) (use d d31 in auto)
    qed
    then obtain t' ni' where "updateTree N (t, ni) = Inr (t', ni')" and g': "growing A N d 0 t' ni'"
      using other d by (auto simp: updateTree_def getTreeDepth_def)
    moreover have "d = 1 \<or> 2 ^ (d - 1) \<le> N" using small by linarith
    ultimately show ?thesis using that [OF _ g' lt d(2)] other(1) by (simp add: even_iff_mod_2_eq_zero)
  qed
qed

text \<open>Growing does not touch the leaves.\<close>

lemma add_inode_leaves:
  "add_inode (Suc i) (t, ni) = Inr (t', ni') \<Longrightarrow> t' ! 0 = t ! 0"
  by (auto simp: add_inode_def vec_at_def nth_node_put res_simps split: if_splits)

lemma op1_loop_leaves: "op1_loop i (t, ni) = Inr (t', ni') \<Longrightarrow> t' ! 0 = t ! 0"
  by (induction i arbitrary: t ni) (auto simp: res_simps dest!: add_inode_leaves)

lemma op2_loop_leaves: "op2_loop N i (t, ni) = Inr (t', ni') \<Longrightarrow> t' ! 0 = t ! 0"
  by (induction i arbitrary: t ni) (auto simp: res_simps dest!: add_inode_leaves split: if_splits)

lemma updateTree_leaves:
  assumes "updateTree N (t, ni) = Inr (t', ni')" "2 \<le> length t"
  shows "t' ! 0 = t ! 0"
proof (cases "isPowerOf2 (of_nat N)")
  case True
  then obtain r where "op1_loop (getTreeDepth t) (node_put (getTreeDepth t, 0) (Some (r\<lparr>parent := Some (length t, 0)\<rparr>))
      (t @ [[0 \<mapsto> newNode\<lparr>sumLeft := sumRight r + sumLeft r, discardLeft := discardLeft r \<and> discardRight r\<rparr>]]),
      ni @ [1]) = Inr (t', ni')"
    using assms by (auto simp: updateTree_def Let_def tree_ptr_def node_at_def getTreeDepth_def vec_at_def res_simps split: if_splits)
  from op1_loop_leaves [OF this] show ?thesis using assms(2) by (auto simp: getTreeDepth_def nth_node_put nth_append)
next
  case False
  then show ?thesis using assms(1) op2_loop_leaves by (auto simp: updateTree_def)
qed

lemma add_leaf_ok:
  assumes c: "calc_tree A N d t ni" and N: "N < 2 ^ 31"
  obtains t' ni' d' where "add_leaf v N (t, ni) = Inr (t', ni')" "calc_tree (insert N A) (Suc N) d' t' ni'"
    "\<exists>n. t' ! 0 = (t ! 0)(N \<mapsto> n) \<and> \<not> isMarked n"
proof -
  have A: "A \<subseteq> {..<N}" using c by (simp add: calc_tree_def)
  obtain t1 ni1 d' where g: "(if N mod 2 = 0 then updateTree N (t, ni) else Inr (t, ni)) = Inr (t1, ni1)"
    "growing A N d' 0 t1 ni1" "N < 2 ^ d'" "1 \<le> d'" "d' = 1 \<or> 2 ^ (d' - 1) \<le> N"
    by (rule grow_ok [OF c N])
  have len: "length t1 = Suc d'" "length ni1 = Suc d'" "ni1 ! 0 = N" using g(2) by (simp_all add: growing_def)
  have "layer_ok A N N d' t1 ni1 1" using g(2,4) by (simp add: growing_def)
  then obtain n where n: "(t1 ! 1) (N div 2 ^ 1) = Some n" "ni1 ! 1 - 1 = N div 2 ^ 1"
    by (rule layer_current)
  have "v \<longrightarrow> d' \<le> 31" using depth_le [OF g(5) N] by simp
  from insert_leaf_ok [OF growing_tree_inv [OF g(2) A g(3,4)] A this]
  obtain t2 where t2: "updateSumsLeavesToRoot v (node_put (0, N) (Some (newNode\<lparr>nodeIndex := N,
      isLeftNode := N mod 2 = 0, parent := Some (1, N div 2)\<rparr>)) t1) (Some (0, N)) True = Inr (t2, Infinity)"
    "tree_inv (insert N A) (Suc N) N d' t2" "\<exists>n. t2 ! 0 = (t1 ! 0)(N \<mapsto> n) \<and> \<not> isMarked n" by blast
  have "2 \<le> length t" using c by (simp add: calc_tree_def tree_inv_def)
  then have "t1 ! 0 = t ! 0" using g(1) updateTree_leaves by (auto split: if_splits)
  have "add_leaf v N (t, ni) = Inr (t2, ni1[0 := Suc N])"
    unfolding add_leaf_def g(1) using len n t2(1) g(4) by (auto simp: vec_at_def tree_ptr_def Let_def)
  moreover have "calc_tree (insert N A) (Suc N) d' t2 (ni1[0 := Suc N])"
    using t2(2) len g A by (auto simp: calc_tree_def growing_def layer_ok_def)
  ultimately show ?thesis using that t2(3) \<open>t1 ! 0 = t ! 0\<close> by simp
qed

end
