(* ===== verification/Stack_Dist_Spec.thy ===== *)
theory Stack_Dist_Spec
  imports Stack_Dist_Run
begin

text \<open>
  The stack distance calculator against its specification, an LRU stack of addresses with a mark
  each, the last accessed one first: the distance of an address is its position in the stack.
\<close>

section \<open>The LRU stack\<close>

type_synonym lru_stack = "(addr \<times> bool) list"

datatype sd_op = Access addr | Evict addr | Peek addr bool

primrec stack_find :: "addr \<Rightarrow> lru_stack \<Rightarrow> (nat \<times> bool) option" where
  "stack_find a [] = None"
| "stack_find a (x # st) = (if fst x = a then Some (0, snd x)
     else map_option (\<lambda>(d, m). (Suc d, m)) (stack_find a st))"

definition stack_result :: "addr \<Rightarrow> lru_stack \<Rightarrow> nat \<times> bool" where
  "stack_result a st = (case stack_find a st of None \<Rightarrow> (Infinity, False) | Some r \<Rightarrow> r)"

definition stack_drop :: "addr \<Rightarrow> lru_stack \<Rightarrow> lru_stack" where
  "stack_drop a st = filter (\<lambda>x. fst x \<noteq> a) st"

fun lru_exec :: "sd_op \<Rightarrow> lru_stack \<Rightarrow> lru_stack \<times> nat \<times> bool" where
  "lru_exec (Access a) st = ((a, False) # stack_drop a st, stack_result a st)"
| "lru_exec (Evict a) st = (stack_drop a st, stack_result a st)"
| "lru_exec (Peek a mark) st = (map (\<lambda>x. if fst x = a then (a, mark) else x) st, stack_result a st)"

fun sd_exec :: "sd_op \<Rightarrow> sd_calc \<Rightarrow> (sd_calc \<times> nat \<times> bool) res" where
  "sd_exec (Access a) c = calcStackDistAndUpdate a True c"
| "sd_exec (Evict a) c = calcStackDistAndUpdate a False c"
| "sd_exec (Peek a mark) c = calcStackDist a mark c"

primrec lru_run :: "sd_op list \<Rightarrow> lru_stack \<Rightarrow> (nat \<times> bool) list" where
  "lru_run [] st = []"
| "lru_run (x # ops) st = (case lru_exec x st of (st', r) \<Rightarrow> r # lru_run ops st')"

primrec sd_run :: "sd_op list \<Rightarrow> sd_calc \<Rightarrow> (nat \<times> bool) list res" where
  "sd_run [] c = Inr []"
| "sd_run (x # ops) c = bindR (sd_exec x c) (\<lambda>(c', r). bindR (sd_run ops c') (\<lambda>rs. Inr (r # rs)))"

lemma stack_find_Some:
  assumes "stack_find a st = Some (d, m)"
  shows "\<exists>xs ys. st = xs @ (a, m) # ys \<and> a \<notin> fst ` set xs \<and> d = length xs"
  using assms
proof (induction st arbitrary: d)
  case (Cons x st)
  show ?case
  proof (cases "fst x = a")
    case True
    then show ?thesis using Cons.prems by (intro exI [of _ "[]"] exI [of _ st]) (cases x; simp)
  next
    case False
    then obtain d' where "stack_find a st = Some (d', m)" "d = Suc d'" using Cons.prems by auto
    then obtain xs ys where "st = xs @ (a, m) # ys" "a \<notin> fst ` set xs" "d' = length xs" using Cons.IH by blast
    then show ?thesis using False \<open>d = Suc d'\<close> by (intro exI [of _ "x # xs"] exI [of _ ys]) auto
  qed
qed simp

lemma stack_find_None: "stack_find a st = None \<longleftrightarrow> a \<notin> fst ` set st"
  by (induction st) auto

lemma stack_drop_simps [simp]:
  "stack_drop a [] = []"
  "stack_drop a (x # st) = (if fst x = a then stack_drop a st else x # stack_drop a st)"
  "stack_drop a (xs @ ys) = stack_drop a xs @ stack_drop a ys"
  "set (stack_drop a st) = {x \<in> set st. fst x \<noteq> a}"
  by (auto simp: stack_drop_def)

lemma stack_drop_absent [simp]: "a \<notin> fst ` set st \<Longrightarrow> stack_drop a st = st"
  by (induction st) auto

section \<open>Representation\<close>

definition in_order :: "(addr \<rightharpoonup> nat) \<Rightarrow> lru_stack \<Rightarrow> bool" where
  "in_order ai st \<longleftrightarrow> dom ai = fst ` set st \<and> sorted_wrt (\<lambda>x y. the (ai (fst y)) < the (ai (fst x))) st"

definition marks_of :: "(addr \<rightharpoonup> nat) \<Rightarrow> (nat \<rightharpoonup> sd_node) \<Rightarrow> lru_stack \<Rightarrow> bool" where
  "marks_of ai m st \<longleftrightarrow> (\<forall>x \<in> set st. isMarked (the (m (the (ai (fst x))))) = snd x)"

definition tree_rep :: "sd_calc \<Rightarrow> lru_stack \<Rightarrow> bool" where
  "tree_rep c st \<longleftrightarrow> (\<exists>d. calc_tree (ran (aiMap c)) (sd_index c) d (sd_tree c) (nextIndex c)) \<and>
     in_order (aiMap c) st \<and> marks_of (aiMap c) (sd_tree c ! 0) st"

definition sd_rep :: "sd_calc \<Rightarrow> lru_stack \<Rightarrow> bool" where
  "sd_rep c st \<longleftrightarrow> tree_rep c st \<and> (verifyStack c \<longrightarrow> sd_stack c = rev (map fst st))"

lemma in_order_dom: "in_order ai st \<Longrightarrow> dom ai = fst ` set st"
  by (simp add: in_order_def)

lemma in_order_inj: "in_order ai st \<Longrightarrow> inj_on (\<lambda>x. the (ai (fst x))) (set st) \<and> distinct (map fst st)"
proof -
  have "sorted_wrt (\<lambda>x y. the (ai (fst y)) < the (ai (fst x))) st \<Longrightarrow> distinct (map (\<lambda>x. the (ai (fst x))) st)"
    by (induction st) auto
  moreover have "distinct (map (\<lambda>x. the (ai (fst x))) st) \<Longrightarrow> distinct (map fst st)"
    using distinct_map [of "the \<circ> ai" "map fst st"] by (simp add: comp_def)
  ultimately show "in_order ai st \<Longrightarrow> ?thesis" by (auto simp: in_order_def distinct_map)
qed

lemma in_order_split:
  assumes o: "in_order ai (xs @ (a, m) # ys)"
  obtains k where "ai a = Some k" "card (ran ai \<inter> {k<..}) = length xs" "stack_drop a (xs @ (a, m) # ys) = xs @ ys"
proof -
  let ?f = "\<lambda>x. the (ai (fst x))"
  have dom: "dom ai = fst ` set (xs @ (a, m) # ys)" using o by (simp only: in_order_def)
  then obtain k where k: "ai a = Some k" by (auto simp: dom_def)
  have "ran ai = ?f ` set (xs @ (a, m) # ys)"
  proof -
    have "ran ai = (\<lambda>b. the (ai b)) ` dom ai" by (force simp: ran_def dom_def image_iff)
    then show ?thesis unfolding dom by (simp only: image_image)
  qed
  then have "ran ai = ?f ` set xs \<union> {k} \<union> ?f ` set ys" using k by auto
  moreover have "?f ` set xs \<subseteq> {k<..}" "?f ` set ys \<inter> {k<..} = {}"
    using o k by (auto simp: in_order_def sorted_wrt_append)
  ultimately have "ran ai \<inter> {k<..} = ?f ` set xs" by blast
  moreover have "card (?f ` set xs) = length xs" "a \<notin> fst ` set xs" "a \<notin> fst ` set ys"
    using in_order_inj [OF o] by (auto simp: card_image distinct_card inj_on_Un distinct_map)
  ultimately show ?thesis using that [OF k] by simp
qed

lemma in_order_drop:
  assumes "in_order ai st"
  shows "in_order (ai(a := None)) (stack_drop a st)"
proof -
  have "sorted_wrt (\<lambda>x y. the (ai (fst y)) < the (ai (fst x))) (stack_drop a st)"
    using assms by (simp add: in_order_def stack_drop_def sorted_wrt_filter)
  then have "sorted_wrt (\<lambda>x y. the ((ai(a := None)) (fst y)) < the ((ai(a := None)) (fst x))) (stack_drop a st)"
    by (rule sorted_wrt_mono_rel [rotated]) simp
  then show ?thesis using assms by (auto simp: in_order_def)
qed

lemma in_order_push:
  assumes "in_order ai st" "a \<notin> dom ai" "ran ai \<subseteq> {..<N}"
  shows "in_order (ai(a \<mapsto> N)) ((a, m) # st)"
proof -
  have st: "fst x \<noteq> a \<and> the (ai (fst x)) < N" if "x \<in> set st" for x
  proof -
    have "fst x \<in> dom ai" using assms(1) that by (simp add: in_order_def)
    then show ?thesis using assms(2,3) by (auto simp: ran_def dom_def)
  qed
  have "sorted_wrt (\<lambda>x y. the ((ai(a \<mapsto> N)) (fst y)) < the ((ai(a \<mapsto> N)) (fst x))) st"
    by (rule sorted_wrt_mono_rel [of _ "\<lambda>x y. the (ai (fst y)) < the (ai (fst x))"])
      (use assms(1) st in \<open>auto simp: in_order_def\<close>)
  then show ?thesis using assms(1) st by (auto simp: in_order_def)
qed

lemma in_order_ran:
  assumes "in_order ai st" "ai a = Some k"
  shows "ran (ai(a := None)) = ran ai - {k}"
proof -
  have only: "b = a" if "ai b = Some k" for b
  proof -
    have "a \<in> fst ` set st" "b \<in> fst ` set st"
      unfolding in_order_dom [OF assms(1), symmetric] using assms(2) that by blast+
    then obtain x y where "x \<in> set st" "fst x = a" "y \<in> set st" "fst y = b" by blast
    then show ?thesis using in_order_inj [OF assms(1)] assms(2) that by (auto simp: inj_on_def)
  qed
  show ?thesis
  proof (intro equalityI subsetI)
    fix x assume "x \<in> ran (ai(a := None))"
    then obtain b where "b \<noteq> a" "ai b = Some x" by (auto simp: ran_def split: if_splits)
    then show "x \<in> ran ai - {k}" using only by (blast intro: ranI)
  next
    fix x assume "x \<in> ran ai - {k}"
    then obtain b where "ai b = Some x" "x \<noteq> k" by (auto simp: ran_def)
    then have "(ai(a := None)) b = Some x" using assms(2) by auto
    then show "x \<in> ran (ai(a := None))" by (rule ranI)
  qed
qed

lemma in_order_other:
  assumes "in_order ai st" "ai a = Some k" "x \<in> set st" "fst x \<noteq> a"
  shows "the (ai (fst x)) \<noteq> k"
proof -
  have "fst x \<in> dom ai" unfolding in_order_dom [OF assms(1)] using assms(3) by blast
  then obtain k' where k': "ai (fst x) = Some k'" by blast
  then have "k' \<in> ran (ai(a := None))" using assms(4) by (auto simp: ran_def)
  then show ?thesis using in_order_ran [OF assms(1,2)] k' by auto
qed

lemma marks_drop:
  assumes "in_order ai st" "ai a = Some k" "marks_of ai m st"
  shows "marks_of (ai(a := None)) (m(k := None)) (stack_drop a st)"
  using assms(3) in_order_other [OF assms(1,2)] by (auto simp: marks_of_def)

lemma marks_push:
  assumes "in_order ai st" "a \<notin> dom ai" "ran ai \<subseteq> {..<N}" "marks_of ai m st"
  shows "marks_of (ai(a \<mapsto> N)) (m(N \<mapsto> n)) ((a, isMarked n) # st)"
proof -
  have "fst x \<noteq> a \<and> the (ai (fst x)) \<noteq> N" if "x \<in> set st" for x
  proof -
    have "fst x \<in> dom ai" using assms(1) that by (simp add: in_order_def)
    then show ?thesis using assms(2,3) by (auto simp: ran_def dom_def)
  qed
  then show ?thesis using assms(4) by (auto simp: marks_of_def)
qed

section \<open>The debug stack\<close>

lemma find_from_top_eq: "find_from_top a (map fst st) d = map_option (\<lambda>r. d + fst r) (stack_find a st)"
  by (induction st arbitrary: d) (auto simp: option.map_comp comp_def split_beta)

lemma verifyStackDist_eq:
  assumes "distinct (map fst st)"
  shows "verifyStackDist a u (rev (map fst st)) =
    (fst (stack_result a st), rev (map fst (if u then (a, m) # stack_drop a st else st)))"
proof (cases "stack_find a st")
  case None
  then have "a \<notin> fst ` set st" by (simp add: stack_find_None)
  then show ?thesis using None by (simp add: verifyStackDist_def find_from_top_eq stack_result_def)
next
  case (Some r)
  then obtain xs ys where st: "st = xs @ (a, snd r) # ys" "a \<notin> fst ` set xs" "fst r = length xs"
    using stack_find_Some [of a st "fst r" "snd r"] by auto
  moreover have "a \<notin> fst ` set ys" using assms st by auto
  moreover have "find_from_top a (map fst st) 0 = Some (length xs)" "fst (stack_result a st) = length xs"
    using Some st(3) by (simp_all add: find_from_top_eq stack_result_def)
  ultimately show ?thesis by (simp add: verifyStackDist_def)
qed

end
