(* ===== verification/Stack_Dist_Theorems.thy ===== *)
theory Stack_Dist_Theorems
  imports Stack_Dist_Spec
begin

text \<open>
  The stack distance calculator implements the LRU stack: on every sequence of calls it returns the
  positions and marks of the stack, and the checks it makes when \<open>verifyStack\<close> is set all pass.
\<close>

section \<open>The path of a leaf\<close>

lemma tree_path:
  assumes "tree_inv A N M d t" "k \<in> A" "1 \<le> l" "l \<le> d"
  obtains n where "node_at t (Some (l, k div 2 ^ l)) = Inr n" "node_ok A N d l (k div 2 ^ l) n"
proof -
  have io: "inner_ok A N M d l (t ! l)" and len: "l < length t" and k: "k \<le> M"
    using assms by (auto simp: tree_inv_def)
  have "\<not> gone A N l (k div 2 ^ l)" using assms(2) by (auto simp: gone_def leaves_def)
  moreover have "\<not> M div 2 ^ l < k div 2 ^ l" using div_le_mono [OF k] by (simp add: not_less)
  ultimately obtain n where n: "(t ! l) (k div 2 ^ l) = Some n"
    using io unfolding inner_ok_iff by (cases "(t ! l) (k div 2 ^ l)") auto
  then show ?thesis using that [OF node_at_Some [OF len n]] io unfolding inner_ok_iff by blast
qed

lemma getSum_ok:
  assumes inv: "tree_inv A N M d t" and k: "k \<in> A"
  shows "l < d \<Longrightarrow> getSum t (Some (Suc l, k div 2 ^ Suc l), even (k div 2 ^ l), right_of A k l) =
    Some (Inr (right_of A k d))"
proof (induction "d - l" arbitrary: l)
  case (Suc i)
  have "1 \<le> Suc l" "Suc l \<le> d" using Suc.prems by simp_all
  then obtain n where n: "node_at t (Some (Suc l, k div 2 ^ Suc l)) = Inr n" "node_ok A N d (Suc l) (k div 2 ^ Suc l) n"
    by (rule tree_path [OF inv k])
  have dist: "(if even (k div 2 ^ l) then right_of A k l + sumRight n else right_of A k l) = right_of A k (Suc l)"
    using n(2) by (simp add: node_ok_def right_of_Suc)
  have "parent n = (if Suc l = d then None else Some (Suc (Suc l), k div 2 ^ Suc (Suc l)))"
      "isLeftNode n = even (k div 2 ^ Suc l)"
    using n(2) unfolding node_ok_def div_Suc_pow [of k "Suc l"] by simp_all
  then show ?case using Suc unfolding getSum.simps [of t "(Some (Suc l, _), _)"] prod.case n(1) sum.case dist
    by (simp del: power_Suc)
qed simp

lemma sanity_loop_ok:
  assumes inv: "tree_inv A N M d t" and k: "k \<in> A"
  shows "1 \<le> l \<Longrightarrow> l + i \<le> d \<Longrightarrow> sanity_loop i t (Some (l, k div 2 ^ l)) = Inr (Some (l + i, k div 2 ^ (l + i)))"
proof (induction i arbitrary: l)
  case (Suc i)
  have "l \<le> d" using Suc.prems by simp
  then obtain n where n: "node_at t (Some (l, k div 2 ^ l)) = Inr n" "node_ok A N d l (k div 2 ^ l) n"
    by (rule tree_path [OF inv k Suc.prems(1)])
  have "parent n = Some (Suc l, k div 2 ^ Suc l)"
    using n(2) Suc.prems unfolding node_ok_def div_Suc_pow by simp
  then show ?case using Suc.IH [of "Suc l"] Suc.prems n(1) by (simp del: power_Suc)
qed simp

lemma sanityCheckTree_ok:
  assumes inv: "tree_inv A N M d t" and k: "k \<in> A"
  shows "sanityCheckTree t (Some (0, k)) = Inr ()"
proof -
  obtain n where n: "(t ! 0) k = Some n" "leaf_ok k n" by (rule tree_inv_leaf [OF inv k])
  have d: "length t = Suc d" "1 \<le> d" using inv by (simp_all add: tree_inv_def)
  then obtain r where r: "node_at t (Some (d, k div 2 ^ d)) = Inr r" "node_ok A N d d (k div 2 ^ d) r"
    using tree_path [OF inv k] by blast
  have "sanity_loop (d - 1) t (Some (1, k div 2)) = Inr (Some (d, k div 2 ^ d))"
    using sanity_loop_ok [OF inv k, of 1 "d - 1"] d by simp
  then show ?thesis
    using n d r by (simp add: sanityCheckTree_def node_at_Some leaf_ok_def getTreeDepth_def node_ok_def)
qed

lemma getSumsLeavesToRoot_ok:
  assumes inv: "tree_inv A N M d t" and k: "k \<in> A"
  shows "getSumsLeavesToRoot t (Some (0, k)) = Inr (card (A \<inter> {k<..}))"
proof -
  obtain n where n: "(t ! 0) k = Some n" "leaf_ok k n" by (rule tree_inv_leaf [OF inv k])
  have d: "length t = Suc d" "0 < d" "A \<subseteq> {..<2 ^ d}" "k < 2 ^ d" using inv k by (auto simp: tree_inv_def)
  show ?thesis
    using n d getSum_ok [OF inv k d(2)] right_of_root [OF d(3,4)]
    by (simp add: getSumsLeavesToRoot_def node_at_Some leaf_ok_def loopR_def)
qed

section \<open>Simulation\<close>

lemma rep_lookup:
  assumes "in_order ai st"
  shows "case ai a of None \<Rightarrow> stack_result a st = (Infinity, False) \<and> stack_drop a st = st
    | Some k \<Rightarrow> fst (stack_result a st) = card (ran ai \<inter> {k<..}) \<and> (a, snd (stack_result a st)) \<in> set st"
proof (cases "stack_find a st")
  case None
  then have "a \<notin> dom ai" "a \<notin> fst ` set st" unfolding in_order_dom [OF assms] by (simp_all add: stack_find_None)
  then show ?thesis using None by (auto simp: stack_result_def dom_def)
next
  case (Some r)
  then obtain xs ys where st: "st = xs @ (a, snd r) # ys" "fst r = length xs"
    using stack_find_Some [of a st "fst r" "snd r"] by auto
  obtain k where "ai a = Some k" "card (ran ai \<inter> {k<..}) = length xs"
    by (rule in_order_split [OF assms [unfolded st(1)]])
  then show ?thesis using Some st by (simp add: stack_result_def)
qed

lemma drop_phase:
  assumes rep: "tree_rep c st" and N: "sd_index c \<le> 2 ^ 31"
  obtains t d where
    "(case aiMap c a of
        Some k \<Rightarrow> bindR (remove_leaf (verifyStack c) (sd_tree c) k) (\<lambda>(t, dist, mark).
          Inr (t, (aiMap c)(a := if add then Some (sd_index c) else None), dist, mark))
      | None \<Rightarrow> Inr (sd_tree c, if add then (aiMap c)(a \<mapsto> sd_index c) else aiMap c, Infinity, False)) =
      Inr (t, (aiMap c)(a := if add then Some (sd_index c) else None), stack_result a st)"
    "calc_tree (ran ((aiMap c)(a := None))) (sd_index c) d t (nextIndex c)"
    "marks_of ((aiMap c)(a := None)) (t ! 0) (stack_drop a st)"
proof -
  obtain d where ct: "calc_tree (ran (aiMap c)) (sd_index c) d (sd_tree c) (nextIndex c)"
    and o: "in_order (aiMap c) st" and m: "marks_of (aiMap c) (sd_tree c ! 0) st"
    using rep by (auto simp: tree_rep_def)
  show ?thesis
  proof (cases "aiMap c a")
    case None
    then have "(aiMap c)(a := None) = aiMap c" by auto
    then show ?thesis using that ct m rep_lookup [OF o, of a] None by simp
  next
    case (Some k)
    have A: "k \<in> ran (aiMap c)" "ran (aiMap c) \<subseteq> {..<sd_index c}"
      using ct Some by (auto simp: calc_tree_def ran_def)
    have inv: "tree_inv (ran (aiMap c)) (sd_index c) (sd_index c - 1) d (sd_tree c)" using ct by (simp add: calc_tree_def)
    have "verifyStack c \<longrightarrow> d \<le> 31" using calc_tree_depth [OF ct N] by simp
    from remove_leaf_ok [OF inv A this]
    obtain t where t: "remove_leaf (verifyStack c) (sd_tree c) k =
        Inr (t, card (ran (aiMap c) \<inter> {k<..}), isMarked (the ((sd_tree c ! 0) k)))"
      "tree_inv (ran (aiMap c) - {k}) (sd_index c) (sd_index c - 1) d t" "t ! 0 = (sd_tree c ! 0)(k := None)" by blast
    have "fst (stack_result a st) = card (ran (aiMap c) \<inter> {k<..})" "(a, snd (stack_result a st)) \<in> set st"
      using rep_lookup [OF o, of a] Some by simp_all
    moreover from this(2) have "snd (stack_result a st) = isMarked (the ((sd_tree c ! 0) k))"
      using m Some by (auto simp: marks_of_def)
    ultimately have "stack_result a st = (card (ran (aiMap c) \<inter> {k<..}), isMarked (the ((sd_tree c ! 0) k)))"
      by (simp add: prod_eq_iff)
    moreover have "calc_tree (ran ((aiMap c)(a := None))) (sd_index c) d t (nextIndex c)"
      using ct t(2) unfolding in_order_ran [OF o Some] calc_tree_def by auto
    moreover have "marks_of ((aiMap c)(a := None)) (t ! 0) (stack_drop a st)"
      unfolding t(3) by (rule marks_drop [OF o Some m])
    ultimately show ?thesis using that [of t d] Some t(1) by simp
  qed
qed

text \<open>The outcome of the debug stack's check.\<close>

definition stack_agrees :: "addr \<Rightarrow> sd_calc \<Rightarrow> lru_stack \<Rightarrow> bool" where
  "stack_agrees a c st \<longleftrightarrow> verifyStack c \<longrightarrow> fst (verifyStackDist a True (sd_stack c)) = fst (stack_result a st)"

lemma access_ok:
  assumes rep: "tree_rep c st" and N: "sd_index c < 2 ^ 31"
  obtains c' where "calcStackDistAndUpdate a True c =
      (if stack_agrees a c st then Inr (c', stack_result a st) else Inl Panic)"
    "tree_rep c' ((a, False) # stack_drop a st)" "sd_index c' = Suc (sd_index c)" "verifyStack c' = verifyStack c"
    "sd_stack c' = (if verifyStack c then snd (verifyStackDist a True (sd_stack c)) else sd_stack c)"
proof -
  let ?ai = "(aiMap c)(a := None)" and ?N = "sd_index c"
  obtain t d where p: "(case aiMap c a of
        Some k \<Rightarrow> bindR (remove_leaf (verifyStack c) (sd_tree c) k) (\<lambda>(t, dist, mark).
          Inr (t, (aiMap c)(a := if True then Some (sd_index c) else None), dist, mark))
      | None \<Rightarrow> Inr (sd_tree c, if True then (aiMap c)(a \<mapsto> sd_index c) else aiMap c, Infinity, False)) =
      Inr (t, (aiMap c)(a := if True then Some (sd_index c) else None), stack_result a st)"
    "calc_tree (ran ?ai) ?N d t (nextIndex c)" "marks_of ?ai (t ! 0) (stack_drop a st)"
    by (rule drop_phase [OF rep less_imp_le [OF N]])
  have o: "in_order ?ai (stack_drop a st)" using rep in_order_drop by (simp add: tree_rep_def)
  have A: "a \<notin> dom ?ai" "ran ?ai \<subseteq> {..<?N}" using p(2) by (auto simp: calc_tree_def)
  obtain t' ni' d' where t': "add_leaf (verifyStack c) ?N (t, nextIndex c) = Inr (t', ni')"
    "calc_tree (insert ?N (ran ?ai)) (Suc ?N) d' t' ni'" "\<exists>n. t' ! 0 = (t ! 0)(?N \<mapsto> n) \<and> \<not> isMarked n"
    by (rule add_leaf_ok [OF p(2) N])
  then obtain n where n: "t' ! 0 = (t ! 0)(?N \<mapsto> n)" "\<not> isMarked n" by blast
  have upd: "?ai(a \<mapsto> ?N) = (aiMap c)(a \<mapsto> ?N)" by simp
  have ran: "ran ((aiMap c)(a \<mapsto> ?N)) = insert ?N (ran ?ai)" by (auto simp: ran_def)
  have inv': "tree_inv (insert ?N (ran ?ai)) (Suc ?N) ?N d' t'" using t'(2) by (simp add: calc_tree_def)
  have check: "tree_ptr t' 0 ?N = Inr (Some (0, ?N))" "sanityCheckTree t' (Some (0, ?N)) = Inr ()"
    using n(1) inv' sanityCheckTree_ok [OF inv'] by (simp_all add: tree_ptr_Some tree_inv_def)
  let ?st = "(a, False) # stack_drop a st"
  let ?c = "c\<lparr>sd_index := Suc ?N, sd_tree := t', aiMap := (aiMap c)(a \<mapsto> ?N), nextIndex := ni',
      sd_stack := if verifyStack c then snd (verifyStackDist a True (sd_stack c)) else sd_stack c\<rparr>"
  have "calcStackDistAndUpdate a True c =
      (if stack_agrees a c st then Inr (?c, stack_result a st) else Inl Panic)"
    unfolding calcStackDistAndUpdate_def p(1) using t'(1) check
    by (cases "stack_result a st"; cases "verifyStackDist a True (sd_stack c)") (simp add: stack_agrees_def)
  moreover have "tree_rep ?c ?st"
    using t'(2) in_order_push [OF o A, of False] marks_push [OF o A p(3), of n] n
    unfolding tree_rep_def upd by (auto simp: ran)
  ultimately show ?thesis by (rule that) simp_all
qed

lemma evict_ok:
  assumes rep: "tree_rep c st" and N: "sd_index c \<le> 2 ^ 31"
  obtains c' where "calcStackDistAndUpdate a False c = Inr (c', stack_result a st)" "tree_rep c' (stack_drop a st)"
    "sd_index c' = sd_index c" "verifyStack c' = verifyStack c" "sd_stack c' = sd_stack c"
proof -
  let ?ai = "(aiMap c)(a := None)"
  obtain t d where p: "(case aiMap c a of
        Some k \<Rightarrow> bindR (remove_leaf (verifyStack c) (sd_tree c) k) (\<lambda>(t, dist, mark).
          Inr (t, (aiMap c)(a := if False then Some (sd_index c) else None), dist, mark))
      | None \<Rightarrow> Inr (sd_tree c, if False then (aiMap c)(a \<mapsto> sd_index c) else aiMap c, Infinity, False)) =
      Inr (t, (aiMap c)(a := if False then Some (sd_index c) else None), stack_result a st)"
    "calc_tree (ran ?ai) (sd_index c) d t (nextIndex c)" "marks_of ?ai (t ! 0) (stack_drop a st)"
    by (rule drop_phase [OF rep N])
  have "calcStackDistAndUpdate a False c = Inr (c\<lparr>sd_tree := t, aiMap := ?ai\<rparr>, stack_result a st)"
    unfolding calcStackDistAndUpdate_def p(1) by (cases "stack_result a st") simp
  moreover have "tree_rep (c\<lparr>sd_tree := t, aiMap := ?ai\<rparr>) (stack_drop a st)"
    using p(2,3) rep in_order_drop by (auto simp: tree_rep_def)
  ultimately show ?thesis by (rule that) simp_all
qed

lemma tree_inv_mark:
  assumes inv: "tree_inv A N M d t" and n: "(t ! 0) k = Some n"
  shows "tree_inv A N M d (node_put (0, k) (Some (n\<lparr>isMarked := m\<rparr>)) t)"
proof -
  have lo: "leaf_layer_ok A (t ! 0)" and len: "0 < length t" using inv by (auto simp: tree_inv_def)
  have k: "k \<in> A" "leaf_ok k n" using lo n unfolding leaf_layer_iff by blast+
  then have "leaf_ok k (n\<lparr>isMarked := m\<rparr>)" by (simp add: leaf_ok_def)
  from leaf_layer_add [OF lo this] have "leaf_layer_ok A ((t ! 0)(k \<mapsto> n\<lparr>isMarked := m\<rparr>))"
    using k(1) by (simp add: insert_absorb)
  then show ?thesis using inv len by (auto simp: tree_inv_def nth_node_put)
qed

lemma mark_stack:
  assumes o: "in_order ai st" and k: "ai a = Some k" and m: "marks_of ai lv st"
  shows "in_order ai (map (\<lambda>x. if fst x = a then (a, mark) else x) st)"
    "marks_of ai (lv(k \<mapsto> n\<lparr>isMarked := mark\<rparr>)) (map (\<lambda>x. if fst x = a then (a, mark) else x) st)"
proof -
  let ?g = "\<lambda>x. if fst x = a then (a, mark) else x"
  have fst: "fst (?g x) = fst x" for x by simp
  show "in_order ai (map ?g st)"
    using o by (simp only: in_order_def set_map image_image fst sorted_wrt_map)
  show "marks_of ai (lv(k \<mapsto> n\<lparr>isMarked := mark\<rparr>)) (map ?g st)"
    using m k in_order_other [OF o k] by (auto simp: marks_of_def)
qed

lemma peek_ok:
  assumes rep: "sd_rep c st"
  obtains c' where "calcStackDist a mark c = Inr (c', stack_result a st)"
    "sd_rep c' (map (\<lambda>x. if fst x = a then (a, mark) else x) st)"
    "sd_index c' = sd_index c" "verifyStack c' = verifyStack c"
proof -
  let ?st = "map (\<lambda>x. if fst x = a then (a, mark) else x) st"
  obtain d where ct: "calc_tree (ran (aiMap c)) (sd_index c) d (sd_tree c) (nextIndex c)"
    and o: "in_order (aiMap c) st" and m: "marks_of (aiMap c) (sd_tree c ! 0) st"
    and stk: "verifyStack c \<longrightarrow> sd_stack c = rev (map fst st)"
    using rep by (auto simp: sd_rep_def tree_rep_def)
  have "distinct (map fst st)" using in_order_inj [OF o] by blast
  then have v: "verifyStack c \<longrightarrow> fst (verifyStackDist a False (sd_stack c)) = fst (stack_result a st)"
    using stk verifyStackDist_eq [of st a False] by simp
  show ?thesis
  proof (cases "aiMap c a")
    case None
    then have "a \<notin> fst ` set st" unfolding in_order_dom [OF o, symmetric] by blast
    then have "?st = st" by (induction st) auto
    moreover have "calcStackDist a mark c = Inr (c, stack_result a st)"
      using rep_lookup [OF o, of a] None v
      by (cases "verifyStackDist a False (sd_stack c)") (auto simp: calcStackDist_def)
    ultimately show ?thesis using that rep by simp
  next
    case (Some k)
    have inv: "tree_inv (ran (aiMap c)) (sd_index c) (sd_index c - 1) d (sd_tree c)" using ct by (simp add: calc_tree_def)
    have k: "k \<in> ran (aiMap c)" using Some by (auto simp: ran_def)
    obtain n where n: "(sd_tree c ! 0) k = Some n" by (rule tree_inv_leaf [OF inv k])
    let ?t = "node_put (0, k) (Some (n\<lparr>isMarked := mark\<rparr>)) (sd_tree c)"
    have inv': "tree_inv (ran (aiMap c)) (sd_index c) (sd_index c - 1) d ?t" by (rule tree_inv_mark [OF inv n])
    have len: "0 < length (sd_tree c)" using inv by (simp add: tree_inv_def)
    have "fst (stack_result a st) = card (ran (aiMap c) \<inter> {k<..})" "(a, snd (stack_result a st)) \<in> set st"
      using rep_lookup [OF o, of a] Some by simp_all
    moreover from this(2) have "snd (stack_result a st) = isMarked n" using m Some n by (auto simp: marks_of_def)
    ultimately have "stack_result a st = (card (ran (aiMap c) \<inter> {k<..}), isMarked n)" by (simp add: prod_eq_iff)
    then have "calcStackDist a mark c = Inr (c\<lparr>sd_tree := ?t\<rparr>, stack_result a st)"
      using v getSumsLeavesToRoot_ok [OF inv' k] tree_ptr_Some [OF len n] node_at_Some [OF len n] Some
      by (cases "verifyStackDist a False (sd_stack c)") (auto simp: calcStackDist_def Let_def)
    moreover have "sd_rep (c\<lparr>sd_tree := ?t\<rparr>) ?st"
      using ct inv' mark_stack [OF o Some m] stk len
      by (auto simp: sd_rep_def tree_rep_def calc_tree_def nth_node_put comp_def)
    ultimately show ?thesis by (rule that) simp_all
  qed
qed

lemma access_rep:
  assumes rep: "sd_rep c st" and N: "sd_index c < 2 ^ 31"
  obtains c' where "calcStackDistAndUpdate a True c = Inr (c', stack_result a st)"
    "sd_rep c' ((a, False) # stack_drop a st)" "sd_index c' = Suc (sd_index c)" "verifyStack c' = verifyStack c"
proof -
  have tr: "tree_rep c st" and stk: "verifyStack c \<longrightarrow> sd_stack c = rev (map fst st)"
    using rep by (simp_all add: sd_rep_def)
  have "distinct (map fst st)" using tr in_order_inj by (auto simp: tree_rep_def)
  then have v: "verifyStack c \<longrightarrow>
      verifyStackDist a True (sd_stack c) = (fst (stack_result a st), rev (map fst ((a, False) # stack_drop a st)))"
    using stk verifyStackDist_eq [of st a True False] by simp
  obtain c' where "calcStackDistAndUpdate a True c = (if stack_agrees a c st then Inr (c', stack_result a st) else Inl Panic)"
    "tree_rep c' ((a, False) # stack_drop a st)" "sd_index c' = Suc (sd_index c)" "verifyStack c' = verifyStack c"
    "sd_stack c' = (if verifyStack c then snd (verifyStackDist a True (sd_stack c)) else sd_stack c)"
    by (rule access_ok [OF tr N])
  then show ?thesis using that [of c'] v by (simp add: stack_agrees_def sd_rep_def)
qed

lemma exec_ok:
  assumes rep: "sd_rep c st" and N: "sd_index c < 2 ^ 31" and ev: "verifyStack c \<longrightarrow> (\<forall>a. x \<noteq> Evict a)"
  obtains c' where "sd_exec x c = Inr (c', snd (lru_exec x st))" "sd_rep c' (fst (lru_exec x st))"
    "sd_index c' \<le> Suc (sd_index c)" "verifyStack c' = verifyStack c"
proof (cases x)
  case (Access a)
  obtain c' where "calcStackDistAndUpdate a True c = Inr (c', stack_result a st)"
    "sd_rep c' ((a, False) # stack_drop a st)" "sd_index c' = Suc (sd_index c)" "verifyStack c' = verifyStack c"
    by (rule access_rep [OF rep N])
  then show ?thesis using that [of c'] Access by simp
next
  case (Evict a)
  have "tree_rep c st" using rep by (simp add: sd_rep_def)
  then obtain c' where "calcStackDistAndUpdate a False c = Inr (c', stack_result a st)" "tree_rep c' (stack_drop a st)"
    "sd_index c' = sd_index c" "verifyStack c' = verifyStack c" "sd_stack c' = sd_stack c"
    by (rule evict_ok [OF _ less_imp_le [OF N]])
  then show ?thesis using that [of c'] ev Evict by (simp add: sd_rep_def)
next
  case (Peek a mark)
  obtain c' where "calcStackDist a mark c = Inr (c', stack_result a st)"
    "sd_rep c' (map (\<lambda>x. if fst x = a then (a, mark) else x) st)" "sd_index c' = sd_index c" "verifyStack c' = verifyStack c"
    by (rule peek_ok [OF rep])
  then show ?thesis using that [of c'] Peek by simp
qed

lemma sd_rep_new: "sd_rep (newStackDistCalc v) []"
proof -
  have "node_ok {} 0 1 1 0 newNode" by (simp add: node_ok_def newNode_def)
  then have "inner_ok {} 0 0 1 1 [0 \<mapsto> newNode]" by (auto simp: inner_ok_iff)
  moreover have "l = 1" if "1 \<le> l" "l \<le> 1" for l :: nat using that by simp
  ultimately have "calc_tree {} 0 1 [Map.empty, [0 \<mapsto> newNode]] [0, 1]"
    by (auto simp: calc_tree_def tree_inv_def leaf_layer_iff)
  then show ?thesis
    by (auto simp: sd_rep_def tree_rep_def newStackDistCalc_def in_order_def marks_of_def)
qed

lemma sd_run_ok:
  "sd_rep c st \<Longrightarrow> sd_index c + length ops \<le> 2 ^ 31 \<Longrightarrow> verifyStack c \<longrightarrow> (\<forall>a. Evict a \<notin> set ops) \<Longrightarrow>
    sd_run ops c = Inr (lru_run ops st)"
proof (induction ops arbitrary: c st)
  case (Cons x ops)
  have "sd_index c < 2 ^ 31" using Cons.prems(2) by simp
  moreover have "verifyStack c \<longrightarrow> (\<forall>a. x \<noteq> Evict a)" using Cons.prems(3) by auto
  ultimately obtain c' where "sd_exec x c = Inr (c', snd (lru_exec x st))" "sd_rep c' (fst (lru_exec x st))"
    "sd_index c' \<le> Suc (sd_index c)" "verifyStack c' = verifyStack c"
    by (rule exec_ok [OF Cons.prems(1)])
  then show ?case using Cons.IH [of c' "fst (lru_exec x st)"] Cons.prems(2,3) by (simp add: split_beta)
qed simp

section \<open>Distances as counts\<close>

text \<open>The stack after a sequence of accesses, the last one first.\<close>

primrec accessed :: "addr list \<Rightarrow> lru_stack" where
  "accessed [] = []"
| "accessed (a # h) = (a, False) # stack_drop a (accessed h)"

lemma accessed_marks: "(b, m) \<in> set (accessed h) \<Longrightarrow> \<not> m"
  by (induction h) auto

lemma accessed_set: "fst ` set (accessed h) = set h"
  by (induction h) (auto simp: image_iff)

lemma accessed_distinct: "distinct (map fst (accessed h))"
  by (induction h) (auto simp: stack_drop_def distinct_map_filter)

lemma takeWhile_filter:
  "(\<And>x. \<not> P x \<Longrightarrow> Q x) \<Longrightarrow> takeWhile P (filter Q xs) = filter Q (takeWhile P xs)"
  by (induction xs) auto

lemma accessed_before:
  "set (map fst (takeWhile (\<lambda>x. fst x \<noteq> a) (accessed h))) = set (takeWhile (\<lambda>x. x \<noteq> a) h)"
proof (induction h)
  case (Cons x h)
  show ?case
  proof (cases "x = a")
    case False
    have "takeWhile (\<lambda>y. fst y \<noteq> a) (stack_drop x (accessed h)) = stack_drop x (takeWhile (\<lambda>y. fst y \<noteq> a) (accessed h))"
      unfolding stack_drop_def by (rule takeWhile_filter) (use False in auto)
    then have "set (map fst (takeWhile (\<lambda>y. fst y \<noteq> a) (accessed (x # h)))) =
        insert x (set (map fst (takeWhile (\<lambda>y. fst y \<noteq> a) (accessed h))))"
      using False by auto
    then show ?thesis using Cons.IH False by simp
  qed simp
qed simp

lemma stack_find_takeWhile:
  "stack_find a st = Some r \<Longrightarrow> fst r = length (takeWhile (\<lambda>x. fst x \<noteq> a) st) \<and> (a, snd r) \<in> set st"
  by (induction st arbitrary: r) (auto split: if_splits)

lemma accessed_result:
  "stack_result a (accessed h) = (if a \<in> set h then card (set (takeWhile (\<lambda>x. x \<noteq> a) h)) else Infinity, False)"
proof (cases "stack_find a (accessed h)")
  case None
  then have "a \<notin> set h" unfolding accessed_set [symmetric] by (simp add: stack_find_None)
  then show ?thesis using None by (simp add: stack_result_def)
next
  case (Some r)
  note r = stack_find_takeWhile [OF Some]
  have "distinct (map fst (takeWhile (\<lambda>x. fst x \<noteq> a) (accessed h)))"
    using distinct_takeWhile [OF accessed_distinct, of "\<lambda>x. x \<noteq> a" h] by (simp add: takeWhile_map comp_def)
  from distinct_card [OF this] have "fst r = card (set (takeWhile (\<lambda>x. x \<noteq> a) h))"
    using r unfolding accessed_before by simp
  moreover have "\<not> snd r" using r accessed_marks by blast
  moreover have "a \<in> set h" using r unfolding accessed_set [symmetric] by force
  ultimately show ?thesis using Some by (cases r) (simp add: stack_result_def)
qed

lemma lru_run_accesses:
  "lru_run (map Access tr @ [Access a]) (accessed h) ! length tr = stack_result a (accessed (rev tr @ h))"
proof (induction tr arbitrary: h)
  case (Cons x tr)
  from Cons.IH [of "x # h"] show ?case by simp
qed simp

section \<open>Properties\<close>



text \<open>
  C27. After any sequence of fewer than \<open>2 ^ 31\<close> accesses, the distance returned for an access is the
  number of different addresses accessed since the last access to the same address, and \<open>Infinity\<close>
  on the first access to an address.
\<close>

theorem stack_distance_counts_distinct:
  assumes "length tr < 2 ^ 31"
  shows "\<exists>rs. sd_run (map Access tr @ [Access a]) (newStackDistCalc v) = Inr rs \<and> rs ! length tr =
    (if a \<in> set tr then card (set (takeWhile (\<lambda>x. x \<noteq> a) (rev tr))) else Infinity, False)"
proof -
  have "length (map Access tr @ [Access a]) \<le> 2 ^ 31" using assms by simp
  moreover have "sd_index (newStackDistCalc v) = 0" by (simp add: newStackDistCalc_def)
  moreover have "\<forall>b. Evict b \<notin> set (map Access tr @ [Access a])" by auto
  ultimately have "sd_run (map Access tr @ [Access a]) (newStackDistCalc v) = Inr (lru_run (map Access tr @ [Access a]) [])"
    using sd_run_ok [OF sd_rep_new, of v "map Access tr @ [Access a]"] by simp
  moreover have "lru_run (map Access tr @ [Access a]) [] ! length tr = stack_result a (accessed (rev tr))"
    using lru_run_accesses [of tr a "[]"] by simp
  ultimately show ?thesis by (simp add: accessed_result)
qed

theorem stack_distance_counts_distinct_witness:
  "\<exists>rs. sd_run (map Access [1, 2, 3, 2] @ [Access 1]) (newStackDistCalc True) = Inr rs \<and>
     rs ! length [1 :: addr, 2, 3, 2] = (2, False)"
proof -
  have len: "length [1 :: addr, 2, 3, 2] < 2 ^ 31" by simp
  have two: "(if (1 :: addr) \<in> set [1, 2, 3, 2] then card (set (takeWhile (\<lambda>x. x \<noteq> 1) (rev [1 :: addr, 2, 3, 2]))) else Infinity) = 2"
    by (simp add: card_insert_if)
  show ?thesis using stack_distance_counts_distinct [OF len, of 1 True] unfolding two .
qed

text \<open>
  With \<open>verifyStack\<close>, removing an address leaves it in the debug stack: the next access to it, which
  the tree counts as a first access, panics.
\<close>

theorem evict_breaks_verification:
  "sd_run [Access a, Evict a, Access a] (newStackDistCalc True) = Inl Panic"
proof -
  have r0: "tree_rep (newStackDistCalc True) []" using sd_rep_new by (simp add: sd_rep_def)
  have c0: "sd_index (newStackDistCalc True) = 0" "verifyStack (newStackDistCalc True)" "sd_stack (newStackDistCalc True) = []"
    by (simp_all add: newStackDistCalc_def)
  obtain c1 where c1: "calcStackDistAndUpdate a True (newStackDistCalc True) =
      (if stack_agrees a (newStackDistCalc True) [] then Inr (c1, stack_result a []) else Inl Panic)"
    "tree_rep c1 ((a, False) # stack_drop a [])" "sd_index c1 = Suc (sd_index (newStackDistCalc True))" "verifyStack c1 = verifyStack (newStackDistCalc True)"
    "sd_stack c1 = (if verifyStack (newStackDistCalc True) then snd (verifyStackDist a True (sd_stack (newStackDistCalc True)))
       else sd_stack (newStackDistCalc True))"
    by (rule access_ok [OF r0]) (use c0 in simp)
  have r1: "tree_rep c1 [(a, False)]" "sd_index c1 \<le> 2 ^ 31" using c0(1) c1(2,3) by simp_all
  obtain c2 where c2: "calcStackDistAndUpdate a False c1 = Inr (c2, stack_result a [(a, False)])"
    "tree_rep c2 (stack_drop a [(a, False)])" "sd_index c2 = sd_index c1" "verifyStack c2 = verifyStack c1" "sd_stack c2 = sd_stack c1"
    by (rule evict_ok [OF r1(1,2)])
  have r2: "tree_rep c2 []" "sd_index c2 < 2 ^ 31" using c0(1) c1(3) c2(2,3) by simp_all
  obtain c3 where c3: "calcStackDistAndUpdate a True c2 = (if stack_agrees a c2 [] then Inr (c3, stack_result a []) else Inl Panic)"
    by (rule access_ok [OF r2])
  have "stack_agrees a (newStackDistCalc True) []" "\<not> stack_agrees a c2 []"
    using c0 c1(4,5) c2(4,5) by (simp_all add: stack_agrees_def verifyStackDist_def stack_result_def Infinity_def)
  then show ?thesis using c1(1) c2(1) c3 by simp
qed

end
