(* ===== verification/Stack_Dist_Probe.thy ===== *)
theory Stack_Dist_Probe
  imports Stack_Dist_Theorems
begin

text \<open>
  The probe that feeds the stack distance calculator (\<open>mem/probes/stack_dist.cc\<close>): every read and
  write request seen on a port is one access to its cache line.  A histogram is the list of its
  samples, the last one first.
\<close>

unbundle bit_operations_syntax

section \<open>Definitions\<close>

record packet_info =
  cmd_isRead :: bool
  cmd_isWrite :: bool
  pkt_addr :: addr

record sd_probe =
  lineSize :: uint32
  disableLinearHists :: bool
  disableLogHists :: bool
  calc :: sd_calc
  readLinearHist :: "nat list"
  readLogHist :: "nat list"
  writeLinearHist :: "nat list"
  writeLogHist :: "nat list"
  infiniteSD :: nat

definition newStackDistProbe :: "uint32 \<Rightarrow> uint32 \<Rightarrow> bool \<Rightarrow> bool \<Rightarrow> bool \<Rightarrow> sd_probe res" where
  "newStackDistProbe cacheLineSize line_size no_lin no_log verify =
     checkR Fatal (\<not> cacheLineSize > line_size)
       (Inr \<lparr>lineSize = line_size, disableLinearHists = no_lin, disableLogHists = no_log,
          calc = newStackDistCalc verify, readLinearHist = [], readLogHist = [], writeLinearHist = [],
          writeLogHist = [], infiniteSD = 0\<rparr>)"

definition sample_linear :: "bool \<Rightarrow> nat \<Rightarrow> sd_probe \<Rightarrow> sd_probe" where
  "sample_linear read sd p = (if disableLinearHists p then p
     else if read then p\<lparr>readLinearHist := sd # readLinearHist p\<rparr>
     else p\<lparr>writeLinearHist := sd # writeLinearHist p\<rparr>)"

definition sample_log :: "bool \<Rightarrow> nat \<Rightarrow> sd_probe \<Rightarrow> sd_probe res" where
  "sample_log read sd p = (if disableLogHists p then Inr p
     else bindR (if sd = 0 then Inr 1 else floorLog2 8 (of_nat sd)) (\<lambda>sd_lg2.
       Inr (if read then p\<lparr>readLogHist := sd_lg2 # readLogHist p\<rparr>
            else p\<lparr>writeLogHist := sd_lg2 # writeLogHist p\<rparr>)))"

definition sdp_handleRequest :: "packet_info \<Rightarrow> sd_probe \<Rightarrow> sd_probe res" where
  "sdp_handleRequest pkt p =
     (if \<not> cmd_isRead pkt \<and> \<not> cmd_isWrite pkt then Inr p
      else bindR (roundDown (pkt_addr pkt) (ucast (lineSize p))) (\<lambda>aligned_addr.
        bindR (calcStackDistAndUpdate aligned_addr True (calc p)) (\<lambda>(c, sd, _).
          let p1 = p\<lparr>calc := c\<rparr> in
          if sd = Infinity then Inr (p1\<lparr>infiniteSD := Suc (infiniteSD p1)\<rparr>)
          else sample_log (cmd_isRead pkt) sd (sample_linear (cmd_isRead pkt) sd p1))))"

primrec probe_run :: "packet_info list \<Rightarrow> sd_probe \<Rightarrow> sd_probe res" where
  "probe_run [] p = Inr p"
| "probe_run (x # xs) p = bindR (sdp_handleRequest x p) (probe_run xs)"

section \<open>Accounting\<close>

text \<open>The cache lines of the requests that count.\<close>

definition line_of :: "uint32 \<Rightarrow> packet_info \<Rightarrow> addr" where
  "line_of ls pkt = pkt_addr pkt AND NOT (ucast ls - 1)"

definition counts :: "packet_info \<Rightarrow> bool" where
  "counts pkt \<longleftrightarrow> cmd_isRead pkt \<or> cmd_isWrite pkt"

definition probe_inv :: "addr list \<Rightarrow> sd_probe \<Rightarrow> bool" where
  "probe_inv h p \<longleftrightarrow> sd_rep (calc p) (accessed h) \<and> sd_index (calc p) = length h \<and>
     isPowerOf2 (ucast (lineSize p)) \<and> infiniteSD p = card (set h) \<and>
     (\<not> disableLinearHists p \<longrightarrow> length (readLinearHist p) + length (writeLinearHist p) + infiniteSD p = length h) \<and>
     (\<not> disableLogHists p \<longrightarrow> length (readLogHist p) + length (writeLogHist p) + infiniteSD p = length h)"

lemma sample_log_ok:
  assumes "sd < 2 ^ 64"
  shows "\<exists>lg. sample_log read sd p = Inr (if disableLogHists p then p
    else if read then p\<lparr>readLogHist := lg # readLogHist p\<rparr> else p\<lparr>writeLogHist := lg # writeLogHist p\<rparr>)"
proof (cases "sd = 0")
  case False
  have u: "unat (of_nat sd :: uint64) = sd" using assms by (simp add: unat_of_nat)
  then have "(of_nat sd :: uint64) \<noteq> 0" using False by (metis unat_0)
  then have "floorLog2 8 (of_nat sd) = Inr (findMsbSet (of_nat sd))"
    by (rule floorLog2_findMsbSet) (use assms u in simp_all)
  then show ?thesis using False by (auto simp: sample_log_def)
qed (auto simp: sample_log_def)

lemma handleRequest_ok:
  assumes inv: "probe_inv h p" and len: "length h < 2 ^ 31" and pk: "counts pkt"
  obtains p' where "sdp_handleRequest pkt p = Inr p'" "probe_inv (line_of (lineSize p) pkt # h) p'" "lineSize p' = lineSize p"
    "disableLinearHists p' = disableLinearHists p" "disableLogHists p' = disableLogHists p"
proof -
  let ?a = "line_of (lineSize p) pkt"
  have rep: "sd_rep (calc p) (accessed h)" and N: "sd_index (calc p) = length h"
    and pow: "isPowerOf2 (ucast (lineSize p))" using inv by (simp_all add: probe_inv_def)
  have line: "roundDown (pkt_addr pkt) (ucast (lineSize p)) = Inr ?a"
    using pow by (simp add: roundDown_def line_of_def Let_def)
  have skip: "(\<not> cmd_isRead pkt \<and> \<not> cmd_isWrite pkt) = False" using pk by (auto simp: counts_def)
  have "sd_index (calc p) < 2 ^ 31" using len N by simp
  then obtain c' where c': "calcStackDistAndUpdate ?a True (calc p) = Inr (c', stack_result ?a (accessed h))"
    "sd_rep c' (accessed (?a # h))" "sd_index c' = Suc (length h)"
    using access_rep [OF rep, of ?a] N by auto
  show ?thesis
  proof (cases "?a \<in> set h")
    case False
    then have "sdp_handleRequest pkt p = Inr (p\<lparr>calc := c', infiniteSD := Suc (infiniteSD p)\<rparr>)"
      using c'(1) line unfolding sdp_handleRequest_def skip by (simp add: accessed_result)
    then show ?thesis using inv c' False that by (auto simp: probe_inv_def)
  next
    case True
    let ?d = "card (set (takeWhile (\<lambda>x. x \<noteq> ?a) h))" and ?p1 = "p\<lparr>calc := c'\<rparr>"
    have "?d \<le> length h" using card_length [of "takeWhile (\<lambda>x. x \<noteq> ?a) h"] length_takeWhile_le [of _ h] by (rule order_trans)
    then have d: "?d < 2 ^ 64" "?d \<noteq> Infinity" using len by (simp_all add: Infinity_def)
    obtain lg where lg: "sample_log (cmd_isRead pkt) ?d (sample_linear (cmd_isRead pkt) ?d ?p1) =
      Inr (if disableLogHists (sample_linear (cmd_isRead pkt) ?d ?p1) then sample_linear (cmd_isRead pkt) ?d ?p1
        else if cmd_isRead pkt then (sample_linear (cmd_isRead pkt) ?d ?p1)\<lparr>readLogHist := lg # readLogHist (sample_linear (cmd_isRead pkt) ?d ?p1)\<rparr>
        else (sample_linear (cmd_isRead pkt) ?d ?p1)\<lparr>writeLogHist := lg # writeLogHist (sample_linear (cmd_isRead pkt) ?d ?p1)\<rparr>)"
      using sample_log_ok [OF d(1)] by blast
    have "sdp_handleRequest pkt p = sample_log (cmd_isRead pkt) ?d (sample_linear (cmd_isRead pkt) ?d ?p1)"
      using c'(1) line True d(2) unfolding sdp_handleRequest_def skip by (simp add: accessed_result)
    from this [unfolded lg] show ?thesis
      by (rule that) (use inv c' True in \<open>auto simp: probe_inv_def sample_linear_def insert_absorb\<close>)
  qed
qed

lemma probe_run_ok:
  assumes "probe_inv h p" "length h + length pkts \<le> 2 ^ 31"
  shows "\<exists>p'. probe_run pkts p = Inr p' \<and> probe_inv (rev (map (line_of (lineSize p)) (filter counts pkts)) @ h) p' \<and>
    disableLinearHists p' = disableLinearHists p \<and> disableLogHists p' = disableLogHists p"
  using assms
proof (induction pkts arbitrary: h p)
  case (Cons x pkts)
  show ?case
  proof (cases "counts x")
    case True
    have "length h < 2 ^ 31" using Cons.prems(2) by simp
    then obtain p' where "sdp_handleRequest x p = Inr p'" "probe_inv (line_of (lineSize p) x # h) p'" "lineSize p' = lineSize p"
      "disableLinearHists p' = disableLinearHists p" "disableLogHists p' = disableLogHists p"
      by (rule handleRequest_ok [OF Cons.prems(1) _ True])
    then show ?thesis using Cons.IH [of "line_of (lineSize p) x # h" p'] Cons.prems(2) True by simp
  next
    case False
    then have "sdp_handleRequest x p = Inr p" by (simp add: sdp_handleRequest_def counts_def)
    then show ?thesis using Cons False by simp
  qed
qed simp

text \<open>
  C39. A probe whose line size is a power of two not below the system's counts every read and write
  request once and never fails, for up to \<open>2 ^ 31\<close> requests: the requests of infinite distance are as
  many as the different cache lines seen, and all others are in the enabled histograms.
\<close>

theorem probe_accounts_for_requests:
  assumes "cls \<le> ls" "isPowerOf2 (ucast ls)" "length pkts \<le> 2 ^ 31"
  shows "\<exists>p. bindR (newStackDistProbe cls ls no_lin no_log v) (probe_run pkts) = Inr p \<and>
    infiniteSD p = card (line_of ls ` set (filter counts pkts)) \<and>
    (\<not> no_lin \<longrightarrow> length (readLinearHist p) + length (writeLinearHist p) + infiniteSD p = length (filter counts pkts)) \<and>
    (\<not> no_log \<longrightarrow> length (readLogHist p) + length (writeLogHist p) + infiniteSD p = length (filter counts pkts))"
proof -
  let ?p0 = "\<lparr>lineSize = ls, disableLinearHists = no_lin, disableLogHists = no_log, calc = newStackDistCalc v,
    readLinearHist = [], readLogHist = [], writeLinearHist = [], writeLogHist = [], infiniteSD = 0\<rparr>"
  have new: "newStackDistProbe cls ls no_lin no_log v = Inr ?p0" using assms(1) by (simp add: newStackDistProbe_def not_less)
  have "sd_index (newStackDistCalc v) = 0" by (simp add: newStackDistCalc_def)
  then have "probe_inv [] ?p0" using assms(2) sd_rep_new [of v] by (simp add: probe_inv_def)
  from probe_run_ok [OF this, of pkts] assms(3)
  obtain p where "probe_run pkts ?p0 = Inr p" "probe_inv (rev (map (line_of ls) (filter counts pkts))) p"
    "disableLinearHists p = no_lin" "disableLogHists p = no_log" by auto
  then show ?thesis unfolding new by (auto simp: probe_inv_def simp flip: set_filter)
qed

theorem probe_accounts_for_requests_witness:
  "\<exists>p. bindR (newStackDistProbe 64 64 False False True) (probe_run
       [\<lparr>cmd_isRead = True, cmd_isWrite = False, pkt_addr = 0x1004\<rparr>, \<lparr>cmd_isRead = False, cmd_isWrite = True, pkt_addr = 0x1010\<rparr>,
        \<lparr>cmd_isRead = False, cmd_isWrite = False, pkt_addr = 0x2000\<rparr>, \<lparr>cmd_isRead = True, cmd_isWrite = False, pkt_addr = 0x1040\<rparr>]) = Inr p \<and>
     infiniteSD p = 2 \<and> length (readLinearHist p) + length (writeLinearHist p) = 1 \<and>
     length (readLogHist p) + length (writeLogHist p) = 1"
proof -
  let ?l = "[\<lparr>cmd_isRead = True, cmd_isWrite = False, pkt_addr = 0x1004\<rparr>, \<lparr>cmd_isRead = False, cmd_isWrite = True, pkt_addr = 0x1010\<rparr>,
        \<lparr>cmd_isRead = False, cmd_isWrite = False, pkt_addr = 0x2000\<rparr>, \<lparr>cmd_isRead = True, cmd_isWrite = False, pkt_addr = 0x1040\<rparr>]"
  have pow: "(64 :: uint32) \<le> 64" "isPowerOf2 (ucast (64 :: uint32))" by (simp_all add: isPowerOf2_def)
  have len: "length ?l \<le> 2 ^ 31" by simp
  have "card (line_of 64 ` set (filter counts ?l)) = 2" "length (filter counts ?l) = 3"
    by (simp_all add: counts_def line_of_def)
  then show ?thesis using probe_accounts_for_requests [OF pow len, of False False True] by auto
qed

text \<open>Distance 0 is sampled in the logarithmic bin of the distances 2 and 3, distance 1 in a bin below.\<close>

lemma log_bins:
  assumes "\<not> disableLogHists p"
  shows "sample_log True 0 p = Inr (p\<lparr>readLogHist := 1 # readLogHist p\<rparr>)"
    "sample_log True 1 p = Inr (p\<lparr>readLogHist := 0 # readLogHist p\<rparr>)"
    "sample_log True 3 p = Inr (p\<lparr>readLogHist := 1 # readLogHist p\<rparr>)"
  using assms by (simp_all add: sample_log_def floorLog2_def log_step_def)

end
