(* ===== verification/Mem_Cmd.thy ===== *)
theory Mem_Cmd
  imports Prelude
begin

text \<open>
  The commands of memory packets (class \<open>MemCmd\<close> of \<open>mem/packet.hh\<close>) and their table of attributes
  (\<open>mem/packet.cc\<close>).  The table is a list indexed by the number of the command, as the array of the
  code is; two of its rows belong to commands that were removed.
\<close>

section \<open>Commands and attributes\<close>

datatype command =
    InvalidCmd | ReadReq | ReadResp | ReadRespWithInvalidate | WriteReq | WriteResp |
    WriteCompleteResp | WritebackDirty | WritebackClean | WriteClean | CleanEvict | SoftPFReq |
    SoftPFExReq | HardPFReq | SoftPFResp | HardPFResp | WriteLineReq | UpgradeReq | SCUpgradeReq |
    UpgradeResp | SCUpgradeFailReq | UpgradeFailResp | ReadExReq | ReadExResp | ReadCleanReq |
    ReadSharedReq | LoadLockedReq | StoreCondReq | StoreCondFailReq | StoreCondResp |
    LockedRMWReadReq | LockedRMWReadResp | LockedRMWWriteReq | LockedRMWWriteResp | SwapReq |
    SwapResp | MemFenceReq | MemSyncReq | MemSyncResp | MemFenceResp | CleanSharedReq |
    CleanSharedResp | CleanInvalidReq | CleanInvalidResp | InvalidDestError | BadAddressError |
    ReadError | WriteError | FunctionalReadError | FunctionalWriteError | PrintReq | FlushReq |
    InvalidateReq | InvalidateResp | HTMReq | HTMReqResp | HTMAbort | TlbiExtSync

datatype attribute =
    IsRead | IsWrite | IsUpgrade | IsInvalidate | IsClean | NeedsWritable | IsRequest | IsResponse |
    NeedsResponse | IsEviction | IsSWPrefetch | IsHWPrefetch | IsLlsc | IsLockedRMW | HasData |
    IsError | IsPrint | IsFlush | FromCache

fun cmd_toInt :: "command \<Rightarrow> nat" where
  "cmd_toInt InvalidCmd = 0"
| "cmd_toInt ReadReq = 1"
| "cmd_toInt ReadResp = 2"
| "cmd_toInt ReadRespWithInvalidate = 3"
| "cmd_toInt WriteReq = 4"
| "cmd_toInt WriteResp = 5"
| "cmd_toInt WriteCompleteResp = 6"
| "cmd_toInt WritebackDirty = 7"
| "cmd_toInt WritebackClean = 8"
| "cmd_toInt WriteClean = 9"
| "cmd_toInt CleanEvict = 10"
| "cmd_toInt SoftPFReq = 11"
| "cmd_toInt SoftPFExReq = 12"
| "cmd_toInt HardPFReq = 13"
| "cmd_toInt SoftPFResp = 14"
| "cmd_toInt HardPFResp = 15"
| "cmd_toInt WriteLineReq = 16"
| "cmd_toInt UpgradeReq = 17"
| "cmd_toInt SCUpgradeReq = 18"
| "cmd_toInt UpgradeResp = 19"
| "cmd_toInt SCUpgradeFailReq = 20"
| "cmd_toInt UpgradeFailResp = 21"
| "cmd_toInt ReadExReq = 22"
| "cmd_toInt ReadExResp = 23"
| "cmd_toInt ReadCleanReq = 24"
| "cmd_toInt ReadSharedReq = 25"
| "cmd_toInt LoadLockedReq = 26"
| "cmd_toInt StoreCondReq = 27"
| "cmd_toInt StoreCondFailReq = 28"
| "cmd_toInt StoreCondResp = 29"
| "cmd_toInt LockedRMWReadReq = 30"
| "cmd_toInt LockedRMWReadResp = 31"
| "cmd_toInt LockedRMWWriteReq = 32"
| "cmd_toInt LockedRMWWriteResp = 33"
| "cmd_toInt SwapReq = 34"
| "cmd_toInt SwapResp = 35"
| "cmd_toInt MemFenceReq = 38"
| "cmd_toInt MemSyncReq = 39"
| "cmd_toInt MemSyncResp = 40"
| "cmd_toInt MemFenceResp = 41"
| "cmd_toInt CleanSharedReq = 42"
| "cmd_toInt CleanSharedResp = 43"
| "cmd_toInt CleanInvalidReq = 44"
| "cmd_toInt CleanInvalidResp = 45"
| "cmd_toInt InvalidDestError = 46"
| "cmd_toInt BadAddressError = 47"
| "cmd_toInt ReadError = 48"
| "cmd_toInt WriteError = 49"
| "cmd_toInt FunctionalReadError = 50"
| "cmd_toInt FunctionalWriteError = 51"
| "cmd_toInt PrintReq = 52"
| "cmd_toInt FlushReq = 53"
| "cmd_toInt InvalidateReq = 54"
| "cmd_toInt InvalidateResp = 55"
| "cmd_toInt HTMReq = 56"
| "cmd_toInt HTMReqResp = 57"
| "cmd_toInt HTMAbort = 58"
| "cmd_toInt TlbiExtSync = 59"

definition commandInfo :: "(attribute list \<times> command \<times> string) list" where
  "commandInfo = [
    ([], InvalidCmd, ''InvalidCmd''),
    ([IsRead, IsRequest, NeedsResponse], ReadResp, ''ReadReq''),
    ([IsRead, IsResponse, HasData], InvalidCmd, ''ReadResp''),
    ([IsRead, IsResponse, HasData, IsInvalidate], InvalidCmd, ''ReadRespWithInvalidate''),
    ([IsWrite, NeedsWritable, IsRequest, NeedsResponse, HasData], WriteResp, ''WriteReq''),
    ([IsWrite, IsResponse], InvalidCmd, ''WriteResp''),
    ([IsWrite, IsResponse], InvalidCmd, ''WriteCompleteResp''),
    ([IsWrite, IsRequest, IsEviction, HasData, FromCache], InvalidCmd, ''WritebackDirty''),
    ([IsWrite, IsRequest, IsEviction, HasData, FromCache], InvalidCmd, ''WritebackClean''),
    ([IsWrite, IsRequest, HasData, FromCache], InvalidCmd, ''WriteClean''),
    ([IsRequest, IsEviction, FromCache], InvalidCmd, ''CleanEvict''),
    ([IsRead, IsRequest, IsSWPrefetch, NeedsResponse], SoftPFResp, ''SoftPFReq''),
    ([IsRead, NeedsWritable, IsInvalidate, IsRequest, IsSWPrefetch, NeedsResponse], SoftPFResp, ''SoftPFExReq''),
    ([IsRead, IsRequest, IsHWPrefetch, NeedsResponse, FromCache], HardPFResp, ''HardPFReq''),
    ([IsRead, IsResponse, IsSWPrefetch, HasData], InvalidCmd, ''SoftPFResp''),
    ([IsRead, IsResponse, IsHWPrefetch, HasData], InvalidCmd, ''HardPFResp''),
    ([IsWrite, NeedsWritable, IsRequest, NeedsResponse, HasData], WriteResp, ''WriteLineReq''),
    ([IsInvalidate, NeedsWritable, IsUpgrade, IsRequest, NeedsResponse, FromCache], UpgradeResp, ''UpgradeReq''),
    ([IsInvalidate, NeedsWritable, IsUpgrade, IsLlsc, IsRequest, NeedsResponse, FromCache], UpgradeResp, ''SCUpgradeReq''),
    ([IsUpgrade, IsResponse], InvalidCmd, ''UpgradeResp''),
    ([IsRead, NeedsWritable, IsInvalidate, IsLlsc, IsRequest, NeedsResponse, FromCache], UpgradeFailResp, ''SCUpgradeFailReq''),
    ([IsRead, IsResponse, HasData], InvalidCmd, ''UpgradeFailResp''),
    ([IsRead, NeedsWritable, IsInvalidate, IsRequest, NeedsResponse, FromCache], ReadExResp, ''ReadExReq''),
    ([IsRead, IsResponse, HasData], InvalidCmd, ''ReadExResp''),
    ([IsRead, IsRequest, NeedsResponse, FromCache], ReadResp, ''ReadCleanReq''),
    ([IsRead, IsRequest, NeedsResponse, FromCache], ReadResp, ''ReadSharedReq''),
    ([IsRead, IsLlsc, IsRequest, NeedsResponse], ReadResp, ''LoadLockedReq''),
    ([IsWrite, NeedsWritable, IsLlsc, IsRequest, NeedsResponse, HasData], StoreCondResp, ''StoreCondReq''),
    ([IsWrite, NeedsWritable, IsLlsc, IsRequest, NeedsResponse, HasData], StoreCondResp, ''StoreCondFailReq''),
    ([IsWrite, IsLlsc, IsResponse], InvalidCmd, ''StoreCondResp''),
    ([IsRead, IsLockedRMW, NeedsWritable, IsRequest, NeedsResponse], LockedRMWReadResp, ''LockedRMWReadReq''),
    ([IsRead, IsLockedRMW, NeedsWritable, IsResponse, HasData], InvalidCmd, ''LockedRMWReadResp''),
    ([IsWrite, IsLockedRMW, NeedsWritable, IsRequest, NeedsResponse, HasData], LockedRMWWriteResp, ''LockedRMWWriteReq''),
    ([IsWrite, IsLockedRMW, NeedsWritable, IsResponse], InvalidCmd, ''LockedRMWWriteResp''),
    ([IsRead, IsWrite, NeedsWritable, IsRequest, HasData, NeedsResponse], SwapResp, ''SwapReq''),
    ([IsRead, IsWrite, IsResponse, HasData], InvalidCmd, ''SwapResp''),
    ([], InvalidCmd, ''Deprecated_MessageReq''),
    ([], InvalidCmd, ''Deprecated_MessageResp''),
    ([IsRequest, NeedsResponse], MemFenceResp, ''MemFenceReq''),
    ([IsRequest, NeedsResponse], MemSyncResp, ''MemSyncReq''),
    ([IsResponse], InvalidCmd, ''MemSyncResp''),
    ([IsResponse], InvalidCmd, ''MemFenceResp''),
    ([IsRequest, IsClean, NeedsResponse, FromCache], CleanSharedResp, ''CleanSharedReq''),
    ([IsResponse, IsClean], InvalidCmd, ''CleanSharedResp''),
    ([IsRequest, IsInvalidate, IsClean, NeedsResponse, FromCache], CleanInvalidResp, ''CleanInvalidReq''),
    ([IsResponse, IsInvalidate, IsClean], InvalidCmd, ''CleanInvalidResp''),
    ([IsResponse, IsError], InvalidCmd, ''InvalidDestError''),
    ([IsResponse, IsError], InvalidCmd, ''BadAddressError''),
    ([IsRead, IsResponse, IsError], InvalidCmd, ''ReadError''),
    ([IsWrite, IsResponse, IsError], InvalidCmd, ''WriteError''),
    ([IsRead, IsResponse, IsError], InvalidCmd, ''FunctionalReadError''),
    ([IsWrite, IsResponse, IsError], InvalidCmd, ''FunctionalWriteError''),
    ([IsRequest, IsPrint], InvalidCmd, ''PrintReq''),
    ([IsRequest, IsFlush, NeedsWritable], InvalidCmd, ''FlushReq''),
    ([IsInvalidate, IsRequest, NeedsWritable, NeedsResponse, FromCache], InvalidateResp, ''InvalidateReq''),
    ([IsInvalidate, IsResponse], InvalidCmd, ''InvalidateResp''),
    ([IsRead, IsRequest, NeedsResponse], HTMReqResp, ''HTMReq''),
    ([IsRead, IsResponse], InvalidCmd, ''HTMReqResp''),
    ([IsRead, IsRequest], InvalidCmd, ''HTMAbort''),
    ([IsRequest], InvalidCmd, ''TlbiExtSync'')]"

definition testCmdAttrib :: "command \<Rightarrow> attribute \<Rightarrow> bool" where
  "testCmdAttrib c a \<longleftrightarrow> a \<in> set (fst (commandInfo ! cmd_toInt c))"

definition responseCommand :: "command \<Rightarrow> command" where
  "responseCommand c = fst (snd (commandInfo ! cmd_toInt c))"

definition cmd_toString :: "command \<Rightarrow> string" where
  "cmd_toString c = snd (snd (commandInfo ! cmd_toInt c))"

definition cmd_isRead :: "command \<Rightarrow> bool" where
  "cmd_isRead c = testCmdAttrib c IsRead"

definition cmd_isWrite :: "command \<Rightarrow> bool" where
  "cmd_isWrite c = testCmdAttrib c IsWrite"

definition cmd_isUpgrade :: "command \<Rightarrow> bool" where
  "cmd_isUpgrade c = testCmdAttrib c IsUpgrade"

definition cmd_isRequest :: "command \<Rightarrow> bool" where
  "cmd_isRequest c = testCmdAttrib c IsRequest"

definition cmd_isResponse :: "command \<Rightarrow> bool" where
  "cmd_isResponse c = testCmdAttrib c IsResponse"

definition cmd_needsWritable :: "command \<Rightarrow> bool" where
  "cmd_needsWritable c = testCmdAttrib c NeedsWritable"

definition cmd_needsResponse :: "command \<Rightarrow> bool" where
  "cmd_needsResponse c = testCmdAttrib c NeedsResponse"

definition cmd_isInvalidate :: "command \<Rightarrow> bool" where
  "cmd_isInvalidate c = testCmdAttrib c IsInvalidate"

definition cmd_isEviction :: "command \<Rightarrow> bool" where
  "cmd_isEviction c = testCmdAttrib c IsEviction"

definition cmd_isClean :: "command \<Rightarrow> bool" where
  "cmd_isClean c = testCmdAttrib c IsClean"

definition cmd_fromCache :: "command \<Rightarrow> bool" where
  "cmd_fromCache c = testCmdAttrib c FromCache"

definition cmd_hasData :: "command \<Rightarrow> bool" where
  "cmd_hasData c = testCmdAttrib c HasData"

definition cmd_isLLSC :: "command \<Rightarrow> bool" where
  "cmd_isLLSC c = testCmdAttrib c IsLlsc"

definition cmd_isLockedRMW :: "command \<Rightarrow> bool" where
  "cmd_isLockedRMW c = testCmdAttrib c IsLockedRMW"

definition cmd_isSWPrefetch :: "command \<Rightarrow> bool" where
  "cmd_isSWPrefetch c = testCmdAttrib c IsSWPrefetch"

definition cmd_isHWPrefetch :: "command \<Rightarrow> bool" where
  "cmd_isHWPrefetch c = testCmdAttrib c IsHWPrefetch"

definition cmd_isError :: "command \<Rightarrow> bool" where
  "cmd_isError c = testCmdAttrib c IsError"

definition cmd_isPrint :: "command \<Rightarrow> bool" where
  "cmd_isPrint c = testCmdAttrib c IsPrint"

definition cmd_isFlush :: "command \<Rightarrow> bool" where
  "cmd_isFlush c = testCmdAttrib c IsFlush"

definition cmd_isWriteback :: "command \<Rightarrow> bool" where
  "cmd_isWriteback c \<longleftrightarrow> testCmdAttrib c IsEviction \<and> testCmdAttrib c HasData"

definition cmd_isPrefetch :: "command \<Rightarrow> bool" where
  "cmd_isPrefetch c \<longleftrightarrow> testCmdAttrib c IsSWPrefetch \<or> testCmdAttrib c IsHWPrefetch"

definition cmd_isDemand :: "command \<Rightarrow> bool" where
  "cmd_isDemand c \<longleftrightarrow> c \<in> {ReadReq, WriteReq, WriteLineReq, ReadExReq, ReadCleanReq, ReadSharedReq}"

lemmas cmd_preds = cmd_isRead_def cmd_isWrite_def cmd_isUpgrade_def cmd_isRequest_def cmd_isResponse_def
  cmd_needsWritable_def cmd_needsResponse_def cmd_isInvalidate_def cmd_isEviction_def cmd_isClean_def
  cmd_fromCache_def cmd_hasData_def cmd_isLLSC_def cmd_isLockedRMW_def cmd_isSWPrefetch_def
  cmd_isHWPrefetch_def cmd_isError_def cmd_isPrint_def cmd_isFlush_def cmd_isWriteback_def
  cmd_isPrefetch_def cmd_isDemand_def

section \<open>The discipline of the table\<close>

definition all_commands :: "command list" where
  "all_commands = [InvalidCmd, ReadReq, ReadResp, ReadRespWithInvalidate, WriteReq, WriteResp, WriteCompleteResp,
    WritebackDirty, WritebackClean, WriteClean, CleanEvict, SoftPFReq, SoftPFExReq, HardPFReq,
    SoftPFResp, HardPFResp, WriteLineReq, UpgradeReq, SCUpgradeReq, UpgradeResp, SCUpgradeFailReq,
    UpgradeFailResp, ReadExReq, ReadExResp, ReadCleanReq, ReadSharedReq, LoadLockedReq, StoreCondReq,
    StoreCondFailReq, StoreCondResp, LockedRMWReadReq, LockedRMWReadResp, LockedRMWWriteReq,
    LockedRMWWriteResp, SwapReq, SwapResp, MemFenceReq, MemSyncReq, MemSyncResp, MemFenceResp,
    CleanSharedReq, CleanSharedResp, CleanInvalidReq, CleanInvalidResp, InvalidDestError,
    BadAddressError, ReadError, WriteError, FunctionalReadError, FunctionalWriteError, PrintReq,
    FlushReq, InvalidateReq, InvalidateResp, HTMReq, HTMReqResp, HTMAbort, TlbiExtSync]"

lemma all_commands_complete: "c \<in> set all_commands"
  by (cases c) (simp_all add: all_commands_def)

lemma by_table: "list_all Q all_commands \<Longrightarrow> Q c"
  using all_commands_complete [of c] by (simp add: list_all_iff)

definition cmd_ok :: "command \<Rightarrow> bool" where
  "cmd_ok c \<longleftrightarrow> \<not> (cmd_isRequest c \<and> cmd_isResponse c) \<and>
     (if cmd_needsResponse c
      then cmd_isRequest c \<and> cmd_isResponse (responseCommand c) \<and> \<not> cmd_isError (responseCommand c) \<and>
           cmd_isRead (responseCommand c) = cmd_isRead c \<and> cmd_isWrite (responseCommand c) = cmd_isWrite c
      else responseCommand c = InvalidCmd) \<and>
     (cmd_isResponse c \<longrightarrow> \<not> cmd_fromCache c) \<and>
     (cmd_isEviction c \<longrightarrow> cmd_isRequest c \<and> \<not> cmd_needsResponse c \<and> cmd_fromCache c) \<and>
     (cmd_isRequest c \<and> cmd_isUpgrade c \<longrightarrow> cmd_needsWritable c \<and> \<not> cmd_hasData c) \<and>
     (cmd_isError c \<longrightarrow> cmd_isResponse c) \<and>
     (cmd_isDemand c \<longrightarrow> cmd_needsResponse c) \<and>
     (cmd_isRead c \<and> cmd_needsResponse c \<and> c \<noteq> HTMReq \<longrightarrow> cmd_hasData (responseCommand c))"

lemma cmd_ok: "cmd_ok c"
  by (rule by_table) code_simp

end
