(* ===== verification/Packet.thy ===== *)
theory Packet
  imports Mem_Cmd
begin

unbundle bit_operations_syntax

text \<open>
  Requests (\<open>mem/request.hh\<close>) and packets (\<open>mem/packet.hh\<close>) as far as the queues of a cache look at
  them: commands, flags, addresses and the stack of sender states.  The bytes a packet carries are
  not modelled, only the flags that say whether it has any.
\<close>

section \<open>Requests\<close>

record mem_request =
  rq_flags :: uint64
  rq_paddr :: "addr option"
  rq_size :: "uint32 option"
  rq_byteEnable :: "bool list"

definition any_set :: "'a :: len word \<Rightarrow> 'a word \<Rightarrow> bool" where
  "any_set f m \<longleftrightarrow> f AND m \<noteq> 0"

definition rq_isUncacheable :: "mem_request \<Rightarrow> bool" where
  "rq_isUncacheable r = any_set (rq_flags r) 0x400"

definition rq_isPrefetch :: "mem_request \<Rightarrow> bool" where
  "rq_isPrefetch r = any_set (rq_flags r) 0x03000000"

definition rq_isPrefetchEx :: "mem_request \<Rightarrow> bool" where
  "rq_isPrefetchEx r = any_set (rq_flags r) 0x02000000"

definition rq_isLLSC :: "mem_request \<Rightarrow> bool" where
  "rq_isLLSC r = any_set (rq_flags r) 0x00200000"

definition rq_isLockedRMW :: "mem_request \<Rightarrow> bool" where
  "rq_isLockedRMW r = any_set (rq_flags r) 0x00100000"

definition rq_isSwap :: "mem_request \<Rightarrow> bool" where
  "rq_isSwap r = any_set (rq_flags r) 0x00C00000"

definition rq_isSecure :: "mem_request \<Rightarrow> bool" where
  "rq_isSecure r = any_set (rq_flags r) 0x10000000"

definition rq_isAtomic :: "mem_request \<Rightarrow> bool" where
  "rq_isAtomic r \<longleftrightarrow> any_set (rq_flags r) 0x40000000 \<or> any_set (rq_flags r) 0x80000000"

definition rq_isHTMAbort :: "mem_request \<Rightarrow> bool" where
  "rq_isHTMAbort r = any_set (rq_flags r) 0x0000080000000000"

definition rq_isHTMCmd :: "mem_request \<Rightarrow> bool" where
  "rq_isHTMCmd r \<longleftrightarrow> any_set (rq_flags r) 0x0000010000000000 \<or> any_set (rq_flags r) 0x0000020000000000 \<or>
     any_set (rq_flags r) 0x0000040000000000 \<or> rq_isHTMAbort r"

definition rq_isCacheClean :: "mem_request \<Rightarrow> bool" where
  "rq_isCacheClean r = any_set (rq_flags r) 0x0000000200000000"

definition rq_isCacheInvalidate :: "mem_request \<Rightarrow> bool" where
  "rq_isCacheInvalidate r = any_set (rq_flags r) 0x0000000100000000"

definition rq_isCacheMaintenance :: "mem_request \<Rightarrow> bool" where
  "rq_isCacheMaintenance r = any_set (rq_flags r) 0x0000000300000000"

definition rq_isMasked :: "mem_request \<Rightarrow> bool" where
  "rq_isMasked r \<longleftrightarrow> False \<in> set (rq_byteEnable r)"

section \<open>Packets\<close>

text \<open>A sender state is a miss status register, named by its number, or any other object.\<close>

datatype sender_state = SenderMSHR nat | SenderOther

record packet =
  pkt_cmd :: command
  pkt_flags :: uint32
  pkt_id :: nat
  pkt_req :: mem_request
  pkt_addr :: addr
  pkt_secure :: bool
  pkt_size :: uint32
  pkt_senders :: "sender_state list"

definition HAS_SHARERS :: uint32 where "HAS_SHARERS = 0x1"
definition EXPRESS_SNOOP :: uint32 where "EXPRESS_SNOOP = 0x2"
definition RESPONDER_HAD_WRITABLE :: uint32 where "RESPONDER_HAD_WRITABLE = 0x4"
definition CACHE_RESPONDING :: uint32 where "CACHE_RESPONDING = 0x8"
definition SATISFIED :: uint32 where "SATISFIED = 0x20"
definition COPY_FLAGS :: uint32 where "COPY_FLAGS = 0xFF"
definition RESPONDER_FLAGS :: uint32 where "RESPONDER_FLAGS = 0x9"
definition VALID_ADDR :: uint32 where "VALID_ADDR = 0x100"
definition VALID_SIZE :: uint32 where "VALID_SIZE = 0x200"
definition STATIC_DATA :: uint32 where "STATIC_DATA = 0x1000"
definition DYNAMIC_DATA :: uint32 where "DYNAMIC_DATA = 0x2000"

lemmas pkt_flag_defs = HAS_SHARERS_def EXPRESS_SNOOP_def RESPONDER_HAD_WRITABLE_def CACHE_RESPONDING_def
  SATISFIED_def COPY_FLAGS_def RESPONDER_FLAGS_def VALID_ADDR_def VALID_SIZE_def STATIC_DATA_def DYNAMIC_DATA_def

definition pkt_isSet :: "packet \<Rightarrow> uint32 \<Rightarrow> bool" where
  "pkt_isSet p m = any_set (pkt_flags p) m"

definition pkt_set :: "uint32 \<Rightarrow> packet \<Rightarrow> packet" where
  "pkt_set m p = p\<lparr>pkt_flags := pkt_flags p OR m\<rparr>"

definition pkt_clear :: "uint32 \<Rightarrow> packet \<Rightarrow> packet" where
  "pkt_clear m p = p\<lparr>pkt_flags := pkt_flags p AND NOT m\<rparr>"

definition pkt_needsWritable :: "packet \<Rightarrow> bool res" where
  "pkt_needsWritable p = checkR AssertFail (cmd_isRequest (pkt_cmd p)) (Inr (cmd_needsWritable (pkt_cmd p)))"

definition pkt_hasRespData :: "packet \<Rightarrow> bool" where
  "pkt_hasRespData p = cmd_hasData (responseCommand (pkt_cmd p))"

definition pkt_isMaskedWrite :: "packet \<Rightarrow> bool" where
  "pkt_isMaskedWrite p \<longleftrightarrow> pkt_cmd p = WriteReq \<and> rq_isMasked (pkt_req p)"

definition pkt_getAddr :: "packet \<Rightarrow> addr res" where
  "pkt_getAddr p = checkR AssertFail (pkt_isSet p VALID_ADDR) (Inr (pkt_addr p))"

definition pkt_getSize :: "packet \<Rightarrow> uint32 res" where
  "pkt_getSize p = checkR AssertFail (pkt_isSet p VALID_SIZE) (Inr (pkt_size p))"

definition pkt_isSecure :: "packet \<Rightarrow> bool res" where
  "pkt_isSecure p = checkR AssertFail (pkt_isSet p VALID_ADDR) (Inr (pkt_secure p))"

definition pkt_getOffset :: "uint32 \<Rightarrow> packet \<Rightarrow> addr res" where
  "pkt_getOffset blk_size p = bindR (pkt_getAddr p) (\<lambda>a. Inr (a AND ucast (blk_size - 1)))"

definition pkt_getBlockAddr :: "uint32 \<Rightarrow> packet \<Rightarrow> addr res" where
  "pkt_getBlockAddr blk_size p = bindR (pkt_getAddr p) (\<lambda>a. Inr (a AND NOT (ucast (blk_size - 1))))"

definition pkt_isWholeLineWrite :: "uint32 \<Rightarrow> packet \<Rightarrow> bool res" where
  "pkt_isWholeLineWrite blk_size p =
     (if pkt_cmd p = WriteReq \<or> pkt_cmd p = WriteLineReq
      then bindR (pkt_getOffset blk_size p) (\<lambda>off.
        if off = 0 then bindR (pkt_getSize p) (\<lambda>s. Inr (s = blk_size \<and> \<not> pkt_isMaskedWrite p)) else Inr False)
      else Inr False)"

definition pkt_matchBlockAddr :: "addr \<Rightarrow> bool \<Rightarrow> uint32 \<Rightarrow> packet \<Rightarrow> bool res" where
  "pkt_matchBlockAddr a is_secure blk_size p =
     bindR (pkt_getBlockAddr blk_size p) (\<lambda>b.
       if b = a then bindR (pkt_isSecure p) (\<lambda>s. Inr (s = is_secure)) else Inr False)"

definition pkt_matchBlock :: "packet \<Rightarrow> uint32 \<Rightarrow> packet \<Rightarrow> bool res" where
  "pkt_matchBlock other blk_size p =
     bindR (pkt_getBlockAddr blk_size other) (\<lambda>a. bindR (pkt_isSecure other) (\<lambda>s.
     pkt_matchBlockAddr a s blk_size p))"

definition pkt_matchAddr :: "addr \<Rightarrow> bool \<Rightarrow> packet \<Rightarrow> bool res" where
  "pkt_matchAddr a is_secure p =
     bindR (pkt_getAddr p) (\<lambda>b. if b = a then bindR (pkt_isSecure p) (\<lambda>s. Inr (s = is_secure)) else Inr False)"

section \<open>Coherence flags\<close>

definition setCacheResponding :: "packet \<Rightarrow> packet res" where
  "setCacheResponding p = checkR AssertFail (cmd_isRequest (pkt_cmd p))
     (checkR AssertFail (\<not> pkt_isSet p CACHE_RESPONDING) (Inr (pkt_set CACHE_RESPONDING p)))"

definition setResponderHadWritable :: "packet \<Rightarrow> packet res" where
  "setResponderHadWritable p = checkR AssertFail (pkt_isSet p CACHE_RESPONDING)
     (checkR AssertFail (\<not> pkt_isSet p RESPONDER_HAD_WRITABLE) (Inr (pkt_set RESPONDER_HAD_WRITABLE p)))"

definition setSatisfied :: "packet \<Rightarrow> packet res" where
  "setSatisfied p = checkR AssertFail (cmd_isClean (pkt_cmd p))
     (checkR AssertFail (\<not> pkt_isSet p SATISFIED) (Inr (pkt_set SATISFIED p)))"

definition setHasSharers :: "packet \<Rightarrow> packet" where
  "setHasSharers p = pkt_set HAS_SHARERS p"

definition copyResponderFlags :: "packet \<Rightarrow> packet \<Rightarrow> packet res" where
  "copyResponderFlags other p = checkR AssertFail (cmd_isRequest (pkt_cmd p))
     (checkR AssertFail (\<not> pkt_isSet other CACHE_RESPONDING \<or> \<not> pkt_isSet p CACHE_RESPONDING)
       (Inr (pkt_set (pkt_flags other AND RESPONDER_FLAGS) p)))"

section \<open>Construction and conversion\<close>

definition pkt_allocate :: "packet \<Rightarrow> packet res" where
  "pkt_allocate p = (if cmd_hasData (pkt_cmd p) \<or> pkt_hasRespData p
     then checkR AssertFail (\<not> pkt_isSet p (STATIC_DATA OR DYNAMIC_DATA))
       (bindR (pkt_getSize (pkt_set DYNAMIC_DATA p)) (\<lambda>_. Inr (pkt_set DYNAMIC_DATA p)))
     else Inr p)"

text \<open>
  The constructors.  An identifier that is not given is the address of the request, here \<open>rid\<close>.  The
  block size of the second constructor is an \<open>int\<close> whose complement is sign-extended.
\<close>

definition newPacket :: "nat \<Rightarrow> mem_request \<Rightarrow> command \<Rightarrow> packet res" where
  "newPacket rid r c =
     (let p = \<lparr>pkt_cmd = c, pkt_flags = 0, pkt_id = rid, pkt_req = r, pkt_addr = 0, pkt_secure = False,
               pkt_size = 0, pkt_senders = []\<rparr>;
          p1 = (case rq_paddr r of None \<Rightarrow> p
            | Some a \<Rightarrow> pkt_set VALID_ADDR (p\<lparr>pkt_addr := a, pkt_secure := rq_isSecure r\<rparr>));
          p2 = (if rq_isHTMCmd r then pkt_set VALID_ADDR p1 else p1);
          p3 = (case rq_size r of None \<Rightarrow> p2 | Some s \<Rightarrow> pkt_set VALID_SIZE (p2\<lparr>pkt_size := s\<rparr>))
      in checkR AssertFail (rq_isHTMCmd r \<longrightarrow> pkt_addr p1 = 0) (Inr p3))"

definition newPacketBlk :: "nat \<Rightarrow> mem_request \<Rightarrow> command \<Rightarrow> int \<Rightarrow> nat \<Rightarrow> packet" where
  "newPacketBlk rid r c blkSize i =
     (let p = \<lparr>pkt_cmd = c, pkt_flags = 0, pkt_id = (if i \<noteq> 0 then i else rid), pkt_req = r, pkt_addr = 0,
               pkt_secure = False, pkt_size = 0, pkt_senders = []\<rparr>;
          p1 = (case rq_paddr r of None \<Rightarrow> p
            | Some a \<Rightarrow> pkt_set VALID_ADDR
                (p\<lparr>pkt_addr := a AND word_of_int (NOT (blkSize - 1)), pkt_secure := rq_isSecure r\<rparr>))
      in pkt_set VALID_SIZE (p1\<lparr>pkt_size := word_of_int blkSize\<rparr>))"

definition copyPacket :: "packet \<Rightarrow> bool \<Rightarrow> bool \<Rightarrow> packet res" where
  "copyPacket p clear_flags alloc_data =
     (let q = p\<lparr>pkt_flags := (if clear_flags then 0 else pkt_flags p AND COPY_FLAGS) OR
                  pkt_flags p AND (VALID_ADDR OR VALID_SIZE) OR pkt_flags p AND 0xC0\<rparr>
      in if alloc_data
         then if pkt_isSet p STATIC_DATA then Inr (pkt_set STATIC_DATA q) else pkt_allocate q
         else Inr q)"

definition makeReadCmd :: "mem_request \<Rightarrow> command" where
  "makeReadCmd r =
     (if rq_isHTMCmd r then (if rq_isHTMAbort r then HTMAbort else HTMReq)
      else if rq_isLLSC r then LoadLockedReq
      else if rq_isPrefetchEx r then SoftPFExReq
      else if rq_isPrefetch r then SoftPFReq
      else if rq_isLockedRMW r then LockedRMWReadReq
      else ReadReq)"

definition makeWriteCmd :: "mem_request \<Rightarrow> command" where
  "makeWriteCmd r =
     (if rq_isLLSC r then StoreCondReq
      else if rq_isSwap r \<or> rq_isAtomic r then SwapReq
      else if rq_isCacheInvalidate r then (if rq_isCacheClean r then CleanInvalidReq else InvalidateReq)
      else if rq_isCacheClean r then CleanSharedReq
      else if rq_isLockedRMW r then LockedRMWWriteReq
      else WriteReq)"

definition createRead :: "nat \<Rightarrow> mem_request \<Rightarrow> packet res" where
  "createRead rid r = newPacket rid r (makeReadCmd r)"

definition createWrite :: "nat \<Rightarrow> mem_request \<Rightarrow> packet res" where
  "createWrite rid r = newPacket rid r (makeWriteCmd r)"

definition makeResponse :: "packet \<Rightarrow> packet res" where
  "makeResponse p = checkR AssertFail (cmd_needsResponse (pkt_cmd p)) (checkR AssertFail (cmd_isRequest (pkt_cmd p))
     (Inr (pkt_clear EXPRESS_SNOOP (p\<lparr>pkt_cmd := responseCommand (pkt_cmd p)\<rparr>))))"

definition convertScToWrite :: "packet \<Rightarrow> packet res" where
  "convertScToWrite p = checkR AssertFail (cmd_isLLSC (pkt_cmd p)) (checkR AssertFail (cmd_isWrite (pkt_cmd p))
     (Inr (p\<lparr>pkt_cmd := WriteReq\<rparr>)))"

definition convertLlToRead :: "packet \<Rightarrow> packet res" where
  "convertLlToRead p = checkR AssertFail (cmd_isLLSC (pkt_cmd p)) (checkR AssertFail (cmd_isRead (pkt_cmd p))
     (Inr (p\<lparr>pkt_cmd := ReadReq\<rparr>)))"

definition setBadAddress :: "packet \<Rightarrow> packet res" where
  "setBadAddress p = checkR AssertFail (cmd_isResponse (pkt_cmd p)) (Inr (p\<lparr>pkt_cmd := BadAddressError\<rparr>))"

definition setBadCommand :: "packet \<Rightarrow> packet res" where
  "setBadCommand p = checkR AssertFail (cmd_isResponse (pkt_cmd p))
     (Inr (p\<lparr>pkt_cmd := (if cmd_isWrite (pkt_cmd p) then WriteError else ReadError)\<rparr>))"

definition setFunctionalResponseStatus :: "bool \<Rightarrow> packet \<Rightarrow> packet" where
  "setFunctionalResponseStatus success p =
     (if success then p
      else p\<lparr>pkt_cmd := (if cmd_isWrite (pkt_cmd p) then FunctionalWriteError else FunctionalReadError)\<rparr>)"

section \<open>Sender states\<close>

definition pushSenderState :: "sender_state \<Rightarrow> packet \<Rightarrow> packet" where
  "pushSenderState s p = p\<lparr>pkt_senders := s # pkt_senders p\<rparr>"

definition popSenderState :: "packet \<Rightarrow> (sender_state \<times> packet) res" where
  "popSenderState p = (case pkt_senders p of [] \<Rightarrow> Inl AssertFail | s # ss \<Rightarrow> Inr (s, p\<lparr>pkt_senders := ss\<rparr>))"

fun find_mshr :: "sender_state list \<Rightarrow> nat option" where
  "find_mshr [] = None"
| "find_mshr (SenderMSHR m # ss) = Some m"
| "find_mshr (SenderOther # ss) = find_mshr ss"

definition findNextSenderState :: "packet \<Rightarrow> nat option" where
  "findNextSenderState p = find_mshr (pkt_senders p)"

section \<open>Types of packets\<close>

lemma read_write_cmds: "cmd_isRequest (makeReadCmd r)" "cmd_isRequest (makeWriteCmd r)"
    "makeReadCmd r \<noteq> HTMAbort \<Longrightarrow> cmd_needsResponse (makeReadCmd r)" "cmd_needsResponse (makeWriteCmd r)"
    "makeWriteCmd r \<noteq> HTMAbort"
  by (auto simp: makeReadCmd_def makeWriteCmd_def cmd_preds testCmdAttrib_def commandInfo_def)

lemma newPacket_cmd: "newPacket rid r c = Inr p \<Longrightarrow> pkt_cmd p = c \<and> pkt_req p = r"
  by (auto simp: newPacket_def Let_def pkt_set_def res_simps split: option.splits if_splits)

text \<open>
  C20. Packets made for a read or a write are requests.  Each of them except the abort of a hardware
  transaction can be turned into a response: a packet of the direction, request, address, size and
  senders of the first one, that is never an express snoop and cannot be turned into a response again.
\<close>

theorem packet_response_typed:
  assumes "createRead rid r = Inr p \<or> createWrite rid r = Inr p"
  shows "cmd_isRequest (pkt_cmd p) \<and> (pkt_cmd p \<noteq> HTMAbort \<longrightarrow>
    (\<exists>q. makeResponse p = Inr q \<and> cmd_isResponse (pkt_cmd q) \<and> \<not> cmd_isError (pkt_cmd q) \<and>
      cmd_isRead (pkt_cmd q) = cmd_isRead (pkt_cmd p) \<and> cmd_isWrite (pkt_cmd q) = cmd_isWrite (pkt_cmd p) \<and>
      pkt_req q = pkt_req p \<and> pkt_addr q = pkt_addr p \<and> pkt_size q = pkt_size p \<and> pkt_senders q = pkt_senders p \<and>
      \<not> pkt_isSet q EXPRESS_SNOOP \<and> makeResponse q = Inl AssertFail))"
proof -
  have c: "pkt_cmd p = makeReadCmd r \<or> pkt_cmd p = makeWriteCmd r"
    using assms newPacket_cmd unfolding createRead_def createWrite_def by blast
  then have req: "cmd_isRequest (pkt_cmd p)" and resp: "pkt_cmd p \<noteq> HTMAbort \<longrightarrow> cmd_needsResponse (pkt_cmd p)"
    using read_write_cmds [of r] by auto
  let ?c = "responseCommand (pkt_cmd p)"
  have ok: "cmd_isResponse ?c \<and> \<not> cmd_isError ?c \<and> cmd_isRead ?c = cmd_isRead (pkt_cmd p) \<and>
      cmd_isWrite ?c = cmd_isWrite (pkt_cmd p)" if "cmd_needsResponse (pkt_cmd p)"
    using cmd_ok [of "pkt_cmd p"] that by (simp add: cmd_ok_def)
  have last: "\<not> cmd_needsResponse ?c" if "cmd_needsResponse (pkt_cmd p)"
    using cmd_ok [of ?c] ok [OF that] by (auto simp: cmd_ok_def)
  have "(x AND NOT EXPRESS_SNOOP) AND EXPRESS_SNOOP = 0" for x by (simp add: and.assoc)
  then show ?thesis using req resp ok last
    by (simp add: makeResponse_def pkt_clear_def pkt_isSet_def any_set_def)
qed

theorem packet_response_typed_witness:
  "\<exists>p q. createWrite 7 \<lparr>rq_flags = 0x200000, rq_paddr = Some 0x1000, rq_size = Some 8, rq_byteEnable = []\<rparr> = Inr p \<and>
     pkt_cmd p = StoreCondReq \<and> makeResponse p = Inr q \<and> cmd_isResponse (pkt_cmd q) \<and> cmd_isWrite (pkt_cmd q)"
proof -
  let ?r = "\<lparr>rq_flags = 0x200000, rq_paddr = Some 0x1000, rq_size = Some 8, rq_byteEnable = []\<rparr>"
  obtain p where p: "createWrite 7 ?r = Inr p"
    by (simp add: createWrite_def newPacket_def rq_isHTMCmd_def rq_isHTMAbort_def any_set_def Let_def)
  then have "pkt_cmd p = StoreCondReq"
    using newPacket_cmd by (auto simp: createWrite_def makeWriteCmd_def rq_isLLSC_def any_set_def)
  moreover have "cmd_isWrite StoreCondReq" by (simp add: cmd_preds testCmdAttrib_def commandInfo_def)
  ultimately show ?thesis using packet_response_typed [of 7 ?r p] p by auto
qed

end
