(* ===== verification/Mshr.thy ===== *)
theory Mshr
  imports Packet
begin

unbundle bit_operations_syntax

text \<open>
  Miss status registers (\<open>mem/cache/mshr.cc\<close> and \<open>queue_entry.hh\<close>): a register collects the requests,
  its targets, that wait for one cache block.  Packets and registers are objects in a store, named by
  numbers, because targets share packets with the rest of the system and a register marks the
  registers of the caches above it, which it finds through the sender states of the packets.
\<close>

section \<open>Data\<close>

record queue_entry =
  qe_readyTime :: tick
  qe_isUncacheable :: bool
  qe_inService :: bool
  qe_order :: int
  qe_blkAddr :: addr
  qe_blkSize :: uint32
  qe_isSecure :: bool

datatype source = FromCPU | FromSnoop | FromPrefetcher

record target =
  t_recvTime :: tick
  t_readyTime :: tick
  t_order :: int
  t_pkt :: nat
  t_source :: source
  t_markedPending :: bool
  t_allocOnFill :: bool

record target_list =
  tl_targets :: "target list"
  tl_needsWritable :: bool
  tl_hasUpgrade :: bool
  tl_allocOnFill :: bool
  tl_hasFromCache :: bool
  tl_blkAddr :: addr
  tl_blkSize :: addr
  tl_canMergeWrites :: bool
  tl_writesBitmap :: "bool list"

record mshr = queue_entry +
  downstreamPending :: bool
  pendingModified :: bool
  postInvalidate :: bool
  postDowngrade :: bool
  wasWholeLineWrite :: bool
  isForward :: bool
  m_targets :: target_list
  m_deferred :: target_list

record mem_heap =
  h_pkts :: "nat \<rightharpoonup> packet"
  h_mshrs :: "nat \<rightharpoonup> mshr"

definition pkt_at :: "mem_heap \<Rightarrow> nat \<Rightarrow> packet res" where
  "pkt_at h p = (case h_pkts h p of None \<Rightarrow> Inl UseAfterFree | Some x \<Rightarrow> Inr x)"

definition mshr_at :: "mem_heap \<Rightarrow> nat \<Rightarrow> mshr res" where
  "mshr_at h m = (case h_mshrs h m of None \<Rightarrow> Inl UseAfterFree | Some x \<Rightarrow> Inr x)"

definition put_pkt :: "nat \<Rightarrow> packet \<Rightarrow> mem_heap \<Rightarrow> mem_heap" where
  "put_pkt p x h = h\<lparr>h_pkts := (h_pkts h)(p \<mapsto> x)\<rparr>"

definition upd_mshr :: "nat \<Rightarrow> (mshr \<Rightarrow> mshr) \<Rightarrow> mem_heap \<Rightarrow> mem_heap" where
  "upd_mshr m f h = h\<lparr>h_mshrs := (h_mshrs h)(m := map_option f (h_mshrs h m))\<rparr>"

text \<open>The constructors leave the fields \<open>blkAddr\<close>, \<open>blkSize\<close> and \<open>canMergeWrites\<close> unset.\<close>

definition newTargetList :: "addr \<Rightarrow> addr \<Rightarrow> bool \<Rightarrow> target_list" where
  "newTargetList a s b = \<lparr>tl_targets = [], tl_needsWritable = False, tl_hasUpgrade = False, tl_allocOnFill = False,
     tl_hasFromCache = False, tl_blkAddr = a, tl_blkSize = s, tl_canMergeWrites = b, tl_writesBitmap = []\<rparr>"

definition newMSHR :: "target_list \<Rightarrow> target_list \<Rightarrow> mshr" where
  "newMSHR ts ds = \<lparr>qe_readyTime = 0, qe_isUncacheable = False, qe_inService = False, qe_order = 0, qe_blkAddr = 0,
     qe_blkSize = 0, qe_isSecure = False, downstreamPending = False, pendingModified = False,
     postInvalidate = False, postDowngrade = False, wasWholeLineWrite = False, isForward = False,
     m_targets = ts, m_deferred = ds\<rparr>"

section \<open>Target lists\<close>

definition tl_isWholeLineWrite :: "target_list \<Rightarrow> bool" where
  "tl_isWholeLineWrite L = list_all (\<lambda>b. b) (tl_writesBitmap L)"

definition resetFlags :: "target_list \<Rightarrow> target_list" where
  "resetFlags L = L\<lparr>tl_canMergeWrites := True, tl_writesBitmap := map (\<lambda>_. False) (tl_writesBitmap L),
     tl_needsWritable := False, tl_hasUpgrade := False, tl_allocOnFill := False, tl_hasFromCache := False\<rparr>"

definition tl_init :: "addr \<Rightarrow> addr \<Rightarrow> target_list \<Rightarrow> target_list" where
  "tl_init blk_addr blk_size L = resetFlags (L\<lparr>tl_blkAddr := blk_addr, tl_blkSize := blk_size,
     tl_writesBitmap := vec_resize (unat blk_size) False (tl_writesBitmap L)\<rparr>)"

definition isReset :: "target_list \<Rightarrow> bool" where
  "isReset L \<longleftrightarrow> \<not> tl_needsWritable L \<and> \<not> tl_hasUpgrade L \<and> \<not> tl_allocOnFill L \<and> \<not> tl_hasFromCache L \<and>
     tl_canMergeWrites L"

definition no_merge_flags :: uint64 where
  "no_merge_flags = 0x400 OR 0x800 OR 0x8000 OR 0x200000 OR 0x400000 OR 0x800000 OR 0x10000000 OR 0x100000"

definition fill_bitmap :: "nat \<Rightarrow> nat \<Rightarrow> bool list \<Rightarrow> bool list res" where
  "fill_bitmap offset n bm = checkR OutOfRange (offset + n \<le> length bm)
     (Inr (take offset bm @ replicate n True @ drop (offset + n) bm))"

definition updateWriteFlags :: "packet \<Rightarrow> target_list \<Rightarrow> target_list res" where
  "updateWriteFlags p L =
     (if tl_isWholeLineWrite L then Inr L
      else if tl_canMergeWrites L then
        if \<not> cmd_isWrite (pkt_cmd p) then Inr (L\<lparr>tl_canMergeWrites := False\<rparr>)
        else
          let compat_write = \<not> any_set (rq_flags (pkt_req p)) no_merge_flags;
              masked_write = pkt_isMaskedWrite p;
              first_write = (tl_targets L = [])
          in bindR (if \<not> masked_write \<and> (first_write \<or> compat_write)
                    then bindR (pkt_getOffset (ucast (tl_blkSize L)) p) (\<lambda>offset.
                         bindR (pkt_getSize p) (\<lambda>size.
                         fill_bitmap (unat offset) (unat size) (tl_writesBitmap L)))
                    else Inr (tl_writesBitmap L))
               (\<lambda>bm. Inr (L\<lparr>tl_writesBitmap := bm, tl_canMergeWrites := compat_write\<rparr>))
      else Inr L)"

definition updateFlags :: "packet \<Rightarrow> source \<Rightarrow> bool \<Rightarrow> target_list \<Rightarrow> target_list res" where
  "updateFlags p src alloc_on_fill L =
     (if src = FromSnoop then Inr L
      else bindR (pkt_needsWritable p) (\<lambda>nw.
        let L1 = (if nw then L\<lparr>tl_needsWritable := True\<rparr> else L);
            L2 = (if cmd_isUpgrade (pkt_cmd p) \<or> pkt_cmd p = StoreCondReq then L1\<lparr>tl_hasUpgrade := True\<rparr> else L1);
            L3 = L2\<lparr>tl_allocOnFill := tl_allocOnFill L2 \<or> alloc_on_fill\<rparr>
        in if src \<noteq> FromPrefetcher
           then updateWriteFlags p (L3\<lparr>tl_hasFromCache := tl_hasFromCache L3 \<or> cmd_fromCache (pkt_cmd p)\<rparr>)
           else Inr L3))"

fun populate_loop :: "mem_heap \<Rightarrow> target list \<Rightarrow> target_list \<Rightarrow> target_list res" where
  "populate_loop h [] L = Inr L"
| "populate_loop h (t # ts) L =
     bindR (pkt_at h (t_pkt t)) (\<lambda>p. bindR (updateFlags p (t_source t) (t_allocOnFill t) L) (populate_loop h ts))"

definition populateFlags :: "mem_heap \<Rightarrow> target_list \<Rightarrow> target_list res" where
  "populateFlags h L = populate_loop h (tl_targets L) (resetFlags L)"

definition mark_pending :: "packet \<Rightarrow> mem_heap \<Rightarrow> (mem_heap \<times> bool) res" where
  "mark_pending p h = (case findNextSenderState p of
     None \<Rightarrow> Inr (h, False)
   | Some m \<Rightarrow> bindR (mshr_at h m) (\<lambda>x. checkR AssertFail (\<not> downstreamPending x)
       (Inr (upd_mshr m (\<lambda>y. y\<lparr>downstreamPending := True\<rparr>) h, True))))"

definition tl_add ::
  "tick \<Rightarrow> nat \<Rightarrow> tick \<Rightarrow> int \<Rightarrow> source \<Rightarrow> bool \<Rightarrow> bool \<Rightarrow> mem_heap \<times> target_list \<Rightarrow> (mem_heap \<times> target_list) res" where
  "tl_add now pp ready order src markPending alloc_on_fill ht = (case ht of (h, L) \<Rightarrow>
     bindR (pkt_at h pp) (\<lambda>p. bindR (updateFlags p src alloc_on_fill L) (\<lambda>L1.
     bindR (if markPending then mark_pending p h else Inr (h, False)) (\<lambda>(h1, mk).
     Inr (h1, L1\<lparr>tl_targets := tl_targets L1 @
       [\<lparr>t_recvTime = now, t_readyTime = ready, t_order = order, t_pkt = pp, t_source = src, t_markedPending = mk,
         t_allocOnFill = alloc_on_fill\<rparr>]\<rparr>)))))"

definition replaceUpgrade :: "packet \<Rightarrow> packet res" where
  "replaceUpgrade p =
     (let has_data = (cmd_hasData (pkt_cmd p) \<or> pkt_hasRespData p);
          q = (if pkt_cmd p = UpgradeReq then p\<lparr>pkt_cmd := ReadExReq\<rparr>
               else if pkt_cmd p = SCUpgradeReq then p\<lparr>pkt_cmd := SCUpgradeFailReq\<rparr>
               else if pkt_cmd p = StoreCondReq then p\<lparr>pkt_cmd := StoreCondFailReq\<rparr> else p)
      in if has_data then Inr q
         else checkR AssertFail (\<not> cmd_hasData (pkt_cmd q)) (if pkt_hasRespData q then pkt_allocate q else Inr q))"

fun replace_loop :: "target list \<Rightarrow> mem_heap \<Rightarrow> mem_heap res" where
  "replace_loop [] h = Inr h"
| "replace_loop (t # ts) h =
     bindR (pkt_at h (t_pkt t)) (\<lambda>p. bindR (replaceUpgrade p) (\<lambda>q. replace_loop ts (put_pkt (t_pkt t) q h)))"

definition replaceUpgrades :: "mem_heap \<times> target_list \<Rightarrow> (mem_heap \<times> target_list) res" where
  "replaceUpgrades ht = (case ht of (h, L) \<Rightarrow>
     if \<not> tl_hasUpgrade L then Inr (h, L)
     else bindR (replace_loop (tl_targets L) h) (\<lambda>h1. Inr (h1, L\<lparr>tl_hasUpgrade := False\<rparr>)))"

section \<open>Clearing the marks of the registers above\<close>

text \<open>
  \<open>clearDownstreamPending\<close> of a list and of a register call each other.  The recursion runs on an
  explicit stack: a loop over the positions of a list, and the statement after the inner call.
\<close>

datatype which_list = InTargets | InDeferred

fun get_list :: "which_list \<Rightarrow> mshr \<Rightarrow> target_list" where
  "get_list InTargets x = m_targets x"
| "get_list InDeferred x = m_deferred x"

fun set_list :: "which_list \<Rightarrow> target_list \<Rightarrow> mshr \<Rightarrow> mshr" where
  "set_list InTargets L x = x\<lparr>m_targets := L\<rparr>"
| "set_list InDeferred L x = x\<lparr>m_deferred := L\<rparr>"

definition unmark :: "which_list \<Rightarrow> nat \<Rightarrow> mshr \<Rightarrow> mshr" where
  "unmark w i x = (let L = get_list w x; ts = tl_targets L in
     set_list w (L\<lparr>tl_targets := ts[i := (ts ! i)\<lparr>t_markedPending := False\<rparr>]\<rparr>) x)"

datatype clear_frame = ClearLoop nat which_list nat nat | ClearMark nat which_list nat

definition clear_enter :: "nat \<Rightarrow> mem_heap \<Rightarrow> (clear_frame \<times> mem_heap) res" where
  "clear_enter m h = bindR (mshr_at h m) (\<lambda>x. checkR AssertFail (downstreamPending x)
     (Inr (ClearLoop m InTargets 0 (length (tl_targets (m_targets x))),
           upd_mshr m (\<lambda>y. y\<lparr>downstreamPending := False\<rparr>) h)))"

fun clear_step :: "clear_frame \<Rightarrow> mem_heap \<Rightarrow> (clear_frame list \<times> mem_heap) res" where
  "clear_step (ClearMark m w i) h = Inr ([], upd_mshr m (unmark w i) h)"
| "clear_step (ClearLoop m w i n) h =
     (if i = n then Inr ([], h)
      else bindR (mshr_at h m) (\<lambda>x. bindR (vec_at (tl_targets (get_list w x)) i) (\<lambda>t.
        if t_markedPending t then
          bindR (pkt_at h (t_pkt t)) (\<lambda>p. case findNextSenderState p of
              None \<Rightarrow> Inr ([ClearMark m w i, ClearLoop m w (Suc i) n], h)
            | Some m' \<Rightarrow> bindR (clear_enter m' h) (\<lambda>(f, h1). Inr ([f, ClearMark m w i, ClearLoop m w (Suc i) n], h1)))
        else Inr ([ClearLoop m w (Suc i) n], h))))"

partial_function (option) clear_run :: "clear_frame list \<times> mem_heap \<Rightarrow> mem_heap res option" where
  "clear_run st = (case st of (fs, h) \<Rightarrow> (case fs of
     [] \<Rightarrow> Some (Inr h)
   | f # gs \<Rightarrow> (case clear_step f h of Inl e \<Rightarrow> Some (Inl e)
       | Inr r \<Rightarrow> (case r of (new, h1) \<Rightarrow> clear_run (new @ gs, h1)))))"

definition clear_list :: "nat \<Rightarrow> which_list \<Rightarrow> nat \<Rightarrow> mem_heap \<Rightarrow> mem_heap res" where
  "clear_list m w n h = loopR (clear_run ([ClearLoop m w 0 n], h))"

definition mshr_clearDownstreamPending :: "nat \<Rightarrow> mem_heap \<Rightarrow> mem_heap res" where
  "mshr_clearDownstreamPending m h = bindR (clear_enter m h) (\<lambda>(f, h1). loopR (clear_run ([f], h1)))"

section \<open>Registers\<close>

definition front_of :: "target_list \<Rightarrow> target res" where
  "front_of L = vec_at (tl_targets L) 0"

definition mshr_allocate ::
  "tick \<Rightarrow> nat \<Rightarrow> addr \<Rightarrow> uint32 \<Rightarrow> nat \<Rightarrow> tick \<Rightarrow> int \<Rightarrow> bool \<Rightarrow> mem_heap \<Rightarrow> mem_heap res" where
  "mshr_allocate now m blk_addr blk_size pp when_ready order alloc_on_fill h =
     bindR (pkt_at h pp) (\<lambda>p. bindR (pkt_isSecure p) (\<lambda>sec. bindR (mshr_at h m) (\<lambda>x.
     let T = tl_init blk_addr (ucast blk_size) (m_targets x);
         h1 = upd_mshr m (\<lambda>y. y\<lparr>qe_blkAddr := blk_addr, qe_blkSize := blk_size, qe_isSecure := sec,
                qe_readyTime := when_ready, qe_order := order, isForward := False, wasWholeLineWrite := False,
                qe_isUncacheable := rq_isUncacheable (pkt_req p), qe_inService := False, downstreamPending := False,
                m_targets := T, m_deferred := tl_init blk_addr (ucast blk_size) (m_deferred y)\<rparr>) h;
         src = (if pkt_cmd p = HardPFReq then FromPrefetcher else FromCPU)
     in bindR (tl_add now pp when_ready order src True alloc_on_fill (h1, T)) (\<lambda>(h2, L).
        let h3 = upd_mshr m (\<lambda>y. y\<lparr>m_targets := L\<rparr>) h2 in
        bindR (front_of L) (\<lambda>f. bindR (pkt_at h3 (t_pkt f)) (\<lambda>fp.
        bindR (pkt_matchBlock fp blk_size p) (\<lambda>same. checkR AssertFail same (Inr h3))))))))"

definition mshr_markInService :: "nat \<Rightarrow> bool \<Rightarrow> mem_heap \<Rightarrow> mem_heap res" where
  "mshr_markInService m pending_modified_resp h = bindR (mshr_at h m) (\<lambda>x. checkR AssertFail (\<not> qe_inService x)
     (let h1 = upd_mshr m (\<lambda>y. y\<lparr>qe_inService := True,
                 pendingModified := tl_needsWritable (m_targets y) \<or> pending_modified_resp,
                 postInvalidate := False, postDowngrade := False\<rparr>) h
      in bindR (if \<not> downstreamPending x then clear_list m InTargets (length (tl_targets (m_targets x))) h1 else Inr h1)
        (\<lambda>h2. Inr (upd_mshr m (\<lambda>y. y\<lparr>wasWholeLineWrite := tl_isWholeLineWrite (m_targets y)\<rparr>) h2))))"

definition mshr_deallocate :: "nat \<Rightarrow> mem_heap \<Rightarrow> mem_heap res" where
  "mshr_deallocate m h = bindR (mshr_at h m) (\<lambda>x. checkR AssertFail (tl_targets (m_targets x) = [])
     (checkR AssertFail (isReset (m_deferred x))
       (Inr (upd_mshr m (\<lambda>y. y\<lparr>m_targets := resetFlags (m_targets y), qe_inService := False\<rparr>) h))))"

text \<open>Whether a new target has to wait; the three queries assert that the register is in service.\<close>

definition must_defer :: "packet \<Rightarrow> packet \<Rightarrow> mshr \<Rightarrow> bool res" where
  "must_defer p fp x =
     (if rq_isCacheMaintenance (pkt_req p) \<or> rq_isCacheMaintenance (pkt_req fp) \<or> tl_targets (m_deferred x) \<noteq> []
      then Inr True
      else if \<not> qe_inService x then Inr False
      else if postInvalidate x then Inr True
      else bindR (pkt_needsWritable p) (\<lambda>nw. Inr (nw \<and> (\<not> pendingModified x \<or> postDowngrade x \<or> isForward x))))"

definition allocateTarget :: "tick \<Rightarrow> nat \<Rightarrow> nat \<Rightarrow> tick \<Rightarrow> int \<Rightarrow> bool \<Rightarrow> mem_heap \<Rightarrow> mem_heap res" where
  "allocateTarget now m pp whenReady order alloc_on_fill h =
     bindR (pkt_at h pp) (\<lambda>p. checkR AssertFail (pkt_cmd p \<noteq> HardPFReq)
       (bindR (mshr_at h m) (\<lambda>x. bindR (front_of (m_targets x)) (\<lambda>f. bindR (pkt_at h (t_pkt f)) (\<lambda>fp.
        bindR (must_defer p fp x) (\<lambda>defer.
        if defer then
          bindR (if qe_inService x \<and> postInvalidate x then bindR (replaceUpgrade p) (\<lambda>q. Inr (put_pkt pp q h)) else Inr h)
            (\<lambda>h1. bindR (tl_add now pp whenReady order FromCPU True alloc_on_fill (h1, m_deferred x)) (\<lambda>(h2, L).
              Inr (upd_mshr m (\<lambda>y. y\<lparr>m_deferred := L\<rparr>) h2)))
        else
          bindR (tl_add now pp whenReady order FromCPU (\<not> qe_inService x) alloc_on_fill (h, m_targets x)) (\<lambda>(h2, L).
            Inr (upd_mshr m (\<lambda>y. y\<lparr>m_targets := L\<rparr>) h2))))))))"

definition replace_in :: "which_list \<Rightarrow> nat \<Rightarrow> mem_heap \<Rightarrow> mem_heap res" where
  "replace_in w m h = bindR (mshr_at h m) (\<lambda>x. bindR (replaceUpgrades (h, get_list w x)) (\<lambda>(h1, L).
     Inr (upd_mshr m (set_list w L) h1)))"

text \<open>
  The part of \<open>handleSnoop\<close> that saves a copy of the snooped packet \<open>pp\<close>, at the new address \<open>np\<close> with
  a new request at \<open>rid\<close>.
\<close>

definition snoop_copy ::
  "tick \<Rightarrow> nat \<Rightarrow> nat \<Rightarrow> int \<Rightarrow> nat \<Rightarrow> nat \<Rightarrow> bool \<Rightarrow> mem_heap \<Rightarrow> mem_heap res" where
  "snoop_copy now m pp order np rid will_respond h =
     bindR (pkt_at h pp) (\<lambda>p. bindR (mshr_at h m) (\<lambda>x. bindR (pkt_needsWritable p) (\<lambda>nw.
     if pendingModified x \<or> cmd_isInvalidate (pkt_cmd p) then
       bindR (if will_respond then copyPacket p True True
              else Inr (newPacketBlk rid (pkt_req p) (pkt_cmd p) (sint (qe_blkSize x)) (pkt_id p))) (\<lambda>cp.
       bindR (if will_respond then bindR (setCacheResponding p) setResponderHadWritable
              else if pendingModified x \<and> cmd_isClean (pkt_cmd p) then setSatisfied p else Inr p) (\<lambda>q.
       bindR (tl_add now np now order FromSnoop (downstreamPending x \<and> tl_needsWritable (m_targets x)) False
               (put_pkt np cp (put_pkt pp q h), m_targets x)) (\<lambda>(h1, L).
       Inr (upd_mshr m (\<lambda>y. y\<lparr>m_targets := L,
              postInvalidate := postInvalidate y \<or> nw \<or> cmd_isInvalidate (pkt_cmd p)\<rparr>) h1))))
     else Inr h)))"

definition handleSnoop :: "tick \<Rightarrow> nat \<Rightarrow> nat \<Rightarrow> int \<Rightarrow> nat \<Rightarrow> nat \<Rightarrow> mem_heap \<Rightarrow> (mem_heap \<times> bool) res" where
  "handleSnoop now m pp order np rid h =
     bindR (pkt_at h pp) (\<lambda>p. bindR (mshr_at h m) (\<lambda>x. bindR (pkt_needsWritable p) (\<lambda>nw.
     checkR Panic (\<not> (nw \<noteq> cmd_isInvalidate (pkt_cmd p) \<and> \<not> rq_isCacheMaintenance (pkt_req p)))
       (let inval = (nw \<or> rq_isCacheInvalidate (pkt_req p)) in
        if \<not> qe_inService x \<or> (pkt_isSet p EXPRESS_SNOOP \<and> downstreamPending x) then
          bindR (if inval then bindR (replace_in InTargets m h) (replace_in InDeferred m) else Inr h) (\<lambda>h1. Inr (h1, False))
        else
          bindR (if inval then replace_in InDeferred m h else Inr h) (\<lambda>h1.
          bindR (mshr_at h1 m) (\<lambda>x1. bindR (front_of (m_targets x1)) (\<lambda>f. bindR (pkt_at h1 (t_pkt f)) (\<lambda>fp.
          if postInvalidate x1 \<or> rq_isCacheInvalidate (pkt_req fp) then Inr (h1, True)
          else
            let will_respond = (pendingModified x1 \<and> cmd_needsResponse (pkt_cmd p) \<and> \<not> cmd_isClean (pkt_cmd p)) in
            bindR (snoop_copy now m pp order np rid will_respond h1) (\<lambda>h2.
            if \<not> nw \<and> \<not> rq_isUncacheable (pkt_req p)
            then bindR (pkt_at h2 pp) (\<lambda>q. Inr (put_pkt pp (setHasSharers q)
                   (upd_mshr m (\<lambda>y. y\<lparr>postDowngrade := True\<rparr>) h2), will_respond))
            else Inr (h2, will_respond))))))))))"

fun split_snoops :: "target list \<Rightarrow> (target list \<times> target list) res" where
  "split_snoops [] = Inr ([], [])"
| "split_snoops (t # ts) =
     (if t_source t = FromCPU then bindR (split_snoops ts) (\<lambda>(rd, rest). Inr (rd, t # rest))
      else checkR AssertFail (t_source t = FromSnoop) (bindR (split_snoops ts) (\<lambda>(rd, rest). Inr (t # rd, rest))))"

definition split_inval :: "mem_heap \<Rightarrow> target list \<Rightarrow> (target list \<times> target list) res" where
  "split_inval h ts = (case ts of [] \<Rightarrow> Inl OutOfRange
   | t # us \<Rightarrow> checkR AssertFail (t_source t = FromCPU \<or> t_source t = FromPrefetcher)
       (bindR (pkt_at h (t_pkt t)) (\<lambda>p.
        if pkt_cmd p \<noteq> LockedRMWReadReq then bindR (split_snoops us) (\<lambda>(rd, rest). Inr (t # rd, rest))
        else Inr ([t], ts))))"

fun split_ready :: "mem_heap \<Rightarrow> target list \<Rightarrow> (target list \<times> target list) res" where
  "split_ready h [] = Inr ([], [])"
| "split_ready h (t # ts) = bindR (pkt_at h (t_pkt t)) (\<lambda>p.
     if pkt_cmd p = LockedRMWReadReq then Inr ([t], t # ts)
     else bindR (split_ready h ts) (\<lambda>(rd, rest). Inr (t # rd, rest)))"

definition extractServiceableTargets :: "nat \<Rightarrow> nat \<Rightarrow> mem_heap \<Rightarrow> (mem_heap \<times> target_list) res" where
  "extractServiceableTargets m pp h =
     bindR (mshr_at h m) (\<lambda>x. bindR (pkt_at h pp) (\<lambda>p.
     bindR (if pkt_cmd p = ReadRespWithInvalidate then split_inval h (tl_targets (m_targets x))
            else split_ready h (tl_targets (m_targets x))) (\<lambda>(rd, rest).
     bindR (populateFlags h ((tl_init (qe_blkAddr x) (ucast (qe_blkSize x)) (newTargetList 0 0 False))\<lparr>tl_targets := rd\<rparr>)) (\<lambda>R.
     bindR (populateFlags h ((m_targets x)\<lparr>tl_targets := rest\<rparr>)) (\<lambda>T.
     Inr (upd_mshr m (\<lambda>y. y\<lparr>m_targets := T\<rparr>) h, R))))))"

text \<open>The targets before the first one whose packet satisfies the test, and the others.\<close>

fun split_at :: "(target \<Rightarrow> bool res) \<Rightarrow> target list \<Rightarrow> (target list \<times> target list) res" where
  "split_at P [] = Inr ([], [])"
| "split_at P (t # ts) = bindR (P t) (\<lambda>b.
     if b then Inr ([], t # ts) else bindR (split_at P ts) (\<lambda>(pre, post). Inr (t # pre, post)))"

definition promoteDeferredTargets :: "tick \<Rightarrow> nat \<Rightarrow> mem_heap \<Rightarrow> (mem_heap \<times> bool) res" where
  "promoteDeferredTargets now m h = bindR (mshr_at h m) (\<lambda>x.
     let T = m_targets x; D = m_deferred x in
     if tl_targets T = [] \<and> tl_targets D = [] then Inr (h, False)
     else bindR (split_at (\<lambda>t. bindR (pkt_at h (t_pkt t)) (\<lambda>p. Inr (rq_isCacheMaintenance (pkt_req p)))) (tl_targets D))
       (\<lambda>(pre, post).
       let (mv, rest) = (if pre \<noteq> [] then (pre, post)
                         else if tl_targets T = [] then (take 1 post, drop 1 post) else ([], post))
       in bindR (populateFlags h (D\<lparr>tl_targets := rest\<rparr>)) (\<lambda>D1.
          bindR (populateFlags h (T\<lparr>tl_targets := tl_targets T @ mv\<rparr>)) (\<lambda>T1.
          bindR (front_of T1) (\<lambda>f.
          Inr (upd_mshr m (\<lambda>y. y\<lparr>m_deferred := D1, m_targets := T1, qe_order := t_order f,
                 qe_readyTime := max now (t_readyTime f)\<rparr>) h, True))))))"

definition promoteIf :: "(target \<Rightarrow> bool res) \<Rightarrow> nat \<Rightarrow> mem_heap \<Rightarrow> mem_heap res" where
  "promoteIf pred m h = bindR (mshr_at h m) (\<lambda>x. checkR AssertFail (\<not> downstreamPending x)
     (bindR (split_at (\<lambda>t. bindR (pred t) (\<lambda>b. Inr (\<not> b))) (tl_targets (m_deferred x))) (\<lambda>(pre, post).
      bindR (clear_list m InDeferred (length pre) h) (\<lambda>h1. bindR (mshr_at h1 m) (\<lambda>x1.
      let ds = tl_targets (m_deferred x1); n = length pre;
          T = (m_targets x1)\<lparr>tl_targets := tl_targets (m_targets x1) @ take n ds\<rparr>
      in bindR (populateFlags h1 ((m_deferred x1)\<lparr>tl_targets := drop n ds\<rparr>)) (\<lambda>D.
         Inr (upd_mshr m (\<lambda>y. y\<lparr>m_targets := T, m_deferred := D\<rparr>) h1)))))))"

definition promoteReadable :: "nat \<Rightarrow> mem_heap \<Rightarrow> mem_heap res" where
  "promoteReadable m h = bindR (mshr_at h m) (\<lambda>x.
     if tl_targets (m_deferred x) = [] then Inr h
     else checkR AssertFail (qe_inService x)
       (if postInvalidate x then Inr h
        else promoteIf (\<lambda>t. checkR AssertFail (t_source t = FromCPU) (bindR (pkt_at h (t_pkt t)) (\<lambda>p.
               if rq_isCacheInvalidate (pkt_req p) then Inr False
               else bindR (pkt_needsWritable p) (\<lambda>nw. Inr (\<not> nw))))) m h))"

definition promoteWritable :: "nat \<Rightarrow> mem_heap \<Rightarrow> mem_heap res" where
  "promoteWritable m h = bindR (mshr_at h m) (\<lambda>x.
     if tl_targets (m_deferred x) = [] then Inr h
     else bindR (front_of (m_deferred x)) (\<lambda>f. bindR (pkt_at h (t_pkt f)) (\<lambda>fp.
       if \<not> tl_needsWritable (m_deferred x) then Inr h
       else checkR AssertFail (qe_inService x)
         (if postInvalidate x \<or> postDowngrade x \<or> rq_isCacheInvalidate (pkt_req fp) then Inr h
          else checkR AssertFail (\<not> tl_needsWritable (m_targets x))
            (promoteIf (\<lambda>t. checkR AssertFail (t_source t = FromCPU) (bindR (pkt_at h (t_pkt t)) (\<lambda>p.
               Inr (\<not> rq_isCacheInvalidate (pkt_req p))))) m
             (upd_mshr m (\<lambda>y. y\<lparr>m_targets := (m_targets y)\<lparr>tl_needsWritable := True\<rparr>\<rparr>) h))))))"

definition popTarget :: "nat \<Rightarrow> mem_heap \<Rightarrow> mem_heap res" where
  "popTarget m h = bindR (mshr_at h m) (\<lambda>x. bindR (front_of (m_targets x)) (\<lambda>_.
     Inr (upd_mshr m (\<lambda>y. y\<lparr>m_targets := (m_targets y)\<lparr>tl_targets := drop 1 (tl_targets (m_targets y))\<rparr>\<rparr>) h)))"

definition mshr_delay :: "tick \<Rightarrow> nat \<Rightarrow> tick \<Rightarrow> mem_heap \<Rightarrow> mem_heap res" where
  "mshr_delay now m delay_ticks h = bindR (mshr_at h m) (\<lambda>x. checkR AssertFail (qe_readyTime x \<le> now)
     (Inr (upd_mshr m (\<lambda>y. y\<lparr>qe_readyTime := now + delay_ticks\<rparr>) h)))"

definition mshr_matchBlockAddr :: "addr \<Rightarrow> bool \<Rightarrow> mshr \<Rightarrow> bool res" where
  "mshr_matchBlockAddr a is_secure x = checkR AssertFail (tl_targets (m_targets x) \<noteq> [])
     (Inr (qe_blkAddr x = a \<and> qe_isSecure x = is_secure))"

definition mshr_matchPacket :: "packet \<Rightarrow> mshr \<Rightarrow> bool res" where
  "mshr_matchPacket p x = checkR AssertFail (tl_targets (m_targets x) \<noteq> [])
     (pkt_matchBlockAddr (qe_blkAddr x) (qe_isSecure x) (qe_blkSize x) p)"

definition getNumTargets :: "mshr \<Rightarrow> nat" where
  "getNumTargets x = length (tl_targets (m_targets x)) + length (tl_targets (m_deferred x))"

definition updateLockedRMWReadTarget :: "nat \<Rightarrow> nat \<Rightarrow> nat \<Rightarrow> nat \<Rightarrow> mem_heap \<Rightarrow> mem_heap res" where
  "updateLockedRMWReadTarget m pp np rid h = bindR (mshr_at h m) (\<lambda>x. case tl_targets (m_targets x) of
     [] \<Rightarrow> Inl AssertFail
   | f # fs \<Rightarrow> checkR AssertFail (t_pkt f = pp) (bindR (pkt_at h pp) (\<lambda>p.
       bindR (newPacket rid (pkt_req p) LockedRMWReadReq) (\<lambda>q.
       Inr (upd_mshr m (\<lambda>y. y\<lparr>m_targets := (m_targets y)\<lparr>tl_targets := f\<lparr>t_pkt := np\<rparr> # fs\<rparr>\<rparr>) (put_pkt np q h))))))"

definition hasLockedRMWReadTarget :: "nat \<Rightarrow> mem_heap \<Rightarrow> bool res" where
  "hasLockedRMWReadTarget m h = bindR (mshr_at h m) (\<lambda>x. case tl_targets (m_targets x) of
     [] \<Rightarrow> Inr False
   | f # _ \<Rightarrow> bindR (pkt_at h (t_pkt f)) (\<lambda>p. Inr (pkt_cmd p = LockedRMWReadReq)))"

end
