(* ===== verification/Mem_Queue.thy ===== *)
theory Mem_Queue
  imports Mshr
begin

text \<open>
  The queues of a cache (\<open>mem/cache/queue.hh\<close>, \<open>mshr_queue.cc\<close>, \<open>write_queue.cc\<close> and
  \<open>write_queue_entry.cc\<close>).  A queue owns a fixed number of entries, named by numbers, and keeps each of
  them on the free list or on the list of allocated entries; the allocated entries that were not sent
  yet are also on the ready list, in the order of the times at which they become ready.  An iterator
  stored in an entry is modelled by the entry itself; erasing an entry that is not on a list, where the
  code would use a dangling iterator, is the error \<open>UseAfterFree\<close>.
\<close>

section \<open>The queue template\<close>

datatype drain_state = DrainRunning | Draining | Drained | DrainResuming

record mem_queue =
  q_numEntries :: int
  q_numReserve :: int
  q_allocatedList :: "nat list"
  q_readyList :: "nat list"
  q_freeList :: "nat list"
  q_numInService :: int
  q_allocated :: int
  q_drainState :: drain_state

record mshr_queue = mem_queue +
  mq_demandReserve :: int

definition MaxTick :: tick where "MaxTick = 0xffffffffffffffff"

definition newQueue :: "int \<Rightarrow> int \<Rightarrow> mem_queue" where
  "newQueue num_entries reserve = \<lparr>q_numEntries = num_entries + reserve, q_numReserve = reserve,
     q_allocatedList = [], q_readyList = [], q_freeList = [0 ..< nat (num_entries + reserve)],
     q_numInService = 0, q_allocated = 0, q_drainState = DrainRunning\<rparr>"

definition newMSHRQueue :: "int \<Rightarrow> int \<Rightarrow> int \<Rightarrow> mshr_queue" where
  "newMSHRQueue num_entries reserve demand_reserve =
     mem_queue.extend (newQueue num_entries reserve) \<lparr>mq_demandReserve = demand_reserve\<rparr>"

definition list_erase :: "nat \<Rightarrow> nat list \<Rightarrow> nat list res" where
  "list_erase e xs = checkR UseAfterFree (e \<in> set xs) (Inr (remove1 e xs))"

text \<open>The functions on ready times read the field \<open>readyTime\<close> of an entry through \<open>rt\<close>.\<close>

fun insert_ready :: "(nat \<Rightarrow> tick) \<Rightarrow> nat \<Rightarrow> nat list \<Rightarrow> nat list res" where
  "insert_ready rt e [] = Inl Panic"
| "insert_ready rt e (i # is) =
     (if rt i > rt e then Inr (e # i # is) else bindR (insert_ready rt e is) (\<lambda>js. Inr (i # js)))"

definition addToReadyList :: "(nat \<Rightarrow> tick) \<Rightarrow> nat \<Rightarrow> nat list \<Rightarrow> nat list res" where
  "addToReadyList rt e rl = (if rl = [] \<or> rt (last rl) \<le> rt e then Inr (rl @ [e]) else insert_ready rt e rl)"

definition q_isEmpty :: "'a mem_queue_scheme \<Rightarrow> bool" where
  "q_isEmpty q \<longleftrightarrow> q_allocated q = 0"

definition q_isFull :: "'a mem_queue_scheme \<Rightarrow> bool" where
  "q_isFull q \<longleftrightarrow> q_allocated q \<ge> q_numEntries q - q_numReserve q"

fun find_entry :: "(nat \<Rightarrow> bool res) \<Rightarrow> nat list \<Rightarrow> nat option res" where
  "find_entry P [] = Inr None"
| "find_entry P (e # es) = bindR (P e) (\<lambda>b. if b then Inr (Some e) else find_entry P es)"

definition q_findMatch ::
  "(nat \<Rightarrow> bool res) \<Rightarrow> (nat \<Rightarrow> bool res) \<Rightarrow> bool \<Rightarrow> 'a mem_queue_scheme \<Rightarrow> nat option res" where
  "q_findMatch uncacheable matchAddr ignore_uncacheable q =
     find_entry (\<lambda>e. bindR (uncacheable e) (\<lambda>u. if ignore_uncacheable \<and> u then Inr False else matchAddr e))
       (q_allocatedList q)"

definition q_findPending :: "(nat \<Rightarrow> bool res) \<Rightarrow> 'a mem_queue_scheme \<Rightarrow> nat option res" where
  "q_findPending conflictAddr q = find_entry conflictAddr (q_readyList q)"

definition q_getNext :: "(nat \<Rightarrow> tick) \<Rightarrow> tick \<Rightarrow> 'a mem_queue_scheme \<Rightarrow> nat option" where
  "q_getNext rt now q = (case q_readyList q of [] \<Rightarrow> None | e # _ \<Rightarrow> if rt e > now then None else Some e)"

definition q_nextReadyTime :: "(nat \<Rightarrow> tick) \<Rightarrow> 'a mem_queue_scheme \<Rightarrow> tick" where
  "q_nextReadyTime rt q = (case q_readyList q of [] \<Rightarrow> MaxTick | e # _ \<Rightarrow> rt e)"

text \<open>
  \<open>Queue::deallocate\<close> before and after it calls \<open>deallocate\<close> of the entry.  \<open>signalDrainDone\<close> also tells
  the drain manager, which is not modelled.
\<close>

definition q_release :: "bool \<Rightarrow> nat \<Rightarrow> 'a mem_queue_scheme \<Rightarrow> 'a mem_queue_scheme res" where
  "q_release in_service e q =
     bindR (list_erase e (q_allocatedList q)) (\<lambda>al.
     let q1 = q\<lparr>q_allocatedList := al, q_freeList := e # q_freeList q, q_allocated := q_allocated q - 1\<rparr> in
     if in_service then Inr (q1\<lparr>q_numInService := q_numInService q - 1\<rparr>)
     else bindR (list_erase e (q_readyList q)) (\<lambda>rl. Inr (q1\<lparr>q_readyList := rl\<rparr>)))"

definition q_signalDrained :: "'a mem_queue_scheme \<Rightarrow> 'a mem_queue_scheme" where
  "q_signalDrained q = (if q_drainState q = Draining \<and> q_allocated q = 0 then q\<lparr>q_drainState := Drained\<rparr> else q)"

definition q_drain :: "'a mem_queue_scheme \<Rightarrow> drain_state" where
  "q_drain q = (if q_allocated q = 0 then Drained else Draining)"

definition q_dmDrain :: "'a mem_queue_scheme \<Rightarrow> 'a mem_queue_scheme" where
  "q_dmDrain q = q\<lparr>q_drainState := q_drain q\<rparr>"

text \<open>
  The common part of the two functions \<open>allocate\<close>: the entry has been taken from the front of the free
  list and filled in, and \<open>rt\<close> reads the ready times after that.
\<close>

definition q_enter :: "(nat \<Rightarrow> tick) \<Rightarrow> nat \<Rightarrow> 'a mem_queue_scheme \<Rightarrow> 'a mem_queue_scheme res" where
  "q_enter rt e q = bindR (addToReadyList rt e (q_readyList q)) (\<lambda>rl.
     Inr (q\<lparr>q_freeList := drop 1 (q_freeList q), q_allocatedList := q_allocatedList q @ [e],
            q_readyList := rl, q_allocated := q_allocated q + 1\<rparr>))"

section \<open>The queue of miss status registers\<close>

type_synonym mq_state = "mshr_queue \<times> mem_heap"

definition mshr_rt :: "mem_heap \<Rightarrow> nat \<Rightarrow> tick" where
  "mshr_rt h m = (case h_mshrs h m of None \<Rightarrow> 0 | Some x \<Rightarrow> qe_readyTime x)"

definition mq_allocate ::
  "tick \<Rightarrow> addr \<Rightarrow> uint32 \<Rightarrow> nat \<Rightarrow> tick \<Rightarrow> int \<Rightarrow> bool \<Rightarrow> mq_state \<Rightarrow> (mq_state \<times> nat) res" where
  "mq_allocate now blk_addr blk_size pp when_ready order alloc_on_fill s = (case s of (q, h) \<Rightarrow>
     (case q_freeList q of [] \<Rightarrow> Inl AssertFail
      | m # _ \<Rightarrow> bindR (mshr_at h m) (\<lambda>x. checkR AssertFail (getNumTargets x = 0)
          (bindR (mshr_allocate now m blk_addr blk_size pp when_ready order alloc_on_fill h) (\<lambda>h1.
           bindR (q_enter (mshr_rt h1) m q) (\<lambda>q1. Inr ((q1, h1), m)))))))"

definition mq_deallocate :: "nat \<Rightarrow> mq_state \<Rightarrow> mq_state res" where
  "mq_deallocate m s = (case s of (q, h) \<Rightarrow>
     bindR (mshr_at h m) (\<lambda>x. bindR (q_release (qe_inService x) m q) (\<lambda>q1.
     bindR (mshr_deallocate m h) (\<lambda>h1. Inr (q_signalDrained q1, h1)))))"

definition moveToFront :: "nat \<Rightarrow> mq_state \<Rightarrow> mq_state res" where
  "moveToFront m s = (case s of (q, h) \<Rightarrow> bindR (mshr_at h m) (\<lambda>x.
     if \<not> qe_inService x
     then bindR (list_erase m (q_readyList q)) (\<lambda>rl. Inr (q\<lparr>q_readyList := m # rl\<rparr>, h))
     else Inr (q, h)))"

text \<open>
  \<open>splice\<close> moves the node of \<open>m\<close> before the position \<open>it\<close>, \<open>None\<close> being the end of the list; it does nothing
  when the position is the node itself.
\<close>

definition splice :: "nat option \<Rightarrow> nat \<Rightarrow> nat list \<Rightarrow> nat list" where
  "splice it m xs = (case it of None \<Rightarrow> remove1 m xs @ [m]
     | Some i \<Rightarrow> if i = m then xs
         else takeWhile (\<lambda>j. j \<noteq> i) (remove1 m xs) @ m # dropWhile (\<lambda>j. j \<noteq> i) (remove1 m xs))"

definition mq_delay :: "tick \<Rightarrow> nat \<Rightarrow> tick \<Rightarrow> mq_state \<Rightarrow> mq_state res" where
  "mq_delay now m delay_ticks s = (case s of (q, h) \<Rightarrow>
     bindR (mshr_delay now m delay_ticks h) (\<lambda>h1.
     checkR UseAfterFree (m \<in> set (q_readyList q))
       (let it = find (\<lambda>k. mshr_rt h1 m \<ge> mshr_rt h1 k) (dropWhile (\<lambda>j. j \<noteq> m) (q_readyList q))
        in Inr (q\<lparr>q_readyList := splice it m (q_readyList q)\<rparr>, h1))))"

definition mq_markInService :: "nat \<Rightarrow> bool \<Rightarrow> mq_state \<Rightarrow> mq_state res" where
  "mq_markInService m pending_modified_resp s = (case s of (q, h) \<Rightarrow>
     bindR (mshr_markInService m pending_modified_resp h) (\<lambda>h1.
     bindR (list_erase m (q_readyList q)) (\<lambda>rl.
     Inr (q\<lparr>q_readyList := rl, q_numInService := q_numInService q + 1\<rparr>, h1))))"

definition mq_markPending :: "nat \<Rightarrow> mq_state \<Rightarrow> mq_state res" where
  "mq_markPending m s = (case s of (q, h) \<Rightarrow>
     bindR (mshr_at h m) (\<lambda>x. checkR AssertFail (qe_inService x)
       (let h1 = upd_mshr m (\<lambda>y. y\<lparr>qe_inService := False\<rparr>) h in
        bindR (addToReadyList (mshr_rt h1) m (q_readyList q)) (\<lambda>rl.
        Inr (q\<lparr>q_numInService := q_numInService q - 1, q_readyList := rl\<rparr>, h1)))))"

definition forceDeallocateTarget :: "tick \<Rightarrow> nat \<Rightarrow> mq_state \<Rightarrow> (mq_state \<times> bool) res" where
  "forceDeallocateTarget now m s = (case s of (q, h) \<Rightarrow>
     bindR (mshr_at h m) (\<lambda>x. checkR AssertFail (tl_targets (m_targets x) \<noteq> [])
       (bindR (popTarget m h) (\<lambda>h1. bindR (mshr_at h1 m) (\<lambda>x1.
        bindR (if tl_targets (m_targets x1) = []
               then bindR (promoteDeferredTargets now m h1) (\<lambda>(h2, promoted).
                      if promoted then Inr (q, h2) else mq_deallocate m (q, h2))
               else Inr (q, h1)) (\<lambda>(q2, h3).
        Inr ((q2, h3), q_isFull q \<and> \<not> q_isFull q2)))))))"

definition havePending :: "mshr_queue \<Rightarrow> bool" where
  "havePending q \<longleftrightarrow> q_readyList q \<noteq> []"

definition canPrefetch :: "mshr_queue \<Rightarrow> bool" where
  "canPrefetch q \<longleftrightarrow> q_allocated q < q_numEntries q - (q_numReserve q + 1 + mq_demandReserve q)"

definition mshr_conflictAddr :: "(addr \<Rightarrow> bool \<Rightarrow> bool res) \<Rightarrow> mshr \<Rightarrow> bool res" where
  "mshr_conflictAddr entry_matches x = checkR AssertFail (tl_targets (m_targets x) \<noteq> [])
     (entry_matches (qe_blkAddr x) (qe_isSecure x))"

definition mq_findMatch :: "addr \<Rightarrow> bool \<Rightarrow> bool \<Rightarrow> mq_state \<Rightarrow> nat option res" where
  "mq_findMatch blk_addr is_secure ignore_uncacheable s = (case s of (q, h) \<Rightarrow>
     q_findMatch (\<lambda>m. bindR (mshr_at h m) (\<lambda>x. Inr (qe_isUncacheable x)))
       (\<lambda>m. bindR (mshr_at h m) (mshr_matchBlockAddr blk_addr is_secure)) ignore_uncacheable q)"

definition mq_findPending :: "(addr \<Rightarrow> bool \<Rightarrow> bool res) \<Rightarrow> mq_state \<Rightarrow> nat option res" where
  "mq_findPending entry_matches s = (case s of (q, h) \<Rightarrow>
     q_findPending (\<lambda>m. bindR (mshr_at h m) (mshr_conflictAddr entry_matches)) q)"

definition mq_getNext :: "tick \<Rightarrow> mq_state \<Rightarrow> nat option" where
  "mq_getNext now s = (case s of (q, h) \<Rightarrow> q_getNext (mshr_rt h) now q)"

section \<open>The write queue\<close>

record wq_target =
  wt_recvTime :: tick
  wt_readyTime :: tick
  wt_order :: int
  wt_pkt :: nat

record write_entry = queue_entry +
  we_targets :: "wq_target list"

type_synonym write_store = "nat \<rightharpoonup> write_entry"
type_synonym wq_state = "mem_queue \<times> write_store"

definition newWriteQueueEntry :: write_entry where
  "newWriteQueueEntry = \<lparr>qe_readyTime = 0, qe_isUncacheable = False, qe_inService = False, qe_order = 0,
     qe_blkAddr = 0, qe_blkSize = 0, qe_isSecure = False, we_targets = []\<rparr>"

definition we_at :: "write_store \<Rightarrow> nat \<Rightarrow> write_entry res" where
  "we_at w e = (case w e of None \<Rightarrow> Inl UseAfterFree | Some x \<Rightarrow> Inr x)"

definition we_rt :: "write_store \<Rightarrow> nat \<Rightarrow> tick" where
  "we_rt w e = (case w e of None \<Rightarrow> 0 | Some x \<Rightarrow> qe_readyTime x)"

definition we_allocate ::
  "mem_heap \<Rightarrow> tick \<Rightarrow> nat \<Rightarrow> addr \<Rightarrow> uint32 \<Rightarrow> nat \<Rightarrow> tick \<Rightarrow> int \<Rightarrow> write_store \<Rightarrow> write_store res" where
  "we_allocate h now e blk_addr blk_size pp when_ready order w =
     bindR (we_at w e) (\<lambda>x. bindR (pkt_at h pp) (\<lambda>p. bindR (pkt_isSecure p) (\<lambda>sec.
     let unc = rq_isUncacheable (pkt_req p); c = pkt_cmd p in
     checkR Panic (\<not> (\<not> unc \<and> we_targets x \<noteq> []))
       (checkR Panic ((cmd_isWrite c \<and> unc) \<or> (cmd_isEviction c \<and> \<not> unc) \<or> c = WriteClean)
         (let ts = we_targets x @ [\<lparr>wt_recvTime = now, wt_readyTime = when_ready, wt_order = order, wt_pkt = pp\<rparr>]
          in bindR (pkt_at h (wt_pkt (hd ts))) (\<lambda>fp.
             bindR (pkt_matchBlock fp blk_size p) (\<lambda>same. checkR AssertFail same
               (Inr (w(e \<mapsto> x\<lparr>qe_blkAddr := blk_addr, qe_blkSize := blk_size, qe_isSecure := sec,
                  qe_readyTime := when_ready, qe_order := order, qe_isUncacheable := unc, qe_inService := False,
                  we_targets := ts\<rparr>))))))))))"

definition we_deallocate :: "nat \<Rightarrow> write_store \<Rightarrow> write_store res" where
  "we_deallocate e w = bindR (we_at w e) (\<lambda>x. checkR AssertFail (we_targets x = [])
     (Inr (w(e \<mapsto> x\<lparr>qe_inService := False\<rparr>))))"

definition we_popTarget :: "nat \<Rightarrow> write_store \<Rightarrow> write_store res" where
  "we_popTarget e w = bindR (we_at w e) (\<lambda>x. checkR UseAfterFree (we_targets x \<noteq> [])
     (Inr (w(e \<mapsto> x\<lparr>we_targets := drop 1 (we_targets x)\<rparr>))))"

definition we_matchBlockAddr :: "addr \<Rightarrow> bool \<Rightarrow> write_entry \<Rightarrow> bool res" where
  "we_matchBlockAddr a is_secure x = checkR AssertFail (we_targets x \<noteq> [])
     (Inr (qe_blkAddr x = a \<and> qe_isSecure x = is_secure))"

definition we_conflictAddr :: "(addr \<Rightarrow> bool \<Rightarrow> bool res) \<Rightarrow> write_entry \<Rightarrow> bool res" where
  "we_conflictAddr entry_matches x = checkR AssertFail (we_targets x \<noteq> [])
     (entry_matches (qe_blkAddr x) (qe_isSecure x))"

definition wq_allocate ::
  "mem_heap \<Rightarrow> tick \<Rightarrow> addr \<Rightarrow> uint32 \<Rightarrow> nat \<Rightarrow> tick \<Rightarrow> int \<Rightarrow> wq_state \<Rightarrow> (wq_state \<times> nat) res" where
  "wq_allocate h now blk_addr blk_size pp when_ready order s = (case s of (q, w) \<Rightarrow>
     (case q_freeList q of [] \<Rightarrow> Inl AssertFail
      | e # _ \<Rightarrow> bindR (we_at w e) (\<lambda>x. checkR AssertFail (we_targets x = [])
          (bindR (we_allocate h now e blk_addr blk_size pp when_ready order w) (\<lambda>w1.
           bindR (q_enter (we_rt w1) e q) (\<lambda>q1. Inr ((q1, w1), e)))))))"

definition wq_deallocate :: "nat \<Rightarrow> wq_state \<Rightarrow> wq_state res" where
  "wq_deallocate e s = (case s of (q, w) \<Rightarrow>
     bindR (we_at w e) (\<lambda>x. bindR (q_release (qe_inService x) e q) (\<lambda>q1.
     bindR (we_deallocate e w) (\<lambda>w1. Inr (q_signalDrained q1, w1)))))"

definition wq_markInService :: "nat \<Rightarrow> wq_state \<Rightarrow> wq_state res" where
  "wq_markInService e s = (case s of (q, w) \<Rightarrow> bindR (we_popTarget e w) (\<lambda>w1. wq_deallocate e (q, w1)))"

definition wq_findMatch :: "addr \<Rightarrow> bool \<Rightarrow> bool \<Rightarrow> wq_state \<Rightarrow> nat option res" where
  "wq_findMatch blk_addr is_secure ignore_uncacheable s = (case s of (q, w) \<Rightarrow>
     q_findMatch (\<lambda>e. bindR (we_at w e) (\<lambda>x. Inr (qe_isUncacheable x)))
       (\<lambda>e. bindR (we_at w e) (we_matchBlockAddr blk_addr is_secure)) ignore_uncacheable q)"

definition wq_findPending :: "(addr \<Rightarrow> bool \<Rightarrow> bool res) \<Rightarrow> wq_state \<Rightarrow> nat option res" where
  "wq_findPending entry_matches s = (case s of (q, w) \<Rightarrow>
     q_findPending (\<lambda>e. bindR (we_at w e) (we_conflictAddr entry_matches)) q)"

definition wq_getNext :: "tick \<Rightarrow> wq_state \<Rightarrow> nat option" where
  "wq_getNext now s = (case s of (q, w) \<Rightarrow> q_getNext (we_rt w) now q)"

end
