(* ===== verification/Mshr_View.thy ===== *)
theory Mshr_View
  imports Mshr
begin

text \<open>
  What the registers of a store look like through a function of the register.  A register marks and
  clears other registers while it works, but only their flag \<open>downstreamPending\<close> and the marks of their
  targets: a function that looks at neither sees no change.
\<close>

lemma bindR_E: "bindR r f = Inr y \<Longrightarrow> (\<And>x. r = Inr x \<Longrightarrow> f x = Inr y \<Longrightarrow> thesis) \<Longrightarrow> thesis"
  by (auto simp: res_simps)

lemma checkR_E: "checkR e b r = Inr y \<Longrightarrow> (b \<Longrightarrow> r = Inr y \<Longrightarrow> thesis) \<Longrightarrow> thesis"
  by (auto simp: res_simps)

lemma mshr_at_Inr: "mshr_at h m = Inr x \<longleftrightarrow> h_mshrs h m = Some x"
  by (auto simp: mshr_at_def split: option.splits)

definition view :: "(mshr \<Rightarrow> 'v) \<Rightarrow> mem_heap \<Rightarrow> nat \<Rightarrow> 'v option" where
  "view v h m = map_option v (h_mshrs h m)"

lemma view_put_pkt [simp]: "view v (put_pkt p x h) = view v h"
  by (simp add: view_def put_pkt_def fun_eq_iff)

lemma view_upd: "(\<And>x. v (f x) = v x) \<Longrightarrow> view v (upd_mshr m f h) = view v h"
  by (auto simp: view_def upd_mshr_def fun_eq_iff option.map_comp comp_def)

lemma view_upd_fun: "(\<And>x. v (f x) = g (v x)) \<Longrightarrow> view v (upd_mshr m f h) = (view v h)(m := map_option g (view v h m))"
  by (auto simp: view_def upd_mshr_def fun_eq_iff option.map_comp comp_def)

lemma replace_loop_mshrs: "replace_loop ts h = Inr h' \<Longrightarrow> h_mshrs h' = h_mshrs h"
  by (induction ts arbitrary: h) (auto simp: res_simps put_pkt_def)

lemma replaceUpgrades_list: "replaceUpgrades (h, L) = Inr (h', L') \<Longrightarrow>
    h_mshrs h' = h_mshrs h \<and> (\<exists>b. L' = L\<lparr>tl_hasUpgrade := b\<rparr>)"
  by (cases L) (auto simp: replaceUpgrades_def res_simps split: if_splits dest!: replace_loop_mshrs)

locale mshr_view =
  fixes v :: "mshr \<Rightarrow> 'v"
  assumes v_down: "v (x\<lparr>downstreamPending := b\<rparr>) = v x"
    and v_unmark: "v (unmark w i x) = v x"
    and v_upgrade: "v (set_list w ((get_list w x)\<lparr>tl_hasUpgrade := b\<rparr>) x) = v x"
begin

lemma mark_pending_view: "mark_pending p h = Inr (h', b) \<Longrightarrow> view v h' = view v h"
  by (auto simp: mark_pending_def res_simps view_upd v_down split: option.splits)

lemma tl_add_view: "tl_add now pp ready order src mk aof (h, L) = Inr (h', L') \<Longrightarrow> view v h' = view v h"
  by (auto simp: tl_add_def res_simps split: if_splits dest!: mark_pending_view)

lemma replace_in_view:
  assumes "replace_in w m h = Inr h'"
  shows "view v h' = view v h"
proof -
  obtain x h1 L where x: "h_mshrs h m = Some x" and r: "replaceUpgrades (h, get_list w x) = Inr (h1, L)"
    and h': "h' = upd_mshr m (set_list w L) h1"
    using assms by (auto simp: replace_in_def res_simps mshr_at_Inr)
  obtain b where "h_mshrs h1 = h_mshrs h" "L = (get_list w x)\<lparr>tl_hasUpgrade := b\<rparr>" using replaceUpgrades_list [OF r] by auto
  then show ?thesis using x unfolding h' by (auto simp: view_def upd_mshr_def fun_eq_iff v_upgrade)
qed

lemma clear_step_view: "clear_step f h = Inr (fs, h') \<Longrightarrow> view v h' = view v h"
  by (cases f) (auto simp: res_simps clear_enter_def view_upd v_down v_unmark split: if_splits option.splits)

lemma clear_run_view: "clear_run st = Some y \<Longrightarrow> case y of Inl e \<Rightarrow> True | Inr h' \<Rightarrow> view v h' = view v (snd st)"
proof (rule clear_run.raw_induct [of "\<lambda>st y. case y of Inl e \<Rightarrow> True | Inr h' \<Rightarrow> view v h' = view v (snd st)"])
  fix f :: "clear_frame list \<times> mem_heap \<Rightarrow> mem_heap res option" and st y
  assume 1: "\<And>st y. f st = Some y \<Longrightarrow> case y of Inl e \<Rightarrow> True | Inr h' \<Rightarrow> view v h' = view v (snd st)"
    "(case st of (fs, h) \<Rightarrow> (case fs of
     [] \<Rightarrow> Some (Inr h)
   | g # gs \<Rightarrow> (case clear_step g h of Inl e \<Rightarrow> Some (Inl e)
       | Inr r \<Rightarrow> (case r of (new, h1) \<Rightarrow> f (new @ gs, h1))))) = Some y"
  obtain fs h where st: "st = (fs, h)" by (cases st)
  show "case y of Inl e \<Rightarrow> True | Inr h' \<Rightarrow> view v h' = view v (snd st)"
  proof (cases fs)
    case Nil
    then show ?thesis using 1(2) st by auto
  next
    case (Cons g gs)
    have IH: "f st' = Some (Inr h') \<Longrightarrow> view v h' = view v (snd st')" for st' h'
      using 1(1) [of st' "Inr h'"] by simp
    show ?thesis using 1(2) st Cons clear_step_view [of g h] by (auto split: sum.splits prod.splits dest!: IH)
  qed
qed

lemma clear_list_view: "clear_list m w n h = Inr h' \<Longrightarrow> view v h' = view v h"
  using clear_run_view [of "([ClearLoop m w 0 n], h)"] by (auto simp: clear_list_def loopR_def split: option.splits)

end

text \<open>A function that does not look at the lists of targets at all sees no change in most operations.\<close>

locale mshr_scalar_view =
  fixes v :: "mshr \<Rightarrow> 'v"
  assumes s_down: "v (x\<lparr>downstreamPending := b\<rparr>) = v x"
    and s_targets: "v (x\<lparr>m_targets := L\<rparr>) = v x"
    and s_deferred: "v (x\<lparr>m_deferred := L\<rparr>) = v x"
    and s_post: "v (x\<lparr>postInvalidate := b\<rparr>) = v x" "v (x\<lparr>postDowngrade := b\<rparr>) = v x"

sublocale mshr_scalar_view \<subseteq> mshr_view v
proof
  show "v (unmark w i x) = v x" for w i x
    by (cases w) (simp_all add: unmark_def Let_def s_targets s_deferred)
  show "v (set_list w ((get_list w x)\<lparr>tl_hasUpgrade := b\<rparr>) x) = v x" for w x b
    by (cases w) (simp_all add: s_targets s_deferred)
qed (rule s_down)

context mshr_scalar_view
begin

lemma allocateTarget_view: "allocateTarget now m pp ready ord aof h = Inr h' \<Longrightarrow> view v h' = view v h"
  by (auto simp: allocateTarget_def res_simps view_upd s_targets s_deferred split: if_splits dest!: tl_add_view)

lemma snoop_copy_view: "snoop_copy now m pp ord np rid wr h = Inr h' \<Longrightarrow> view v h' = view v h"
  by (auto simp: snoop_copy_def bindR_eq_Inr_iff view_upd s_targets s_post split: if_splits dest!: tl_add_view)

lemma handleSnoop_view: "handleSnoop now m pp ord np rid h = Inr (h', b) \<Longrightarrow> view v h' = view v h"
  by (auto simp: handleSnoop_def Let_def bindR_eq_Inr_iff checkR_eq_Inr_iff view_upd s_post split: if_splits
      dest!: replace_in_view snoop_copy_view)

lemma extract_view: "extractServiceableTargets m pp h = Inr (h', R) \<Longrightarrow> view v h' = view v h"
  by (auto simp: extractServiceableTargets_def bindR_eq_Inr_iff view_upd s_targets)

lemma promoteIf_view: "promoteIf P m h = Inr h' \<Longrightarrow> view v h' = view v h"
  by (auto simp: promoteIf_def bindR_eq_Inr_iff checkR_eq_Inr_iff Let_def view_upd s_targets s_deferred
      dest!: clear_list_view)

lemma promoteReadable_view: "promoteReadable m h = Inr h' \<Longrightarrow> view v h' = view v h"
  by (auto simp: promoteReadable_def bindR_eq_Inr_iff checkR_eq_Inr_iff split: if_splits dest!: promoteIf_view)

lemma promoteWritable_view: "promoteWritable m h = Inr h' \<Longrightarrow> view v h' = view v h"
  by (auto simp: promoteWritable_def bindR_eq_Inr_iff checkR_eq_Inr_iff view_upd s_targets split: if_splits
      dest!: promoteIf_view)

lemma popTarget_view: "popTarget m h = Inr h' \<Longrightarrow> view v h' = view v h"
  by (auto simp: popTarget_def bindR_eq_Inr_iff view_upd s_targets)

lemma locked_view:
  assumes "updateLockedRMWReadTarget m pp np rid h = Inr h'"
  shows "view v h' = view v h"
proof -
  obtain x where x: "mshr_at h m = Inr x" using assms by (auto simp: updateLockedRMWReadTarget_def bindR_eq_Inr_iff)
  show ?thesis
  proof (cases "tl_targets (m_targets x)")
    case Nil
    then show ?thesis using assms x by (simp add: updateLockedRMWReadTarget_def)
  next
    case (Cons f fs)
    then show ?thesis using assms x
      by (auto simp: updateLockedRMWReadTarget_def bindR_eq_Inr_iff checkR_eq_Inr_iff view_upd s_targets)
  qed
qed

end

end
