(* ===== verification/Mem_Queue_Inv.thy ===== *)
theory Mem_Queue_Inv
  imports Mem_Queue Mshr_View
begin

text \<open>
  The invariant of a queue of a cache, and that every operation of the miss queue and of the write
  queue keeps it.  What a queue needs of its entries is the interface \<open>entry_store\<close>, which the registers
  and the entries of the write queue implement.
\<close>

section \<open>The ready list\<close>

lemma insert_ready_split:
  assumes "is \<noteq> []" "rt e < rt (last is)"
  shows "insert_ready rt e is = Inr (takeWhile (\<lambda>i. rt i \<le> rt e) is @ e # dropWhile (\<lambda>i. rt i \<le> rt e) is)"
  using assms
proof (induction "is")
  case (Cons i js)
  show ?case
  proof (cases "rt i \<le> rt e")
    case True
    then have "js \<noteq> []" using Cons.prems by auto
    then show ?thesis using Cons True by (simp add: leD)
  next
    case False
    then have "rt e < rt i" by (simp add: not_le)
    with False show ?thesis by simp
  qed
qed simp

text \<open>On a sorted list, the entry goes behind those that are ready at the same time or before.\<close>

lemma addToReadyList_sorted:
  assumes "sorted (map rt rl)"
  shows "addToReadyList rt e rl = Inr (takeWhile (\<lambda>i. rt i \<le> rt e) rl @ e # dropWhile (\<lambda>i. rt i \<le> rt e) rl)"
proof (cases "rl = [] \<or> rt (last rl) \<le> rt e")
  case True
  then have "\<forall>i \<in> set rl. rt i \<le> rt e"
    using assms by (cases rl rule: rev_cases) (auto simp: sorted_append)
  then show ?thesis using True by (auto simp: addToReadyList_def takeWhile_eq_all_conv [THEN iffD2] dropWhile_eq_Nil_conv [THEN iffD2])
next
  case False
  then show ?thesis using insert_ready_split [of rl rt e] by (auto simp: addToReadyList_def not_le)
qed

lemma addToReadyList_total: "\<exists>pre post. rl = pre @ post \<and> addToReadyList rt e rl = Inr (pre @ e # post)"
proof (cases "rl = [] \<or> rt (last rl) \<le> rt e")
  case False
  then have "addToReadyList rt e rl = Inr (takeWhile (\<lambda>i. rt i \<le> rt e) rl @ e # dropWhile (\<lambda>i. rt i \<le> rt e) rl)"
    using insert_ready_split [of rl rt e] by (auto simp: addToReadyList_def not_le)
  then show ?thesis by (metis takeWhile_dropWhile_id)
qed (auto simp: addToReadyList_def intro: exI [of _ rl])

lemma sorted_mid:
  fixes f :: "'a \<Rightarrow> 'b :: linorder"
  assumes "sorted (map f us)" "sorted (map f vs)" "\<forall>x \<in> set us. f x \<le> f e" "\<forall>y \<in> set vs. f e \<le> f y"
  shows "sorted (map f (us @ e # vs))"
  using assms by (auto simp: sorted_append intro: order_trans)

lemma sorted_add:
  assumes "sorted (map rt rl)" "addToReadyList rt e rl = Inr rl'"
  shows "sorted (map rt rl')"
proof -
  let ?P = "\<lambda>i. rt i \<le> rt e"
  have rl': "rl' = takeWhile ?P rl @ e # dropWhile ?P rl" using assms addToReadyList_sorted [OF assms(1), of e] by simp
  have s: "sorted (map rt (takeWhile ?P rl) @ map rt (dropWhile ?P rl))" using assms(1) by (simp flip: map_append)
  then have s1: "sorted (map rt (takeWhile ?P rl))" and s2: "sorted (map rt (dropWhile ?P rl))"
    by (auto simp: sorted_append)
  have "\<forall>x \<in> set (takeWhile ?P rl). rt x \<le> rt e" by (auto dest: set_takeWhileD)
  moreover have "\<forall>y \<in> set (dropWhile ?P rl). rt e \<le> rt y"
  proof (cases "dropWhile ?P rl")
    case (Cons d ds)
    then have "rt e < rt d" using hd_dropWhile [of ?P rl] by (simp add: not_le)
    then show ?thesis using s2 Cons by auto
  next
    case Nil
    then show ?thesis by (simp only: list.set ball_empty)
  qed
  ultimately show ?thesis unfolding rl' by (rule sorted_mid [OF s1 s2])
qed

lemma add_set: "addToReadyList rt e rl = Inr rl' \<Longrightarrow> set rl' = insert e (set rl) \<and> (distinct rl' \<longleftrightarrow> distinct rl \<and> e \<notin> set rl)"
  using addToReadyList_total [of rl rt e] by auto

section \<open>The invariant\<close>

type_synonym entry_view = "nat \<Rightarrow> (bool \<times> tick) option"

text \<open>Whether an entry is in service and when it is ready, in this order.\<close>

definition svc :: "entry_view \<Rightarrow> nat \<Rightarrow> bool" where
  "svc ent e = (case ent e of None \<Rightarrow> False | Some (b, _) \<Rightarrow> b)"

definition q_ok :: "entry_view \<Rightarrow> 'a mem_queue_scheme \<Rightarrow> bool" where
  "q_ok ent q \<longleftrightarrow>
     distinct (q_allocatedList q @ q_freeList q) \<and> set (q_allocatedList q @ q_freeList q) = {..<nat (q_numEntries q)} \<and>
     (\<forall>e < nat (q_numEntries q). ent e \<noteq> None) \<and> (\<forall>e \<in> set (q_freeList q). \<not> svc ent e) \<and>
     q_allocated q = int (length (q_allocatedList q)) \<and>
     distinct (q_readyList q) \<and> set (q_readyList q) = {e \<in> set (q_allocatedList q). \<not> svc ent e} \<and>
     q_numInService q = int (length (filter (svc ent) (q_allocatedList q)))"

lemma svc_upd [simp]: "svc (ent(e \<mapsto> (b, t))) = (svc ent)(e := b)"
  by (simp add: svc_def fun_eq_iff)

lemma filter_upd_notin: "e \<notin> set xs \<Longrightarrow> filter (P(e := b)) xs = filter P xs"
  by (rule filter_cong) auto

lemma filter_upd_length:
  assumes "distinct xs" "e \<in> set xs"
  shows "int (length (filter (P(e := b)) xs)) = int (length (filter P xs)) - (if P e then 1 else 0) + (if b then 1 else 0)"
proof -
  obtain us vs where "xs = us @ e # vs" "e \<notin> set us" "e \<notin> set vs" using assms split_list by fastforce
  then show ?thesis by (simp add: filter_upd_notin del: fun_upd_apply add: fun_upd_same)
qed

lemma filter_remove1_length:
  "distinct xs \<Longrightarrow> e \<in> set xs \<Longrightarrow>
    int (length (filter P (remove1 e xs))) = int (length (filter P xs)) - (if P e then 1 else 0)"
  by (induction xs) (auto simp: filter_remove1)

definition q_released :: "bool \<Rightarrow> nat \<Rightarrow> 'a mem_queue_scheme \<Rightarrow> 'a mem_queue_scheme" where
  "q_released b e q = q\<lparr>q_allocatedList := remove1 e (q_allocatedList q), q_freeList := e # q_freeList q,
     q_allocated := q_allocated q - 1, q_numInService := q_numInService q - (if b then 1 else 0),
     q_readyList := if b then q_readyList q else remove1 e (q_readyList q)\<rparr>"

lemma q_release_iff: "q_release b e q = Inr q' \<longleftrightarrow>
    e \<in> set (q_allocatedList q) \<and> (b \<or> e \<in> set (q_readyList q)) \<and> q' = q_released b e q"
  by (auto simp: q_release_def bindR_eq_Inr_iff checkR_eq_Inr_iff list_erase_def q_released_def Let_def)

text \<open>What the entries of a store promise: how allocation and deallocation of an entry change what a queue sees.\<close>

locale entry_store =
  fixes ent :: "'s \<Rightarrow> entry_view"
    and rt :: "'s \<Rightarrow> nat \<Rightarrow> tick"
    and fill :: "nat \<Rightarrow> tick \<Rightarrow> 's \<Rightarrow> 's \<Rightarrow> bool"
    and clear :: "nat \<Rightarrow> 's \<Rightarrow> 's \<Rightarrow> bool"
  assumes ent_rt: "ent s e = Some (b, t) \<Longrightarrow> rt s e = t"
    and ent_fill: "fill e w s s' \<Longrightarrow> ent s' = (ent s)(e \<mapsto> (False, w))"
    and ent_clear: "clear e s s' \<Longrightarrow> \<exists>b t. ent s e = Some (b, t) \<and> ent s' = (ent s)(e \<mapsto> (False, t))"
begin

lemma enter_ok:
  assumes ok: "q_ok (ent s) q" and free: "q_freeList q = e # es" and fill: "fill e w s s'"
    and en: "q_enter (rt s') e q = Inr q'"
  shows "q_ok (ent s') q'"
proof -
  obtain rl where rl: "addToReadyList (rt s') e (q_readyList q) = Inr rl"
    and q': "q' = q\<lparr>q_freeList := es, q_allocatedList := q_allocatedList q @ [e], q_readyList := rl, q_allocated := q_allocated q + 1\<rparr>"
    using en free by (auto simp: q_enter_def bindR_eq_Inr_iff)
  have e: "e \<notin> set (q_allocatedList q)" using ok free by (auto simp: q_ok_def)
  then have "e \<notin> set (q_readyList q)" using ok by (auto simp: q_ok_def)
  then have "set rl = insert e (set (q_readyList q))" "distinct rl" using add_set [OF rl] ok by (auto simp: q_ok_def)
  then show ?thesis using ok free e unfolding q' by (auto simp: q_ok_def ent_fill [OF fill] filter_upd_notin)
qed

lemma enter_total: "\<exists>q'. q_enter (rt s) e q = Inr q'"
  using addToReadyList_total [of "q_readyList q" "rt s" e] by (auto simp: q_enter_def)

lemma enter_sorted:
  assumes "sorted (map (rt s) (q_readyList q))" "q_ok (ent s) q" "q_freeList q = e # es" "fill e w s s'"
    "q_enter (rt s') e q = Inr q'"
  shows "sorted (map (rt s') (q_readyList q'))"
proof -
  have "rt s' i = rt s i" if "i \<in> set (q_readyList q)" for i
  proof -
    have "i \<noteq> e" "ent s i \<noteq> None" using assms(2,3) that by (auto simp: q_ok_def)
    then show ?thesis using ent_rt [of s i] ent_rt [of s' i] by (auto simp: ent_fill [OF assms(4)])
  qed
  then have "sorted (map (rt s') (q_readyList q))" using assms(1) by (simp cong: map_cong)
  moreover obtain rl where "addToReadyList (rt s') e (q_readyList q) = Inr rl" "q_readyList q' = rl"
    using assms(5) by (auto simp: q_enter_def bindR_eq_Inr_iff)
  ultimately show ?thesis using sorted_add by simp
qed

lemma release_ok:
  assumes ok: "q_ok (ent s) q" and clear: "clear e s s'" and rel: "q_release (svc (ent s) e) e q = Inr q'"
  shows "q_ok (ent s') q'"
proof -
  let ?P = "svc (ent s)"
  obtain b t where s: "ent s e = Some (b, t)" "ent s' = (ent s)(e \<mapsto> (False, t))" using ent_clear [OF clear] by auto
  have e: "e \<in> set (q_allocatedList q)" and q': "q' = q_released (?P e) e q" using rel by (auto simp: q_release_iff)
  have d: "distinct (q_allocatedList q)" "distinct (q_readyList q)" "e \<notin> set (q_freeList q)" using ok e by (auto simp: q_ok_def)
  have f: "filter (?P(e := False)) (remove1 e (q_allocatedList q)) = filter ?P (remove1 e (q_allocatedList q))"
    using d by (intro filter_upd_notin) simp
  have n: "int (length (q_allocatedList q) - 1) = int (length (q_allocatedList q)) - 1"
    using length_pos_if_in_set [OF e] by (cases "q_allocatedList q") simp_all
  have r: "set (if ?P e then q_readyList q else remove1 e (q_readyList q)) =
      {i \<in> set (remove1 e (q_allocatedList q)). \<not> (?P(e := False)) i}"
    using ok d by (auto simp: q_ok_def)
  show ?thesis
    using ok d e n r f filter_remove1_length [OF d(1) e, of ?P]
    unfolding q' q_ok_def q_released_def s svc_upd
    by (simp add: length_remove1 distinct_remove1 insert_absorb del: fun_upd_apply set_remove1_eq) (auto simp: d)
qed

lemma getNext_due: "q_ok (ent s) q \<Longrightarrow> q_getNext (rt s) now q = Some e \<Longrightarrow>
    e \<in> set (q_allocatedList q) \<and> \<not> svc (ent s) e \<and> rt s e \<le> now"
  by (auto simp: q_getNext_def q_ok_def not_less split: list.splits if_splits)

end

section \<open>Registers and write queue entries as entries of a queue\<close>

definition mshr_ent :: "mem_heap \<Rightarrow> entry_view" where
  "mshr_ent h = view (\<lambda>x. (qe_inService x, qe_readyTime x)) h"

definition we_ent :: "write_store \<Rightarrow> entry_view" where
  "we_ent w e = map_option (\<lambda>x. (qe_inService x, qe_readyTime x)) (w e)"

interpretation es: mshr_scalar_view "\<lambda>x. (qe_inService x, qe_readyTime x)"
  by unfold_locales simp_all

lemma mshr_ent_upd: "mshr_ent (upd_mshr m f h) =
    (mshr_ent h)(m := map_option (\<lambda>x. (qe_inService (f x), qe_readyTime (f x))) (h_mshrs h m))"
  by (auto simp: mshr_ent_def view_def upd_mshr_def fun_eq_iff option.map_comp comp_def)

lemma mshr_ent_at: "h_mshrs h m = Some x \<Longrightarrow> mshr_ent h m = Some (qe_inService x, qe_readyTime x)"
  by (simp add: mshr_ent_def view_def)

lemma mshr_ent_fold: "map_option (\<lambda>x. (qe_inService x, qe_readyTime x)) (h_mshrs h m) = mshr_ent h m"
  by (simp add: mshr_ent_def view_def)

lemmas ent_simps = Let_def bindR_eq_Inr_iff checkR_eq_Inr_iff mshr_at_Inr mshr_ent_upd mshr_ent_fold mshr_ent_at

lemmas ent_views = es.tl_add_view es.clear_list_view es.allocateTarget_view es.handleSnoop_view es.extract_view
  es.promoteReadable_view es.promoteWritable_view es.popTarget_view es.locked_view
lemmas ent_keeps = ent_views [folded mshr_ent_def]

lemma mshr_allocate_ent:
  assumes "mshr_allocate now m ba bs pp w ord aof h = Inr h'"
  shows "mshr_ent h' = (mshr_ent h)(m \<mapsto> (False, w))"
  using assms by (auto simp: mshr_allocate_def ent_simps dest!: ent_keeps(1))

lemma mshr_deallocate_ent:
  assumes "mshr_deallocate m h = Inr h'"
  shows "\<exists>b t. mshr_ent h m = Some (b, t) \<and> mshr_ent h' = (mshr_ent h)(m \<mapsto> (False, t))"
  using assms by (auto simp: mshr_deallocate_def ent_simps)

lemma markInService_ent:
  assumes "mshr_markInService m b h = Inr h'"
  shows "\<exists>t. mshr_ent h m = Some (False, t) \<and> mshr_ent h' = (mshr_ent h)(m \<mapsto> (True, t))"
  using assms by (auto simp: mshr_markInService_def ent_simps split: if_splits dest!: ent_keeps(2))

lemma promoteDeferred_ent:
  assumes "promoteDeferredTargets now m h = Inr (h', b)"
  shows "\<exists>s t t'. mshr_ent h m = Some (s, t) \<and> mshr_ent h' = (mshr_ent h)(m \<mapsto> (s, t'))"
proof -
  obtain x where x: "h_mshrs h m = Some x" using assms by (auto simp: promoteDeferredTargets_def bindR_eq_Inr_iff mshr_at_Inr)
  have "h' = h \<or> (\<exists>D T f. h' = upd_mshr m (\<lambda>y. y\<lparr>m_deferred := D, m_targets := T, qe_order := t_order (f :: target),
      qe_readyTime := max now (t_readyTime f)\<rparr>) h)"
    using assms by (auto simp: promoteDeferredTargets_def Let_def bindR_eq_Inr_iff split_def split: if_splits)
  then show ?thesis
  proof (elim disjE exE)
    assume "h' = h"
    then show ?thesis using mshr_ent_at [OF x] by (metis fun_upd_triv)
  qed (use x in \<open>auto simp: ent_simps\<close>)
qed

lemma mshr_delay_ent:
  assumes "mshr_delay now m d h = Inr h'"
  shows "\<exists>s t. mshr_ent h m = Some (s, t) \<and> mshr_ent h' = (mshr_ent h)(m \<mapsto> (s, now + d))"
  using assms by (auto simp: mshr_delay_def ent_simps)

lemma we_ent_upd: "we_ent (w(e \<mapsto> x)) = (we_ent w)(e \<mapsto> (qe_inService x, qe_readyTime x))"
  by (simp add: we_ent_def fun_eq_iff)

lemma we_at_Inr: "we_at w e = Inr x \<longleftrightarrow> w e = Some x"
  by (auto simp: we_at_def split: option.splits)

interpretation ms: entry_store mshr_ent mshr_rt "\<lambda>m w h h'. \<exists>now ba bs pp ord aof. mshr_allocate now m ba bs pp w ord aof h = Inr h'"
    "\<lambda>m h h'. mshr_deallocate m h = Inr h'"
proof
  show "mshr_ent s e = Some (b, t) \<Longrightarrow> mshr_rt s e = t" for s e b t
    by (auto simp: mshr_ent_def view_def mshr_rt_def)
qed (use mshr_allocate_ent mshr_deallocate_ent in blast)+

interpretation ws: entry_store we_ent we_rt "\<lambda>e t w w'. \<exists>h now ba bs pp ord. we_allocate h now e ba bs pp t ord w = Inr w'"
    "\<lambda>e w w'. we_deallocate e w = Inr w'"
proof
  show "we_ent s e = Some (b, t) \<Longrightarrow> we_rt s e = t" for s e b t
    by (auto simp: we_ent_def we_rt_def)
  show "\<exists>h now ba bs pp ord. we_allocate h now e ba bs pp t ord w = Inr w' \<Longrightarrow> we_ent w' = (we_ent w)(e \<mapsto> (False, t))" for e t w w'
    by (auto simp: we_allocate_def Let_def bindR_eq_Inr_iff checkR_eq_Inr_iff we_ent_upd)
  show "we_deallocate e w = Inr w' \<Longrightarrow> \<exists>b t. we_ent w e = Some (b, t) \<and> we_ent w' = (we_ent w)(e \<mapsto> (False, t))" for e w w'
    by (auto simp: we_deallocate_def bindR_eq_Inr_iff checkR_eq_Inr_iff we_ent_upd we_at_Inr) (simp add: we_ent_def)
qed

section \<open>The operations of the queues keep the invariant\<close>

definition mq_ok :: "mq_state \<Rightarrow> bool" where
  "mq_ok s \<longleftrightarrow> q_ok (mshr_ent (snd s)) (fst s)"

definition wq_ok :: "wq_state \<Rightarrow> bool" where
  "wq_ok s \<longleftrightarrow> q_ok (we_ent (snd s)) (fst s)"

lemma q_ok_signal [simp]: "q_ok ent (q_signalDrained q) = q_ok ent q"
  by (simp add: q_signalDrained_def q_ok_def)

lemma q_ok_time: "ent e = Some (b, t) \<Longrightarrow> q_ok (ent(e \<mapsto> (b, t'))) q = q_ok ent q"
proof -
  assume e: "ent e = Some (b, t)"
  have "svc (ent(e \<mapsto> (b, t'))) = svc ent" using e by (auto simp: svc_def fun_eq_iff)
  moreover have "((ent(e \<mapsto> (b, t'))) i \<noteq> None) = (ent i \<noteq> None)" for i using e by simp
  ultimately show ?thesis unfolding q_ok_def by simp
qed

lemma q_ok_frame:
  assumes "\<forall>e < nat (q_numEntries q). ent' e = ent e" and ok: "q_ok ent q"
  shows "q_ok ent' q"
proof -
  have s: "svc ent' e = svc ent e" if "e \<in> set (q_allocatedList q @ q_freeList q)" for e
    using assms that by (auto simp: q_ok_def svc_def)
  then have "filter (svc ent') (q_allocatedList q) = filter (svc ent) (q_allocatedList q)" by (intro filter_cong) auto
  moreover have "{e \<in> set (q_allocatedList q). \<not> svc ent' e} = {e \<in> set (q_allocatedList q). \<not> svc ent e}" using s by auto
  ultimately show ?thesis using assms s unfolding q_ok_def by (metis Un_iff set_append)
qed

text \<open>Taking an allocated entry into service, and back.\<close>

lemma q_ok_serve:
  assumes ok: "q_ok ent q" and e: "e \<in> set (q_readyList q)"
  shows "q_ok (ent(e \<mapsto> (True, t))) (q\<lparr>q_readyList := remove1 e (q_readyList q), q_numInService := q_numInService q + 1\<rparr>)"
proof -
  have a: "e \<in> set (q_allocatedList q)" "\<not> svc ent e" "distinct (q_allocatedList q)" "distinct (q_readyList q)" "e \<notin> set (q_freeList q)"
    using ok e by (auto simp: q_ok_def)
  show ?thesis using ok a filter_upd_length [OF a(3,1), of "svc ent" True]
    unfolding q_ok_def svc_upd by (simp del: fun_upd_apply) (auto simp: fun_upd_def)
qed

lemma q_ok_pend:
  assumes ok: "q_ok ent q" and e: "svc ent e" "e < nat (q_numEntries q)" and add: "addToReadyList rt e (q_readyList q) = Inr rl"
  shows "q_ok (ent(e \<mapsto> (False, t))) (q\<lparr>q_numInService := q_numInService q - 1, q_readyList := rl\<rparr>)"
proof -
  have "e \<in> set (q_allocatedList q @ q_freeList q)" using ok e by (simp add: q_ok_def)
  then have a: "e \<in> set (q_allocatedList q)" "distinct (q_allocatedList q)" "e \<notin> set (q_readyList q)" "e \<notin> set (q_freeList q)"
    using ok e by (auto simp: q_ok_def)
  show ?thesis using ok a e add_set [OF add] filter_upd_length [OF a(2,1), of "svc ent" False]
    unfolding q_ok_def svc_upd by (simp del: fun_upd_apply) (auto simp: fun_upd_def)
qed

lemma mq_allocate_E:
  assumes "mq_allocate now ba bs pp w ord aof (q, h) = Inr (s', m)"
  obtains es x h1 q1 where "q_freeList q = m # es" "h_mshrs h m = Some x" "getNumTargets x = 0"
    "mshr_allocate now m ba bs pp w ord aof h = Inr h1" "q_enter (mshr_rt h1) m q = Inr q1" "s' = (q1, h1)"
  using assms by (cases "q_freeList q") (auto simp: mq_allocate_def bindR_eq_Inr_iff checkR_eq_Inr_iff mshr_at_Inr)

lemma mq_allocate_ok:
  assumes "mq_ok s" "mq_allocate now ba bs pp w ord aof s = Inr (s', m)"
  shows "mq_ok s'"
proof -
  obtain q h where s: "s = (q, h)" by (cases s)
  obtain es x h1 q1 where free: "q_freeList q = m # es" and al: "mshr_allocate now m ba bs pp w ord aof h = Inr h1"
    and en: "q_enter (mshr_rt h1) m q = Inr q1" and s': "s' = (q1, h1)"
    using assms(2) unfolding s by (rule mq_allocate_E)
  have "q_ok (mshr_ent h) q" using assms(1) by (simp add: mq_ok_def s)
  then show ?thesis using ms.enter_ok [OF _ free _ en] al unfolding mq_ok_def s' by fastforce
qed

lemma mq_deallocate_ok: "mq_ok s \<Longrightarrow> mq_deallocate m s = Inr s' \<Longrightarrow> mq_ok s'"
  by (cases s) (auto simp: mq_ok_def mq_deallocate_def bindR_eq_Inr_iff mshr_at_Inr svc_def mshr_ent_at dest!: ms.release_ok [rotated])

lemma moveToFront_ok: "mq_ok s \<Longrightarrow> moveToFront m s = Inr s' \<Longrightarrow> mq_ok s'"
  by (cases s) (auto simp: mq_ok_def moveToFront_def bindR_eq_Inr_iff checkR_eq_Inr_iff list_erase_def q_ok_def split: if_splits)

lemma mq_markInService_ok: "mq_ok s \<Longrightarrow> mq_markInService m b s = Inr s' \<Longrightarrow> mq_ok s'"
  by (cases s) (auto simp: mq_ok_def mq_markInService_def bindR_eq_Inr_iff checkR_eq_Inr_iff list_erase_def q_ok_serve dest!: markInService_ent)

lemma mq_markPending_ok:
  "mq_ok s \<Longrightarrow> m < nat (q_numEntries (fst s)) \<Longrightarrow> mq_markPending m s = Inr s' \<Longrightarrow> mq_ok s'"
  by (cases s) (auto simp: mq_ok_def mq_markPending_def ent_simps svc_def intro!: q_ok_pend)

text \<open>
  The search in \<open>MSHRQueue::delay\<close> starts at the delayed register itself, which satisfies the test, so that
  the register is never moved.
\<close>

lemma mq_delay_stays: "mq_delay now m d (q, h) = Inr (q', h') \<Longrightarrow> q' = q \<and> mshr_delay now m d h = Inr h'"
proof -
  have "find (\<lambda>k. f m \<ge> f k) (dropWhile (\<lambda>j. j \<noteq> m) xs) = Some m" if "m \<in> set xs" for xs and f :: "nat \<Rightarrow> tick"
    using that by (induction xs) auto
  then show "mq_delay now m d (q, h) = Inr (q', h') \<Longrightarrow> q' = q \<and> mshr_delay now m d h = Inr h'"
    by (auto simp: mq_delay_def bindR_eq_Inr_iff checkR_eq_Inr_iff splice_def)
qed

lemma mq_delay_ok: "mq_ok s \<Longrightarrow> mq_delay now m d s = Inr s' \<Longrightarrow> mq_ok s'"
  by (cases s; cases s') (auto simp: mq_ok_def q_ok_time dest!: mq_delay_stays mshr_delay_ent)

lemma promoteDeferred_ok: "mq_ok (q, h) \<Longrightarrow> promoteDeferredTargets now m h = Inr (h', b) \<Longrightarrow> mq_ok (q, h')"
  by (auto simp: mq_ok_def q_ok_time dest!: promoteDeferred_ent)

lemma forceDeallocate_ok:
  assumes ok: "mq_ok s" and fd: "forceDeallocateTarget now m s = Inr (s', b)"
  shows "mq_ok s'"
proof -
  obtain q h where s: "s = (q, h)" by (cases s)
  obtain h1 x1 where pop: "popTarget m h = Inr h1" and x1: "mshr_at h1 m = Inr x1"
    and r: "(if tl_targets (m_targets x1) = []
        then bindR (promoteDeferredTargets now m h1) (\<lambda>(h2, promoted). if promoted then Inr (q, h2) else mq_deallocate m (q, h2))
        else Inr (q, h1)) = Inr s'"
    using fd unfolding s by (auto simp: forceDeallocateTarget_def bindR_eq_Inr_iff checkR_eq_Inr_iff)
  have 1: "mq_ok (q, h1)" using ok ent_keeps(8) [OF pop] by (simp add: mq_ok_def s)
  show ?thesis
  proof (cases "tl_targets (m_targets x1) = []")
    case True
    then obtain h2 p where pr: "promoteDeferredTargets now m h1 = Inr (h2, p)"
      and "(if p then Inr (q, h2) else mq_deallocate m (q, h2)) = Inr s'"
      using r by (auto simp: bindR_eq_Inr_iff)
    then show ?thesis using promoteDeferred_ok [OF 1 pr] mq_deallocate_ok by (auto split: if_splits)
  next
    case False
    then show ?thesis using r 1 by simp
  qed
qed

lemma wq_allocate_E:
  assumes "wq_allocate h now ba bs pp t ord (q, w) = Inr (s', e)"
  obtains es x w1 q1 where "q_freeList q = e # es" "w e = Some x" "we_targets x = []"
    "we_allocate h now e ba bs pp t ord w = Inr w1" "q_enter (we_rt w1) e q = Inr q1" "s' = (q1, w1)"
  using assms by (cases "q_freeList q") (auto simp: wq_allocate_def bindR_eq_Inr_iff checkR_eq_Inr_iff we_at_Inr)

lemma wq_allocate_ok:
  assumes "wq_ok s" "wq_allocate h now ba bs pp t ord s = Inr (s', e)"
  shows "wq_ok s'"
proof -
  obtain q w where s: "s = (q, w)" by (cases s)
  obtain es x w1 q1 where free: "q_freeList q = e # es" and al: "we_allocate h now e ba bs pp t ord w = Inr w1"
    and en: "q_enter (we_rt w1) e q = Inr q1" and s': "s' = (q1, w1)"
    using assms(2) unfolding s by (rule wq_allocate_E)
  have "q_ok (we_ent w) q" using assms(1) by (simp add: wq_ok_def s)
  then show ?thesis using ws.enter_ok [OF _ free _ en] al unfolding wq_ok_def s' by fastforce
qed

lemma wq_deallocate_ok: "wq_ok s \<Longrightarrow> wq_deallocate e s = Inr s' \<Longrightarrow> wq_ok s'"
  by (cases s) (auto simp: wq_ok_def wq_deallocate_def bindR_eq_Inr_iff we_at_Inr svc_def we_ent_def dest!: ws.release_ok [rotated])

lemma wq_markInService_ok: "wq_ok s \<Longrightarrow> wq_markInService e s = Inr s' \<Longrightarrow> wq_ok s'"
proof -
  have "wq_ok (q, w) \<Longrightarrow> we_popTarget e w = Inr w' \<Longrightarrow> wq_ok (q, w')" for q w w'
    by (auto simp: wq_ok_def we_popTarget_def bindR_eq_Inr_iff checkR_eq_Inr_iff we_at_Inr we_ent_upd q_ok_time we_ent_def
        intro: q_ok_time [THEN iffD2])
  then show "wq_ok s \<Longrightarrow> wq_markInService e s = Inr s' \<Longrightarrow> wq_ok s'"
    by (cases s) (auto simp: wq_markInService_def bindR_eq_Inr_iff intro: wq_deallocate_ok)
qed

end
