(* ===== verification/Cache_Queues.thy ===== *)
theory Cache_Queues
  imports Mem_Queue_Inv Cache_Blk
begin

text \<open>
  The part of the classic cache controller (\<open>mem/cache/base.cc\<close> and \<open>base.hh\<close>) that works on its miss
  queue and its write buffer: when the cache blocks and unblocks its port, how requests enter and
  leave the queues, which request is sent next, and the write allocator.  The state holds the two
  queues, the store of packets and registers, and the flags of the response port.  The tags, the
  prefetcher, the ports beyond it and the event queue appear as arguments and as lists of the calls
  made to them.
\<close>

section \<open>Write allocator\<close>

datatype write_mode = WA_ALLOCATE | WA_COALESCE | WA_NO_ALLOCATE

record write_allocator =
  wa_mode :: write_mode
  wa_nextAddr :: addr
  wa_byteCount :: uint32
  wa_coalesceLimit :: uint32
  wa_noAllocateLimit :: uint32
  wa_delayThreshold :: uint32
  wa_delayCtr :: "addr \<rightharpoonup> int"

definition wa_reset :: "write_allocator \<Rightarrow> write_allocator" where
  "wa_reset a = a\<lparr>wa_mode := WA_ALLOCATE, wa_byteCount := 0, wa_nextAddr := 0\<rparr>"

definition newWriteAllocator :: "uint32 \<Rightarrow> uint32 \<Rightarrow> uint32 \<Rightarrow> uint32 \<Rightarrow> write_allocator" where
  "newWriteAllocator coalesce_limit no_allocate_limit delay_threshold block_size =
     wa_reset \<lparr>wa_mode = WA_ALLOCATE, wa_nextAddr = 0, wa_byteCount = 0, wa_coalesceLimit = coalesce_limit * block_size,
       wa_noAllocateLimit = no_allocate_limit * block_size, wa_delayThreshold = delay_threshold, wa_delayCtr = Map.empty\<rparr>"

definition wa_coalesce :: "write_allocator \<Rightarrow> bool" where
  "wa_coalesce a \<longleftrightarrow> wa_mode a \<noteq> WA_ALLOCATE"

definition wa_allocate :: "write_allocator \<Rightarrow> bool" where
  "wa_allocate a \<longleftrightarrow> wa_mode a \<noteq> WA_NO_ALLOCATE"

definition wa_counter :: "addr \<Rightarrow> write_allocator \<Rightarrow> int" where
  "wa_counter b a = (case wa_delayCtr a b of None \<Rightarrow> 0 | Some c \<Rightarrow> c)"

definition wa_delay :: "addr \<Rightarrow> write_allocator \<Rightarrow> bool \<times> write_allocator" where
  "wa_delay b a = (let c = wa_counter b a in
     if c > 0 then (True, a\<lparr>wa_delayCtr := (wa_delayCtr a)(b \<mapsto> c - 1)\<rparr>)
     else (False, a\<lparr>wa_delayCtr := (wa_delayCtr a)(b \<mapsto> c)\<rparr>))"

definition wa_resetDelay :: "addr \<Rightarrow> write_allocator \<Rightarrow> write_allocator" where
  "wa_resetDelay b a = a\<lparr>wa_delayCtr := (wa_delayCtr a)(b := None)\<rparr>"

definition wa_updateMode :: "addr \<Rightarrow> uint32 \<Rightarrow> addr \<Rightarrow> write_allocator \<Rightarrow> write_allocator" where
  "wa_updateMode write_addr write_size b a =
     (let a1 = (if wa_nextAddr a = write_addr then
                  let a2 = a\<lparr>wa_delayCtr := (wa_delayCtr a)(b \<mapsto> uint (wa_delayThreshold a))\<rparr> in
                  if wa_mode a2 \<noteq> WA_NO_ALLOCATE then
                    let a3 = a2\<lparr>wa_byteCount := wa_byteCount a2 + write_size\<rparr> in
                    if wa_mode a3 = WA_ALLOCATE \<and> wa_byteCount a3 > wa_coalesceLimit a3 then a3\<lparr>wa_mode := WA_COALESCE\<rparr>
                    else if wa_mode a3 = WA_COALESCE \<and> wa_byteCount a3 > wa_noAllocateLimit a3
                    then a3\<lparr>wa_mode := WA_NO_ALLOCATE\<rparr>
                    else a3
                  else a2
                else wa_resetDelay b (a\<lparr>wa_byteCount := write_size, wa_mode := WA_ALLOCATE\<rparr>))
      in a1\<lparr>wa_nextAddr := write_addr + ucast write_size\<rparr>)"

section \<open>State\<close>

datatype blocked_cause = Blocked_NoMSHRs | Blocked_NoWBBuffers | Blocked_NoTargets

fun cause_flag :: "blocked_cause \<Rightarrow> 8 word" where
  "cause_flag Blocked_NoMSHRs = 1"
| "cause_flag Blocked_NoWBBuffers = 2"
| "cause_flag Blocked_NoTargets = 4"

text \<open>\<open>rp_retryAt\<close> is the time for which \<open>sendRetryEvent\<close> is scheduled.\<close>

record response_port =
  rp_blocked :: bool
  rp_mustSendRetry :: bool
  rp_retryAt :: "tick option"

datatype prefetch_note = PfHitInCache | PfHitInMSHR | PfHitInWB

record base_cache =
  bc_mshrQueue :: mshr_queue
  bc_writeBuffer :: mem_queue
  bc_heap :: mem_heap
  bc_writes :: write_store
  bc_writeAllocator :: "write_allocator option"
  bc_blkSize :: uint32
  bc_mostlyIncl :: bool
  bc_numTarget :: int
  bc_blocked :: "8 word"
  bc_order :: int
  bc_noTargetMSHR :: "nat option"
  bc_pendingDelete :: "nat option"
  bc_port :: response_port
  bc_blockedCauses :: "blocked_cause \<Rightarrow> nat"
  bc_blockedCycle :: uint64
  bc_blockedCycles :: "blocked_cause \<Rightarrow> uint64"
  bc_sends :: "tick list"
  bc_pfNotes :: "prefetch_note list"

abbreviation bc_mq :: "base_cache \<Rightarrow> mq_state" where "bc_mq c \<equiv> (bc_mshrQueue c, bc_heap c)"
abbreviation bc_wq :: "base_cache \<Rightarrow> wq_state" where "bc_wq c \<equiv> (bc_writeBuffer c, bc_writes c)"

definition set_mq :: "mq_state \<Rightarrow> base_cache \<Rightarrow> base_cache" where
  "set_mq s c = c\<lparr>bc_mshrQueue := fst s, bc_heap := snd s\<rparr>"

definition set_wq :: "wq_state \<Rightarrow> base_cache \<Rightarrow> base_cache" where
  "set_wq s c = c\<lparr>bc_writeBuffer := fst s, bc_writes := snd s\<rparr>"

definition del_pkt :: "nat \<Rightarrow> base_cache \<Rightarrow> base_cache" where
  "del_pkt p c = c\<lparr>bc_heap := (bc_heap c)\<lparr>h_pkts := (h_pkts (bc_heap c))(p := None)\<rparr>\<rparr>"

definition pendingDelete_reset :: "nat \<Rightarrow> base_cache \<Rightarrow> base_cache" where
  "pendingDelete_reset p c =
     (case bc_pendingDelete c of None \<Rightarrow> c | Some old \<Rightarrow> del_pkt old c)\<lparr>bc_pendingDelete := Some p\<rparr>"

section \<open>Blocking\<close>

definition port_setBlocked :: "response_port \<Rightarrow> response_port res" where
  "port_setBlocked p = checkR AssertFail (\<not> rp_blocked p)
     (let p1 = p\<lparr>rp_blocked := True\<rparr> in
      Inr (if rp_retryAt p1 \<noteq> None then p1\<lparr>rp_retryAt := None, rp_mustSendRetry := True\<rparr> else p1))"

text \<open>Scheduling an event that is scheduled already is an assertion failure of the event queue.\<close>

definition port_clearBlocked :: "tick \<Rightarrow> response_port \<Rightarrow> response_port res" where
  "port_clearBlocked now p = checkR AssertFail (rp_blocked p)
     (let p1 = p\<lparr>rp_blocked := False\<rparr> in
      if rp_mustSendRetry p1 then checkR AssertFail (rp_retryAt p1 = None) (Inr (p1\<lparr>rp_retryAt := Some (now + 1)\<rparr>))
      else Inr p1)"

text \<open>The event has fired; \<open>sendRetryReq\<close> is a call to the peer.\<close>

definition processSendRetry :: "response_port \<Rightarrow> response_port" where
  "processSendRetry p = p\<lparr>rp_retryAt := None, rp_mustSendRetry := False\<rparr>"

definition tryTiming :: "bool \<Rightarrow> packet \<Rightarrow> response_port \<Rightarrow> bool \<times> response_port" where
  "tryTiming bypassCaches pkt p =
     (if bypassCaches \<or> pkt_isSet pkt EXPRESS_SNOOP then (True, p)
      else if rp_blocked p \<or> rp_mustSendRetry p then (False, p\<lparr>rp_mustSendRetry := True\<rparr>)
      else (True, p\<lparr>rp_mustSendRetry := False\<rparr>))"

definition isBlocked :: "base_cache \<Rightarrow> bool" where
  "isBlocked c \<longleftrightarrow> bc_blocked c \<noteq> 0"

definition setBlocked :: "uint64 \<Rightarrow> blocked_cause \<Rightarrow> base_cache \<Rightarrow> base_cache res" where
  "setBlocked cycle cause c =
     bindR (if bc_blocked c = 0
            then bindR (port_setBlocked (bc_port c)) (\<lambda>p.
              Inr (c\<lparr>bc_blockedCauses := (bc_blockedCauses c)(cause := bc_blockedCauses c cause + 1),
                     bc_blockedCycle := cycle, bc_port := p\<rparr>))
            else Inr c)
       (\<lambda>c1. Inr (c1\<lparr>bc_blocked := or (bc_blocked c1) (cause_flag cause)\<rparr>))"

definition clearBlocked :: "tick \<Rightarrow> uint64 \<Rightarrow> blocked_cause \<Rightarrow> base_cache \<Rightarrow> base_cache res" where
  "clearBlocked now cycle cause c =
     (let c1 = c\<lparr>bc_blocked := and (bc_blocked c) (not (cause_flag cause))\<rparr> in
      if bc_blocked c1 = 0
      then bindR (port_clearBlocked now (bc_port c1)) (\<lambda>p.
        Inr (c1\<lparr>bc_blockedCycles := (bc_blockedCycles c1)(cause := bc_blockedCycles c1 cause + (cycle - bc_blockedCycle c1)),
                bc_port := p\<rparr>))
      else Inr c1)"

definition schedMemSideSendEvent :: "tick \<Rightarrow> base_cache \<Rightarrow> base_cache" where
  "schedMemSideSendEvent t c = c\<lparr>bc_sends := bc_sends c @ [t]\<rparr>"

section \<open>Entering the queues\<close>

definition allocOnFill :: "command \<Rightarrow> base_cache \<Rightarrow> bool" where
  "allocOnFill cmd c \<longleftrightarrow> bc_mostlyIncl c \<or> cmd = WriteLineReq \<or> cmd = ReadReq \<or> cmd = WriteReq \<or> cmd_isPrefetch cmd \<or>
     cmd_isLLSC cmd"

definition allocateMissBuffer :: "tick \<Rightarrow> uint64 \<Rightarrow> nat \<Rightarrow> tick \<Rightarrow> bool \<Rightarrow> base_cache \<Rightarrow> (base_cache \<times> nat) res" where
  "allocateMissBuffer now cycle pp t sched_send c =
     bindR (pkt_at (bc_heap c) pp) (\<lambda>p. bindR (pkt_getBlockAddr (bc_blkSize c) p) (\<lambda>a.
     bindR (mq_allocate now a (bc_blkSize c) pp t (bc_order c) (allocOnFill (pkt_cmd p) c) (bc_mq c)) (\<lambda>(s, m).
     let c1 = (set_mq s c)\<lparr>bc_order := bc_order c + 1\<rparr> in
     bindR (if q_isFull (bc_mshrQueue c1) then setBlocked cycle Blocked_NoMSHRs c1 else Inr c1) (\<lambda>c2.
     Inr (if sched_send then schedMemSideSendEvent t c2 else c2, m)))))"

text \<open>
  \<open>payload\<close> is the payload delay of the packet, which a cache with a compressor adds to the time.  The search
  for an entry of the same block only prints a message, but it can fail an assertion.
\<close>

definition allocateWriteBuffer :: "tick \<Rightarrow> uint64 \<Rightarrow> tick option \<Rightarrow> nat \<Rightarrow> tick \<Rightarrow> base_cache \<Rightarrow> base_cache res" where
  "allocateWriteBuffer now cycle payload pp t c =
     bindR (pkt_at (bc_heap c) pp) (\<lambda>p. checkR AssertFail (cmd_isWrite (pkt_cmd p) \<or> pkt_cmd p = CleanEvict)
       (bindR (pkt_getBlockAddr (bc_blkSize c) p) (\<lambda>a. bindR (pkt_isSecure p) (\<lambda>sec.
        let t1 = (case payload of None \<Rightarrow> t | Some d \<Rightarrow> t + d) in
        bindR (wq_findMatch a sec True (bc_wq c)) (\<lambda>_.
        bindR (wq_allocate (bc_heap c) now a (bc_blkSize c) pp t1 (bc_order c) (bc_wq c)) (\<lambda>(s, _).
        let c1 = (set_wq s c)\<lparr>bc_order := bc_order c + 1\<rparr> in
        bindR (if q_isFull (bc_writeBuffer c1) then setBlocked cycle Blocked_NoWBBuffers c1 else Inr c1) (\<lambda>c2.
        Inr (schedMemSideSendEvent t1 c2))))))))"

text \<open>
  The handler of a request that misses, in its three parts: what the write allocator learns, a request
  that finds a register for its block, and one that finds none.  \<open>blk\<close> is the block the request found,
  which the handler may mark as not readable.  A null packet stands for a software prefetch that was
  answered already.
\<close>

definition miss_updateMode :: "nat option \<Rightarrow> base_cache \<Rightarrow> base_cache res" where
  "miss_updateMode pkt c =
     (case (bc_writeAllocator c, pkt) of
         (Some a, Some pp) \<Rightarrow> bindR (pkt_at (bc_heap c) pp) (\<lambda>p.
            if cmd_isWrite (pkt_cmd p) \<and> \<not> rq_isUncacheable (pkt_req p)
            then bindR (pkt_getAddr p) (\<lambda>wa. bindR (pkt_getSize p) (\<lambda>sz. bindR (pkt_getBlockAddr (bc_blkSize c) p) (\<lambda>ba.
                 Inr (c\<lparr>bc_writeAllocator := Some (wa_updateMode wa sz ba a)\<rparr>))))
            else Inr c)
       | _ \<Rightarrow> Inr c)"

definition miss_coalesce :: "tick \<Rightarrow> uint64 \<Rightarrow> tick option \<Rightarrow> nat \<Rightarrow> nat \<Rightarrow> tick \<Rightarrow> base_cache \<Rightarrow> base_cache res" where
  "miss_coalesce now cycle payload pp m forward_time c =
     bindR (pkt_at (bc_heap c) pp) (\<lambda>p. checkR AssertFail (\<not> cmd_isWriteback (pkt_cmd p))
       (if pkt_cmd p = CleanEvict then Inr (pendingDelete_reset pp c)
        else if pkt_cmd p = WriteClean then allocateWriteBuffer now cycle payload pp forward_time c
        else bindR (allocateTarget now m pp forward_time (bc_order c) (allocOnFill (pkt_cmd p) c) (bc_heap c)) (\<lambda>h1.
             let c1 = c\<lparr>bc_heap := h1, bc_order := bc_order c + 1\<rparr> in
             bindR (mshr_at h1 m) (\<lambda>x.
             if int (getNumTargets x) \<ge> bc_numTarget c1
             then setBlocked cycle Blocked_NoTargets (c1\<lparr>bc_noTargetMSHR := Some m\<rparr>) else Inr c1))))"

definition miss_block :: "packet \<Rightarrow> cache_blk option \<Rightarrow> cache_blk option res" where
  "miss_block p blk = (case blk of None \<Rightarrow> Inr None
     | Some b \<Rightarrow> if te_valid b
         then bindR (pkt_needsWritable p) (\<lambda>nw.
              checkR AssertFail (nw \<and> \<not> isSet WritableBit b \<or> rq_isCacheMaintenance (pkt_req p))
                (Inr (Some (clearCoherenceBits ReadableBit b))))
         else Inr (Some b))"

definition miss_allocate ::
  "tick \<Rightarrow> uint64 \<Rightarrow> tick option \<Rightarrow> nat \<Rightarrow> cache_blk option \<Rightarrow> tick \<Rightarrow> base_cache \<Rightarrow> (base_cache \<times> cache_blk option) res" where
  "miss_allocate now cycle payload pp blk forward_time c =
     bindR (pkt_at (bc_heap c) pp) (\<lambda>p.
     if cmd_isEviction (pkt_cmd p) \<or> pkt_cmd p = WriteClean
     then bindR (allocateWriteBuffer now cycle payload pp forward_time c) (\<lambda>c1. Inr (c1, blk))
     else bindR (miss_block p blk) (\<lambda>blk1.
          bindR (allocateMissBuffer now cycle pp forward_time True c) (\<lambda>(c1, _). Inr (c1, blk1))))"

definition handleTimingReqMiss ::
  "tick \<Rightarrow> uint64 \<Rightarrow> tick option \<Rightarrow> nat option \<Rightarrow> nat option \<Rightarrow> cache_blk option \<Rightarrow> tick \<Rightarrow> base_cache \<Rightarrow>
     (base_cache \<times> cache_blk option) res" where
  "handleTimingReqMiss now cycle payload pkt mshr blk forward_time c =
     bindR (miss_updateMode pkt c) (\<lambda>c0.
     case mshr of
       Some m \<Rightarrow> (case pkt of None \<Rightarrow> Inr (c0, blk)
         | Some pp \<Rightarrow> bindR (miss_coalesce now cycle payload pp m forward_time c0) (\<lambda>c1. Inr (c1, blk)))
     | None \<Rightarrow> (case pkt of None \<Rightarrow> Inl NullDeref
         | Some pp \<Rightarrow> miss_allocate now cycle payload pp blk forward_time c0))"

section \<open>Leaving the queues\<close>

definition markInService_miss :: "tick \<Rightarrow> uint64 \<Rightarrow> nat \<Rightarrow> bool \<Rightarrow> base_cache \<Rightarrow> base_cache res" where
  "markInService_miss now cycle m pending_modified_resp c =
     bindR (mq_markInService m pending_modified_resp (bc_mq c)) (\<lambda>s.
     let c1 = set_mq s c in
     if q_isFull (bc_mshrQueue c) \<and> \<not> q_isFull (bc_mshrQueue c1) then clearBlocked now cycle Blocked_NoMSHRs c1 else Inr c1)"

definition markInService_write :: "tick \<Rightarrow> uint64 \<Rightarrow> nat \<Rightarrow> base_cache \<Rightarrow> base_cache res" where
  "markInService_write now cycle e c =
     bindR (wq_markInService e (bc_wq c)) (\<lambda>s.
     let c1 = set_wq s c in
     if q_isFull (bc_writeBuffer c) \<and> \<not> q_isFull (bc_writeBuffer c1) then clearBlocked now cycle Blocked_NoWBBuffers c1
     else Inr c1)"

text \<open>\<open>sent\<close> is the answer of the memory side port to \<open>sendTimingReq\<close>; the result is whether to wait for a retry.\<close>

definition sendWriteQueuePacket :: "tick \<Rightarrow> uint64 \<Rightarrow> bool \<Rightarrow> nat \<Rightarrow> base_cache \<Rightarrow> (base_cache \<times> bool) res" where
  "sendWriteQueuePacket now cycle sent e c =
     bindR (we_at (bc_writes c) e) (\<lambda>x. checkR AssertFail (we_targets x \<noteq> [])
       (if \<not> sent then Inr (c, True)
        else bindR (markInService_write now cycle e c) (\<lambda>c1. Inr (c1, False))))"

text \<open>The first step of \<open>recvTimingResp\<close> once it has the register: it unblocks a cache that was out of targets.\<close>

definition resp_unblock :: "tick \<Rightarrow> uint64 \<Rightarrow> nat \<Rightarrow> base_cache \<Rightarrow> base_cache res" where
  "resp_unblock now cycle m c =
     (if bc_noTargetMSHR c = Some m
      then bindR (clearBlocked now cycle Blocked_NoTargets c) (\<lambda>c1. Inr (c1\<lparr>bc_noTargetMSHR := None\<rparr>))
      else Inr c)"

text \<open>
  The end of \<open>recvTimingResp\<close>, after the targets were served: the register goes back to the ready list
  when deferred targets were promoted, and is freed otherwise.  \<open>resend\<close> is the time of the clock edge
  plus the payload delay, \<open>pf\<close> the time of the next prefetch when there is a prefetcher, not before the
  clock edge.
\<close>

definition resp_release ::
  "tick \<Rightarrow> uint64 \<Rightarrow> tick \<Rightarrow> tick option \<Rightarrow> nat \<Rightarrow> cache_blk option \<Rightarrow> base_cache \<Rightarrow> (base_cache \<times> cache_blk option) res" where
  "resp_release now cycle resend pf m blk c =
     bindR (hasLockedRMWReadTarget m (bc_heap c)) (\<lambda>locked.
     if locked then Inr (c, blk)
     else bindR (promoteDeferredTargets now m (bc_heap c)) (\<lambda>(h1, promoted).
       let c1 = c\<lparr>bc_heap := h1\<rparr> in
       if promoted then
         bindR (mq_markPending m (bc_mq c1)) (\<lambda>s.
         Inr (schedMemSideSendEvent resend (set_mq s c1), map_option (clearCoherenceBits ReadableBit) blk))
       else
         bindR (mq_deallocate m (bc_mq c1)) (\<lambda>s.
         let c2 = set_mq s c1 in
         bindR (if q_isFull (bc_mshrQueue c1) \<and> \<not> q_isFull (bc_mshrQueue c2) then clearBlocked now cycle Blocked_NoMSHRs c2
                else Inr c2) (\<lambda>c3.
         Inr (case pf of None \<Rightarrow> c3
              | Some t \<Rightarrow> if canPrefetch (bc_mshrQueue c3) \<and> \<not> isBlocked c3 \<and> t \<noteq> MaxTick
                  then schedMemSideSendEvent t c3 else c3, blk)))))"

section \<open>Choosing what to send next\<close>

datatype next_entry = NextMiss nat | NextWrite nat | NextNone

definition mshr_matches :: "base_cache \<Rightarrow> nat \<Rightarrow> addr \<Rightarrow> bool \<Rightarrow> bool res" where
  "mshr_matches c m a sec = bindR (mshr_at (bc_heap c) m) (mshr_matchBlockAddr a sec)"

definition we_matches :: "base_cache \<Rightarrow> nat \<Rightarrow> addr \<Rightarrow> bool \<Rightarrow> bool res" where
  "we_matches c e a sec = bindR (we_at (bc_writes c) e) (we_matchBlockAddr a sec)"

text \<open>
  \<open>pf\<close> is the packet that a prefetcher offers, if there is one and it has one; \<open>inTags\<close> is whether the tags hold a
  block.
\<close>

definition tryPrefetch ::
  "tick \<Rightarrow> uint64 \<Rightarrow> (addr \<Rightarrow> bool \<Rightarrow> bool) \<Rightarrow> nat option \<Rightarrow> base_cache \<Rightarrow> (base_cache \<times> next_entry) res" where
  "tryPrefetch now cycle inTags pf c =
     (case pf of None \<Rightarrow> Inr (c, NextNone)
      | Some pp \<Rightarrow>
        if canPrefetch (bc_mshrQueue c) \<and> \<not> isBlocked c then
          bindR (pkt_at (bc_heap c) pp) (\<lambda>p. bindR (pkt_getBlockAddr (bc_blkSize c) p) (\<lambda>a. bindR (pkt_isSecure p) (\<lambda>sec.
          let drop_it = (\<lambda>n. Inr ((del_pkt pp c)\<lparr>bc_pfNotes := bc_pfNotes c @ [n]\<rparr>, NextNone)) in
          if inTags a sec then drop_it PfHitInCache
          else bindR (mq_findMatch a sec True (bc_mq c)) (\<lambda>mm.
            if mm \<noteq> None then drop_it PfHitInMSHR
            else bindR (wq_findMatch a sec True (bc_wq c)) (\<lambda>ww.
              if ww \<noteq> None then drop_it PfHitInWB
              else bindR (allocateMissBuffer now cycle pp now False c) (\<lambda>(c1, m). Inr (c1, NextMiss m)))))))
        else Inr (c, NextNone))"

text \<open>
  The first branch: the write \<open>e\<close> is due, and the write buffer is full or no register is due.  The second:
  the register \<open>m\<close> is due.
\<close>

definition next_write :: "nat \<Rightarrow> base_cache \<Rightarrow> next_entry res" where
  "next_write e c = bindR (mq_findPending (we_matches c e) (bc_mq c)) (\<lambda>conf. case conf of
       Some m \<Rightarrow> bindR (mshr_at (bc_heap c) m) (\<lambda>x. bindR (we_at (bc_writes c) e) (\<lambda>y.
         Inr (if qe_order x < qe_order y then NextMiss m else NextWrite e)))
     | None \<Rightarrow> Inr (NextWrite e))"

definition next_miss :: "nat \<Rightarrow> base_cache \<Rightarrow> next_entry res" where
  "next_miss m c = bindR (wq_findPending (mshr_matches c m) (bc_wq c)) (\<lambda>conf.
     Inr (case conf of Some e \<Rightarrow> NextWrite e | None \<Rightarrow> NextMiss m))"

definition getNextQueueEntry ::
  "tick \<Rightarrow> uint64 \<Rightarrow> (addr \<Rightarrow> bool \<Rightarrow> bool) \<Rightarrow> nat option \<Rightarrow> base_cache \<Rightarrow> (base_cache \<times> next_entry) res" where
  "getNextQueueEntry now cycle inTags pf c =
     (let keep = (\<lambda>r. bindR r (\<lambda>n. Inr (c, n))) in
      case (wq_getNext now (bc_wq c), mq_getNext now (bc_mq c)) of
        (Some e, miss) \<Rightarrow> if q_isFull (bc_writeBuffer c) then keep (next_write e c)
          else (case miss of None \<Rightarrow> keep (next_write e c) | Some m \<Rightarrow> keep (next_miss m c))
      | (None, Some m) \<Rightarrow> keep (next_miss m c)
      | (None, None) \<Rightarrow> tryPrefetch now cycle inTags pf c)"

definition nextQueueReadyTime :: "tick option \<Rightarrow> base_cache \<Rightarrow> tick" where
  "nextQueueReadyTime pf c =
     (let t = min (q_nextReadyTime (mshr_rt (bc_heap c)) (bc_mshrQueue c)) (q_nextReadyTime (we_rt (bc_writes c)) (bc_writeBuffer c))
      in case pf of None \<Rightarrow> t
         | Some pt \<Rightarrow> if canPrefetch (bc_mshrQueue c) \<and> \<not> isBlocked c then min t pt else t)"

end
