(* ===== verification/Mshr_Order.thy ===== *)
theory Mshr_Order
  imports Mshr_View
begin

text \<open>
  A miss status register serves the requests of the processor side exactly in the order in which they
  were added, whatever snoops, deferrals, promotions and partial responses come in between.
\<close>

section \<open>What the operations do to the lists of targets\<close>

type_synonym target_key = "nat \<times> int \<times> source"

definition keys :: "target list \<Rightarrow> target_key list" where
  "keys ts = map (\<lambda>t. (t_pkt t, t_order t, t_source t)) ts"

definition shape :: "mem_heap \<Rightarrow> nat \<Rightarrow> (target_key list \<times> target_key list) option" where
  "shape h m = map_option (\<lambda>x. (keys (tl_targets (m_targets x)), keys (tl_targets (m_deferred x)))) (h_mshrs h m)"

lemma keys_simps [simp]: "keys [] = []" "keys (t # ts) = (t_pkt t, t_order t, t_source t) # keys ts"
    "keys (ts @ us) = keys ts @ keys us" "length (keys ts) = length ts" "keys (take n ts) = take n (keys ts)"
    "keys (drop n ts) = drop n (keys ts)" "keys ts = [] \<longleftrightarrow> ts = []"
  by (simp_all add: keys_def take_map drop_map)

lemma shape_put_pkt [simp]: "shape (put_pkt p x h) = shape h"
  by (simp add: shape_def put_pkt_def fun_eq_iff)

lemma shape_upd:
  assumes "\<And>x. keys (tl_targets (m_targets (f x))) = keys (tl_targets (m_targets x))"
    "\<And>x. keys (tl_targets (m_deferred (f x))) = keys (tl_targets (m_deferred x))"
  shows "shape (upd_mshr m f h) = shape h"
  using assms by (auto simp: shape_def upd_mshr_def fun_eq_iff option.map_comp comp_def)

lemma shape_upd_same: "shape (upd_mshr m f h) m =
    map_option (\<lambda>x. (keys (tl_targets (m_targets (f x))), keys (tl_targets (m_deferred (f x))))) (h_mshrs h m)"
  by (simp add: shape_def upd_mshr_def option.map_comp comp_def)

lemma updateWriteFlags_targets: "updateWriteFlags p L = Inr L' \<Longrightarrow> tl_targets L' = tl_targets L"
  by (auto simp: updateWriteFlags_def res_simps Let_def split: if_splits)

lemma updateFlags_targets: "updateFlags p src b L = Inr L' \<Longrightarrow> tl_targets L' = tl_targets L"
  by (auto simp: updateFlags_def res_simps Let_def split: if_splits dest!: updateWriteFlags_targets)

lemma populate_loop_targets: "populate_loop h ts L = Inr L' \<Longrightarrow> tl_targets L' = tl_targets L"
  by (induction ts arbitrary: L) (auto simp: res_simps dest!: updateFlags_targets)

lemma populateFlags_targets: "populateFlags h L = Inr L' \<Longrightarrow> tl_targets L' = tl_targets L"
  by (auto simp: populateFlags_def resetFlags_def dest!: populate_loop_targets)

lemma keys_unmark: "keys (ts[i := (ts ! i)\<lparr>t_markedPending := b\<rparr>]) = keys ts"
proof (cases "i < length ts")
  case True
  then have "(t_pkt (ts ! i), t_order (ts ! i), t_source (ts ! i)) = keys ts ! i" by (simp add: keys_def)
  then have "keys (ts[i := (ts ! i)\<lparr>t_markedPending := b\<rparr>]) = (keys ts)[i := keys ts ! i]"
    by (simp add: keys_def map_update)
  then show ?thesis by simp
qed (simp add: list_update_beyond)

lemma unmark_keys: "keys (tl_targets (m_targets (unmark w i x))) = keys (tl_targets (m_targets x))"
    "keys (tl_targets (m_deferred (unmark w i x))) = keys (tl_targets (m_deferred x))"
  using keys_unmark by (cases w; simp add: unmark_def Let_def)+

interpretation tk: mshr_view "\<lambda>x. (keys (tl_targets (m_targets x)), keys (tl_targets (m_deferred x)))"
proof
  show "(keys (tl_targets (m_targets (set_list w ((get_list w x)\<lparr>tl_hasUpgrade := b\<rparr>) x))),
      keys (tl_targets (m_deferred (set_list w ((get_list w x)\<lparr>tl_hasUpgrade := b\<rparr>) x)))) =
    (keys (tl_targets (m_targets x)), keys (tl_targets (m_deferred x)))" for w x b
    by (cases w) simp_all
qed (simp_all add: unmark_keys)

lemma shape_view: "shape = view (\<lambda>x. (keys (tl_targets (m_targets x)), keys (tl_targets (m_deferred x))))"
  by (simp add: shape_def view_def fun_eq_iff)

lemma tl_add_keys: "tl_add now pp ready order src mk aof (h, L) = Inr (h', L') \<Longrightarrow>
    keys (tl_targets L') = keys (tl_targets L) @ [(pp, order, src)]"
  by (auto simp: tl_add_def res_simps dest!: updateFlags_targets)

lemmas tl_add_shape = tl_add_keys tk.tl_add_view [folded shape_view]
lemmas replace_in_shape = tk.replace_in_view [folded shape_view]
lemmas clear_list_shape = tk.clear_list_view [folded shape_view]

section \<open>The operations\<close>

lemma split_snoops_keys:
  "split_snoops ts = Inr (rd, rest) \<Longrightarrow>
    rest = filter (\<lambda>t. t_source t = FromCPU) ts \<and> rd = filter (\<lambda>t. t_source t \<noteq> FromCPU) ts"
  by (induction ts arbitrary: rd rest) (auto simp: res_simps split: if_splits)

lemma split_ready_all:
  "split_ready h ts = Inr (rd, rest) \<Longrightarrow> \<forall>t \<in> set ts. \<forall>p. h_pkts h (t_pkt t) = Some p \<longrightarrow> pkt_cmd p \<noteq> LockedRMWReadReq \<Longrightarrow>
    rd = ts \<and> rest = []"
  by (induction ts arbitrary: rd rest) (auto simp: res_simps pkt_at_def split: if_splits option.splits)

lemma split_at_append: "split_at P ts = Inr (pre, post) \<Longrightarrow> pre @ post = ts"
  by (induction ts arbitrary: pre post) (auto simp: res_simps split: if_splits)

text \<open>The requests of the processor side among the targets: packet and order of arrival.\<close>

definition cpu :: "target_key list \<Rightarrow> (nat \<times> int) list" where
  "cpu ks = map (\<lambda>(p, o', s). (p, o')) (filter (\<lambda>(p, o', s). s = FromCPU) ks)"

lemma cpu_simps [simp]: "cpu [] = []" "cpu (k # ks) = (if snd (snd k) = FromCPU then (fst k, fst (snd k)) # cpu ks else cpu ks)"
    "cpu (ks @ js) = cpu ks @ cpu js"
  by (auto simp: cpu_def split: prod.splits)

definition waiting :: "mem_heap \<Rightarrow> nat \<Rightarrow> (nat \<times> int) list" where
  "waiting h m = (case shape h m of None \<Rightarrow> [] | Some (ts, ds) \<Rightarrow> cpu (ts @ ds))"

lemma waiting_shape: "shape h' m = shape h m \<Longrightarrow> waiting h' m = waiting h m"
  by (simp add: waiting_def)

lemma waiting_Some: "h_mshrs h m = Some x \<Longrightarrow>
    waiting h m = cpu (keys (tl_targets (m_targets x)) @ keys (tl_targets (m_deferred x)))"
  by (simp add: waiting_def shape_def)

lemma shape_obtain:
  assumes "shape h' m = shape h m" "h_mshrs h m = Some x"
  obtains x' where "h_mshrs h' m = Some x'" "keys (tl_targets (m_targets x')) = keys (tl_targets (m_targets x))"
    "keys (tl_targets (m_deferred x')) = keys (tl_targets (m_deferred x))"
  using assms by (cases "h_mshrs h' m") (auto simp: shape_def)

text \<open>Adding to one of the lists and storing the result.\<close>

lemma add_store_waiting:
  assumes add: "tl_add now pp w ord src mk aof (h1, L) = Inr (h2, L')" and sh: "shape h1 m = shape h m"
    and x: "h_mshrs h m = Some x"
  shows "keys (tl_targets L) = keys (tl_targets (m_targets x)) \<Longrightarrow> (\<And>y. tl_targets (m_targets (f y)) = tl_targets L') \<Longrightarrow>
      (\<And>y. tl_targets (m_deferred (f y)) = tl_targets (m_deferred y)) \<Longrightarrow>
      waiting (upd_mshr m f h2) m =
        cpu (keys (tl_targets (m_targets x)) @ [(pp, ord, src)] @ keys (tl_targets (m_deferred x)))"
    "keys (tl_targets L) = keys (tl_targets (m_deferred x)) \<Longrightarrow> (\<And>y. tl_targets (m_deferred (f y)) = tl_targets L') \<Longrightarrow>
      (\<And>y. tl_targets (m_targets (f y)) = tl_targets (m_targets y)) \<Longrightarrow>
      waiting (upd_mshr m f h2) m = waiting h m @ cpu [(pp, ord, src)]"
proof -
  note k = tl_add_shape [OF add]
  have "shape h2 m = shape h m" using k(2) sh by simp
  then obtain x2 where x2: "h_mshrs h2 m = Some x2" "keys (tl_targets (m_targets x2)) = keys (tl_targets (m_targets x))"
    "keys (tl_targets (m_deferred x2)) = keys (tl_targets (m_deferred x))"
    by (rule shape_obtain [OF _ x])
  have fx: "h_mshrs (upd_mshr m f h2) m = Some (f x2)" using x2(1) by (simp add: upd_mshr_def)
  show "keys (tl_targets L) = keys (tl_targets (m_targets x)) \<Longrightarrow> (\<And>y. tl_targets (m_targets (f y)) = tl_targets L') \<Longrightarrow>
      (\<And>y. tl_targets (m_deferred (f y)) = tl_targets (m_deferred y)) \<Longrightarrow>
      waiting (upd_mshr m f h2) m =
        cpu (keys (tl_targets (m_targets x)) @ [(pp, ord, src)] @ keys (tl_targets (m_deferred x)))"
    using k(1) x2 by (simp add: waiting_Some [OF fx])
  show "keys (tl_targets L) = keys (tl_targets (m_deferred x)) \<Longrightarrow> (\<And>y. tl_targets (m_deferred (f y)) = tl_targets L') \<Longrightarrow>
      (\<And>y. tl_targets (m_targets (f y)) = tl_targets (m_targets y)) \<Longrightarrow>
      waiting (upd_mshr m f h2) m = waiting h m @ cpu [(pp, ord, src)]"
    using k(1) x2 by (simp add: waiting_Some [OF fx] waiting_Some [OF x])
qed

lemma mshr_allocate_waiting:
  assumes al: "mshr_allocate now m ba bs pp w ord aof h = Inr h'" and x: "h_mshrs h m = Some x" and z: "getNumTargets x = 0"
    and p: "h_pkts h pp = Some p"
  shows "waiting h' m = (if pkt_cmd p = HardPFReq then [] else [(pp, ord)])"
proof -
  let ?src = "if pkt_cmd p = HardPFReq then FromPrefetcher else FromCPU"
  let ?T = "tl_init ba (ucast bs) (m_targets x)"
  let ?f = "\<lambda>sec y. y\<lparr>qe_blkAddr := ba, qe_blkSize := bs, qe_isSecure := sec,
                qe_readyTime := w, qe_order := ord, isForward := False, wasWholeLineWrite := False,
                qe_isUncacheable := rq_isUncacheable (pkt_req p), qe_inService := False, downstreamPending := False,
                m_targets := ?T, m_deferred := tl_init ba (ucast bs) (m_deferred y)\<rparr>"
  have px: "pkt_at h pp = Inr p" "mshr_at h m = Inr x" using p x by (simp_all add: pkt_at_def mshr_at_def)
  obtain sec h2 L where add: "tl_add now pp w ord ?src True aof (upd_mshr m (?f sec) h, ?T) = Inr (h2, L)"
    and h': "h' = upd_mshr m (\<lambda>y. y\<lparr>m_targets := L\<rparr>) h2"
    using al unfolding mshr_allocate_def px bindR_simps Let_def by (auto simp: res_simps)
  have L: "tl_targets ?T = tl_targets (m_targets x)" "tl_targets (tl_init ba (ucast bs) (m_deferred x)) = tl_targets (m_deferred x)"
    by (simp_all add: tl_init_def resetFlags_def)
  then have "shape (upd_mshr m (?f sec) h) m = shape h m" using x by (simp add: shape_upd_same) (simp add: shape_def)
  from add_store_waiting(1) [OF add this x] L(1) z show ?thesis
    unfolding h' by (simp add: getNumTargets_def)
qed

lemma allocateTarget_waiting:
  assumes "allocateTarget now m pp w ord aof h = Inr h'"
  shows "waiting h' m = waiting h m @ [(pp, ord)]"
proof -
  obtain p x f fp d where p: "pkt_at h pp = Inr p" and x: "h_mshrs h m = Some x" and "front_of (m_targets x) = Inr f" "pkt_at h (t_pkt f) = Inr fp"
    and d: "must_defer p fp x = Inr d"
    and r: "(if d then
          bindR (if qe_inService x \<and> postInvalidate x then bindR (replaceUpgrade p) (\<lambda>q. Inr (put_pkt pp q h)) else Inr h)
            (\<lambda>h1. bindR (tl_add now pp w ord FromCPU True aof (h1, m_deferred x)) (\<lambda>(h2, L).
              Inr (upd_mshr m (\<lambda>y. y\<lparr>m_deferred := L\<rparr>) h2)))
        else
          bindR (tl_add now pp w ord FromCPU (\<not> qe_inService x) aof (h, m_targets x)) (\<lambda>(h2, L).
            Inr (upd_mshr m (\<lambda>y. y\<lparr>m_targets := L\<rparr>) h2))) = Inr h'"
    using assms by (auto simp: allocateTarget_def res_simps mshr_at_Inr)
  show ?thesis
  proof (cases d)
    case True
    then obtain h1 h2 L where i: "(if qe_inService x \<and> postInvalidate x
          then bindR (replaceUpgrade p) (\<lambda>q. Inr (put_pkt pp q h)) else Inr h) = Inr h1"
      and add: "tl_add now pp w ord FromCPU True aof (h1, m_deferred x) = Inr (h2, L)"
      and h': "h' = upd_mshr m (\<lambda>y. y\<lparr>m_deferred := L\<rparr>) h2"
      using r by (simp only: True if_True bindR_eq_Inr_iff) auto
    have h1: "shape h1 m = shape h m" using i by (auto simp: res_simps split: if_splits)
    show ?thesis unfolding h' using add_store_waiting(2) [OF add h1 x refl] by simp
  next
    case False
    then obtain h2 L where add: "tl_add now pp w ord FromCPU (\<not> qe_inService x) aof (h, m_targets x) = Inr (h2, L)"
      and h': "h' = upd_mshr m (\<lambda>y. y\<lparr>m_targets := L\<rparr>) h2"
      using r by (auto simp: res_simps)
    have "tl_targets (m_deferred x) = []" using d False by (auto simp: must_defer_def split: if_splits)
    then show ?thesis unfolding h' using add_store_waiting(1) [OF add refl x refl] by (simp add: waiting_Some [OF x])
  qed
qed

lemma snoop_copy_waiting:
  assumes "snoop_copy now m pp ord np rid wr h = Inr h'"
  shows "waiting h' m = waiting h m"
proof -
  obtain p x nw where p: "pkt_at h pp = Inr p" and x: "h_mshrs h m = Some x" and "pkt_needsWritable p = Inr nw"
    and r: "(if pendingModified x \<or> cmd_isInvalidate (pkt_cmd p) then
       bindR (if wr then copyPacket p True True
              else Inr (newPacketBlk rid (pkt_req p) (pkt_cmd p) (sint (qe_blkSize x)) (pkt_id p))) (\<lambda>cp.
       bindR (if wr then bindR (setCacheResponding p) setResponderHadWritable
              else if pendingModified x \<and> cmd_isClean (pkt_cmd p) then setSatisfied p else Inr p) (\<lambda>q.
       bindR (tl_add now np now ord FromSnoop (downstreamPending x \<and> tl_needsWritable (m_targets x)) False
               (put_pkt np cp (put_pkt pp q h), m_targets x)) (\<lambda>(h1, L).
       Inr (upd_mshr m (\<lambda>y. y\<lparr>m_targets := L,
              postInvalidate := postInvalidate y \<or> nw \<or> cmd_isInvalidate (pkt_cmd p)\<rparr>) h1))))
     else Inr h) = Inr h'"
    using assms by (auto simp: snoop_copy_def res_simps mshr_at_Inr)
  show ?thesis
  proof (cases "pendingModified x \<or> cmd_isInvalidate (pkt_cmd p)")
    case True
    then obtain cp q h1 L where
      add: "tl_add now np now ord FromSnoop (downstreamPending x \<and> tl_needsWritable (m_targets x)) False
               (put_pkt np cp (put_pkt pp q h), m_targets x) = Inr (h1, L)"
      and h': "h' = upd_mshr m (\<lambda>y. y\<lparr>m_targets := L, postInvalidate := postInvalidate y \<or> nw \<or> cmd_isInvalidate (pkt_cmd p)\<rparr>) h1"
      using r by (simp only: True if_True bindR_eq_Inr_iff) auto
    show ?thesis unfolding h' using add_store_waiting(1) [OF add _ x refl] by (simp add: waiting_Some [OF x])
  next
    case False
    then show ?thesis using r by simp
  qed
qed

lemma handleSnoop_waiting:
  assumes "handleSnoop now m pp ord np rid h = Inr (h', b)"
  shows "waiting h' m = waiting h m"
proof -
  have sh: "shape (upd_mshr m (\<lambda>y. y\<lparr>postDowngrade := True\<rparr>) h2) = shape h2" for h2 by (rule shape_upd) simp_all
  show ?thesis using assms
    by (auto simp: handleSnoop_def Let_def res_simps waiting_def sh split: if_splits dest!: replace_in_shape snoop_copy_waiting [unfolded waiting_def])
qed

lemma extract_waiting:
  assumes ex: "extractServiceableTargets m pp h = Inr (h', R)" and x: "h_mshrs h m = Some x"
    and nl: "\<forall>t \<in> set (tl_targets (m_targets x)). \<forall>p. h_pkts h (t_pkt t) = Some p \<longrightarrow> pkt_cmd p \<noteq> LockedRMWReadReq"
  shows "cpu (keys (tl_targets R)) @ waiting h' m = waiting h m"
proof -
  let ?ts = "tl_targets (m_targets x)"
  obtain p :: packet and rd rest T where
      sp: "(if pkt_cmd p = ReadRespWithInvalidate then split_inval h ?ts else split_ready h ?ts) = Inr (rd, rest)"
    and R: "populateFlags h ((tl_init (qe_blkAddr x) (ucast (qe_blkSize x)) (newTargetList 0 0 False))\<lparr>tl_targets := rd\<rparr>) = Inr R"
    and T: "populateFlags h ((m_targets x)\<lparr>tl_targets := rest\<rparr>) = Inr T" and h': "h' = upd_mshr m (\<lambda>y. y\<lparr>m_targets := T\<rparr>) h"
    using ex x by (auto simp: extractServiceableTargets_def bindR_eq_Inr_iff mshr_at_Inr)
  have "cpu (keys rd) @ cpu (keys rest) = cpu (keys ?ts)"
  proof (cases "pkt_cmd p = ReadRespWithInvalidate")
    case True
    then obtain t us sn where us: "?ts = t # us" "split_snoops us = Inr (sn, rest)" "rd = t # sn"
      using sp nl by (auto simp: split_inval_def res_simps pkt_at_def split: list.splits if_splits option.splits)
    have f: "cpu (keys (filter (\<lambda>t. t_source t = FromCPU) vs)) = cpu (keys vs)"
        "cpu (keys (filter (\<lambda>t. t_source t \<noteq> FromCPU) vs)) = []" for vs
      by (induction vs) auto
    show ?thesis using split_snoops_keys [OF us(2)] us f by simp
  next
    case False
    then show ?thesis using sp split_ready_all [OF _ nl] by auto
  qed
  moreover have "h_mshrs h' m = Some (x\<lparr>m_targets := T\<rparr>)" using x by (simp add: h' upd_mshr_def)
  moreover have "tl_targets R = rd" "tl_targets T = rest" using populateFlags_targets [OF R] populateFlags_targets [OF T] by simp_all
  ultimately show ?thesis by (simp add: waiting_Some [OF x] waiting_Some)
qed

lemma promoteDeferred_waiting:
  assumes "promoteDeferredTargets now m h = Inr (h', b)"
  shows "waiting h' m = waiting h m"
proof -
  obtain x where x: "h_mshrs h m = Some x" using assms by (auto simp: promoteDeferredTargets_def bindR_eq_Inr_iff mshr_at_Inr)
  let ?ts = "tl_targets (m_targets x)" and ?ds = "tl_targets (m_deferred x)"
  show ?thesis
  proof (cases "?ts = [] \<and> ?ds = []")
    case True
    then show ?thesis using assms x by (simp add: promoteDeferredTargets_def mshr_at_def Let_def)
  next
    case False
    let ?c = "\<lambda>pre post. if pre \<noteq> [] then (pre, post) else if ?ts = [] then (take 1 post, drop 1 post) else ([], post)"
    obtain pre post
      where sp: "split_at (\<lambda>t. bindR (pkt_at h (t_pkt t)) (\<lambda>p. Inr (rq_isCacheMaintenance (pkt_req p)))) ?ds = Inr (pre, post)"
      using assms x False unfolding promoteDeferredTargets_def by (auto simp: bindR_eq_Inr_iff mshr_at_def Let_def)
    obtain mv rest where mv: "?c pre post = (mv, rest)" by fastforce
    obtain D1 T1 and f :: target where D1: "populateFlags h ((m_deferred x)\<lparr>tl_targets := rest\<rparr>) = Inr D1"
      and T1: "populateFlags h ((m_targets x)\<lparr>tl_targets := ?ts @ mv\<rparr>) = Inr T1"
      and h': "h' = upd_mshr m (\<lambda>y. y\<lparr>m_deferred := D1, m_targets := T1, qe_order := t_order f,
                 qe_readyTime := max now (t_readyTime f)\<rparr>) h"
      using assms False unfolding promoteDeferredTargets_def
      by (simp only: mshr_at_def x option.case bindR_simps Let_def if_False sp split_conv mv) (auto simp: bindR_eq_Inr_iff)
    have "mv @ rest = ?ds" using split_at_append [OF sp] mv by (auto split: if_splits)
    then have "cpu (keys ?ds) = cpu (keys mv) @ cpu (keys rest)" by (metis keys_simps(3) cpu_simps(3))
    moreover have "h_mshrs h' m = Some (x\<lparr>m_deferred := D1, m_targets := T1, qe_order := t_order f,
        qe_readyTime := max now (t_readyTime f)\<rparr>)" using x by (simp add: h' upd_mshr_def)
    moreover have "tl_targets T1 = ?ts @ mv" "tl_targets D1 = rest"
      using populateFlags_targets [OF T1] populateFlags_targets [OF D1] by simp_all
    ultimately show ?thesis by (simp add: waiting_Some [OF x] waiting_Some)
  qed
qed

lemma promoteIf_waiting:
  assumes "promoteIf P m h = Inr h'"
  shows "waiting h' m = waiting h m"
proof -
  obtain pre :: "target list" and h1 x1 D where c: "clear_list m InDeferred (length pre) h = Inr h1" and x1: "h_mshrs h1 m = Some x1"
    and D: "populateFlags h1 ((m_deferred x1)\<lparr>tl_targets := drop (length pre) (tl_targets (m_deferred x1))\<rparr>) = Inr D"
    and h': "h' = upd_mshr m (\<lambda>y. y\<lparr>m_targets := (m_targets x1)\<lparr>tl_targets := tl_targets (m_targets x1) @
      take (length pre) (tl_targets (m_deferred x1))\<rparr>, m_deferred := D\<rparr>) h1"
    using assms by (clarsimp simp: promoteIf_def bindR_eq_Inr_iff checkR_eq_Inr_iff mshr_at_Inr Let_def)
  have "waiting h1 m = waiting h m" by (simp add: waiting_def clear_list_shape [OF c])
  moreover have "h_mshrs h' m = Some (x1\<lparr>m_targets := (m_targets x1)\<lparr>tl_targets := tl_targets (m_targets x1) @
      take (length pre) (tl_targets (m_deferred x1))\<rparr>, m_deferred := D\<rparr>)" using x1 by (simp add: h' upd_mshr_def)
  moreover have "tl_targets D = drop (length pre) (tl_targets (m_deferred x1))" using populateFlags_targets [OF D] by simp
  moreover have "cpu (take n ks) @ cpu (drop n ks) = cpu ks" for n ks by (metis append_take_drop_id cpu_simps(3))
  ultimately show ?thesis by (simp add: waiting_Some [OF x1] waiting_Some)
qed

lemma promoteReadable_waiting: "promoteReadable m h = Inr h' \<Longrightarrow> waiting h' m = waiting h m"
  by (auto simp: promoteReadable_def bindR_eq_Inr_iff checkR_eq_Inr_iff split: if_splits dest!: promoteIf_waiting)

lemma promoteWritable_waiting: "promoteWritable m h = Inr h' \<Longrightarrow> waiting h' m = waiting h m"
  by (auto simp: promoteWritable_def bindR_eq_Inr_iff checkR_eq_Inr_iff waiting_def shape_upd split: if_splits
      dest!: promoteIf_waiting [unfolded waiting_def])

end
