(* ===== verification/Mshr_Life.thy ===== *)
theory Mshr_Life
  imports Mshr_Order
begin

text \<open>
  The life of one miss status register: any sequence of its operations, and of steps of the rest of the
  system that leave its lists of targets alone.  The register serves the requests of the processor side
  in the order in which they were added, loses none and serves none twice.
\<close>

text \<open>
  \<open>mshr_life m added served h\<close>: starting with an empty register \<open>m\<close>, the demand requests \<open>added\<close> were given to
  it and \<open>served\<close> were handed back, and the store is now \<open>h\<close>.  A request is a packet and its order number.
  A locked read stays in the register after it is served, so the responses here are those to registers
  without one.
\<close>

inductive mshr_life :: "nat \<Rightarrow> (nat \<times> int) list \<Rightarrow> (nat \<times> int) list \<Rightarrow> mem_heap \<Rightarrow> bool" for m where
  Start: "\<lbrakk>h_mshrs h m = Some x; getNumTargets x = 0\<rbrakk> \<Longrightarrow> mshr_life m [] [] h"
| Allocate: "\<lbrakk>mshr_life m added served h; h_mshrs h m = Some x; getNumTargets x = 0; h_pkts h pp = Some p;
    mshr_allocate now m ba bs pp ready ord aof h = Inr h'\<rbrakk>
    \<Longrightarrow> mshr_life m (added @ (if pkt_cmd p = HardPFReq then [] else [(pp, ord)])) served h'"
| AllocateTarget: "\<lbrakk>mshr_life m added served h; allocateTarget now m pp ready ord aof h = Inr h'\<rbrakk>
    \<Longrightarrow> mshr_life m (added @ [(pp, ord)]) served h'"
| Snoop: "\<lbrakk>mshr_life m added served h; handleSnoop now m pp ord np rid h = Inr (h', b)\<rbrakk> \<Longrightarrow> mshr_life m added served h'"
| MarkInService: "\<lbrakk>mshr_life m added served h; mshr_markInService m b h = Inr h'\<rbrakk> \<Longrightarrow> mshr_life m added served h'"
| Extract: "\<lbrakk>mshr_life m added served h; h_mshrs h m = Some x;
    \<forall>t \<in> set (tl_targets (m_targets x)). \<forall>p. h_pkts h (t_pkt t) = Some p \<longrightarrow> pkt_cmd p \<noteq> LockedRMWReadReq;
    extractServiceableTargets m pp h = Inr (h', R)\<rbrakk> \<Longrightarrow> mshr_life m added (served @ cpu (keys (tl_targets R))) h'"
| PromoteDeferred: "\<lbrakk>mshr_life m added served h; promoteDeferredTargets now m h = Inr (h', b)\<rbrakk> \<Longrightarrow> mshr_life m added served h'"
| PromoteReadable: "\<lbrakk>mshr_life m added served h; promoteReadable m h = Inr h'\<rbrakk> \<Longrightarrow> mshr_life m added served h'"
| PromoteWritable: "\<lbrakk>mshr_life m added served h; promoteWritable m h = Inr h'\<rbrakk> \<Longrightarrow> mshr_life m added served h'"
| PopTarget: "\<lbrakk>mshr_life m added served h; h_mshrs h m = Some x; popTarget m h = Inr h'\<rbrakk>
    \<Longrightarrow> mshr_life m added (served @ cpu (keys (take 1 (tl_targets (m_targets x))))) h'"
| Delay: "\<lbrakk>mshr_life m added served h; mshr_delay now m d h = Inr h'\<rbrakk> \<Longrightarrow> mshr_life m added served h'"
| Deallocate: "\<lbrakk>mshr_life m added served h; mshr_deallocate m h = Inr h'\<rbrakk> \<Longrightarrow> mshr_life m added served h'"
| Elsewhere: "\<lbrakk>mshr_life m added served h; shape h' m = shape h m\<rbrakk> \<Longrightarrow> mshr_life m added served h'"

lemma waiting_upd:
  assumes "\<And>x. keys (tl_targets (m_targets (f x))) = keys (tl_targets (m_targets x))"
    "\<And>x. keys (tl_targets (m_deferred (f x))) = keys (tl_targets (m_deferred x))"
  shows "waiting (upd_mshr m f h) k = waiting h k"
  by (simp add: waiting_def shape_upd [OF assms])

lemma clear_list_waiting: "clear_list k w n h = Inr h' \<Longrightarrow> waiting h' m = waiting h m"
  by (simp add: waiting_def clear_list_shape)

lemma markInService_waiting: "mshr_markInService m b h = Inr h' \<Longrightarrow> waiting h' m = waiting h m"
  by (auto simp: mshr_markInService_def bindR_eq_Inr_iff checkR_eq_Inr_iff Let_def waiting_upd split: if_splits
      dest!: clear_list_waiting [where m = m])

lemma delay_waiting: "mshr_delay now m d h = Inr h' \<Longrightarrow> waiting h' m = waiting h m"
  by (auto simp: mshr_delay_def bindR_eq_Inr_iff checkR_eq_Inr_iff waiting_upd)

lemma deallocate_waiting: "mshr_deallocate m h = Inr h' \<Longrightarrow> waiting h' m = waiting h m"
  by (auto simp: mshr_deallocate_def bindR_eq_Inr_iff checkR_eq_Inr_iff resetFlags_def waiting_upd)

lemma popTarget_waiting:
  assumes "popTarget m h = Inr h'" "h_mshrs h m = Some x"
  shows "cpu (keys (take 1 (tl_targets (m_targets x)))) @ waiting h' m = waiting h m"
proof -
  let ?ts = "tl_targets (m_targets x)"
  have "?ts \<noteq> []" "h_mshrs h' m = Some (x\<lparr>m_targets := (m_targets x)\<lparr>tl_targets := drop 1 ?ts\<rparr>\<rparr>)"
    using assms by (auto simp: popTarget_def bindR_eq_Inr_iff mshr_at_Inr front_of_def vec_at_def upd_mshr_def split: if_splits)
  then show ?thesis by (cases ?ts) (simp_all add: waiting_Some [OF assms(2)] waiting_Some)
qed

lemma mshr_life_waiting: "mshr_life m added served h \<Longrightarrow> added = served @ waiting h m"
proof (induction rule: mshr_life.induct)
  case (Start h x)
  then show ?case by (simp add: waiting_Some getNumTargets_def)
next
  case (Allocate added served h x pp p now ba bs ready ord aof h')
  then have "waiting h m = []" by (simp add: waiting_Some getNumTargets_def)
  then show ?case using Allocate.IH mshr_allocate_waiting [OF Allocate.hyps(5,2,3,4)] by simp
next
  case (Extract added served h x pp h' R)
  then show ?case using extract_waiting [OF Extract.hyps(4,2,3)] by simp
next
  case (PopTarget added served h x h')
  then show ?case using popTarget_waiting [OF PopTarget.hyps(3,2)] by simp
next
  case (Elsewhere added served h h')
  then show ?case by (simp add: waiting_def)
qed (simp_all add: allocateTarget_waiting handleSnoop_waiting markInService_waiting promoteDeferred_waiting
    promoteReadable_waiting promoteWritable_waiting delay_waiting deallocate_waiting)


definition w_req :: mem_request where
  "w_req = \<lparr>rq_flags = 0, rq_paddr = Some 0x40, rq_size = Some 4, rq_byteEnable = []\<rparr>"

definition w_pkt :: "command \<Rightarrow> nat \<Rightarrow> packet" where
  "w_pkt c i = \<lparr>pkt_cmd = c, pkt_flags = 0x300, pkt_id = i, pkt_req = w_req, pkt_addr = 0x40, pkt_secure = False,
     pkt_size = 4, pkt_senders = []\<rparr>"

definition w_heap :: mem_heap where
  "w_heap = \<lparr>h_pkts = [0 \<mapsto> w_pkt ReadReq 0, 1 \<mapsto> w_pkt WriteReq 1, 2 \<mapsto> w_pkt ReadReq 2, 3 \<mapsto> w_pkt ReadRespWithInvalidate 0],
     h_mshrs = [0 \<mapsto> newMSHR (newTargetList 0 0 False) (newTargetList 0 0 False)]\<rparr>"

definition w_h1 :: mem_heap where "w_h1 = projr (mshr_allocate 5 0 0x40 64 0 5 7 True w_heap)"
definition w_h2 :: mem_heap where "w_h2 = projr (mshr_markInService 0 False w_h1)"
definition w_h3 :: mem_heap where "w_h3 = projr (allocateTarget 6 0 1 6 8 True w_h2)"
definition w_h4 :: mem_heap where "w_h4 = projr (allocateTarget 7 0 2 7 9 True w_h3)"
definition w_h5 :: mem_heap where "w_h5 = fst (projr (extractServiceableTargets 0 3 w_h4))"

declare clear_run.simps [code]

lemma w_runs:
  "\<not> isl (mshr_allocate 5 0 0x40 64 0 5 7 True w_heap)"
  "\<not> isl (mshr_markInService 0 False w_h1)"
  "\<not> isl (allocateTarget 6 0 1 6 8 True w_h2)"
  "\<not> isl (allocateTarget 7 0 2 7 9 True w_h3)"
  "\<not> isl (extractServiceableTargets 0 3 w_h4)"
  by code_simp+

lemma w_extracted: "cpu (keys (tl_targets (snd (projr (extractServiceableTargets 0 3 w_h4))))) = [(0, 7)]"
  by code_simp

lemma w_empty: "getNumTargets (the (h_mshrs w_heap 0)) = 0" "pkt_cmd (the (h_pkts w_heap 0)) \<noteq> HardPFReq"
  "h_mshrs w_heap 0 \<noteq> None" "h_pkts w_heap 0 \<noteq> None" "h_mshrs w_h4 0 \<noteq> None" "h_mshrs w_h5 0 \<noteq> None"
  by code_simp+

lemma w_no_locked: "list_all (\<lambda>t. case h_pkts w_h4 (t_pkt t) of None \<Rightarrow> True | Some p \<Rightarrow> pkt_cmd p \<noteq> LockedRMWReadReq)
    (tl_targets (m_targets (the (h_mshrs w_h4 0))))"
  by code_simp

lemma not_isl_Inr: "\<not> isl r \<Longrightarrow> r = Inr (projr r)"
  by (cases r) simp_all

lemma w_life: "mshr_life 0 [(0, 7), (1, 8), (2, 9)] [(0, 7)] w_h5"
proof -
  obtain x p where x: "h_mshrs w_heap 0 = Some x" and p: "h_pkts w_heap 0 = Some p" using w_empty by auto
  then have "mshr_life 0 [] [] w_heap" using w_empty by (auto intro: Start)
  from Allocate [OF this x _ p not_isl_Inr [OF w_runs(1)]] have "mshr_life 0 [(0, 7)] [] w_h1"
    using w_empty x p by (simp add: w_h1_def)
  from MarkInService [OF this not_isl_Inr [OF w_runs(2)]] have "mshr_life 0 [(0, 7)] [] w_h2" by (simp add: w_h2_def)
  from AllocateTarget [OF this not_isl_Inr [OF w_runs(3)]] have "mshr_life 0 [(0, 7), (1, 8)] [] w_h3" by (simp add: w_h3_def)
  from AllocateTarget [OF this not_isl_Inr [OF w_runs(4)]] have "mshr_life 0 [(0, 7), (1, 8), (2, 9)] [] w_h4"
    by (simp add: w_h4_def)
  moreover have "\<forall>t \<in> set (tl_targets (m_targets (the (h_mshrs w_h4 0)))). \<forall>p. h_pkts w_h4 (t_pkt t) = Some p \<longrightarrow> pkt_cmd p \<noteq> LockedRMWReadReq"
    using w_no_locked by (auto simp: list_all_iff)
  ultimately have "mshr_life 0 [(0, 7), (1, 8), (2, 9)]
      ([] @ cpu (keys (tl_targets (snd (projr (extractServiceableTargets 0 3 w_h4)))))) w_h5"
    using not_isl_Inr [OF w_runs(5)] w_empty(5) unfolding w_h5_def by (intro Extract) (auto simp: prod_eq_iff)
  then show ?thesis by (simp add: w_extracted)
qed


end
