(* ===== verification/Mem_Queue_Theorems.thy ===== *)
theory Mem_Queue_Theorems
  imports Mem_Queue_Inv Mshr_Life "HOL-Library.Multiset"
begin

text \<open>
  What a queue of miss status registers guarantees along any run of the cache: the bookkeeping of its
  lists and counters, and that the register it offers next is the earliest one, as long as no register
  is moved to the front or delayed.
\<close>

section \<open>Runs\<close>

text \<open>
  The operations of the queue, those of its registers, and steps of the rest of the system that keep
  what the queue sees of its own entries.  The flag allows the steps that may put the ready list out of
  order: \<open>moveToFront\<close>, \<open>delay\<close>, and a promotion of deferred targets in a register that is waiting to be sent.
\<close>

inductive mq_step :: "bool \<Rightarrow> mq_state \<Rightarrow> mq_state \<Rightarrow> bool" where
  QAllocate: "mq_allocate now ba bs pp w ord aof s = Inr (s', m) \<Longrightarrow> mq_step r s s'"
| QDeallocate: "mq_deallocate m s = Inr s' \<Longrightarrow> mq_step r s s'"
| QMoveToFront: "moveToFront m s = Inr s' \<Longrightarrow> mq_step True s s'"
| QDelay: "mq_delay now m d s = Inr s' \<Longrightarrow> mq_step True s s'"
| QMarkInService: "mq_markInService m b s = Inr s' \<Longrightarrow> mq_step r s s'"
| QMarkPending: "m < nat (q_numEntries (fst s)) \<Longrightarrow> mq_markPending m s = Inr s' \<Longrightarrow> mq_step r s s'"
| QForceDeallocate: "forceDeallocateTarget now m s = Inr (s', b) \<Longrightarrow> mq_step True s s'"
| MAllocateTarget: "allocateTarget now m pp w ord aof h = Inr h' \<Longrightarrow> mq_step r (q, h) (q, h')"
| MSnoop: "handleSnoop now m pp ord np rid h = Inr (h', b) \<Longrightarrow> mq_step r (q, h) (q, h')"
| MExtract: "extractServiceableTargets m pp h = Inr (h', R) \<Longrightarrow> mq_step r (q, h) (q, h')"
| MPromoteDeferred: "promoteDeferredTargets now m h = Inr (h', b) \<Longrightarrow> r \<or> svc (mshr_ent h) m \<Longrightarrow> mq_step r (q, h) (q, h')"
| MPromoteReadable: "promoteReadable m h = Inr h' \<Longrightarrow> mq_step r (q, h) (q, h')"
| MPromoteWritable: "promoteWritable m h = Inr h' \<Longrightarrow> mq_step r (q, h) (q, h')"
| MPopTarget: "popTarget m h = Inr h' \<Longrightarrow> mq_step r (q, h) (q, h')"
| MLockedRead: "updateLockedRMWReadTarget m pp np rid h = Inr h' \<Longrightarrow> mq_step r (q, h) (q, h')"
| MElsewhere: "\<forall>m < nat (q_numEntries q). mshr_ent h' m = mshr_ent h m \<Longrightarrow> mq_step r (q, h) (q, h')"

text \<open>A new queue with its new registers.\<close>

definition mq_init :: "int \<Rightarrow> int \<Rightarrow> int \<Rightarrow> mq_state \<Rightarrow> bool" where
  "mq_init n res d s \<longleftrightarrow> fst s = newMSHRQueue n res d \<and>
     (\<forall>m < nat (n + res). \<exists>ts ds. h_mshrs (snd s) m = Some (newMSHR ts ds))"

definition ready_sorted :: "mq_state \<Rightarrow> bool" where
  "ready_sorted s \<longleftrightarrow> sorted (map (mshr_rt (snd s)) (q_readyList (fst s)))"

lemma mq_init_ok: "mq_init n res d s \<Longrightarrow> mq_ok s \<and> ready_sorted s"
proof -
  assume i: "mq_init n res d s"
  then have e: "mshr_ent (snd s) m = Some (False, 0)" if "m < nat (n + res)" for m
    using that by (force simp: mq_init_def mshr_ent_def view_def newMSHR_def)
  then have "\<not> svc (mshr_ent (snd s)) m" if "m < nat (n + res)" for m using that by (simp add: svc_def)
  with e i show "mq_ok s \<and> ready_sorted s"
    by (simp add: mq_ok_def ready_sorted_def mq_init_def q_ok_def newMSHRQueue_def newQueue_def mem_queue.extend_def atLeast0LessThan)
qed

lemma mq_ok_keep: "mq_ok (q, h) \<Longrightarrow> mshr_ent h' = mshr_ent h \<Longrightarrow> mq_ok (q, h')"
  by (simp add: mq_ok_def)

lemmas mq_ok_keeps = ent_keeps [THEN mq_ok_keep [rotated]]

lemma mq_step_ok: "mq_step r s s' \<Longrightarrow> mq_ok s \<Longrightarrow> mq_ok s'"
proof (induction rule: mq_step.induct)
  case (MElsewhere q h' h r)
  then show ?case using q_ok_frame [of q "mshr_ent h'" "mshr_ent h"] by (simp add: mq_ok_def)
qed (rule mq_allocate_ok mq_deallocate_ok moveToFront_ok mq_delay_ok mq_markInService_ok mq_markPending_ok
    forceDeallocate_ok promoteDeferred_ok mq_ok_keeps, assumption+)+

section \<open>Order of the ready list\<close>

lemma mshr_rt_ent: "mshr_rt h m = (case mshr_ent h m of None \<Rightarrow> 0 | Some (_, t) \<Rightarrow> t)"
  by (simp add: mshr_rt_def mshr_ent_def view_def split: option.splits)

lemma sorted_frame:
  assumes "\<forall>m \<in> set rl. rt' m = rt m" "sorted (map rt rl)"
  shows "sorted (map rt' rl)"
  using assms by (metis map_cong)

lemma mshr_rt_upd: "mshr_ent h m = Some (b, t) \<Longrightarrow> mshr_ent h' = (mshr_ent h)(m \<mapsto> (b', t)) \<Longrightarrow> mshr_rt h' = mshr_rt h"
  by (auto simp: mshr_rt_ent fun_eq_iff)

lemma mshr_rt_eq: "mshr_ent h' = mshr_ent h \<Longrightarrow> mshr_rt h' = mshr_rt h"
  by (simp add: mshr_rt_ent fun_eq_iff)

lemma mq_allocate_sorted:
  assumes "mq_allocate now ba bs pp w ord aof s = Inr (s', m)" "mq_ok s" "ready_sorted s"
  shows "ready_sorted s'"
proof -
  obtain q h where s: "s = (q, h)" by (cases s)
  obtain es x h1 q1 where free: "q_freeList q = m # es" and al: "mshr_allocate now m ba bs pp w ord aof h = Inr h1"
    and en: "q_enter (mshr_rt h1) m q = Inr q1" and s': "s' = (q1, h1)"
    using assms(1) unfolding s by (rule mq_allocate_E)
  have "\<exists>now ba bs pp ord aof. mshr_allocate now m ba bs pp w ord aof h = Inr h1" using al by blast
  then show ?thesis using ms.enter_sorted [OF _ _ free _ en, of h w] assms(2,3) by (simp add: ready_sorted_def mq_ok_def s s')
qed

lemma mq_deallocate_sorted:
  assumes "mq_deallocate m s = Inr s'" "ready_sorted s"
  shows "ready_sorted s'"
proof -
  obtain q h where s: "s = (q, h)" by (cases s)
  obtain b q1 h1 where "q_release b m q = Inr q1" and d: "mshr_deallocate m h = Inr h1" and s': "s' = (q_signalDrained q1, h1)"
    using assms(1) by (auto simp: s mq_deallocate_def bindR_eq_Inr_iff)
  moreover have "mshr_rt h1 = mshr_rt h" using mshr_deallocate_ent [OF d] mshr_rt_upd by blast
  ultimately show ?thesis using assms(2)
    by (auto simp: ready_sorted_def s q_release_iff q_released_def q_signalDrained_def intro: sorted_map_remove1)
qed

lemma mq_markInService_sorted:
  assumes "mq_markInService m b s = Inr s'" "ready_sorted s"
  shows "ready_sorted s'"
proof -
  obtain q h where s: "s = (q, h)" by (cases s)
  obtain h1 where d: "mshr_markInService m b h = Inr h1" and "snd s' = h1" "q_readyList (fst s') = remove1 m (q_readyList q)"
    using assms(1) by (auto simp: s mq_markInService_def bindR_eq_Inr_iff list_erase_def checkR_eq_Inr_iff)
  moreover have "mshr_rt h1 = mshr_rt h" using markInService_ent [OF d] mshr_rt_upd by blast
  ultimately show ?thesis using assms(2) by (simp add: ready_sorted_def s sorted_map_remove1)
qed

lemma mq_markPending_sorted:
  assumes "mq_markPending m s = Inr s'" "ready_sorted s"
  shows "ready_sorted s'"
proof -
  obtain q h where s: "s = (q, h)" by (cases s)
  let ?h1 = "upd_mshr m (\<lambda>y. y\<lparr>qe_inService := False\<rparr>) h"
  obtain rl where add: "addToReadyList (mshr_rt ?h1) m (q_readyList q) = Inr rl" and "snd s' = ?h1" "q_readyList (fst s') = rl"
    using assms(1) by (auto simp: s mq_markPending_def bindR_eq_Inr_iff checkR_eq_Inr_iff Let_def)
  moreover have "mshr_rt ?h1 = mshr_rt h" by (auto simp: mshr_rt_def upd_mshr_def fun_eq_iff split: option.splits)
  ultimately show ?thesis using assms(2) sorted_add [OF _ add] by (simp add: ready_sorted_def s)
qed

lemma ready_sorted_keep: "ready_sorted (q, h) \<Longrightarrow> mshr_ent h' = mshr_ent h \<Longrightarrow> ready_sorted (q, h')"
  unfolding ready_sorted_def by (drule mshr_rt_eq) simp

lemmas ready_sorted_keeps = ent_keeps [THEN ready_sorted_keep [rotated]]

lemma mq_step_sorted: "mq_step r s s' \<Longrightarrow> \<not> r \<Longrightarrow> mq_ok s \<Longrightarrow> ready_sorted s \<Longrightarrow> ready_sorted s'"
proof (induction rule: mq_step.induct)
  case (MElsewhere q h' h r)
  have "\<forall>m \<in> set (q_readyList q). m < nat (q_numEntries q)" using MElsewhere.prems(2) by (auto simp: mq_ok_def q_ok_def)
  then have "\<forall>m \<in> set (q_readyList q). mshr_rt h' m = mshr_rt h m" using MElsewhere.hyps by (simp add: mshr_rt_ent)
  from sorted_frame [OF this] MElsewhere.prems(3) show ?case by (simp add: ready_sorted_def)
next
  case (MPromoteDeferred now m h h' b r q)
  then have "m \<notin> set (q_readyList q)" by (auto simp: mq_ok_def q_ok_def)
  then have "\<forall>k \<in> set (q_readyList q). mshr_rt h' k = mshr_rt h k"
    using promoteDeferred_ent [OF MPromoteDeferred.hyps(1)] by (auto simp: mshr_rt_ent)
  from sorted_frame [OF this] MPromoteDeferred.prems(3) show ?case by (simp add: ready_sorted_def)
qed ((rule mq_allocate_sorted mq_deallocate_sorted mq_markInService_sorted mq_markPending_sorted
    ready_sorted_keeps, assumption+) | simp)+

lemma mq_run_ok: "(mq_step r)\<^sup>*\<^sup>* s s' \<Longrightarrow> mq_ok s \<Longrightarrow> mq_ok s'"
  by (induction rule: rtranclp_induct) (auto intro: mq_step_ok)

lemma mq_run_sorted: "(mq_step False)\<^sup>*\<^sup>* s s' \<Longrightarrow> mq_ok s \<and> ready_sorted s \<Longrightarrow> mq_ok s' \<and> ready_sorted s'"
  by (induction rule: rtranclp_induct) (auto intro: mq_step_ok mq_step_sorted)

section \<open>Properties\<close>

text \<open>
  C17. In every run of a cache, each entry of the miss queue is on exactly one of the free list and the list
  of allocated entries, the ready list holds exactly the allocated registers that are not in service,
  each once, and the two counters count them: no operation erases through a dangling iterator and
  the queue is full exactly when its unreserved entries are used up.
\<close>

theorem mshr_queue_accounts:
  assumes "mq_init n res d s0" and "(mq_step True)\<^sup>*\<^sup>* s0 (q, h)"
  shows "mset (q_allocatedList q) + mset (q_freeList q) = mset [0 ..< nat (q_numEntries q)] \<and>
    mset (q_readyList q) = mset (filter (\<lambda>m. \<not> svc (mshr_ent h) m) (q_allocatedList q)) \<and>
    q_allocated q = int (length (q_allocatedList q)) \<and>
    q_numInService q = int (length (filter (svc (mshr_ent h)) (q_allocatedList q)))"
proof -
  have ok: "q_ok (mshr_ent h) q" using mq_run_ok [OF assms(2)] mq_init_ok [OF assms(1)] by (simp add: mq_ok_def)
  then have "mset (q_allocatedList q @ q_freeList q) = mset [0 ..< nat (q_numEntries q)]"
    by (intro set_eq_iff_mset_eq_distinct [THEN iffD1]) (auto simp: q_ok_def)
  moreover have "mset (q_readyList q) = mset (filter (\<lambda>m. \<not> svc (mshr_ent h) m) (q_allocatedList q))"
    using ok by (intro set_eq_iff_mset_eq_distinct [THEN iffD1]) (auto simp: q_ok_def)
  ultimately show ?thesis using ok by (simp add: q_ok_def)
qed

text \<open>
  C18. As long as no register is moved to the front, delayed, or promoted while it waits, \<open>getNext\<close> returns
  an allocated register that is due and not in service, and none that is waiting is due earlier; it
  returns nothing only when no waiting register is due.
\<close>

theorem mshr_queue_next_earliest:
  assumes "mq_init n res d s0" and "(mq_step False)\<^sup>*\<^sup>* s0 (q, h)"
  shows "case mq_getNext now (q, h) of
      None \<Rightarrow> list_all (\<lambda>m. svc (mshr_ent h) m \<or> now < mshr_rt h m) (q_allocatedList q)
    | Some m \<Rightarrow> m \<in> set (q_allocatedList q) \<and> \<not> svc (mshr_ent h) m \<and> mshr_rt h m \<le> now \<and>
        list_all (\<lambda>k. svc (mshr_ent h) k \<or> mshr_rt h m \<le> mshr_rt h k) (q_allocatedList q)"
proof -
  have ok: "q_ok (mshr_ent h) q" and so: "sorted (map (mshr_rt h) (q_readyList q))"
    using mq_run_sorted [OF assms(2)] mq_init_ok [OF assms(1)] by (simp_all add: mq_ok_def ready_sorted_def)
  have rl: "\<forall>k \<in> set (q_allocatedList q). svc (mshr_ent h) k \<or> k \<in> set (q_readyList q)" using ok by (auto simp: q_ok_def)
  show ?thesis
  proof (cases "q_readyList q")
    case Nil
    then show ?thesis using rl by (auto simp: mq_getNext_def q_getNext_def list_all_iff)
  next
    case (Cons e es)
    then have least: "\<forall>k \<in> set (q_allocatedList q). svc (mshr_ent h) k \<or> mshr_rt h e \<le> mshr_rt h k" using rl so by auto
    show ?thesis
    proof (cases "mshr_rt h e > now")
      case True
      then have "\<forall>k \<in> set (q_allocatedList q). svc (mshr_ent h) k \<or> now < mshr_rt h k" using least by (meson less_le_trans)
      then show ?thesis using True Cons by (simp add: mq_getNext_def q_getNext_def list_all_iff)
    next
      case False
      then have "mq_getNext now (q, h) = Some e" using Cons by (simp add: mq_getNext_def q_getNext_def)
      then show ?thesis using ms.getNext_due [OF ok, of now e] least by (simp add: mq_getNext_def list_all_iff)
    qed
  qed
qed

text \<open>
  C19. \<open>MSHRQueue::delay\<close> is documented to move the registers that will be ready earlier than the delayed one to the
  top of the list.  It never changes the ready list.
\<close>

theorem delay_never_reorders:
  assumes "mq_delay now m d (q, h) = Inr (q', h')"
  shows "q_readyList q' = q_readyList q"
  using mq_delay_stays [OF assms] by simp

section \<open>Witnesses\<close>

definition v_start :: mq_state where
  "v_start = (newMSHRQueue 2 0 0, w_heap\<lparr>h_mshrs := [0 \<mapsto> newMSHR (newTargetList 0 0 False) (newTargetList 0 0 False),
     1 \<mapsto> newMSHR (newTargetList 0 0 False) (newTargetList 0 0 False)]\<rparr>)"

definition v_s1 :: mq_state where "v_s1 = fst (projr (mq_allocate 1 0x40 64 0 5 7 True v_start))"
definition v_s2 :: mq_state where "v_s2 = fst (projr (mq_allocate 2 0x40 64 1 3 8 True v_s1))"
definition v_s3 :: mq_state where "v_s3 = projr (mq_delay 3 1 6 v_s2)"

lemma v_runs: "\<not> isl (mq_allocate 1 0x40 64 0 5 7 True v_start)" "\<not> isl (mq_allocate 2 0x40 64 1 3 8 True v_s1)"
    "\<not> isl (mq_delay 3 1 6 v_s2)"
  by code_simp+

lemma v_init: "mq_init 2 0 0 v_start"
proof -
  have "m = 0 \<or> m = 1" if "m < nat 2" for m :: nat using that by auto
  then show ?thesis by (auto simp: mq_init_def v_start_def)
qed

lemma v_run: "(mq_step r)\<^sup>*\<^sup>* v_start v_s2"
proof -
  have "mq_allocate 1 0x40 64 0 5 7 True v_start = Inr (v_s1, snd (projr (mq_allocate 1 0x40 64 0 5 7 True v_start)))"
    using not_isl_Inr [OF v_runs(1)] by (simp add: v_s1_def)
  moreover have "mq_allocate 2 0x40 64 1 3 8 True v_s1 = Inr (v_s2, snd (projr (mq_allocate 2 0x40 64 1 3 8 True v_s1)))"
    using not_isl_Inr [OF v_runs(2)] by (simp add: v_s2_def)
  ultimately have "mq_step r v_start v_s1" "mq_step r v_s1 v_s2" by (blast intro: QAllocate)+
  then show ?thesis by (meson converse_rtranclp_into_rtranclp rtranclp.rtrancl_refl)
qed

lemma v_s2_lists: "q_allocatedList (fst v_s2) = [0, 1]" "q_readyList (fst v_s2) = [1, 0]" "mq_getNext 4 v_s2 = Some 1"
    "mq_getNext 2 v_s2 = None" "q_numInService (fst v_s2) = 0" "q_numEntries (fst v_s2) = 2"
  by code_simp+

theorem mshr_queue_accounts_witness:
  "mq_init 2 0 0 v_start \<and> (mq_step True)\<^sup>*\<^sup>* v_start v_s2 \<and>
   mset (q_readyList (fst v_s2)) = mset (filter (\<lambda>m. \<not> svc (mshr_ent (snd v_s2)) m) [0, 1])"
  using mshr_queue_accounts [OF v_init, of "fst v_s2" "snd v_s2"] v_init v_run [of True] by (simp add: v_s2_lists)

theorem mshr_queue_next_earliest_witness:
  "mq_init 2 0 0 v_start \<and> (mq_step False)\<^sup>*\<^sup>* v_start v_s2 \<and> mq_getNext 4 v_s2 = Some 1 \<and>
   list_all (\<lambda>k. svc (mshr_ent (snd v_s2)) k \<or> mshr_rt (snd v_s2) 1 \<le> mshr_rt (snd v_s2) k) [0, 1]"
  using mshr_queue_next_earliest [OF v_init, of "fst v_s2" "snd v_s2" 4] v_init v_run [of False] by (simp add: v_s2_lists)

text \<open>
  The witness of \<open>delay_never_reorders\<close>: register 1 is delayed until tick 9 and stays in front of register
  0, which is ready at tick 5, so at tick 6 the queue offers no register at all.
\<close>

theorem delay_never_reorders_witness:
  "mq_delay 3 1 6 v_s2 = Inr v_s3 \<and> q_readyList (fst v_s3) = [1, 0] \<and>
   mshr_rt (snd v_s3) 0 \<le> 6 \<and> mq_getNext 6 v_s3 = None"
proof -
  have d: "mq_delay 3 1 6 v_s2 = Inr v_s3" using not_isl_Inr [OF v_runs(3)] by (simp add: v_s3_def)
  have "mshr_rt (snd v_s3) 0 \<le> 6" "mq_getNext 6 v_s3 = None" by code_simp+
  then show ?thesis
    using d delay_never_reorders [of 3 1 6 "fst v_s2" "snd v_s2" "fst v_s3" "snd v_s3"] by (simp add: v_s2_lists)
qed

end
