(* ===== verification/Cache_Queues_Inv.thy ===== *)
theory Cache_Queues_Inv
  imports Cache_Queues Mem_Queue_Theorems
begin

text \<open>
  The cache blocks its port exactly while its miss queue or its write buffer is full or a register
  has no room for another target, and the assertions of the port never fail.  What the cache sends
  next respects the requests for the same block that wait in the other queue.
\<close>

section \<open>Blocking\<close>

definition flag_word :: "bool \<Rightarrow> bool \<Rightarrow> bool \<Rightarrow> 8 word" where
  "flag_word a b d = (if a then 1 else 0) + (if b then 2 else 0) + (if d then 4 else 0)"

lemma flag_word_zero: "flag_word a b d = 0 \<longleftrightarrow> \<not> a \<and> \<not> b \<and> \<not> d"
  by (auto simp: flag_word_def)

lemma flag_word_or:
  "or (flag_word a b d) (cause_flag Blocked_NoMSHRs) = flag_word True b d"
  "or (flag_word a b d) (cause_flag Blocked_NoWBBuffers) = flag_word a True d"
  "or (flag_word a b d) (cause_flag Blocked_NoTargets) = flag_word a b True"
  by (auto simp: flag_word_def)

lemma flag_word_clear:
  "and (flag_word a b d) (not (cause_flag Blocked_NoMSHRs)) = flag_word False b d"
  "and (flag_word a b d) (not (cause_flag Blocked_NoWBBuffers)) = flag_word a False d"
  "and (flag_word a b d) (not (cause_flag Blocked_NoTargets)) = flag_word a b False"
  by (auto simp: flag_word_def)

text \<open>The flags that are set, and the state of the port that goes with them.\<close>

definition port_ok :: "bool \<Rightarrow> bool \<Rightarrow> bool \<Rightarrow> base_cache \<Rightarrow> bool" where
  "port_ok a b d c \<longleftrightarrow> bc_blocked c = flag_word a b d \<and> (rp_blocked (bc_port c) \<longleftrightarrow> a \<or> b \<or> d) \<and>
     (rp_blocked (bc_port c) \<longrightarrow> rp_retryAt (bc_port c) = None)"

fun raise :: "blocked_cause \<Rightarrow> bool \<times> bool \<times> bool \<Rightarrow> bool \<Rightarrow> bool \<times> bool \<times> bool" where
  "raise Blocked_NoMSHRs (a, b, d) v = (v, b, d)"
| "raise Blocked_NoWBBuffers (a, b, d) v = (a, v, d)"
| "raise Blocked_NoTargets (a, b, d) v = (a, b, v)"

abbreviation port_oks :: "bool \<times> bool \<times> bool \<Rightarrow> base_cache \<Rightarrow> bool" where
  "port_oks f c \<equiv> port_ok (fst f) (fst (snd f)) (snd (snd f)) c"

definition frame_eq :: "base_cache \<Rightarrow> base_cache \<Rightarrow> bool" where
  "frame_eq c c' \<longleftrightarrow> bc_mshrQueue c' = bc_mshrQueue c \<and> bc_writeBuffer c' = bc_writeBuffer c \<and> bc_heap c' = bc_heap c \<and>
     bc_writes c' = bc_writes c \<and> bc_noTargetMSHR c' = bc_noTargetMSHR c \<and> bc_blkSize c' = bc_blkSize c"

lemma setBlocked_port:
  assumes "port_oks f c"
  shows "\<exists>c'. setBlocked cycle cause c = Inr c' \<and> port_oks (raise cause f True) c' \<and> frame_eq c c'"
proof -
  obtain a b d where f: "f = (a, b, d)" by (cases f)
  show ?thesis
  proof (cases "bc_blocked c = 0")
    case True
    then show ?thesis using assms
      by (cases cause) (auto simp: f port_ok_def flag_word_zero setBlocked_def port_setBlocked_def Let_def frame_eq_def
          flag_word_def [of True] flag_word_def [of _ True] flag_word_def [of _ _ True])
  next
    case False
    then show ?thesis using assms
      by (cases cause) (auto simp: f port_ok_def setBlocked_def frame_eq_def flag_word_or flag_word_zero simp del: cause_flag.simps)
  qed
qed

lemma clearBlocked_port:
  assumes "port_oks f c" and "raise cause f True = f"
  shows "\<exists>c'. clearBlocked now cycle cause c = Inr c' \<and> port_oks (raise cause f False) c' \<and> frame_eq c c'"
proof -
  obtain a b d where f: "f = (a, b, d)" by (cases f)
  show ?thesis using assms
    by (cases cause) (auto simp: f port_ok_def clearBlocked_def Let_def port_clearBlocked_def checkR_def frame_eq_def
        flag_word_clear flag_word_zero simp del: cause_flag.simps)
qed

section \<open>The invariant of the cache\<close>

definition flags_of :: "base_cache \<Rightarrow> bool \<times> bool \<times> bool" where
  "flags_of c = (q_isFull (bc_mshrQueue c), q_isFull (bc_writeBuffer c), bc_noTargetMSHR c \<noteq> None)"

definition queues_ok :: "base_cache \<Rightarrow> bool" where
  "queues_ok c \<longleftrightarrow> mq_ok (bc_mq c) \<and> wq_ok (bc_wq c) \<and> port_oks (flags_of c) c"

lemma queues_ok_frame: "frame_eq c c' \<Longrightarrow> port_oks (flags_of c) c' \<Longrightarrow> mq_ok (bc_mq c) \<Longrightarrow> wq_ok (bc_wq c) \<Longrightarrow> queues_ok c'"
  by (simp add: queues_ok_def frame_eq_def flags_of_def)

lemma block_ok:
  assumes "setBlocked cycle cause c = Inr c'" "port_oks f c" "flags_of c = raise cause f True" "mq_ok (bc_mq c)" "wq_ok (bc_wq c)"
  shows "queues_ok c'"
  using setBlocked_port [OF assms(2), of cycle cause] assms by (auto intro: queues_ok_frame)

lemma unblock_ok:
  assumes "clearBlocked now cycle cause c = Inr c'" "port_oks f c" "raise cause f True = f" "flags_of c = raise cause f False"
    "mq_ok (bc_mq c)" "wq_ok (bc_wq c)"
  shows "queues_ok c'"
  using clearBlocked_port [OF assms(2,3), of now cycle] assms by (auto intro: queues_ok_frame)

lemma send_ok [simp]: "queues_ok (schedMemSideSendEvent t c) = queues_ok c"
  by (simp add: queues_ok_def schedMemSideSendEvent_def flags_of_def port_ok_def)

lemma order_ok [simp]: "queues_ok (c\<lparr>bc_order := n\<rparr>) = queues_ok c" "queues_ok (c\<lparr>bc_writeAllocator := a\<rparr>) = queues_ok c"
    "queues_ok (c\<lparr>bc_pendingDelete := p\<rparr>) = queues_ok c" "queues_ok (c\<lparr>bc_pfNotes := ns\<rparr>) = queues_ok c"
  by (simp_all add: queues_ok_def flags_of_def port_ok_def)

lemma del_pkt_ok [simp]: "queues_ok (del_pkt p c) = queues_ok c"
proof -
  have "mshr_ent ((bc_heap c)\<lparr>h_pkts := ps\<rparr>) = mshr_ent (bc_heap c)" for ps by (simp add: mshr_ent_def view_def fun_eq_iff)
  then show ?thesis by (simp add: queues_ok_def del_pkt_def flags_of_def port_ok_def mq_ok_def)
qed

lemma pendingDelete_ok [simp]: "queues_ok (pendingDelete_reset p c) = queues_ok c"
  by (simp add: pendingDelete_reset_def split: option.splits)

lemma heap_ok: "queues_ok c \<Longrightarrow> mq_ok (bc_mshrQueue c, h) \<Longrightarrow> queues_ok (c\<lparr>bc_heap := h\<rparr>)"
  by (simp add: queues_ok_def flags_of_def port_ok_def)

lemma enter_full: "q_enter rt e q = Inr q' \<Longrightarrow> q_isFull q \<Longrightarrow> q_isFull q'"
  by (auto simp: q_enter_def bindR_eq_Inr_iff q_isFull_def)

lemma queue_grow_ok:
  assumes r: "(if b then setBlocked cycle cause c1 else Inr c1) = Inr c2" and p: "port_oks f c1"
    and q: "mq_ok (bc_mq c1)" "wq_ok (bc_wq c1)" and f: "flags_of c1 = raise cause f b" "raise cause f True = f \<longrightarrow> b"
  shows "queues_ok c2"
proof (cases b)
  case True
  then show ?thesis using block_ok [OF _ p _ q] r f by simp
next
  case False
  then have "raise cause f b = f" using f(2) by (cases f; cases cause) auto
  then show ?thesis using False r f p q by (simp add: queues_ok_def)
qed

lemma allocateMissBuffer_ok:
  assumes c: "queues_ok c" and al: "allocateMissBuffer now cycle pp t sched c = Inr (c', m)"
  shows "queues_ok c'"
proof -
  obtain a aof s c2 where mq: "mq_allocate now a (bc_blkSize c) pp t (bc_order c) aof (bc_mq c) = Inr (s, m)"
    and c2: "(if q_isFull (bc_mshrQueue ((set_mq s c)\<lparr>bc_order := bc_order c + 1\<rparr>))
        then setBlocked cycle Blocked_NoMSHRs ((set_mq s c)\<lparr>bc_order := bc_order c + 1\<rparr>)
        else Inr ((set_mq s c)\<lparr>bc_order := bc_order c + 1\<rparr>)) = Inr c2"
    and c': "c' = (if sched then schedMemSideSendEvent t c2 else c2)"
    using al by (auto simp: allocateMissBuffer_def bindR_eq_Inr_iff Let_def split: prod.splits)
  let ?c1 = "(set_mq s c)\<lparr>bc_order := bc_order c + 1\<rparr>"
  have q: "mq_ok (bc_mq ?c1)" "wq_ok (bc_wq ?c1)" and p: "port_oks (flags_of c) ?c1"
    using c mq_allocate_ok [OF _ mq] by (simp_all add: queues_ok_def set_mq_def port_ok_def)
  have full: "q_isFull (bc_mshrQueue c) \<Longrightarrow> q_isFull (bc_mshrQueue ?c1)"
    using mq by (auto elim!: mq_allocate_E simp: set_mq_def intro: enter_full)
  have "queues_ok c2" by (rule queue_grow_ok [OF c2 p q]) (use full in \<open>auto simp: flags_of_def set_mq_def\<close>)
  then show ?thesis by (simp add: c')
qed

lemma allocateWriteBuffer_ok:
  assumes c: "queues_ok c" and al: "allocateWriteBuffer now cycle payload pp t c = Inr c'"
  shows "queues_ok c'"
proof -
  obtain a t1 s e c2 where wq: "wq_allocate (bc_heap c) now a (bc_blkSize c) pp t1 (bc_order c) (bc_wq c) = Inr (s, e)"
    and c2: "(if q_isFull (bc_writeBuffer ((set_wq s c)\<lparr>bc_order := bc_order c + 1\<rparr>))
        then setBlocked cycle Blocked_NoWBBuffers ((set_wq s c)\<lparr>bc_order := bc_order c + 1\<rparr>)
        else Inr ((set_wq s c)\<lparr>bc_order := bc_order c + 1\<rparr>)) = Inr c2"
    and c': "c' = schedMemSideSendEvent t1 c2"
    using al by (auto simp: allocateWriteBuffer_def bindR_eq_Inr_iff checkR_eq_Inr_iff Let_def split: prod.splits)
  let ?c1 = "(set_wq s c)\<lparr>bc_order := bc_order c + 1\<rparr>"
  have q: "mq_ok (bc_mq ?c1)" "wq_ok (bc_wq ?c1)" and p: "port_oks (flags_of c) ?c1"
    using c wq_allocate_ok [OF _ wq] by (simp_all add: queues_ok_def set_wq_def port_ok_def)
  have full: "q_isFull (bc_writeBuffer c) \<Longrightarrow> q_isFull (bc_writeBuffer ?c1)"
    using wq by (auto elim!: wq_allocate_E simp: set_wq_def intro: enter_full)
  have "queues_ok c2" by (rule queue_grow_ok [OF c2 p q]) (use full in \<open>auto simp: flags_of_def set_wq_def\<close>)
  then show ?thesis by (simp add: c')
qed

lemma miss_updateMode_ok: "queues_ok c \<Longrightarrow> miss_updateMode pkt c = Inr c' \<Longrightarrow> queues_ok c'"
  by (auto simp: miss_updateMode_def bindR_eq_Inr_iff split: option.split_asm if_split_asm)

lemma miss_coalesce_ok:
  assumes c: "queues_ok c" and co: "miss_coalesce now cycle payload pp m ft c = Inr c'"
  shows "queues_ok c'"
proof -
  have blocked: "queues_ok c'" if al: "allocateTarget now m pp ft n aof (bc_heap c) = Inr h1"
    and r: "(if b then setBlocked cycle Blocked_NoTargets (c\<lparr>bc_heap := h1, bc_order := k, bc_noTargetMSHR := Some m\<rparr>)
        else Inr (c\<lparr>bc_heap := h1, bc_order := k\<rparr>)) = Inr c'" for n aof h1 k b
  proof -
    have q: "mq_ok (bc_mshrQueue c, h1)" using c ent_keeps(3) [OF al] by (simp add: queues_ok_def mq_ok_def)
    show ?thesis
    proof (cases b)
      case True
      then have s: "setBlocked cycle Blocked_NoTargets (c\<lparr>bc_heap := h1, bc_order := k, bc_noTargetMSHR := Some m\<rparr>) = Inr c'"
        using r by simp
      show ?thesis using c q by (intro block_ok [OF s, of "flags_of c"]) (auto simp: queues_ok_def port_ok_def flags_of_def)
    next
      case False
      then show ?thesis using r heap_ok [OF c q] by auto
    qed
  qed
  show ?thesis using co c
    by (auto simp: miss_coalesce_def bindR_eq_Inr_iff checkR_eq_Inr_iff Let_def simp del: if_split split: if_split_asm
        intro: allocateWriteBuffer_ok dest: blocked)
qed

lemma handleTimingReqMiss_ok:
  assumes c: "queues_ok c" and h: "handleTimingReqMiss now cycle payload pkt mshr blk ft c = Inr (c', blk')"
  shows "queues_ok c'"
proof -
  have "queues_ok c0 \<Longrightarrow> miss_allocate now cycle payload pp blk ft c0 = Inr (c', blk') \<Longrightarrow> queues_ok c'" for pp c0
    by (auto simp: miss_allocate_def bindR_eq_Inr_iff split: if_split_asm intro: allocateWriteBuffer_ok allocateMissBuffer_ok)
  then show ?thesis using h c miss_updateMode_ok [OF c, of pkt]
    by (auto simp: handleTimingReqMiss_def bindR_eq_Inr_iff split: option.split_asm intro: miss_coalesce_ok)
qed

lemma shrink_ok:
  assumes r: "(if b \<and> \<not> b' then clearBlocked now cycle cause c1 else Inr c1) = Inr c2" and p: "port_oks f c1"
    and q: "mq_ok (bc_mq c1)" "wq_ok (bc_wq c1)" and f: "raise cause f b = f" "flags_of c1 = raise cause f b'" "b' \<longrightarrow> b"
  shows "queues_ok c2"
proof (cases "b \<and> \<not> b'")
  case True
  then have "raise cause f True = f" "flags_of c1 = raise cause f False" using f by auto
  then show ?thesis using unblock_ok [OF _ p _ _ q] r True by simp
next
  case False
  then have "b' = b" using f(3) by blast
  then show ?thesis using False r f p q by (auto simp: queues_ok_def)
qed

lemma markInService_full: "mq_markInService m b s = Inr s' \<Longrightarrow> q_isFull (fst s') = q_isFull (fst s)"
  by (cases s) (auto simp: mq_markInService_def bindR_eq_Inr_iff q_isFull_def)

lemma markInService_miss_ok:
  assumes c: "queues_ok c" and r: "markInService_miss now cycle m b c = Inr c'"
  shows "queues_ok c'"
proof -
  obtain s where s: "mq_markInService m b (bc_mq c) = Inr s"
    and r: "(if q_isFull (bc_mshrQueue c) \<and> \<not> q_isFull (bc_mshrQueue (set_mq s c))
        then clearBlocked now cycle Blocked_NoMSHRs (set_mq s c) else Inr (set_mq s c)) = Inr c'"
    using r by (auto simp: markInService_miss_def bindR_eq_Inr_iff Let_def)
  show ?thesis using c mq_markInService_ok [OF _ s] markInService_full [OF s]
    by (intro shrink_ok [OF r, of "flags_of c"]) (auto simp: queues_ok_def set_mq_def port_ok_def flags_of_def)
qed

lemma release_full: "q_release b e q = Inr q' \<Longrightarrow> q_isFull (q_signalDrained q') \<Longrightarrow> q_isFull q"
  by (auto simp: q_release_iff q_released_def q_isFull_def q_signalDrained_def split: if_split_asm)

lemma wq_markInService_full: "wq_markInService e s = Inr s' \<Longrightarrow> q_isFull (fst s') \<Longrightarrow> q_isFull (fst s)"
  by (cases s) (auto simp: wq_markInService_def wq_deallocate_def bindR_eq_Inr_iff dest: release_full)

lemma mq_deallocate_full: "mq_deallocate m s = Inr s' \<Longrightarrow> q_isFull (fst s') \<Longrightarrow> q_isFull (fst s)"
  by (cases s) (auto simp: mq_deallocate_def bindR_eq_Inr_iff dest: release_full)

lemma markInService_write_ok:
  assumes c: "queues_ok c" and r: "markInService_write now cycle e c = Inr c'"
  shows "queues_ok c'"
proof -
  obtain s where s: "wq_markInService e (bc_wq c) = Inr s"
    and r: "(if q_isFull (bc_writeBuffer c) \<and> \<not> q_isFull (bc_writeBuffer (set_wq s c))
        then clearBlocked now cycle Blocked_NoWBBuffers (set_wq s c) else Inr (set_wq s c)) = Inr c'"
    using r by (auto simp: markInService_write_def bindR_eq_Inr_iff Let_def)
  show ?thesis using c wq_markInService_ok [OF _ s] wq_markInService_full [OF s]
    by (intro shrink_ok [OF r, of "flags_of c"]) (auto simp: queues_ok_def set_wq_def port_ok_def flags_of_def)
qed

lemma sendWriteQueuePacket_ok: "queues_ok c \<Longrightarrow> sendWriteQueuePacket now cycle sent e c = Inr (c', b) \<Longrightarrow> queues_ok c'"
  by (auto simp: sendWriteQueuePacket_def bindR_eq_Inr_iff checkR_eq_Inr_iff split: if_split_asm intro: markInService_write_ok)

lemma resp_unblock_ok:
  assumes c: "queues_ok c" and r: "resp_unblock now cycle m c = Inr c'"
  shows "queues_ok c'"
proof (cases "bc_noTargetMSHR c = Some m")
  case True
  then obtain c1 where c1: "clearBlocked now cycle Blocked_NoTargets c = Inr c1" and c': "c' = c1\<lparr>bc_noTargetMSHR := None\<rparr>"
    using r by (auto simp: resp_unblock_def bindR_eq_Inr_iff)
  have "raise Blocked_NoTargets (flags_of c) True = flags_of c" using True by (simp add: flags_of_def)
  then have "port_oks (raise Blocked_NoTargets (flags_of c) False) c1" "frame_eq c c1"
    using clearBlocked_port [of "flags_of c" c Blocked_NoTargets now cycle] c c1 by (auto simp: queues_ok_def)
  then show ?thesis using c by (simp add: c' queues_ok_def frame_eq_def flags_of_def port_ok_def)
next
  case False
  then show ?thesis using r c by (simp add: resp_unblock_def)
qed

lemma resp_release_ok:
  assumes c: "queues_ok c" and m: "m < nat (q_numEntries (bc_mshrQueue c))"
    and r: "resp_release now cycle resend pf m blk c = Inr (c', blk')"
  shows "queues_ok c'"
proof (cases "hasLockedRMWReadTarget m (bc_heap c) = Inr True")
  case True
  then show ?thesis using r c by (simp add: resp_release_def)
next
  case False
  then obtain h1 b where h1: "promoteDeferredTargets now m (bc_heap c) = Inr (h1, b)"
    and r: "(let c1 = c\<lparr>bc_heap := h1\<rparr> in
       if b then bindR (mq_markPending m (bc_mq c1)) (\<lambda>s.
         Inr (schedMemSideSendEvent resend (set_mq s c1), map_option (clearCoherenceBits ReadableBit) blk))
       else bindR (mq_deallocate m (bc_mq c1)) (\<lambda>s.
         let c2 = set_mq s c1 in
         bindR (if q_isFull (bc_mshrQueue c1) \<and> \<not> q_isFull (bc_mshrQueue c2) then clearBlocked now cycle Blocked_NoMSHRs c2
                else Inr c2) (\<lambda>c3.
         Inr (case pf of None \<Rightarrow> c3
              | Some t \<Rightarrow> if canPrefetch (bc_mshrQueue c3) \<and> \<not> isBlocked c3 \<and> t \<noteq> MaxTick
                  then schedMemSideSendEvent t c3 else c3, blk)))) = Inr (c', blk')"
    using r by (auto simp: resp_release_def bindR_eq_Inr_iff split: if_split_asm)
  let ?c1 = "c\<lparr>bc_heap := h1\<rparr>"
  have c1: "queues_ok ?c1" using heap_ok [OF c promoteDeferred_ok [OF _ h1]] c by (simp add: queues_ok_def)
  show ?thesis
  proof (cases b)
    case True
    then obtain s where s: "mq_markPending m (bc_mq ?c1) = Inr s" and c': "c' = schedMemSideSendEvent resend (set_mq s ?c1)"
      using r by (auto simp: Let_def bindR_eq_Inr_iff)
    have "mq_ok s" using mq_markPending_ok [OF _ _ s] c1 m by (simp add: queues_ok_def)
    moreover have "q_isFull (fst s) = q_isFull (bc_mshrQueue c)"
      using s by (auto simp: mq_markPending_def bindR_eq_Inr_iff checkR_eq_Inr_iff Let_def q_isFull_def)
    ultimately show ?thesis using c1 unfolding c' send_ok by (simp add: queues_ok_def set_mq_def flags_of_def port_ok_def)
  next
    case False
    then obtain s c3 where s: "mq_deallocate m (bc_mq ?c1) = Inr s"
      and c3: "(if q_isFull (bc_mshrQueue ?c1) \<and> \<not> q_isFull (bc_mshrQueue (set_mq s ?c1))
          then clearBlocked now cycle Blocked_NoMSHRs (set_mq s ?c1) else Inr (set_mq s ?c1)) = Inr c3"
      and c': "queues_ok c' = queues_ok c3"
      using r by (auto simp: Let_def bindR_eq_Inr_iff split: option.split_asm)
    have "queues_ok c3" using c1 mq_deallocate_ok [OF _ s] mq_deallocate_full [OF s]
      by (intro shrink_ok [OF c3, of "flags_of ?c1"]) (auto simp: queues_ok_def set_mq_def port_ok_def flags_of_def)
    then show ?thesis using c' by simp
  qed
qed

lemma tryPrefetch_cases:
  assumes "tryPrefetch now cycle inTags pf c = Inr (c', n)"
  shows "c' = c \<and> n = NextNone \<or> (\<exists>pp ns. c' = (del_pkt pp c)\<lparr>bc_pfNotes := ns\<rparr> \<and> n = NextNone) \<or>
    (\<exists>pp m. allocateMissBuffer now cycle pp now False c = Inr (c', m) \<and> n = NextMiss m)"
  using assms by (auto simp: tryPrefetch_def bindR_eq_Inr_iff Let_def split: option.split_asm if_split_asm)

lemma tryPrefetch_ok: "queues_ok c \<Longrightarrow> tryPrefetch now cycle inTags pf c = Inr (c', n) \<Longrightarrow> queues_ok c'"
  by (drule tryPrefetch_cases) (elim disjE conjE exE, simp_all add: allocateMissBuffer_ok)

lemma getNextQueueEntry_cases:
  assumes "getNextQueueEntry now cycle inTags pf c = Inr (c', n)"
  obtains (due) e where "wq_getNext now (bc_wq c) = Some e" "next_write e c = Inr n" "c' = c"
  | (reg) m where "mq_getNext now (bc_mq c) = Some m" "next_miss m c = Inr n" "c' = c"
  | (pf) "mq_getNext now (bc_mq c) = None" "wq_getNext now (bc_wq c) = None" "tryPrefetch now cycle inTags pf c = Inr (c', n)"
proof (cases "wq_getNext now (bc_wq c)")
  case None
  have "(mq_getNext now (bc_mq c) = None \<and> tryPrefetch now cycle inTags pf c = Inr (c', n)) \<or>
      (\<exists>m. mq_getNext now (bc_mq c) = Some m \<and> next_miss m c = Inr n \<and> c' = c)"
    using assms None by (auto simp: getNextQueueEntry_def bindR_eq_Inr_iff split: option.split_asm)
  then show ?thesis using None that(2,3) by blast
next
  case (Some e)
  have "next_write e c = Inr n \<and> c' = c \<or> (\<exists>m. mq_getNext now (bc_mq c) = Some m \<and> next_miss m c = Inr n \<and> c' = c)"
    using assms Some by (auto simp: getNextQueueEntry_def bindR_eq_Inr_iff split: if_split_asm option.split_asm)
  then show ?thesis using Some that(1,2) by blast
qed

lemma getNextQueueEntry_ok: "queues_ok c \<Longrightarrow> getNextQueueEntry now cycle inTags pf c = Inr (c', n) \<Longrightarrow> queues_ok c'"
  by (erule getNextQueueEntry_cases) (simp, simp, rule tryPrefetch_ok)

end
