(* ===== verification/Cache_Queues_Theorems.thy ===== *)
theory Cache_Queues_Theorems
  imports Cache_Queues_Inv
begin

text \<open>
  Runs of the queues of a cache, and what holds along them.
\<close>

section \<open>Runs\<close>

inductive queues_step :: "base_cache \<Rightarrow> base_cache \<Rightarrow> bool" where
  CMiss: "handleTimingReqMiss now cycle payload pkt mshr blk ft c = Inr (c', blk') \<Longrightarrow> queues_step c c'"
| CWriteback: "allocateWriteBuffer now cycle payload pp t c = Inr c' \<Longrightarrow> queues_step c c'"
| CNext: "getNextQueueEntry now cycle inTags pf c = Inr (c', n) \<Longrightarrow> queues_step c c'"
| CSendWrite: "sendWriteQueuePacket now cycle sent e c = Inr (c', b) \<Longrightarrow> queues_step c c'"
| CSentMiss: "markInService_miss now cycle m b c = Inr c' \<Longrightarrow> queues_step c c'"
| CRespUnblock: "resp_unblock now cycle m c = Inr c' \<Longrightarrow> queues_step c c'"
| CRespRelease: "m < nat (q_numEntries (bc_mshrQueue c)) \<Longrightarrow> resp_release now cycle resend pf m blk c = Inr (c', blk') \<Longrightarrow>
    queues_step c c'"
| CRegister: "mq_step True (bc_mq c) (bc_mshrQueue c, h') \<Longrightarrow> queues_step c (c\<lparr>bc_heap := h'\<rparr>)"
| CTryTiming: "queues_step c (c\<lparr>bc_port := snd (tryTiming bypass pkt (bc_port c))\<rparr>)"
| CRetry: "rp_retryAt (bc_port c) \<noteq> None \<Longrightarrow> queues_step c (c\<lparr>bc_port := processSendRetry (bc_port c)\<rparr>)"

definition queues_init :: "int \<Rightarrow> int \<Rightarrow> int \<Rightarrow> int \<Rightarrow> int \<Rightarrow> base_cache \<Rightarrow> bool" where
  "queues_init n res d nw resw c \<longleftrightarrow> 0 < n \<and> 0 < nw \<and> mq_init n res d (bc_mq c) \<and> bc_writeBuffer c = newQueue nw resw \<and>
     (\<forall>e < nat (nw + resw). bc_writes c e = Some newWriteQueueEntry) \<and> bc_blocked c = 0 \<and> bc_noTargetMSHR c = None \<and>
     bc_port c = \<lparr>rp_blocked = False, rp_mustSendRetry = False, rp_retryAt = None\<rparr>"

lemma queues_init_ok:
  assumes i: "queues_init n res d nw resw c"
  shows "queues_ok c"
proof -
  have "mq_ok (bc_mq c)" using i mq_init_ok by (auto simp: queues_init_def)
  moreover have "wq_ok (bc_wq c)"
  proof -
    have "we_ent (bc_writes c) e = Some (False, 0)" if "e < nat (nw + resw)" for e
      using i that by (simp add: queues_init_def we_ent_def newWriteQueueEntry_def)
    then have "\<forall>e < nat (nw + resw). we_ent (bc_writes c) e \<noteq> None \<and> \<not> svc (we_ent (bc_writes c)) e" by (simp add: svc_def)
    then show ?thesis using i by (simp add: wq_ok_def queues_init_def q_ok_def newQueue_def atLeast0LessThan)
  qed
  moreover have "\<not> q_isFull (bc_mshrQueue c)" "\<not> q_isFull (bc_writeBuffer c)"
    using i by (simp_all add: queues_init_def mq_init_def q_isFull_def newMSHRQueue_def newQueue_def mem_queue.extend_def)
  ultimately show ?thesis using i by (simp add: queues_ok_def port_ok_def flags_of_def queues_init_def flag_word_def)
qed

lemma queues_step_ok: "queues_step c c' \<Longrightarrow> queues_ok c \<Longrightarrow> queues_ok c'"
proof (induction rule: queues_step.induct)
  case (CRegister c h')
  then show ?case using mq_step_ok [OF CRegister.hyps] heap_ok by (simp add: queues_ok_def)
next
  case (CTryTiming c bypass pkt)
  then show ?case by (simp add: queues_ok_def port_ok_def flags_of_def tryTiming_def)
next
  case (CRetry c)
  then show ?case by (simp add: queues_ok_def port_ok_def flags_of_def processSendRetry_def)
qed (erule (1) handleTimingReqMiss_ok [rotated] allocateWriteBuffer_ok [rotated] getNextQueueEntry_ok [rotated]
    sendWriteQueuePacket_ok [rotated] markInService_miss_ok [rotated] resp_unblock_ok [rotated] | erule (2) resp_release_ok [rotated])+

lemma queues_run_ok: "queues_step\<^sup>*\<^sup>* c c' \<Longrightarrow> queues_ok c \<Longrightarrow> queues_ok c'"
  by (induction rule: rtranclp_induct) (auto intro: queues_step_ok)

section \<open>Properties\<close>


text \<open>A register and an entry of the write buffer for the same block.\<close>

definition conflict :: "base_cache \<Rightarrow> nat \<Rightarrow> nat \<Rightarrow> bool" where
  "conflict c m e = (case (h_mshrs (bc_heap c) m, bc_writes c e) of
     (Some x, Some y) \<Rightarrow> qe_blkAddr x = qe_blkAddr y \<and> qe_isSecure x = qe_isSecure y | _ \<Rightarrow> False)"

definition miss_order :: "base_cache \<Rightarrow> nat \<Rightarrow> int" where
  "miss_order c m = (case h_mshrs (bc_heap c) m of None \<Rightarrow> 0 | Some x \<Rightarrow> qe_order x)"

definition write_order :: "base_cache \<Rightarrow> nat \<Rightarrow> int" where
  "write_order c e = (case bc_writes c e of None \<Rightarrow> 0 | Some y \<Rightarrow> qe_order y)"

lemma find_entry_spec:
  "find_entry P xs = Inr r \<Longrightarrow> (case r of None \<Rightarrow> \<forall>x \<in> set xs. P x = Inr False
     | Some e \<Rightarrow> \<exists>us vs. xs = us @ e # vs \<and> P e = Inr True \<and> (\<forall>u \<in> set us. P u = Inr False))"
proof (induction xs)
  case (Cons x xs)
  then obtain b where b: "P x = Inr b" by (auto simp: bindR_eq_Inr_iff)
  show ?case
  proof (cases b)
    case True
    then have "r = Some x" using Cons.prems b by simp
    moreover have "\<exists>us vs. x # xs = us @ x # vs \<and> P x = Inr True \<and> (\<forall>u \<in> set us. P u = Inr False)"
      using True b by (intro exI [of _ "[]"] exI [of _ xs]) simp
    ultimately show ?thesis by simp
  next
    case False
    then have IH: "case r of None \<Rightarrow> \<forall>x \<in> set xs. P x = Inr False
        | Some e \<Rightarrow> \<exists>us vs. xs = us @ e # vs \<and> P e = Inr True \<and> (\<forall>u \<in> set us. P u = Inr False)"
      using Cons b by simp
    show ?thesis
    proof (cases r)
      case (Some e)
      then obtain us vs where "xs = us @ e # vs" "P e = Inr True" "\<forall>u \<in> set us. P u = Inr False" using IH by auto
      then have "\<exists>us vs. x # xs = us @ e # vs \<and> P e = Inr True \<and> (\<forall>u \<in> set us. P u = Inr False)"
        using b False by (intro exI [of _ "x # us"] exI [of _ vs]) simp
      then show ?thesis using Some by simp
    qed (use IH b False in simp)
  qed
qed auto

lemma pending_miss: "bindR (mshr_at (bc_heap c) m) (mshr_conflictAddr (we_matches c e)) = Inr b \<Longrightarrow> conflict c m e = b"
  by (auto simp: bindR_eq_Inr_iff checkR_eq_Inr_iff mshr_at_Inr mshr_conflictAddr_def we_matches_def we_matchBlockAddr_def we_at_Inr conflict_def)

lemma pending_write: "bindR (we_at (bc_writes c) e) (we_conflictAddr (mshr_matches c m)) = Inr b \<Longrightarrow> conflict c m e = b"
  by (auto simp: bindR_eq_Inr_iff checkR_eq_Inr_iff mshr_at_Inr we_conflictAddr_def mshr_matches_def mshr_matchBlockAddr_def we_at_Inr conflict_def)

lemma mq_findPending_spec:
  assumes "mq_findPending (we_matches c e) (bc_mq c) = Inr r"
  shows "case r of None \<Rightarrow> filter (\<lambda>m. conflict c m e) (q_readyList (bc_mshrQueue c)) = []
    | Some m \<Rightarrow> \<exists>ms. filter (\<lambda>m. conflict c m e) (q_readyList (bc_mshrQueue c)) = m # ms"
proof (cases r)
  case None
  then show ?thesis using find_entry_spec [OF assms [unfolded mq_findPending_def q_findPending_def split_conv]]
    by (auto dest: pending_miss simp: filter_empty_conv)
next
  case (Some m)
  then obtain us vs where "q_readyList (bc_mshrQueue c) = us @ m # vs" "conflict c m e" "\<forall>u \<in> set us. \<not> conflict c u e"
    using find_entry_spec [OF assms [unfolded mq_findPending_def q_findPending_def split_conv]] by (auto dest!: pending_miss)
  then show ?thesis using Some by (auto simp: filter_empty_conv [THEN iffD2])
qed

lemma wq_findPending_spec:
  assumes "wq_findPending (mshr_matches c m) (bc_wq c) = Inr r"
  shows "case r of None \<Rightarrow> \<forall>e \<in> set (q_readyList (bc_writeBuffer c)). \<not> conflict c m e
    | Some e \<Rightarrow> e \<in> set (q_readyList (bc_writeBuffer c)) \<and> conflict c m e"
  using find_entry_spec [OF assms [unfolded wq_findPending_def q_findPending_def split_conv]]
  by (cases r) (auto dest: pending_write)

lemma getNext_ready: "mq_getNext now (q, h) = Some m \<Longrightarrow> m \<in> set (q_readyList q)"
    "wq_getNext now (qw, w) = Some e \<Longrightarrow> e \<in> set (q_readyList qw)"
  by (auto simp: mq_getNext_def wq_getNext_def q_getNext_def split: list.split_asm if_split_asm)


section \<open>Witnesses\<close>

definition b_c0 :: base_cache where
  "b_c0 = \<lparr>bc_mshrQueue = newMSHRQueue 1 1 0, bc_writeBuffer = newQueue 1 1,
     bc_heap = \<lparr>h_pkts = [0 \<mapsto> w_pkt ReadReq 0, 1 \<mapsto> w_pkt WritebackDirty 1],
       h_mshrs = [0 \<mapsto> newMSHR (newTargetList 0 0 False) (newTargetList 0 0 False),
         1 \<mapsto> newMSHR (newTargetList 0 0 False) (newTargetList 0 0 False)]\<rparr>,
     bc_writes = [0 \<mapsto> newWriteQueueEntry, 1 \<mapsto> newWriteQueueEntry], bc_writeAllocator = None, bc_blkSize = 64,
     bc_mostlyIncl = True, bc_numTarget = 8, bc_blocked = 0, bc_order = 0, bc_noTargetMSHR = None, bc_pendingDelete = None,
     bc_port = \<lparr>rp_blocked = False, rp_mustSendRetry = False, rp_retryAt = None\<rparr>, bc_blockedCauses = (\<lambda>_. 0),
     bc_blockedCycle = 0, bc_blockedCycles = (\<lambda>_. 0), bc_sends = [], bc_pfNotes = []\<rparr>"

definition b_c1 :: base_cache where "b_c1 = fst (projr (handleTimingReqMiss 1 1 None (Some 0) None None 5 b_c0))"
definition b_c2 :: base_cache where "b_c2 = projr (allocateWriteBuffer 2 2 None 1 3 b_c1)"

lemma b_runs: "\<not> isl (handleTimingReqMiss 1 1 None (Some 0) None None 5 b_c0)" "\<not> isl (allocateWriteBuffer 2 2 None 1 3 b_c1)"
  by code_simp+

lemma b_init: "queues_init 1 1 0 1 1 b_c0"
proof -
  have "m = 0 \<or> m = 1" if "m < nat 2" for m :: nat using that by auto
  then show ?thesis by (auto simp: queues_init_def mq_init_def b_c0_def)
qed

lemma b_run: "queues_step\<^sup>*\<^sup>* b_c0 b_c2"
proof -
  have "handleTimingReqMiss 1 1 None (Some 0) None None 5 b_c0 =
      Inr (b_c1, snd (projr (handleTimingReqMiss 1 1 None (Some 0) None None 5 b_c0)))"
    using not_isl_Inr [OF b_runs(1)] by (simp add: b_c1_def)
  then have "queues_step b_c0 b_c1" by (rule CMiss)
  moreover have "queues_step b_c1 b_c2" using CWriteback not_isl_Inr [OF b_runs(2)] unfolding b_c2_def by blast
  ultimately show ?thesis by (meson converse_rtranclp_into_rtranclp rtranclp.rtrancl_refl)
qed



end
