(* ===== verification/Packet_Data.thy ===== *)
theory Packet_Data
  imports Packet Cache_Blk
begin

unbundle bit_operations_syntax

text \<open>
  Packets with the bytes they carry (the data accessors of \<open>mem/packet.hh\<close>), and what the data path
  reads of a request besides its address and flags: the context, the requestor, the task, the extra
  data of a store conditional or a compare and swap, and the function object of an atomic operation.
  A pointer into a buffer is the list of bytes from there to the end of the buffer; copying past an
  end is \<open>OutOfRange\<close>.
\<close>

type_synonym byte = "8 word"

record data_packet =
  dp_pkt :: packet
  dp_data :: "byte list"
  dp_contextId :: "int option"
  dp_requestor :: nat
  dp_task :: uint32
  dp_extraData :: "uint64 option"
  dp_atomicOp :: "(byte list \<Rightarrow> byte list) option"

abbreviation dp_cmd :: "data_packet \<Rightarrow> command" where "dp_cmd p \<equiv> pkt_cmd (dp_pkt p)"
abbreviation dp_req :: "data_packet \<Rightarrow> mem_request" where "dp_req p \<equiv> pkt_req (dp_pkt p)"
abbreviation dp_isSet :: "data_packet \<Rightarrow> uint32 \<Rightarrow> bool" where "dp_isSet p m \<equiv> pkt_isSet (dp_pkt p) m"

text \<open>An operation on the packet proper, the bytes untouched.\<close>

definition on_pkt :: "(packet \<Rightarrow> packet res) \<Rightarrow> data_packet \<Rightarrow> data_packet res" where
  "on_pkt f p = bindR (f (dp_pkt p)) (\<lambda>q. Inr (p\<lparr>dp_pkt := q\<rparr>))"

definition flag_pkt :: "(packet \<Rightarrow> packet) \<Rightarrow> data_packet \<Rightarrow> data_packet" where
  "flag_pkt f p = p\<lparr>dp_pkt := f (dp_pkt p)\<rparr>"

section \<open>Flags\<close>

definition WRITE_THROUGH :: uint32 where "WRITE_THROUGH = 0x10"
definition BLOCK_CACHED :: uint32 where "BLOCK_CACHED = 0x10000"

definition setBlockCached :: "packet \<Rightarrow> packet" where
  "setBlockCached p = pkt_set BLOCK_CACHED p"

definition clearBlockCached :: "packet \<Rightarrow> packet" where
  "clearBlockCached p = pkt_clear BLOCK_CACHED p"

definition setWriteThrough :: "packet \<Rightarrow> packet res" where
  "setWriteThrough p = checkR AssertFail
     (cmd_isWrite (pkt_cmd p) \<and> (cmd_isEviction (pkt_cmd p) \<or> pkt_cmd p = WriteClean)) (Inr (pkt_set WRITE_THROUGH p))"

definition clearWriteThrough :: "packet \<Rightarrow> packet" where
  "clearWriteThrough p = pkt_clear WRITE_THROUGH p"

definition mustCheckAbove :: "packet \<Rightarrow> bool" where
  "mustCheckAbove p \<longleftrightarrow> pkt_cmd p = HardPFReq \<or> cmd_isEviction (pkt_cmd p)"

definition isCleanEviction :: "packet \<Rightarrow> bool" where
  "isCleanEviction p \<longleftrightarrow> pkt_cmd p = CleanEvict \<or> pkt_cmd p = WritebackClean"

section \<open>Requests\<close>

definition rq_isCondSwap :: "mem_request \<Rightarrow> bool" where
  "rq_isCondSwap r = any_set (rq_flags r) 0x00800000"

definition rq_isInstFetch :: "mem_request \<Rightarrow> bool" where
  "rq_isInstFetch r = any_set (rq_flags r) 0x00000100"

definition rq_isToPOU :: "mem_request \<Rightarrow> bool" where
  "rq_isToPOU r = any_set (rq_flags r) 0x0000001000000000"

definition rq_isToPOC :: "mem_request \<Rightarrow> bool" where
  "rq_isToPOC r = any_set (rq_flags r) 0x0000002000000000"

definition rq_getDest :: "mem_request \<Rightarrow> uint64" where
  "rq_getDest r = rq_flags r AND 0x0000003000000000"

text \<open>The constructor for a physical address.\<close>

definition newRequest :: "addr \<Rightarrow> uint32 \<Rightarrow> uint64 \<Rightarrow> mem_request" where
  "newRequest paddr sz flags =
     \<lparr>rq_flags = flags, rq_paddr = Some paddr, rq_size = Some sz, rq_byteEnable = replicate (unat sz) True\<rparr>"

definition getExtraData :: "data_packet \<Rightarrow> uint64 res" where
  "getExtraData p = (case dp_extraData p of None \<Rightarrow> Inl AssertFail | Some x \<Rightarrow> Inr x)"

definition setExtraData :: "uint64 \<Rightarrow> data_packet \<Rightarrow> data_packet" where
  "setExtraData x p = p\<lparr>dp_extraData := Some x\<rparr>"

definition getAtomicOpFunctor :: "data_packet \<Rightarrow> (byte list \<Rightarrow> byte list) res" where
  "getAtomicOpFunctor p = (case dp_atomicOp p of None \<Rightarrow> Inl AssertFail | Some f \<Rightarrow> Inr f)"

text \<open>
  What the locks of a block read of the request.  \<open>getPaddr\<close> and \<open>getSize\<close> assert that the field is
  valid, and so does \<open>contextId\<close>, which not every comparison reads; \<open>- 1\<close> is \<open>InvalidContextID\<close>.
\<close>

definition lock_request :: "data_packet \<Rightarrow> request res" where
  "lock_request p = (case (rq_paddr (dp_req p), rq_size (dp_req p)) of
       (Some a, Some s) \<Rightarrow> Inr \<lparr>req_paddr = a, req_size = s,
          req_contextId = (case dp_contextId p of None \<Rightarrow> - 1 | Some c \<Rightarrow> c)\<rparr>
     | _ \<Rightarrow> Inl AssertFail)"

section \<open>Data\<close>

definition getPtr :: "data_packet \<Rightarrow> byte list res" where
  "getPtr p = checkR AssertFail (dp_isSet p (STATIC_DATA OR DYNAMIC_DATA))
     (checkR AssertFail (\<not> pkt_isMaskedWrite (dp_pkt p)) (Inr (dp_data p)))"

definition getConstPtr :: "data_packet \<Rightarrow> byte list res" where
  "getConstPtr p = checkR AssertFail (dp_isSet p (STATIC_DATA OR DYNAMIC_DATA)) (Inr (dp_data p))"

definition memcpy :: "byte list \<Rightarrow> byte list \<Rightarrow> nat \<Rightarrow> byte list res" where
  "memcpy dst src n = checkR OutOfRange (n \<le> length dst \<and> n \<le> length src) (Inr (take n src @ drop n dst))"

text \<open>The source of the copy is never the packet's own buffer: it is a block or the memory.\<close>

definition setData :: "byte list \<Rightarrow> data_packet \<Rightarrow> data_packet res" where
  "setData src p = bindR (getPtr p) (\<lambda>d. bindR (pkt_getSize (dp_pkt p)) (\<lambda>s.
     bindR (memcpy d src (unat s)) (\<lambda>d'. Inr (p\<lparr>dp_data := d'\<rparr>))))"

definition setDataFromBlock :: "byte list \<Rightarrow> uint32 \<Rightarrow> data_packet \<Rightarrow> data_packet res" where
  "setDataFromBlock blk_data blk_size p =
     bindR (pkt_getOffset blk_size (dp_pkt p)) (\<lambda>off. setData (drop (unat off) blk_data) p)"

text \<open>The loop over the enabled bytes of a masked write.\<close>

definition write_masked :: "bool list \<Rightarrow> byte list \<Rightarrow> byte list \<Rightarrow> nat \<Rightarrow> byte list res" where
  "write_masked be dst src n = checkR OutOfRange (n \<le> length dst \<and> n \<le> length src)
     (Inr (map (\<lambda>i. if be ! i then src ! i else dst ! i) [0..<n] @ drop n dst))"

definition writeData :: "data_packet \<Rightarrow> byte list \<Rightarrow> byte list res" where
  "writeData p dst =
     (if \<not> pkt_isMaskedWrite (dp_pkt p)
      then bindR (getConstPtr p) (\<lambda>d. bindR (pkt_getSize (dp_pkt p)) (\<lambda>s. memcpy dst d (unat s)))
      else bindR (pkt_getSize (dp_pkt p)) (\<lambda>s.
        checkR AssertFail (length (rq_byteEnable (dp_req p)) = unat s)
          (bindR (getConstPtr p) (\<lambda>d. write_masked (rq_byteEnable (dp_req p)) dst d (unat s)))))"

definition writeDataToBlock :: "data_packet \<Rightarrow> byte list \<Rightarrow> uint32 \<Rightarrow> byte list res" where
  "writeDataToBlock p blk_data blk_size =
     bindR (pkt_getOffset blk_size (dp_pkt p)) (\<lambda>off.
     bindR (writeData p (drop (unat off) blk_data)) (\<lambda>d. Inr (take (unat off) blk_data @ d)))"

text \<open>New storage for the packet, with unspecified content: \<open>junk\<close>.\<close>

definition dp_allocate :: "byte \<Rightarrow> data_packet \<Rightarrow> data_packet res" where
  "dp_allocate junk p = bindR (pkt_allocate (dp_pkt p)) (\<lambda>q.
     Inr (p\<lparr>dp_pkt := q, dp_data := (if cmd_hasData (dp_cmd p) \<or> pkt_hasRespData (dp_pkt p)
       then replicate (unat (pkt_size q)) junk else dp_data p)\<rparr>))"

section \<open>Atomic operations on bytes\<close>

text \<open>The bytes of an integer on a little-endian host.\<close>

definition word_bytes :: "nat \<Rightarrow> uint64 \<Rightarrow> byte list" where
  "word_bytes n w = map (\<lambda>k. ucast (drop_bit (8 * k) w)) [0..<n]"

definition condition_holds :: "data_packet \<Rightarrow> byte list \<Rightarrow> bool res" where
  "condition_holds p host =
     (if rq_isCondSwap (dp_req p)
      then bindR (pkt_getSize (dp_pkt p)) (\<lambda>s.
        if s = 8 \<or> s = 4
        then bindR (getExtraData p) (\<lambda>x. Inr (take (unat s) host = word_bytes (unat s) x))
        else Inl Panic)
      else Inr True)"

text \<open>A swap at a place of memory: the old bytes go into the packet, its bytes to the place if the condition holds.\<close>

definition swap_bytes :: "data_packet \<Rightarrow> byte list \<Rightarrow> (data_packet \<times> byte list \<times> bool) res" where
  "swap_bytes p host =
     bindR (getConstPtr p) (\<lambda>new. bindR (setData host p) (\<lambda>p1. bindR (condition_holds p1 host) (\<lambda>overwrite.
     bindR (pkt_getSize (dp_pkt p)) (\<lambda>s.
     if overwrite then bindR (memcpy host new (unat s)) (\<lambda>h. Inr (p1, h, True)) else Inr (p1, host, False)))))"

text \<open>An atomic memory operation: the function object updates the operand in place.\<close>

definition amo_bytes :: "data_packet \<Rightarrow> byte list \<Rightarrow> (data_packet \<times> byte list \<times> bool) res" where
  "amo_bytes p host =
     bindR (setData host p) (\<lambda>p1. bindR (getAtomicOpFunctor p1) (\<lambda>f. bindR (pkt_getSize (dp_pkt p1)) (\<lambda>s.
     Inr (p1, f (take (unat s) host) @ drop (unat s) host, True))))"

end
