(* ===== verification/Classic_Cache.thy ===== *)
theory Classic_Cache
  imports Packet_Data Cache_Queues Set_Assoc_Tags
begin

unbundle bit_operations_syntax

text \<open>
  The classic cache with its blocks and their data (\<open>mem/cache/base.cc\<close>, \<open>mem/cache/cache.cc\<close>), in
  atomic mode: a request is carried to completion in one call, the caches and the memory below being
  called through the memory side port and the caches above through the CPU side port.  The ports are
  arguments that work on the state \<open>'e\<close> of everything else.  The cache has no compressor and no
  partition manager, and its tags are set-associative; latencies, statistics, probes and debugging
  output are not modelled.
\<close>

section \<open>State\<close>

text \<open>
  The data of the blocks of the tags are one list per block, as in \<open>dataBlks\<close>; the temporary block has
  its own.  \<open>ca_prefetchUnused\<close> counts the calls to the prefetcher, \<open>None\<close> if there is none.
\<close>

record ('s, 'm) classic_cache =
  ca_base :: base_cache
  ca_tags :: "('s, 'm) tag_store"
  ca_data :: "byte list list"
  ca_temp :: cache_blk
  ca_tempAddr :: addr
  ca_tempData :: "byte list"
  ca_tempWriteback :: "data_packet option"
  ca_tempEvent :: bool
  ca_isReadOnly :: bool
  ca_writebackClean :: bool
  ca_doFastWrites :: bool
  ca_forwardSnoops :: bool
  ca_addrRanges :: "(addr \<times> addr) list"
  ca_prefetchUnused :: "nat option"

datatype blk_ptr = TagBlk nat | TempBlk

text \<open>
  What a call reads of its surroundings: the replacement policy, the current tick and cycle, the tick at
  which a block that is filled now will be ready, the number of requestors, the content of new
  storage and the identifier of new requests.
\<close>

record ('s, 'm) cache_env =
  ev_policy :: "('s, 'm) rp"
  ev_now :: tick
  ev_cycle :: uint64
  ev_ready :: tick
  ev_maxRequestors :: nat
  ev_junk :: byte
  ev_id :: nat

record 'e cache_ports =
  sendAtomic :: "data_packet \<Rightarrow> 'e \<Rightarrow> (data_packet \<times> 'e) res"
  sendAtomicSnoop :: "data_packet \<Rightarrow> 'e \<Rightarrow> (data_packet \<times> 'e) res"

abbreviation ca_blkSize :: "('s, 'm) classic_cache \<Rightarrow> uint32" where "ca_blkSize c \<equiv> bc_blkSize (ca_base c)"

section \<open>Blocks\<close>

definition blk_at :: "blk_ptr \<Rightarrow> ('s, 'm) classic_cache \<Rightarrow> cache_blk res" where
  "blk_at r c = (case r of TagBlk i \<Rightarrow> vec_at (ts_blks (ca_tags c)) i | TempBlk \<Rightarrow> Inr (ca_temp c))"

definition put_blk :: "blk_ptr \<Rightarrow> cache_blk \<Rightarrow> ('s, 'm) classic_cache \<Rightarrow> ('s, 'm) classic_cache" where
  "put_blk r b c = (case r of TagBlk i \<Rightarrow> c\<lparr>ca_tags := (ca_tags c)\<lparr>ts_blks := (ts_blks (ca_tags c))[i := b]\<rparr>\<rparr>
     | TempBlk \<Rightarrow> c\<lparr>ca_temp := b\<rparr>)"

definition on_blk ::
  "(cache_blk \<Rightarrow> cache_blk res) \<Rightarrow> blk_ptr \<Rightarrow> ('s, 'm) classic_cache \<Rightarrow> ('s, 'm) classic_cache res" where
  "on_blk f r c = bindR (blk_at r c) (\<lambda>b. bindR (f b) (\<lambda>b'. Inr (put_blk r b' c)))"

definition blk_isSet :: "uint32 \<Rightarrow> blk_ptr \<Rightarrow> ('s, 'm) classic_cache \<Rightarrow> bool res" where
  "blk_isSet m r c = bindR (blk_at r c) (\<lambda>b. Inr (isSet m b))"

text \<open>\<open>blk && blk->isValid()\<close>\<close>

definition blk_valid :: "blk_ptr option \<Rightarrow> ('s, 'm) classic_cache \<Rightarrow> bool res" where
  "blk_valid r c = (case r of None \<Rightarrow> Inr False | Some r \<Rightarrow> bindR (blk_at r c) (\<lambda>b. Inr (te_valid b)))"

definition data_at :: "blk_ptr \<Rightarrow> ('s, 'm) classic_cache \<Rightarrow> byte list res" where
  "data_at r c = (case r of TagBlk i \<Rightarrow> vec_at (ca_data c) i | TempBlk \<Rightarrow> Inr (ca_tempData c))"

definition put_data :: "blk_ptr \<Rightarrow> byte list \<Rightarrow> ('s, 'm) classic_cache \<Rightarrow> ('s, 'm) classic_cache" where
  "put_data r d c = (case r of TagBlk i \<Rightarrow> c\<lparr>ca_data := (ca_data c)[i := d]\<rparr> | TempBlk \<Rightarrow> c\<lparr>ca_tempData := d\<rparr>)"

definition ca_regenerateBlkAddr :: "blk_ptr \<Rightarrow> ('s, 'm) classic_cache \<Rightarrow> addr res" where
  "ca_regenerateBlkAddr r c = (case r of
       TagBlk i \<Rightarrow> bindR (blk_at r c) (\<lambda>b. Inr (regenerateBlkAddr (ca_tags c) b))
     | TempBlk \<Rightarrow> Inr (ca_tempAddr c))"

text \<open>What the tags read of a packet.\<close>

definition tag_packet_of :: "data_packet \<Rightarrow> tag_packet res" where
  "tag_packet_of p = bindR (pkt_getAddr (dp_pkt p)) (\<lambda>a. bindR (pkt_isSecure (dp_pkt p)) (\<lambda>s.
     Inr \<lparr>tp_key = \<lparr>key_address = a, key_secure = s\<rparr>, tp_requestor = dp_requestor p, tp_task = dp_task p\<rparr>))"

definition updateBlockData :: "blk_ptr \<Rightarrow> data_packet \<Rightarrow> ('s, 'm) classic_cache \<Rightarrow> ('s, 'm) classic_cache res" where
  "updateBlockData r cpkt c = bindR (data_at r c) (\<lambda>d.
     bindR (writeDataToBlock cpkt d (ca_blkSize c)) (\<lambda>d'. Inr (put_data r d' c)))"

definition inRange :: "addr \<Rightarrow> ('s, 'm) classic_cache \<Rightarrow> bool" where
  "inRange a c = list_ex (\<lambda>(lo, hi). lo \<le> a \<and> a < hi) (ca_addrRanges c)"

section \<open>Removing blocks\<close>

definition invalidateBlock ::
  "('s, 'm) cache_env \<Rightarrow> blk_ptr \<Rightarrow> ('s, 'm) classic_cache \<Rightarrow> ('s, 'm) classic_cache res" where
  "invalidateBlock ev r c =
     bindR (blk_at r c) (\<lambda>b.
     bindR (if prefetched b
            then (case ca_prefetchUnused c of None \<Rightarrow> Inl NullDeref | Some n \<Rightarrow> Inr (c\<lparr>ca_prefetchUnused := Some (n + 1)\<rparr>))
            else Inr c) (\<lambda>c1.
     case r of
       TagBlk i \<Rightarrow> bindR (ts_invalidate (ev_policy ev) i (ca_tags c1)) (\<lambda>ts. Inr (c1\<lparr>ca_tags := ts\<rparr>))
     | TempBlk \<Rightarrow> Inr (c1\<lparr>ca_temp := blk_invalidate (ca_temp c1), ca_tempAddr := - 1\<rparr>)))"

text \<open>A new packet of the cache itself for the block at \<open>r\<close>; \<open>0x10000000\<close> is \<open>Request::SECURE\<close>.\<close>

definition block_request :: "blk_ptr \<Rightarrow> uint64 \<Rightarrow> ('s, 'm) classic_cache \<Rightarrow> (mem_request \<times> uint32) res" where
  "block_request r flags c =
     bindR (blk_at r c) (\<lambda>b. bindR (ca_regenerateBlkAddr r c) (\<lambda>a.
     Inr (newRequest a (ca_blkSize c) (flags OR (if te_secure b then 0x10000000 else 0)), taskId b)))"

definition own_packet :: "packet \<Rightarrow> uint32 \<Rightarrow> data_packet" where
  "own_packet q task = \<lparr>dp_pkt = q, dp_data = [], dp_contextId = None, dp_requestor = 0, dp_task = task,
     dp_extraData = None, dp_atomicOp = None\<rparr>"

text \<open>The end of \<open>writebackBlk\<close> and \<open>writecleanBlk\<close>: the packet takes the state and the data of the block.\<close>

definition hand_over ::
  "('s, 'm) cache_env \<Rightarrow> blk_ptr \<Rightarrow> data_packet \<Rightarrow> ('s, 'm) classic_cache \<Rightarrow> (data_packet \<times> ('s, 'm) classic_cache) res" where
  "hand_over ev r p c =
     bindR (blk_at r c) (\<lambda>b.
     let (p1, b1) = (if isSet WritableBit b then (p, clearCoherenceBits WritableBit b)
                     else (flag_pkt setHasSharers p, b));
         c1 = put_blk r (clearCoherenceBits DirtyBit b1) c
     in bindR (dp_allocate (ev_junk ev) p1) (\<lambda>p2. bindR (data_at r c1) (\<lambda>d.
        bindR (setDataFromBlock d (ca_blkSize c) p2) (\<lambda>p3. Inr (p3, c1)))))"

definition writebackBlk ::
  "('s, 'm) cache_env \<Rightarrow> blk_ptr \<Rightarrow> ('s, 'm) classic_cache \<Rightarrow> (data_packet \<times> ('s, 'm) classic_cache) res" where
  "writebackBlk ev r c =
     checkR AssertFail (\<not> ca_isReadOnly c \<or> ca_writebackClean c) (bindR (blk_at r c) (\<lambda>b.
     checkR AssertFail (te_valid b \<and> (isSet DirtyBit b \<or> ca_writebackClean c))
       (bindR (block_request r 0 c) (\<lambda>(rq, task).
        bindR (newPacket (ev_id ev) rq (if isSet DirtyBit b then WritebackDirty else WritebackClean)) (\<lambda>q.
        hand_over ev r (own_packet q task) c)))))"

text \<open>\<open>dest\<close> is added to the flags of the request after the packet was made, which does not look at it.\<close>

definition writecleanBlk ::
  "('s, 'm) cache_env \<Rightarrow> blk_ptr \<Rightarrow> uint64 \<Rightarrow> nat \<Rightarrow> ('s, 'm) classic_cache
   \<Rightarrow> (data_packet \<times> ('s, 'm) classic_cache) res" where
  "writecleanBlk ev r dest i c =
     bindR (block_request r dest c) (\<lambda>(rq, task).
     let p = own_packet (newPacketBlk (ev_id ev) rq WriteClean (sint (ca_blkSize c)) i) task
     in bindR (if dest \<noteq> 0 then on_pkt setWriteThrough p else Inr p) (\<lambda>p1. hand_over ev r p1 c))"

definition cleanEvictBlk ::
  "('s, 'm) cache_env \<Rightarrow> blk_ptr \<Rightarrow> ('s, 'm) classic_cache \<Rightarrow> data_packet res" where
  "cleanEvictBlk ev r c =
     checkR AssertFail (\<not> ca_writebackClean c) (bindR (blk_at r c) (\<lambda>b.
     checkR AssertFail (te_valid b \<and> \<not> isSet DirtyBit b)
       (bindR (block_request r 0 c) (\<lambda>(rq, task).
        bindR (newPacket (ev_id ev) rq CleanEvict) (\<lambda>q. dp_allocate (ev_junk ev) (own_packet q task))))))"

definition evictBlock ::
  "('s, 'm) cache_env \<Rightarrow> blk_ptr \<Rightarrow> ('s, 'm) classic_cache \<Rightarrow> (data_packet \<times> ('s, 'm) classic_cache) res" where
  "evictBlock ev r c =
     bindR (blk_isSet DirtyBit r c) (\<lambda>dirty.
     bindR (if dirty \<or> ca_writebackClean c then writebackBlk ev r c
            else bindR (cleanEvictBlk ev r c) (\<lambda>p. Inr (p, c))) (\<lambda>(p, c1).
     bindR (invalidateBlock ev r c1) (\<lambda>c2. Inr (p, c2))))"

section \<open>Satisfying a request\<close>

text \<open>The part of a block's data that starts at \<open>off\<close> is changed by \<open>f\<close>.\<close>

definition at_offset ::
  "addr \<Rightarrow> (data_packet \<Rightarrow> byte list \<Rightarrow> (data_packet \<times> byte list \<times> 'a) res) \<Rightarrow> blk_ptr \<Rightarrow> data_packet \<Rightarrow> ('s, 'm) classic_cache
   \<Rightarrow> (data_packet \<times> 'a \<times> ('s, 'm) classic_cache) res" where
  "at_offset off f r p c =
     bindR (data_at r c) (\<lambda>d.
     bindR (f p (drop (unat off) d)) (\<lambda>(p1, d1, x). Inr (p1, x, put_data r (take (unat off) d @ d1) c)))"

definition cmpAndSwap ::
  "blk_ptr \<Rightarrow> data_packet \<Rightarrow> ('s, 'm) classic_cache \<Rightarrow> (data_packet \<times> ('s, 'm) classic_cache) res" where
  "cmpAndSwap r p c =
     checkR AssertFail (cmd_isRequest (dp_cmd p)) (bindR (pkt_getOffset (ca_blkSize c) (dp_pkt p)) (\<lambda>off.
     bindR (pkt_getSize (dp_pkt p)) (\<lambda>s. checkR AssertFail (8 \<ge> s)
       (bindR (at_offset off swap_bytes r p c) (\<lambda>(p1, overwritten, c1).
        if overwritten then bindR (on_blk (setCoherenceBits DirtyBit) r c1) (\<lambda>c2. Inr (p1, c2)) else Inr (p1, c1))))))"

text \<open>
  \<open>CacheBlk::checkWrite\<close> of the packet: whether the write proceeds.  The request is read when a lock is
  compared with it.
\<close>

definition blk_checkWrite :: "data_packet \<Rightarrow> cache_blk \<Rightarrow> (bool \<times> data_packet \<times> cache_blk) res" where
  "blk_checkWrite p b =
     (let llsc = cmd_isLLSC (dp_cmd p) in
      if lockList b = [] then Inr (\<not> llsc, if llsc then setExtraData 0 p else p, b)
      else bindR (lock_request p) (\<lambda>rq.
        checkR AssertFail (dp_contextId p \<noteq> None \<or> \<not> llsc \<and> list_all (\<lambda>l. \<not> lock_intersects l rq) (lockList b))
          (let (ok, b') = checkWrite llsc rq b
           in Inr (ok, if llsc then setExtraData (if ok then 1 else 0) p else p, b'))))"

definition blk_trackLoadLocked :: "data_packet \<Rightarrow> cache_blk \<Rightarrow> cache_blk res" where
  "blk_trackLoadLocked p b = checkR AssertFail (cmd_isLLSC (dp_cmd p))
     (bindR (lock_request p) (\<lambda>rq. checkR AssertFail (dp_contextId p \<noteq> None) (Inr (trackLoadLocked rq b))))"

definition satisfy_swap ::
  "blk_ptr \<Rightarrow> data_packet \<Rightarrow> ('s, 'm) classic_cache \<Rightarrow> (data_packet \<times> ('s, 'm) classic_cache) res" where
  "satisfy_swap r p c =
     (if rq_isAtomic (dp_req p)
      then bindR (pkt_getAddr (dp_pkt p)) (\<lambda>a.
        bindR (at_offset (extractBlkOffset (ca_tags c) a) amo_bytes r p c) (\<lambda>(p1, _, c1).
        bindR (on_blk (setCoherenceBits DirtyBit) r c1) (\<lambda>c2. Inr (p1, c2))))
      else cmpAndSwap r p c)"

definition satisfy_write ::
  "blk_ptr \<Rightarrow> data_packet \<Rightarrow> ('s, 'm) classic_cache \<Rightarrow> (data_packet \<times> ('s, 'm) classic_cache) res" where
  "satisfy_write r p c =
     bindR (blk_isSet WritableBit r c) (\<lambda>w. checkR AssertFail w (bindR (blk_at r c) (\<lambda>b.
     bindR (blk_checkWrite p b) (\<lambda>(ok, p1, b1).
     let c1 = put_blk r b1 c in
     bindR (if ok then updateBlockData r p1 c1 else Inr c1) (\<lambda>c2.
     bindR (on_blk (setCoherenceBits DirtyBit) r c2) (\<lambda>c3. Inr (p1, c3)))))))"

definition satisfy_read ::
  "blk_ptr \<Rightarrow> data_packet \<Rightarrow> ('s, 'm) classic_cache \<Rightarrow> (data_packet \<times> ('s, 'm) classic_cache) res" where
  "satisfy_read r p c =
     bindR (if cmd_isLLSC (dp_cmd p) then on_blk (blk_trackLoadLocked p) r c else Inr c) (\<lambda>c1.
     checkR AssertFail (pkt_hasRespData (dp_pkt p)) (bindR (data_at r c1) (\<lambda>d.
     bindR (setDataFromBlock d (ca_blkSize c1) p) (\<lambda>p1. Inr (p1, c1)))))"

definition satisfy_upgrade ::
  "blk_ptr \<Rightarrow> data_packet \<Rightarrow> ('s, 'm) classic_cache \<Rightarrow> (data_packet \<times> ('s, 'm) classic_cache) res" where
  "satisfy_upgrade r p c =
     checkR AssertFail (\<not> dp_isSet p HAS_SHARERS) (bindR (blk_isSet DirtyBit r c) (\<lambda>dirty.
     if dirty then bindR (on_pkt setCacheResponding p) (\<lambda>p1.
       bindR (on_blk (\<lambda>b. Inr (clearCoherenceBits DirtyBit b)) r c) (\<lambda>c1. Inr (p1, c1)))
     else Inr (p, c)))"

definition base_satisfyRequest ::
  "('s, 'm) cache_env \<Rightarrow> data_packet \<Rightarrow> blk_ptr \<Rightarrow> ('s, 'm) classic_cache \<Rightarrow> (data_packet \<times> ('s, 'm) classic_cache) res" where
  "base_satisfyRequest ev p r c =
     checkR AssertFail (cmd_isRequest (dp_cmd p)) (bindR (blk_valid (Some r) c) (\<lambda>v. checkR AssertFail v
       (bindR (pkt_getOffset (ca_blkSize c) (dp_pkt p)) (\<lambda>off. bindR (pkt_getSize (dp_pkt p)) (\<lambda>s.
        checkR AssertFail (off + ucast s \<le> ucast (ca_blkSize c))
          (if dp_cmd p = SwapReq then satisfy_swap r p c
           else if cmd_isWrite (dp_cmd p) then satisfy_write r p c
           else if cmd_isRead (dp_cmd p) then satisfy_read r p c
           else if cmd_isUpgrade (dp_cmd p) then satisfy_upgrade r p c
           else if cmd_isClean (dp_cmd p)
           then bindR (on_blk (\<lambda>b. Inr (clearCoherenceBits DirtyBit b)) r c) (\<lambda>c1. Inr (p, c1))
           else checkR AssertFail (cmd_isInvalidate (dp_cmd p)) (bindR (invalidateBlock ev r c) (\<lambda>c1. Inr (p, c1)))))))))"

text \<open>What a request of a cache above learns about the block, and what the block loses.\<close>

definition pass_ownership ::
  "data_packet \<Rightarrow> blk_ptr \<Rightarrow> bool \<Rightarrow> bool \<Rightarrow> ('s, 'm) classic_cache \<Rightarrow> (data_packet \<times> ('s, 'm) classic_cache) res" where
  "pass_ownership p r deferred_response pending_downgrade c =
     bindR (pkt_getSize (dp_pkt p)) (\<lambda>s. checkR AssertFail (s = ca_blkSize c) (bindR (blk_at r c) (\<lambda>b.
     bindR (pkt_needsWritable (dp_pkt p)) (\<lambda>nw.
     let give = (\<lambda>_. bindR (on_pkt setCacheResponding p) (\<lambda>p1. Inr (p1, put_blk r (clearCoherenceBits DirtyBit b) c))) in
     if nw then
       checkR AssertFail (dp_cmd p = ReadExReq \<or> dp_cmd p = SCUpgradeFailReq) (checkR AssertFail (\<not> dp_isSet p HAS_SHARERS)
         (if isSet DirtyBit b then give () else Inr (p, c)))
     else if isSet WritableBit b \<and> \<not> pending_downgrade \<and> \<not> dp_isSet p HAS_SHARERS \<and> dp_cmd p \<noteq> ReadCleanReq then
       (if isSet DirtyBit b then (if \<not> deferred_response then give () else Inr (flag_pkt setHasSharers p, c)) else Inr (p, c))
     else Inr (flag_pkt setHasSharers p, c)))))"

definition satisfyRequest ::
  "('s, 'm) cache_env \<Rightarrow> data_packet \<Rightarrow> blk_ptr \<Rightarrow> bool \<Rightarrow> bool \<Rightarrow> ('s, 'm) classic_cache
   \<Rightarrow> (data_packet \<times> ('s, 'm) classic_cache) res" where
  "satisfyRequest ev p r deferred_response pending_downgrade c =
     bindR (base_satisfyRequest ev p r c) (\<lambda>(p1, c1).
     if cmd_isRead (dp_cmd p1) \<and> cmd_fromCache (dp_cmd p1)
     then pass_ownership p1 r deferred_response pending_downgrade c1 else Inr (p1, c1))"

definition maintainClusivity ::
  "('s, 'm) cache_env \<Rightarrow> bool \<Rightarrow> blk_ptr option \<Rightarrow> ('s, 'm) classic_cache \<Rightarrow> ('s, 'm) classic_cache res" where
  "maintainClusivity ev from_cache blk c =
     (case blk of None \<Rightarrow> Inr c
      | Some r \<Rightarrow> bindR (blk_at r c) (\<lambda>b.
          if from_cache \<and> te_valid b \<and> \<not> isSet DirtyBit b \<and> \<not> bc_mostlyIncl (ca_base c)
          then invalidateBlock ev r c else Inr c))"

section \<open>Bringing blocks in\<close>

text \<open>Whether an outstanding miss on one of the valid blocks forbids to evict them.\<close>

fun eviction_blocked :: "blk_ptr list \<Rightarrow> ('s, 'm) classic_cache \<Rightarrow> bool res" where
  "eviction_blocked [] c = Inr False"
| "eviction_blocked (r # rs) c =
     bindR (blk_at r c) (\<lambda>b.
     if te_valid b
     then bindR (ca_regenerateBlkAddr r c) (\<lambda>a. bindR (mq_findMatch a (te_secure b) True (bc_mq (ca_base c))) (\<lambda>m.
       case m of None \<Rightarrow> eviction_blocked rs c
       | Some m \<Rightarrow> bindR (mshr_at (bc_heap (ca_base c)) m) (\<lambda>x. bindR (front_of (m_targets x)) (\<lambda>t.
           bindR (pkt_at (bc_heap (ca_base c)) (t_pkt t)) (\<lambda>fp.
           checkR AssertFail (\<not> isSet WritableBit b \<and> tl_needsWritable (m_targets x) \<or> cmd_isClean (pkt_cmd fp)) (Inr True))))))
     else eviction_blocked rs c)"

fun evict_valid ::
  "('s, 'm) cache_env \<Rightarrow> blk_ptr list \<Rightarrow> data_packet list \<Rightarrow> ('s, 'm) classic_cache
   \<Rightarrow> (data_packet list \<times> ('s, 'm) classic_cache) res" where
  "evict_valid ev [] wbs c = Inr (wbs, c)"
| "evict_valid ev (r # rs) wbs c =
     bindR (blk_at r c) (\<lambda>b.
     if te_valid b then bindR (evictBlock ev r c) (\<lambda>(p, c1). evict_valid ev rs (wbs @ [p]) c1)
     else evict_valid ev rs wbs c)"

definition handleEvictions ::
  "('s, 'm) cache_env \<Rightarrow> blk_ptr list \<Rightarrow> data_packet list \<Rightarrow> ('s, 'm) classic_cache
   \<Rightarrow> (bool \<times> data_packet list \<times> ('s, 'm) classic_cache) res" where
  "handleEvictions ev evict_blks wbs c =
     bindR (eviction_blocked evict_blks c) (\<lambda>stop.
     if stop then Inr (False, wbs, c)
     else bindR (evict_valid ev evict_blks wbs c) (\<lambda>(wbs1, c1). Inr (True, wbs1, c1)))"

definition allocateBlock ::
  "('s, 'm) cache_env \<Rightarrow> data_packet \<Rightarrow> data_packet list \<Rightarrow> ('s, 'm) classic_cache
   \<Rightarrow> (blk_ptr option \<times> data_packet list \<times> ('s, 'm) classic_cache) res" where
  "allocateBlock ev p wbs c =
     bindR (tag_packet_of p) (\<lambda>tp.
     bindR (findVictim (ev_policy ev) (ev_now ev) (tp_key tp) (ca_tags c)) (\<lambda>(v, ts).
     let c1 = c\<lparr>ca_tags := ts\<rparr> in
     case v of None \<Rightarrow> Inr (None, wbs, c1)
     | Some i \<Rightarrow> bindR (handleEvictions ev [TagBlk i] wbs c1) (\<lambda>(ok, wbs1, c2).
         if \<not> ok then Inr (None, wbs1, c2)
         else bindR (insertBlock (ev_policy ev) (ev_maxRequestors ev) (ev_now ev) tp i (ca_tags c2)) (\<lambda>ts1.
           Inr (Some (TagBlk i), wbs1, c2\<lparr>ca_tags := ts1\<rparr>)))))"

text \<open>The temporary block, used where no block could be allocated.\<close>

definition insert_temp :: "addr \<Rightarrow> bool \<Rightarrow> ('s, 'm) classic_cache \<Rightarrow> ('s, 'm) classic_cache res" where
  "insert_temp a is_secure c =
     bindR (te_insert (extractTag (ts_ip (ca_tags c))) \<lparr>key_address = a, key_secure = is_secure\<rparr> (ca_temp c)) (\<lambda>b.
     Inr (c\<lparr>ca_temp := b, ca_tempAddr := a\<rparr>))"

definition fill_target ::
  "('s, 'm) cache_env \<Rightarrow> data_packet \<Rightarrow> blk_ptr option \<Rightarrow> data_packet list \<Rightarrow> bool \<Rightarrow> ('s, 'm) classic_cache
   \<Rightarrow> (blk_ptr \<times> data_packet list \<times> ('s, 'm) classic_cache) res" where
  "fill_target ev p blk wbs allocate c =
     (case blk of Some r \<Rightarrow> Inr (r, wbs, c)
      | None \<Rightarrow> checkR AssertFail (cmd_hasData (dp_cmd p) \<or> dp_cmd p = InvalidateResp)
          (bindR (if allocate then allocateBlock ev p wbs c else Inr (None, wbs, c)) (\<lambda>(v, wbs1, c1).
           case v of Some r \<Rightarrow> Inr (r, wbs1, c1)
           | None \<Rightarrow> bindR (pkt_getAddr (dp_pkt p)) (\<lambda>a. bindR (pkt_isSecure (dp_pkt p)) (\<lambda>s.
               bindR (insert_temp a s c1) (\<lambda>c2. Inr (TempBlk, wbs1, c2)))))))"

text \<open>The state the response gives to the block.\<close>

definition fill_state :: "data_packet \<Rightarrow> bool \<Rightarrow> cache_blk \<Rightarrow> cache_blk res" where
  "fill_state p readOnly b =
     bindR (setCoherenceBits ReadableBit b) (\<lambda>b1.
     checkR AssertFail (dp_cmd p = InvalidateResp \<longrightarrow> \<not> dp_isSet p HAS_SHARERS)
       (if \<not> dp_isSet p HAS_SHARERS
        then bindR (setCoherenceBits WritableBit b1) (\<lambda>b2.
          if dp_isSet p CACHE_RESPONDING
          then bindR (setCoherenceBits DirtyBit b2) (\<lambda>b3. checkR AssertFail (\<not> readOnly) (Inr b3))
          else Inr b2)
        else Inr b1))"

definition handleFill ::
  "('s, 'm) cache_env \<Rightarrow> data_packet \<Rightarrow> blk_ptr option \<Rightarrow> data_packet list \<Rightarrow> bool \<Rightarrow> ('s, 'm) classic_cache
   \<Rightarrow> (blk_ptr \<times> data_packet list \<times> ('s, 'm) classic_cache) res" where
  "handleFill ev p blk wbs allocate c =
     checkR AssertFail (cmd_isResponse (dp_cmd p))
       (bindR (pkt_getAddr (dp_pkt p)) (\<lambda>a. bindR (pkt_isSecure (dp_pkt p)) (\<lambda>s.
        bindR (pkt_getBlockAddr (ca_blkSize c) (dp_pkt p)) (\<lambda>ba. checkR AssertFail (a = ba)
        (bindR (wq_findMatch a s True (bc_wq (ca_base c))) (\<lambda>w. checkR AssertFail (w = None)
        (bindR (fill_target ev p blk wbs allocate c) (\<lambda>(r, wbs1, c1).
         bindR (blk_at r c1) (\<lambda>b. bindR (ca_regenerateBlkAddr r c1) (\<lambda>ra.
         checkR AssertFail (te_valid b \<and> te_secure b = s \<and> ra = a)
        (bindR (on_blk (fill_state p (ca_isReadOnly c1)) r c1) (\<lambda>c2.
         bindR (if cmd_isRead (dp_cmd p)
                then checkR AssertFail (cmd_hasData (dp_cmd p)) (bindR (pkt_getSize (dp_pkt p)) (\<lambda>sz.
                  checkR AssertFail (sz = ca_blkSize c2) (updateBlockData r p c2)))
                else Inr c2) (\<lambda>c3.
         bindR (on_blk (setWhenReady (ev_ready ev)) r c3) (\<lambda>c4. Inr (r, wbs1, c4)))))))))))))))"

section \<open>Accesses from above\<close>

text \<open>
  The result of an access: whether it was satisfied, the block, the packet, the write-backs and the
  cache.
\<close>

type_synonym ('s, 'm) access_result = "bool \<times> blk_ptr option \<times> data_packet \<times> data_packet list \<times> ('s, 'm) classic_cache"

text \<open>
  An eviction from above meets a write-back of this cache that waits in the write buffer.  The result
  says whether the eviction ends here.
\<close>

definition meet_writeback ::
  "('s, 'm) cache_env \<Rightarrow> data_packet \<Rightarrow> ('s, 'm) classic_cache \<Rightarrow> (bool \<times> ('s, 'm) classic_cache) res" where
  "meet_writeback ev p c =
     (let bc = ca_base c in
      bindR (pkt_getAddr (dp_pkt p)) (\<lambda>a. bindR (pkt_isSecure (dp_pkt p)) (\<lambda>s.
      bindR (wq_findMatch a s True (bc_wq bc)) (\<lambda>e. case e of None \<Rightarrow> Inr (False, c)
      | Some e \<Rightarrow> bindR (we_at (bc_writes bc) e) (\<lambda>x. checkR AssertFail (length (we_targets x) = 1)
          (let wp = wt_pkt (hd (we_targets x)) in
           bindR (pkt_at (bc_heap bc) wp) (\<lambda>wb. checkR AssertFail (cmd_isWriteback (pkt_cmd wb))
             (if isCleanEviction (dp_pkt p)
              then Inr (True, c\<lparr>ca_base := bc\<lparr>bc_heap := put_pkt wp (clearBlockCached wb) (bc_heap bc)\<rparr>\<rparr>)
              else checkR AssertFail (dp_cmd p = WritebackDirty)
                (bindR (markInService_write (ev_now ev) (ev_cycle ev) e bc) (\<lambda>bc1.
                 Inr (False, c\<lparr>ca_base := del_pkt wp bc1\<rparr>)))))))))))"

text \<open>The block a write-back or a \<open>WriteClean\<close> goes to; \<open>None\<close> if there is none.\<close>

definition writeback_target ::
  "('s, 'm) cache_env \<Rightarrow> data_packet \<Rightarrow> blk_ptr option \<Rightarrow> ('s, 'm) classic_cache
   \<Rightarrow> (blk_ptr option \<times> data_packet list \<times> ('s, 'm) classic_cache) res" where
  "writeback_target ev p blk c =
     (case blk of Some r \<Rightarrow> Inr (Some r, [], c)
      | None \<Rightarrow> bindR (allocateBlock ev p [] c) (\<lambda>(v, wbs, c1).
          case v of None \<Rightarrow> Inr (None, wbs, c1)
          | Some r \<Rightarrow> bindR (on_blk (setCoherenceBits ReadableBit) r c1) (\<lambda>c2. Inr (Some r, wbs, c2))))"

definition access_writeback ::
  "('s, 'm) cache_env \<Rightarrow> data_packet \<Rightarrow> blk_ptr option \<Rightarrow> ('s, 'm) classic_cache \<Rightarrow> ('s, 'm) access_result res" where
  "access_writeback ev p blk c =
     bindR (pkt_getSize (dp_pkt p)) (\<lambda>sz. checkR AssertFail (ca_blkSize c = sz)
       (bindR (pkt_getAddr (dp_pkt p)) (\<lambda>a. bindR (pkt_isSecure (dp_pkt p)) (\<lambda>s.
        bindR (if dp_cmd p = WritebackClean then mq_findMatch a s True (bc_mq (ca_base c)) else Inr None) (\<lambda>m.
        if m \<noteq> None then Inr (True, blk, p, [], c)
        else bindR (writeback_target ev p blk c) (\<lambda>(t, wbs, c1).
          case t of None \<Rightarrow> Inr (False, None, p, wbs, c1)
          | Some r \<Rightarrow>
              bindR (if dp_cmd p = WritebackDirty then on_blk (setCoherenceBits DirtyBit) r c1 else Inr c1) (\<lambda>c2.
              bindR (if \<not> dp_isSet p HAS_SHARERS then on_blk (setCoherenceBits WritableBit) r c2 else Inr c2) (\<lambda>c3.
              checkR AssertFail (\<not> cmd_needsResponse (dp_cmd p)) (bindR (updateBlockData r p c3) (\<lambda>c4.
              bindR (on_blk (setWhenReady (ev_ready ev)) r c4) (\<lambda>c5. Inr (True, Some r, p, wbs, c5)))))))))))) "

definition access_writeclean ::
  "('s, 'm) cache_env \<Rightarrow> data_packet \<Rightarrow> blk_ptr option \<Rightarrow> ('s, 'm) classic_cache \<Rightarrow> ('s, 'm) access_result res" where
  "access_writeclean ev p blk c =
     bindR (pkt_getSize (dp_pkt p)) (\<lambda>sz. checkR AssertFail (ca_blkSize c = sz)
       (if blk = None \<and> dp_isSet p WRITE_THROUGH then Inr (False, None, p, [], c)
        else bindR (writeback_target ev p blk c) (\<lambda>(t, wbs, c1).
          case t of None \<Rightarrow> Inr (False, None, p, wbs, c1)
          | Some r \<Rightarrow>
              bindR (if \<not> dp_isSet p WRITE_THROUGH then on_blk (setCoherenceBits DirtyBit) r c1 else Inr c1) (\<lambda>c2.
              checkR AssertFail (\<not> cmd_needsResponse (dp_cmd p)) (bindR (updateBlockData r p c2) (\<lambda>c3.
              bindR (on_blk (setWhenReady (ev_ready ev)) r c3) (\<lambda>c4.
              Inr (\<not> dp_isSet p WRITE_THROUGH, Some r, p, wbs, c4))))))))"

text \<open>Whether a block has the permission the packet needs.\<close>

definition permits :: "data_packet \<Rightarrow> blk_ptr option \<Rightarrow> ('s, 'm) classic_cache \<Rightarrow> bool res" where
  "permits p blk c = (case blk of None \<Rightarrow> Inr False
     | Some r \<Rightarrow> bindR (pkt_needsWritable (dp_pkt p)) (\<lambda>nw. blk_isSet (if nw then WritableBit else ReadableBit) r c))"

definition access_hit_or_miss ::
  "('s, 'm) cache_env \<Rightarrow> data_packet \<Rightarrow> blk_ptr option \<Rightarrow> ('s, 'm) classic_cache \<Rightarrow> ('s, 'm) access_result res" where
  "access_hit_or_miss ev p blk c =
     bindR (permits p blk c) (\<lambda>ok.
     case blk of
       Some r \<Rightarrow> if ok then bindR (satisfyRequest ev p r False False c) (\<lambda>(p1, c1).
           bindR (maintainClusivity ev (cmd_fromCache (dp_cmd p1)) blk c1) (\<lambda>c2. Inr (True, blk, p1, [], c2)))
         else Inr (False, blk, p, [], c)
     | None \<Rightarrow> if cmd_isLLSC (dp_cmd p) \<and> cmd_isWrite (dp_cmd p) then Inr (True, None, setExtraData 0 p, [], c)
         else Inr (False, None, p, [], c))"

definition base_access ::
  "('s, 'm) cache_env \<Rightarrow> data_packet \<Rightarrow> ('s, 'm) classic_cache \<Rightarrow> ('s, 'm) access_result res" where
  "base_access ev p c =
     checkR AssertFail (cmd_isRequest (dp_cmd p)) (checkR AssertFail (\<not> (ca_isReadOnly c \<and> cmd_isWrite (dp_cmd p)))
       (bindR (tag_packet_of p) (\<lambda>tp.
        bindR (accessBlock (ev_policy ev) (ev_now ev) tp (ca_tags c)) (\<lambda>(b, ts).
        let blk = map_option TagBlk b; c1 = c\<lparr>ca_tags := ts\<rparr> in
        if rq_isCacheMaintenance (dp_req p) then Inr (False, blk, p, [], c1)
        else bindR (if cmd_isEviction (dp_cmd p) then meet_writeback ev p c1 else Inr (False, c1)) (\<lambda>(done, c2).
          if done then Inr (True, blk, p, [], c2)
          else if cmd_isWriteback (dp_cmd p) then access_writeback ev p blk c2
          else if dp_cmd p = CleanEvict then Inr (blk \<noteq> None, blk, p, [], c2)
          else if dp_cmd p = WriteClean then access_writeclean ev p blk c2
          else access_hit_or_miss ev p blk c2)))))"

definition access ::
  "('s, 'm) cache_env \<Rightarrow> data_packet \<Rightarrow> ('s, 'm) classic_cache \<Rightarrow> ('s, 'm) access_result res" where
  "access ev p c =
     (if rq_isUncacheable (dp_req p)
      then checkR AssertFail (cmd_isRequest (dp_cmd p)) (checkR AssertFail (\<not> (ca_isReadOnly c \<and> cmd_isWrite (dp_cmd p)))
        (bindR (tag_packet_of p) (\<lambda>tp. bindR (findBlock (ca_tags c) (tp_key tp)) (\<lambda>old.
         bindR (blk_valid (map_option TagBlk old) c) (\<lambda>v.
         case old of Some i \<Rightarrow> if v then bindR (evictBlock ev (TagBlk i) c) (\<lambda>(wb, c1). Inr (False, None, p, [wb], c1))
             else Inr (False, None, p, [], c)
         | None \<Rightarrow> Inr (False, None, p, [], c))))))
      else base_access ev p c)"

section \<open>Misses\<close>

definition promoteWholeLineWrites :: "data_packet \<Rightarrow> ('s, 'm) classic_cache \<Rightarrow> data_packet res" where
  "promoteWholeLineWrites p c =
     (if ca_doFastWrites c \<and> dp_cmd p = WriteReq
      then bindR (pkt_getSize (dp_pkt p)) (\<lambda>s. bindR (pkt_getOffset (ca_blkSize c) (dp_pkt p)) (\<lambda>off.
        Inr (if s = ca_blkSize c \<and> off = 0 \<and> \<not> pkt_isMaskedWrite (dp_pkt p)
             then flag_pkt (\<lambda>q. q\<lparr>pkt_cmd := WriteLineReq\<rparr>) p else p)))
      else Inr p)"

text \<open>The command of a miss; \<open>b\<close> is the block if there is a valid one.\<close>

definition miss_command :: "data_packet \<Rightarrow> cache_blk option \<Rightarrow> bool \<Rightarrow> bool \<Rightarrow> ('s, 'm) classic_cache \<Rightarrow> command res" where
  "miss_command p b needsWritable whole_line c =
     (if whole_line
      then checkR AssertFail (case b of None \<Rightarrow> True | Some b \<Rightarrow> \<not> isSet WritableBit b) (Inr InvalidateReq)
      else case b of
        Some b \<Rightarrow> checkR AssertFail needsWritable (checkR AssertFail (\<not> isSet WritableBit b)
          (Inr (if cmd_isLLSC (dp_cmd p) then SCUpgradeReq else UpgradeReq)))
      | None \<Rightarrow> if dp_cmd p = SCUpgradeFailReq \<or> dp_cmd p = StoreCondFailReq then Inr SCUpgradeFailReq
          else Inr (if needsWritable then ReadExReq
            else if ca_isReadOnly c \<or> \<not> bc_mostlyIncl (ca_base c) then ReadCleanReq else ReadSharedReq))"

text \<open>The packet of a miss, which shares the request of \<open>p\<close>; \<open>None\<close> if \<open>p\<close> itself goes on.\<close>

definition createMissPacket ::
  "('s, 'm) cache_env \<Rightarrow> data_packet \<Rightarrow> blk_ptr option \<Rightarrow> bool \<Rightarrow> bool \<Rightarrow> ('s, 'm) classic_cache \<Rightarrow> data_packet option res" where
  "createMissPacket ev p blk needsWritable whole_line c =
     checkR AssertFail (\<not> cmd_isEviction (dp_cmd p)) (bindR (blk_valid blk c) (\<lambda>v.
     if rq_isUncacheable (dp_req p) \<or> \<not> v \<and> cmd_isUpgrade (dp_cmd p) \<or> dp_cmd p = InvalidateReq \<or> cmd_isClean (dp_cmd p)
     then Inr None
     else checkR AssertFail (cmd_needsResponse (dp_cmd p)) (checkR AssertFail (dp_cmd p \<noteq> WriteLineReq \<or> whole_line)
       (bindR (case blk of Some r \<Rightarrow> if v then bindR (blk_at r c) (\<lambda>b. Inr (Some b)) else Inr None | None \<Rightarrow> Inr None) (\<lambda>b.
        bindR (miss_command p b needsWritable whole_line c) (\<lambda>cmd.
        let q = newPacketBlk (ev_id ev) (dp_req p) cmd (sint (ca_blkSize c)) 0;
            q1 = (if dp_isSet p HAS_SHARERS \<and> \<not> needsWritable then setHasSharers q else q)
        in bindR (pkt_getAddr q1) (\<lambda>a. bindR (pkt_getBlockAddr (ca_blkSize c) q1) (\<lambda>ba. checkR AssertFail (a = ba)
           (bindR (dp_allocate (ev_junk ev) (p\<lparr>dp_pkt := q1, dp_data := []\<rparr>)) (\<lambda>m. Inr (Some m)))))))))))"

definition isCachedAbove :: "'e cache_ports \<Rightarrow> bool \<Rightarrow> data_packet \<Rightarrow> 'e \<Rightarrow> (bool \<times> data_packet \<times> 'e) res" where
  "isCachedAbove ports forwardSnoops p e =
     (if \<not> forwardSnoops then Inr (False, p, e)
      else bindR (sendAtomicSnoop ports p e) (\<lambda>(p1, e1). Inr (dp_isSet p1 BLOCK_CACHED, p1, e1)))"

fun doWritebacksAtomic :: "'e cache_ports \<Rightarrow> bool \<Rightarrow> data_packet list \<Rightarrow> 'e \<Rightarrow> 'e res" where
  "doWritebacksAtomic ports fwd [] e = Inr e"
| "doWritebacksAtomic ports fwd (p # ps) e =
     bindR (isCachedAbove ports fwd p e) (\<lambda>(cached, p1, e1).
     bindR (if cached \<and> \<not> (dp_cmd p1 = WritebackDirty \<or> dp_cmd p1 = WriteClean) then Inr e1
            else bindR (sendAtomic ports p1 e1) (\<lambda>(_, e2). Inr e2)) (\<lambda>e2.
     doWritebacksAtomic ports fwd ps e2))"

text \<open>
  The response to a miss: \<open>bp\<close> is the packet that came back.  The result holds the packet, the block,
  the write-backs, the cache and whether the block is to be invalidated at the end.
\<close>

definition atomic_response ::
  "('s, 'm) cache_env \<Rightarrow> data_packet \<Rightarrow> data_packet \<Rightarrow> blk_ptr option \<Rightarrow> ('s, 'm) classic_cache
   \<Rightarrow> (data_packet \<times> blk_ptr option \<times> data_packet list \<times> ('s, 'm) classic_cache \<times> bool) res" where
  "atomic_response ev p bp blk c =
     (let is_invalidate = cmd_isInvalidate (dp_cmd bp) in
      if \<not> cmd_needsResponse (dp_cmd p) then Inr (p, blk, [], c, is_invalidate)
      else checkR AssertFail (cmd_isResponse (dp_cmd bp))
        (if cmd_isError (dp_cmd bp)
         then bindR (on_pkt makeResponse p) (\<lambda>p1. Inr (flag_pkt (\<lambda>q. q\<lparr>pkt_cmd := dp_cmd bp\<rparr>) p1, blk, [], c, is_invalidate))
         else bindR (pkt_isWholeLineWrite (ca_blkSize c) (dp_pkt p)) (\<lambda>whole.
           if whole then
             let alloc = allocOnFill (dp_cmd p) (ca_base c) \<and>
                   (case bc_writeAllocator (ca_base c) of None \<Rightarrow> True | Some wa \<Rightarrow> wa_allocate wa)
             in bindR (handleFill ev bp blk [] alloc c) (\<lambda>(r, wbs, c1).
                bindR (satisfyRequest ev p r False False c1) (\<lambda>(p1, c2). Inr (p1, Some r, wbs, c2, False)))
           else if cmd_isRead (dp_cmd bp) \<or> dp_cmd bp = UpgradeResp then
             bindR (handleFill ev bp blk [] (allocOnFill (dp_cmd p) (ca_base c)) c) (\<lambda>(r, wbs, c1).
             bindR (satisfyRequest ev p r False False c1) (\<lambda>(p1, c2).
             bindR (maintainClusivity ev (cmd_fromCache (dp_cmd p1)) (Some r) c2) (\<lambda>c3.
             Inr (p1, Some r, wbs, c3, is_invalidate))))
           else bindR (on_pkt makeResponse p) (\<lambda>p1. Inr (p1, blk, [], c, is_invalidate)))))"

definition handleAtomicReqMiss ::
  "('s, 'm) cache_env \<Rightarrow> 'e cache_ports \<Rightarrow> data_packet \<Rightarrow> blk_ptr option \<Rightarrow> ('s, 'm) classic_cache \<Rightarrow> 'e
   \<Rightarrow> (data_packet \<times> blk_ptr option \<times> data_packet list \<times> ('s, 'm) classic_cache \<times> 'e) res" where
  "handleAtomicReqMiss ev ports p blk c e =
     (let uncacheable_write = rq_isUncacheable (dp_req p) \<and> cmd_isWrite (dp_cmd p) in
      if cmd_isEviction (dp_cmd p) \<or> dp_cmd p = WriteClean \<or> uncacheable_write
      then bindR (sendAtomic ports p e) (\<lambda>(p1, e1).
        checkR AssertFail (\<not> (rq_isUncacheable (dp_req p1) \<and> cmd_isWrite (dp_cmd p1)) \<or> cmd_isResponse (dp_cmd p1))
          (Inr (p1, blk, [], c, e1)))
      else bindR (pkt_needsWritable (dp_pkt p)) (\<lambda>nw. bindR (pkt_isWholeLineWrite (ca_blkSize c) (dp_pkt p)) (\<lambda>whole.
        bindR (createMissPacket ev p blk nw whole c) (\<lambda>m.
        bindR (sendAtomic ports (case m of None \<Rightarrow> p | Some q \<Rightarrow> q) e) (\<lambda>(bp, e1).
        bindR (case m of None \<Rightarrow> Inr (bp, blk, [], c, cmd_isInvalidate (dp_cmd bp))
               | Some _ \<Rightarrow> atomic_response ev p bp blk c) (\<lambda>(p1, blk1, wbs, c1, is_invalidate).
        bindR (blk_valid blk1 c1) (\<lambda>v.
        bindR (case blk1 of Some r \<Rightarrow> if is_invalidate \<and> v then invalidateBlock ev r c1 else Inr c1 | None \<Rightarrow> Inr c1) (\<lambda>c2.
        Inr (p1, blk1, wbs, c2, e1)))))))))"

section \<open>Atomic requests\<close>

definition writebackTempBlockAtomic ::
  "'e cache_ports \<Rightarrow> ('s, 'm) classic_cache \<Rightarrow> 'e \<Rightarrow> (('s, 'm) classic_cache \<times> 'e) res" where
  "writebackTempBlockAtomic ports c e =
     (case ca_tempWriteback c of None \<Rightarrow> Inl AssertFail
      | Some p \<Rightarrow> bindR (doWritebacksAtomic ports (ca_forwardSnoops c) [p] e) (\<lambda>e1. Inr (c\<lparr>ca_tempWriteback := None\<rparr>, e1)))"

text \<open>
  The temporary block is evicted at the end; its write-back waits for an event, or for the next use of
  the block.
\<close>

definition evict_temp ::
  "('s, 'm) cache_env \<Rightarrow> 'e cache_ports \<Rightarrow> ('s, 'm) classic_cache \<Rightarrow> 'e \<Rightarrow> (('s, 'm) classic_cache \<times> 'e) res" where
  "evict_temp ev ports c e =
     bindR (if ca_tempWriteback c \<noteq> None then writebackTempBlockAtomic ports c e
            else checkR AssertFail (\<not> ca_tempEvent c) (Inr (c\<lparr>ca_tempEvent := True\<rparr>, e))) (\<lambda>(c1, e1).
     bindR (evictBlock ev TempBlk c1) (\<lambda>(p, c2). Inr (c2\<lparr>ca_tempWriteback := Some p\<rparr>, e1)))"

text \<open>The event fires.\<close>

definition processTempEvent ::
  "'e cache_ports \<Rightarrow> ('s, 'm) classic_cache \<Rightarrow> 'e \<Rightarrow> (('s, 'm) classic_cache \<times> 'e) res" where
  "processTempEvent ports c e = writebackTempBlockAtomic ports (c\<lparr>ca_tempEvent := False\<rparr>) e"

text \<open>A cache clean operation that found a dirty block writes it back first.\<close>

definition clean_hit ::
  "('s, 'm) cache_env \<Rightarrow> data_packet \<Rightarrow> blk_ptr option \<Rightarrow> ('s, 'm) classic_cache
   \<Rightarrow> (data_packet \<times> data_packet list \<times> ('s, 'm) classic_cache) res" where
  "clean_hit ev p blk c =
     (case blk of None \<Rightarrow> Inr (p, [], c)
      | Some r \<Rightarrow> bindR (blk_isSet DirtyBit r c) (\<lambda>dirty.
          if cmd_isClean (dp_cmd p) \<and> dirty
          then bindR (writecleanBlk ev r (rq_getDest (dp_req p)) (pkt_id (dp_pkt p)) c) (\<lambda>(wb, c1).
            bindR (on_pkt setSatisfied p) (\<lambda>p1. Inr (p1, [wb], c1)))
          else Inr (p, [], c)))"

definition base_recvAtomic ::
  "('s, 'm) cache_env \<Rightarrow> 'e cache_ports \<Rightarrow> data_packet \<Rightarrow> ('s, 'm) classic_cache \<Rightarrow> 'e
   \<Rightarrow> (data_packet \<times> ('s, 'm) classic_cache \<times> 'e) res" where
  "base_recvAtomic ev ports p c e =
     bindR (access ev p c) (\<lambda>(satisfied, blk, p1, wbs, c1).
     bindR (clean_hit ev p1 blk c1) (\<lambda>(p2, wbs', c2).
     bindR (doWritebacksAtomic ports (ca_forwardSnoops c2) (wbs @ wbs') e) (\<lambda>e1.
     bindR (if satisfied then Inr (p2, blk, [], c2, e1) else handleAtomicReqMiss ev ports p2 blk c2 e1)
       (\<lambda>(p3, blk1, wbs1, c3, e2).
     bindR (doWritebacksAtomic ports (ca_forwardSnoops c3) wbs1 e2) (\<lambda>e3.
     bindR (if blk1 = Some TempBlk \<and> te_valid (ca_temp c3) then evict_temp ev ports c3 e3 else Inr (c3, e3)) (\<lambda>(c4, e4).
     bindR (if cmd_needsResponse (dp_cmd p3) then on_pkt makeResponse p3 else Inr p3) (\<lambda>p4. Inr (p4, c4, e4))))))))"

definition recvAtomic ::
  "('s, 'm) cache_env \<Rightarrow> 'e cache_ports \<Rightarrow> data_packet \<Rightarrow> ('s, 'm) classic_cache \<Rightarrow> 'e
   \<Rightarrow> (data_packet \<times> ('s, 'm) classic_cache \<times> 'e) res" where
  "recvAtomic ev ports p c e =
     bindR (promoteWholeLineWrites p c) (\<lambda>p1.
     if dp_isSet p1 CACHE_RESPONDING
     then checkR AssertFail (\<not> rq_isCacheInvalidate (dp_req p1)) (bindR (pkt_needsWritable (dp_pkt p1)) (\<lambda>nw.
       checkR AssertFail (nw \<and> \<not> dp_isSet p1 RESPONDER_HAD_WRITABLE)
         (bindR (sendAtomic ports p1 e) (\<lambda>(p2, e1). Inr (p2, c, e1)))))
     else base_recvAtomic ev ports p1 c e)"

section \<open>Snoops\<close>

text \<open>Snoops go up first; then a cache above may have responded.\<close>

definition snoop_above :: "'e cache_ports \<Rightarrow> bool \<Rightarrow> data_packet \<Rightarrow> 'e \<Rightarrow> (data_packet \<times> 'e) res" where
  "snoop_above ports fwd p e =
     (if fwd then bindR (sendAtomicSnoop ports p e) (\<lambda>(p1, e1).
        checkR AssertFail (\<not> (\<not> dp_isSet p CACHE_RESPONDING \<and> dp_isSet p1 CACHE_RESPONDING) \<or> cmd_isResponse (dp_cmd p1))
          (Inr (p1, e1)))
      else Inr (p, e))"

text \<open>A snooped cache clean operation writes a dirty block back.\<close>

definition snoop_clean ::
  "('s, 'm) cache_env \<Rightarrow> 'e cache_ports \<Rightarrow> data_packet \<Rightarrow> blk_ptr option \<Rightarrow> ('s, 'm) classic_cache \<Rightarrow> 'e
   \<Rightarrow> (data_packet \<times> ('s, 'm) classic_cache \<times> 'e) res" where
  "snoop_clean ev ports p blk c e =
     bindR (clean_hit ev p blk c) (\<lambda>(p1, wbs, c1).
     bindR (doWritebacksAtomic ports (ca_forwardSnoops c1) wbs e) (\<lambda>e1. Inr (p1, c1, e1)))"

text \<open>The response of the cache that owns the block.\<close>

definition snoop_respond :: "data_packet \<Rightarrow> bool \<Rightarrow> blk_ptr \<Rightarrow> ('s, 'm) classic_cache \<Rightarrow> data_packet res" where
  "snoop_respond p invalidate r c =
     bindR (on_pkt setCacheResponding p) (\<lambda>p1. bindR (blk_isSet WritableBit r c) (\<lambda>w.
     bindR (if \<not> cmd_isClean (dp_cmd p1) \<and> w then on_pkt setResponderHadWritable p1 else Inr p1) (\<lambda>p2.
     checkR Panic (invalidate \<or> dp_isSet p2 HAS_SHARERS) (bindR (on_pkt makeResponse p2) (\<lambda>p3.
     if cmd_hasData (dp_cmd p3) then bindR (data_at r c) (\<lambda>d. setDataFromBlock d (ca_blkSize c) p3) else Inr p3)))))"

text \<open>The rest of the snoop once it is known whether this cache responds; \<open>v\<close> says whether \<open>blk\<close> is valid.\<close>

definition snoop_finish ::
  "('s, 'm) cache_env \<Rightarrow> data_packet \<Rightarrow> bool \<Rightarrow> bool \<Rightarrow> bool \<Rightarrow> blk_ptr option \<Rightarrow> bool \<Rightarrow> ('s, 'm) classic_cache
   \<Rightarrow> (data_packet \<times> ('s, 'm) classic_cache) res" where
  "snoop_finish ev p invalidate needs_writable respond blk v c =
     (if mustCheckAbove (dp_pkt p) then Inr (flag_pkt setBlockCached p, c)
      else bindR (if cmd_isRead (dp_cmd p) \<and> \<not> invalidate
                  then checkR AssertFail (\<not> needs_writable) (case blk of None \<Rightarrow> Inl NullDeref
                    | Some r \<Rightarrow> if rq_isUncacheable (dp_req p) then Inr (flag_pkt setHasSharers p, c)
                      else bindR (on_blk (\<lambda>b. Inr (clearCoherenceBits WritableBit b)) r c) (\<lambda>c1. Inr (flag_pkt setHasSharers p, c1)))
                  else Inr (p, c)) (\<lambda>(p1, c1).
        bindR (case blk of Some r \<Rightarrow> if respond then snoop_respond p1 invalidate r c1 else Inr p1
               | None \<Rightarrow> Inr p1) (\<lambda>p2.
        bindR (case blk of Some r \<Rightarrow> if v \<and> invalidate then invalidateBlock ev r c1 else Inr c1
               | None \<Rightarrow> Inr c1) (\<lambda>c2. Inr (p2, c2)))))"

text \<open>\<open>handleSnoop\<close> as \<open>recvAtomicSnoop\<close> calls it: neither timing nor deferred.\<close>

definition ca_handleSnoop ::
  "('s, 'm) cache_env \<Rightarrow> 'e cache_ports \<Rightarrow> data_packet \<Rightarrow> blk_ptr option \<Rightarrow> ('s, 'm) classic_cache \<Rightarrow> 'e
   \<Rightarrow> (data_packet \<times> ('s, 'm) classic_cache \<times> 'e) res" where
  "ca_handleSnoop ev ports p blk c e =
     checkR AssertFail (cmd_isRequest (dp_cmd p)) (bindR (pkt_needsWritable (dp_pkt p)) (\<lambda>nw.
     let invalidate = cmd_isInvalidate (dp_cmd p) in
     checkR Panic (\<not> (invalidate \<and> rq_isUncacheable (dp_req p)))
       (bindR (snoop_above ports (ca_forwardSnoops c) p e) (\<lambda>(p1, e1). bindR (blk_valid blk c) (\<lambda>v.
        if cmd_isClean (dp_cmd p1)
        then bindR (if v then snoop_clean ev ports p1 blk c e1 else Inr (p1, c, e1)) (\<lambda>(p2, c1, e2).
          bindR (snoop_finish ev p2 invalidate nw False blk v c1) (\<lambda>(p3, c2). Inr (p3, c2, e2)))
        else if \<not> v then Inr (p1, c, e1)
        else bindR (case blk of None \<Rightarrow> Inl NullDeref | Some r \<Rightarrow> blk_isSet DirtyBit r c) (\<lambda>dirty.
          checkR AssertFail (\<not> (ca_isReadOnly c \<and> dirty))
            (bindR (snoop_finish ev p1 invalidate nw (dirty \<and> cmd_needsResponse (dp_cmd p1)) blk v c) (\<lambda>(p3, c2).
             Inr (p3, c2, e1)))))))))"

definition recvAtomicSnoop ::
  "('s, 'm) cache_env \<Rightarrow> 'e cache_ports \<Rightarrow> data_packet \<Rightarrow> ('s, 'm) classic_cache \<Rightarrow> 'e
   \<Rightarrow> (data_packet \<times> ('s, 'm) classic_cache \<times> 'e) res" where
  "recvAtomicSnoop ev ports p c e =
     bindR (pkt_getAddr (dp_pkt p)) (\<lambda>a.
     if \<not> inRange a c then Inr (p, c, e)
     else bindR (tag_packet_of p) (\<lambda>tp. bindR (findBlock (ca_tags c) (tp_key tp)) (\<lambda>b.
       ca_handleSnoop ev ports p (map_option TagBlk b) c e)))"

end
