(* ===== verification/Snoop_Filter.thy ===== *)
theory Snoop_Filter
  imports Packet_Data
begin

unbundle bit_operations_syntax

text \<open>
  The snoop filter of a coherent crossbar (\<open>mem/snoop_filter.cc\<close>, \<open>mem/snoop_filter.hh\<close>): for each line
  the ports that hold a copy and those with a request in flight.  Ports are numbers; \<open>snooping\<close> tells
  which of them have a cache behind.  Masks are words of 256 bits, as the bit sets of the code.  The
  iterator that a lookup leaves behind is the address it leads to, \<open>None\<close> for the end of the map.
\<close>

type_synonym snoop_mask = "256 word"

record snoop_item =
  si_requested :: snoop_mask
  si_holder :: snoop_mask

record snoop_filter =
  sf_cachedLocations :: "addr \<rightharpoonup> snoop_item"
  sf_it :: "addr option"
  sf_retryItem :: snoop_item
  sf_cpuSidePorts :: "nat list"
  sf_localPortIds :: "int list"
  sf_linesize :: uint32
  sf_maxEntryCount :: nat

definition no_item :: snoop_item where
  "no_item = \<lparr>si_requested = 0, si_holder = 0\<rparr>"

definition newSnoopFilter :: "uint32 \<Rightarrow> nat \<Rightarrow> snoop_filter" where
  "newSnoopFilter linesize maxEntryCount = \<lparr>sf_cachedLocations = Map.empty, sf_it = None, sf_retryItem = no_item,
     sf_cpuSidePorts = [], sf_localPortIds = [], sf_linesize = linesize, sf_maxEntryCount = maxEntryCount\<rparr>"

text \<open>\<open>setCPUSidePorts\<close> numbers the snooping ports; the ports of the crossbar are \<open>0..<n\<close>.\<close>

definition setCPUSidePorts :: "(nat \<Rightarrow> bool) \<Rightarrow> nat \<Rightarrow> snoop_filter \<Rightarrow> snoop_filter res" where
  "setCPUSidePorts snooping n sf =
     (let ps = filter snooping [0..<n] in
      checkR Fatal (length ps \<le> 256)
        (Inr (sf\<lparr>sf_cpuSidePorts := sf_cpuSidePorts sf @ ps,
                 sf_localPortIds := map (\<lambda>p. if snooping p then int (length (filter snooping [0..<p])) else - 1) [0..<n]\<rparr>)))"

definition portToMask :: "(nat \<Rightarrow> bool) \<Rightarrow> nat \<Rightarrow> snoop_filter \<Rightarrow> snoop_mask res" where
  "portToMask snooping p sf =
     (if \<not> snooping p then Inr 0
      else bindR (vec_at (sf_localPortIds sf) p) (\<lambda>k. Inr (if k < 0 then 0 else push_bit (nat k) 1)))"

fun mask_ports :: "(nat \<Rightarrow> bool) \<Rightarrow> snoop_mask \<Rightarrow> nat list \<Rightarrow> snoop_filter \<Rightarrow> nat list res" where
  "mask_ports snooping m [] sf = Inr []"
| "mask_ports snooping m (p # ps) sf =
     bindR (portToMask snooping p sf) (\<lambda>k. bindR (mask_ports snooping m ps sf) (\<lambda>r.
     Inr (if m AND k \<noteq> 0 then p # r else r)))"

definition maskToPortList :: "(nat \<Rightarrow> bool) \<Rightarrow> snoop_mask \<Rightarrow> snoop_filter \<Rightarrow> nat list res" where
  "maskToPortList snooping m sf = mask_ports snooping m (sf_cpuSidePorts sf) sf"

text \<open>The key of a line: the address of the block with the secure bit in its lowest bit.\<close>

definition line_key :: "uint32 \<Rightarrow> packet \<Rightarrow> addr res" where
  "line_key linesize p = bindR (pkt_getBlockAddr linesize p) (\<lambda>a. bindR (pkt_isSecure p) (\<lambda>s.
     Inr (if s then a OR 1 else a)))"

definition put_item :: "addr \<Rightarrow> snoop_item \<Rightarrow> snoop_filter \<Rightarrow> snoop_filter" where
  "put_item a x sf = sf\<lparr>sf_cachedLocations := (sf_cachedLocations sf)(a \<mapsto> x)\<rparr>"

definition item_at :: "addr \<Rightarrow> snoop_filter \<Rightarrow> snoop_item res" where
  "item_at a sf = (case sf_cachedLocations sf a of None \<Rightarrow> Inl UseAfterFree | Some x \<Rightarrow> Inr x)"

definition eraseIfNullEntry :: "addr \<Rightarrow> snoop_filter \<Rightarrow> snoop_filter res" where
  "eraseIfNullEntry a sf = bindR (item_at a sf) (\<lambda>x.
     Inr (if si_requested x OR si_holder x = 0 then sf\<lparr>sf_cachedLocations := (sf_cachedLocations sf)(a := None)\<rparr> else sf))"

section \<open>Requests from above\<close>

text \<open>How a request changes the item of its line.\<close>

definition track_request :: "packet \<Rightarrow> snoop_mask \<Rightarrow> snoop_item \<Rightarrow> snoop_item res" where
  "track_request p req x =
     (if cmd_needsResponse (pkt_cmd p)
      then if \<not> pkt_isSet p CACHE_RESPONDING
           then checkR Panic (si_requested x AND req = 0) (Inr (x\<lparr>si_requested := si_requested x OR req\<rparr>))
           else checkR Panic (si_holder x AND req \<noteq> 0) (Inr x)
      else checkR AssertFail (cmd_isEviction (pkt_cmd p)) (checkR Panic (si_holder x AND req \<noteq> 0)
        (Inr (if \<not> pkt_isSet p BLOCK_CACHED then x\<lparr>si_holder := si_holder x AND NOT req\<rparr> else x))))"

definition lookupRequest :: "(nat \<Rightarrow> bool) \<Rightarrow> packet \<Rightarrow> nat \<Rightarrow> snoop_filter \<Rightarrow> (nat list \<times> snoop_filter) res" where
  "lookupRequest snooping p port sf =
     (let allocate = (\<not> rq_isUncacheable (pkt_req p) \<and> snooping port \<and> cmd_fromCache (pkt_cmd p)) in
      bindR (line_key (sf_linesize sf) p) (\<lambda>a. bindR (portToMask snooping port sf) (\<lambda>req.
      case (sf_cachedLocations sf a, allocate) of
        (None, False) \<Rightarrow> Inr ([], sf\<lparr>sf_it := None\<rparr>)
      | (item, _) \<Rightarrow>
          (let x = (case item of None \<Rightarrow> no_item | Some x \<Rightarrow> x);
               interested = si_holder x OR si_requested x;
               sf1 = (put_item a x sf)\<lparr>sf_it := Some a, sf_retryItem := x\<rparr>
           in bindR (if allocate then bindR (track_request p req x) (\<lambda>y. Inr (put_item a y sf1)) else Inr sf1) (\<lambda>sf2.
              bindR (maskToPortList snooping (interested AND NOT req) sf2) (\<lambda>ps. Inr (ps, sf2)))))))"

definition finishRequest :: "bool \<Rightarrow> addr \<Rightarrow> bool \<Rightarrow> snoop_filter \<Rightarrow> snoop_filter res" where
  "finishRequest will_retry a is_secure sf =
     (case sf_it sf of None \<Rightarrow> Inr sf
      | Some k \<Rightarrow> bindR (item_at k sf) (\<lambda>_.
          let line = a AND NOT (ucast (sf_linesize sf) - 1) in
          checkR AssertFail (k = (if is_secure then line OR 1 else line))
            (eraseIfNullEntry k (if will_retry then put_item k (sf_retryItem sf) sf else sf))))"

section \<open>Snoops and responses\<close>

definition lookupSnoop :: "(nat \<Rightarrow> bool) \<Rightarrow> packet \<Rightarrow> snoop_filter \<Rightarrow> (nat list \<times> snoop_filter) res" where
  "lookupSnoop snooping p sf =
     checkR AssertFail (cmd_isRequest (pkt_cmd p)) (bindR (line_key (sf_linesize sf) p) (\<lambda>a.
     case sf_cachedLocations sf a of
       None \<Rightarrow> checkR Panic (card (dom (sf_cachedLocations sf)) < sf_maxEntryCount sf) (Inr ([], sf))
     | Some x \<Rightarrow> bindR (pkt_needsWritable p) (\<lambda>nw.
         checkR AssertFail (cmd_isWriteback (pkt_cmd p) \<or> rq_isUncacheable (pkt_req p) \<or>
             cmd_isInvalidate (pkt_cmd p) = nw \<or> rq_isCacheMaintenance (pkt_req p))
           (bindR (if cmd_isInvalidate (pkt_cmd p) \<and> si_requested x = 0
                   then eraseIfNullEntry a (put_item a (x\<lparr>si_holder := 0\<rparr>) sf) else Inr sf) (\<lambda>sf1.
            bindR (maskToPortList snooping (si_holder x OR si_requested x) sf1) (\<lambda>ps. Inr (ps, sf1)))))))"

definition updateSnoopResponse :: "(nat \<Rightarrow> bool) \<Rightarrow> packet \<Rightarrow> nat \<Rightarrow> nat \<Rightarrow> snoop_filter \<Rightarrow> snoop_filter res" where
  "updateSnoopResponse snooping p rsp_port req_port sf =
     checkR AssertFail (cmd_isResponse (pkt_cmd p)) (checkR AssertFail (pkt_isSet p CACHE_RESPONDING)
       (if rq_isUncacheable (pkt_req p) \<or> \<not> snooping req_port then Inr sf
        else bindR (line_key (sf_linesize sf) p) (\<lambda>a. bindR (portToMask snooping rsp_port sf) (\<lambda>rsp.
          bindR (portToMask snooping req_port sf) (\<lambda>req.
          let x = (case sf_cachedLocations sf a of None \<Rightarrow> no_item | Some x \<Rightarrow> x) in
          checkR Panic (si_holder x AND rsp \<noteq> 0) (checkR Panic (si_requested x AND req \<noteq> 0)
            (checkR AssertFail (\<not> cmd_isWriteback (pkt_cmd p))
              (let h = (if \<not> pkt_isSet p HAS_SHARERS then 0 else si_holder x);
                   y = \<lparr>si_requested = si_requested x AND NOT req, si_holder = h OR req\<rparr>
               in checkR AssertFail (si_requested y OR si_holder y \<noteq> 0) (Inr (put_item a y sf)))))))))) "

definition updateSnoopForward :: "packet \<Rightarrow> snoop_filter \<Rightarrow> snoop_filter res" where
  "updateSnoopForward p sf =
     checkR AssertFail (cmd_isResponse (pkt_cmd p)) (checkR AssertFail (pkt_isSet p CACHE_RESPONDING)
       (bindR (line_key (sf_linesize sf) p) (\<lambda>a. case sf_cachedLocations sf a of None \<Rightarrow> Inr sf
        | Some x \<Rightarrow> if \<not> pkt_isSet p HAS_SHARERS then eraseIfNullEntry a (put_item a (x\<lparr>si_holder := 0\<rparr>) sf) else Inr sf)))"

definition updateResponse :: "(nat \<Rightarrow> bool) \<Rightarrow> packet \<Rightarrow> nat \<Rightarrow> snoop_filter \<Rightarrow> snoop_filter res" where
  "updateResponse snooping p port sf =
     checkR AssertFail (cmd_isResponse (pkt_cmd p))
       (if rq_isUncacheable (pkt_req p) \<or> \<not> snooping port then Inr sf
        else bindR (line_key (sf_linesize sf) p) (\<lambda>a. case sf_cachedLocations sf a of None \<Rightarrow> Inr sf
          | Some x \<Rightarrow> bindR (portToMask snooping port sf) (\<lambda>m. checkR Panic (si_requested x AND m \<noteq> 0)
              (let x1 = x\<lparr>si_requested := si_requested x AND NOT m\<rparr> in
               if rq_isCacheMaintenance (pkt_req p)
               then eraseIfNullEntry a (put_item a (if cmd_isInvalidate (pkt_cmd p)
                      then x1\<lparr>si_holder := si_holder x1 AND NOT m\<rparr> else x1) sf)
               else let x2 = x1\<lparr>si_holder := si_holder x1 OR m\<rparr> in
                 checkR AssertFail (si_holder x2 OR si_requested x2 \<noteq> 0) (Inr (put_item a x2 sf))))))"

end
