(* ===== verification/Abstract_Mem.thy ===== *)
theory Abstract_Mem
  imports Packet_Data
begin

unbundle bit_operations_syntax

text \<open>
  The memory below the caches: \<open>AbstractMemory::access\<close> with its list of locked addresses
  (\<open>mem/abstract_mem.cc\<close>, \<open>mem/abstract_mem.hh\<close>) behind the atomic port of \<open>SimpleMemory\<close>
  (\<open>mem/simple_mem.cc\<close>), and the address ranges of \<open>base/addr_range.hh\<close> it is given with, which are not
  interleaved.  Host memory is a function from the offset in the range; a null memory has none.
  Clearing the monitor of another hardware context is a call to the processor models.
\<close>

record addr_range =
  rg_start :: addr
  rg_end :: addr

definition RangeSize :: "addr \<Rightarrow> addr \<Rightarrow> addr_range" where
  "RangeSize start sz = \<lparr>rg_start = start, rg_end = start + sz\<rparr>"

definition isSubset :: "addr_range \<Rightarrow> addr_range \<Rightarrow> bool" where
  "isSubset q r =
     (if rg_end q \<le> rg_start q then rg_start q \<ge> rg_start r \<and> rg_end r = 0
      else if rg_end r \<le> rg_start r then rg_start q \<ge> rg_start r
      else rg_start q \<ge> rg_start r \<and> rg_end q \<le> rg_end r)"

definition getAddrRange :: "packet \<Rightarrow> addr_range res" where
  "getAddrRange p = bindR (pkt_getAddr p) (\<lambda>a. bindR (pkt_getSize p) (\<lambda>s. Inr (RangeSize a (ucast s))))"

record locked_addr =
  la_addr :: addr
  la_contextId :: int

record abstract_mem =
  am_range :: addr_range
  am_pmem :: "(addr \<Rightarrow> byte) option"
  am_writeable :: bool
  am_locked :: "locked_addr list"

definition locked_mask :: "addr \<Rightarrow> addr" where
  "locked_mask a = a AND NOT 0xf"

definition host_read :: "(addr \<Rightarrow> byte) \<Rightarrow> addr \<Rightarrow> nat \<Rightarrow> byte list" where
  "host_read pm a n = map (\<lambda>k. pm (a + of_nat k)) [0..<n]"

fun host_write :: "addr \<Rightarrow> byte list \<Rightarrow> (addr \<Rightarrow> byte) \<Rightarrow> addr \<Rightarrow> byte" where
  "host_write a [] pm = pm"
| "host_write a (b # bs) pm = host_write (a + 1) bs (pm(a := b))"

text \<open>The address and the context that a lock record is made of; \<open>- 1\<close> is \<open>InvalidContextID\<close>.\<close>

definition locker :: "data_packet \<Rightarrow> locked_addr res" where
  "locker p = (case (rq_paddr (dp_req p), dp_contextId p) of
     (Some a, Some c) \<Rightarrow> Inr \<lparr>la_addr = locked_mask a, la_contextId = c\<rparr> | _ \<Rightarrow> Inl AssertFail)"

text \<open>A context has at most one record, which moves with its last load-locked.\<close>

fun relock :: "locked_addr \<Rightarrow> locked_addr list \<Rightarrow> locked_addr list option" where
  "relock k [] = None"
| "relock k (l # ls) = (if la_contextId l = la_contextId k then Some (l\<lparr>la_addr := la_addr k\<rparr> # ls)
     else map_option ((#) l) (relock k ls))"

definition mem_trackLoadLocked :: "data_packet \<Rightarrow> abstract_mem \<Rightarrow> abstract_mem res" where
  "mem_trackLoadLocked p m = bindR (locker p) (\<lambda>k.
     Inr (m\<lparr>am_locked := (case relock k (am_locked m) of None \<Rightarrow> k # am_locked m | Some ls \<Rightarrow> ls)\<rparr>))"

definition checkLockedAddrList :: "data_packet \<Rightarrow> abstract_mem \<Rightarrow> (bool \<times> data_packet \<times> abstract_mem) res" where
  "checkLockedAddrList p m =
     (case rq_paddr (dp_req p) of None \<Rightarrow> Inl AssertFail
      | Some pa \<Rightarrow>
          (let a = locked_mask pa; llsc = cmd_isLLSC (dp_cmd p);
               here = filter (\<lambda>l. la_addr l = a) (am_locked m) in
           checkR AssertFail (list_all (\<lambda>l. la_contextId l \<noteq> - 1) here \<and> (llsc \<and> here \<noteq> [] \<longrightarrow> dp_contextId p \<noteq> None))
             (let allow = (\<not> llsc \<or> list_ex (\<lambda>l. Some (la_contextId l) = dp_contextId p) here);
                  p1 = (if llsc then setExtraData (if allow then 1 else 0) p else p)
              in Inr (allow, p1, if allow then m\<lparr>am_locked := filter (\<lambda>l. la_addr l \<noteq> a) (am_locked m)\<rparr> else m))))"

definition writeOK :: "data_packet \<Rightarrow> abstract_mem \<Rightarrow> (bool \<times> data_packet \<times> abstract_mem) res" where
  "writeOK p m =
     (if \<not> am_writeable m then Inr (False, p, m)
      else if am_locked m = [] then
        (let llsc = cmd_isLLSC (dp_cmd p) in Inr (\<not> llsc, if llsc then setExtraData 0 p else p, m))
      else checkLockedAddrList p m)"

text \<open>\<open>at_host f\<close> changes the bytes of the memory under the packet by \<open>f\<close>.\<close>

definition at_host ::
  "(data_packet \<Rightarrow> byte list \<Rightarrow> (data_packet \<times> byte list) res) \<Rightarrow> data_packet \<Rightarrow> abstract_mem
   \<Rightarrow> (data_packet \<times> abstract_mem) res" where
  "at_host f p m = (case am_pmem m of None \<Rightarrow> Inr (p, m)
     | Some pm \<Rightarrow> bindR (pkt_getAddr (dp_pkt p)) (\<lambda>a. bindR (pkt_getSize (dp_pkt p)) (\<lambda>s.
         let off = a - rg_start (am_range m) in
         bindR (f p (host_read pm off (unat s))) (\<lambda>(p1, bs). Inr (p1, m\<lparr>am_pmem := Some (host_write off bs pm)\<rparr>)))))"

definition mem_swap :: "data_packet \<Rightarrow> abstract_mem \<Rightarrow> (data_packet \<times> abstract_mem) res" where
  "mem_swap p m =
     (if rq_isAtomic (dp_req p) then at_host (\<lambda>p h. bindR (amo_bytes p h) (\<lambda>(p1, h1, _). Inr (p1, h1))) p m
      else checkR Panic (am_pmem m \<noteq> None)
        (bindR (at_host (\<lambda>p h. bindR (swap_bytes p h) (\<lambda>(p1, h1, _). Inr (p1, h1))) p m) (\<lambda>r.
         checkR AssertFail (\<not> rq_isInstFetch (dp_req p)) (Inr r))))"

definition mem_read :: "data_packet \<Rightarrow> abstract_mem \<Rightarrow> (data_packet \<times> abstract_mem) res" where
  "mem_read p m =
     checkR AssertFail (\<not> cmd_isWrite (dp_cmd p))
       (bindR (if cmd_isLLSC (dp_cmd p) then checkR AssertFail (\<not> cmd_fromCache (dp_cmd p)) (mem_trackLoadLocked p m)
               else Inr m) (\<lambda>m1.
        at_host (\<lambda>p h. bindR (setData h p) (\<lambda>p1. Inr (p1, h))) p m1))"

definition mem_write :: "data_packet \<Rightarrow> abstract_mem \<Rightarrow> (data_packet \<times> abstract_mem) res" where
  "mem_write p m =
     bindR (writeOK p m) (\<lambda>(ok, p1, m1).
     if ok then bindR (at_host (\<lambda>p h. bindR (writeData p h) (\<lambda>h1. Inr (p, h1))) p1 m1) (\<lambda>r.
       checkR AssertFail (\<not> rq_isInstFetch (dp_req p)) (Inr r))
     else Inr (p1, m1))"

definition mem_access :: "data_packet \<Rightarrow> abstract_mem \<Rightarrow> (data_packet \<times> abstract_mem) res" where
  "mem_access p m =
     (if dp_isSet p CACHE_RESPONDING then Inr (p, m)
      else if dp_cmd p = CleanEvict \<or> dp_cmd p = WritebackClean then Inr (p, m)
      else bindR (getAddrRange (dp_pkt p)) (\<lambda>r. checkR AssertFail (isSubset r (am_range m))
        (bindR (if dp_cmd p = SwapReq then mem_swap p m
                else if cmd_isRead (dp_cmd p) then mem_read p m
                else if cmd_isInvalidate (dp_cmd p) \<or> cmd_isClean (dp_cmd p)
                then checkR AssertFail (\<not> cmd_isWrite (dp_cmd p)) (Inr (p, m))
                else if cmd_isWrite (dp_cmd p) then mem_write p m
                else Inl Panic) (\<lambda>(p1, m1).
         bindR (if cmd_needsResponse (dp_cmd p1) then on_pkt makeResponse p1 else Inr p1) (\<lambda>p2. Inr (p2, m1))))))"

definition mem_recvAtomic :: "data_packet \<Rightarrow> abstract_mem \<Rightarrow> (data_packet \<times> abstract_mem) res" where
  "mem_recvAtomic p m = checkR Panic (\<not> dp_isSet p CACHE_RESPONDING) (mem_access p m)"

end
