(* ===== verification/Coherent_Xbar.thy ===== *)
theory Coherent_Xbar
  imports Classic_Cache Snoop_Filter Abstract_Mem
begin

text \<open>
  The coherent crossbar in atomic mode (\<open>mem/coherent_xbar.cc\<close>, \<open>mem/coherent_xbar.hh\<close>) with classic
  caches on its CPU side ports and one memory below.  A crossbar may have a snoop filter.  Port \<open>i\<close> leads
  to the cache \<open>i\<close> of the system.  A snooped cache can send a packet down again, so the handler calls
  itself; \<open>fuel\<close> bounds the depth of these calls.
\<close>

record coherent_xbar =
  xb_snoopFilter :: "snoop_filter option"
  xb_pointOfCoherency :: bool
  xb_pointOfUnification :: bool
  xb_bypassCaches :: bool
  xb_outstandingCMO :: "nat list"

record ('s, 'm) cache_system =
  sy_caches :: "('s, 'm) classic_cache list"
  sy_xbar :: coherent_xbar
  sy_mem :: abstract_mem

text \<open>
  The surroundings of the caches, and \<open>se_above\<close>, what the peer of a CPU side port does with a snoop:
  the code of the processor models.
\<close>

record ('s, 'm) system_env =
  se_env :: "nat \<Rightarrow> ('s, 'm) cache_env"
  se_above :: "nat \<Rightarrow> data_packet \<Rightarrow> ('s, 'm) cache_system \<Rightarrow> (data_packet \<times> ('s, 'm) cache_system) res"

text \<open>Every port of this crossbar has a cache behind.\<close>

definition is_port :: "('s, 'm) cache_system \<Rightarrow> nat \<Rightarrow> bool" where
  "is_port sys i \<longleftrightarrow> i < length (sy_caches sys)"

definition isDestination :: "packet \<Rightarrow> coherent_xbar \<Rightarrow> bool" where
  "isDestination p x \<longleftrightarrow> rq_isToPOC (pkt_req p) \<and> xb_pointOfCoherency x \<or> rq_isToPOU (pkt_req p) \<and> xb_pointOfUnification x"

definition sinkPacket :: "packet \<Rightarrow> coherent_xbar \<Rightarrow> bool res" where
  "sinkPacket p x =
     (if xb_pointOfCoherency x \<and> pkt_isSet p CACHE_RESPONDING \<or>
         xb_pointOfCoherency x \<and> \<not> (cmd_isRead (pkt_cmd p) \<or> cmd_isWrite (pkt_cmd p)) \<and> \<not> cmd_needsResponse (pkt_cmd p) \<or>
         isCleanEviction p \<and> pkt_isSet p BLOCK_CACHED then Inr True
      else if pkt_isSet p CACHE_RESPONDING
      then bindR (pkt_needsWritable p) (\<lambda>nw. Inr (\<not> nw \<or> pkt_isSet p RESPONDER_HAD_WRITABLE)) else Inr False)"

definition forwardPacket :: "packet \<Rightarrow> coherent_xbar \<Rightarrow> bool" where
  "forwardPacket p x =
     (if cmd_isClean (pkt_cmd p) then \<not> isDestination p x
      else cmd_isRead (pkt_cmd p) \<or> cmd_isWrite (pkt_cmd p) \<or> \<not> xb_pointOfCoherency x)"

text \<open>The port of the memory is found for every packet, also for those that are not sent there.\<close>

definition findPort :: "packet \<Rightarrow> abstract_mem \<Rightarrow> unit res" where
  "findPort p m = bindR (getAddrRange p) (\<lambda>r. checkR Fatal (isSubset r (am_range m)) (Inr ()))"

definition set_filter :: "snoop_filter \<Rightarrow> ('s, 'm) cache_system \<Rightarrow> ('s, 'm) cache_system" where
  "set_filter sf sys = sys\<lparr>sy_xbar := (sy_xbar sys)\<lparr>xb_snoopFilter := Some sf\<rparr>\<rparr>"

text \<open>The snoop filter sees the response of a snooper: to a request of port \<open>src\<close>, or to a snoop from below.\<close>

definition filter_snoop_response ::
  "data_packet \<Rightarrow> nat \<Rightarrow> nat option \<Rightarrow> ('s, 'm) cache_system \<Rightarrow> ('s, 'm) cache_system res" where
  "filter_snoop_response p rsp src sys =
     (case xb_snoopFilter (sy_xbar sys) of None \<Rightarrow> Inr sys
      | Some sf \<Rightarrow> bindR (case src of None \<Rightarrow> updateSnoopForward (dp_pkt p) sf
          | Some i \<Rightarrow> updateSnoopResponse (is_port sys) (dp_pkt p) rsp i sf) (\<lambda>sf1. Inr (set_filter sf1 sys)))"

text \<open>
  The loop of \<open>forwardAtomic\<close>; \<open>snoop\<close> calls a snooper, \<open>orig\<close> is the command to restore and \<open>rsp\<close> the
  response so far.
\<close>

fun forward_loop ::
  "(nat \<Rightarrow> data_packet \<Rightarrow> ('s, 'm) cache_system \<Rightarrow> (data_packet \<times> ('s, 'm) cache_system) res) \<Rightarrow> nat option \<Rightarrow> command
   \<Rightarrow> nat list \<Rightarrow> command \<Rightarrow> data_packet \<Rightarrow> ('s, 'm) cache_system \<Rightarrow> (command \<times> data_packet \<times> ('s, 'm) cache_system) res" where
  "forward_loop snoop src orig [] rsp p sys = Inr (rsp, p, sys)"
| "forward_loop snoop src orig (j # js) rsp p sys =
     (if src = Some j then forward_loop snoop src orig js rsp p sys
      else bindR (snoop j p sys) (\<lambda>(p1, sys1).
        if \<not> cmd_isResponse (dp_cmd p1) then forward_loop snoop src orig js rsp p1 sys1
        else checkR AssertFail (dp_cmd p1 \<noteq> orig \<and> dp_isSet p1 CACHE_RESPONDING \<and> rsp = InvalidCmd)
          (bindR (filter_snoop_response p1 j src sys1) (\<lambda>sys2.
           forward_loop snoop src orig js (dp_cmd p1) (flag_pkt (\<lambda>q. q\<lparr>pkt_cmd := orig\<rparr>) p1) sys2))))"

definition forwardAtomic ::
  "(nat \<Rightarrow> data_packet \<Rightarrow> ('s, 'm) cache_system \<Rightarrow> (data_packet \<times> ('s, 'm) cache_system) res) \<Rightarrow> nat option \<Rightarrow> nat list
   \<Rightarrow> data_packet \<Rightarrow> ('s, 'm) cache_system \<Rightarrow> (command \<times> data_packet \<times> ('s, 'm) cache_system) res" where
  "forwardAtomic snoop src dests p sys =
     checkR AssertFail (\<not> xb_bypassCaches (sy_xbar sys)) (forward_loop snoop src (dp_cmd p) dests InvalidCmd p sys)"

text \<open>Snooping for a request of port \<open>i\<close>, all other caches or those the filter names.\<close>

definition snoop_request ::
  "(nat \<Rightarrow> data_packet \<Rightarrow> ('s, 'm) cache_system \<Rightarrow> (data_packet \<times> ('s, 'm) cache_system) res) \<Rightarrow> nat
   \<Rightarrow> data_packet \<Rightarrow> ('s, 'm) cache_system \<Rightarrow> (command \<times> data_packet \<times> ('s, 'm) cache_system) res" where
  "snoop_request snoop i p sys =
     (case xb_snoopFilter (sy_xbar sys) of
        None \<Rightarrow> forwardAtomic snoop (Some i) [0..<length (sy_caches sys)] p sys
      | Some sf \<Rightarrow> bindR (lookupRequest (is_port sys) (dp_pkt p) i sf) (\<lambda>(ps, sf1).
          bindR (pkt_getAddr (dp_pkt p)) (\<lambda>a. bindR (pkt_isSecure (dp_pkt p)) (\<lambda>s.
          bindR (finishRequest False a s sf1) (\<lambda>sf2.
          let sys1 = set_filter sf2 sys in
          if cmd_isEviction (dp_cmd p)
          then Inr (InvalidCmd, if ps \<noteq> [] then flag_pkt setBlockCached p else p, sys1)
          else forwardAtomic snoop (Some i) ps p sys1)))))"

text \<open>The packet goes to the memory, or the crossbar answers it.\<close>

definition to_memory :: "bool \<Rightarrow> data_packet \<Rightarrow> ('s, 'm) cache_system \<Rightarrow> (data_packet \<times> ('s, 'm) cache_system) res" where
  "to_memory is_destination p sys =
     bindR (sinkPacket (dp_pkt p) (sy_xbar sys)) (\<lambda>sink. bindR (findPort (dp_pkt p) (sy_mem sys)) (\<lambda>_.
     if sink then Inr (p, sys)
     else if forwardPacket (dp_pkt p) (sy_xbar sys)
     then bindR (mem_recvAtomic (if cmd_isWrite (dp_cmd p) \<and> is_destination then flag_pkt clearWriteThrough p else p) (sy_mem sys))
       (\<lambda>(p1, m1). Inr (p1, sys\<lparr>sy_mem := m1\<rparr>))
     else checkR AssertFail (cmd_needsResponse (dp_cmd p)) (bindR (on_pkt makeResponse p) (\<lambda>p1. Inr (p1, sys)))))"

definition filter_response :: "data_packet \<Rightarrow> nat \<Rightarrow> ('s, 'm) cache_system \<Rightarrow> ('s, 'm) cache_system res" where
  "filter_response p i sys =
     (case xb_snoopFilter (sy_xbar sys) of None \<Rightarrow> Inr sys
      | Some sf \<Rightarrow> if \<not> xb_bypassCaches (sy_xbar sys) \<and> cmd_isResponse (dp_cmd p)
          then bindR (updateResponse (is_port sys) (dp_pkt p) i sf) (\<lambda>sf1. Inr (set_filter sf1 sys)) else Inr sys)"

text \<open>The cache maintenance operations the crossbar has seen the write of.\<close>

definition track_clean :: "data_packet \<Rightarrow> ('s, 'm) cache_system \<Rightarrow> ('s, 'm) cache_system res" where
  "track_clean p sys =
     (let x = sy_xbar sys; k = pkt_id (dp_pkt p) in
      if cmd_isClean (dp_cmd p) \<and> isDestination (dp_pkt p) x \<and> dp_isSet p SATISFIED
      then checkR AssertFail (k \<in> set (xb_outstandingCMO x))
        (Inr (sys\<lparr>sy_xbar := x\<lparr>xb_outstandingCMO := removeAll k (xb_outstandingCMO x)\<rparr>\<rparr>))
      else if dp_cmd p = WriteClean \<and> isDestination (dp_pkt p) x
      then checkR AssertFail (k \<notin> set (xb_outstandingCMO x))
        (Inr (sys\<lparr>sy_xbar := x\<lparr>xb_outstandingCMO := k # xb_outstandingCMO x\<rparr>\<rparr>))
      else Inr sys)"

definition xbar_recvAtomic_with ::
  "(nat \<Rightarrow> data_packet \<Rightarrow> ('s, 'm) cache_system \<Rightarrow> (data_packet \<times> ('s, 'm) cache_system) res) \<Rightarrow> nat
   \<Rightarrow> data_packet \<Rightarrow> ('s, 'm) cache_system \<Rightarrow> (data_packet \<times> ('s, 'm) cache_system) res" where
  "xbar_recvAtomic_with snoop i p sys =
     (let is_destination = isDestination (dp_pkt p) (sy_xbar sys) in
      bindR (if \<not> xb_bypassCaches (sy_xbar sys) \<and> dp_cmd p \<noteq> WriteClean then snoop_request snoop i p sys
             else Inr (InvalidCmd, p, sys)) (\<lambda>(rsp, p1, sys1).
      bindR (to_memory is_destination p1 sys1) (\<lambda>(p2, sys2).
      bindR (filter_response p2 i sys2) (\<lambda>sys3.
      bindR (if rsp \<noteq> InvalidCmd
             then checkR AssertFail (\<not> cmd_isResponse (dp_cmd p2)) (Inr (flag_pkt (\<lambda>q. q\<lparr>pkt_cmd := rsp\<rparr>) p2)) else Inr p2) (\<lambda>p3.
      bindR (track_clean p3 sys3) (\<lambda>sys4. Inr (p3, sys4)))))))"

text \<open>The cache behind port \<open>j\<close> with the peers of its ports.\<close>

definition ports_of ::
  "('s, 'm) system_env \<Rightarrow> (nat \<Rightarrow> data_packet \<Rightarrow> ('s, 'm) cache_system \<Rightarrow> (data_packet \<times> ('s, 'm) cache_system) res) \<Rightarrow> nat
   \<Rightarrow> ('s, 'm) cache_system cache_ports" where
  "ports_of se below j = \<lparr>sendAtomic = below j, sendAtomicSnoop = se_above se j\<rparr>"

definition snoop_cache ::
  "('s, 'm) system_env \<Rightarrow> (nat \<Rightarrow> data_packet \<Rightarrow> ('s, 'm) cache_system \<Rightarrow> (data_packet \<times> ('s, 'm) cache_system) res) \<Rightarrow> nat
   \<Rightarrow> data_packet \<Rightarrow> ('s, 'm) cache_system \<Rightarrow> (data_packet \<times> ('s, 'm) cache_system) res" where
  "snoop_cache se below j p sys =
     bindR (vec_at (sy_caches sys) j) (\<lambda>c.
     bindR (recvAtomicSnoop (se_env se j) (ports_of se below j) p c sys) (\<lambda>(p1, c1, sys1).
     Inr (p1, sys1\<lparr>sy_caches := (sy_caches sys1)[j := c1]\<rparr>)))"

primrec xbar_recvAtomic ::
  "('s, 'm) system_env \<Rightarrow> nat \<Rightarrow> nat \<Rightarrow> data_packet \<Rightarrow> ('s, 'm) cache_system \<Rightarrow> (data_packet \<times> ('s, 'm) cache_system) res" where
  "xbar_recvAtomic se 0 = (\<lambda>i p sys. Inl Diverges)"
| "xbar_recvAtomic se (Suc fuel) = xbar_recvAtomic_with (snoop_cache se (xbar_recvAtomic se fuel))"

text \<open>A processor sends a packet to its cache.\<close>

definition cpu_access ::
  "('s, 'm) system_env \<Rightarrow> nat \<Rightarrow> nat \<Rightarrow> data_packet \<Rightarrow> ('s, 'm) cache_system \<Rightarrow> (data_packet \<times> ('s, 'm) cache_system) res" where
  "cpu_access se fuel i p sys =
     bindR (vec_at (sy_caches sys) i) (\<lambda>c.
     bindR (recvAtomic (se_env se i) (ports_of se (xbar_recvAtomic se fuel) i) p c sys) (\<lambda>(p1, c1, sys1).
     Inr (p1, sys1\<lparr>sy_caches := (sy_caches sys1)[i := c1]\<rparr>)))"

end
