(* ===== verification/Line_Packets.thy ===== *)
theory Line_Packets
  imports Packet_Data Bitfield
begin

unbundle bit_operations_syntax

text \<open>
  Generic facts on lines and packets for the proofs about coherence: the line of an address and the
  offset in it, the independence of the flags of a packet, the attributes of the commands that travel
  between caches, and the copying of bytes at an offset.
\<close>

named_theorems pkt_simps

section \<open>Lines\<close>

definition line :: "nat \<Rightarrow> addr \<Rightarrow> addr" where
  "line k a = a AND NOT (mask k)"

definition offset :: "nat \<Rightarrow> addr \<Rightarrow> nat" where
  "offset k a = unat (a AND mask k)"

text \<open>Block sizes are powers of two that are positive as an \<open>int\<close>.\<close>

definition blk_bits :: "uint32 \<Rightarrow> nat \<Rightarrow> bool" where
  "blk_bits bs k \<longleftrightarrow> k < 31 \<and> bs = 2 ^ k"

lemma blk_bits_unat:
  assumes "blk_bits bs k"
  shows "unat bs = 2 ^ k"
proof -
  have "(2 :: nat) ^ k < 2 ^ 32" using assms by (intro power_strict_increasing) (simp_all add: blk_bits_def)
  then have "unat (of_nat (2 ^ k) :: uint32) = 2 ^ k" unfolding unat_of_nat by simp
  then show ?thesis using assms by (simp add: blk_bits_def)
qed

lemma blk_mask: "blk_bits bs k \<Longrightarrow> ucast (bs - 1) = (mask k :: addr)"
  by (rule uint64_eqI) (auto simp: blk_bits_def bit_simps simp flip: mask_eq_exp_minus_1)

lemma blk_sint:
  assumes "blk_bits bs k"
  shows "sint bs = 2 ^ k"
proof -
  have "(2 :: int) ^ k < 2 ^ 31" using assms by (intro power_strict_increasing) (simp_all add: blk_bits_def)
  moreover have "uint bs = 2 ^ k" using blk_bits_unat [OF assms] by (metis of_nat_numeral of_nat_power of_nat_unat)
  moreover have "- (2 ^ 31) \<le> (2 :: int) ^ k" by (rule order_trans [of _ 0]) simp_all
  ultimately show ?thesis by (simp add: sint_uint signed_take_bit_int_eq_self)
qed

lemma blk_complement: "blk_bits bs k \<Longrightarrow> word_of_int (NOT (sint bs - 1)) = NOT (mask k :: addr)"
  by (simp add: blk_sint mask_eq_exp_minus_1 not_eq_complement)

lemma line_line [simp]: "line k (line k a) = line k a"
  by (simp add: line_def and.assoc)

lemma line_plus_offset: "line k a + of_nat (offset k a) = a"
proof -
  have "(a AND NOT (mask k)) + (a AND mask k) = (a AND NOT (mask k)) OR (a AND mask k)"
    by (rule disjunctive_add_eq_or) (rule uint64_eqI, auto simp: bit_simps)
  also have "\<dots> = a" by (rule uint64_eqI) (auto simp: bit_simps)
  finally show ?thesis by (simp add: line_def offset_def)
qed

lemma offset_less: "offset k a < 2 ^ k"
  by (simp add: offset_def unsigned_take_bit_eq flip: take_bit_eq_mask)

lemma offset_line [simp]: "offset k (line k a) = 0"
  by (simp add: line_def offset_def and.assoc)

section \<open>Flags\<close>

lemma any_set_bit: "any_set f m \<longleftrightarrow> (\<exists>i. bit f i \<and> bit m i)"
  using bit_imp_le_length by (auto simp: any_set_def bit_eq_iff bit_simps)

lemma any_set_or: "any_set (f OR g) m \<longleftrightarrow> any_set f m \<or> any_set g m"
  by (auto simp: any_set_bit bit_simps)

lemma any_set_and_not: "any_set m n = False \<Longrightarrow> any_set (f AND NOT m) n = any_set f n"
  by (auto simp: any_set_bit bit_simps dest: bit_imp_le_length)

lemma pkt_isSet_set [pkt_simps]: "pkt_isSet (pkt_set m p) n \<longleftrightarrow> pkt_isSet p n \<or> any_set m n"
  by (simp add: pkt_isSet_def pkt_set_def any_set_or)

lemma pkt_isSet_clear [pkt_simps]: "any_set m n = False \<Longrightarrow> pkt_isSet (pkt_clear m p) n = pkt_isSet p n"
  by (simp add: pkt_isSet_def pkt_clear_def any_set_and_not)

lemma pkt_set_fields [simp]:
  "pkt_cmd (pkt_set m p) = pkt_cmd p" "pkt_req (pkt_set m p) = pkt_req p" "pkt_addr (pkt_set m p) = pkt_addr p"
  "pkt_secure (pkt_set m p) = pkt_secure p" "pkt_size (pkt_set m p) = pkt_size p" "pkt_id (pkt_set m p) = pkt_id p"
  by (simp_all add: pkt_set_def)

lemma pkt_clear_fields [simp]:
  "pkt_cmd (pkt_clear m p) = pkt_cmd p" "pkt_req (pkt_clear m p) = pkt_req p" "pkt_addr (pkt_clear m p) = pkt_addr p"
  "pkt_secure (pkt_clear m p) = pkt_secure p" "pkt_size (pkt_clear m p) = pkt_size p" "pkt_id (pkt_clear m p) = pkt_id p"
  by (simp_all add: pkt_clear_def)

lemma pkt_isSet_update [simp]: "pkt_isSet (p\<lparr>pkt_cmd := c\<rparr>) m = pkt_isSet p m"
  by (simp add: pkt_isSet_def)

lemma flags_disjoint [pkt_simps]:
  "\<not> any_set HAS_SHARERS CACHE_RESPONDING" "\<not> any_set HAS_SHARERS RESPONDER_HAD_WRITABLE" "\<not> any_set HAS_SHARERS BLOCK_CACHED"
  "\<not> any_set HAS_SHARERS VALID_ADDR" "\<not> any_set HAS_SHARERS VALID_SIZE" "\<not> any_set HAS_SHARERS (STATIC_DATA OR DYNAMIC_DATA)"
  "\<not> any_set CACHE_RESPONDING HAS_SHARERS" "\<not> any_set CACHE_RESPONDING RESPONDER_HAD_WRITABLE"
  "\<not> any_set CACHE_RESPONDING BLOCK_CACHED" "\<not> any_set CACHE_RESPONDING VALID_ADDR" "\<not> any_set CACHE_RESPONDING VALID_SIZE"
  "\<not> any_set CACHE_RESPONDING (STATIC_DATA OR DYNAMIC_DATA)"
  "\<not> any_set RESPONDER_HAD_WRITABLE HAS_SHARERS" "\<not> any_set RESPONDER_HAD_WRITABLE CACHE_RESPONDING"
  "\<not> any_set RESPONDER_HAD_WRITABLE BLOCK_CACHED" "\<not> any_set RESPONDER_HAD_WRITABLE VALID_ADDR"
  "\<not> any_set RESPONDER_HAD_WRITABLE VALID_SIZE" "\<not> any_set RESPONDER_HAD_WRITABLE (STATIC_DATA OR DYNAMIC_DATA)"
  "\<not> any_set BLOCK_CACHED HAS_SHARERS" "\<not> any_set BLOCK_CACHED CACHE_RESPONDING" "\<not> any_set BLOCK_CACHED RESPONDER_HAD_WRITABLE"
  "\<not> any_set BLOCK_CACHED VALID_ADDR" "\<not> any_set BLOCK_CACHED VALID_SIZE" "\<not> any_set BLOCK_CACHED (STATIC_DATA OR DYNAMIC_DATA)"
  "\<not> any_set VALID_ADDR HAS_SHARERS" "\<not> any_set VALID_ADDR CACHE_RESPONDING" "\<not> any_set VALID_ADDR RESPONDER_HAD_WRITABLE"
  "\<not> any_set VALID_ADDR BLOCK_CACHED" "\<not> any_set VALID_ADDR VALID_SIZE" "\<not> any_set VALID_ADDR (STATIC_DATA OR DYNAMIC_DATA)"
  "\<not> any_set VALID_SIZE HAS_SHARERS" "\<not> any_set VALID_SIZE CACHE_RESPONDING" "\<not> any_set VALID_SIZE RESPONDER_HAD_WRITABLE"
  "\<not> any_set VALID_SIZE BLOCK_CACHED" "\<not> any_set VALID_SIZE VALID_ADDR" "\<not> any_set VALID_SIZE (STATIC_DATA OR DYNAMIC_DATA)"
  "\<not> any_set DYNAMIC_DATA HAS_SHARERS" "\<not> any_set DYNAMIC_DATA CACHE_RESPONDING" "\<not> any_set DYNAMIC_DATA RESPONDER_HAD_WRITABLE"
  "\<not> any_set DYNAMIC_DATA BLOCK_CACHED" "\<not> any_set DYNAMIC_DATA VALID_ADDR" "\<not> any_set DYNAMIC_DATA VALID_SIZE"
  "\<not> any_set EXPRESS_SNOOP HAS_SHARERS" "\<not> any_set EXPRESS_SNOOP CACHE_RESPONDING" "\<not> any_set EXPRESS_SNOOP RESPONDER_HAD_WRITABLE"
  "\<not> any_set EXPRESS_SNOOP BLOCK_CACHED" "\<not> any_set EXPRESS_SNOOP VALID_ADDR" "\<not> any_set EXPRESS_SNOOP VALID_SIZE"
  "\<not> any_set EXPRESS_SNOOP (STATIC_DATA OR DYNAMIC_DATA)"
  by (simp_all add: any_set_def pkt_flag_defs BLOCK_CACHED_def)

lemma flags_self [pkt_simps]:
  "any_set HAS_SHARERS HAS_SHARERS" "any_set CACHE_RESPONDING CACHE_RESPONDING" "any_set BLOCK_CACHED BLOCK_CACHED"
  "any_set RESPONDER_HAD_WRITABLE RESPONDER_HAD_WRITABLE" "any_set VALID_ADDR VALID_ADDR" "any_set VALID_SIZE VALID_SIZE"
  "any_set DYNAMIC_DATA (STATIC_DATA OR DYNAMIC_DATA)"
  by (simp_all add: any_set_def pkt_flag_defs BLOCK_CACHED_def)

section \<open>Commands\<close>

text \<open>The attributes of the commands of processors and of those between caches.\<close>

lemma attrs_ReadReq [simp]:
  "cmd_isRead ReadReq" "\<not> cmd_isWrite ReadReq" "\<not> cmd_isUpgrade ReadReq" "cmd_isRequest ReadReq"
  "\<not> cmd_isResponse ReadReq" "\<not> cmd_needsWritable ReadReq" "cmd_needsResponse ReadReq"
  "\<not> cmd_isInvalidate ReadReq" "\<not> cmd_isEviction ReadReq" "\<not> cmd_isClean ReadReq"
  "\<not> cmd_fromCache ReadReq" "\<not> cmd_hasData ReadReq" "\<not> cmd_isLLSC ReadReq" "\<not> cmd_isError ReadReq"
  "responseCommand ReadReq = ReadResp" "\<not> cmd_isWriteback ReadReq"
  by code_simp+

lemma attrs_WriteReq [simp]:
  "\<not> cmd_isRead WriteReq" "cmd_isWrite WriteReq" "\<not> cmd_isUpgrade WriteReq" "cmd_isRequest WriteReq"
  "\<not> cmd_isResponse WriteReq" "cmd_needsWritable WriteReq" "cmd_needsResponse WriteReq"
  "\<not> cmd_isInvalidate WriteReq" "\<not> cmd_isEviction WriteReq" "\<not> cmd_isClean WriteReq"
  "\<not> cmd_fromCache WriteReq" "cmd_hasData WriteReq" "\<not> cmd_isLLSC WriteReq" "\<not> cmd_isError WriteReq"
  "responseCommand WriteReq = WriteResp" "\<not> cmd_isWriteback WriteReq"
  by code_simp+

lemma attrs_WriteLineReq [simp]:
  "\<not> cmd_isRead WriteLineReq" "cmd_isWrite WriteLineReq" "\<not> cmd_isUpgrade WriteLineReq"
  "cmd_isRequest WriteLineReq" "\<not> cmd_isResponse WriteLineReq" "cmd_needsWritable WriteLineReq"
  "cmd_needsResponse WriteLineReq" "\<not> cmd_isInvalidate WriteLineReq" "\<not> cmd_isEviction WriteLineReq"
  "\<not> cmd_isClean WriteLineReq" "\<not> cmd_fromCache WriteLineReq" "cmd_hasData WriteLineReq"
  "\<not> cmd_isLLSC WriteLineReq" "\<not> cmd_isError WriteLineReq" "responseCommand WriteLineReq = WriteResp"
  "\<not> cmd_isWriteback WriteLineReq"
  by code_simp+

lemma attrs_LoadLockedReq [simp]:
  "cmd_isRead LoadLockedReq" "\<not> cmd_isWrite LoadLockedReq" "\<not> cmd_isUpgrade LoadLockedReq"
  "cmd_isRequest LoadLockedReq" "\<not> cmd_isResponse LoadLockedReq" "\<not> cmd_needsWritable LoadLockedReq"
  "cmd_needsResponse LoadLockedReq" "\<not> cmd_isInvalidate LoadLockedReq" "\<not> cmd_isEviction LoadLockedReq"
  "\<not> cmd_isClean LoadLockedReq" "\<not> cmd_fromCache LoadLockedReq" "\<not> cmd_hasData LoadLockedReq"
  "cmd_isLLSC LoadLockedReq" "\<not> cmd_isError LoadLockedReq" "responseCommand LoadLockedReq = ReadResp"
  "\<not> cmd_isWriteback LoadLockedReq"
  by code_simp+

lemma attrs_StoreCondReq [simp]:
  "\<not> cmd_isRead StoreCondReq" "cmd_isWrite StoreCondReq" "\<not> cmd_isUpgrade StoreCondReq"
  "cmd_isRequest StoreCondReq" "\<not> cmd_isResponse StoreCondReq" "cmd_needsWritable StoreCondReq"
  "cmd_needsResponse StoreCondReq" "\<not> cmd_isInvalidate StoreCondReq" "\<not> cmd_isEviction StoreCondReq"
  "\<not> cmd_isClean StoreCondReq" "\<not> cmd_fromCache StoreCondReq" "cmd_hasData StoreCondReq"
  "cmd_isLLSC StoreCondReq" "\<not> cmd_isError StoreCondReq" "responseCommand StoreCondReq = StoreCondResp"
  "\<not> cmd_isWriteback StoreCondReq"
  by code_simp+

lemma attrs_SwapReq [simp]:
  "cmd_isRead SwapReq" "cmd_isWrite SwapReq" "\<not> cmd_isUpgrade SwapReq" "cmd_isRequest SwapReq"
  "\<not> cmd_isResponse SwapReq" "cmd_needsWritable SwapReq" "cmd_needsResponse SwapReq"
  "\<not> cmd_isInvalidate SwapReq" "\<not> cmd_isEviction SwapReq" "\<not> cmd_isClean SwapReq"
  "\<not> cmd_fromCache SwapReq" "cmd_hasData SwapReq" "\<not> cmd_isLLSC SwapReq" "\<not> cmd_isError SwapReq"
  "responseCommand SwapReq = SwapResp" "\<not> cmd_isWriteback SwapReq"
  by code_simp+

lemma attrs_LockedRMWReadReq [simp]:
  "cmd_isRead LockedRMWReadReq" "\<not> cmd_isWrite LockedRMWReadReq" "\<not> cmd_isUpgrade LockedRMWReadReq"
  "cmd_isRequest LockedRMWReadReq" "\<not> cmd_isResponse LockedRMWReadReq" "cmd_needsWritable LockedRMWReadReq"
  "cmd_needsResponse LockedRMWReadReq" "\<not> cmd_isInvalidate LockedRMWReadReq"
  "\<not> cmd_isEviction LockedRMWReadReq" "\<not> cmd_isClean LockedRMWReadReq"
  "\<not> cmd_fromCache LockedRMWReadReq" "\<not> cmd_hasData LockedRMWReadReq" "\<not> cmd_isLLSC LockedRMWReadReq"
  "\<not> cmd_isError LockedRMWReadReq" "responseCommand LockedRMWReadReq = LockedRMWReadResp"
  "\<not> cmd_isWriteback LockedRMWReadReq"
  by code_simp+

lemma attrs_LockedRMWWriteReq [simp]:
  "\<not> cmd_isRead LockedRMWWriteReq" "cmd_isWrite LockedRMWWriteReq" "\<not> cmd_isUpgrade LockedRMWWriteReq"
  "cmd_isRequest LockedRMWWriteReq" "\<not> cmd_isResponse LockedRMWWriteReq" "cmd_needsWritable LockedRMWWriteReq"
  "cmd_needsResponse LockedRMWWriteReq" "\<not> cmd_isInvalidate LockedRMWWriteReq"
  "\<not> cmd_isEviction LockedRMWWriteReq" "\<not> cmd_isClean LockedRMWWriteReq"
  "\<not> cmd_fromCache LockedRMWWriteReq" "cmd_hasData LockedRMWWriteReq" "\<not> cmd_isLLSC LockedRMWWriteReq"
  "\<not> cmd_isError LockedRMWWriteReq" "responseCommand LockedRMWWriteReq = LockedRMWWriteResp"
  "\<not> cmd_isWriteback LockedRMWWriteReq"
  by code_simp+

lemma attrs_ReadSharedReq [simp]:
  "cmd_isRead ReadSharedReq" "\<not> cmd_isWrite ReadSharedReq" "\<not> cmd_isUpgrade ReadSharedReq"
  "cmd_isRequest ReadSharedReq" "\<not> cmd_isResponse ReadSharedReq" "\<not> cmd_needsWritable ReadSharedReq"
  "cmd_needsResponse ReadSharedReq" "\<not> cmd_isInvalidate ReadSharedReq" "\<not> cmd_isEviction ReadSharedReq"
  "\<not> cmd_isClean ReadSharedReq" "cmd_fromCache ReadSharedReq" "\<not> cmd_hasData ReadSharedReq"
  "\<not> cmd_isLLSC ReadSharedReq" "\<not> cmd_isError ReadSharedReq" "responseCommand ReadSharedReq = ReadResp"
  "\<not> cmd_isWriteback ReadSharedReq"
  by code_simp+

lemma attrs_ReadExReq [simp]:
  "cmd_isRead ReadExReq" "\<not> cmd_isWrite ReadExReq" "\<not> cmd_isUpgrade ReadExReq" "cmd_isRequest ReadExReq"
  "\<not> cmd_isResponse ReadExReq" "cmd_needsWritable ReadExReq" "cmd_needsResponse ReadExReq"
  "cmd_isInvalidate ReadExReq" "\<not> cmd_isEviction ReadExReq" "\<not> cmd_isClean ReadExReq"
  "cmd_fromCache ReadExReq" "\<not> cmd_hasData ReadExReq" "\<not> cmd_isLLSC ReadExReq"
  "\<not> cmd_isError ReadExReq" "responseCommand ReadExReq = ReadExResp" "\<not> cmd_isWriteback ReadExReq"
  by code_simp+

lemma attrs_UpgradeReq [simp]:
  "\<not> cmd_isRead UpgradeReq" "\<not> cmd_isWrite UpgradeReq" "cmd_isUpgrade UpgradeReq" "cmd_isRequest UpgradeReq"
  "\<not> cmd_isResponse UpgradeReq" "cmd_needsWritable UpgradeReq" "cmd_needsResponse UpgradeReq"
  "cmd_isInvalidate UpgradeReq" "\<not> cmd_isEviction UpgradeReq" "\<not> cmd_isClean UpgradeReq"
  "cmd_fromCache UpgradeReq" "\<not> cmd_hasData UpgradeReq" "\<not> cmd_isLLSC UpgradeReq"
  "\<not> cmd_isError UpgradeReq" "responseCommand UpgradeReq = UpgradeResp" "\<not> cmd_isWriteback UpgradeReq"
  by code_simp+

lemma attrs_SCUpgradeReq [simp]:
  "\<not> cmd_isRead SCUpgradeReq" "\<not> cmd_isWrite SCUpgradeReq" "cmd_isUpgrade SCUpgradeReq"
  "cmd_isRequest SCUpgradeReq" "\<not> cmd_isResponse SCUpgradeReq" "cmd_needsWritable SCUpgradeReq"
  "cmd_needsResponse SCUpgradeReq" "cmd_isInvalidate SCUpgradeReq" "\<not> cmd_isEviction SCUpgradeReq"
  "\<not> cmd_isClean SCUpgradeReq" "cmd_fromCache SCUpgradeReq" "\<not> cmd_hasData SCUpgradeReq"
  "cmd_isLLSC SCUpgradeReq" "\<not> cmd_isError SCUpgradeReq" "responseCommand SCUpgradeReq = UpgradeResp"
  "\<not> cmd_isWriteback SCUpgradeReq"
  by code_simp+

lemma attrs_InvalidateReq [simp]:
  "\<not> cmd_isRead InvalidateReq" "\<not> cmd_isWrite InvalidateReq" "\<not> cmd_isUpgrade InvalidateReq"
  "cmd_isRequest InvalidateReq" "\<not> cmd_isResponse InvalidateReq" "cmd_needsWritable InvalidateReq"
  "cmd_needsResponse InvalidateReq" "cmd_isInvalidate InvalidateReq" "\<not> cmd_isEviction InvalidateReq"
  "\<not> cmd_isClean InvalidateReq" "cmd_fromCache InvalidateReq" "\<not> cmd_hasData InvalidateReq"
  "\<not> cmd_isLLSC InvalidateReq" "\<not> cmd_isError InvalidateReq"
  "responseCommand InvalidateReq = InvalidateResp" "\<not> cmd_isWriteback InvalidateReq"
  by code_simp+

lemma attrs_WritebackDirty [simp]:
  "\<not> cmd_isRead WritebackDirty" "cmd_isWrite WritebackDirty" "\<not> cmd_isUpgrade WritebackDirty"
  "cmd_isRequest WritebackDirty" "\<not> cmd_isResponse WritebackDirty" "\<not> cmd_needsWritable WritebackDirty"
  "\<not> cmd_needsResponse WritebackDirty" "\<not> cmd_isInvalidate WritebackDirty" "cmd_isEviction WritebackDirty"
  "\<not> cmd_isClean WritebackDirty" "cmd_fromCache WritebackDirty" "cmd_hasData WritebackDirty"
  "\<not> cmd_isLLSC WritebackDirty" "\<not> cmd_isError WritebackDirty" "responseCommand WritebackDirty = InvalidCmd"
  "cmd_isWriteback WritebackDirty"
  by code_simp+

lemma attrs_WritebackClean [simp]:
  "\<not> cmd_isRead WritebackClean" "cmd_isWrite WritebackClean" "\<not> cmd_isUpgrade WritebackClean"
  "cmd_isRequest WritebackClean" "\<not> cmd_isResponse WritebackClean" "\<not> cmd_needsWritable WritebackClean"
  "\<not> cmd_needsResponse WritebackClean" "\<not> cmd_isInvalidate WritebackClean" "cmd_isEviction WritebackClean"
  "\<not> cmd_isClean WritebackClean" "cmd_fromCache WritebackClean" "cmd_hasData WritebackClean"
  "\<not> cmd_isLLSC WritebackClean" "\<not> cmd_isError WritebackClean" "responseCommand WritebackClean = InvalidCmd"
  "cmd_isWriteback WritebackClean"
  by code_simp+

lemma attrs_InvalidCmd [simp]:
  "\<not> cmd_hasData InvalidCmd" "\<not> cmd_isRequest InvalidCmd" "\<not> cmd_isResponse InvalidCmd"
  by code_simp+

lemma attrs_CleanEvict [simp]:
  "\<not> cmd_isRead CleanEvict" "\<not> cmd_isWrite CleanEvict" "\<not> cmd_isUpgrade CleanEvict"
  "cmd_isRequest CleanEvict" "\<not> cmd_isResponse CleanEvict" "\<not> cmd_needsWritable CleanEvict"
  "\<not> cmd_needsResponse CleanEvict" "\<not> cmd_isInvalidate CleanEvict" "cmd_isEviction CleanEvict"
  "\<not> cmd_isClean CleanEvict" "cmd_fromCache CleanEvict" "\<not> cmd_hasData CleanEvict"
  "\<not> cmd_isLLSC CleanEvict" "\<not> cmd_isError CleanEvict" "responseCommand CleanEvict = InvalidCmd"
  "\<not> cmd_isWriteback CleanEvict"
  by code_simp+

lemma attrs_ReadResp [simp]:
  "cmd_isRead ReadResp" "\<not> cmd_isWrite ReadResp" "\<not> cmd_isUpgrade ReadResp" "\<not> cmd_isRequest ReadResp"
  "cmd_isResponse ReadResp" "\<not> cmd_needsWritable ReadResp" "\<not> cmd_needsResponse ReadResp"
  "\<not> cmd_isInvalidate ReadResp" "\<not> cmd_isEviction ReadResp" "\<not> cmd_isClean ReadResp"
  "\<not> cmd_fromCache ReadResp" "cmd_hasData ReadResp" "\<not> cmd_isLLSC ReadResp" "\<not> cmd_isError ReadResp"
  "responseCommand ReadResp = InvalidCmd" "\<not> cmd_isWriteback ReadResp"
  by code_simp+

lemma attrs_ReadExResp [simp]:
  "cmd_isRead ReadExResp" "\<not> cmd_isWrite ReadExResp" "\<not> cmd_isUpgrade ReadExResp"
  "\<not> cmd_isRequest ReadExResp" "cmd_isResponse ReadExResp" "\<not> cmd_needsWritable ReadExResp"
  "\<not> cmd_needsResponse ReadExResp" "\<not> cmd_isInvalidate ReadExResp" "\<not> cmd_isEviction ReadExResp"
  "\<not> cmd_isClean ReadExResp" "\<not> cmd_fromCache ReadExResp" "cmd_hasData ReadExResp"
  "\<not> cmd_isLLSC ReadExResp" "\<not> cmd_isError ReadExResp" "responseCommand ReadExResp = InvalidCmd"
  "\<not> cmd_isWriteback ReadExResp"
  by code_simp+

lemma attrs_UpgradeResp [simp]:
  "\<not> cmd_isRead UpgradeResp" "\<not> cmd_isWrite UpgradeResp" "cmd_isUpgrade UpgradeResp"
  "\<not> cmd_isRequest UpgradeResp" "cmd_isResponse UpgradeResp" "\<not> cmd_needsWritable UpgradeResp"
  "\<not> cmd_needsResponse UpgradeResp" "\<not> cmd_isInvalidate UpgradeResp" "\<not> cmd_isEviction UpgradeResp"
  "\<not> cmd_isClean UpgradeResp" "\<not> cmd_fromCache UpgradeResp" "\<not> cmd_hasData UpgradeResp"
  "\<not> cmd_isLLSC UpgradeResp" "\<not> cmd_isError UpgradeResp" "responseCommand UpgradeResp = InvalidCmd"
  "\<not> cmd_isWriteback UpgradeResp"
  by code_simp+

lemma attrs_InvalidateResp [simp]:
  "\<not> cmd_isRead InvalidateResp" "\<not> cmd_isWrite InvalidateResp" "\<not> cmd_isUpgrade InvalidateResp"
  "\<not> cmd_isRequest InvalidateResp" "cmd_isResponse InvalidateResp" "\<not> cmd_needsWritable InvalidateResp"
  "\<not> cmd_needsResponse InvalidateResp" "cmd_isInvalidate InvalidateResp" "\<not> cmd_isEviction InvalidateResp"
  "\<not> cmd_isClean InvalidateResp" "\<not> cmd_fromCache InvalidateResp" "\<not> cmd_hasData InvalidateResp"
  "\<not> cmd_isLLSC InvalidateResp" "\<not> cmd_isError InvalidateResp" "responseCommand InvalidateResp = InvalidCmd"
  "\<not> cmd_isWriteback InvalidateResp"
  by code_simp+

section \<open>Bytes at an offset\<close>

definition slice :: "nat \<Rightarrow> nat \<Rightarrow> 'a list \<Rightarrow> 'a list" where
  "slice off n d = take n (drop off d)"

definition overlay :: "nat \<Rightarrow> 'a list \<Rightarrow> 'a list \<Rightarrow> 'a list" where
  "overlay off new d = take off d @ new @ drop (off + length new) d"

lemma length_slice [simp]: "off + n \<le> length d \<Longrightarrow> length (slice off n d) = n"
  by (simp add: slice_def)

lemma length_overlay [simp]: "off + length new \<le> length d \<Longrightarrow> length (overlay off new d) = length d"
  by (simp add: overlay_def)

lemma overlay_slice [simp]: "off + n \<le> length d \<Longrightarrow> overlay off (slice off n d) d = d"
  by (simp add: overlay_def slice_def) (metis add.commute append_take_drop_id drop_drop)

lemma overlay_all [simp]: "length new = length d \<Longrightarrow> overlay 0 new d = new"
  by (simp add: overlay_def)

text \<open>The bytes a write leaves at its place: those enabled by the mask come from the packet.\<close>

definition merged :: "data_packet \<Rightarrow> byte list \<Rightarrow> byte list" where
  "merged p old = (if pkt_isMaskedWrite (dp_pkt p)
     then map (\<lambda>i. if rq_byteEnable (dp_req p) ! i then dp_data p ! i else old ! i) [0..<length old] else dp_data p)"

section \<open>Well-formed packets\<close>

text \<open>A packet for \<open>n\<close> bytes at address \<open>a\<close> of the non-secure space, and one with room for them.\<close>

definition addressed :: "data_packet \<Rightarrow> addr \<Rightarrow> nat \<Rightarrow> bool" where
  "addressed p a n \<longleftrightarrow> dp_isSet p VALID_ADDR \<and> dp_isSet p VALID_SIZE \<and> pkt_addr (dp_pkt p) = a \<and>
     unat (pkt_size (dp_pkt p)) = n \<and> \<not> pkt_secure (dp_pkt p)"

definition carries :: "data_packet \<Rightarrow> nat \<Rightarrow> bool" where
  "carries p n \<longleftrightarrow> dp_isSet p (STATIC_DATA OR DYNAMIC_DATA) \<and> length (dp_data p) = n \<and>
     (pkt_isMaskedWrite (dp_pkt p) \<longrightarrow> length (rq_byteEnable (dp_req p)) = n)"

lemma addressed_get:
  assumes "addressed p a n"
  shows "pkt_getAddr (dp_pkt p) = Inr a" "pkt_getSize (dp_pkt p) = Inr (pkt_size (dp_pkt p))" "pkt_isSecure (dp_pkt p) = Inr False"
    "unat (pkt_size (dp_pkt p)) = n" "pkt_addr (dp_pkt p) = a" "pkt_secure (dp_pkt p) = False"
  using assms by (auto simp: addressed_def pkt_getAddr_def pkt_getSize_def pkt_isSecure_def)

lemma addressed_line:
  assumes "addressed p a n" "blk_bits bs k"
  shows "pkt_getOffset bs (dp_pkt p) = Inr (a AND mask k)" "pkt_getBlockAddr bs (dp_pkt p) = Inr (line k a)"
    "unat (a AND mask k) = offset k a"
  using addressed_get [OF assms(1)] blk_mask [OF assms(2)]
  by (simp_all add: pkt_getOffset_def pkt_getBlockAddr_def line_def offset_def)

lemma setData_ok:
  assumes "addressed p a n" "carries p n" "\<not> pkt_isMaskedWrite (dp_pkt p)" "n \<le> length src"
  shows "setData src p = Inr (p\<lparr>dp_data := take n src\<rparr>)"
  using assms addressed_get [OF assms(1)] by (simp add: setData_def getPtr_def carries_def memcpy_def)

lemma setDataFromBlock_ok:
  assumes "addressed p a n" "carries p n" "\<not> pkt_isMaskedWrite (dp_pkt p)" "blk_bits bs k" "offset k a + n \<le> length d"
  shows "setDataFromBlock d bs p = Inr (p\<lparr>dp_data := slice (offset k a) n d\<rparr>)"
  using setData_ok [OF assms(1-3), of "drop (offset k a) d"] assms(5)
  by (simp add: setDataFromBlock_def addressed_line [OF assms(1,4)] slice_def)

lemma writeData_ok:
  assumes "addressed p a n" "carries p n" "n \<le> length dst"
  shows "writeData p dst = Inr (overlay 0 (merged p (take n dst)) dst)"
  using assms addressed_get [OF assms(1)]
  by (auto simp: writeData_def getConstPtr_def carries_def memcpy_def write_masked_def overlay_def merged_def)

lemma length_merged [simp]: "carries p n \<Longrightarrow> length old = n \<Longrightarrow> length (merged p old) = n"
  by (simp add: merged_def carries_def)

lemma writeDataToBlock_ok:
  assumes "addressed p a n" "carries p n" "blk_bits bs k" "offset k a + n \<le> length d"
  shows "writeDataToBlock p d bs = Inr (overlay (offset k a) (merged p (slice (offset k a) n d)) d)"
  using assms(2,4) writeData_ok [OF assms(1,2), of "drop (offset k a) d"]
  by (simp add: writeDataToBlock_def addressed_line [OF assms(1,3)] overlay_def slice_def add.commute)

end
