(* ===== verification/Cache_View.thy ===== *)
theory Cache_View
  imports Classic_Cache Line_Packets
begin

unbundle bit_operations_syntax

text \<open>
  The content of a classic cache as a partial map from line addresses to copies, and what the
  operations on blocks do to this map.
\<close>

section \<open>Copies of lines\<close>

record line_copy =
  cp_readable :: bool
  cp_writable :: bool
  cp_dirty :: bool
  cp_data :: "byte list"

definition blk_addr :: "('s, 'm) classic_cache \<Rightarrow> nat \<Rightarrow> addr" where
  "blk_addr c i = regenerateBlkAddr (ca_tags c) (ts_blks (ca_tags c) ! i)"

definition copy_at :: "('s, 'm) classic_cache \<Rightarrow> nat \<Rightarrow> line_copy" where
  "copy_at c i = (let b = ts_blks (ca_tags c) ! i in
     \<lparr>cp_readable = isSet ReadableBit b, cp_writable = isSet WritableBit b, cp_dirty = isSet DirtyBit b, cp_data = ca_data c ! i\<rparr>)"

definition holds :: "('s, 'm) classic_cache \<Rightarrow> addr \<Rightarrow> nat \<Rightarrow> bool" where
  "holds c L i \<longleftrightarrow> i < length (ts_blks (ca_tags c)) \<and> te_valid (ts_blks (ca_tags c) ! i) \<and> blk_addr c i = L"

definition cview :: "('s, 'm) classic_cache \<Rightarrow> addr \<Rightarrow> line_copy option" where
  "cview c L = map_option (copy_at c) (List.find (holds c L) [0..<length (ts_blks (ca_tags c))])"

section \<open>Well-formed caches\<close>

text \<open>The tag and the set of a valid block are those of its address, which is aligned.\<close>

definition placed :: "nat \<Rightarrow> ('s, 'm) tag_store \<Rightarrow> cache_blk \<Rightarrow> bool" where
  "placed k ts b \<longleftrightarrow> (let a = regenerateBlkAddr ts b in
     te_tag b = extractTag (ts_ip ts) a \<and> getSet b = sa_extractSet (ts_ip ts) a \<and> line k a = a)"

definition blk_wf :: "nat \<Rightarrow> tick \<Rightarrow> ('s, 'm) tag_store \<Rightarrow> cache_blk \<Rightarrow> bool" where
  "blk_wf k T ts b \<longleftrightarrow> \<not> prefetched b \<and>
     (if te_valid b then \<not> te_secure b \<and> tickInserted b \<le> T \<and> placed k ts b else blk_coherence b AND AllBits = 0)"

text \<open>
  A cache between two atomic accesses: mostly inclusive, writable, without a write allocator, the queues
  and the temporary block empty.
\<close>

definition idle :: "nat \<Rightarrow> ('s, 'm) classic_cache \<Rightarrow> bool" where
  "idle k c \<longleftrightarrow> blk_bits (ca_blkSize c) k \<and> q_allocatedList (bc_mshrQueue (ca_base c)) = [] \<and>
     q_allocatedList (bc_writeBuffer (ca_base c)) = [] \<and> bc_mostlyIncl (ca_base c) \<and> bc_writeAllocator (ca_base c) = None \<and>
     \<not> ca_isReadOnly c \<and> \<not> te_valid (ca_temp c) \<and> ca_tempWriteback c = None"

definition tags_wf :: "('s \<Rightarrow> bool) \<Rightarrow> nat \<Rightarrow> tick \<Rightarrow> ('s, 'm) tag_store \<Rightarrow> bool" where
  "tags_wf pinv k T ts \<longleftrightarrow> ts_inv pinv ts \<and> setShift (ts_ip ts) = k \<and> tagShift (ts_ip ts) \<le> 32 \<and>
     blk_bits (tag_store.blkSize ts) k \<and> (\<forall>i < length (ts_blks ts). blk_wf k T ts (ts_blks ts ! i))"

definition cache_wf :: "('s \<Rightarrow> bool) \<Rightarrow> nat \<Rightarrow> tick \<Rightarrow> ('s, 'm) classic_cache \<Rightarrow> bool" where
  "cache_wf pinv k T c \<longleftrightarrow> tags_wf pinv k T (ca_tags c) \<and> idle k c \<and>
     length (ca_data c) = length (ts_blks (ca_tags c)) \<and> list_all (\<lambda>d. length d = 2 ^ k) (ca_data c)"

lemma cache_wf_parts:
  assumes "cache_wf pinv k T c"
  shows "ts_inv pinv (ca_tags c)" "ts_geom (ca_tags c)" "setShift (ts_ip (ca_tags c)) = k" "tagShift (ts_ip (ca_tags c)) \<le> 32"
    "blk_bits (ca_blkSize c) k" "length (ca_data c) = length (ts_blks (ca_tags c))" "idle k c"
    "i < length (ts_blks (ca_tags c)) \<Longrightarrow> blk_wf k T (ca_tags c) (ts_blks (ca_tags c) ! i)"
    "i < length (ts_blks (ca_tags c)) \<Longrightarrow> length (ca_data c ! i) = 2 ^ k"
    "blk_bits (tag_store.blkSize (ca_tags c)) k"
  using assms by (auto simp: cache_wf_def tags_wf_def ts_inv_def idle_def list_all_length)

text \<open>Lookups depend on the line only and find what the map holds.\<close>

lemma set_tag_line:
  assumes "ip_ok ip n" "setShift ip = k"
  shows "extractTag ip (line k a) = extractTag ip a" "sa_extractSet ip (line k a) = sa_extractSet ip a"
proof -
  have t: "tagShift ip = k + n" using assms by (simp add: ip_ok_def)
  show "extractTag ip (line k a) = extractTag ip a"
    by (rule uint64_eqI) (auto simp: extractTag_def line_def bit_simps t dest: bit_imp_le_length)
  show "sa_extractSet ip (line k a) = sa_extractSet ip a"
    by (rule bit_word_eqI) (auto simp: bit_sa_extractSet [OF assms(1)] line_def bit_simps assms(2) dest: bit_imp_le_length)
qed

lemma resident_holds:
  assumes "cache_wf pinv k T c"
  shows "resident (ca_tags c) \<lparr>key_address = a, key_secure = False\<rparr> i \<longleftrightarrow> holds c (line k a) i"
proof -
  let ?ts = "ca_tags c" let ?b = "ts_blks ?ts ! i"
  note w = cache_wf_parts [OF assms]
  obtain n where ip: "ip_ok (ts_ip ?ts) n" using w(2) by (auto simp: ts_geom_def Let_def)
  note st = set_tag_line [OF ip w(3)]
  have "regenerateBlkAddr ?ts ?b = line k a"
    if "te_tag ?b = extractTag (ts_ip ?ts) a" "getSet ?b = sa_extractSet (ts_ip ?ts) a"
    using sa_regenerate_ok [OF ip w(4) that(2)] that(1) by (simp add: regenerateBlkAddr_def line_def w(3))
  moreover have "te_tag ?b = extractTag (ts_ip ?ts) a \<and> getSet ?b = sa_extractSet (ts_ip ?ts) a \<and> \<not> te_secure ?b"
    if "holds c (line k a) i"
  proof -
    have "blk_wf k T ?ts ?b" "te_valid ?b" "regenerateBlkAddr ?ts ?b = line k a"
      using that w(8) by (auto simp: holds_def blk_addr_def)
    then show ?thesis using st [of a] by (auto simp: blk_wf_def placed_def)
  qed
  moreover have "te_secure ?b = False" if "i < length (ts_blks ?ts)" "te_valid ?b"
    using w(8) [OF that(1)] that(2) by (simp add: blk_wf_def)
  ultimately show ?thesis by (auto simp: resident_def holds_def te_match_def blk_addr_def)
qed

lemma holds_aligned: "cache_wf pinv k T c \<Longrightarrow> holds c L i \<Longrightarrow> line k L = L"
  using cache_wf_parts(8) [of pinv k T c i] by (auto simp: holds_def blk_addr_def blk_wf_def placed_def Let_def)

lemma holds_unique:
  assumes "cache_wf pinv k T c" "holds c L i" "holds c L j"
  shows "i = j"
proof -
  have "line k L = L" using holds_aligned [OF assms(1,2)] .
  then have "resident (ca_tags c) \<lparr>key_address = L, key_secure = False\<rparr> i" "resident (ca_tags c) \<lparr>key_address = L, key_secure = False\<rparr> j"
    using assms(2,3) by (simp_all add: resident_holds [OF assms(1)])
  then show ?thesis using cache_wf_parts(1) [OF assms(1)] by (auto simp: ts_inv_def)
qed

lemma cview_None: "cview c L = None \<longleftrightarrow> (\<forall>i. \<not> holds c L i)"
  by (auto simp: cview_def find_None_iff holds_def)

lemma cview_holds:
  assumes "cache_wf pinv k T c" "holds c L i"
  shows "cview c L = Some (copy_at c i)"
proof -
  obtain j where j: "List.find (holds c L) [0..<length (ts_blks (ca_tags c))] = Some j"
    using assms(2) cview_None [of c L] by (cases "List.find (holds c L) [0..<length (ts_blks (ca_tags c))]") (auto simp: cview_def)
  then have "holds c L j" by (rule find_member [THEN conjunct2])
  then show ?thesis using j holds_unique [OF assms(1,2)] by (simp add: cview_def)
qed

lemma cview_SomeE:
  assumes "cview c L = Some x"
  obtains i where "holds c L i" "x = copy_at c i"
  using assms by (auto simp: cview_def dest: find_member)

lemma find_view:
  assumes "cache_wf pinv k T c"
  shows "cview c (line k a) = None \<Longrightarrow> findBlock (ca_tags c) \<lparr>key_address = a, key_secure = False\<rparr> = Inr None"
    "holds c (line k a) i \<Longrightarrow> findBlock (ca_tags c) \<lparr>key_address = a, key_secure = False\<rparr> = Inr (Some i)"
  using cache_wf_parts(1) [OF assms]
  by (simp_all add: findBlock_None findBlock_Some resident_holds [OF assms] cview_None)

section \<open>Changing one block\<close>

text \<open>\<open>c'\<close> is \<open>c\<close> with block \<open>i\<close> replaced by \<open>b\<close> with data \<open>d\<close>; the replacement data may have changed.\<close>

definition reblock ::
  "('s, 'm) classic_cache \<Rightarrow> nat \<Rightarrow> cache_blk \<Rightarrow> byte list \<Rightarrow> ('s, 'm) classic_cache \<Rightarrow> bool" where
  "reblock c i b d c' \<longleftrightarrow> (\<exists>ts. updated (ca_tags c) i b ts \<and> tag_store.blkSize ts = tag_store.blkSize (ca_tags c) \<and>
     c' = c\<lparr>ca_tags := ts, ca_data := (ca_data c)[i := d]\<rparr>)"

definition copy_of :: "cache_blk \<Rightarrow> byte list \<Rightarrow> line_copy" where
  "copy_of b d = \<lparr>cp_readable = isSet ReadableBit b, cp_writable = isSet WritableBit b, cp_dirty = isSet DirtyBit b, cp_data = d\<rparr>"

lemma copy_at_of: "copy_at c i = copy_of (ts_blks (ca_tags c) ! i) (ca_data c ! i)"
  by (simp add: copy_at_def copy_of_def Let_def)

lemma reblock_parts:
  assumes "reblock c i b d c'"
  shows "ts_ip (ca_tags c') = ts_ip (ca_tags c)" "ts_blks (ca_tags c') = (ts_blks (ca_tags c))[i := b]"
    "ca_data c' = (ca_data c)[i := d]" "tag_store.blkSize (ca_tags c') = tag_store.blkSize (ca_tags c)"
    "ca_base c' = ca_base c" "idle k c' = idle k c" "ca_forwardSnoops c' = ca_forwardSnoops c"
    "ca_addrRanges c' = ca_addrRanges c" "ca_writebackClean c' = ca_writebackClean c" "ca_isReadOnly c' = ca_isReadOnly c"
    "ca_doFastWrites c' = ca_doFastWrites c"
  using assms by (auto simp: reblock_def updated_def idle_def)

lemma placed_cong: "ts_ip ts' = ts_ip ts \<Longrightarrow> placed k ts' b = placed k ts b"
  by (simp add: placed_def regenerateBlkAddr_def)

lemma reblock_wf:
  assumes "cache_wf pinv k T c" "reblock c i b d c'" "ts_inv pinv (ca_tags c')" "blk_wf k T (ca_tags c) b" "length d = 2 ^ k"
  shows "cache_wf pinv k T c'"
proof -
  note r = reblock_parts [OF assms(2)] and w = cache_wf_parts [OF assms(1)]
  have "blk_wf k T (ca_tags c') (ts_blks (ca_tags c') ! j)" if "j < length (ts_blks (ca_tags c'))" for j
    using that w(8) [of j] assms(4) by (auto simp: r nth_update blk_wf_def placed_cong [OF r(1)])
  then show ?thesis using assms(3,5) w r by (simp add: cache_wf_def tags_wf_def list_all_length nth_update)
qed

lemma reblock_others:
  assumes "reblock c i b d c'" "j \<noteq> i"
  shows "holds c' M j = holds c M j" "copy_at c' j = copy_at c j"
  using reblock_parts [OF assms(1)] assms(2) by (simp_all add: holds_def blk_addr_def regenerateBlkAddr_def copy_at_of)

lemma reblock_this:
  assumes "reblock c i b d c'" "i < length (ts_blks (ca_tags c))" "length (ca_data c) = length (ts_blks (ca_tags c))"
  shows "holds c' M i \<longleftrightarrow> te_valid b \<and> regenerateBlkAddr (ca_tags c) b = M" "copy_at c' i = copy_of b d"
  using reblock_parts [OF assms(1)] assms(2,3) by (simp_all add: holds_def blk_addr_def regenerateBlkAddr_def copy_at_of)

lemma reblock_view:
  assumes c: "cache_wf pinv k T c" and c': "cache_wf pinv k T c'" and r: "reblock c i b d c'"
    and i: "i < length (ts_blks (ca_tags c))"
  shows "cview c' M = (if te_valid b \<and> regenerateBlkAddr (ca_tags c) b = M then Some (copy_of b d)
    else if holds c M i then None else cview c M)"
proof -
  note here = reblock_this(1) [OF r i cache_wf_parts(6) [OF c], of M] reblock_this(2) [OF r i cache_wf_parts(6) [OF c]] and others = reblock_others [OF r]
  show ?thesis
  proof (cases "holds c' M i")
    case True
    then show ?thesis using cview_holds [OF c' True] here by simp
  next
    case new: False
    have gone: "\<not> (te_valid b \<and> regenerateBlkAddr (ca_tags c) b = M)" using new here(1) by blast
    show ?thesis
    proof (cases "holds c M i")
      case True
      have "\<not> holds c' M j" for j
        using new others(1) [of j M] holds_unique [OF c True, of j] by (cases "j = i") auto
      then have "cview c' M = None" by (simp add: cview_None)
      then show ?thesis unfolding if_not_P [OF gone] by (simp add: True)
    next
      case False
      have same: "holds c' M j = holds c M j" for j using new False others(1) by (cases "j = i") auto
      have copy: "copy_at c' j = copy_at c j" if "holds c M j" for j using others(2) that False by (cases "j = i") auto
      have "cview c' M = cview c M"
      proof (cases "cview c M")
        case None
        then have "cview c' M = None" using same by (simp add: cview_None)
        then show ?thesis using None by simp
      next
        case (Some x)
        then obtain j where j: "holds c M j" "x = copy_at c j" by (rule cview_SomeE)
        then show ?thesis using Some cview_holds [OF c', of M j] same copy by simp
      qed
      then show ?thesis unfolding if_not_P [OF gone] by (simp add: False)
    qed
  qed
qed

text \<open>The three ways a block changes: in place, out and in.\<close>

lemma reblock_in_place:
  assumes "cache_wf pinv k T c" "cache_wf pinv k T c'" "reblock c i b d c'" "holds c L i" "te_valid b"
    "regenerateBlkAddr (ca_tags c) b = L"
  shows "cview c' = (cview c)(L \<mapsto> copy_of b d)" "holds c' L i"
proof -
  have i: "i < length (ts_blks (ca_tags c))" using assms(4) by (simp add: holds_def)
  have other: "M \<noteq> L \<Longrightarrow> \<not> holds c M i" for M using assms(4) by (auto simp: holds_def)
  show "cview c' = (cview c)(L \<mapsto> copy_of b d)"
    by (rule ext, subst reblock_view [OF assms(1-3) i]) (use assms(5,6) other in simp)
  show "holds c' L i" using reblock_this(1) [OF assms(3) i cache_wf_parts(6) [OF assms(1)]] assms(5,6) by simp
qed

lemma reblock_out:
  assumes "cache_wf pinv k T c" "cache_wf pinv k T c'" "reblock c i b d c'" "holds c L i" "\<not> te_valid b"
  shows "cview c' = (cview c)(L := None)"
proof -
  have i: "i < length (ts_blks (ca_tags c))" using assms(4) by (simp add: holds_def)
  have other: "M \<noteq> L \<Longrightarrow> \<not> holds c M i" for M using assms(4) by (auto simp: holds_def)
  show ?thesis by (rule ext, subst reblock_view [OF assms(1-3) i]) (use assms(4,5) other in simp)
qed

lemma reblock_in:
  assumes "cache_wf pinv k T c" "cache_wf pinv k T c'" "reblock c i b d c'" "i < length (ts_blks (ca_tags c))"
    "\<not> te_valid (ts_blks (ca_tags c) ! i)" "te_valid b" "regenerateBlkAddr (ca_tags c) b = L"
  shows "cview c' = (cview c)(L \<mapsto> copy_of b d)" "holds c' L i"
proof -
  have "\<not> holds c M i" for M using assms(5) by (simp add: holds_def)
  then show "cview c' = (cview c)(L \<mapsto> copy_of b d)"
    by (intro ext, subst reblock_view [OF assms(1-4)]) (use assms(6,7) in simp)
  show "holds c' L i" using reblock_this(1) [OF assms(3,4) cache_wf_parts(6) [OF assms(1)]] assms(6,7) by simp
qed

end
