(* ===== verification/Cache_Block_Ops.thy ===== *)
theory Cache_Block_Ops
  imports Cache_View
begin

unbundle bit_operations_syntax

text \<open>
  What the operations on single blocks do to the copies of a classic cache: changing the state or the
  data of a block, invalidating and evicting it, and inserting a new one in the place of a victim.
\<close>

section \<open>State bits\<close>

lemma isSet_bits [simp]:
  "isSet m (b\<lparr>blk_coherence := x\<rparr>) \<longleftrightarrow> te_valid b \<and> any_set x m"
  by (simp add: isSet_def any_set_def)

lemma isSet_any: "isSet m b \<longleftrightarrow> te_valid b \<and> any_set (blk_coherence b) m"
  by (simp add: isSet_def any_set_def)

lemma bits_disjoint [simp]:
  "\<not> any_set ReadableBit WritableBit" "\<not> any_set ReadableBit DirtyBit" "\<not> any_set WritableBit ReadableBit"
  "\<not> any_set WritableBit DirtyBit" "\<not> any_set DirtyBit ReadableBit" "\<not> any_set DirtyBit WritableBit"
  "any_set ReadableBit ReadableBit" "any_set WritableBit WritableBit" "any_set DirtyBit DirtyBit"
  by (simp_all add: any_set_def ReadableBit_def WritableBit_def DirtyBit_def)

lemma setCoherenceBits_ok: "te_valid b \<Longrightarrow> setCoherenceBits m b = Inr (b\<lparr>blk_coherence := blk_coherence b OR m\<rparr>)"
  by (simp add: setCoherenceBits_def)

lemma isSet_clear:
  "isSet n (clearCoherenceBits m b) \<longleftrightarrow> te_valid b \<and> any_set (blk_coherence b AND NOT m) n"
  by (simp add: clearCoherenceBits_def)

lemma any_set_clear_self: "\<not> any_set (f AND NOT m) m"
  by (auto simp: any_set_bit bit_simps)

lemmas bit_facts = isSet_any isSet_clear any_set_or any_set_and_not any_set_clear_self

section \<open>Changing a block in place\<close>

definition same_ident :: "cache_blk \<Rightarrow> cache_blk \<Rightarrow> bool" where
  "same_ident b b' \<longleftrightarrow> te_valid b' = te_valid b \<and> te_tag b' = te_tag b \<and> te_secure b' = te_secure b \<and> getSet b' = getSet b \<and>
     prefetched b' = prefetched b \<and> tickInserted b' = tickInserted b"

lemma same_ident_intros [simp]:
  "same_ident b (b\<lparr>blk_coherence := x\<rparr>)" "same_ident b (clearCoherenceBits m b)" "same_ident b b"
  "same_ident b (b\<lparr>whenReady := t\<rparr>)" "same_ident b (b\<lparr>lockList := ls\<rparr>)" "same_ident b (increaseRefCount b)"
  by (simp_all add: same_ident_def clearCoherenceBits_def increaseRefCount_def getSet_def)

lemma same_ident_trans: "same_ident a b \<Longrightarrow> same_ident b c \<Longrightarrow> same_ident a c"
  by (simp add: same_ident_def)

lemma regenerate_ident: "same_ident b b' \<Longrightarrow> regenerateBlkAddr ts b' = regenerateBlkAddr ts b"
  by (simp add: same_ident_def regenerateBlkAddr_def sa_regenerateAddr_def)

lemma blk_wf_ident: "same_ident b b' \<Longrightarrow> te_valid b \<Longrightarrow> blk_wf k T ts b' = blk_wf k T ts b"
  using regenerate_ident [of b b' ts] by (simp add: same_ident_def blk_wf_def placed_def Let_def)

text \<open>The block and the data at \<open>i\<close> replaced, nothing else.\<close>

definition edit :: "nat \<Rightarrow> cache_blk \<Rightarrow> byte list \<Rightarrow> ('s, 'm) classic_cache \<Rightarrow> ('s, 'm) classic_cache" where
  "edit i b d c = put_data (TagBlk i) d (put_blk (TagBlk i) b c)"

lemma edit_eq:
  "edit i b d c = c\<lparr>ca_tags := (ca_tags c)\<lparr>ts_blks := (ts_blks (ca_tags c))[i := b]\<rparr>, ca_data := (ca_data c)[i := d]\<rparr>"
  by (simp add: edit_def put_data_def put_blk_def)

lemma edit_updated: "ts_geom (ca_tags c) \<Longrightarrow> updated (ca_tags c) i b (ca_tags (edit i b d c))"
  by (simp add: edit_eq updated_def ts_geom_def Let_def)

lemma edit_reblock: "ts_geom (ca_tags c) \<Longrightarrow> reblock c i b d (edit i b d c)"
  using edit_updated [of c i b d] unfolding reblock_def by (intro exI [of _ "ca_tags (edit i b d c)"]) (simp add: edit_eq)

lemma edit_inv:
  assumes "cache_wf pinv k T c" "i < length (ts_blks (ca_tags c))" "same_ident (ts_blks (ca_tags c) ! i) b"
  shows "ts_inv pinv (ca_tags (edit i b d c))"
proof -
  note inv = cache_wf_parts(1) [OF assms(1)] and g = cache_wf_parts(2) [OF assms(1)]
  let ?ts = "ca_tags (edit i b d c)"
  note u = edit_updated [OF g, of i b d]
  have "getSet b = getSet (ts_blks (ca_tags c) ! i)" using assms(3) by (simp add: same_ident_def)
  then show ?thesis
  proof (rule updated_inv [OF inv u])
    show "pinv (ts_policy ?ts)" using inv by (simp add: ts_inv_def edit_eq)
    show "\<not> te_valid b \<longrightarrow> \<not> te_secure b" using inv assms(2,3) by (auto simp: ts_inv_def same_ident_def)
  next
    fix key j
    assume a: "te_match (extractTag (ts_ip (ca_tags c))) key b" "getSet b = sa_extractSet (ts_ip (ca_tags c)) (key_address key)"
      "resident (ca_tags c) key j"
    then have "resident (ca_tags c) key i" using assms(2,3) by (auto simp: resident_def te_match_def same_ident_def)
    then show "j = i" using a(3) inv by (auto simp: ts_inv_def)
  qed
qed

lemma edit_ok:
  assumes "cache_wf pinv k T c" "holds c L i" "same_ident (ts_blks (ca_tags c) ! i) b" "length d = 2 ^ k"
  shows "cache_wf pinv k T (edit i b d c)" "cview (edit i b d c) = (cview c)(L \<mapsto> copy_of b d)" "holds (edit i b d c) L i"
proof -
  have i: "i < length (ts_blks (ca_tags c))" "te_valid (ts_blks (ca_tags c) ! i)"
    "regenerateBlkAddr (ca_tags c) (ts_blks (ca_tags c) ! i) = L" using assms(2) by (auto simp: holds_def blk_addr_def)
  note r = edit_reblock [OF cache_wf_parts(2) [OF assms(1)], of i b d]
  show w: "cache_wf pinv k T (edit i b d c)"
    by (rule reblock_wf [OF assms(1) r edit_inv [OF assms(1) i(1) assms(3)] _ assms(4)])
      (simp add: blk_wf_ident [OF assms(3) i(2)] cache_wf_parts(8) [OF assms(1) i(1)])
  have "te_valid b" "regenerateBlkAddr (ca_tags c) b = L"
    using assms(3) i(2,3) by (auto simp: same_ident_def regenerate_ident [OF assms(3)])
  then show "cview (edit i b d c) = (cview c)(L \<mapsto> copy_of b d)" "holds (edit i b d c) L i"
    using reblock_in_place [OF assms(1) w r assms(2)] by blast+
qed

lemma edit_simps [simp]:
  assumes "i < length (ts_blks (ca_tags c))"
  shows "blk_at (TagBlk i) (edit i b d c) = Inr b"
    "length (ca_data c) = length (ts_blks (ca_tags c)) \<Longrightarrow> data_at (TagBlk i) (edit i b d c) = Inr d"
    "put_blk (TagBlk i) b' (edit i b d c) = edit i b' d c" "put_data (TagBlk i) d' (edit i b d c) = edit i b d' c"
    "ca_base (edit i b d c) = ca_base c" "extractBlkOffset (ca_tags (edit i b d c)) = extractBlkOffset (ca_tags c)"
  using assms by (simp_all add: edit_def blk_at_def data_at_def put_blk_def put_data_def fun_eq_iff extractBlkOffset_def)

lemma edit_same:
  "i < length (ts_blks (ca_tags c)) \<Longrightarrow> edit i (ts_blks (ca_tags c) ! i) (ca_data c ! i) c = c"
  by (simp add: edit_def put_data_def put_blk_def)

text \<open>The parts of a cache that the operations on blocks leave alone.\<close>

definition same_frame :: "('s, 'm) classic_cache \<Rightarrow> ('s, 'm) classic_cache \<Rightarrow> bool" where
  "same_frame c c' \<longleftrightarrow> c' = c\<lparr>ca_tags := ca_tags c', ca_data := ca_data c'\<rparr>"

lemma same_frame_refl [simp]: "same_frame c c" by (simp add: same_frame_def)

lemma same_frame_trans: "same_frame a b \<Longrightarrow> same_frame b c \<Longrightarrow> same_frame a c"
  unfolding same_frame_def by (metis (no_types, lifting) classic_cache.surjective classic_cache.update_convs(2,3))

lemma same_frame_edit [simp]: "same_frame c (edit i b d c)"
  by (simp add: same_frame_def edit_def put_data_def put_blk_def)

lemma same_frame_simps:
  assumes "same_frame c c'"
  shows "ca_base c' = ca_base c" "ca_forwardSnoops c' = ca_forwardSnoops c" "ca_addrRanges c' = ca_addrRanges c"
    "ca_writebackClean c' = ca_writebackClean c" "ca_isReadOnly c' = ca_isReadOnly c" "ca_doFastWrites c' = ca_doFastWrites c"
    "ca_temp c' = ca_temp c" "ca_tempWriteback c' = ca_tempWriteback c" "ca_prefetchUnused c' = ca_prefetchUnused c"
  using assms unfolding same_frame_def by (metis classic_cache.select_convs classic_cache.surjective classic_cache.update_convs)+

lemma blk_at_tag [simp]: "i < length (ts_blks (ca_tags c)) \<Longrightarrow> blk_at (TagBlk i) c = Inr (ts_blks (ca_tags c) ! i)"
  by (simp add: blk_at_def)

section \<open>Removing and inserting blocks\<close>

lemma with_repl_blkSize: "with_repl f i ts = Inr ts' \<Longrightarrow> tag_store.blkSize ts' = tag_store.blkSize ts"
  by (auto simp: with_repl_def res_simps)

lemma invalidate_blkSize: "ts_invalidate P i ts = Inr ts' \<Longrightarrow> tag_store.blkSize ts' = tag_store.blkSize ts"
  by (auto simp: ts_invalidate_def res_simps dest!: with_repl_blkSize)

lemma insert_blkSize: "insertBlock P mr now tp i ts = Inr ts' \<Longrightarrow> tag_store.blkSize ts' = tag_store.blkSize ts"
  by (auto simp: insertBlock_def res_simps dest!: with_repl_blkSize)

lemma victim_blkSize: "findVictim P now key ts = Inr (v, ts') \<Longrightarrow> tag_store.blkSize ts' = tag_store.blkSize ts"
  by (auto simp: findVictim_def res_simps split: if_splits)

lemma access_blkSize: "accessBlock P now tp ts = Inr (r, ts') \<Longrightarrow> tag_store.blkSize ts' = tag_store.blkSize ts"
  unfolding accessBlock_def Let_def by (auto simp: res_simps split: option.splits dest!: with_repl_blkSize)

lemma blk_invalidate_prefetched [simp]: "\<not> prefetched (blk_invalidate b)"
  by (simp add: blk_invalidate_def clearCoherenceBits_def te_invalidate_def Let_def)

lemma blk_invalidate_bits [simp]: "blk_coherence (blk_invalidate b) AND AllBits = 0"
  by (simp add: blk_invalidate_def clearCoherenceBits_def te_invalidate_def Let_def and.assoc)

lemma holds_less: "holds c L i \<Longrightarrow> i < length (ts_blks (ca_tags c)) \<and> te_valid (ts_blks (ca_tags c) ! i)"
  by (simp add: holds_def)

lemma stats_irrelevant [simp]:
  "regenerateBlkAddr (ts\<lparr>ts_stats := st\<rparr>) b = regenerateBlkAddr ts b" "ts_inv pinv (ts\<lparr>ts_stats := st\<rparr>) = ts_inv pinv ts"
  "blk_wf k T (ts\<lparr>ts_stats := st\<rparr>) b = blk_wf k T ts b"
  by (simp_all add: regenerateBlkAddr_def ts_inv_def ts_geom_def resident_def blk_wf_def placed_def Let_def)

context linkless_policy
begin

lemma invalidateBlock_ok:
  assumes "cache_wf pinv k T c" "holds c L i" "ev_policy ev = P"
  shows "\<exists>c'. invalidateBlock ev (TagBlk i) c = Inr c' \<and> cache_wf pinv k T c' \<and> cview c' = (cview c)(L := None) \<and> same_frame c c' \<and>
    \<not> te_valid (ts_blks (ca_tags c') ! i) \<and> reblock c i (blk_invalidate (ts_blks (ca_tags c) ! i)) (ca_data c ! i) c'"
proof -
  note i = holds_less [OF assms(2)]
  let ?b = "blk_invalidate (ts_blks (ca_tags c) ! i)"
  obtain ts where ts: "ts_invalidate P i (ca_tags c) = Inr ts" "updated (ca_tags c) i ?b ts" "ts_inv pinv ts"
    using invalidate_step [OF cache_wf_parts(1) [OF assms(1)]] i by blast
  let ?c = "c\<lparr>ca_tags := ts\<rparr>"
  have r: "reblock c i ?b (ca_data c ! i) ?c"
    using ts(2) invalidate_blkSize [OF ts(1)] i cache_wf_parts(6) [OF assms(1)] unfolding reblock_def by (intro exI [of _ ts]) simp
  have w: "cache_wf pinv k T ?c"
    by (rule reblock_wf [OF assms(1) r]) (use ts(3) cache_wf_parts(9) [OF assms(1)] i in \<open>simp_all add: blk_wf_def\<close>)
  have "\<not> prefetched (ts_blks (ca_tags c) ! i)" using cache_wf_parts(8) [OF assms(1)] i by (simp add: blk_wf_def)
  then have "invalidateBlock ev (TagBlk i) c = Inr ?c" using i ts(1) assms(3) by (simp add: invalidateBlock_def)
  moreover have "cview ?c = (cview c)(L := None)" by (rule reblock_out [OF assms(1) w r assms(2)]) simp
  moreover have "\<not> te_valid (ts_blks (ca_tags ?c) ! i)" using ts(2) i by (simp add: updated_def)
  ultimately show ?thesis using w r by (intro exI [of _ ?c]) (simp add: same_frame_def)
qed

lemma accessBlock_ok:
  assumes "cache_wf pinv k T c" "tp_key tp = \<lparr>key_address = a, key_secure = False\<rparr>"
  shows "\<exists>r ts. accessBlock P now tp (ca_tags c) = Inr (r, ts) \<and> cache_wf pinv k T (c\<lparr>ca_tags := ts\<rparr>) \<and>
    cview (c\<lparr>ca_tags := ts\<rparr>) = cview c \<and>
    (case r of None \<Rightarrow> cview c (line k a) = None | Some i \<Rightarrow> holds (c\<lparr>ca_tags := ts\<rparr>) (line k a) i)"
proof (cases "cview c (line k a)")
  case None
  then have f: "findBlock (ca_tags c) (tp_key tp) = Inr None" using find_view(1) [OF assms(1)] assms(2) by simp
  then have "\<exists>st. accessBlock P now tp (ca_tags c) = Inr (None, (ca_tags c)\<lparr>ts_stats := st\<rparr>)"
    unfolding accessBlock_def Let_def by simp blast
  then obtain st where st: "accessBlock P now tp (ca_tags c) = Inr (None, (ca_tags c)\<lparr>ts_stats := st\<rparr>)" by blast
  let ?c = "c\<lparr>ca_tags := (ca_tags c)\<lparr>ts_stats := st\<rparr>\<rparr>"
  have "cview ?c = cview c"
    unfolding fun_eq_iff cview_def by (simp add: holds_def [abs_def] blk_addr_def copy_at_def [abs_def])
  moreover have "cache_wf pinv k T ?c" using assms(1) by (simp add: cache_wf_def tags_wf_def idle_def)
  ultimately show ?thesis using st None by (intro exI [of _ None] exI [of _ "(ca_tags c)\<lparr>ts_stats := st\<rparr>"]) simp
next
  case (Some x)
  then obtain i where h: "holds c (line k a) i" by (auto elim: cview_SomeE)
  note i = holds_less [OF h]
  have f: "findBlock (ca_tags c) (tp_key tp) = Inr (Some i)" using find_view(2) [OF assms(1) h] assms(2) by simp
  obtain r ts where r: "findBlock (ca_tags c) (tp_key tp) = Inr r" "accessBlock P now tp (ca_tags c) = Inr (r, ts)" "ts_inv pinv ts"
    using access_step [OF cache_wf_parts(1) [OF assms(1)], of tp now] by blast
  have ri: "r = Some i" using r(1) f by simp
  let ?b = "increaseRefCount (ts_blks (ca_tags c) ! i)" and ?c = "c\<lparr>ca_tags := ts\<rparr>"
  have g: "ts_geom (ca_tags c)" using cache_wf_parts(2) [OF assms(1)] .
  have rep: "\<forall>j < length (ts_repl (ca_tags c)). ts_repl (ca_tags c) ! j \<noteq> None" using g by (auto simp: ts_geom_def Let_def)
  have "updated (ca_tags c) i ?b ts"
    using r(2) rep unfolding ri accessBlock_def f
    by (auto simp: res_simps Let_def with_repl_def repl_of_def updated_def nth_update split: if_splits option.splits)
  then have rb: "reblock c i ?b (ca_data c ! i) ?c"
    using access_blkSize [OF r(2)] i cache_wf_parts(6) [OF assms(1)] unfolding reblock_def by (intro exI [of _ ts]) simp
  have id: "same_ident (ts_blks (ca_tags c) ! i) ?b" by simp
  have w: "cache_wf pinv k T ?c"
    by (rule reblock_wf [OF assms(1) rb])
      (use r(3) cache_wf_parts(8,9) [OF assms(1)] i in \<open>simp_all add: blk_wf_ident [OF id]\<close>)
  have "te_valid ?b" "regenerateBlkAddr (ca_tags c) ?b = line k a"
    using h by (simp_all add: holds_def blk_addr_def regenerate_ident [OF id])
  note v = reblock_in_place [OF assms(1) w rb h this]
  have "copy_of ?b (ca_data c ! i) = copy_at c i" by (simp add: copy_at_of copy_of_def isSet_def increaseRefCount_def)
  then have "cview ?c = cview c" using v(1) cview_holds [OF assms(1) h] by auto
  then show ?thesis using r(2) ri w v(2) by (intro exI [of _ "Some i"] exI [of _ ts]) simp
qed

end

section \<open>Evictions\<close>

text \<open>A packet that a cache makes for a line it drops.\<close>

definition evict_packet :: "nat \<Rightarrow> addr \<Rightarrow> data_packet \<Rightarrow> bool" where
  "evict_packet k L p \<longleftrightarrow> addressed p L (2 ^ k) \<and> dp_cmd p \<in> {WritebackDirty, WritebackClean, CleanEvict} \<and>
     \<not> dp_isSet p CACHE_RESPONDING \<and> \<not> dp_isSet p BLOCK_CACHED \<and> rq_flags (dp_req p) = 0 \<and>
     (dp_cmd p \<noteq> CleanEvict \<longrightarrow> carries p (2 ^ k))"

definition line_packet :: "command \<Rightarrow> nat \<Rightarrow> addr \<Rightarrow> uint32 \<Rightarrow> packet" where
  "line_packet cmd rid a s = \<lparr>pkt_cmd = cmd, pkt_flags = VALID_ADDR OR VALID_SIZE, pkt_id = rid,
     pkt_req = newRequest a s 0, pkt_addr = a, pkt_secure = False, pkt_size = s, pkt_senders = []\<rparr>"

lemma newPacket_own: "newPacket rid (newRequest a s 0) cmd = Inr (line_packet cmd rid a s)"
  by (simp add: newPacket_def line_packet_def newRequest_def rq_isHTMCmd_def rq_isHTMAbort_def rq_isSecure_def any_set_def
      pkt_set_def Let_def)

lemma own_flags [simp]:
  "\<not> any_set (VALID_ADDR OR VALID_SIZE) HAS_SHARERS" "\<not> any_set (VALID_ADDR OR VALID_SIZE) CACHE_RESPONDING"
  "\<not> any_set (VALID_ADDR OR VALID_SIZE) BLOCK_CACHED" "any_set (VALID_ADDR OR VALID_SIZE) VALID_ADDR"
  "\<not> any_set (VALID_ADDR OR VALID_SIZE) RESPONDER_HAD_WRITABLE"
  "any_set (VALID_ADDR OR VALID_SIZE) VALID_SIZE" "\<not> any_set (VALID_ADDR OR VALID_SIZE) (STATIC_DATA OR DYNAMIC_DATA)"
  by (simp_all add: any_set_def pkt_flag_defs BLOCK_CACHED_def)

lemma allocate_own:
  assumes "addressed p a n" "cmd_hasData (dp_cmd p) \<or> cmd_hasData (responseCommand (dp_cmd p))"
    "\<not> dp_isSet p (STATIC_DATA OR DYNAMIC_DATA)"
  shows "dp_allocate junk p = Inr (p\<lparr>dp_pkt := pkt_set DYNAMIC_DATA (dp_pkt p), dp_data := replicate n junk\<rparr>)"
  using assms by (simp add: dp_allocate_def pkt_allocate_def pkt_hasRespData_def pkt_getSize_def addressed_def pkt_simps)

lemma allocate_none:
  assumes "\<not> cmd_hasData (dp_cmd p)" "\<not> cmd_hasData (responseCommand (dp_cmd p))"
  shows "dp_allocate junk p = Inr p"
  using assms by (simp add: dp_allocate_def pkt_allocate_def pkt_hasRespData_def)

lemma unmasked: "dp_cmd p \<noteq> WriteReq \<Longrightarrow> \<not> pkt_isMaskedWrite (dp_pkt p)"
  by (simp add: pkt_isMaskedWrite_def)

lemma block_request_ok:
  assumes "cache_wf pinv k T c" "holds c L i"
  shows "block_request (TagBlk i) 0 c = Inr (newRequest L (ca_blkSize c) 0, taskId (ts_blks (ca_tags c) ! i))"
  using holds_less [OF assms(2)] assms cache_wf_parts(8) [OF assms(1), of i]
  by (simp add: block_request_def ca_regenerateBlkAddr_def blk_wf_def holds_def blk_addr_def)

text \<open>The packet takes the data of the block, the block loses its state.\<close>

lemma hand_over_ok:
  assumes c: "cache_wf pinv k T c" and h: "holds c L i"
    and p: "addressed p L (2 ^ k)" "cmd_hasData (dp_cmd p)" "\<not> dp_isSet p (STATIC_DATA OR DYNAMIC_DATA)" "dp_cmd p \<noteq> WriteReq"
  shows "\<exists>p' b. hand_over ev (TagBlk i) p c = Inr (p', edit i b (ca_data c ! i) c) \<and> same_ident (ts_blks (ca_tags c) ! i) b \<and>
    addressed p' L (2 ^ k) \<and> carries p' (2 ^ k) \<and> dp_cmd p' = dp_cmd p \<and> dp_req p' = dp_req p \<and> dp_data p' = ca_data c ! i \<and>
    dp_isSet p' CACHE_RESPONDING = dp_isSet p CACHE_RESPONDING \<and> dp_isSet p' BLOCK_CACHED = dp_isSet p BLOCK_CACHED"
proof -
  note i = holds_less [OF h] and w = cache_wf_parts [OF c]
  let ?b = "ts_blks (ca_tags c) ! i" and ?d = "ca_data c ! i"
  have len: "length ?d = 2 ^ k" using w(9) i by simp
  have al: "offset k L = 0" using holds_aligned [OF c h] offset_line [of k L] by simp
  define p1 where "p1 = (if isSet WritableBit ?b then p else flag_pkt setHasSharers p)"
  define b1 where "b1 = (if isSet WritableBit ?b then clearCoherenceBits WritableBit ?b else ?b)"
  define p2 where "p2 = p1\<lparr>dp_pkt := pkt_set DYNAMIC_DATA (dp_pkt p1), dp_data := replicate (2 ^ k) (ev_junk ev)\<rparr>"
  have p1: "addressed p1 L (2 ^ k)" "dp_cmd p1 = dp_cmd p" "\<not> dp_isSet p1 (STATIC_DATA OR DYNAMIC_DATA)" "dp_req p1 = dp_req p"
    "dp_isSet p1 CACHE_RESPONDING = dp_isSet p CACHE_RESPONDING" "dp_isSet p1 BLOCK_CACHED = dp_isSet p BLOCK_CACHED"
    using p by (auto simp: p1_def flag_pkt_def setHasSharers_def addressed_def pkt_simps)
  have al1: "dp_allocate (ev_junk ev) p1 = Inr p2" unfolding p2_def
    by (rule allocate_own [OF p1(1) _ p1(3)]) (simp add: p1(2) p(2))
  have p2: "addressed p2 L (2 ^ k)" "carries p2 (2 ^ k)" "\<not> pkt_isMaskedWrite (dp_pkt p2)"
    using p1(1,2) p(4) by (auto simp: p2_def addressed_def carries_def pkt_simps pkt_isMaskedWrite_def)
  have sd: "setDataFromBlock ?d (ca_blkSize c) p2 = Inr (p2\<lparr>dp_data := ?d\<rparr>)"
    using setDataFromBlock_ok [OF p2 w(5), of ?d] len al by (simp add: slice_def)
  let ?c1 = "put_blk (TagBlk i) (clearCoherenceBits DirtyBit b1) c"
  have c1: "?c1 = edit i (clearCoherenceBits DirtyBit b1) ?d c" by (simp add: edit_def put_blk_def put_data_def)
  have dt: "data_at (TagBlk i) ?c1 = Inr ?d" using i w(6) by (simp add: data_at_def put_blk_def)
  have "(if isSet WritableBit ?b then (p, clearCoherenceBits WritableBit ?b) else (flag_pkt setHasSharers p, ?b)) = (p1, b1)"
    by (simp add: p1_def b1_def)
  then have "hand_over ev (TagBlk i) p c = Inr (p2\<lparr>dp_data := ?d\<rparr>, ?c1)"
    using i al1 dt sd unfolding hand_over_def by (simp add: Let_def)
  moreover have "same_ident ?b (clearCoherenceBits DirtyBit b1)"
    by (auto simp: b1_def intro: same_ident_trans [OF same_ident_intros(2) same_ident_intros(2)])
  ultimately show ?thesis using p1 p2 len unfolding c1
    by (intro exI [of _ "p2\<lparr>dp_data := ?d\<rparr>"] exI [of _ "clearCoherenceBits DirtyBit b1"])
      (auto simp: p2_def addressed_def carries_def pkt_simps)
qed

lemma own_packet_ok:
  assumes "blk_bits bs k" "p = own_packet (line_packet cmd n L bs) task"
  shows "addressed p L (2 ^ k)" "dp_cmd p = cmd" "\<not> dp_isSet p (STATIC_DATA OR DYNAMIC_DATA)" "rq_flags (dp_req p) = 0"
    "\<not> dp_isSet p CACHE_RESPONDING" "\<not> dp_isSet p BLOCK_CACHED"
  using blk_bits_unat [OF assms(1)]
  by (auto simp: assms(2) own_packet_def line_packet_def addressed_def pkt_isSet_def newRequest_def)

lemma writebackBlk_ok:
  assumes c: "cache_wf pinv k T c" and h: "holds c L i" and d: "cview c L = Some x" "cp_dirty x \<or> ca_writebackClean c"
  shows "\<exists>p b. writebackBlk ev (TagBlk i) c = Inr (p, edit i b (ca_data c ! i) c) \<and> same_ident (ts_blks (ca_tags c) ! i) b \<and>
    evict_packet k L p \<and> dp_cmd p = (if cp_dirty x then WritebackDirty else WritebackClean) \<and> dp_data p = cp_data x"
proof -
  note i = holds_less [OF h] and w = cache_wf_parts [OF c]
  let ?b = "ts_blks (ca_tags c) ! i"
  let ?cmd = "if isSet DirtyBit ?b then WritebackDirty else WritebackClean"
  have x: "x = copy_at c i" using d(1) cview_holds [OF c h] by simp
  let ?p = "own_packet (line_packet ?cmd (ev_id ev) L (ca_blkSize c)) (taskId ?b)"
  note o = own_packet_ok [OF w(5) refl, of ?cmd "ev_id ev" L "taskId ?b"]
  have "cmd_hasData (dp_cmd ?p)" "dp_cmd ?p \<noteq> WriteReq" unfolding o(2) by simp_all
  then obtain p b where p: "hand_over ev (TagBlk i) ?p c = Inr (p, edit i b (ca_data c ! i) c)" "same_ident ?b b"
    "addressed p L (2 ^ k)" "carries p (2 ^ k)" "dp_cmd p = ?cmd" "dp_req p = dp_req ?p" "dp_data p = ca_data c ! i"
    "\<not> dp_isSet p CACHE_RESPONDING" "\<not> dp_isSet p BLOCK_CACHED"
    using hand_over_ok [OF c h o(1) _ o(3), where ev = ev] o(2,5,6) by metis
  have "writebackBlk ev (TagBlk i) c = Inr (p, edit i b (ca_data c ! i) c)"
    using i d(2) w(7) x block_request_ok [OF c h] p(1)
    by (simp add: writebackBlk_def idle_def copy_at_of copy_of_def newPacket_own)
  moreover have "evict_packet k L p" using p o(4) by (auto simp: evict_packet_def)
  ultimately show ?thesis using p(2,5,7) x by (intro exI [of _ p] exI [of _ b]) (simp add: copy_at_of copy_of_def)
qed

lemma cleanEvictBlk_ok:
  assumes c: "cache_wf pinv k T c" and h: "holds c L i" and d: "cview c L = Some x" "\<not> cp_dirty x" "\<not> ca_writebackClean c"
  shows "\<exists>p. cleanEvictBlk ev (TagBlk i) c = Inr p \<and> evict_packet k L p \<and> dp_cmd p = CleanEvict"
proof -
  note i = holds_less [OF h] and w = cache_wf_parts [OF c]
  let ?b = "ts_blks (ca_tags c) ! i" let ?p = "own_packet (line_packet CleanEvict (ev_id ev) L (ca_blkSize c)) (taskId ?b)"
  have x: "x = copy_at c i" using d(1) cview_holds [OF c h] by simp
  note o = own_packet_ok [OF w(5) refl, of CleanEvict "ev_id ev" L "taskId ?b"]
  have "dp_allocate (ev_junk ev) ?p = Inr ?p" using o(2) by (intro allocate_none) simp_all
  then have "cleanEvictBlk ev (TagBlk i) c = Inr ?p"
    using i d(2,3) x block_request_ok [OF c h] by (simp add: cleanEvictBlk_def copy_at_of copy_of_def newPacket_own)
  then show ?thesis using o by (intro exI [of _ ?p]) (simp add: evict_packet_def)
qed

text \<open>What the packet of an eviction says about the copy that was dropped.\<close>

definition evicts :: "nat \<Rightarrow> addr \<Rightarrow> line_copy \<Rightarrow> data_packet \<Rightarrow> bool" where
  "evicts k L x p \<longleftrightarrow> evict_packet k L p \<and> (dp_cmd p = WritebackDirty \<longleftrightarrow> cp_dirty x) \<and> (cp_dirty x \<longrightarrow> dp_data p = cp_data x)"

context linkless_policy
begin

lemma evictBlock_ok:
  assumes c: "cache_wf pinv k T c" and h: "holds c L i" and x: "cview c L = Some x" and P: "ev_policy ev = P"
  shows "\<exists>p c'. evictBlock ev (TagBlk i) c = Inr (p, c') \<and> cache_wf pinv k T c' \<and> cview c' = (cview c)(L := None) \<and> same_frame c c' \<and>
    \<not> te_valid (ts_blks (ca_tags c') ! i) \<and> getSet (ts_blks (ca_tags c') ! i) = getSet (ts_blks (ca_tags c) ! i) \<and>
    ts_ip (ca_tags c') = ts_ip (ca_tags c) \<and> length (ts_blks (ca_tags c')) = length (ts_blks (ca_tags c)) \<and> evicts k L x p"
proof -
  note i = holds_less [OF h] and w = cache_wf_parts [OF c]
  let ?b = "ts_blks (ca_tags c) ! i"
  have xd: "isSet DirtyBit ?b = cp_dirty x" using x cview_holds [OF c h] by (auto simp: copy_at_of copy_of_def)
  have "\<exists>p b. (if cp_dirty x \<or> ca_writebackClean c then writebackBlk ev (TagBlk i) c
      else bindR (cleanEvictBlk ev (TagBlk i) c) (\<lambda>p. Inr (p, c))) = Inr (p, edit i b (ca_data c ! i) c) \<and> same_ident ?b b \<and> evicts k L x p"
  proof (cases "cp_dirty x \<or> ca_writebackClean c")
    case True
    then show ?thesis using writebackBlk_ok [OF c h x True, of ev] by (auto simp: evicts_def)
  next
    case False
    then obtain p where "cleanEvictBlk ev (TagBlk i) c = Inr p" "evict_packet k L p" "dp_cmd p = CleanEvict"
      using cleanEvictBlk_ok [OF c h x, of ev] by auto
    then show ?thesis using False i by (intro exI [of _ p] exI [of _ ?b]) (simp add: evicts_def edit_same)
  qed
  then obtain p b where p: "(if cp_dirty x \<or> ca_writebackClean c then writebackBlk ev (TagBlk i) c
      else bindR (cleanEvictBlk ev (TagBlk i) c) (\<lambda>p. Inr (p, c))) = Inr (p, edit i b (ca_data c ! i) c)" "same_ident ?b b" "evicts k L x p"
    by blast
  let ?c = "edit i b (ca_data c ! i) c"
  have e: "cache_wf pinv k T ?c" "cview ?c = (cview c)(L \<mapsto> copy_of b (ca_data c ! i))" "holds ?c L i"
    using edit_ok [OF c h p(2)] w(9) i by auto
  obtain c' where c': "invalidateBlock ev (TagBlk i) ?c = Inr c'" "cache_wf pinv k T c'" "cview c' = (cview ?c)(L := None)"
    "same_frame ?c c'" "\<not> te_valid (ts_blks (ca_tags c') ! i)"
    "reblock ?c i (blk_invalidate (ts_blks (ca_tags ?c) ! i)) (ca_data ?c ! i) c'"
    using invalidateBlock_ok [OF e(1,3) P] by blast
  note r = reblock_parts [OF c'(6)]
  have "evictBlock ev (TagBlk i) c = Inr (p, c')" using p(1) c'(1) i by (simp add: evictBlock_def blk_isSet_def xd)
  moreover have "cview c' = (cview c)(L := None)" using c'(3) e(2) by simp
  moreover have "same_frame c c'" by (rule same_frame_trans [OF same_frame_edit c'(4)])
  moreover have "getSet (ts_blks (ca_tags c') ! i) = getSet ?b" using i p(2) by (simp add: r edit_eq same_ident_def)
  ultimately show ?thesis using c'(2,5) p(3) by (intro exI [of _ p] exI [of _ c']) (simp add: r edit_eq)
qed

end

end
