(* ===== verification/Spec2Isabelle.thy ===== *)
theory Spec2Isabelle
  imports Cache_System Rrip_RP Tree_Plru_RP Dueling_RP Set_Assoc_Tags Fa_Lru_Track Event_Theorems
    Stack_Dist_Probe Cache_Queues_Theorems Coherent_Xbar Cache_Block_Ops
begin

text \<open>
  A verification development for the adaptive replacement cache (ARC) that this repository adds to
  gem5, and for the parts of gem5 it works with.  The added files are \<open>arc_rp.cc\<close>, \<open>arc_rp.hh\<close>,
  \<open>CacheMemory.cc\<close> and \<open>replaceable_entry.hh\<close> at the top of \<open>src/\<close>; they replace their
  namesakes in the copy of gem5 under \<open>src/spec-2017/gem5_arc/\<close>, whose files are named here by their
  paths below \<open>gem5_arc/src\<close>.

  \<^bold>\<open>The program.\<close>  A replacement policy is an object with four operations (\<open>touch\<close>, \<open>reset\<close>,
  \<open>invalidate\<close>, \<open>getVictim\<close>) over replacement data that the cache keeps for each block.  Two
  families of caches call it: Ruby's \<open>CacheMemory\<close>, and the tag stores of the classic caches.  Both
  place blocks by an index computed from the address, both use saturating counters, bit fields and
  integer logarithms of \<open>base/\<close>, and all of it runs as actions of events in an event queue.

  \<^bold>\<open>Conventions\<close> (\<open>Prelude\<close>).  C++ integers are \<open>w word\<close> where wrap-around can
  matter, and \<open>nat\<close> or \<open>int\<close> where a lemma or a check of the code bounds them.  A call returns a
  value of \<open>'a res\<close>, whose left part says why the program stopped: \<open>panic\<close>, \<open>fatal\<close>, a failed
  \<open>assert\<close>, a division by zero, an index out of range, a null pointer, a deleted object, an empty
  \<open>std::function\<close>, or a loop that does not end.  Objects that the code shares are kept in an
  explicit store.  Virtual methods and code outside the repository are arguments.

  \<^bold>\<open>Replacement policies.\<close>
  \<^item> \<open>Repl_Policy\<close> models \<open>replaceable_entry.hh\<close> and \<open>replacement_policies/base.hh\<close> and holds
    the interface: the record of a policy's operations, and the locales \<open>victim_policy\<close> (the victim
    is a candidate, an invariant is kept) and \<open>total_policy\<close> (no operation fails), which every
    policy below interprets.
  \<^item> \<open>Arc_RP\<close> models ARC.  \<open>reset\<close> is shown to implement an abstract admission rule on the two
    ghost lists, the victim is characterised, and the runs that divide by zero are determined.
    \<open>Arc_System\<close> closes the policy under its interface: the target stays small, a ghost hit
    ignores the block's identity because every tag is zero, and the division by zero is reachable.
  \<^item> \<open>Recency_RP\<close> (LRU, MRU, LFU, BIP, weighted LRU, random, over \<open>Random_Gen\<close>), \<open>Fifo_RP\<close>
    (FIFO, second chance), \<open>Rrip_RP\<close> (BRRIP, SHiP), \<open>Tree_Plru_RP\<close> (tree pseudo-LRU) and
    \<open>Dueling_RP\<close> (set dueling between any two policies) model the policies ARC is compared with, each
    against its textbook rule.

  \<^bold>\<open>Ruby.\<close>  \<open>Ruby_Address\<close> (line addresses), \<open>Banked_Array\<close> (banks and ALU slots),
  \<open>Cache_Entry\<close> and \<open>Cache_Memory\<close> model \<open>mem/ruby/structures\<close>.  \<open>Cache_Inv\<close> gives the
  invariant and the view of the cache as a partial map, \<open>Cache_Ops\<close> the effect of each operation for
  any policy, \<open>Cache_System\<close> the construction, the reachable states and the failures that remain
  with ARC.

  \<^bold>\<open>Classic caches.\<close>  \<open>Indexing\<close> models the indexing policies, \<open>Cache_Blk\<close> the blocks with
  their load locks, \<open>Base_Tags\<close> and \<open>Set_Assoc_Tags\<close> the set-associative tag store over any
  policy.  \<open>Fa_Lru\<close>, \<open>Fa_Lru_List\<close>, \<open>Fa_Lru_Run\<close> and \<open>Fa_Lru_Track\<close> model the fully
  associative store and show that the caches it tracks count the misses of LRU caches of their sizes.

  \<^bold>\<open>Packets and miss queues of the classic caches.\<close>  \<open>Mem_Cmd\<close> holds the memory commands
  with their attributes and \<open>Packet\<close> requests, packets and their flags (\<open>mem/packet.hh\<close>,
  \<open>mem/request.hh\<close>).  \<open>Mshr\<close> models the miss status holding registers with their active and
  deferred targets (\<open>mem/cache/mshr.cc\<close>); \<open>Mshr_View\<close> gives what an operation changes of a
  register through a view, \<open>Mshr_Order\<close> the order of the waiting packets and \<open>Mshr_Life\<close> that a
  register answers its packets in the order of arrival.  \<open>Mem_Queue\<close> models the queue template, the
  queue of registers and the write queue; \<open>Mem_Queue_Inv\<close> shows for both, through the locale
  \<open>entry_store\<close>, that the free, allocated and ready lists account for every entry, and
  \<open>Mem_Queue_Theorems\<close> which register is served next.  \<open>Cache_Queues\<close> models the part of
  \<open>mem/cache/base.cc\<close> that works on the queues: blocking, the handling of a miss, the end of a
  response, the choice of the next packet and the write allocator.  \<open>Cache_Queues_Inv\<close> and
  \<open>Cache_Queues_Theorems\<close> show that a cache is blocked exactly for the queues that are full and that
  the chosen packet respects older requests to the same block.

  \<^bold>\<open>Classic caches with their data, in atomic mode.\<close>  \<open>Packet_Data\<close> adds the bytes to the
  packets.  \<open>Classic_Cache\<close> models the path of a request and of a snoop through \<open>mem/cache/base.cc\<close>
  and \<open>mem/cache/cache.cc\<close>: lookup, hits, misses, fills, evictions, writebacks and the temporary block.
  \<open>Snoop_Filter\<close>, \<open>Abstract_Mem\<close> and \<open>Coherent_Xbar\<close> model \<open>mem/snoop_filter.cc\<close>,
  \<open>mem/abstract_mem.cc\<close> and the atomic part of \<open>mem/coherent_xbar.cc\<close>, and put caches, crossbar and
  memory together.  \<open>Line_Packets\<close> relates packets to the lines they touch, \<open>Cache_View\<close> gives the
  content of a cache as a map from lines to copies, and \<open>Cache_Block_Ops\<close> shows what the operations
  on single blocks do to this map.

  \<^bold>\<open>Stack distances.\<close>  \<open>Stack_Dist\<close> models the tree of partial sums of
  \<open>mem/stack_dist_calc.cc\<close>, which tells for each access whether an LRU cache of a given size would
  hit.  \<open>Stack_Dist_Inv\<close> and \<open>Stack_Dist_Run\<close> give its invariant and the effect of removing a
  leaf, growing the tree and adding a leaf; \<open>Stack_Dist_Spec\<close> and \<open>Stack_Dist_Theorems\<close> show
  that it implements an LRU stack and that the debug checks of the code pass.  \<open>Stack_Dist_Probe\<close>
  models the probe that feeds it.

  \<^bold>\<open>Event queue.\<close>  \<open>Event_Queue\<close> models the two-level list of events of \<open>sim/eventq.cc\<close> and
  refines it to a sorted list; \<open>Event_Sim\<close> holds the operations, \<open>Event_Run\<close> and \<open>Event_Order\<close>
  the reachable states, \<open>Event_Theorems\<close> the order of service and the end of the loops.

  \<^bold>\<open>Base library.\<close>  \<open>Bitfield\<close>, \<open>Intmath\<close>, \<open>Popcount\<close> and \<open>Sat_Counter\<close> model
  \<open>base/bitfield.hh\<close>, \<open>base/intmath.hh\<close> and \<open>base/sat_counter.hh\<close>.

  \<^bold>\<open>Bounds and fuel.\<close>  The searches of \<open>second_chance_rp.cc\<close> and \<open>brrip_rp.cc\<close> recurse on a
  measure that each round decreases.  The walk that sets up the tracked caches of \<open>fa_lru.cc\<close> has
  the number of blocks as its fuel, which is the length of the list it walks.  The pointer loops of
  the event queue and the walks of the stack distance tree are partial functions; they are shown to
  return on every reachable state.  The stack distance tree is followed up to \<open>2 ^ 31\<close> accesses, where
  the shifts of the code leave the range of \<open>int\<close>.  Theorems
  on runs of FIFO and LRU assume that the 64-bit tick does not wrap within the run.

  \<^bold>\<open>Not modelled.\<close>  Printing, statistics registration, debugging output and Python glue (parameter
  classes, \<open>SConscript\<close>, run scripts).  \<open>frc_rp\<close>, whose code is commented out.  Of the classic
  caches the handling of hits, snoops and fills in timing mode, functional accesses, the sector and compressed
  tag stores, compressors and prefetchers (the cache's questions to its tags and its prefetcher are
  arguments of the definitions that ask them); of Ruby the coherence protocols (generated from SLICC), the network and the sequencer.
  The processor models, devices, architectures and the vendored libraries under \<open>ext/\<close> do not take
  part in replacement.  Mutual exclusion between simulator threads is assumed, not modelled.
\<close>

end
